(* ===== verification/Elua_Prelude.thy ===== *)
theory Elua_Prelude
  imports Main "HOL-Library.Word"
begin

text \<open>
  Shared vocabulary of the eLua development: the C integer types of \<^verbatim>\<open>type.h\<close> as machine
  words, the faults a C statement can run into (a null or out-of-bounds access, a shift or a
  division outside its domain), byte-addressed memory, C strings as zero-terminated byte
  sequences, and the general purpose macros of \<^verbatim>\<open>inc/utils.h\<close>. The lemmas on words, lists and
  memory that several components share are collected here.
\<close>

unbundle bit_operations_syntax

type_synonym u8 = "8 word"
type_synonym u16 = "16 word"
type_synonym u32 = "32 word"
type_synonym u64 = "64 word"

text \<open>What a C access can do instead of returning: the model makes it a value.\<close>

datatype c_fault = NullDeref | OutOfBounds | BadShift | DivByZero

text \<open>Sequencing of computations that can fail.\<close>

definition ebind :: "'e + 'a \<Rightarrow> ('a \<Rightarrow> 'e + 'b) \<Rightarrow> 'e + 'b" where
  "ebind r f = (case r of Inl e \<Rightarrow> Inl e | Inr x \<Rightarrow> f x)"

lemma ebind_simps [simp]: "ebind (Inl e) f = Inl e" "ebind (Inr x) f = f x"
  by (simp_all add: ebind_def)

lemma ebind_Inr_right [simp]: "ebind r Inr = r"
  by (cases r) simp_all

lemma ebind_eq_Inr: "ebind r f = Inr y \<longleftrightarrow> (\<exists>x. r = Inr x \<and> f x = Inr y)"
  by (cases r) auto

abbreviation PLATFORM_ERR :: int where "PLATFORM_ERR \<equiv> 0"
abbreviation PLATFORM_OK :: int where "PLATFORM_OK \<equiv> 1"
abbreviation PLATFORM_UNDERFLOW :: int where "PLATFORM_UNDERFLOW \<equiv> -1"

named_theorems mem_simps \<open>reading back what was stored in byte memory\<close>
named_theorems word_facts \<open>bounds and conversions of machine words\<close>

subsection \<open>Words and powers of two\<close>

lemma nat_and_mask [word_facts]: "(n :: nat) AND (2 ^ k - 1) = n mod 2 ^ k"
  by (metis mask_eq_exp_minus_1 take_bit_eq_mask take_bit_eq_mod)

lemma nat_and_mask_Suc [word_facts]: "(n :: nat) AND (2 ^ k - Suc 0) = n mod 2 ^ k"
  using nat_and_mask [of n k] by simp

lemma unat_of_nat_u16 [word_facts]: "n < 65536 \<Longrightarrow> unat (of_nat n :: u16) = n"
  by (simp add: unat_of_nat take_bit_nat_eq_self)

lemma unat_of_nat_u8 [word_facts]: "n < 256 \<Longrightarrow> unat (of_nat n :: u8) = n"
  by (simp add: unat_of_nat take_bit_nat_eq_self)

lemma unat_of_nat_u32 [word_facts]: "n < 4294967296 \<Longrightarrow> unat (of_nat n :: u32) = n"
  by (simp add: unat_of_nat take_bit_nat_eq_self)

lemma unat_lt_u8 [word_facts]: "unat (x :: u8) < 256"
  using unsigned_less [of x, where ?'a = nat] by simp

lemma unat_lt_u16 [word_facts]: "unat (x :: u16) < 65536"
  using unsigned_less [of x, where ?'a = nat] by simp

lemma unat_lt_u32 [word_facts]: "unat (x :: u32) < 4294967296"
  using unsigned_less [of x, where ?'a = nat] by simp

lemma unat_minus_one_u32: "unat (-1 :: u32) = 4294967295"
  by (simp add: unsigned_minus_1_eq_mask mask_eq_exp_minus_1)

lemma unat_Suc_u16 [word_facts]: "unat (x :: u16) < 65535 \<Longrightarrow> unat (x + 1) = Suc (unat x)"
  by (simp add: unat_word_ariths)

lemma unat_Suc_u32 [word_facts]: "unat (x :: u32) < 4294967295 \<Longrightarrow> unat (x + 1) = Suc (unat x)"
  by (simp add: unat_word_ariths)

lemma unat_pred_u16 [word_facts]: "x \<noteq> 0 \<Longrightarrow> unat (x - 1 :: u16) = unat x - 1"
  by (simp add: unat_minus_one)

lemma mod_less_twice: "m < 2 * n \<Longrightarrow> m mod n = (if m < n then m else m - n)" for m n :: nat
  by (auto simp: le_mod_geq not_less)

subsection \<open>Replacing a run of list elements\<close>

definition overwrite :: "'a list \<Rightarrow> nat \<Rightarrow> 'a list \<Rightarrow> 'a list" where
  "overwrite xs i ys = take i xs @ ys @ drop (i + length ys) xs"

lemma length_overwrite [simp]: "i + length ys \<le> length xs \<Longrightarrow> length (overwrite xs i ys) = length xs"
  by (simp add: overwrite_def)

lemma nth_overwrite:
  "i + length ys \<le> length xs \<Longrightarrow> k < length xs \<Longrightarrow>
   overwrite xs i ys ! k = (if i \<le> k \<and> k < i + length ys then ys ! (k - i) else xs ! k)"
  by (auto simp: overwrite_def nth_append min_def)

lemma overwrite_Nil [simp]: "overwrite xs i [] = xs"
  by (simp add: overwrite_def)

lemma overwrite_snoc:
  assumes "i + length ys < length xs"
  shows "(overwrite xs i ys)[i + length ys := y] = overwrite xs i (ys @ [y])"
  using assms by (auto simp: list_eq_iff_nth_eq nth_overwrite nth_list_update nth_append)

lemma take_drop_overwrite_same:
  "i + length ys \<le> length xs \<Longrightarrow> take (length ys) (drop i (overwrite xs i ys)) = ys"
  by (simp add: overwrite_def)

lemma take_drop_overwrite_other:
  assumes "i + length ys \<le> length xs" "k + n \<le> length xs" "k + n \<le> i \<or> i + length ys \<le> k"
  shows "take n (drop k (overwrite xs i ys)) = take n (drop k xs)"
proof (rule nth_equalityI)
  show "length (take n (drop k (overwrite xs i ys))) = length (take n (drop k xs))"
    using assms(1) by simp
next
  fix j
  assume "j < length (take n (drop k (overwrite xs i ys)))"
  with assms(1) have j: "j < n" "j < length xs - k" by auto
  then have "k + j < length xs" by simp
  with j assms show "take n (drop k (overwrite xs i ys)) ! j = take n (drop k xs) ! j"
    by (auto simp: nth_overwrite)
qed

subsection \<open>Duff's device\<close>

text \<open>
  \<^verbatim>\<open>DUFF_DEVICE_8\<close> enters an unrolled loop of eight copies of the action in its middle: the
  first pass runs the action \<open>count & 7\<close> times (eight times when that is zero), every further
  pass runs it eight times, and the loop goes on while the decremented pass counter is
  positive.
\<close>

fun duff_passes :: "nat \<Rightarrow> ('s \<Rightarrow> 's) \<Rightarrow> 's \<Rightarrow> 's" where
  "duff_passes n act s = (if n > 1 then duff_passes (n - 1) act ((act ^^ 8) s) else s)"

definition duff_device_8 :: "nat \<Rightarrow> ('s \<Rightarrow> 's) \<Rightarrow> 's \<Rightarrow> 's" where
  "duff_device_8 count act s =
     (let passes = (count + 7) div 8;
          entry = (if count mod 8 = 0 then 8 else count mod 8)
      in duff_passes passes act ((act ^^ entry) s))"

declare duff_passes.simps [simp del]

lemma duff_passes_iter: "duff_passes n act s = (act ^^ (8 * (n - 1))) s"
proof (induction n act s rule: duff_passes.induct)
  case (1 n act s)
  show ?case
  proof (cases "n > 1")
    case True
    then have split: "8 * (n - 1) = 8 * (n - 1 - 1) + 8" by simp
    have "duff_passes n act s = duff_passes (n - 1) act ((act ^^ 8) s)"
      using True by (simp add: duff_passes.simps [of n])
    also have "\<dots> = (act ^^ (8 * (n - 1 - 1))) ((act ^^ 8) s)"
      using "1.IH" True by blast
    also have "\<dots> = (act ^^ (8 * (n - 1 - 1) + 8)) s"
      by (simp only: funpow_add comp_def)
    finally show ?thesis by (simp only: split)
  next
    case False
    then show ?thesis by (simp add: duff_passes.simps [of n])
  qed
qed

lemma duff_total:
  assumes "0 < (n :: nat)"
  shows "8 * ((n + 7) div 8 - 1) + (if n mod 8 = 0 then 8 else n mod 8) = n"
proof -
  obtain q r where qr: "n = 8 * q + r" "r < 8" "n mod 8 = r"
    by (rule that [of "n div 8" "n mod 8"]) auto
  show ?thesis
  proof (cases "r = 0")
    case True
    then have "(n + 7) div 8 = q" using qr by (intro div_nat_eqI) auto
    with True qr assms show ?thesis by simp
  next
    case False
    then have "(n + 7) div 8 = q + 1" using qr by (intro div_nat_eqI) auto
    with False qr show ?thesis by simp
  qed
qed

lemma duff_device_8_funpow:
  assumes "0 < count"
  shows "duff_device_8 count act = act ^^ count"
proof
  fix s
  let ?r = "if count mod 8 = 0 then 8 else count mod 8"
  have "8 * ((count + 7) div 8 - 1) + ?r = count"
    using assms by (rule duff_total)
  then have "act ^^ count = (act ^^ (8 * ((count + 7) div 8 - 1))) \<circ> (act ^^ ?r)"
    by (metis funpow_add)
  then show "duff_device_8 count act s = (act ^^ count) s"
    unfolding duff_device_8_def Let_def duff_passes_iter by (simp only: comp_def)
qed

text \<open>The copy loop \<^verbatim>\<open>*d++ = *s++\<close> between two blocks, with the bounds of both made explicit.\<close>

fun copy_step :: "u8 list \<Rightarrow> c_fault + (u8 list \<times> nat \<times> nat) \<Rightarrow> c_fault + (u8 list \<times> nat \<times> nat)" where
  "copy_step src (Inl e) = Inl e"
| "copy_step src (Inr (dst, d, s)) =
     (if d < length dst \<and> s < length src then Inr (dst[d := src ! s], d + 1, s + 1)
      else Inl OutOfBounds)"

definition duff_copy :: "nat \<Rightarrow> u8 list \<Rightarrow> nat \<Rightarrow> u8 list \<Rightarrow> nat \<Rightarrow> c_fault + u8 list" where
  "duff_copy n src s dst d =
     (case duff_device_8 n (copy_step src) (Inr (dst, d, s)) of
        Inl e \<Rightarrow> Inl e
      | Inr (dst', _) \<Rightarrow> Inr dst')"

lemma copy_step_iter:
  assumes "d + n \<le> length dst" "s + n \<le> length src"
  shows "(copy_step src ^^ n) (Inr (dst, d, s)) =
         Inr (overwrite dst d (take n (drop s src)), d + n, s + n)"
  using assms
proof (induction n)
  case 0
  then show ?case by simp
next
  case (Suc n)
  then have len: "length (take n (drop s src)) = n" by simp
  have "take (Suc n) (drop s src) = take n (drop s src) @ [src ! (s + n)]"
    using Suc.prems by (simp add: take_Suc_conv_app_nth)
  moreover have "(overwrite dst d (take n (drop s src)))[d + n := src ! (s + n)] =
      overwrite dst d (take n (drop s src) @ [src ! (s + n)])"
    using overwrite_snoc [of d "take n (drop s src)" dst "src ! (s + n)"] Suc.prems len by simp
  moreover have "d + n < length (overwrite dst d (take n (drop s src)))"
    using Suc.prems len by (subst length_overwrite) auto
  ultimately show ?case using Suc by simp
qed

lemma duff_copy_ok:
  assumes "0 < n" "d + n \<le> length dst" "s + n \<le> length src"
  shows "duff_copy n src s dst d = Inr (overwrite dst d (take n (drop s src)))"
  using copy_step_iter [OF assms(2,3)] assms(1) by (simp add: duff_copy_def duff_device_8_funpow)

lemma copy_step_Inl_iter [simp]: "(copy_step src ^^ n) (Inl e) = Inl e"
  by (induction n) simp_all

lemma duff_copy_oob:
  assumes "0 < n" "length dst < d + n" "length dst \<ge> d" "s + n \<le> length src"
  shows "duff_copy n src s dst d = Inl OutOfBounds"
proof -
  define k where "k = length dst - d"
  have kn: "k < n" using assms k_def by simp
  then obtain m where m: "n = m + (Suc k)" using less_iff_Suc_add [of k n] by auto
  have "(copy_step src ^^ k) (Inr (dst, d, s)) = Inr (overwrite dst d (take k (drop s src)), d + k, s + k)"
    using assms k_def by (intro copy_step_iter) auto
  moreover have "length (overwrite dst d (take k (drop s src))) = length dst"
    using assms kn k_def by (subst length_overwrite) auto
  ultimately have "(copy_step src ^^ Suc k) (Inr (dst, d, s)) = Inl OutOfBounds"
    using assms(3) k_def by simp
  then have "(copy_step src ^^ n) (Inr (dst, d, s)) = Inl OutOfBounds"
    unfolding m funpow_add comp_def by simp
  then show ?thesis using assms(1) by (simp add: duff_copy_def duff_device_8_funpow)
qed

subsection \<open>Byte-addressed memory\<close>

type_synonym mem = "nat \<Rightarrow> u8"

definition mem_store :: "mem \<Rightarrow> nat \<Rightarrow> u8 list \<Rightarrow> mem" where
  "mem_store m a bs = (\<lambda>i. if a \<le> i \<and> i < a + length bs then bs ! (i - a) else m i)"

definition mem_load :: "mem \<Rightarrow> nat \<Rightarrow> nat \<Rightarrow> u8 list" where
  "mem_load m a n = map m [a..<a + n]"

lemma length_mem_load [simp]: "length (mem_load m a n) = n"
  by (simp add: mem_load_def)

lemma nth_mem_load [simp]: "k < n \<Longrightarrow> mem_load m a n ! k = m (a + k)"
  by (simp add: mem_load_def)

lemma mem_store_Nil [simp]: "mem_store m a [] = m"
  by (rule ext) (simp only: mem_store_def list.size add_0_right, auto)

lemma mem_load_0 [simp]: "mem_load m a 0 = []"
  by (simp add: mem_load_def)

lemma mem_load_eqI: "(\<And>k. k < length bs \<Longrightarrow> m (a + k) = bs ! k) \<Longrightarrow> mem_load m a (length bs) = bs"
  by (rule nth_equalityI) auto

lemma mem_store_append [mem_simps]:
  "mem_store m a (xs @ ys) = mem_store (mem_store m a xs) (a + length xs) ys"
  by (rule ext) (auto simp: mem_store_def nth_append)

lemma mem_load_append [mem_simps]:
  "mem_load m a (j + k) = mem_load m a j @ mem_load m (a + j) k"
  by (rule nth_equalityI) (auto simp: nth_append)

lemma mem_load_store_same [mem_simps]: "mem_load (mem_store m a bs) a (length bs) = bs"
  by (rule mem_load_eqI) (simp add: mem_store_def)

lemma mem_load_store_other [mem_simps]:
  "a + n \<le> b \<or> b + length bs \<le> a \<Longrightarrow> mem_load (mem_store m b bs) a n = mem_load m a n"
  by (rule nth_equalityI) (auto simp: mem_store_def)

lemma mem_store_before [mem_simps]: "i < a \<Longrightarrow> mem_store m a bs i = m i"
  by (simp add: mem_store_def)

lemma mem_store_after [mem_simps]: "a + length bs \<le> i \<Longrightarrow> mem_store m a bs i = m i"
  by (simp add: mem_store_def)

lemma mem_store_at [mem_simps]: "k < length bs \<Longrightarrow> mem_store m a bs (a + k) = bs ! k"
  by (simp add: mem_store_def)

lemma mem_load_cong: "(\<And>i. a \<le> i \<Longrightarrow> i < a + n \<Longrightarrow> m i = m' i) \<Longrightarrow> mem_load m a n = mem_load m' a n"
  by (rule nth_equalityI) auto

lemma mem_load_Cons:
  "mem_load m p (Suc n) = b # bs \<longleftrightarrow> m p = b \<and> mem_load m (p + 1) n = bs"
  by (simp add: mem_load_def upt_conv_Cons del: upt_Suc)

text \<open>\<open>holds m p bs\<close>: the bytes \<open>bs\<close> lie in memory from \<open>p\<close> on.\<close>

primrec holds :: "mem \<Rightarrow> nat \<Rightarrow> u8 list \<Rightarrow> bool" where
  "holds m p [] = True"
| "holds m p (b # bs) = (m p = b \<and> holds m (p + 1) bs)"

lemma holds_append [simp]: "holds m p (xs @ ys) \<longleftrightarrow> holds m p xs \<and> holds m (p + length xs) ys"
  by (induction xs arbitrary: p) auto

lemma holds_load: "holds m p bs \<longleftrightarrow> mem_load m p (length bs) = bs"
  by (induction bs arbitrary: p) (auto simp: mem_load_Cons)

lemma holds_mem_load [simp]: "holds m p (mem_load m p n)"
  by (simp add: holds_load)

lemma holds_store: "holds (mem_store m p bs) p bs"
  by (simp add: holds_load mem_simps)

lemma holds_store_other:
  "p + length xs \<le> q \<or> q + length ys \<le> p \<Longrightarrow> holds (mem_store m q ys) p xs \<longleftrightarrow> holds m p xs"
  by (simp add: holds_load mem_load_store_other)

lemma Suc_addr: "Suc (Suc (Suc p)) = p + 3" "Suc (p + 3) = p + 4" "Suc (p + 4) = p + 5"
  by simp_all

text \<open>Rounding up to a multiple of four, \<^verbatim>\<open>( x + 3 ) & ~3\<close>.\<close>

lemma word_and_not: "x AND NOT k = x - (x AND k)" for x k :: "'a :: len word"
proof -
  have "(x AND k) + (x AND NOT k) = (x AND k) OR (x AND NOT k)"
    by (rule disjunctive_add) (simp add: bit_and_iff bit_not_iff)
  also have "\<dots> = x" by (simp flip: bit.conj_disj_distrib)
  finally show ?thesis by (metis add_diff_cancel_left')
qed

lemma and_not_3: "unat ((x :: u32) AND NOT 3) = unat x div 4 * 4"
proof -
  have "unat (x AND 3) = unat x mod 4"
    using nat_and_mask [of "unat x" 2] by (simp add: unsigned_and_eq)
  then have "unat (x AND NOT 3) = unat x - unat x mod 4"
    unfolding word_and_not by (simp add: unat_sub word_le_nat_alt)
  then show ?thesis by (simp only: minus_mod_eq_div_mult)
qed

text \<open>Little-endian assembly and disassembly are inverse.\<close>

lemma u16_assemble: "ucast (ucast x :: u8) OR push_bit 8 (ucast (ucast (drop_bit 8 x) :: u8)) = (x :: u16)"
  by (rule bit_word_eqI) (auto simp: bit_simps)

lemma u32_assemble:
  "ucast (ucast x :: u8) OR push_bit 8 (ucast (ucast (drop_bit 8 x) :: u8))
     OR push_bit 16 (ucast (ucast (drop_bit 16 x) :: u8))
     OR push_bit 24 (ucast (ucast (drop_bit 24 x) :: u8)) = (x :: u32)"
proof (rule bit_word_eqI)
  fix n
  assume "n < LENGTH(32)"
  then consider "n < 8" | "8 \<le> n" "n < 16" | "16 \<le> n" "n < 24" | "24 \<le> n" "n < 32" by fastforce
  then show "bit (ucast (ucast x :: u8) OR push_bit 8 (ucast (ucast (drop_bit 8 x) :: u8))
     OR push_bit 16 (ucast (ucast (drop_bit 16 x) :: u8))
     OR push_bit 24 (ucast (ucast (drop_bit 24 x) :: u8)) :: u32) n = bit x n"
    by cases (auto simp: bit_simps)
qed

subsection \<open>C strings\<close>

text \<open>
  The string at an address: the bytes up to the first zero byte. Without a zero byte the scan
  does not end and the value is \<open>None\<close>.
\<close>

partial_function (option) c_str :: "mem \<Rightarrow> nat \<Rightarrow> u8 list option" where
  "c_str m p = (if m p = 0 then Some [] else Option.bind (c_str m (p + 1)) (\<lambda>s. Some (m p # s)))"

lemma c_str_load:
  "mem_load m p (length s + 1) = s @ [0] \<Longrightarrow> 0 \<notin> set s \<Longrightarrow> c_str m p = Some s"
proof (induction s arbitrary: p)
  case Nil
  then show ?case by (simp add: c_str.simps [of m p] mem_load_def)
next
  case (Cons a s)
  have "m p = a" "mem_load m (p + 1) (length s + 1) = s @ [0]"
    using Cons.prems(1) by (simp_all add: mem_load_def upt_conv_Cons del: upt_Suc)
  then show ?case using Cons by (simp add: c_str.simps [of m p])
qed

text \<open>
  Into an array of \<open>cap\<close> bytes: \<^verbatim>\<open>strncpy( dst, src, n )\<close> where the array ends in a zero byte
  behind the copied part, and \<^verbatim>\<open>strncat( dst, src, n )\<close>, which appends at most \<open>n\<close> characters
  and a terminator whatever the size of the array.
\<close>

definition c_strncpy :: "nat \<Rightarrow> u8 list \<Rightarrow> u8 list" where
  "c_strncpy n src = take n src"

definition c_strncat :: "nat \<Rightarrow> u8 list \<Rightarrow> u8 list \<Rightarrow> nat \<Rightarrow> c_fault + u8 list" where
  "c_strncat cap dst src n =
     (let r = dst @ take n src in if length r + 1 \<le> cap then Inr r else Inl OutOfBounds)"

text \<open>
  The comparisons without regard to case, for strings without zero bytes:
  \<^verbatim>\<open>!strcasecmp( a, b )\<close> and \<^verbatim>\<open>!strncasecmp( a, b, n )\<close>.
\<close>

definition c_tolower :: "u8 \<Rightarrow> u8" where
  "c_tolower c = (if 0x41 \<le> c \<and> c \<le> 0x5A then c + 0x20 else c)"

definition c_strcaseeq :: "u8 list \<Rightarrow> u8 list \<Rightarrow> bool" where
  "c_strcaseeq a b \<longleftrightarrow> map c_tolower a = map c_tolower b"

definition c_strncaseeq :: "nat \<Rightarrow> u8 list \<Rightarrow> u8 list \<Rightarrow> bool" where
  "c_strncaseeq n a b \<longleftrightarrow> map c_tolower (take n a) = map c_tolower (take n b)"

text \<open>\<^verbatim>\<open>isprint\<close> in the C locale.\<close>

definition c_isprint :: "int \<Rightarrow> bool" where
  "c_isprint c \<longleftrightarrow> 0x20 \<le> c \<and> c \<le> 0x7E"

lemma c_strcaseeq_refl [simp]: "c_strcaseeq a a"
  by (simp add: c_strcaseeq_def)

lemma c_strcaseeq_sym: "c_strcaseeq a b \<Longrightarrow> c_strcaseeq b a"
  by (simp add: c_strcaseeq_def)

lemma c_strcaseeq_trans: "c_strcaseeq a b \<Longrightarrow> c_strcaseeq b c \<Longrightarrow> c_strcaseeq a c"
  by (simp add: c_strcaseeq_def)

lemma c_strcaseeq_length: "c_strcaseeq a b \<Longrightarrow> length a = length b"
  unfolding c_strcaseeq_def by (metis length_map)

lemma c_strncaseeq_prefix:
  "c_strncaseeq (length b) a b \<longleftrightarrow> (length b \<le> length a \<and> c_strcaseeq (take (length b) a) b)"
proof -
  have "map c_tolower (take (length b) a) = map c_tolower b \<Longrightarrow> length b \<le> length a"
    using length_map [of c_tolower "take (length b) a"] by (metis length_map length_take min.cobounded1)
  then show ?thesis by (auto simp: c_strncaseeq_def c_strcaseeq_def)
qed

end
