(* ===== verification/Fifo_Interface.thy ===== *)
theory Fifo_Interface
  imports Elua_Prelude
begin

text \<open>
  The contract of a bounded first-in first-out store, as the interrupt handlers (producers)
  and the Lua-side readers (consumers) of eLua rely on it: the device buffers of \<^verbatim>\<open>src/buf.c\<close>
  and the interrupt queue of \<^verbatim>\<open>src/elua_int.c\<close> are two providers. A run of puts and gets is
  compared with the same run on a plain list.
\<close>

datatype 'a fifo_op = Put 'a | Get

fun run_ops :: "('a \<Rightarrow> 's \<Rightarrow> 's option) \<Rightarrow> ('s \<Rightarrow> ('a \<times> 's) option) \<Rightarrow> 'a fifo_op list \<Rightarrow> 's
    \<Rightarrow> 'a option list \<times> 's" where
  "run_ops put get [] s = ([], s)"
| "run_ops put get (Put x # ops) s =
     (case put x s of None \<Rightarrow> run_ops put get ops s | Some s' \<Rightarrow> run_ops put get ops s')"
| "run_ops put get (Get # ops) s =
     (case get s of
        None \<Rightarrow> (case run_ops put get ops s of (out, t) \<Rightarrow> (None # out, t))
      | Some (x, s') \<Rightarrow> (case run_ops put get ops s' of (out, t) \<Rightarrow> (Some x # out, t)))"

text \<open>The same run on a list: a put appends, a get takes the head or reports an empty queue.\<close>

fun list_ops :: "'a fifo_op list \<Rightarrow> 'a list \<Rightarrow> 'a option list \<times> 'a list" where
  "list_ops [] q = ([], q)"
| "list_ops (Put x # ops) q = list_ops ops (q @ [x])"
| "list_ops (Get # ops) [] = (case list_ops ops [] of (out, t) \<Rightarrow> (None # out, t))"
| "list_ops (Get # ops) (x # q) = (case list_ops ops q of (out, t) \<Rightarrow> (Some x # out, t))"

text \<open>The run never holds more than \<open>c\<close> elements, and each element put satisfies \<open>ok\<close>.\<close>

fun fits :: "('a \<Rightarrow> bool) \<Rightarrow> nat \<Rightarrow> 'a fifo_op list \<Rightarrow> 'a list \<Rightarrow> bool" where
  "fits ok c [] q = True"
| "fits ok c (Put x # ops) q = (ok x \<and> length q < c \<and> fits ok c ops (q @ [x]))"
| "fits ok c (Get # ops) q = fits ok c ops (tl q)"

locale fifo =
  fixes contents :: "'s \<Rightarrow> 'a list"
    and cap :: "'s \<Rightarrow> nat"
    and good :: "'s \<Rightarrow> bool"
    and elem :: "'s \<Rightarrow> 'a \<Rightarrow> bool"
    and put :: "'a \<Rightarrow> 's \<Rightarrow> 's option"
    and get :: "'s \<Rightarrow> ('a \<times> 's) option"
  assumes put_room: "good s \<Longrightarrow> elem s x \<Longrightarrow> length (contents s) < cap s \<Longrightarrow>
      \<exists>t. put x s = Some t \<and> good t \<and> contents t = contents s @ [x] \<and> cap t = cap s \<and> elem t = elem s"
    and get_none: "good s \<Longrightarrow> contents s = [] \<Longrightarrow> get s = None"
    and get_some: "good s \<Longrightarrow> contents s = x # xs \<Longrightarrow>
      \<exists>t. get s = Some (x, t) \<and> good t \<and> contents t = xs \<and> cap t = cap s \<and> elem t = elem s"
begin

lemma run_ops_refines:
  "good s \<Longrightarrow> fits (elem s) (cap s) ops (contents s) \<Longrightarrow>
   good (snd (run_ops put get ops s)) \<and>
   fst (run_ops put get ops s) = fst (list_ops ops (contents s)) \<and>
   contents (snd (run_ops put get ops s)) = snd (list_ops ops (contents s))"
proof (induction ops arbitrary: s)
  case Nil
  then show ?case by simp
next
  case (Cons a ops)
  show ?case
  proof (cases a)
    case (Put x)
    then obtain t where t: "put x s = Some t" "good t" "contents t = contents s @ [x]"
        "cap t = cap s" "elem t = elem s"
      using put_room [of s x] Cons.prems by auto
    then show ?thesis using Cons.IH [of t] Cons.prems Put by simp
  next
    case Get
    show ?thesis
    proof (cases "contents s")
      case Nil
      then show ?thesis using Cons.IH [of s] Cons.prems Get get_none
        by (simp add: case_prod_beta)
    next
      case (Cons x xs)
      then obtain t where t: "get s = Some (x, t)" "good t" "contents t = xs"
          "cap t = cap s" "elem t = elem s"
        using get_some Cons.prems by blast
      then show ?thesis using Cons.IH [of t] Cons.prems Get Cons
        by (simp add: case_prod_beta)
    qed
  qed
qed

lemma put_get_exchange:
  assumes "good s" "elem s y" "contents s = x # xs" "length (contents s) < cap s"
  shows "\<exists>t u. put y s = Some t \<and> get t = Some (x, u) \<and> contents u = xs @ [y]"
proof -
  obtain t where t: "put y s = Some t" "good t" "contents t = (x # xs) @ [y]"
    using put_room [of s y] assms by auto
  then show ?thesis using get_some [of t x "xs @ [y]"] by auto
qed

end

lemma list_ops_gets:
  "fst (list_ops (replicate (length q) Get) q) = map Some q \<and> snd (list_ops (replicate (length q) Get) q) = []"
  by (induction q) (auto simp: case_prod_beta)

lemma list_ops_append:
  "list_ops (xs @ ys) q =
     (fst (list_ops xs q) @ fst (list_ops ys (snd (list_ops xs q))),
      snd (list_ops ys (snd (list_ops xs q))))"
  by (induction xs q rule: list_ops.induct) (auto simp: case_prod_beta)

lemma list_ops_puts: "list_ops (map Put xs) q = ([], q @ xs)"
  by (induction xs arbitrary: q) auto

lemma list_ops_puts_gets:
  "fst (list_ops (map Put xs @ replicate (length xs) Get) []) = map Some xs"
  using list_ops_gets [of xs] by (simp add: list_ops_append list_ops_puts)

end
