(* ===== verification/Buf.thy ===== *)
theory Buf
  imports Fifo_Interface
begin

text \<open>
  The "char device" buffers of \<^verbatim>\<open>src/buf.c\<close>: one ring of fixed-size elements per bufferable
  resource (each UART, each ADC channel), written by the interrupt handlers and read by the
  main program. A descriptor keeps byte offsets \<open>wptr\<close> and \<open>rptr\<close> that are reduced by a mask,
  an element count and the block obtained from \<^verbatim>\<open>realloc\<close>. The theory models every function
  of the file, shows that a ring in a good state behaves as a list queue, that no operation
  ever leaves the block, and what exactly happens when the ring is full.

  A shift count is a byte in C; the model is meant for \<open>logsize < 31\<close>, where \<^verbatim>\<open>1 << logsize\<close> is
  defined, which every caller respects.
\<close>

subsection \<open>Descriptors\<close>

datatype buf_id = BUF_ID_UART | BUF_ID_ADC

record buf_desc =
  logsize :: u8
  wptr :: u16
  rptr :: u16
  bcount :: u16
  bdata :: "u8 list option"
  logdsize :: u8

abbreviation BUF_SIZE_NONE :: u8 where "BUF_SIZE_NONE \<equiv> 0"

definition BUF_BYTESIZE :: "buf_desc \<Rightarrow> nat" where
  "BUF_BYTESIZE p = 2 ^ unat (logsize p)"

definition BUF_REALSIZE :: "buf_desc \<Rightarrow> nat" where
  "BUF_REALSIZE p = 2 ^ (unat (logsize p) - unat (logdsize p))"

definition BUF_REALDSIZE :: "buf_desc \<Rightarrow> nat" where
  "BUF_REALDSIZE p = 2 ^ unat (logdsize p)"

text \<open>\<^verbatim>\<open>BUF_MOD_INCR\<close>: the new offset, computed as an \<^verbatim>\<open>int\<close> and stored into 16 bits.\<close>

definition BUF_MOD_INCR :: "buf_desc \<Rightarrow> u16 \<Rightarrow> u16" where
  "BUF_MOD_INCR p m = of_nat ((unat m + BUF_REALDSIZE p) AND (BUF_BYTESIZE p - 1))"

definition buf_zero :: buf_desc where
  "buf_zero = \<lparr>logsize = 0, wptr = 0, rptr = 0, bcount = 0, bdata = None, logdsize = 0\<rparr>"

subsection \<open>Operations on one descriptor\<close>

text \<open>
  \<^verbatim>\<open>realloc\<close> of the C library: \<open>None\<close> when it returns NULL, otherwise a block of the new size
  that starts with what the old block held; the rest of the block is arbitrary (\<open>junk\<close>).
\<close>

definition c_realloc :: "bool \<Rightarrow> (nat \<Rightarrow> u8) \<Rightarrow> u8 list option \<Rightarrow> nat \<Rightarrow> u8 list option" where
  "c_realloc avail junk old n =
     (if avail then Some (take n (case old of None \<Rightarrow> [] | Some b \<Rightarrow> b) @
                          map junk [(case old of None \<Rightarrow> 0 | Some b \<Rightarrow> length b)..<n])
      else None)"

definition buf_set_desc :: "bool \<Rightarrow> (nat \<Rightarrow> u8) \<Rightarrow> buf_desc \<Rightarrow> u8 \<Rightarrow> u8 \<Rightarrow> int \<times> buf_desc" where
  "buf_set_desc avail junk p lsize ldsize =
     (let p1 = p\<lparr>logdsize := ldsize, logsize := lsize + ldsize\<rparr>;
          p2 = p1\<lparr>bdata := c_realloc avail junk (bdata p1) (BUF_BYTESIZE p1)\<rparr>
      in if bdata p2 = None
         then (let p3 = p2\<lparr>logsize := BUF_SIZE_NONE, rptr := 0, wptr := 0, bcount := 0\<rparr>
               in if lsize \<noteq> BUF_SIZE_NONE then (PLATFORM_ERR, p3) else (PLATFORM_OK, p3))
         else (PLATFORM_OK, p2))"

definition buf_flush_desc :: "buf_desc \<Rightarrow> buf_desc" where
  "buf_flush_desc p = p\<lparr>rptr := 0, wptr := 0, bcount := 0\<rparr>"

definition buf_write_desc :: "buf_desc \<Rightarrow> u8 list \<Rightarrow> c_fault + (int \<times> buf_desc)" where
  "buf_write_desc p data =
     (if logsize p = BUF_SIZE_NONE then Inr (PLATFORM_ERR, p)
      else if unat (bcount p) > BUF_REALSIZE p then Inr (PLATFORM_ERR, p)
      else case bdata p of
        None \<Rightarrow> Inl NullDeref
      | Some b \<Rightarrow>
          (case duff_copy (BUF_REALDSIZE p) data 0 b (unat (wptr p)) of
             Inl e \<Rightarrow> Inl e
           | Inr b' \<Rightarrow>
               (let p1 = p\<lparr>bdata := Some b'\<rparr>;
                    p2 = p1\<lparr>wptr := BUF_MOD_INCR p1 (wptr p1)\<rparr>
                in Inr (PLATFORM_OK, p2\<lparr>bcount := bcount p2 + 1\<rparr>))))"

definition buf_is_enabled_desc :: "buf_desc \<Rightarrow> bool" where
  "buf_is_enabled_desc p \<longleftrightarrow> logsize p \<noteq> BUF_SIZE_NONE"

definition buf_get_size_desc :: "buf_desc \<Rightarrow> nat" where
  "buf_get_size_desc p = (if logsize p = BUF_SIZE_NONE then 0 else BUF_REALSIZE p)"

definition buf_get_count_desc :: "buf_desc \<Rightarrow> nat" where
  "buf_get_count_desc p = unat (bcount p)"

text \<open>\<open>dst\<close> is what the caller's \<open>data\<close> pointer points to, before and after the call.\<close>

definition buf_read_desc :: "buf_desc \<Rightarrow> u8 list \<Rightarrow> c_fault + (int \<times> u8 list \<times> buf_desc)" where
  "buf_read_desc p dst =
     (if logsize p = BUF_SIZE_NONE \<or> bcount p = 0 then Inr (PLATFORM_UNDERFLOW, dst, p)
      else case bdata p of
        None \<Rightarrow> Inl NullDeref
      | Some b \<Rightarrow>
          (case duff_copy (BUF_REALDSIZE p) b (unat (rptr p)) dst 0 of
             Inl e \<Rightarrow> Inl e
           | Inr dst' \<Rightarrow>
               (let p1 = p\<lparr>bcount := bcount p - 1\<rparr>
                in Inr (PLATFORM_OK, dst', p1\<lparr>rptr := BUF_MOD_INCR p1 (rptr p1)\<rparr>))))"

subsection \<open>The descriptor table\<close>

text \<open>
  \<^verbatim>\<open>buf_desc_array\<close> gives each resource class its array of descriptors. Virtual UARTs are
  numbered from \<open>SERMUX_SERVICE_ID_FIRST\<close> and use the entries behind the \<open>num_uart\<close> physical
  ones; \<open>num_uart\<close> is the platform's \<^verbatim>\<open>NUM_UART\<close>.
\<close>

type_synonym buf_table = "buf_id \<Rightarrow> nat \<Rightarrow> buf_desc"

abbreviation SERMUX_SERVICE_ID_FIRST :: nat where "SERMUX_SERVICE_ID_FIRST \<equiv> 0xD0"

definition bufh_check_resnum :: "nat \<Rightarrow> buf_id \<Rightarrow> nat \<Rightarrow> nat" where
  "bufh_check_resnum num_uart resid resnum =
     (if resid = BUF_ID_UART \<and> resnum \<ge> SERMUX_SERVICE_ID_FIRST
      then resnum - SERMUX_SERVICE_ID_FIRST + num_uart else resnum)"

definition buf_get_ptr :: "nat \<Rightarrow> buf_table \<Rightarrow> buf_id \<Rightarrow> nat \<Rightarrow> buf_desc" where
  "buf_get_ptr nu t resid resnum = t resid (bufh_check_resnum nu resid resnum)"

definition buf_upd :: "nat \<Rightarrow> buf_table \<Rightarrow> buf_id \<Rightarrow> nat \<Rightarrow> buf_desc \<Rightarrow> buf_table" where
  "buf_upd nu t resid resnum p = t(resid := (t resid)(bufh_check_resnum nu resid resnum := p))"

definition buf_set :: "nat \<Rightarrow> bool \<Rightarrow> (nat \<Rightarrow> u8) \<Rightarrow> buf_table \<Rightarrow> buf_id \<Rightarrow> nat \<Rightarrow> u8 \<Rightarrow> u8 \<Rightarrow> int \<times> buf_table" where
  "buf_set nu avail junk t resid resnum lsize ldsize =
     (case buf_set_desc avail junk (buf_get_ptr nu t resid resnum) lsize ldsize of
        (r, p) \<Rightarrow> (r, buf_upd nu t resid resnum p))"

definition buf_flush :: "nat \<Rightarrow> buf_table \<Rightarrow> buf_id \<Rightarrow> nat \<Rightarrow> buf_table" where
  "buf_flush nu t resid resnum =
     buf_upd nu t resid resnum (buf_flush_desc (buf_get_ptr nu t resid resnum))"

definition buf_write :: "nat \<Rightarrow> buf_table \<Rightarrow> buf_id \<Rightarrow> nat \<Rightarrow> u8 list \<Rightarrow> c_fault + (int \<times> buf_table)" where
  "buf_write nu t resid resnum data =
     (case buf_write_desc (buf_get_ptr nu t resid resnum) data of
        Inl e \<Rightarrow> Inl e
      | Inr (r, p) \<Rightarrow> Inr (r, buf_upd nu t resid resnum p))"

definition buf_read :: "nat \<Rightarrow> buf_table \<Rightarrow> buf_id \<Rightarrow> nat \<Rightarrow> u8 list \<Rightarrow> c_fault + (int \<times> u8 list \<times> buf_table)" where
  "buf_read nu t resid resnum dst =
     (case buf_read_desc (buf_get_ptr nu t resid resnum) dst of
        Inl e \<Rightarrow> Inl e
      | Inr (r, d, p) \<Rightarrow> Inr (r, d, buf_upd nu t resid resnum p))"

definition buf_is_enabled :: "nat \<Rightarrow> buf_table \<Rightarrow> buf_id \<Rightarrow> nat \<Rightarrow> bool" where
  "buf_is_enabled nu t resid resnum = buf_is_enabled_desc (buf_get_ptr nu t resid resnum)"

definition buf_get_size :: "nat \<Rightarrow> buf_table \<Rightarrow> buf_id \<Rightarrow> nat \<Rightarrow> nat" where
  "buf_get_size nu t resid resnum = buf_get_size_desc (buf_get_ptr nu t resid resnum)"

definition buf_get_count :: "nat \<Rightarrow> buf_table \<Rightarrow> buf_id \<Rightarrow> nat \<Rightarrow> nat" where
  "buf_get_count nu t resid resnum = buf_get_count_desc (buf_get_ptr nu t resid resnum)"

subsection \<open>Well-formed rings and their contents\<close>

text \<open>
  An active ring: the block has the advertised size, both offsets are element boundaries
  inside it and lie \<open>bcount\<close> elements apart. \<open>buf_inv\<close> allows one element too many, because the
  overflow test of \<^verbatim>\<open>buf_write\<close> does; a \<open>buf_good\<close> ring is not overfull.
\<close>

definition buf_inv :: "buf_desc \<Rightarrow> bool" where
  "buf_inv p \<longleftrightarrow>
     unat (logdsize p) \<le> unat (logsize p) \<and> unat (logsize p) \<le> 16 \<and> logsize p \<noteq> 0 \<and>
     unat (logsize p) - unat (logdsize p) \<le> 15 \<and>
     (\<exists>b. bdata p = Some b \<and> length b = BUF_BYTESIZE p) \<and>
     unat (rptr p) < BUF_BYTESIZE p \<and> BUF_REALDSIZE p dvd unat (rptr p) \<and>
     unat (wptr p) = (unat (rptr p) + unat (bcount p) * BUF_REALDSIZE p) mod BUF_BYTESIZE p \<and>
     unat (bcount p) \<le> BUF_REALSIZE p + 1"

definition buf_good :: "buf_desc \<Rightarrow> bool" where
  "buf_good p \<longleftrightarrow> buf_inv p \<and> unat (bcount p) \<le> BUF_REALSIZE p"

text \<open>The element that starts at offset \<open>o\<close>, and the elements in the order they are read.\<close>

definition buf_chunk :: "buf_desc \<Rightarrow> nat \<Rightarrow> u8 list" where
  "buf_chunk p off = take (BUF_REALDSIZE p) (drop off (the (bdata p)))"

definition buf_slot :: "buf_desc \<Rightarrow> nat \<Rightarrow> nat" where
  "buf_slot p k = (unat (rptr p) + k * BUF_REALDSIZE p) mod BUF_BYTESIZE p"

definition buf_contents :: "buf_desc \<Rightarrow> u8 list list" where
  "buf_contents p = map (\<lambda>k. buf_chunk p (buf_slot p k)) [0..<unat (bcount p)]"

lemma length_buf_contents [simp]: "length (buf_contents p) = unat (bcount p)"
  by (simp add: buf_contents_def)

lemmas buf_sizes = BUF_BYTESIZE_def BUF_REALSIZE_def BUF_REALDSIZE_def

lemma buf_size_split:
  assumes "unat (logdsize p) \<le> unat (logsize p)"
  shows "BUF_BYTESIZE p = BUF_REALSIZE p * BUF_REALDSIZE p"
  using assms by (simp add: buf_sizes flip: power_add)

lemma buf_pos [simp]: "0 < BUF_BYTESIZE p" "0 < BUF_REALSIZE p" "0 < BUF_REALDSIZE p"
  by (simp_all add: buf_sizes)

lemma buf_bytesize_le: "unat (logsize p) \<le> 16 \<Longrightarrow> BUF_BYTESIZE p \<le> 65536"
  unfolding BUF_BYTESIZE_def using power_increasing [of "unat (logsize p)" 16 "2 :: nat"] by simp

lemma buf_realsize_le: "unat (logsize p) - unat (logdsize p) \<le> 15 \<Longrightarrow> BUF_REALSIZE p \<le> 32768"
  unfolding BUF_REALSIZE_def
  using power_increasing [of "unat (logsize p) - unat (logdsize p)" 15 "2 :: nat"] by simp

lemma unat_BUF_MOD_INCR:
  assumes "unat (logsize p) \<le> 16"
  shows "unat (BUF_MOD_INCR p m) = (unat m + BUF_REALDSIZE p) mod BUF_BYTESIZE p"
proof -
  have "(unat m + BUF_REALDSIZE p) mod BUF_BYTESIZE p < 65536"
    using buf_bytesize_le [OF assms] by (meson less_le_trans mod_less_divisor buf_pos(1))
  then show ?thesis
    by (simp add: BUF_MOD_INCR_def BUF_BYTESIZE_def nat_and_mask_Suc unat_of_nat_u16)
qed

text \<open>In units of elements the ring is plain modular arithmetic.\<close>

lemma buf_slot_elems:
  assumes "buf_inv p"
  obtains r where "unat (rptr p) = r * BUF_REALDSIZE p" "r < BUF_REALSIZE p"
    "\<And>k. buf_slot p k = ((r + k) mod BUF_REALSIZE p) * BUF_REALDSIZE p"
    "unat (wptr p) = ((r + unat (bcount p)) mod BUF_REALSIZE p) * BUF_REALDSIZE p"
proof -
  have sz: "BUF_BYTESIZE p = BUF_REALSIZE p * BUF_REALDSIZE p"
    using assms by (simp add: buf_inv_def buf_size_split)
  from assms obtain r where r: "unat (rptr p) = r * BUF_REALDSIZE p"
    unfolding buf_inv_def by (metis dvd_def mult.commute)
  have slot: "buf_slot p k = ((r + k) mod BUF_REALSIZE p) * BUF_REALDSIZE p" for k
    unfolding buf_slot_def r sz by (simp add: mult_mod_left flip: distrib_right)
  moreover have "r < BUF_REALSIZE p"
    using assms r sz by (simp add: buf_inv_def)
  moreover have "unat (wptr p) = buf_slot p (unat (bcount p))"
    using assms by (simp add: buf_inv_def buf_slot_def)
  ultimately show thesis using that r slot by metis
qed

lemma buf_slot_room:
  assumes "buf_inv p"
  shows "buf_slot p k + BUF_REALDSIZE p \<le> BUF_BYTESIZE p"
proof -
  obtain r where "buf_slot p k = ((r + k) mod BUF_REALSIZE p) * BUF_REALDSIZE p"
    using buf_slot_elems [OF assms] by metis
  moreover have "Suc ((r + k) mod BUF_REALSIZE p) * BUF_REALDSIZE p \<le> BUF_REALSIZE p * BUF_REALDSIZE p"
    by (intro mult_right_mono) (simp_all add: Suc_leI)
  moreover have "BUF_BYTESIZE p = BUF_REALSIZE p * BUF_REALDSIZE p"
    using assms by (simp add: buf_inv_def buf_size_split)
  ultimately show ?thesis by simp
qed

lemma buf_slot_distinct:
  assumes "buf_inv p" "j < BUF_REALSIZE p" "k < BUF_REALSIZE p" "j \<noteq> k"
  shows "buf_slot p j + BUF_REALDSIZE p \<le> buf_slot p k \<or> buf_slot p k + BUF_REALDSIZE p \<le> buf_slot p j"
proof -
  obtain r where sl: "\<And>k. buf_slot p k = ((r + k) mod BUF_REALSIZE p) * BUF_REALDSIZE p"
    using buf_slot_elems [OF assms(1)] by metis
  have ne: "(r + j) mod BUF_REALSIZE p \<noteq> (r + k) mod BUF_REALSIZE p"
  proof
    assume "(r + j) mod BUF_REALSIZE p = (r + k) mod BUF_REALSIZE p"
    then have "j mod BUF_REALSIZE p = k mod BUF_REALSIZE p"
      by (simp add: nat_mod_eq_iff)
    with assms show False by simp
  qed
  have step: "a * d + d \<le> b * d" if "a < b" for a b d :: nat
    using mult_le_mono1 [of "Suc a" b d] that by simp
  from ne consider "(r + j) mod BUF_REALSIZE p < (r + k) mod BUF_REALSIZE p"
    | "(r + k) mod BUF_REALSIZE p < (r + j) mod BUF_REALSIZE p"
    by (meson linorder_neq_iff)
  then show ?thesis unfolding sl by cases (simp_all add: step)
qed

lemma buf_wptr_slot: "buf_inv p \<Longrightarrow> unat (wptr p) = buf_slot p (unat (bcount p))"
  by (simp add: buf_inv_def buf_slot_def)

lemma buf_slot_wrap: "buf_inv p \<Longrightarrow> buf_slot p (BUF_REALSIZE p + k) = buf_slot p k"
  by (simp add: buf_slot_def buf_inv_def buf_size_split distrib_right add.left_commute [of "unat (rptr p)"])

lemma buf_sizes_update [simp]:
  "BUF_BYTESIZE (p\<lparr>bdata := x\<rparr>) = BUF_BYTESIZE p" "BUF_BYTESIZE (p\<lparr>wptr := y\<rparr>) = BUF_BYTESIZE p"
  "BUF_BYTESIZE (p\<lparr>rptr := y\<rparr>) = BUF_BYTESIZE p" "BUF_BYTESIZE (p\<lparr>bcount := y\<rparr>) = BUF_BYTESIZE p"
  "BUF_REALSIZE (p\<lparr>bdata := x\<rparr>) = BUF_REALSIZE p" "BUF_REALSIZE (p\<lparr>wptr := y\<rparr>) = BUF_REALSIZE p"
  "BUF_REALSIZE (p\<lparr>rptr := y\<rparr>) = BUF_REALSIZE p" "BUF_REALSIZE (p\<lparr>bcount := y\<rparr>) = BUF_REALSIZE p"
  "BUF_REALDSIZE (p\<lparr>bdata := x\<rparr>) = BUF_REALDSIZE p" "BUF_REALDSIZE (p\<lparr>wptr := y\<rparr>) = BUF_REALDSIZE p"
  "BUF_REALDSIZE (p\<lparr>rptr := y\<rparr>) = BUF_REALDSIZE p" "BUF_REALDSIZE (p\<lparr>bcount := y\<rparr>) = BUF_REALDSIZE p"
  "BUF_MOD_INCR (p\<lparr>bdata := x\<rparr>) = BUF_MOD_INCR p" "BUF_MOD_INCR (p\<lparr>bcount := y\<rparr>) = BUF_MOD_INCR p"
  by (auto simp: buf_sizes BUF_MOD_INCR_def)

definition buf_written :: "buf_desc \<Rightarrow> u8 list \<Rightarrow> buf_desc" where
  "buf_written p data = p\<lparr>bdata := Some (overwrite (the (bdata p)) (unat (wptr p)) (take (BUF_REALDSIZE p) data)),
     wptr := BUF_MOD_INCR p (wptr p), bcount := bcount p + 1\<rparr>"

definition buf_consumed :: "buf_desc \<Rightarrow> buf_desc" where
  "buf_consumed p = p\<lparr>bcount := bcount p - 1, rptr := BUF_MOD_INCR p (rptr p)\<rparr>"

lemma buf_write_desc_eq:
  assumes "buf_inv p" "BUF_REALDSIZE p \<le> length data"
  shows "buf_write_desc p data =
    (if unat (bcount p) > BUF_REALSIZE p then Inr (PLATFORM_ERR, p)
     else Inr (PLATFORM_OK, buf_written p data))"
proof -
  obtain b where b: "bdata p = Some b" "length b = BUF_BYTESIZE p" and on: "logsize p \<noteq> 0"
    using assms(1) by (auto simp: buf_inv_def)
  have "duff_copy (BUF_REALDSIZE p) data 0 b (unat (wptr p)) =
      Inr (overwrite b (unat (wptr p)) (take (BUF_REALDSIZE p) (drop 0 data)))"
    using assms b buf_slot_room [OF assms(1)] by (intro duff_copy_ok) (auto simp: buf_wptr_slot)
  then show ?thesis using b on
    by (simp add: buf_write_desc_def buf_written_def Let_def)
qed

lemma buf_read_desc_eq:
  assumes "buf_inv p" "BUF_REALDSIZE p \<le> length dst"
  shows "buf_read_desc p dst =
    (if bcount p = 0 then Inr (PLATFORM_UNDERFLOW, dst, p)
     else Inr (PLATFORM_OK, overwrite dst 0 (buf_chunk p (buf_slot p 0)), buf_consumed p))"
proof -
  obtain b where b: "bdata p = Some b" "length b = BUF_BYTESIZE p" and on: "logsize p \<noteq> 0"
    and r: "unat (rptr p) < BUF_BYTESIZE p"
    using assms(1) by (auto simp: buf_inv_def)
  have slot: "buf_slot p 0 = unat (rptr p)" using r by (simp add: buf_slot_def)
  have "duff_copy (BUF_REALDSIZE p) b (unat (rptr p)) dst 0 =
      Inr (overwrite dst 0 (take (BUF_REALDSIZE p) (drop (unat (rptr p)) b)))"
    using assms b buf_slot_room [OF assms(1), of 0] slot by (intro duff_copy_ok) auto
  then show ?thesis using b on slot
    by (simp add: buf_read_desc_def buf_consumed_def buf_chunk_def Let_def)
qed

lemma buf_written_inv:
  assumes inv: "buf_inv p" and len: "BUF_REALDSIZE p \<le> length data" and room: "unat (bcount p) \<le> BUF_REALSIZE p"
  shows "buf_inv (buf_written p data)" and "unat (bcount (buf_written p data)) = Suc (unat (bcount p))"
proof -
  have "BUF_REALSIZE p \<le> 32768" using inv by (simp add: buf_inv_def buf_realsize_le)
  with room have cnt: "unat (bcount p + 1) = Suc (unat (bcount p))"
    by (intro unat_Suc_u16) simp
  then show "unat (bcount (buf_written p data)) = Suc (unat (bcount p))"
    by (simp add: buf_written_def)
  obtain b where b: "bdata p = Some b" "length b = BUF_BYTESIZE p"
    using inv by (auto simp: buf_inv_def)
  have "length (overwrite b (unat (wptr p)) (take (BUF_REALDSIZE p) data)) = BUF_BYTESIZE p"
    using b len buf_slot_room [OF inv, of "unat (bcount p)"] buf_wptr_slot [OF inv]
    by (subst length_overwrite) auto
  moreover have "unat (BUF_MOD_INCR p (wptr p)) =
      (unat (rptr p) + Suc (unat (bcount p)) * BUF_REALDSIZE p) mod BUF_BYTESIZE p"
    using inv by (simp add: unat_BUF_MOD_INCR buf_inv_def mod_simps algebra_simps)
  ultimately show "buf_inv (buf_written p data)"
    using inv room cnt b unfolding buf_inv_def by (simp add: buf_written_def)
qed

lemma buf_consumed_inv:
  assumes inv: "buf_inv p" and some: "bcount p \<noteq> 0"
  shows "buf_inv (buf_consumed p)" and "unat (bcount (buf_consumed p)) = unat (bcount p) - 1"
    and "buf_slot (buf_consumed p) k = buf_slot p (Suc k)"
proof -
  have cnt: "unat (bcount p - 1) = unat (bcount p) - 1" using some by (rule unat_pred_u16)
  then show "unat (bcount (buf_consumed p)) = unat (bcount p) - 1" by (simp add: buf_consumed_def)
  have pos: "0 < unat (bcount p)" using some by (simp add: unat_gt_0)
  have r: "unat (BUF_MOD_INCR p (rptr p)) = (unat (rptr p) + BUF_REALDSIZE p) mod BUF_BYTESIZE p"
    using inv by (simp add: unat_BUF_MOD_INCR buf_inv_def)
  show slot: "buf_slot (buf_consumed p) k = buf_slot p (Suc k)" for k
    by (simp add: buf_slot_def buf_consumed_def r mod_simps algebra_simps)
  have "unat (wptr p) = buf_slot (buf_consumed p) (unat (bcount p) - 1)"
    using pos by (simp add: slot buf_wptr_slot [OF inv])
  moreover have "BUF_REALDSIZE p dvd (unat (rptr p) + BUF_REALDSIZE p) mod BUF_BYTESIZE p"
    using inv by (simp add: buf_inv_def buf_size_split dvd_mod)
  ultimately show "buf_inv (buf_consumed p)"
    using inv cnt r unfolding buf_inv_def buf_slot_def by (auto simp: buf_consumed_def)
qed

lemma buf_chunk_written:
  assumes inv: "buf_inv p" and len: "BUF_REALDSIZE p \<le> length data" and k: "k < BUF_REALSIZE p"
    and j: "j < BUF_REALSIZE p" "unat (wptr p) = buf_slot p j"
  shows "buf_chunk (buf_written p data) (buf_slot p k) =
    (if k = j then take (BUF_REALDSIZE p) data else buf_chunk p (buf_slot p k))"
proof -
  obtain b where b: "bdata p = Some b" "length b = BUF_BYTESIZE p"
    using inv by (auto simp: buf_inv_def)
  let ?d = "take (BUF_REALDSIZE p) data"
  have d: "length ?d = BUF_REALDSIZE p" using len by simp
  have rd: "BUF_REALDSIZE (buf_written p data) = BUF_REALDSIZE p"
    by (simp add: buf_written_def buf_sizes)
  show ?thesis
  proof (cases "k = j")
    case True
    then show ?thesis
      using take_drop_overwrite_same [of "buf_slot p j" ?d b] buf_slot_room [OF inv, of j] b d j rd
      by (simp add: buf_chunk_def buf_written_def)
  next
    case False
    then have "buf_slot p k + BUF_REALDSIZE p \<le> buf_slot p j \<or> buf_slot p j + BUF_REALDSIZE p \<le> buf_slot p k"
      using buf_slot_distinct [OF inv k j(1)] by simp
    then show ?thesis
      using take_drop_overwrite_other [of "buf_slot p j" ?d b "buf_slot p k" "BUF_REALDSIZE p"]
        buf_slot_room [OF inv, of j] buf_slot_room [OF inv, of k] b d j rd False
      by (simp add: buf_chunk_def buf_written_def)
  qed
qed

lemma buf_slot_written [simp]: "buf_slot (buf_written p data) k = buf_slot p k"
  by (simp add: buf_slot_def buf_written_def)

lemma buf_contents_written:
  assumes inv: "buf_inv p" and len: "BUF_REALDSIZE p \<le> length data" and room: "unat (bcount p) < BUF_REALSIZE p"
  shows "buf_contents (buf_written p data) = buf_contents p @ [take (BUF_REALDSIZE p) data]"
proof -
  note ch = buf_chunk_written [OF inv len _ room buf_wptr_slot [OF inv]]
  have "unat (bcount (buf_written p data)) = Suc (unat (bcount p))"
    using buf_written_inv(2) [OF inv len] room by simp
  then show ?thesis using room by (simp add: buf_contents_def ch)
qed

lemma buf_contents_written_full:
  assumes inv: "buf_inv p" and len: "BUF_REALDSIZE p \<le> length data" and full: "unat (bcount p) = BUF_REALSIZE p"
  shows "buf_contents (buf_written p data) =
    take (BUF_REALDSIZE p) data # tl (buf_contents p) @ [take (BUF_REALDSIZE p) data]"
proof -
  let ?d = "take (BUF_REALDSIZE p) data" and ?p = "buf_written p data"
  have w: "unat (wptr p) = buf_slot p 0"
    using buf_wptr_slot [OF inv] buf_slot_wrap [OF inv, of 0] full by simp
  note ch = buf_chunk_written [OF inv len _ buf_pos(2) w]
  obtain n where n: "BUF_REALSIZE p = Suc n" by (metis buf_pos(2) gr0_implies_Suc)
  have rest: "map (\<lambda>k. buf_chunk ?p (buf_slot p k)) [1..<Suc n] = map (\<lambda>k. buf_chunk p (buf_slot p k)) [1..<Suc n]"
    using ch n by auto
  have last: "buf_chunk ?p (buf_slot p (Suc n)) = ?d"
    using buf_slot_wrap [OF inv, of 0] ch [of 0] n by simp
  have ix: "[0..<Suc (Suc n)] = 0 # [1..<Suc n] @ [Suc n]"
    by (simp add: upt_conv_Cons [of 0])
  have "unat (bcount ?p) = Suc (Suc n)"
    using buf_written_inv(2) [OF inv len] full n by simp
  then have "buf_contents ?p = map (\<lambda>k. buf_chunk ?p (buf_slot p k)) (0 # [1..<Suc n] @ [Suc n])"
    unfolding buf_contents_def by (simp only: buf_slot_written ix)
  also have "\<dots> = ?d # map (\<lambda>k. buf_chunk p (buf_slot p k)) [1..<Suc n] @ [?d]"
    using ch [of 0] rest last by simp
  also have "map (\<lambda>k. buf_chunk p (buf_slot p k)) [1..<Suc n] = tl (buf_contents p)"
    using full n by (simp add: buf_contents_def upt_conv_Cons [of 0])
  finally show ?thesis .
qed

lemma buf_contents_consumed:
  assumes inv: "buf_inv p" and some: "bcount p \<noteq> 0"
  shows "buf_contents p = buf_chunk p (buf_slot p 0) # buf_contents (buf_consumed p)"
proof -
  obtain n where n: "unat (bcount p) = Suc n" using some by (metis gr0_implies_Suc unat_gt_0)
  have "buf_chunk (buf_consumed p) = buf_chunk p"
    by (rule ext) (simp add: buf_chunk_def buf_consumed_def)
  then show ?thesis
    using buf_consumed_inv(2) [OF inv some] n
    by (simp add: buf_contents_def buf_consumed_inv(3) [OF inv some] upt_conv_Cons [of 0] map_Suc_upt [symmetric]
        del: upt_Suc)
qed

subsection \<open>The ring as a queue\<close>

definition buf_put :: "u8 list \<Rightarrow> buf_desc \<Rightarrow> buf_desc option" where
  "buf_put x p = (case buf_write_desc p x of
     Inr (r, q) \<Rightarrow> if r = PLATFORM_OK then Some q else None | Inl _ \<Rightarrow> None)"

definition buf_get :: "buf_desc \<Rightarrow> (u8 list \<times> buf_desc) option" where
  "buf_get p = (case buf_read_desc p (replicate (BUF_REALDSIZE p) 0) of
     Inr (r, d, q) \<Rightarrow> if r = PLATFORM_OK then Some (d, q) else None | Inl _ \<Rightarrow> None)"

definition buf_elem :: "buf_desc \<Rightarrow> u8 list \<Rightarrow> bool" where
  "buf_elem p x \<longleftrightarrow> length x = BUF_REALDSIZE p"

lemma length_buf_chunk:
  assumes "buf_inv p"
  shows "length (buf_chunk p (buf_slot p k)) = BUF_REALDSIZE p"
  using assms buf_slot_room [OF assms, of k] by (auto simp: buf_chunk_def buf_inv_def)

interpretation devbuf: fifo buf_contents BUF_REALSIZE buf_good buf_elem buf_put buf_get
proof unfold_locales
  fix p x
  assume g: "buf_good p" and x: "buf_elem p x" and room: "length (buf_contents p) < BUF_REALSIZE p"
  then have inv: "buf_inv p" and len: "BUF_REALDSIZE p \<le> length x"
    by (simp_all add: buf_good_def buf_elem_def)
  have "buf_put x p = Some (buf_written p x)"
    using room by (simp add: buf_put_def buf_write_desc_eq [OF inv len])
  moreover have "buf_good (buf_written p x)"
    using buf_written_inv [OF inv len] room by (simp add: buf_good_def buf_written_def)
  ultimately show "\<exists>t. buf_put x p = Some t \<and> buf_good t \<and> buf_contents t = buf_contents p @ [x] \<and>
      BUF_REALSIZE t = BUF_REALSIZE p \<and> buf_elem t = buf_elem p"
    using buf_contents_written [OF inv len] room x
    by (intro exI [of _ "buf_written p x"]) (auto simp: buf_elem_def buf_written_def buf_sizes)
next
  fix p
  assume "buf_good p" "buf_contents p = []"
  moreover from this have "bcount p = 0"
    by (metis length_buf_contents list.size(3) unat_eq_zero)
  ultimately show "buf_get p = None"
    by (simp add: buf_get_def buf_good_def buf_read_desc_eq)
next
  fix p x xs
  assume g: "buf_good p" and c: "buf_contents p = x # xs"
  then have inv: "buf_inv p" by (simp add: buf_good_def)
  have nz: "bcount p \<noteq> 0" using c by (auto simp: buf_contents_def)
  have "x = buf_chunk p (buf_slot p 0)" "xs = buf_contents (buf_consumed p)"
    using buf_contents_consumed [OF inv nz] c by simp_all
  moreover have "buf_get p = Some (buf_chunk p (buf_slot p 0), buf_consumed p)"
    using nz length_buf_chunk [OF inv, of 0]
    by (simp add: buf_get_def buf_read_desc_eq [OF inv] overwrite_def)
  moreover have "buf_good (buf_consumed p)"
    using buf_consumed_inv(1,2) [OF inv nz] g by (auto simp: buf_good_def buf_consumed_def)
  ultimately show "\<exists>t. buf_get p = Some (x, t) \<and> buf_good t \<and> buf_contents t = xs \<and>
      BUF_REALSIZE t = BUF_REALSIZE p \<and> buf_elem t = buf_elem p"
    by (intro exI [of _ "buf_consumed p"]) (auto simp: buf_elem_def buf_consumed_def buf_sizes)
qed

subsection \<open>Runs of the three run-time operations\<close>

datatype buf_op = BWrite "u8 list" | BRead "u8 list" | BFlush

fun buf_exec :: "buf_desc \<Rightarrow> buf_op \<Rightarrow> c_fault + buf_desc" where
  "buf_exec p (BWrite d) = (case buf_write_desc p d of Inl e \<Rightarrow> Inl e | Inr (_, q) \<Rightarrow> Inr q)"
| "buf_exec p (BRead d) = (case buf_read_desc p d of Inl e \<Rightarrow> Inl e | Inr (_, _, q) \<Rightarrow> Inr q)"
| "buf_exec p BFlush = Inr (buf_flush_desc p)"

fun buf_exec_all :: "buf_desc \<Rightarrow> buf_op list \<Rightarrow> c_fault + buf_desc" where
  "buf_exec_all p [] = Inr p"
| "buf_exec_all p (c # cs) = (case buf_exec p c of Inl e \<Rightarrow> Inl e | Inr q \<Rightarrow> buf_exec_all q cs)"

text \<open>The caller passes a pointer to at least one element.\<close>

fun buf_op_ok :: "nat \<Rightarrow> buf_op \<Rightarrow> bool" where
  "buf_op_ok n (BWrite d) \<longleftrightarrow> n \<le> length d"
| "buf_op_ok n (BRead d) \<longleftrightarrow> n \<le> length d"
| "buf_op_ok n BFlush \<longleftrightarrow> True"

lemma buf_flush_inv: "buf_inv p \<Longrightarrow> buf_inv (buf_flush_desc p)"
  by (auto simp: buf_inv_def buf_flush_desc_def)

lemma buf_exec_inv:
  assumes "buf_inv p" "buf_op_ok (BUF_REALDSIZE p) c"
  shows "\<exists>q. buf_exec p c = Inr q \<and> buf_inv q \<and> BUF_REALDSIZE q = BUF_REALDSIZE p \<and> BUF_REALSIZE q = BUF_REALSIZE p"
proof (cases c)
  case (BWrite d)
  then show ?thesis
    using assms buf_written_inv(1) [OF assms(1), of d]
    by (auto simp: buf_write_desc_eq buf_written_def buf_sizes)
next
  case (BRead d)
  then show ?thesis
    using assms buf_consumed_inv(1) [OF assms(1)]
    by (auto simp: buf_read_desc_eq buf_consumed_def buf_sizes)
next
  case BFlush
  then show ?thesis
    using assms buf_flush_inv by (auto simp: buf_flush_desc_def buf_sizes)
qed

text \<open>A ring of four one-byte elements that holds 10 and 20, used by the witnesses below.\<close>

definition buf_demo :: buf_desc where
  "buf_demo = \<lparr>logsize = 2, wptr = 1, rptr = 3, bcount = 2, bdata = Some [20, 0, 0, 10], logdsize = 0\<rparr>"

lemma buf_demo_good: "buf_good buf_demo"
  by (simp add: buf_good_def buf_inv_def buf_demo_def buf_sizes)

lemma buf_demo_facts [simp]:
  "BUF_REALSIZE buf_demo = 4" "BUF_REALDSIZE buf_demo = 1" "buf_contents buf_demo = [[10], [20]]"
  "buf_elem buf_demo = (\<lambda>x. length x = 1)"
  by (simp_all add: buf_demo_def buf_sizes buf_contents_def buf_chunk_def buf_slot_def buf_elem_def fun_eq_iff upt_conv_Cons)

subsection \<open>Properties\<close>

text \<open>C1. Functional refinement of the device buffer: from a well-formed ring that is not
  overfull, any sequence of writes and reads that never exceeds the capacity returns exactly
  what the same sequence returns on a list queue (every byte, in order, none lost or
  duplicated), reads on the empty ring report underflow, and the ring's contents afterwards
  are the list's.\<close>

theorem buf_run_is_fifo:
  assumes "buf_good p" "fits (buf_elem p) (BUF_REALSIZE p) ops (buf_contents p)"
  shows "fst (run_ops buf_put buf_get ops p) = fst (list_ops ops (buf_contents p)) \<and>
    buf_contents (snd (run_ops buf_put buf_get ops p)) = snd (list_ops ops (buf_contents p)) \<and>
    buf_good (snd (run_ops buf_put buf_get ops p))"
  using devbuf.run_ops_refines [OF assms] by blast

theorem buf_run_is_fifo_witness:
  "fst (run_ops buf_put buf_get [Get, Put [7], Put [8], Get, Get, Get, Get] buf_demo) =
   [Some [10], Some [20], Some [7], Some [8], None]"
  using buf_run_is_fifo [OF buf_demo_good, of "[Get, Put [7], Put [8], Get, Get, Get, Get]"] by simp

text \<open>Memory safety of the ring: from a well-formed descriptor, no sequence of writes, reads
  and flushes (with pointers to whole elements) ever dereferences NULL or leaves the allocated
  block, even when writes go on after the ring is full, and the descriptor stays well-formed
  with the same geometry.\<close>

theorem buf_exec_all_safe:
  assumes "buf_inv p" "\<forall>c \<in> set cs. buf_op_ok (BUF_REALDSIZE p) c"
  shows "\<exists>q. buf_exec_all p cs = Inr q \<and> buf_inv q \<and> BUF_REALDSIZE q = BUF_REALDSIZE p \<and> BUF_REALSIZE q = BUF_REALSIZE p"
  using assms
proof (induction cs arbitrary: p)
  case Nil
  then show ?case by simp
next
  case (Cons c cs)
  then obtain q where q: "buf_exec p c = Inr q" "buf_inv q" "BUF_REALDSIZE q = BUF_REALDSIZE p"
      "BUF_REALSIZE q = BUF_REALSIZE p"
    using buf_exec_inv [of p c] by auto
  then show ?case using Cons.IH [of q] Cons.prems by auto
qed

theorem buf_exec_all_safe_witness:
  "\<exists>q. buf_exec_all buf_demo (replicate 9 (BWrite [1]) @ [BRead [0], BFlush, BRead [0]]) = Inr q \<and> buf_inv q"
  using buf_exec_all_safe [of buf_demo "replicate 9 (BWrite [1]) @ [BRead [0], BFlush, BRead [0]]"]
    buf_demo_good by (auto simp: buf_good_def)

text \<open>What a write to a full ring does: the overflow test compares the count with \<open>>\<close> instead
  of \<open>\<ge>\<close>, so the write is accepted, it overwrites the oldest unread element, and the next read
  returns the byte written last instead of the oldest one; only the write after that is
  refused.\<close>

theorem buf_write_full_clobbers_oldest:
  assumes "buf_good p" "buf_elem p x" "buf_elem p y" "length (buf_contents p) = BUF_REALSIZE p"
  shows "\<exists>q. buf_write_desc p x = Inr (PLATFORM_OK, q) \<and>
    buf_contents q = x # tl (buf_contents p) @ [x] \<and>
    buf_write_desc q y = Inr (PLATFORM_ERR, q) \<and>
    (\<exists>q'. buf_read_desc q (replicate (BUF_REALDSIZE q) 0) = Inr (PLATFORM_OK, x, q'))"
proof -
  have inv: "buf_inv p" and len: "BUF_REALDSIZE p \<le> length x" and full: "unat (bcount p) = BUF_REALSIZE p"
    using assms by (simp_all add: buf_good_def buf_elem_def)
  let ?q = "buf_written p x"
  have q: "buf_inv ?q" "unat (bcount ?q) = Suc (BUF_REALSIZE p)"
    using buf_written_inv [OF inv len] full by simp_all
  have g: "BUF_REALSIZE ?q = BUF_REALSIZE p" "BUF_REALDSIZE ?q = BUF_REALDSIZE p"
    by (simp_all add: buf_written_def buf_sizes)
  have c: "buf_contents ?q = x # tl (buf_contents p) @ [x]"
    using buf_contents_written_full [OF inv len full] assms(2) by (simp add: buf_elem_def)
  have nz: "bcount ?q \<noteq> 0" using q by auto
  have "buf_chunk ?q (buf_slot ?q 0) = x"
    using buf_contents_consumed [OF q(1) nz] c by simp
  then have "buf_read_desc ?q (replicate (BUF_REALDSIZE ?q) 0) = Inr (PLATFORM_OK, x, buf_consumed ?q)"
    using nz assms(2) g by (simp add: buf_read_desc_eq [OF q(1)] overwrite_def buf_elem_def)
  moreover have "buf_write_desc ?q y = Inr (PLATFORM_ERR, ?q)"
    using q g assms(3) by (simp add: buf_write_desc_eq [OF q(1)] buf_elem_def)
  moreover have "buf_write_desc p x = Inr (PLATFORM_OK, ?q)"
    using full by (simp add: buf_write_desc_eq [OF inv len])
  ultimately show ?thesis using c by blast
qed

definition buf_demo_full :: buf_desc where
  "buf_demo_full = \<lparr>logsize = 1, wptr = 0, rptr = 0, bcount = 2, bdata = Some [10, 20], logdsize = 0\<rparr>"

theorem buf_write_full_clobbers_oldest_witness:
  "\<exists>q. buf_write_desc buf_demo_full [7] = Inr (PLATFORM_OK, q) \<and> buf_contents q = [[7], [20], [7]]"
proof -
  have "buf_good buf_demo_full" "buf_elem buf_demo_full [7]" "buf_elem buf_demo_full [8]"
    "length (buf_contents buf_demo_full) = BUF_REALSIZE buf_demo_full"
    by (simp_all add: buf_good_def buf_inv_def buf_demo_full_def buf_sizes buf_elem_def)
  moreover have "buf_contents buf_demo_full = [[10], [20]]"
    by (simp add: buf_demo_full_def buf_sizes buf_contents_def buf_chunk_def buf_slot_def upt_conv_Cons)
  ultimately show ?thesis
    using buf_write_full_clobbers_oldest [of buf_demo_full "[7]" "[8]"] by auto
qed

text \<open>Setting up a buffer: whatever the descriptor held, a \<^verbatim>\<open>buf_set\<close> whose allocation
  succeeds, followed by a flush, gives an empty well-formed ring with the requested number of
  elements of the requested size; if the allocation fails the buffer is disabled and the call
  reports the error.\<close>

theorem buf_set_then_flush:
  assumes "0 < lsize" "unat lsize \<le> 15" "unat ldsize \<le> 2" "unat lsize + unat ldsize \<le> 16"
  shows "case buf_set_desc avail junk p lsize ldsize of (r, q) \<Rightarrow>
    if avail then r = PLATFORM_OK \<and> buf_good (buf_flush_desc q) \<and> buf_contents (buf_flush_desc q) = [] \<and>
      buf_get_size_desc (buf_flush_desc q) = 2 ^ unat lsize \<and> BUF_REALDSIZE q = 2 ^ unat ldsize
    else r = PLATFORM_ERR \<and> \<not> buf_is_enabled_desc q \<and> buf_get_count_desc q = 0"
proof -
  have sum: "unat (lsize + ldsize) = unat lsize + unat ldsize"
    using assms by (simp add: unat_word_ariths)
  have nz: "lsize + ldsize \<noteq> 0"
    using sum assms(1) by (metis add_is_0 unat_eq_zero word_neq_0_conv)
  have pos: "lsize \<noteq> 0" using assms(1) by auto
  show ?thesis
  proof (cases avail)
    case True
    have len: "length (the (c_realloc True junk old n)) = n" for old n
      by (auto simp: c_realloc_def min_def split: option.split)
    obtain b where b: "c_realloc True junk (bdata p) (2 ^ (unat lsize + unat ldsize)) = Some b"
      "length b = 2 ^ (unat lsize + unat ldsize)"
      using len [of "bdata p"] by (auto simp: c_realloc_def)
    then show ?thesis
      using True assms nz sum
      by (simp add: buf_set_desc_def Let_def buf_sizes buf_flush_desc_def buf_good_def buf_inv_def
          buf_contents_def buf_get_size_desc_def)
  next
    case False
    then show ?thesis using pos
      by (simp add: buf_set_desc_def Let_def c_realloc_def buf_is_enabled_desc_def buf_get_count_desc_def)
  qed
qed

theorem buf_set_then_flush_witness:
  "buf_good (buf_flush_desc (snd (buf_set_desc True (\<lambda>_. 0) buf_demo 5 1)))"
  using buf_set_then_flush [of 5 1 True "\<lambda>_. 0" buf_demo] by (simp add: case_prod_beta)

text \<open>A resize without a flush is not safe: \<^verbatim>\<open>buf_set\<close> keeps the old offsets, so when a ring is
  made smaller while its write offset lies behind the new block, the next write (the one an
  interrupt handler performs) stores outside the block.\<close>

theorem buf_shrink_write_out_of_bounds:
  assumes "buf_good p" "0 < lsize" "unat lsize \<le> 15" "unat (bcount p) \<le> 2 ^ unat lsize"
    "2 ^ unat lsize \<le> unat (wptr p)" "logdsize p = 0" "d \<noteq> []"
  shows "buf_write_desc (snd (buf_set_desc True junk p lsize 0)) d = Inl OutOfBounds"
proof -
  let ?n = "2 ^ unat lsize :: nat"
  have pos: "lsize \<noteq> 0" using assms(2) by auto
  obtain b where b: "c_realloc True junk (bdata p) ?n = Some b" "length b = ?n"
    by (auto simp: c_realloc_def min_def split: option.split)
  have c0: "copy_step d (Inr (b, unat (wptr p), 0)) = Inl OutOfBounds"
    using assms(5) b by simp
  have "duff_copy 1 d 0 b (unat (wptr p)) = Inl OutOfBounds"
    using c0 by (simp add: duff_copy_def duff_device_8_funpow)
  then show ?thesis
    using b pos assms(4) by (simp add: buf_set_desc_def Let_def buf_sizes buf_write_desc_def)
qed

theorem buf_shrink_write_out_of_bounds_witness:
  "buf_write_desc (snd (buf_set_desc True (\<lambda>_. 0)
     \<lparr>logsize = 3, wptr = 7, rptr = 6, bcount = 1, bdata = Some [0, 0, 0, 0, 0, 0, 9, 0], logdsize = 0\<rparr> 1 0)) [5]
   = Inl OutOfBounds"
  by (rule buf_shrink_write_out_of_bounds) (simp_all add: buf_good_def buf_inv_def buf_sizes)

end
