(* ===== verification/Rpc.thy ===== *)
theory Rpc
  imports Elua_Prelude
begin

text \<open>
  The serialization layer of \<^verbatim>\<open>src/eluarpc.c\<close>: tagged little-endian integers, counted byte
  blocks and the packet frame around them. A writer is a cursor into byte memory that is moved
  over what it stores; a reader is a cursor with the sticky error flag \<^verbatim>\<open>eluarpc_err_flag\<close>.
  The variadic \<^verbatim>\<open>eluarpc_gen_write\<close> and \<^verbatim>\<open>eluarpc_gen_read\<close> are interpreters of a format
  string. The theory shows that reading inverts writing for every format, and that whatever the
  reader accepts is an encoding the writer would have produced.

  Addresses are natural numbers; a pointer block handed to the writer is the list of bytes it
  points to (at least as many as the given length), or \<open>None\<close> for NULL.
\<close>

abbreviation TYPE_INT_8 :: u8 where "TYPE_INT_8 \<equiv> 0x01"
abbreviation TYPE_INT_16 :: u8 where "TYPE_INT_16 \<equiv> 0x02"
abbreviation TYPE_INT_32 :: u8 where "TYPE_INT_32 \<equiv> 0x03"
abbreviation TYPE_PTR :: u8 where "TYPE_PTR \<equiv> 0x04"
abbreviation TYPE_START :: u8 where "TYPE_START \<equiv> 0x05"
abbreviation TYPE_END :: u8 where "TYPE_END \<equiv> 0x06"
abbreviation TYPE_OP_ID :: u8 where "TYPE_OP_ID \<equiv> 0x07"
abbreviation TYPE_SMALL_PTR :: u8 where "TYPE_SMALL_PTR \<equiv> 0x08"
abbreviation TYPE_PKT_SIZE :: u8 where "TYPE_PKT_SIZE \<equiv> 0xA5"
abbreviation TYPE_DISCOVER :: u8 where "TYPE_DISCOVER \<equiv> 0xC8"

abbreviation PACKET_SIG :: u32 where "PACKET_SIG \<equiv> 0x18AFC284"
abbreviation ELUARPC_OK :: int where "ELUARPC_OK \<equiv> 0"
abbreviation ELUARPC_ERR :: int where "ELUARPC_ERR \<equiv> 1"
abbreviation ELUARPC_OP_RES_MOD :: u8 where "ELUARPC_OP_RES_MOD \<equiv> 0x80"
abbreviation ELUARPC_START_OFFSET :: nat where "ELUARPC_START_OFFSET \<equiv> 4"
abbreviation ELUARPC_PTR_HEADER_SIZE :: nat where "ELUARPC_PTR_HEADER_SIZE \<equiv> 6"
abbreviation ELUARPC_SMALL_PTR_HEADER_SIZE :: nat where "ELUARPC_SMALL_PTR_HEADER_SIZE \<equiv> 4"

subsection \<open>Writing\<close>

type_synonym wr = "mem \<times> nat"

text \<open>\<^verbatim>\<open>*p++ = b\<close> and \<^verbatim>\<open>memcpy( p, src, n ); p += n\<close>.\<close>

definition emit :: "u8 \<Rightarrow> wr \<Rightarrow> wr" where
  "emit b w = (case w of (m, p) \<Rightarrow> (m(p := b), p + 1))"

definition emit_block :: "u8 list option \<Rightarrow> nat \<Rightarrow> wr \<Rightarrow> wr" where
  "emit_block src n w = (case w of (m, p) \<Rightarrow>
     (case src of None \<Rightarrow> m | Some bs \<Rightarrow> mem_store m p (take n bs), p + n))"

definition eluarpc_write_u8 :: "u8 \<Rightarrow> wr \<Rightarrow> wr" where
  "eluarpc_write_u8 x w = emit x (emit TYPE_INT_8 w)"

definition eluarpc_write_op_id :: "u8 \<Rightarrow> wr \<Rightarrow> wr" where
  "eluarpc_write_op_id x w = emit x (emit TYPE_OP_ID w)"

definition eluarpc_write_u16 :: "u16 \<Rightarrow> wr \<Rightarrow> wr" where
  "eluarpc_write_u16 x w =
     emit (ucast (drop_bit 8 x AND 0xFF)) (emit (ucast (x AND 0xFF)) (emit TYPE_INT_16 w))"

definition eluarpc_write_u32 :: "u32 \<Rightarrow> wr \<Rightarrow> wr" where
  "eluarpc_write_u32 x w =
     emit (ucast (drop_bit 24 x AND 0xFF)) (emit (ucast (drop_bit 16 x AND 0xFF))
       (emit (ucast (drop_bit 8 x AND 0xFF)) (emit (ucast (x AND 0xFF)) (emit TYPE_INT_32 w))))"

definition eluarpc_write_ptr :: "u8 list option \<Rightarrow> u32 \<Rightarrow> wr \<Rightarrow> wr" where
  "eluarpc_write_ptr src srclen w =
     emit_block src (unat srclen) (eluarpc_write_u32 srclen (emit TYPE_PTR w))"

definition eluarpc_write_small_ptr :: "u8 list option \<Rightarrow> u16 \<Rightarrow> wr \<Rightarrow> wr" where
  "eluarpc_write_small_ptr src srclen w =
     emit_block src (unat srclen) (eluarpc_write_u16 srclen (emit TYPE_SMALL_PTR w))"

definition eluarpc_start_packet :: "wr \<Rightarrow> wr" where
  "eluarpc_start_packet w = (case w of (m, p) \<Rightarrow>
     eluarpc_write_u32 PACKET_SIG (emit TYPE_START (m, p + ELUARPC_START_OFFSET)))"

text \<open>\<open>base\<close> is \<^verbatim>\<open>eluarpc_packet_ptr\<close>, the start of the packet.\<close>

definition eluarpc_end_packet :: "nat \<Rightarrow> wr \<Rightarrow> mem" where
  "eluarpc_end_packet base w =
     (case eluarpc_write_u32 (NOT PACKET_SIG) (emit TYPE_END w) of (m, p) \<Rightarrow>
        fst (eluarpc_write_u16 (of_nat (p - base)) (emit TYPE_PKT_SIZE (m, base))))"

text \<open>
  The arguments of the variadic writer: an \<^verbatim>\<open>int\<close>, \<^verbatim>\<open>u32\<close> or \<^verbatim>\<open>s32\<close> is its 32 bits, a block is a
  pointer with its length. Running out of arguments, or taking one of the wrong kind, is
  undefined in C and \<open>None\<close> here.
\<close>

datatype rpc_arg = AInt u32 | APtr "u8 list option" u32

definition eluarpc_write_item :: "char \<Rightarrow> rpc_arg list \<Rightarrow> wr \<Rightarrow> (rpc_arg list \<times> wr) option" where
  "eluarpc_write_item c args w =
     (if c = CHR ''o'' then
        (case args of AInt x # as \<Rightarrow> Some (as, eluarpc_write_op_id (ucast x) w) | _ \<Rightarrow> None)
      else if c = CHR ''r'' then
        (case args of AInt x # as \<Rightarrow> Some (as, emit (ELUARPC_OP_RES_MOD OR ucast x) w) | _ \<Rightarrow> None)
      else if c = CHR ''c'' then
        (case args of AInt x # as \<Rightarrow> Some (as, eluarpc_write_u8 (ucast x) w) | _ \<Rightarrow> None)
      else if c = CHR ''h'' then
        (case args of AInt x # as \<Rightarrow> Some (as, eluarpc_write_u16 (ucast x) w) | _ \<Rightarrow> None)
      else if c = CHR ''i'' \<or> c = CHR ''l'' \<or> c = CHR ''L'' then
        (case args of AInt x # as \<Rightarrow> Some (as, eluarpc_write_u32 x w) | _ \<Rightarrow> None)
      else if c = CHR ''p'' then
        (case args of APtr src n # as \<Rightarrow> Some (as, eluarpc_write_ptr src n w) | _ \<Rightarrow> None)
      else if c = CHR ''P'' then
        (case args of APtr src n # as \<Rightarrow> Some (as, eluarpc_write_small_ptr src (ucast n) w) | _ \<Rightarrow> None)
      else Some (args, w))"

text \<open>The \<^verbatim>\<open>while( *fmt )\<close> loop.\<close>

primrec eluarpc_gen_write_items :: "string \<Rightarrow> rpc_arg list \<Rightarrow> wr \<Rightarrow> wr option" where
  "eluarpc_gen_write_items [] args w = Some w"
| "eluarpc_gen_write_items (c # fmt) args w =
     (case eluarpc_write_item c args w of
        None \<Rightarrow> None
      | Some (as, w') \<Rightarrow> eluarpc_gen_write_items fmt as w')"

definition eluarpc_gen_write :: "mem \<Rightarrow> nat \<Rightarrow> string \<Rightarrow> rpc_arg list \<Rightarrow> mem option" where
  "eluarpc_gen_write m p fmt args =
     map_option (eluarpc_end_packet p) (eluarpc_gen_write_items fmt args (eluarpc_start_packet (m, p)))"

subsection \<open>Reading\<close>

text \<open>A reader: the cursor and whether \<^verbatim>\<open>eluarpc_err_flag\<close> has been raised.\<close>

type_synonym rd = "nat \<times> bool"

definition eluarpc_read_expect :: "mem \<Rightarrow> u8 \<Rightarrow> rd \<Rightarrow> rd" where
  "eluarpc_read_expect m d r = (case r of (p, e) \<Rightarrow> (p + 1, e \<or> m p \<noteq> d))"

definition eluarpc_read_u8 :: "mem \<Rightarrow> rd \<Rightarrow> u8 \<times> rd" where
  "eluarpc_read_u8 m r = (case eluarpc_read_expect m TYPE_INT_8 r of (p, e) \<Rightarrow> (m p, p + 1, e))"

definition eluarpc_read_op_id :: "mem \<Rightarrow> rd \<Rightarrow> u8 \<times> rd" where
  "eluarpc_read_op_id m r = (case eluarpc_read_expect m TYPE_OP_ID r of (p, e) \<Rightarrow> (m p, p + 1, e))"

definition eluarpc_expect_op_id :: "mem \<Rightarrow> u8 \<Rightarrow> rd \<Rightarrow> rd" where
  "eluarpc_expect_op_id m i r =
     (case eluarpc_read_expect m TYPE_OP_ID r of (p, e) \<Rightarrow> (p + 1, e \<or> m p \<noteq> i))"

definition eluarpc_read_u16 :: "mem \<Rightarrow> rd \<Rightarrow> u16 \<times> rd" where
  "eluarpc_read_u16 m r = (case eluarpc_read_expect m TYPE_INT_16 r of (p, e) \<Rightarrow>
     (ucast (m p) OR push_bit 8 (ucast (m (p + 1))), p + 2, e))"

definition eluarpc_read_u32 :: "mem \<Rightarrow> rd \<Rightarrow> u32 \<times> rd" where
  "eluarpc_read_u32 m r = (case eluarpc_read_expect m TYPE_INT_32 r of (p, e) \<Rightarrow>
     (ucast (m p) OR push_bit 8 (ucast (m (p + 1))) OR push_bit 16 (ucast (m (p + 2)))
        OR push_bit 24 (ucast (m (p + 3))), p + 4, e))"

definition eluarpc_read_ptr :: "mem \<Rightarrow> rd \<Rightarrow> u32 \<times> rd" where
  "eluarpc_read_ptr m r = (case eluarpc_read_u32 m (eluarpc_read_expect m TYPE_PTR r) of (n, p, e) \<Rightarrow>
     (n, p + unat n, e))"

definition eluarpc_read_small_ptr :: "mem \<Rightarrow> rd \<Rightarrow> u16 \<times> rd" where
  "eluarpc_read_small_ptr m r = (case eluarpc_read_u16 m (eluarpc_read_expect m TYPE_SMALL_PTR r) of (n, p, e) \<Rightarrow>
     (n, p + unat n, e))"

definition eluarpc_match_packet_start :: "mem \<Rightarrow> rd \<Rightarrow> rd" where
  "eluarpc_match_packet_start m r = (case r of (p, e) \<Rightarrow>
     (case eluarpc_read_u32 m (eluarpc_read_expect m TYPE_START (p + ELUARPC_START_OFFSET, e)) of
        (d, q, e') \<Rightarrow> (q, e' \<or> d \<noteq> PACKET_SIG)))"

definition eluarpc_match_packet_end :: "mem \<Rightarrow> rd \<Rightarrow> rd" where
  "eluarpc_match_packet_end m r =
     (case eluarpc_read_u32 m (eluarpc_read_expect m TYPE_END r) of
        (d, q, e') \<Rightarrow> (q, e' \<or> d \<noteq> NOT PACKET_SIG))"

definition eluarpc_status :: "bool \<Rightarrow> int" where
  "eluarpc_status e = (if e then ELUARPC_ERR else ELUARPC_OK)"

definition eluarpc_get_request_id :: "mem \<Rightarrow> nat \<Rightarrow> int \<times> u8" where
  "eluarpc_get_request_id m p =
     (case eluarpc_read_op_id m (eluarpc_match_packet_start m (p, False)) of
        (i, _, e) \<Rightarrow> (eluarpc_status e, i))"

definition eluarpc_get_packet_size :: "mem \<Rightarrow> nat \<Rightarrow> int \<times> u16" where
  "eluarpc_get_packet_size m p =
     (case eluarpc_read_u16 m (eluarpc_read_expect m TYPE_PKT_SIZE (p, False)) of
        (n, _, e) \<Rightarrow> (eluarpc_status e, n))"

definition eluarpc_replace_flag :: "u32 \<Rightarrow> u32 \<Rightarrow> u32 \<Rightarrow> u32" where
  "eluarpc_replace_flag val origflag newflag = (if val AND origflag \<noteq> 0 then newflag else 0)"

text \<open>
  What the variadic reader stores through its out-pointers, in order: an integer of at most 32
  bits, or a pointer into the packet (\<open>None\<close> for an empty block) with its length. The
  expected operation and response ids are its remaining arguments.
\<close>

datatype rpc_out = OInt u32 | OPtr "nat option" u32

definition eluarpc_read_item :: "mem \<Rightarrow> char \<Rightarrow> u8 list \<Rightarrow> rd \<Rightarrow> (rpc_out list \<times> u8 list \<times> rd) option" where
  "eluarpc_read_item m c ids r =
     (if c = CHR ''o'' then
        (case ids of i # is \<Rightarrow> Some ([], is, eluarpc_expect_op_id m i r) | [] \<Rightarrow> None)
      else if c = CHR ''r'' then
        (case ids of i # is \<Rightarrow> Some ([], is, eluarpc_read_expect m (ELUARPC_OP_RES_MOD OR i) r) | [] \<Rightarrow> None)
      else if c = CHR ''c'' then
        (case eluarpc_read_u8 m r of (x, r') \<Rightarrow> Some ([OInt (ucast x)], ids, r'))
      else if c = CHR ''h'' then
        (case eluarpc_read_u16 m r of (x, r') \<Rightarrow> Some ([OInt (ucast x)], ids, r'))
      else if c = CHR ''l'' \<or> c = CHR ''L'' \<or> c = CHR ''i'' then
        (case eluarpc_read_u32 m r of (x, r') \<Rightarrow> Some ([OInt x], ids, r'))
      else if c = CHR ''p'' then
        (case eluarpc_read_ptr m r of (n, r') \<Rightarrow>
           (let tempptr = fst r
            in Some ([OPtr (if fst r' = tempptr + ELUARPC_PTR_HEADER_SIZE then None
                            else Some (tempptr + ELUARPC_PTR_HEADER_SIZE)) n], ids, r')))
      else if c = CHR ''P'' then
        (case eluarpc_read_small_ptr m r of (n, r') \<Rightarrow>
           (let tempptr = fst r
            in Some ([OPtr (if fst r' = tempptr + ELUARPC_SMALL_PTR_HEADER_SIZE then None
                            else Some (tempptr + ELUARPC_SMALL_PTR_HEADER_SIZE)) (ucast n)], ids, r')))
      else Some ([], ids, r))"

primrec eluarpc_gen_read_items :: "mem \<Rightarrow> string \<Rightarrow> u8 list \<Rightarrow> rd \<Rightarrow> (rpc_out list \<times> rd) option" where
  "eluarpc_gen_read_items m [] ids r = Some ([], r)"
| "eluarpc_gen_read_items m (c # fmt) ids r =
     (case eluarpc_read_item m c ids r of
        None \<Rightarrow> None
      | Some (os, is, r') \<Rightarrow> map_option (apfst ((@) os)) (eluarpc_gen_read_items m fmt is r'))"

definition eluarpc_gen_read :: "mem \<Rightarrow> nat \<Rightarrow> string \<Rightarrow> u8 list \<Rightarrow> (int \<times> rpc_out list) option" where
  "eluarpc_gen_read m p fmt ids =
     (case eluarpc_gen_read_items m fmt ids (eluarpc_match_packet_start m (p, False)) of
        None \<Rightarrow> None
      | Some (outs, r) \<Rightarrow> (case eluarpc_match_packet_end m r of (_, e) \<Rightarrow> Some (eluarpc_status e, outs)))"

text \<open>The server-discovery packets of the UDP transport.\<close>

definition ELUARPC_DISCOVER_SIG :: "u8 list" where "ELUARPC_DISCOVER_SIG = [0x65, 0x52, 0x44]"
definition ELUARPC_DISCOVER_RESP :: "u8 list" where "ELUARPC_DISCOVER_RESP = [0x65, 0x53, 0x52, 0x56]"

definition eluarpc_build_discover_packet :: "mem \<Rightarrow> nat \<Rightarrow> mem \<times> nat" where
  "eluarpc_build_discover_packet m p =
     (case emit TYPE_DISCOVER (m, p) of (m', p') \<Rightarrow>
        (mem_store m' p' ELUARPC_DISCOVER_SIG, ELUARPC_START_OFFSET))"

text \<open>\<^verbatim>\<open>strncmp\<close> against a string without zero bytes compares all its characters.\<close>

definition eluarpc_is_discover_packet :: "mem \<Rightarrow> nat \<Rightarrow> bool" where
  "eluarpc_is_discover_packet m p =
     (case eluarpc_read_expect m TYPE_DISCOVER (p, False) of (q, e) \<Rightarrow>
        \<not> e \<and> mem_load m q (length ELUARPC_DISCOVER_SIG) = ELUARPC_DISCOVER_SIG)"

definition eluarpc_build_discover_response :: "mem \<Rightarrow> nat \<Rightarrow> mem \<times> nat" where
  "eluarpc_build_discover_response m p =
     (mem_store m p ELUARPC_DISCOVER_RESP, length ELUARPC_DISCOVER_RESP)"

definition eluarpc_is_discover_response_packet :: "mem \<Rightarrow> nat \<Rightarrow> bool" where
  "eluarpc_is_discover_response_packet m p \<longleftrightarrow>
     mem_load m p (length ELUARPC_DISCOVER_RESP) = ELUARPC_DISCOVER_RESP"

subsection \<open>What a packet says\<close>

text \<open>
  The specification: a packet is a frame around a list of tokens. \<open>fmt_toks\<close> reads the tokens
  off a format and the writer's arguments, \<open>seen_toks\<close> off a format and what the reader
  stored.
\<close>

datatype rpc_tok = TOp u8 | TRes u8 | TInt8 u8 | TInt16 u16 | TInt32 u32 | TBlock "u8 list" | TSmall "u8 list"

definition enc_u16 :: "u16 \<Rightarrow> u8 list" where
  "enc_u16 x = [TYPE_INT_16, ucast x, ucast (drop_bit 8 x)]"

definition enc_u32 :: "u32 \<Rightarrow> u8 list" where
  "enc_u32 x = [TYPE_INT_32, ucast x, ucast (drop_bit 8 x), ucast (drop_bit 16 x), ucast (drop_bit 24 x)]"

fun enc_tok :: "rpc_tok \<Rightarrow> u8 list" where
  "enc_tok (TOp i) = [TYPE_OP_ID, i]"
| "enc_tok (TRes i) = [ELUARPC_OP_RES_MOD OR i]"
| "enc_tok (TInt8 x) = [TYPE_INT_8, x]"
| "enc_tok (TInt16 x) = enc_u16 x"
| "enc_tok (TInt32 x) = enc_u32 x"
| "enc_tok (TBlock bs) = TYPE_PTR # enc_u32 (of_nat (length bs)) @ bs"
| "enc_tok (TSmall bs) = TYPE_SMALL_PTR # enc_u16 (of_nat (length bs)) @ bs"

definition enc_toks :: "rpc_tok list \<Rightarrow> u8 list" where
  "enc_toks ts = concat (map enc_tok ts)"

definition rpc_body :: "rpc_tok list \<Rightarrow> u8 list" where
  "rpc_body ts = TYPE_START # enc_u32 PACKET_SIG @ enc_toks ts @ TYPE_END # enc_u32 (NOT PACKET_SIG)"

definition rpc_packet :: "rpc_tok list \<Rightarrow> u8 list" where
  "rpc_packet ts = TYPE_PKT_SIZE # enc_u16 (of_nat (4 + length (rpc_body ts))) @ rpc_body ts"

definition arg_bytes :: "u8 list option \<Rightarrow> u8 list" where
  "arg_bytes src = (case src of None \<Rightarrow> [] | Some bs \<Rightarrow> bs)"

text \<open>The token of one specifier with its argument; a block must be as long as it claims.\<close>

definition arg_tok :: "char \<Rightarrow> rpc_arg \<Rightarrow> rpc_tok option" where
  "arg_tok c a = (case a of
     AInt x \<Rightarrow>
       (if c = CHR ''o'' then Some (TOp (ucast x))
        else if c = CHR ''r'' then Some (TRes (ucast x))
        else if c = CHR ''c'' then Some (TInt8 (ucast x))
        else if c = CHR ''h'' then Some (TInt16 (ucast x))
        else if c = CHR ''i'' \<or> c = CHR ''l'' \<or> c = CHR ''L'' then Some (TInt32 x)
        else None)
   | APtr src n \<Rightarrow>
       (if c = CHR ''p'' \<and> unat n \<le> length (arg_bytes src) then Some (TBlock (take (unat n) (arg_bytes src)))
        else if c = CHR ''P'' \<and> unat (ucast n :: u16) \<le> length (arg_bytes src)
        then Some (TSmall (take (unat (ucast n :: u16)) (arg_bytes src)))
        else None))"

definition rpc_spec_char :: "char \<Rightarrow> bool" where
  "rpc_spec_char c \<longleftrightarrow> c \<in> {CHR ''o'', CHR ''r'', CHR ''c'', CHR ''h'', CHR ''i'', CHR ''l'', CHR ''L'', CHR ''p'', CHR ''P''}"

primrec fmt_toks :: "string \<Rightarrow> rpc_arg list \<Rightarrow> rpc_tok list option" where
  "fmt_toks [] args = Some []"
| "fmt_toks (c # fmt) args =
     (if rpc_spec_char c then
        (case args of [] \<Rightarrow> None
         | a # as \<Rightarrow> (case arg_tok c a of None \<Rightarrow> None
             | Some t \<Rightarrow> map_option ((#) t) (fmt_toks fmt as)))
      else fmt_toks fmt args)"

definition out_bytes :: "mem \<Rightarrow> nat option \<Rightarrow> u32 \<Rightarrow> u8 list" where
  "out_bytes m a n = (case a of None \<Rightarrow> [] | Some q \<Rightarrow> mem_load m q (unat n))"

definition out_tok :: "mem \<Rightarrow> char \<Rightarrow> rpc_out \<Rightarrow> rpc_tok" where
  "out_tok m c v = (case v of
     OInt x \<Rightarrow> if c = CHR ''c'' then TInt8 (ucast x) else if c = CHR ''h'' then TInt16 (ucast x) else TInt32 x
   | OPtr a n \<Rightarrow> if c = CHR ''p'' then TBlock (out_bytes m a n) else TSmall (out_bytes m a n))"

primrec seen_toks :: "mem \<Rightarrow> string \<Rightarrow> u8 list \<Rightarrow> rpc_out list \<Rightarrow> rpc_tok list" where
  "seen_toks m [] ids outs = []"
| "seen_toks m (c # fmt) ids outs =
     (if c = CHR ''o'' then (case ids of [] \<Rightarrow> [] | i # is \<Rightarrow> TOp i # seen_toks m fmt is outs)
      else if c = CHR ''r'' then (case ids of [] \<Rightarrow> [] | i # is \<Rightarrow> TRes i # seen_toks m fmt is outs)
      else if rpc_spec_char c then (case outs of [] \<Rightarrow> [] | v # os \<Rightarrow> out_tok m c v # seen_toks m fmt ids os)
      else seen_toks m fmt ids outs)"

fun tok_ids :: "rpc_tok list \<Rightarrow> u8 list" where
  "tok_ids [] = []"
| "tok_ids (TOp i # ts) = i # tok_ids ts"
| "tok_ids (TRes i # ts) = i # tok_ids ts"
| "tok_ids (t # ts) = tok_ids ts"

text \<open>A token that belongs to a specifier, with a block length that its length field can hold.\<close>

fun tok_ok :: "char \<Rightarrow> rpc_tok \<Rightarrow> bool" where
  "tok_ok c (TOp i) = (c = CHR ''o'')"
| "tok_ok c (TRes i) = (c = CHR ''r'')"
| "tok_ok c (TInt8 x) = (c = CHR ''c'')"
| "tok_ok c (TInt16 x) = (c = CHR ''h'')"
| "tok_ok c (TInt32 x) = (c = CHR ''i'' \<or> c = CHR ''l'' \<or> c = CHR ''L'')"
| "tok_ok c (TBlock bs) = (c = CHR ''p'' \<and> length bs < 2 ^ 32)"
| "tok_ok c (TSmall bs) = (c = CHR ''P'' \<and> length bs < 2 ^ 16)"

primrec toks_ok :: "string \<Rightarrow> rpc_tok list \<Rightarrow> bool" where
  "toks_ok [] ts = (ts = [])"
| "toks_ok (c # fmt) ts =
     (if rpc_spec_char c then (case ts of [] \<Rightarrow> False | t # ts' \<Rightarrow> tok_ok c t \<and> toks_ok fmt ts')
      else toks_ok fmt ts)"

lemma arg_tok_ok: "arg_tok c a = Some t \<Longrightarrow> tok_ok c t"
  using unat_lt_u32 unat_lt_u16
  by (auto simp: arg_tok_def split: rpc_arg.splits if_splits intro: le_less_trans)

lemma fmt_toks_ok: "fmt_toks fmt args = Some ts \<Longrightarrow> toks_ok fmt ts"
  by (induction fmt arbitrary: args ts)
    (auto split: if_splits list.splits option.splits dest: arg_tok_ok)

lemma length_enc [simp]: "length (enc_u16 x) = 3" "length (enc_u32 y) = 5"
  by (simp_all add: enc_u16_def enc_u32_def)

lemma enc_toks_simps [simp]: "enc_toks [] = []" "enc_toks (t # ts) = enc_tok t @ enc_toks ts"
  by (simp_all add: enc_toks_def)

subsection \<open>The writers store the encodings\<close>

definition wr_puts :: "u8 list \<Rightarrow> wr \<Rightarrow> wr" where
  "wr_puts bs w = (case w of (m, p) \<Rightarrow> (mem_store m p bs, p + length bs))"

lemma wr_puts_puts [simp]: "wr_puts ys (wr_puts xs w) = wr_puts (xs @ ys) w"
  by (simp add: wr_puts_def mem_store_append split: prod.split)

lemma wr_puts_Nil [simp]: "wr_puts [] w = w"
  by (simp add: wr_puts_def)

lemma emit_puts: "emit b w = wr_puts [b] w"
  by (auto simp: emit_def wr_puts_def mem_store_def fun_eq_iff split: prod.split)

lemma emit_block_puts:
  "n \<le> length (arg_bytes src) \<Longrightarrow> emit_block src n w = wr_puts (take n (arg_bytes src)) w"
  by (auto simp: emit_block_def wr_puts_def arg_bytes_def split: prod.split option.split)

lemma and_255_u8: "ucast ((x :: 'a :: len word) AND 0xFF) = (ucast x :: u8)"
  by (rule bit_word_eqI)
    (auto simp: bit_simps bit_numeral_rec(1) numeral_eq_Suc less_Suc_eq dest: bit_imp_le_length)

lemma write_puts:
  "eluarpc_write_u8 b w = wr_puts [TYPE_INT_8, b] w"
  "eluarpc_write_op_id b w = wr_puts [TYPE_OP_ID, b] w"
  "eluarpc_write_u16 h w = wr_puts (enc_u16 h) w"
  "eluarpc_write_u32 l w = wr_puts (enc_u32 l) w"
  by (simp_all add: eluarpc_write_u8_def eluarpc_write_op_id_def eluarpc_write_u16_def
      eluarpc_write_u32_def enc_u16_def enc_u32_def emit_puts and_255_u8)

lemma write_ptr_puts:
  "unat n \<le> length (arg_bytes src) \<Longrightarrow>
   eluarpc_write_ptr src n w = wr_puts (enc_tok (TBlock (take (unat n) (arg_bytes src)))) w"
  by (simp add: eluarpc_write_ptr_def emit_puts write_puts emit_block_puts min_def)

lemma write_small_ptr_puts:
  "unat n \<le> length (arg_bytes src) \<Longrightarrow>
   eluarpc_write_small_ptr src n w = wr_puts (enc_tok (TSmall (take (unat n) (arg_bytes src)))) w"
  by (simp add: eluarpc_write_small_ptr_def emit_puts write_puts emit_block_puts min_def)

lemma write_item_int:
  "arg_tok c (AInt x) \<noteq> None \<Longrightarrow>
   eluarpc_write_item c (AInt x # as) w = Some (as, wr_puts (enc_tok (the (arg_tok c (AInt x)))) w)"
  by (simp add: eluarpc_write_item_def arg_tok_def write_puts emit_puts split: if_splits)
    (elim disjE; simp)

lemma write_item_ptr:
  assumes "arg_tok c (APtr src n) \<noteq> None"
  shows "eluarpc_write_item c (APtr src n # as) w = Some (as, wr_puts (enc_tok (the (arg_tok c (APtr src n)))) w)"
proof (cases "c = CHR ''p''")
  case True
  then have le: "unat n \<le> length (arg_bytes src)"
    using assms by (simp add: arg_tok_def split: if_splits)
  then show ?thesis
    using True by (simp add: eluarpc_write_item_def arg_tok_def write_ptr_puts [OF le])
next
  case False
  then have c: "c = CHR ''P''" and le: "unat (ucast n :: u16) \<le> length (arg_bytes src)"
    using assms by (simp_all add: arg_tok_def split: if_splits)
  then show ?thesis
    by (simp add: eluarpc_write_item_def arg_tok_def write_small_ptr_puts [OF le])
qed

lemma write_item_spec:
  "arg_tok c a = Some t \<Longrightarrow> eluarpc_write_item c (a # as) w = Some (as, wr_puts (enc_tok t) w)"
  by (cases a) (simp_all add: write_item_int write_item_ptr)

lemma write_item_skip: "\<not> rpc_spec_char c \<Longrightarrow> eluarpc_write_item c args w = Some (args, w)"
  by (simp add: eluarpc_write_item_def rpc_spec_char_def)

lemma write_items_spec:
  "fmt_toks fmt args = Some ts \<Longrightarrow> eluarpc_gen_write_items fmt args w = Some (wr_puts (enc_toks ts) w)"
proof (induction fmt arbitrary: args ts w)
  case (Cons c fmt)
  show ?case
  proof (cases "rpc_spec_char c")
    case True
    then obtain a as t ts' where "args = a # as" "arg_tok c a = Some t" "fmt_toks fmt as = Some ts'" "ts = t # ts'"
      using Cons.prems by (auto split: list.splits option.splits)
    then show ?thesis using Cons.IH [of as ts'] by (simp add: write_item_spec)
  qed (use Cons in \<open>simp add: write_item_skip\<close>)
qed simp

lemma mem_store_header_frame:
  "length h = 4 \<Longrightarrow> mem_store (mem_store m (p + 4) b) p h = mem_store m p (h @ b)"
  by (rule ext) (auto simp: mem_store_def nth_append)

text \<open>The writer stores exactly the packet of its arguments' tokens.\<close>

lemma end_packet_spec:
  "eluarpc_end_packet p (wr_puts bs (m, p + 4)) =
   (let b = bs @ TYPE_END # enc_u32 (NOT PACKET_SIG)
    in mem_store m p (TYPE_PKT_SIZE # enc_u16 (of_nat (4 + length b)) @ b))"
proof -
  define b where "b = bs @ TYPE_END # enc_u32 (NOT PACKET_SIG)"
  have "eluarpc_write_u32 (NOT PACKET_SIG) (emit TYPE_END (wr_puts bs (m, p + 4))) = wr_puts b (m, p + 4)"
    by (simp only: write_puts emit_puts wr_puts_puts b_def append_assoc append_Cons append_Nil)
  moreover have "wr_puts b (m, p + 4) = (mem_store m (p + 4) b, p + 4 + length b)"
    by (simp add: wr_puts_def)
  moreover have "p + 4 + length b - p = 4 + length b" by simp
  ultimately have "eluarpc_end_packet p (wr_puts bs (m, p + 4)) =
      fst (wr_puts (TYPE_PKT_SIZE # enc_u16 (of_nat (4 + length b))) (mem_store m (p + 4) b, p))"
    unfolding eluarpc_end_packet_def
    by (simp only: prod.case write_puts emit_puts wr_puts_puts append_Cons append_Nil)
  then show ?thesis
    unfolding Let_def b_def [symmetric] by (simp add: wr_puts_def mem_store_header_frame)
qed

lemma gen_write_spec:
  assumes "fmt_toks fmt args = Some ts"
  shows "eluarpc_gen_write m p fmt args = Some (mem_store m p (rpc_packet ts))"
proof -
  have start: "eluarpc_start_packet (m, p) = wr_puts (TYPE_START # enc_u32 PACKET_SIG) (m, p + 4)"
    by (simp add: eluarpc_start_packet_def emit_puts write_puts)
  have "eluarpc_gen_write m p fmt args =
      Some (eluarpc_end_packet p (wr_puts ((TYPE_START # enc_u32 PACKET_SIG) @ enc_toks ts) (m, p + 4)))"
    by (simp only: eluarpc_gen_write_def write_items_spec [OF assms] start wr_puts_puts option.map)
  then show ?thesis
    by (simp only: end_packet_spec Let_def rpc_packet_def rpc_body_def append_Cons append_assoc)
qed

subsection \<open>The readers\<close>

lemma read_expect_eq: "eluarpc_read_expect m d (p, e) = (p + 1, e \<or> m p \<noteq> d)"
  by (simp add: eluarpc_read_expect_def)

lemma bit_u8_beyond: "\<not> bit (w :: u8) (8 + n)" "\<not> bit (w :: u8) (16 + n)" "\<not> bit (w :: u8) (24 + n)"
  using bit_imp_le_length [of w] by force+

lemma holds_u16: "holds m p (enc_u16 x) \<longleftrightarrow>
    m p = TYPE_INT_16 \<and> ucast (m (p + 1)) OR push_bit 8 (ucast (m (p + 2))) = x"
proof
  assume *: "m p = TYPE_INT_16 \<and> ucast (m (p + 1)) OR push_bit 8 (ucast (m (p + 2))) = x"
  then have x: "x = ucast (m (p + 1)) OR push_bit 8 (ucast (m (p + 2)))" by simp
  have "ucast x = m (p + 1)" "ucast (drop_bit 8 x) = m (p + 2)"
    unfolding x by (auto intro!: bit_word_eqI simp: bit_simps bit_u8_beyond)
  with * show "holds m p (enc_u16 x)" by (simp add: enc_u16_def)
qed (auto simp: enc_u16_def u16_assemble)

lemma holds_u32: "holds m p (enc_u32 x) \<longleftrightarrow>
    m p = TYPE_INT_32 \<and> ucast (m (p + 1)) OR push_bit 8 (ucast (m (p + 2)))
      OR push_bit 16 (ucast (m (p + 3))) OR push_bit 24 (ucast (m (p + 4))) = x"
proof
  assume *: "m p = TYPE_INT_32 \<and> ucast (m (p + 1)) OR push_bit 8 (ucast (m (p + 2)))
      OR push_bit 16 (ucast (m (p + 3))) OR push_bit 24 (ucast (m (p + 4))) = x"
  then have x: "x = ucast (m (p + 1)) OR push_bit 8 (ucast (m (p + 2)))
      OR push_bit 16 (ucast (m (p + 3))) OR push_bit 24 (ucast (m (p + 4)))" by simp
  have "ucast x = m (p + 1)" "ucast (drop_bit 8 x) = m (p + 2)"
      "ucast (drop_bit 16 x) = m (p + 3)" "ucast (drop_bit 24 x) = m (p + 4)"
    unfolding x by (auto intro!: bit_word_eqI simp: bit_simps bit_u8_beyond)
  with * show "holds m p (enc_u32 x)" by (simp add: enc_u32_def Suc_addr)
qed (use u32_assemble [of x] in \<open>auto simp: enc_u32_def Suc_addr\<close>)

text \<open>Each reader succeeds exactly on the encoding of what it returns, and never clears the flag.\<close>

lemma read_u8_spec: "eluarpc_read_u8 m (p, e) = (x, p', e') \<Longrightarrow>
    p' = p + 2 \<and> (e' \<longleftrightarrow> e \<or> \<not> holds m p (enc_tok (TInt8 x)))"
  by (auto simp: eluarpc_read_u8_def read_expect_eq)

lemma read_op_id_spec: "eluarpc_read_op_id m (p, e) = (x, p', e') \<Longrightarrow>
    p' = p + 2 \<and> (e' \<longleftrightarrow> e \<or> \<not> holds m p (enc_tok (TOp x)))"
  by (auto simp: eluarpc_read_op_id_def read_expect_eq)

lemma expect_op_id_spec: "eluarpc_expect_op_id m i (p, e) = (p + 2, e \<or> \<not> holds m p (enc_tok (TOp i)))"
  by (auto simp: eluarpc_expect_op_id_def read_expect_eq)

lemma read_u16_spec: "eluarpc_read_u16 m (p, e) = (x, p', e') \<Longrightarrow>
    p' = p + 3 \<and> (e' \<longleftrightarrow> e \<or> \<not> holds m p (enc_u16 x))"
  by (auto simp: eluarpc_read_u16_def read_expect_eq holds_u16)

lemma read_u32_spec: "eluarpc_read_u32 m (p, e) = (x, p', e') \<Longrightarrow>
    p' = p + 5 \<and> (e' \<longleftrightarrow> e \<or> \<not> holds m p (enc_u32 x))"
  by (auto simp: eluarpc_read_u32_def read_expect_eq holds_u32 Suc_addr add.assoc)

lemma holds_u16_inj: "holds m p (enc_u16 x) \<Longrightarrow> holds m p (enc_u16 y) \<Longrightarrow> x = y"
  by (simp add: holds_u16)

lemma holds_u32_inj: "holds m p (enc_u32 x) \<Longrightarrow> holds m p (enc_u32 y) \<Longrightarrow> x = y"
  by (simp add: holds_u32)

lemma read_u16_ok: "holds m p (enc_u16 x) \<Longrightarrow> eluarpc_read_u16 m (p, e) = (x, p + 3, e)"
  by (auto simp: eluarpc_read_u16_def read_expect_eq holds_u16)

lemma read_u32_ok: "holds m p (enc_u32 x) \<Longrightarrow> eluarpc_read_u32 m (p, e) = (x, p + 5, e)"
  by (auto simp: eluarpc_read_u32_def read_expect_eq holds_u32 Suc_addr add.assoc)

lemma read_ptr_spec: "eluarpc_read_ptr m (p, e) = (n, p', e') \<Longrightarrow>
    p' = p + 6 + unat n \<and> (e' \<longleftrightarrow> e \<or> \<not> holds m p (TYPE_PTR # enc_u32 n))"
  by (auto simp: eluarpc_read_ptr_def read_expect_eq split: prod.splits dest!: read_u32_spec)

lemma read_small_ptr_spec: "eluarpc_read_small_ptr m (p, e) = (n, p', e') \<Longrightarrow>
    p' = p + 4 + unat n \<and> (e' \<longleftrightarrow> e \<or> \<not> holds m p (TYPE_SMALL_PTR # enc_u16 n))"
  by (auto simp: eluarpc_read_small_ptr_def read_expect_eq split: prod.splits dest!: read_u16_spec)

lemma read_ptr_ok: "holds m p (TYPE_PTR # enc_u32 n) \<Longrightarrow> eluarpc_read_ptr m (p, e) = (n, p + 6 + unat n, e)"
  by (auto simp: eluarpc_read_ptr_def read_expect_eq read_u32_ok)

lemma read_small_ptr_ok:
  "holds m p (TYPE_SMALL_PTR # enc_u16 n) \<Longrightarrow> eluarpc_read_small_ptr m (p, e) = (n, p + 4 + unat n, e)"
  by (auto simp: eluarpc_read_small_ptr_def read_expect_eq read_u16_ok)

lemma holds_block: "holds m p (enc_tok (TBlock (mem_load m (p + 6) (unat (n :: u32))))) \<longleftrightarrow> holds m p (TYPE_PTR # enc_u32 n)"
  by (simp add: add.commute)

lemma holds_small: "holds m p (enc_tok (TSmall (mem_load m (p + 4) (unat (n :: u16))))) \<longleftrightarrow> holds m p (TYPE_SMALL_PTR # enc_u16 n)"
  by (simp add: add.commute)

lemma unat_ucast_u16_u32: "unat (ucast (n :: u16) :: u32) = unat n"
  using unat_lt_u16 [of n] by (simp add: unsigned_ucast_eq take_bit_nat_eq_self)

lemma ucast_back [simp]: "ucast (ucast (x :: u8) :: u32) = x" "ucast (ucast (y :: u16) :: u32) = y"
  by (auto intro!: bit_word_eqI simp: bit_simps)

text \<open>Reading one item: it succeeds exactly on the encoding of the token it reports.\<close>

definition item_tok :: "mem \<Rightarrow> char \<Rightarrow> u8 list \<Rightarrow> rpc_out list \<Rightarrow> rpc_tok" where
  "item_tok m c ids os =
     (if c = CHR ''o'' then TOp (hd ids) else if c = CHR ''r'' then TRes (hd ids) else out_tok m c (hd os))"

lemma read_item_sound:
  assumes "eluarpc_read_item m c ids (p, e) = Some (os, is, p', e')" "rpc_spec_char c"
  shows "tok_ok c (item_tok m c ids os) \<and> p' = p + length (enc_tok (item_tok m c ids os)) \<and>
    (e' \<longleftrightarrow> e \<or> \<not> holds m p (enc_tok (item_tok m c ids os))) \<and>
    (\<forall>fmt os'. seen_toks m (c # fmt) ids (os @ os') = item_tok m c ids os # seen_toks m fmt is os')"
proof -
  consider "c = CHR ''o''" | "c = CHR ''r''" | "c = CHR ''c''" | "c = CHR ''h''"
    | "c = CHR ''i'' \<or> c = CHR ''l'' \<or> c = CHR ''L''" | "c = CHR ''p''" | "c = CHR ''P''"
    using assms(2) by (auto simp: rpc_spec_char_def)
  then show ?thesis
  proof cases
    case 1
    then show ?thesis using assms(1)
      by (simp add: eluarpc_read_item_def expect_op_id_spec item_tok_def split: list.splits)
  next
    case 2
    then show ?thesis using assms(1)
      by (simp add: eluarpc_read_item_def read_expect_eq item_tok_def split: list.splits)
  next
    case 3
    obtain x q f where r: "eluarpc_read_u8 m (p, e) = (x, q, f)" by (metis prod_cases3)
    then show ?thesis using assms 3 read_u8_spec [OF r]
      by (simp add: eluarpc_read_item_def item_tok_def out_tok_def) (auto simp: out_tok_def)
  next
    case 4
    obtain x q f where r: "eluarpc_read_u16 m (p, e) = (x, q, f)" by (metis prod_cases3)
    then show ?thesis using assms 4 read_u16_spec [OF r]
      by (simp add: eluarpc_read_item_def item_tok_def out_tok_def) (auto simp: out_tok_def)
  next
    case 5
    obtain x q f where r: "eluarpc_read_u32 m (p, e) = (x, q, f)" by (metis prod_cases3)
    then have "os = [OInt x]" "is = ids" "p' = q" "e' = f"
      using assms(1) 5 by (auto simp: eluarpc_read_item_def)
    moreover have "item_tok m c ids [OInt x] = TInt32 x"
      using 5 by (elim disjE; simp add: item_tok_def out_tok_def)
    ultimately show ?thesis using assms(2) 5 read_u32_spec [OF r]
      by (elim disjE; simp add: item_tok_def out_tok_def)
  next
    case 6
    obtain n q f where r: "eluarpc_read_ptr m (p, e) = (n, q, f)" by (metis prod_cases3)
    note s = read_ptr_spec [OF r]
    have "os = [OPtr (if p + 6 + unat n = p + 6 then None else Some (p + 6)) n]" "is = ids" "p' = q" "e' = f"
      using assms(1) 6 r s by (auto simp: eluarpc_read_item_def)
    moreover from this have "item_tok m c ids os = TBlock (mem_load m (p + 6) (unat n))"
      using 6 by (simp add: item_tok_def out_tok_def out_bytes_def)
    moreover have "unat n < 2 ^ 32" using unat_lt_u32 [of n] by simp
    ultimately show ?thesis using assms(2) 6 s holds_block [of m p n]
      by (simp add: item_tok_def)
  next
    case 7
    obtain n q f where r: "eluarpc_read_small_ptr m (p, e) = (n, q, f)" by (metis prod_cases3)
    note s = read_small_ptr_spec [OF r]
    have u: "unat (ucast n :: u32) = unat n" by (rule unat_ucast_u16_u32)
    have "os = [OPtr (if p + 4 + unat n = p + 4 then None else Some (p + 4)) (ucast n)]" "is = ids" "p' = q" "e' = f"
      using assms(1) 7 r s by (auto simp: eluarpc_read_item_def)
    moreover from this have "item_tok m c ids os = TSmall (mem_load m (p + 4) (unat n))"
      using 7 u by (simp add: item_tok_def out_tok_def out_bytes_def)
    moreover have "unat n < 2 ^ 16" using unat_lt_u16 [of n] by simp
    ultimately show ?thesis using assms(2) 7 s holds_small [of m p n]
      by (simp add: item_tok_def)
  qed
qed

lemma read_item_skip: "\<not> rpc_spec_char c \<Longrightarrow> eluarpc_read_item m c ids r = Some ([], ids, r)"
  by (simp add: eluarpc_read_item_def rpc_spec_char_def)

lemma seen_skip: "\<not> rpc_spec_char c \<Longrightarrow> seen_toks m (c # fmt) ids outs = seen_toks m fmt ids outs"
  by (auto simp: rpc_spec_char_def)

lemma read_items_sound:
  "eluarpc_gen_read_items m fmt ids (p, e) = Some (outs, p', e') \<Longrightarrow>
   toks_ok fmt (seen_toks m fmt ids outs) \<and> p' = p + length (enc_toks (seen_toks m fmt ids outs)) \<and>
   (e' \<longleftrightarrow> e \<or> \<not> holds m p (enc_toks (seen_toks m fmt ids outs)))"
proof (induction fmt arbitrary: ids p e outs)
  case (Cons c fmt)
  then obtain os ids' q f outs' where r: "eluarpc_read_item m c ids (p, e) = Some (os, ids', q, f)"
    "eluarpc_gen_read_items m fmt ids' (q, f) = Some (outs', p', e')" "outs = os @ outs'"
    by (auto split: option.splits)
  note IH = Cons.IH [OF r(2)]
  show ?case
  proof (cases "rpc_spec_char c")
    case True
    note s = read_item_sound [OF r(1) True]
    then have "seen_toks m (c # fmt) ids outs = item_tok m c ids os # seen_toks m fmt ids' outs'"
      using r(3) by simp
    with s IH True show ?thesis by (simp del: seen_toks.simps)
  next
    case False
    then have "os = []" "ids' = ids" "q = p" "f = e" using r(1) read_item_skip by auto
    with IH r(3) False show ?thesis by (simp add: seen_skip del: seen_toks.simps)
  qed
qed simp

text \<open>What reading a token at cursor \<open>p\<close> stores through the out-pointers.\<close>

fun tok_out :: "nat \<Rightarrow> rpc_tok \<Rightarrow> rpc_out list" where
  "tok_out p (TOp i) = []"
| "tok_out p (TRes i) = []"
| "tok_out p (TInt8 x) = [OInt (ucast x)]"
| "tok_out p (TInt16 x) = [OInt (ucast x)]"
| "tok_out p (TInt32 x) = [OInt x]"
| "tok_out p (TBlock bs) = [OPtr (if bs = [] then None else Some (p + 6)) (of_nat (length bs))]"
| "tok_out p (TSmall bs) = [OPtr (if bs = [] then None else Some (p + 4)) (of_nat (length bs))]"

primrec tok_outs :: "nat \<Rightarrow> rpc_tok list \<Rightarrow> rpc_out list" where
  "tok_outs p [] = []"
| "tok_outs p (t # ts) = tok_out p t @ tok_outs (p + length (enc_tok t)) ts"

lemma ucast_of_nat_u16: "n < 65536 \<Longrightarrow> ucast (of_nat n :: u16) = (of_nat n :: u32)"
  by (metis of_nat_unat unat_of_nat_u16)

lemma read_item_complete:
  assumes "tok_ok c t" "holds m p (enc_tok t)"
  shows "eluarpc_read_item m c (tok_ids [t] @ is) (p, e) = Some (tok_out p t, is, p + length (enc_tok t), e)"
proof (cases t)
  case (TInt8 x)
  then show ?thesis using assms
    by (simp add: eluarpc_read_item_def eluarpc_read_u8_def read_expect_eq)
next
  case (TInt16 x)
  then have "eluarpc_read_u16 m (p, e) = (x, p + 3, e)" using assms by (simp add: read_u16_ok)
  then show ?thesis using assms TInt16 by (simp add: eluarpc_read_item_def)
next
  case (TInt32 x)
  then have "eluarpc_read_u32 m (p, e) = (x, p + 5, e)" using assms by (simp add: read_u32_ok)
  moreover have "c = CHR ''i'' \<or> c = CHR ''l'' \<or> c = CHR ''L''" using assms TInt32 by simp
  ultimately show ?thesis using TInt32 by (elim disjE; simp add: eluarpc_read_item_def)
next
  case (TBlock bs)
  let ?n = "of_nat (length bs) :: u32"
  have n: "unat ?n = length bs" using assms(1) TBlock by (simp add: unat_of_nat_u32)
  have h: "holds m p (TYPE_PTR # enc_u32 ?n)"
    using assms(2) TBlock by (simp_all add: add.commute)
  then show ?thesis using assms(1) TBlock n
    by (simp add: eluarpc_read_item_def read_ptr_ok [OF h])
next
  case (TSmall bs)
  let ?n = "of_nat (length bs) :: u16"
  have n: "unat ?n = length bs" using assms(1) TSmall by (simp add: unat_of_nat_u16)
  have h: "holds m p (TYPE_SMALL_PTR # enc_u16 ?n)"
    using assms(2) TSmall by (simp_all add: add.commute)
  then show ?thesis using assms(1) TSmall n
    by (simp add: eluarpc_read_item_def read_small_ptr_ok [OF h] ucast_of_nat_u16)
qed (use assms in \<open>auto simp: eluarpc_read_item_def expect_op_id_spec read_expect_eq\<close>)

lemma tok_ok_spec: "tok_ok c t \<Longrightarrow> rpc_spec_char c"
  by (cases t) (auto simp: rpc_spec_char_def)

lemma tok_ids_Cons: "tok_ids (t # ts) = tok_ids [t] @ tok_ids ts"
  by (cases t) simp_all

lemma read_items_complete:
  "toks_ok fmt ts \<Longrightarrow> holds m p (enc_toks ts) \<Longrightarrow>
   eluarpc_gen_read_items m fmt (tok_ids ts) (p, e) = Some (tok_outs p ts, p + length (enc_toks ts), e)"
proof (induction fmt arbitrary: ts p)
  case (Cons c fmt)
  show ?case
  proof (cases "rpc_spec_char c")
    case True
    then obtain t ts' where ts: "ts = t # ts'" "tok_ok c t" "toks_ok fmt ts'"
      using Cons.prems by (auto split: list.splits)
    then show ?thesis
      using read_item_complete [OF ts(2), of m p "tok_ids ts'" e] Cons.IH [OF ts(3), of "p + length (enc_tok t)"]
        Cons.prems by (simp add: tok_ids_Cons [of t ts'] add.assoc del: tok_ids.simps(2-))
  next
    case False
    then show ?thesis using Cons by (simp add: read_item_skip)
  qed
qed simp

lemma seen_toks_outs:
  "toks_ok fmt ts \<Longrightarrow> holds m p (enc_toks ts) \<Longrightarrow> seen_toks m fmt (tok_ids ts) (tok_outs p ts) = ts"
proof (induction fmt arbitrary: ts p)
  case (Cons c fmt)
  show ?case
  proof (cases "rpc_spec_char c")
    case True
    then obtain t ts' where ts: "ts = t # ts'" "tok_ok c t" "toks_ok fmt ts'"
      using Cons.prems by (auto split: list.splits)
    then have IH: "seen_toks m fmt (tok_ids ts') (tok_outs (p + length (enc_tok t)) ts') = ts'"
      using Cons by simp
    show ?thesis
    proof (cases t)
      case (TBlock bs)
      then have "holds m (p + 6) bs" using Cons.prems ts by (simp add: add.commute)
      then have "mem_load m (p + 6) (length bs) = bs" by (simp add: holds_load)
      with IH TBlock ts True show ?thesis
        by (simp add: out_tok_def out_bytes_def unat_of_nat_u32)
    next
      case (TSmall bs)
      then have "holds m (p + 4) bs" using Cons.prems ts by (simp add: add.commute)
      then have "mem_load m (p + 4) (length bs) = bs" by (simp add: holds_load)
      with IH TSmall ts True show ?thesis
        by (simp add: out_tok_def out_bytes_def unat_of_nat_u32)
    next
      case (TInt32 x)
      moreover have "c = CHR ''i'' \<or> c = CHR ''l'' \<or> c = CHR ''L''" using ts TInt32 by simp
      ultimately show ?thesis using IH ts True by (elim disjE; simp add: out_tok_def)
    qed (use IH ts True in \<open>simp_all add: out_tok_def\<close>)
  next
    case False
    then show ?thesis using Cons by (simp add: seen_skip del: seen_toks.simps)
  qed
qed simp

subsection \<open>Packets\<close>

lemma match_start_spec:
  "eluarpc_match_packet_start m (p, e) = (p + 10, e \<or> \<not> holds m (p + 4) (TYPE_START # enc_u32 PACKET_SIG))"
proof -
  obtain d q f where r: "eluarpc_read_u32 m (p + 5, e \<or> m (p + 4) \<noteq> TYPE_START) = (d, q, f)"
    by (metis prod_cases3)
  have "holds m (p + 5) (enc_u32 d) \<Longrightarrow> holds m (p + 5) (enc_u32 PACKET_SIG) \<longleftrightarrow> d = PACKET_SIG"
    using holds_u32_inj by blast
  moreover have "\<not> holds m (p + 5) (enc_u32 d) \<Longrightarrow> holds m (p + 5) (enc_u32 PACKET_SIG) \<Longrightarrow> False"
    using r read_u32_ok [of m "p + 5" PACKET_SIG] by auto
  ultimately show ?thesis using r read_u32_spec [OF r]
    by (auto simp: eluarpc_match_packet_start_def read_expect_eq Suc_addr)
qed

lemma match_end_spec:
  "eluarpc_match_packet_end m (p, e) = (p + 6, e \<or> \<not> holds m p (TYPE_END # enc_u32 (NOT PACKET_SIG)))"
proof -
  let ?s = "NOT PACKET_SIG"
  obtain d q f where r: "eluarpc_read_u32 m (p + 1, e \<or> m p \<noteq> TYPE_END) = (d, q, f)"
    by (metis prod_cases3)
  have "holds m (p + 1) (enc_u32 d) \<Longrightarrow> holds m (p + 1) (enc_u32 ?s) \<longleftrightarrow> d = ?s"
    using holds_u32_inj by blast
  moreover have "\<not> holds m (p + 1) (enc_u32 d) \<Longrightarrow> holds m (p + 1) (enc_u32 ?s) \<Longrightarrow> False"
    using r read_u32_ok [of m "p + 1" ?s] by auto
  ultimately show ?thesis using r read_u32_spec [OF r]
    by (auto simp: eluarpc_match_packet_end_def read_expect_eq)
qed

text \<open>A successful read saw exactly the body of the packet of the tokens it reports.\<close>

lemma gen_read_sound:
  assumes "eluarpc_gen_read m p fmt ids = Some (st, outs)"
  shows "toks_ok fmt (seen_toks m fmt ids outs) \<and>
    st = eluarpc_status (\<not> holds m (p + 4) (rpc_body (seen_toks m fmt ids outs)))"
proof -
  let ?ts = "seen_toks m fmt ids outs"
  let ?e = "\<not> holds m (p + 4) (TYPE_START # enc_u32 PACKET_SIG)"
  obtain q f where r: "eluarpc_gen_read_items m fmt ids (p + 10, ?e) = Some (outs, q, f)"
    and st: "st = eluarpc_status (f \<or> \<not> holds m q (TYPE_END # enc_u32 (NOT PACKET_SIG)))"
    using assms by (auto simp: eluarpc_gen_read_def match_start_spec match_end_spec split: option.splits)
  note s = read_items_sound [OF r]
  have "holds m (p + 4) (rpc_body ?ts) \<longleftrightarrow>
     holds m (p + 4) (TYPE_START # enc_u32 PACKET_SIG) \<and> holds m (p + 10) (enc_toks ?ts) \<and>
     holds m (p + 10 + length (enc_toks ?ts)) (TYPE_END # enc_u32 (NOT PACKET_SIG))"
    unfolding rpc_body_def by (simp add: add.assoc add.commute)
  then show ?thesis using s st by auto
qed

lemma gen_read_complete:
  assumes "toks_ok fmt ts" "holds m (p + 4) (rpc_body ts)"
  shows "eluarpc_gen_read m p fmt (tok_ids ts) = Some (ELUARPC_OK, tok_outs (p + 10) ts) \<and>
    seen_toks m fmt (tok_ids ts) (tok_outs (p + 10) ts) = ts"
proof -
  have h: "holds m (p + 4) (TYPE_START # enc_u32 PACKET_SIG)" "holds m (p + 10) (enc_toks ts)"
     "holds m (p + 10 + length (enc_toks ts)) (TYPE_END # enc_u32 (NOT PACKET_SIG))"
    using assms(2) unfolding rpc_body_def by (simp_all add: add.assoc add.commute)
  show ?thesis
    using h seen_toks_outs [OF assms(1) h(2)]
    by (simp add: eluarpc_gen_read_def match_start_spec match_end_spec eluarpc_status_def
        read_items_complete [OF assms(1) h(2)])
qed

lemma packet_size_ok:
  "holds m p (rpc_packet ts) \<Longrightarrow> eluarpc_get_packet_size m p = (ELUARPC_OK, of_nat (length (rpc_packet ts)))"
  by (auto simp: rpc_packet_def eluarpc_get_packet_size_def read_expect_eq read_u16_ok eluarpc_status_def)

lemma request_id_ok:
  assumes "holds m p (rpc_packet (TOp i # ts))"
  shows "eluarpc_get_request_id m p = (ELUARPC_OK, i)"
proof -
  have "holds m (p + 4) (TYPE_START # enc_u32 PACKET_SIG)" "holds m (p + 10) (enc_tok (TOp i))"
    using assms unfolding rpc_packet_def rpc_body_def by (simp_all add: add.assoc add.commute)
  then show ?thesis
    by (simp add: eluarpc_get_request_id_def match_start_spec eluarpc_read_op_id_def read_expect_eq eluarpc_status_def)
qed

lemma packet_body: "holds m p (rpc_packet ts) \<Longrightarrow> holds m (p + 4) (rpc_body ts)"
  by (auto simp: rpc_packet_def add.commute [of p])

subsection \<open>Properties\<close>

text \<open>C3. Serialization round trip: whatever the format and arguments, as long as every block is as
  long as it claims, the variadic writer produces a packet which the variadic reader, given
  the same format and the expected ids, accepts wherever its bytes were delivered; and what
  the reader stores through its pointers is what the writer was given (integers at the width of
  their specifier, blocks byte for byte).\<close>

theorem rpc_roundtrip:
  assumes "fmt_toks fmt args = Some ts"
    and "\<And>w. eluarpc_gen_write m p fmt args = Some w \<Longrightarrow>
      mem_load m' q (length (rpc_packet ts)) = mem_load w p (length (rpc_packet ts))"
  shows "eluarpc_gen_write m p fmt args \<noteq> None \<and>
    (\<exists>outs. eluarpc_gen_read m' q fmt (tok_ids ts) = Some (ELUARPC_OK, outs) \<and>
      seen_toks m' fmt (tok_ids ts) outs = ts)"
proof -
  note w = gen_write_spec [OF assms(1), of m p]
  have "mem_load m' q (length (rpc_packet ts)) = rpc_packet ts"
    using assms(2) [OF w] by (simp add: mem_load_store_same)
  then have "holds m' q (rpc_packet ts)" by (simp add: holds_load)
  then have "holds m' (q + 4) (rpc_body ts)" by (rule packet_body)
  with w gen_read_complete [OF fmt_toks_ok [OF assms(1)]] show ?thesis by blast
qed

theorem rpc_roundtrip_witness:
  "\<exists>outs w. eluarpc_gen_write (\<lambda>_. 0) 100 ''oip'' [AInt 3, AInt 77, APtr (Some [1, 2, 3]) 2] = Some w \<and>
     eluarpc_gen_read w 100 ''oip'' [3] = Some (ELUARPC_OK, outs) \<and>
     seen_toks w ''oip'' [3] outs = [TOp 3, TInt32 77, TBlock [1, 2]]"
proof -
  have t: "fmt_toks ''oip'' [AInt 3, AInt 77, APtr (Some [1, 2, 3]) 2] = Some [TOp 3, TInt32 77, TBlock [1, 2]]"
    by (simp add: rpc_spec_char_def arg_tok_def arg_bytes_def)
  obtain w where "eluarpc_gen_write (\<lambda>_. 0) 100 ''oip'' [AInt 3, AInt 77, APtr (Some [1, 2, 3]) 2] = Some w"
    using gen_write_spec [OF t] by blast
  then show ?thesis using rpc_roundtrip [OF t, of "\<lambda>_. 0" 100 w 100] by auto
qed

text \<open>C15. The reader accepts nothing else: for every memory contents, it reports success exactly when
  the bytes it looked at are the body of the packet a writer would have produced for what it
  reports, with the expected operation and response ids.\<close>

theorem rpc_read_accepts_only_encodings:
  assumes "eluarpc_gen_read m p fmt ids = Some (st, outs)"
  shows "(st = ELUARPC_OK \<longleftrightarrow> (let b = rpc_body (seen_toks m fmt ids outs) in mem_load m (p + 4) (length b) = b)) \<and>
    st \<in> {ELUARPC_OK, ELUARPC_ERR} \<and> toks_ok fmt (seen_toks m fmt ids outs)"
  using gen_read_sound [OF assms] by (simp add: eluarpc_status_def holds_load Let_def)

theorem rpc_read_accepts_only_encodings_witness:
  "\<exists>outs. eluarpc_gen_read (\<lambda>_. 0) 0 ''oi'' [2] = Some (ELUARPC_ERR, outs)"
proof -
  obtain st outs where r: "eluarpc_gen_read (\<lambda>_. 0) 0 ''oi'' [2] = Some (st, outs)"
    by (cases "eluarpc_gen_read (\<lambda>_. 0) 0 ''oi'' [2]")
      (auto simp: eluarpc_gen_read_def eluarpc_read_item_def split: option.splits prod.splits)
  have "st \<noteq> ELUARPC_OK"
    using rpc_read_accepts_only_encodings [OF r] unfolding Let_def holds_load [symmetric]
    by (simp add: rpc_body_def)
  then show ?thesis using r rpc_read_accepts_only_encodings [OF r, THEN conjunct2, THEN conjunct1] by blast
qed

text \<open>The frame of a written packet: no byte outside the packet is touched, the size header reads
  back as the packet's length modulo 65536 (it is kept in 16 bits), and a packet that starts
  with an operation id is recognised as that request.\<close>

theorem rpc_write_frame:
  assumes "fmt_toks fmt args = Some ts" "eluarpc_gen_write m p fmt args = Some w"
  shows "(\<forall>i. i < p \<or> p + length (rpc_packet ts) \<le> i \<longrightarrow> w i = m i) \<and>
    eluarpc_get_packet_size w p = (ELUARPC_OK, of_nat (length (rpc_packet ts))) \<and>
    (\<forall>i ts'. ts = TOp i # ts' \<longrightarrow> eluarpc_get_request_id w p = (ELUARPC_OK, i))"
proof -
  have w: "w = mem_store m p (rpc_packet ts)"
    using gen_write_spec [OF assms(1)] assms(2) by simp
  then have h: "holds w p (rpc_packet ts)" by (simp add: holds_store)
  have "\<forall>i. i < p \<or> p + length (rpc_packet ts) \<le> i \<longrightarrow> w i = m i"
    using w by (auto simp: mem_store_def)
  with packet_size_ok [OF h] h show ?thesis by (auto intro: request_id_ok)
qed

theorem rpc_write_frame_witness:
  "\<exists>w. eluarpc_gen_write (\<lambda>_. 0) 4 ''oc'' [AInt 0x105, AInt 9] = Some w \<and>
     eluarpc_get_packet_size w 4 = (ELUARPC_OK, 20) \<and> eluarpc_get_request_id w 4 = (ELUARPC_OK, 5)"
proof -
  have t: "fmt_toks ''oc'' [AInt 0x105, AInt 9] = Some [TOp 5, TInt8 9]"
    by (simp add: rpc_spec_char_def arg_tok_def)
  have len: "length (rpc_packet [TOp 5, TInt8 9]) = 20"
    by (simp add: rpc_packet_def rpc_body_def)
  obtain w where w: "eluarpc_gen_write (\<lambda>_. 0) 4 ''oc'' [AInt 0x105, AInt 9] = Some w"
    using gen_write_spec [OF t] by blast
  show ?thesis using rpc_write_frame [OF t w] w len by simp
qed

end
