(* ===== verification/Remotefs.thy ===== *)
theory Remotefs
  imports Rpc
begin

text \<open>
  The messages of the remote file system, \<^verbatim>\<open>src/remotefs/remotefs.c\<close>: for each operation the
  request and the response as a format of the RPC layer, and the flag and seek-mode
  translations of \<^verbatim>\<open>src/remotefs/elua_os_io.c\<close>. A C string argument is the list of its bytes
  without the terminator; an \<^verbatim>\<open>int\<close> or \<^verbatim>\<open>s32\<close> is its 32 bits.
\<close>

abbreviation RFS_OP_OPEN :: u8 where "RFS_OP_OPEN \<equiv> 0x01"
abbreviation RFS_OP_WRITE :: u8 where "RFS_OP_WRITE \<equiv> 0x02"
abbreviation RFS_OP_READ :: u8 where "RFS_OP_READ \<equiv> 0x03"
abbreviation RFS_OP_CLOSE :: u8 where "RFS_OP_CLOSE \<equiv> 0x04"
abbreviation RFS_OP_LSEEK :: u8 where "RFS_OP_LSEEK \<equiv> 0x05"
abbreviation RFS_OP_OPENDIR :: u8 where "RFS_OP_OPENDIR \<equiv> 0x06"
abbreviation RFS_OP_READDIR :: u8 where "RFS_OP_READDIR \<equiv> 0x07"
abbreviation RFS_OP_CLOSEDIR :: u8 where "RFS_OP_CLOSEDIR \<equiv> 0x08"

abbreviation RFS_OPEN_FLAG_APPEND :: u32 where "RFS_OPEN_FLAG_APPEND \<equiv> 0x01"
abbreviation RFS_OPEN_FLAG_CREAT :: u32 where "RFS_OPEN_FLAG_CREAT \<equiv> 0x02"
abbreviation RFS_OPEN_FLAG_EXCL :: u32 where "RFS_OPEN_FLAG_EXCL \<equiv> 0x04"
abbreviation RFS_OPEN_FLAG_TRUNC :: u32 where "RFS_OPEN_FLAG_TRUNC \<equiv> 0x08"
abbreviation RFS_OPEN_FLAG_SYNC :: u32 where "RFS_OPEN_FLAG_SYNC \<equiv> 0x10"
abbreviation RFS_OPEN_FLAG_RDONLY :: u32 where "RFS_OPEN_FLAG_RDONLY \<equiv> 0x20"
abbreviation RFS_OPEN_FLAG_WRONLY :: u32 where "RFS_OPEN_FLAG_WRONLY \<equiv> 0x40"
abbreviation RFS_OPEN_FLAG_RDWR :: u32 where "RFS_OPEN_FLAG_RDWR \<equiv> 0x80"

abbreviation RFS_LSEEK_SET :: u32 where "RFS_LSEEK_SET \<equiv> 1"
abbreviation RFS_LSEEK_CUR :: u32 where "RFS_LSEEK_CUR \<equiv> 2"
abbreviation RFS_LSEEK_END :: u32 where "RFS_LSEEK_END \<equiv> 3"

abbreviation RFS_MAX_FNAME_SIZE :: nat where "RFS_MAX_FNAME_SIZE \<equiv> 31"

text \<open>
  A write with a matching argument list: the other result of the variadic writer, running out
  of arguments, does not occur for the formats below.
\<close>

definition rpc_put :: "mem \<Rightarrow> nat \<Rightarrow> string \<Rightarrow> rpc_arg list \<Rightarrow> mem" where
  "rpc_put m p fmt args = (case eluarpc_gen_write m p fmt args of Some w \<Rightarrow> w | None \<Rightarrow> m)"

abbreviation OpId :: "u8 \<Rightarrow> rpc_arg" where "OpId i \<equiv> AInt (ucast i)"

definition CStr :: "u8 list \<Rightarrow> rpc_arg" where
  "CStr s = APtr (Some (s @ [0])) (of_nat (length s + 1))"

subsection \<open>Requests and responses\<close>

definition remotefs_open_write_response :: "mem \<Rightarrow> nat \<Rightarrow> u32 \<Rightarrow> mem" where
  "remotefs_open_write_response m p r = rpc_put m p ''ri'' [OpId RFS_OP_OPEN, AInt r]"

definition remotefs_open_read_response :: "mem \<Rightarrow> nat \<Rightarrow> (int \<times> rpc_out list) option" where
  "remotefs_open_read_response m p = eluarpc_gen_read m p ''ri'' [RFS_OP_OPEN]"

definition remotefs_open_write_request :: "mem \<Rightarrow> nat \<Rightarrow> u8 list \<Rightarrow> u32 \<Rightarrow> u32 \<Rightarrow> mem" where
  "remotefs_open_write_request m p pathname flags mode =
     rpc_put m p ''opii'' [OpId RFS_OP_OPEN, CStr pathname, AInt flags, AInt mode]"

definition remotefs_open_read_request :: "mem \<Rightarrow> nat \<Rightarrow> (int \<times> rpc_out list) option" where
  "remotefs_open_read_request m p = eluarpc_gen_read m p ''opii'' [RFS_OP_OPEN]"

definition remotefs_write_write_response :: "mem \<Rightarrow> nat \<Rightarrow> u32 \<Rightarrow> mem" where
  "remotefs_write_write_response m p r = rpc_put m p ''rl'' [OpId RFS_OP_WRITE, AInt r]"

definition remotefs_write_read_response :: "mem \<Rightarrow> nat \<Rightarrow> (int \<times> rpc_out list) option" where
  "remotefs_write_read_response m p = eluarpc_gen_read m p ''rl'' [RFS_OP_WRITE]"

definition remotefs_write_write_request :: "mem \<Rightarrow> nat \<Rightarrow> u32 \<Rightarrow> u8 list \<Rightarrow> u32 \<Rightarrow> mem" where
  "remotefs_write_write_request m p fd buf count =
     rpc_put m p ''oip'' [OpId RFS_OP_WRITE, AInt fd, APtr (Some buf) count]"

definition remotefs_write_read_request :: "mem \<Rightarrow> nat \<Rightarrow> (int \<times> rpc_out list) option" where
  "remotefs_write_read_request m p = eluarpc_gen_read m p ''oip'' [RFS_OP_WRITE]"

definition remotefs_read_write_response :: "mem \<Rightarrow> nat \<Rightarrow> u32 \<Rightarrow> mem" where
  "remotefs_read_write_response m p readbytes =
     rpc_put m p ''rp'' [OpId RFS_OP_READ, APtr None readbytes]"

definition remotefs_read_read_response :: "mem \<Rightarrow> nat \<Rightarrow> (int \<times> rpc_out list) option" where
  "remotefs_read_read_response m p = eluarpc_gen_read m p ''rp'' [RFS_OP_READ]"

definition remotefs_read_write_request :: "mem \<Rightarrow> nat \<Rightarrow> u32 \<Rightarrow> u32 \<Rightarrow> mem" where
  "remotefs_read_write_request m p fd count =
     rpc_put m p ''oil'' [OpId RFS_OP_READ, AInt fd, AInt count]"

definition remotefs_read_read_request :: "mem \<Rightarrow> nat \<Rightarrow> (int \<times> rpc_out list) option" where
  "remotefs_read_read_request m p = eluarpc_gen_read m p ''oil'' [RFS_OP_READ]"

definition remotefs_close_write_response :: "mem \<Rightarrow> nat \<Rightarrow> u32 \<Rightarrow> mem" where
  "remotefs_close_write_response m p r = rpc_put m p ''ri'' [OpId RFS_OP_CLOSE, AInt r]"

definition remotefs_close_read_response :: "mem \<Rightarrow> nat \<Rightarrow> (int \<times> rpc_out list) option" where
  "remotefs_close_read_response m p = eluarpc_gen_read m p ''ri'' [RFS_OP_CLOSE]"

definition remotefs_close_write_request :: "mem \<Rightarrow> nat \<Rightarrow> u32 \<Rightarrow> mem" where
  "remotefs_close_write_request m p fd = rpc_put m p ''oi'' [OpId RFS_OP_CLOSE, AInt fd]"

definition remotefs_close_read_request :: "mem \<Rightarrow> nat \<Rightarrow> (int \<times> rpc_out list) option" where
  "remotefs_close_read_request m p = eluarpc_gen_read m p ''oi'' [RFS_OP_CLOSE]"

definition remotefs_lseek_write_response :: "mem \<Rightarrow> nat \<Rightarrow> u32 \<Rightarrow> mem" where
  "remotefs_lseek_write_response m p r = rpc_put m p ''rL'' [OpId RFS_OP_LSEEK, AInt r]"

definition remotefs_lseek_read_response :: "mem \<Rightarrow> nat \<Rightarrow> (int \<times> rpc_out list) option" where
  "remotefs_lseek_read_response m p = eluarpc_gen_read m p ''rL'' [RFS_OP_LSEEK]"

definition remotefs_lseek_write_request :: "mem \<Rightarrow> nat \<Rightarrow> u32 \<Rightarrow> u32 \<Rightarrow> u32 \<Rightarrow> mem" where
  "remotefs_lseek_write_request m p fd offset whence =
     rpc_put m p ''oiLi'' [OpId RFS_OP_LSEEK, AInt fd, AInt offset, AInt whence]"

definition remotefs_lseek_read_request :: "mem \<Rightarrow> nat \<Rightarrow> (int \<times> rpc_out list) option" where
  "remotefs_lseek_read_request m p = eluarpc_gen_read m p ''oiLi'' [RFS_OP_LSEEK]"

definition remotefs_opendir_write_response :: "mem \<Rightarrow> nat \<Rightarrow> u32 \<Rightarrow> mem" where
  "remotefs_opendir_write_response m p d = rpc_put m p ''rl'' [OpId RFS_OP_OPENDIR, AInt d]"

definition remotefs_opendir_read_response :: "mem \<Rightarrow> nat \<Rightarrow> (int \<times> rpc_out list) option" where
  "remotefs_opendir_read_response m p = eluarpc_gen_read m p ''rl'' [RFS_OP_OPENDIR]"

definition remotefs_opendir_write_request :: "mem \<Rightarrow> nat \<Rightarrow> u8 list \<Rightarrow> mem" where
  "remotefs_opendir_write_request m p name = rpc_put m p ''op'' [OpId RFS_OP_OPENDIR, CStr name]"

definition remotefs_opendir_read_request :: "mem \<Rightarrow> nat \<Rightarrow> (int \<times> rpc_out list) option" where
  "remotefs_opendir_read_request m p = eluarpc_gen_read m p ''op'' [RFS_OP_OPENDIR]"

definition remotefs_readdir_write_response :: "mem \<Rightarrow> nat \<Rightarrow> u8 list option \<Rightarrow> u32 \<Rightarrow> u32 \<Rightarrow> mem" where
  "remotefs_readdir_write_response m p name fsize ftime =
     rpc_put m p ''rpll'' [OpId RFS_OP_READDIR,
       (case name of None \<Rightarrow> APtr None 0 | Some s \<Rightarrow> CStr s), AInt fsize, AInt ftime]"

definition remotefs_readdir_read_response :: "mem \<Rightarrow> nat \<Rightarrow> (int \<times> rpc_out list) option" where
  "remotefs_readdir_read_response m p = eluarpc_gen_read m p ''rpll'' [RFS_OP_READDIR]"

definition remotefs_readdir_write_request :: "mem \<Rightarrow> nat \<Rightarrow> u32 \<Rightarrow> mem" where
  "remotefs_readdir_write_request m p d = rpc_put m p ''ol'' [OpId RFS_OP_READDIR, AInt d]"

definition remotefs_readdir_read_request :: "mem \<Rightarrow> nat \<Rightarrow> (int \<times> rpc_out list) option" where
  "remotefs_readdir_read_request m p = eluarpc_gen_read m p ''ol'' [RFS_OP_READDIR]"

definition remotefs_closedir_write_response :: "mem \<Rightarrow> nat \<Rightarrow> u32 \<Rightarrow> mem" where
  "remotefs_closedir_write_response m p d = rpc_put m p ''ri'' [OpId RFS_OP_CLOSEDIR, AInt d]"

definition remotefs_closedir_read_response :: "mem \<Rightarrow> nat \<Rightarrow> (int \<times> rpc_out list) option" where
  "remotefs_closedir_read_response m p = eluarpc_gen_read m p ''ri'' [RFS_OP_CLOSEDIR]"

definition remotefs_closedir_write_request :: "mem \<Rightarrow> nat \<Rightarrow> u32 \<Rightarrow> mem" where
  "remotefs_closedir_write_request m p d = rpc_put m p ''ol'' [OpId RFS_OP_CLOSEDIR, AInt d]"

definition remotefs_closedir_read_request :: "mem \<Rightarrow> nat \<Rightarrow> (int \<times> rpc_out list) option" where
  "remotefs_closedir_read_request m p = eluarpc_gen_read m p ''ol'' [RFS_OP_CLOSEDIR]"

subsection \<open>Flags and seek modes\<close>

text \<open>The \<^verbatim>\<open>O_*\<close> and \<^verbatim>\<open>SEEK_*\<close> constants belong to the C library on each side.\<close>

record sys_consts =
  O_APPEND :: u32
  O_CREAT :: u32
  O_EXCL :: u32
  O_TRUNC :: u32
  O_SYNC :: u32
  O_RDONLY :: u32
  O_WRONLY :: u32
  O_RDWR :: u32
  SEEK_SET :: u32
  SEEK_CUR :: u32
  SEEK_END :: u32

definition os_open_sys_flags_to_rfs_flags :: "sys_consts \<Rightarrow> u32 \<Rightarrow> u32" where
  "os_open_sys_flags_to_rfs_flags k sysflags =
     eluarpc_replace_flag sysflags (O_APPEND k) RFS_OPEN_FLAG_APPEND
     OR eluarpc_replace_flag sysflags (O_CREAT k) RFS_OPEN_FLAG_CREAT
     OR eluarpc_replace_flag sysflags (O_EXCL k) RFS_OPEN_FLAG_EXCL
     OR eluarpc_replace_flag sysflags (O_TRUNC k) RFS_OPEN_FLAG_TRUNC
     OR eluarpc_replace_flag sysflags (O_SYNC k) RFS_OPEN_FLAG_SYNC
     OR eluarpc_replace_flag sysflags (O_RDONLY k) RFS_OPEN_FLAG_RDONLY
     OR eluarpc_replace_flag sysflags (O_WRONLY k) RFS_OPEN_FLAG_WRONLY
     OR eluarpc_replace_flag sysflags (O_RDWR k) RFS_OPEN_FLAG_RDWR"

definition os_lseek_sys_whence_to_rfs_whence :: "sys_consts \<Rightarrow> u32 \<Rightarrow> u32" where
  "os_lseek_sys_whence_to_rfs_whence k w =
     (if w = SEEK_SET k then RFS_LSEEK_SET
      else if w = SEEK_CUR k then RFS_LSEEK_CUR
      else if w = SEEK_END k then RFS_LSEEK_END
      else 0)"

end
