(* ===== verification/Rfs_Server.thy ===== *)
theory Rfs_Server
  imports Remotefs
begin

text \<open>
  The remote file system server: the operating system adapter
  \<^verbatim>\<open>rfs_server_src/os_io_posix.c\<close>, the request handlers and the dispatcher of
  \<^verbatim>\<open>rfs_server_src/server.c\<close>, and the byte-fed "memory" transport of
  \<^verbatim>\<open>rfs_server_src/rfs_transports.c\<close>. The POSIX calls are the fields of a record over the state
  \<open>'w\<close> of the server's file system. A handler gets the packet buffer inside byte memory and
  leaves its response there.
\<close>

subsection \<open>The operating system adapter\<close>

text \<open>
  Results of type \<^verbatim>\<open>int\<close>, \<^verbatim>\<open>ssize_t\<close> and \<^verbatim>\<open>off_t\<close> are their low 32 bits, a \<^verbatim>\<open>DIR*\<close> is a 32 bit
  handle. \<open>px_readdir\<close> yields the next entry's type and name.
\<close>

record 'w posix =
  px_open :: "u8 list \<Rightarrow> u32 \<Rightarrow> 'w \<Rightarrow> u32 \<times> 'w"
  px_write :: "u32 \<Rightarrow> u8 list \<Rightarrow> 'w \<Rightarrow> u32 \<times> 'w"
  px_read :: "u32 \<Rightarrow> u32 \<Rightarrow> 'w \<Rightarrow> (u32 \<times> u8 list) \<times> 'w"
  px_close :: "u32 \<Rightarrow> 'w \<Rightarrow> u32 \<times> 'w"
  px_lseek :: "u32 \<Rightarrow> u32 \<Rightarrow> u32 \<Rightarrow> 'w \<Rightarrow> u32 \<times> 'w"
  px_opendir :: "u8 list \<Rightarrow> 'w \<Rightarrow> u32 \<times> 'w"
  px_readdir :: "u32 \<Rightarrow> 'w \<Rightarrow> (u8 \<times> u8 list) option \<times> 'w"
  px_closedir :: "u32 \<Rightarrow> 'w \<Rightarrow> u32 \<times> 'w"

definition os_open :: "sys_consts \<Rightarrow> 'w posix \<Rightarrow> u8 list \<Rightarrow> u32 \<Rightarrow> u32 \<Rightarrow> 'w \<Rightarrow> u32 \<times> 'w" where
  "os_open k px pathname flags mode =
     (let realflags = eluarpc_replace_flag flags RFS_OPEN_FLAG_APPEND (O_APPEND k)
        OR eluarpc_replace_flag flags RFS_OPEN_FLAG_CREAT (O_CREAT k)
        OR eluarpc_replace_flag flags RFS_OPEN_FLAG_EXCL (O_EXCL k)
        OR eluarpc_replace_flag flags RFS_OPEN_FLAG_TRUNC (O_TRUNC k)
        OR eluarpc_replace_flag flags RFS_OPEN_FLAG_SYNC (O_SYNC k)
        OR eluarpc_replace_flag flags RFS_OPEN_FLAG_RDONLY (O_RDONLY k)
        OR eluarpc_replace_flag flags RFS_OPEN_FLAG_WRONLY (O_WRONLY k)
        OR eluarpc_replace_flag flags RFS_OPEN_FLAG_RDWR (O_RDWR k)
      in px_open px pathname realflags)"

definition os_write :: "'w posix \<Rightarrow> u32 \<Rightarrow> u8 list \<Rightarrow> 'w \<Rightarrow> u32 \<times> 'w" where
  "os_write px fd buf = px_write px fd buf"

definition os_read :: "'w posix \<Rightarrow> u32 \<Rightarrow> u32 \<Rightarrow> 'w \<Rightarrow> (u32 \<times> u8 list) \<times> 'w" where
  "os_read px fd count = px_read px fd count"

definition os_close :: "'w posix \<Rightarrow> u32 \<Rightarrow> 'w \<Rightarrow> u32 \<times> 'w" where
  "os_close px fd = px_close px fd"

definition os_lseek :: "sys_consts \<Rightarrow> 'w posix \<Rightarrow> u32 \<Rightarrow> u32 \<Rightarrow> u32 \<Rightarrow> 'w \<Rightarrow> u32 \<times> 'w" where
  "os_lseek k px fd offset whence w =
     (if whence = RFS_LSEEK_SET then px_lseek px fd offset (SEEK_SET k) w
      else if whence = RFS_LSEEK_CUR then px_lseek px fd offset (SEEK_CUR k) w
      else if whence = RFS_LSEEK_END then px_lseek px fd offset (SEEK_END k) w
      else (-1, w))"

definition os_opendir :: "'w posix \<Rightarrow> u8 list \<Rightarrow> 'w \<Rightarrow> u32 \<times> 'w" where
  "os_opendir px name = px_opendir px name"

abbreviation DT_REG :: u8 where "DT_REG \<equiv> 8"

text \<open>The scan for the next entry that passes the type test; \<open>None\<close> if it never ends.\<close>

partial_function (option) os_readdir :: "'w posix \<Rightarrow> u32 \<Rightarrow> 'w \<Rightarrow> (u8 list option \<times> 'w) option" where
  "os_readdir px d w = (case px_readdir px d w of
      (None, w') \<Rightarrow> Some (None, w')
    | (Some (ty, nm), w') \<Rightarrow>
        (if ty AND DT_REG \<noteq> 0 then Some (Some (c_strncpy RFS_MAX_FNAME_SIZE nm), w')
         else os_readdir px d w'))"

definition os_closedir :: "'w posix \<Rightarrow> u32 \<Rightarrow> 'w \<Rightarrow> u32 \<times> 'w" where
  "os_closedir px d = px_closedir px d"

subsection \<open>Request handlers\<close>

abbreviation PLATFORM_MAX_FNAME_LEN :: nat where "PLATFORM_MAX_FNAME_LEN \<equiv> 2048"
abbreviation PLATFORM_PATH_SEPARATOR :: u8 where "PLATFORM_PATH_SEPARATOR \<equiv> 0x2F"
abbreviation SERVER_OK :: int where "SERVER_OK \<equiv> 0"
abbreviation SERVER_ERR :: int where "SERVER_ERR \<equiv> 1"

record 'w rfs_server =
  server_basedir :: "u8 list"
  server_os :: "'w posix"
  server_consts :: sys_consts

text \<open>
  The "get real filename" block of three of the handlers, into the static array
  \<^verbatim>\<open>server_fullname\<close> of \<^verbatim>\<open>PLATFORM_MAX_FNAME_LEN + 1\<close> bytes.
\<close>

definition server_fullname :: "u8 list \<Rightarrow> u8 list option \<Rightarrow> c_fault + u8 list" where
  "server_fullname base filename =
     (let full = c_strncpy PLATFORM_MAX_FNAME_LEN base
      in case filename of
        None \<Rightarrow> Inr full
      | Some nm \<Rightarrow>
          if length nm > 0 then
            (if full = [] then Inl OutOfBounds
             else case (if last full \<noteq> PLATFORM_PATH_SEPARATOR
                        then c_strncat (PLATFORM_MAX_FNAME_LEN + 1) full [PLATFORM_PATH_SEPARATOR] PLATFORM_MAX_FNAME_LEN
                        else Inr full) of
                 Inl e \<Rightarrow> Inl e
               | Inr full' \<Rightarrow> c_strncat (PLATFORM_MAX_FNAME_LEN + 1) full' nm PLATFORM_MAX_FNAME_LEN)
          else Inr full)"

text \<open>
  The string a request's pointer designates: no string for NULL, a fault if the bytes behind
  the pointer are not terminated.
\<close>

definition req_string :: "mem \<Rightarrow> nat option \<Rightarrow> c_fault + u8 list option" where
  "req_string m ptr = (case ptr of
      None \<Rightarrow> Inr None
    | Some a \<Rightarrow> (case c_str m a of None \<Rightarrow> Inl OutOfBounds | Some s \<Rightarrow> Inr (Some s)))"

type_synonym 'w handled = "c_fault + (int \<times> mem \<times> 'w)"

definition server_open :: "'w rfs_server \<Rightarrow> nat \<Rightarrow> mem \<Rightarrow> 'w \<Rightarrow> 'w handled" where
  "server_open sv p m w = (case remotefs_open_read_request m p of
      Some (st, [OPtr fname _, OInt flags, OInt mode]) \<Rightarrow>
        (if st = ELUARPC_ERR then Inr (SERVER_ERR, m, w)
         else case req_string m fname of
           Inl e \<Rightarrow> Inl e
         | Inr filename \<Rightarrow> (case server_fullname (server_basedir sv) filename of
             Inl e \<Rightarrow> Inl e
           | Inr full \<Rightarrow> (case os_open (server_consts sv) (server_os sv) full flags mode w of
               (fd, w') \<Rightarrow> Inr (SERVER_OK, remotefs_open_write_response m p fd, w'))))
    | _ \<Rightarrow> Inr (SERVER_ERR, m, w))"

definition server_write :: "'w rfs_server \<Rightarrow> nat \<Rightarrow> mem \<Rightarrow> 'w \<Rightarrow> 'w handled" where
  "server_write sv p m w = (case remotefs_write_read_request m p of
      Some (st, [OInt fd, OPtr buf count]) \<Rightarrow>
        (if st = ELUARPC_ERR then Inr (SERVER_ERR, m, w)
         else case os_write (server_os sv) fd (out_bytes m buf count) w of
           (count', w') \<Rightarrow> Inr (SERVER_OK, remotefs_write_write_response m p count', w'))
    | _ \<Rightarrow> Inr (SERVER_ERR, m, w))"

abbreviation ELUARPC_READ_BUF_OFFSET :: nat where "ELUARPC_READ_BUF_OFFSET \<equiv> 17"

definition server_read :: "'w rfs_server \<Rightarrow> nat \<Rightarrow> mem \<Rightarrow> 'w \<Rightarrow> 'w handled" where
  "server_read sv p m w = (case remotefs_read_read_request m p of
      Some (st, [OInt fd, OInt count]) \<Rightarrow>
        (if st = ELUARPC_ERR then Inr (SERVER_ERR, m, w)
         else case os_read (server_os sv) fd count w of
           ((count', bytes), w') \<Rightarrow>
             Inr (SERVER_OK, remotefs_read_write_response (mem_store m (p + ELUARPC_READ_BUF_OFFSET) bytes) p count', w'))
    | _ \<Rightarrow> Inr (SERVER_ERR, m, w))"

definition server_close :: "'w rfs_server \<Rightarrow> nat \<Rightarrow> mem \<Rightarrow> 'w \<Rightarrow> 'w handled" where
  "server_close sv p m w = (case remotefs_close_read_request m p of
      Some (st, [OInt fd]) \<Rightarrow>
        (if st = ELUARPC_ERR then Inr (SERVER_ERR, m, w)
         else case os_close (server_os sv) fd w of
           (fd', w') \<Rightarrow> Inr (SERVER_OK, remotefs_close_write_response m p fd', w'))
    | _ \<Rightarrow> Inr (SERVER_ERR, m, w))"

definition server_lseek :: "'w rfs_server \<Rightarrow> nat \<Rightarrow> mem \<Rightarrow> 'w \<Rightarrow> 'w handled" where
  "server_lseek sv p m w = (case remotefs_lseek_read_request m p of
      Some (st, [OInt fd, OInt offset, OInt whence]) \<Rightarrow>
        (if st = ELUARPC_ERR then Inr (SERVER_ERR, m, w)
         else case os_lseek (server_consts sv) (server_os sv) fd offset whence w of
           (offset', w') \<Rightarrow> Inr (SERVER_OK, remotefs_lseek_write_response m p offset', w'))
    | _ \<Rightarrow> Inr (SERVER_ERR, m, w))"

definition server_opendir :: "'w rfs_server \<Rightarrow> nat \<Rightarrow> mem \<Rightarrow> 'w \<Rightarrow> 'w handled" where
  "server_opendir sv p m w = (case remotefs_opendir_read_request m p of
      Some (st, [OPtr nm _]) \<Rightarrow>
        (if st = ELUARPC_ERR then Inr (SERVER_ERR, m, w)
         else case req_string m nm of
           Inl e \<Rightarrow> Inl e
         | Inr name \<Rightarrow> (case server_fullname (server_basedir sv) name of
             Inl e \<Rightarrow> Inl e
           | Inr full \<Rightarrow> (case os_opendir (server_os sv) full w of
               (d, w') \<Rightarrow> Inr (SERVER_OK, remotefs_opendir_write_response m p d, w'))))
    | _ \<Rightarrow> Inr (SERVER_ERR, m, w))"

text \<open>\<open>None\<close> when the directory scan never ends.\<close>

definition server_readdir :: "'w rfs_server \<Rightarrow> nat \<Rightarrow> mem \<Rightarrow> 'w \<Rightarrow> 'w handled option" where
  "server_readdir sv p m w = (case remotefs_readdir_read_request m p of
      Some (st, [OInt d]) \<Rightarrow>
        (if st = ELUARPC_ERR then Some (Inr (SERVER_ERR, m, w))
         else case os_readdir (server_os sv) d w of
           None \<Rightarrow> None
         | Some (None, w') \<Rightarrow> Some (Inr (SERVER_OK, remotefs_readdir_write_response m p None 0 0, w'))
         | Some (Some name, w') \<Rightarrow>
             Some (case server_fullname (server_basedir sv) (Some name) of
               Inl e \<Rightarrow> Inl e
             | Inr full \<Rightarrow>
                 (case os_open (server_consts sv) (server_os sv) full RFS_OPEN_FLAG_RDONLY 0 w' of
                   (fd, w2) \<Rightarrow>
                     if fd \<noteq> 0 then
                       (case os_lseek (server_consts sv) (server_os sv) fd 0 RFS_LSEEK_END w2 of
                         (fsize, w3) \<Rightarrow> (case os_close (server_os sv) fd w3 of
                           (_, w4) \<Rightarrow> Inr (SERVER_OK, remotefs_readdir_write_response m p (Some name) fsize 0, w4)))
                     else Inr (SERVER_OK, remotefs_readdir_write_response m p None 0 0, w2))))
    | _ \<Rightarrow> Some (Inr (SERVER_ERR, m, w)))"

definition server_closedir :: "'w rfs_server \<Rightarrow> nat \<Rightarrow> mem \<Rightarrow> 'w \<Rightarrow> 'w handled" where
  "server_closedir sv p m w = (case remotefs_closedir_read_request m p of
      Some (st, [OInt d]) \<Rightarrow>
        (if st = ELUARPC_ERR then Inr (SERVER_ERR, m, w)
         else case os_closedir (server_os sv) d w of
           (res, w') \<Rightarrow> Inr (SERVER_OK, remotefs_closedir_write_response m p d, w'))
    | _ \<Rightarrow> Inr (SERVER_ERR, m, w))"

text \<open>The dispatch through \<^verbatim>\<open>server_handlers\<close>.\<close>

definition server_execute_request :: "'w rfs_server \<Rightarrow> nat \<Rightarrow> mem \<Rightarrow> 'w \<Rightarrow> 'w handled option" where
  "server_execute_request sv p m w = (case eluarpc_get_request_id m p of
      (st, req) \<Rightarrow>
        if st = ELUARPC_ERR then Some (Inr (SERVER_ERR, m, w))
        else if req = RFS_OP_OPEN then Some (server_open sv p m w)
        else if req = RFS_OP_WRITE then Some (server_write sv p m w)
        else if req = RFS_OP_READ then Some (server_read sv p m w)
        else if req = RFS_OP_CLOSE then Some (server_close sv p m w)
        else if req = RFS_OP_LSEEK then Some (server_lseek sv p m w)
        else if req = RFS_OP_OPENDIR then Some (server_opendir sv p m w)
        else if req = RFS_OP_READDIR then server_readdir sv p m w
        else if req = RFS_OP_CLOSEDIR then Some (server_closedir sv p m w)
        else Some (Inr (SERVER_ERR, m, w)))"

subsection \<open>The byte-fed transport\<close>

datatype mem_state = MEM_STATE_READ_LENGTH | MEM_STATE_READ_REQUEST | MEM_STATE_REQUEST_DONE

record mem_trans =
  mem_read_len :: int
  mem_expected_len :: int
  mem_read_state :: mem_state
  mem_response_flag :: bool

definition rfs_mem_start_request :: mem_trans where
  "rfs_mem_start_request = \<lparr>mem_read_len = 0, mem_expected_len = 0,
     mem_read_state = MEM_STATE_READ_LENGTH, mem_response_flag = False\<rparr>"

text \<open>One byte from the multiplexer, or -1 for a time-out; \<open>p\<close> is \<^verbatim>\<open>rfs_buffer\<close>.\<close>

definition rfs_mem_read_request_packet :: "nat \<Rightarrow> int \<Rightarrow> mem_trans \<times> mem \<Rightarrow> int \<times> mem_trans \<times> mem" where
  "rfs_mem_read_request_packet p c s = (case s of (t, m) \<Rightarrow>
     if c = -1 then (0, rfs_mem_start_request, m)
     else case mem_read_state t of
       MEM_STATE_READ_LENGTH \<Rightarrow>
         (let m' = m(p + nat (mem_read_len t) := of_int c);
              t' = t\<lparr>mem_read_len := mem_read_len t + 1\<rparr>
          in if mem_read_len t' = int ELUARPC_START_OFFSET then
               (case eluarpc_get_packet_size m' p of (st, n) \<Rightarrow>
                  if st = ELUARPC_ERR
                  then (0, t'\<lparr>mem_read_len := 0, mem_read_state := MEM_STATE_REQUEST_DONE\<rparr>, m')
                  else (1, t'\<lparr>mem_read_len := 0, mem_read_state := MEM_STATE_READ_REQUEST,
                              mem_expected_len := int (unat n) - int ELUARPC_START_OFFSET\<rparr>, m'))
             else (1, t', m'))
     | MEM_STATE_READ_REQUEST \<Rightarrow>
         (let m' = m(p + ELUARPC_START_OFFSET + nat (mem_read_len t) := of_int c);
              t' = t\<lparr>mem_read_len := mem_read_len t + 1\<rparr>
          in if mem_read_len t' = mem_expected_len t'
             then (1, t'\<lparr>mem_read_state := MEM_STATE_REQUEST_DONE, mem_response_flag := True\<rparr>, m')
             else (1, t', m'))
     | MEM_STATE_REQUEST_DONE \<Rightarrow> (1, t, m))"

definition rfs_mem_has_response :: "mem_trans \<Rightarrow> bool" where
  "rfs_mem_has_response t = mem_response_flag t"

text \<open>The response: its length (0 on a broken header), the memory that holds it, the new world.\<close>

definition rfs_mem_write_response :: "'w rfs_server \<Rightarrow> nat \<Rightarrow> mem \<Rightarrow> 'w \<Rightarrow> (c_fault + (u16 \<times> mem \<times> 'w)) option" where
  "rfs_mem_write_response sv p m w = (case server_execute_request sv p m w of
      None \<Rightarrow> None
    | Some (Inl e) \<Rightarrow> Some (Inl e)
    | Some (Inr (_, m', w')) \<Rightarrow> (case eluarpc_get_packet_size m' p of (st, n) \<Rightarrow>
        Some (Inr (if st \<noteq> ELUARPC_ERR then n else 0, m', w'))))"

end
