(* ===== verification/Rfs_Client.thy ===== *)
theory Rfs_Client
  imports Remotefs
begin

text \<open>
  The remote file system client: the request/response exchange and the operations of
  \<^verbatim>\<open>src/remotefs/client.c\<close>, and the device functions of \<^verbatim>\<open>src/remotefs/elua_rfs.c\<close> that cut
  long reads and writes into packets. The transport is the pair of functions that
  \<^verbatim>\<open>rfsc_setup\<close> installs, over a transport state \<open>'t\<close>; the state of the client is the memory with
  its packet buffer and the state of the transport. An operation is \<open>None\<close> when the drain loop
  in front of a request never ends.
\<close>

record 't rfs_client =
  rfsc_buffer :: nat
  rfsc_send :: "u8 list \<Rightarrow> 't \<Rightarrow> u32 \<times> 't"
  rfsc_recv :: "u32 \<Rightarrow> u32 \<Rightarrow> 't \<Rightarrow> u8 list \<times> 't"
  rfsc_timeout :: u32
  rfsc_consts :: sys_consts

abbreviation CLIENT_OK :: int where "CLIENT_OK \<equiv> 0"
abbreviation CLIENT_ERR :: int where "CLIENT_ERR \<equiv> 1"

definition rfsc_setup :: "sys_consts \<Rightarrow> nat \<Rightarrow> (u8 list \<Rightarrow> 't \<Rightarrow> u32 \<times> 't) \<Rightarrow>
    (u32 \<Rightarrow> u32 \<Rightarrow> 't \<Rightarrow> u8 list \<times> 't) \<Rightarrow> u32 \<Rightarrow> 't rfs_client" where
  "rfsc_setup k pbuf send recv timeout = \<lparr>rfsc_buffer = pbuf, rfsc_send = send, rfsc_recv = recv,
     rfsc_timeout = timeout, rfsc_consts = k\<rparr>"

definition rfsc_set_timeout :: "u32 \<Rightarrow> 't rfs_client \<Rightarrow> 't rfs_client" where
  "rfsc_set_timeout timeout cl = cl\<lparr>rfsc_timeout := timeout\<rparr>"

subsection \<open>One exchange\<close>

text \<open>\<^verbatim>\<open>while( rfsc_recv( rfsc_buffer, 1, 0 ) == 1 );\<close>\<close>

partial_function (option) rfsc_drain :: "'t rfs_client \<Rightarrow> mem \<Rightarrow> 't \<Rightarrow> (mem \<times> 't) option" where
  "rfsc_drain cl m t = (case rfsc_recv cl 1 0 t of (bs, t') \<Rightarrow>
     (let m' = mem_store m (rfsc_buffer cl) bs
      in if length bs = 1 then rfsc_drain cl m' t' else Some (m', t')))"

text \<open>
  The serial variant; \<open>drain\<close> is false on \<^verbatim>\<open>ELUA_CPU_LINUX\<close>. The size of the second part of the
  response is compared and passed on as an unsigned number.
\<close>

definition rfsch_send_request_read_response ::
    "bool \<Rightarrow> 't rfs_client \<Rightarrow> mem \<times> 't \<Rightarrow> (int \<times> mem \<times> 't) option" where
  "rfsch_send_request_read_response drain cl s = (case s of (m0, t0) \<Rightarrow>
     (case (if drain then rfsc_drain cl m0 t0 else Some (m0, t0)) of
        None \<Rightarrow> None
      | Some (m, t) \<Rightarrow> Some (case eluarpc_get_packet_size m (rfsc_buffer cl) of (st, n) \<Rightarrow>
          if st = ELUARPC_ERR then (CLIENT_ERR, m, t)
          else case rfsc_send cl (mem_load m (rfsc_buffer cl) (unat n)) t of (sent, t1) \<Rightarrow>
            if sent \<noteq> ucast n then (CLIENT_ERR, m, t1)
            else case rfsc_recv cl (of_nat ELUARPC_START_OFFSET) (rfsc_timeout cl) t1 of (bs1, t2) \<Rightarrow>
              (let m1 = mem_store m (rfsc_buffer cl) bs1
               in if length bs1 \<noteq> ELUARPC_START_OFFSET then (CLIENT_ERR, m1, t2)
                  else case eluarpc_get_packet_size m1 (rfsc_buffer cl) of (st', n') \<Rightarrow>
                    if st' = ELUARPC_ERR then (CLIENT_ERR, m1, t2)
                    else (let rest = ucast n' - of_nat ELUARPC_START_OFFSET
                      in case rfsc_recv cl rest (rfsc_timeout cl) t2 of (bs2, t3) \<Rightarrow>
                        (let m2 = mem_store m1 (rfsc_buffer cl + ELUARPC_START_OFFSET) bs2
                         in if of_nat (length bs2) \<noteq> rest then (CLIENT_ERR, m2, t3)
                            else (CLIENT_OK, m2, t3)))))))"

text \<open>The UDP variant: one datagram each way.\<close>

definition rfsch_send_request_read_response_udp ::
    "u32 \<Rightarrow> 't rfs_client \<Rightarrow> mem \<times> 't \<Rightarrow> int \<times> mem \<times> 't" where
  "rfsch_send_request_read_response_udp bufsize cl s = (case s of (m, t) \<Rightarrow>
     (case eluarpc_get_packet_size m (rfsc_buffer cl) of (st, n) \<Rightarrow>
        if st = ELUARPC_ERR then (CLIENT_ERR, m, t)
        else case rfsc_send cl (mem_load m (rfsc_buffer cl) (unat n)) t of (sent, t1) \<Rightarrow>
          if sent \<noteq> ucast n then (CLIENT_ERR, m, t1)
          else case rfsc_recv cl bufsize (rfsc_timeout cl) t1 of (bs, t2) \<Rightarrow>
            (let m' = mem_store m (rfsc_buffer cl) bs
             in if length bs < ELUARPC_START_OFFSET then (CLIENT_ERR, m', t2)
                else case eluarpc_get_packet_size m' (rfsc_buffer cl) of (st', _) \<Rightarrow>
                  if st' = ELUARPC_ERR then (CLIENT_ERR, m', t2) else (CLIENT_OK, m', t2))))"

subsection \<open>Operations\<close>

type_synonym ('t, 'a) client_op = "('a \<times> mem \<times> 't) option"

definition rfsc_open :: "bool \<Rightarrow> 't rfs_client \<Rightarrow> u8 list \<Rightarrow> u32 \<Rightarrow> u32 \<Rightarrow> mem \<times> 't \<Rightarrow> ('t, u32) client_op" where
  "rfsc_open dr cl pathname flags mode s = (case s of (m0, t0) \<Rightarrow>
     (case rfsch_send_request_read_response dr cl
        (remotefs_open_write_request m0 (rfsc_buffer cl) pathname
           (os_open_sys_flags_to_rfs_flags (rfsc_consts cl) flags) mode, t0) of
        None \<Rightarrow> None
      | Some (st, m, t) \<Rightarrow> Some
          (if st = CLIENT_ERR then (-1, m, t)
           else case remotefs_open_read_response m (rfsc_buffer cl) of
             Some (rs, [OInt fd]) \<Rightarrow> (if rs = ELUARPC_ERR then -1 else fd, m, t)
           | _ \<Rightarrow> (-1, m, t))))"

definition rfsc_write :: "bool \<Rightarrow> 't rfs_client \<Rightarrow> u32 \<Rightarrow> u8 list \<Rightarrow> u32 \<Rightarrow> mem \<times> 't \<Rightarrow> ('t, u32) client_op" where
  "rfsc_write dr cl fd buf count s = (case s of (m0, t0) \<Rightarrow>
     (case rfsch_send_request_read_response dr cl
        (remotefs_write_write_request m0 (rfsc_buffer cl) fd buf count, t0) of
        None \<Rightarrow> None
      | Some (st, m, t) \<Rightarrow> Some
          (if st = CLIENT_ERR then (-1, m, t)
           else case remotefs_write_read_response m (rfsc_buffer cl) of
             Some (rs, [OInt n]) \<Rightarrow> (if rs = ELUARPC_ERR then -1 else n, m, t)
           | _ \<Rightarrow> (-1, m, t))))"

text \<open>A read returns the count and the bytes it copied to the caller's buffer.\<close>

definition rfsc_read :: "bool \<Rightarrow> 't rfs_client \<Rightarrow> u32 \<Rightarrow> u32 \<Rightarrow> mem \<times> 't \<Rightarrow> ('t, u32 \<times> u8 list) client_op" where
  "rfsc_read dr cl fd count s = (case s of (m0, t0) \<Rightarrow>
     (case rfsch_send_request_read_response dr cl
        (remotefs_read_write_request m0 (rfsc_buffer cl) fd count, t0) of
        None \<Rightarrow> None
      | Some (st, m, t) \<Rightarrow> Some
          (if st = CLIENT_ERR then ((-1, []), m, t)
           else case remotefs_read_read_response m (rfsc_buffer cl) of
             Some (rs, [OPtr resbuf n]) \<Rightarrow>
               (if rs = ELUARPC_ERR then (-1, []) else (n, out_bytes m resbuf n), m, t)
           | _ \<Rightarrow> ((-1, []), m, t))))"

definition rfsc_lseek :: "bool \<Rightarrow> 't rfs_client \<Rightarrow> u32 \<Rightarrow> u32 \<Rightarrow> u32 \<Rightarrow> mem \<times> 't \<Rightarrow> ('t, u32) client_op" where
  "rfsc_lseek dr cl fd offset whence s = (case s of (m0, t0) \<Rightarrow>
     (case rfsch_send_request_read_response dr cl
        (remotefs_lseek_write_request m0 (rfsc_buffer cl) fd offset
           (os_lseek_sys_whence_to_rfs_whence (rfsc_consts cl) whence), t0) of
        None \<Rightarrow> None
      | Some (st, m, t) \<Rightarrow> Some
          (if st = CLIENT_ERR then (-1, m, t)
           else case remotefs_lseek_read_response m (rfsc_buffer cl) of
             Some (rs, [OInt res]) \<Rightarrow> (if rs = ELUARPC_ERR then -1 else res, m, t)
           | _ \<Rightarrow> (-1, m, t))))"

definition rfsc_close :: "bool \<Rightarrow> 't rfs_client \<Rightarrow> u32 \<Rightarrow> mem \<times> 't \<Rightarrow> ('t, u32) client_op" where
  "rfsc_close dr cl fd s = (case s of (m0, t0) \<Rightarrow>
     (case rfsch_send_request_read_response dr cl
        (remotefs_close_write_request m0 (rfsc_buffer cl) fd, t0) of
        None \<Rightarrow> None
      | Some (st, m, t) \<Rightarrow> Some
          (if st = CLIENT_ERR then (-1, m, t)
           else case remotefs_close_read_response m (rfsc_buffer cl) of
             Some (rs, [OInt res]) \<Rightarrow> (if rs = ELUARPC_ERR then -1 else res, m, t)
           | _ \<Rightarrow> (-1, m, t))))"

definition rfsc_opendir :: "bool \<Rightarrow> 't rfs_client \<Rightarrow> u8 list \<Rightarrow> mem \<times> 't \<Rightarrow> ('t, u32) client_op" where
  "rfsc_opendir dr cl name s = (case s of (m0, t0) \<Rightarrow>
     (case rfsch_send_request_read_response dr cl
        (remotefs_opendir_write_request m0 (rfsc_buffer cl) name, t0) of
        None \<Rightarrow> None
      | Some (st, m, t) \<Rightarrow> Some
          (if st = CLIENT_ERR then (0, m, t)
           else case remotefs_opendir_read_response m (rfsc_buffer cl) of
             Some (rs, [OInt res]) \<Rightarrow> (if rs = ELUARPC_ERR then 0 else res, m, t)
           | _ \<Rightarrow> (0, m, t))))"

text \<open>The name pointer (into the packet buffer), size and time that a directory read reports.\<close>

definition rfsc_readdir :: "bool \<Rightarrow> 't rfs_client \<Rightarrow> u32 \<Rightarrow> mem \<times> 't \<Rightarrow> ('t, (nat \<times> u32 \<times> u32) option) client_op" where
  "rfsc_readdir dr cl d s = (case s of (m0, t0) \<Rightarrow>
     (case rfsch_send_request_read_response dr cl
        (remotefs_readdir_write_request m0 (rfsc_buffer cl) d, t0) of
        None \<Rightarrow> None
      | Some (st, m, t) \<Rightarrow> Some
          (if st = CLIENT_ERR then (None, m, t)
           else case remotefs_readdir_read_response m (rfsc_buffer cl) of
             Some (rs, [OPtr pname _, OInt psize, OInt ptime]) \<Rightarrow>
               (if rs = ELUARPC_ERR then None else map_option (\<lambda>a. (a, psize, ptime)) pname, m, t)
           | _ \<Rightarrow> (None, m, t))))"

definition rfsc_closedir :: "bool \<Rightarrow> 't rfs_client \<Rightarrow> u32 \<Rightarrow> mem \<times> 't \<Rightarrow> ('t, u32) client_op" where
  "rfsc_closedir dr cl d s = (case s of (m0, t0) \<Rightarrow>
     (case rfsch_send_request_read_response dr cl
        (remotefs_closedir_write_request m0 (rfsc_buffer cl) d, t0) of
        None \<Rightarrow> None
      | Some (st, m, t) \<Rightarrow> Some
          (if st = CLIENT_ERR then (-1, m, t)
           else case remotefs_closedir_read_response m (rfsc_buffer cl) of
             Some (rs, [OInt res]) \<Rightarrow> (if rs = ELUARPC_ERR then -1 else res, m, t)
           | _ \<Rightarrow> (-1, m, t))))"

subsection \<open>The device functions\<close>

abbreviation ELUARPC_WRITE_REQUEST_EXTRA :: nat where "ELUARPC_WRITE_REQUEST_EXTRA \<equiv> 29"

text \<open>\<^verbatim>\<open>RFS_REAL_BUFFER_SIZE\<close> for \<^verbatim>\<open>RFS_BUFFER_SIZE\<close> = \<open>logsize\<close>.\<close>

definition RFS_REAL_BUFFER_SIZE :: "nat \<Rightarrow> u32" where
  "RFS_REAL_BUFFER_SIZE lsize = of_nat (2 ^ lsize) - of_nat ELUARPC_WRITE_REQUEST_EXTRA"

text \<open>
  The loops over packets; \<open>real\<close> is the chunk size, the client's read or write a function of the
  state. A loop that never ends is \<open>None\<close>.
\<close>

partial_function (option) rfs_write_loop ::
    "u32 \<Rightarrow> (u8 list \<Rightarrow> u32 \<Rightarrow> 's \<Rightarrow> (u32 \<times> 's) option) \<Rightarrow> u8 list \<Rightarrow> u32 \<Rightarrow> u32 \<Rightarrow> 's \<Rightarrow> (u32 \<times> 's) option" where
  "rfs_write_loop real wr p len tot s =
     (if len = 0 then Some (tot, s)
      else let towrite = (if len > real then real else len)
        in Option.bind (wr p towrite s) (\<lambda>(res, s').
          if res = -1 then Some (tot, s')
          else if res < towrite then Some (tot + res, s')
          else rfs_write_loop real wr (drop (unat towrite) p) (len - towrite) (tot + res) s'))"

definition rfs_write_r :: "u32 \<Rightarrow> bool \<Rightarrow> 't rfs_client \<Rightarrow> u32 \<Rightarrow> u8 list \<Rightarrow> u32 \<Rightarrow> mem \<times> 't \<Rightarrow> ('t, u32) client_op" where
  "rfs_write_r real dr cl fd ptr len s =
     rfs_write_loop real (\<lambda>p n. rfsc_write dr cl fd p n) ptr len 0 s"

partial_function (option) rfs_read_loop ::
    "u32 \<Rightarrow> (u32 \<Rightarrow> 's \<Rightarrow> ((u32 \<times> u8 list) \<times> 's) option) \<Rightarrow> u8 list \<Rightarrow> nat \<Rightarrow> u32 \<Rightarrow> u32 \<Rightarrow> 's
     \<Rightarrow> ((u32 \<times> u8 list) \<times> 's) option" where
  "rfs_read_loop real rdf dst p len tot s =
     (if len = 0 then Some ((tot, dst), s)
      else let toread = (if len > real then real else len)
        in Option.bind (rdf toread s) (\<lambda>((res, bytes), s').
          if res = -1 then Some ((tot, dst), s')
          else let dst' = overwrite dst p bytes
            in if res < toread then Some ((tot + res, dst'), s')
               else rfs_read_loop real rdf dst' (p + unat toread) (len - toread) (tot + res) s'))"

definition rfs_read_r :: "u32 \<Rightarrow> bool \<Rightarrow> 't rfs_client \<Rightarrow> u32 \<Rightarrow> u8 list \<Rightarrow> u32 \<Rightarrow> mem \<times> 't
    \<Rightarrow> ('t, u32 \<times> u8 list) client_op" where
  "rfs_read_r real dr cl fd dst len s =
     rfs_read_loop real (\<lambda>n. rfsc_read dr cl fd n) dst 0 len 0 s"

text \<open>The serial transport over a UART; a receive stops at the first time-out.\<close>

primrec rfs_send :: "('t \<Rightarrow> u8 \<Rightarrow> 't) \<Rightarrow> u8 list \<Rightarrow> 't \<Rightarrow> 't" where
  "rfs_send uart_send [] t = t"
| "rfs_send uart_send (b # bs) t = rfs_send uart_send bs (uart_send t b)"

primrec rfs_recv :: "('t \<Rightarrow> u8 option \<times> 't) \<Rightarrow> nat \<Rightarrow> 't \<Rightarrow> u8 list \<times> 't" where
  "rfs_recv uart_recv 0 t = ([], t)"
| "rfs_recv uart_recv (Suc n) t = (case uart_recv t of
      (None, t') \<Rightarrow> ([], t')
    | (Some b, t') \<Rightarrow> (case rfs_recv uart_recv n t' of (bs, t'') \<Rightarrow> (b # bs, t'')))"

end
