(* ===== verification/Rfs_System.thy ===== *)
theory Rfs_System
  imports Rfs_Server Rfs_Client
begin

text \<open>
  Client and server of the remote file system joined: the messages are read back as they were
  written, the byte-fed transport of the server recognises the end of a request, and the
  client's operations over it have the result of the server's POSIX call.
\<close>

subsection \<open>Messages in memory\<close>

lemma rpc_put_eq: "fmt_toks fmt args = Some ts \<Longrightarrow> rpc_put m p fmt args = mem_store m p (rpc_packet ts)"
  by (simp add: rpc_put_def gen_write_spec)

lemma read_holds:
  "toks_ok fmt ts \<Longrightarrow> holds m p (rpc_packet ts) \<Longrightarrow>
   eluarpc_gen_read m p fmt (tok_ids ts) = Some (ELUARPC_OK, tok_outs (p + 10) ts)"
  using gen_read_complete packet_body by blast

lemma length_rpc_packet: "length (rpc_packet ts) = 16 + length (enc_toks ts)"
  by (simp add: rpc_packet_def rpc_body_def)

lemma fmt_simps:
  "rpc_spec_char CHR ''o''" "rpc_spec_char CHR ''r''" "rpc_spec_char CHR ''i''" "rpc_spec_char CHR ''l''"
  "rpc_spec_char CHR ''L''" "rpc_spec_char CHR ''p''"
  by (simp_all add: rpc_spec_char_def)

lemma arg_tok_simps:
  "arg_tok CHR ''o'' (AInt x) = Some (TOp (ucast x))" "arg_tok CHR ''r'' (AInt x) = Some (TRes (ucast x))"
  "arg_tok CHR ''i'' (AInt x) = Some (TInt32 x)" "arg_tok CHR ''l'' (AInt x) = Some (TInt32 x)"
  "arg_tok CHR ''L'' (AInt x) = Some (TInt32 x)"
  "unat n \<le> length bs \<Longrightarrow> arg_tok CHR ''p'' (APtr (Some bs) n) = Some (TBlock (take (unat n) bs))"
  "arg_tok CHR ''p'' (APtr None 0) = Some (TBlock [])"
  by (simp_all add: arg_tok_def arg_bytes_def)


text \<open>A block that the caller has put in place already: the writer is given NULL and skips over it.\<close>

lemma emit_block_in_place:
  "emit_block None n (m, p) = emit_block (Some (mem_load m p n)) n (m, p)"
  by (auto simp: emit_block_def mem_store_def fun_eq_iff)

lemma put_in_place:
  assumes "length bytes < 2 ^ 32"
  shows "rpc_put (mem_store m (p + 17) bytes) p ''rp'' [OpId i, APtr None (of_nat (length bytes))] =
    mem_store m p (rpc_packet [TRes i, TBlock bytes])"
proof -
  let ?M = "mem_store m (p + 17) bytes" and ?n = "of_nat (length bytes) :: u32"
  have n: "unat ?n = length bytes" using assms by (simp add: unat_of_nat_u32)
  define w where "w = wr_puts (TYPE_PTR # enc_u32 ?n) (emit (ELUARPC_OP_RES_MOD OR i) (eluarpc_start_packet (?M, p)))"
  have "w = wr_puts ((TYPE_START # enc_u32 PACKET_SIG) @ [ELUARPC_OP_RES_MOD OR i] @ TYPE_PTR # enc_u32 ?n) (?M, p + 4)"
    by (simp add: w_def eluarpc_start_packet_def emit_puts write_puts)
  then obtain W where w: "w = (W, p + 17)" and W: "\<And>k. p + 17 \<le> k \<Longrightarrow> W k = ?M k"
    by (simp add: wr_puts_def mem_store_def)
  have "mem_load W (p + 17) (length bytes) = mem_load ?M (p + 17) (length bytes)"
    by (rule mem_load_cong) (simp add: W)
  then have blk: "emit_block None (length bytes) w = emit_block (Some bytes) (length bytes) w"
    unfolding w by (simp add: emit_block_in_place mem_load_store_same)
  have "rpc_put ?M p ''rp'' [OpId i, APtr None ?n] = rpc_put ?M p ''rp'' [OpId i, APtr (Some bytes) ?n]"
    using blk by (simp add: rpc_put_def eluarpc_gen_write_def eluarpc_write_item_def eluarpc_write_ptr_def
        n w_def write_puts emit_puts)
  also have "\<dots> = mem_store ?M p (rpc_packet [TRes i, TBlock bytes])"
    using n by (intro rpc_put_eq) (simp add: fmt_simps arg_tok_simps)
  also have "\<dots> = mem_store m p (rpc_packet [TRes i, TBlock bytes])"
    by (rule ext) (simp add: mem_store_def length_rpc_packet)
  finally show ?thesis .
qed

subsection \<open>The server's handlers\<close>

text \<open>The handlers whose answer is one integer.\<close>

lemma exec_write:
  assumes "holds m p (rpc_packet [TOp RFS_OP_WRITE, TInt32 fd, TBlock bs])" "length bs < 2 ^ 32"
  shows "server_execute_request sv p m w = (case px_write (server_os sv) fd bs w of
    (r, w') \<Rightarrow> Some (Inr (SERVER_OK, mem_store m p (rpc_packet [TRes RFS_OP_WRITE, TInt32 r]), w')))"
proof -
  have "holds m (p + 23) bs"
    using packet_body [OF assms(1)] by (simp add: rpc_body_def add.commute)
  then have ob: "out_bytes m (if bs = [] then None else Some (p + 23)) (of_nat (length bs)) = bs"
    using assms(2) by (simp add: out_bytes_def unat_of_nat_u32 holds_load)
  have "remotefs_write_read_request m p =
      Some (ELUARPC_OK, [OInt fd, OPtr (if bs = [] then None else Some (p + 23)) (of_nat (length bs))])"
    using read_holds [of "''oip''", OF _ assms(1)] assms(2)
    by (simp add: remotefs_write_read_request_def fmt_simps)
  then show ?thesis using ob
    by (simp add: server_execute_request_def request_id_ok [OF assms(1)] server_write_def os_write_def
        remotefs_write_write_response_def rpc_put_eq fmt_simps arg_tok_simps split: prod.split)
qed

lemma exec_close:
  assumes "holds m p (rpc_packet [TOp RFS_OP_CLOSE, TInt32 fd])"
  shows "server_execute_request sv p m w = (case px_close (server_os sv) fd w of
    (r, w') \<Rightarrow> Some (Inr (SERVER_OK, mem_store m p (rpc_packet [TRes RFS_OP_CLOSE, TInt32 r]), w')))"
  using read_holds [of "''oi''", OF _ assms]
  by (simp add: remotefs_close_read_request_def fmt_simps server_execute_request_def request_id_ok [OF assms]
      server_close_def os_close_def remotefs_close_write_response_def rpc_put_eq arg_tok_simps split: prod.split)

lemma exec_lseek:
  assumes "holds m p (rpc_packet [TOp RFS_OP_LSEEK, TInt32 fd, TInt32 off, TInt32 wh])"
  shows "server_execute_request sv p m w = (case os_lseek (server_consts sv) (server_os sv) fd off wh w of
    (r, w') \<Rightarrow> Some (Inr (SERVER_OK, mem_store m p (rpc_packet [TRes RFS_OP_LSEEK, TInt32 r]), w')))"
  using read_holds [of "''oiLi''", OF _ assms]
  by (simp add: remotefs_lseek_read_request_def fmt_simps server_execute_request_def request_id_ok [OF assms]
      server_lseek_def remotefs_lseek_write_response_def rpc_put_eq arg_tok_simps split: prod.split)

lemma exec_read:
  assumes "holds m p (rpc_packet [TOp RFS_OP_READ, TInt32 fd, TInt32 n])"
    and "px_read (server_os sv) fd n w = ((of_nat (length bytes), bytes), w')" "length bytes < 2 ^ 32"
  shows "server_execute_request sv p m w =
    Some (Inr (SERVER_OK, mem_store m p (rpc_packet [TRes RFS_OP_READ, TBlock bytes]), w'))"
  using read_holds [of "''oil''", OF _ assms(1)] assms(2,3) put_in_place [of bytes m p RFS_OP_READ]
  by (simp add: remotefs_read_read_request_def fmt_simps server_execute_request_def request_id_ok [OF assms(1)]
      server_read_def os_read_def remotefs_read_write_response_def)


subsection \<open>Feeding a request\<close>

definition rfs_mem_feed :: "nat \<Rightarrow> u8 list \<Rightarrow> mem_trans \<times> mem \<Rightarrow> mem_trans \<times> mem" where
  "rfs_mem_feed p bs s = fold (\<lambda>b s. snd (rfs_mem_read_request_packet p (uint b) s)) bs s"

lemma rfs_mem_feed_simps [simp]:
  "rfs_mem_feed p [] s = s"
  "rfs_mem_feed p (b # bs) s = rfs_mem_feed p bs (snd (rfs_mem_read_request_packet p (uint b) s))"
  by (simp_all add: rfs_mem_feed_def)

lemma rfs_mem_feed_append: "rfs_mem_feed p (xs @ ys) s = rfs_mem_feed p ys (rfs_mem_feed p xs s)"
  by (simp add: rfs_mem_feed_def)

lemma uint_not_minus_1 [simp]: "uint (b :: u8) \<noteq> -1"
  using unsigned_greater_eq [of b, where ?'a = int] by (metis neg_0_le_iff_le not_one_le_zero)

lemma store_upd: "m(a := b) = mem_store m a [b]"
  by (auto simp: mem_store_def fun_eq_iff)

lemma feed_body_part:
  "k + length bs < e \<Longrightarrow>
   rfs_mem_feed p bs (\<lparr>mem_read_len = int k, mem_expected_len = int e, mem_read_state = MEM_STATE_READ_REQUEST, mem_response_flag = f\<rparr>, m) =
     (\<lparr>mem_read_len = int (k + length bs), mem_expected_len = int e, mem_read_state = MEM_STATE_READ_REQUEST, mem_response_flag = f\<rparr>,
      mem_store m (p + 4 + k) bs)"
proof (induction bs arbitrary: k m)
  case (Cons b bs)
  have st: "snd (rfs_mem_read_request_packet p (uint b) (\<lparr>mem_read_len = int k, mem_expected_len = int e, mem_read_state = MEM_STATE_READ_REQUEST, mem_response_flag = f\<rparr>, m)) =
     (\<lparr>mem_read_len = int (Suc k), mem_expected_len = int e, mem_read_state = MEM_STATE_READ_REQUEST, mem_response_flag = f\<rparr>,
      mem_store m (p + 4 + k) [b])"
    using Cons.prems by (simp add: rfs_mem_read_request_packet_def Let_def store_upd)
  have "rfs_mem_feed p (b # bs) (\<lparr>mem_read_len = int k, mem_expected_len = int e, mem_read_state = MEM_STATE_READ_REQUEST, mem_response_flag = f\<rparr>, m) =
     (\<lparr>mem_read_len = int (Suc k + length bs), mem_expected_len = int e, mem_read_state = MEM_STATE_READ_REQUEST, mem_response_flag = f\<rparr>,
      mem_store (mem_store m (p + 4 + k) [b]) (p + 4 + Suc k) bs)"
    unfolding rfs_mem_feed_simps st by (rule Cons.IH) (use Cons.prems in simp)
  then show ?case
    using mem_store_append [of m "p + 4 + k" "[b]" bs] by simp
qed simp

lemma feed_body:
  assumes "bs \<noteq> []"
  shows "rfs_mem_feed p bs (\<lparr>mem_read_len = 0, mem_expected_len = int (length bs), mem_read_state = MEM_STATE_READ_REQUEST, mem_response_flag = f\<rparr>, m) =
     (\<lparr>mem_read_len = int (length bs), mem_expected_len = int (length bs), mem_read_state = MEM_STATE_REQUEST_DONE, mem_response_flag = True\<rparr>,
      mem_store m (p + 4) bs)"
proof -
  obtain ys y where bs: "bs = ys @ [y]" using assms by (cases bs rule: rev_cases) auto
  show ?thesis
    using feed_body_part [of 0 ys "Suc (length ys)" p f m] mem_store_append [of m "p + 4" ys "[y]"]
    by (simp add: bs rfs_mem_feed_append rfs_mem_read_request_packet_def Let_def store_upd)
qed

lemma feed_header:
  assumes "length h = 4" "holds (mem_store m p h) p (TYPE_PKT_SIZE # enc_u16 n)"
  shows "rfs_mem_feed p h (rfs_mem_start_request, m) =
     (\<lparr>mem_read_len = 0, mem_expected_len = int (unat n) - 4, mem_read_state = MEM_STATE_READ_REQUEST, mem_response_flag = False\<rparr>,
      mem_store m p h)"
proof -
  obtain a b c d where h: "h = [a, b, c, d]"
    using assms(1) by (auto simp: numeral_eq_Suc length_Suc_conv)
  have M: "mem_store m p [a, b, c, d] = m(p := a, p + 1 := b, p + 2 := c, p + 3 := d)"
    using mem_store_append [of m p "[a]" "[b, c, d]"] mem_store_append [of "m(p := a)" "p + 1" "[b]" "[c, d]"]
      mem_store_append [of "m(p := a, p + 1 := b)" "p + 2" "[c]" "[d]"]
    by (simp add: store_upd Suc_addr)
  have "eluarpc_get_packet_size (mem_store m p h) p = (ELUARPC_OK, n)"
    using assms(2) by (auto simp: eluarpc_get_packet_size_def read_expect_eq read_u16_ok eluarpc_status_def)
  then show ?thesis unfolding h M
    by (simp add: rfs_mem_read_request_packet_def rfs_mem_start_request_def Let_def numeral_eq_Suc)
qed

lemma feed_packet:
  assumes "length (rpc_packet ts) < 65536"
  shows "rfs_mem_feed p (rpc_packet ts) (rfs_mem_start_request, m) =
     (\<lparr>mem_read_len = int (length (rpc_body ts)), mem_expected_len = int (length (rpc_body ts)),
       mem_read_state = MEM_STATE_REQUEST_DONE, mem_response_flag = True\<rparr>, mem_store m p (rpc_packet ts))"
  and "k < length (rpc_packet ts) \<Longrightarrow>
     \<not> rfs_mem_has_response (fst (rfs_mem_feed p (take k (rpc_packet ts)) (rfs_mem_start_request, m)))"
proof -
  define h where "h = TYPE_PKT_SIZE # enc_u16 (of_nat (4 + length (rpc_body ts)))"
  have h: "length h = 4" "rpc_packet ts = h @ rpc_body ts" by (simp_all add: h_def rpc_packet_def)
  have n: "unat (of_nat (4 + length (rpc_body ts)) :: u16) = 4 + length (rpc_body ts)"
    using assms by (intro unat_of_nat_u16) (simp add: rpc_packet_def)
  have "holds (mem_store m p h) p (TYPE_PKT_SIZE # enc_u16 (of_nat (4 + length (rpc_body ts))))"
    using holds_store [of m p h] by (simp only: h_def [symmetric])
  note fh = feed_header [OF h(1) this, unfolded n]
  have ne: "rpc_body ts \<noteq> []" by (simp add: rpc_body_def)
  have "mem_store m p (rpc_packet ts) = mem_store (mem_store m p h) (p + 4) (rpc_body ts)"
    using h mem_store_append [of m p h "rpc_body ts"] by simp
  then show "rfs_mem_feed p (rpc_packet ts) (rfs_mem_start_request, m) =
     (\<lparr>mem_read_len = int (length (rpc_body ts)), mem_expected_len = int (length (rpc_body ts)),
       mem_read_state = MEM_STATE_REQUEST_DONE, mem_response_flag = True\<rparr>, mem_store m p (rpc_packet ts))"
    using feed_body [OF ne, of p False] fh by (simp add: h(2) rfs_mem_feed_append)
  show "\<not> rfs_mem_has_response (fst (rfs_mem_feed p (take k (rpc_packet ts)) (rfs_mem_start_request, m)))"
    if k: "k < length (rpc_packet ts)"
  proof (cases "k < 4")
    case True
    then have "k = 0 \<or> k = 1 \<or> k = 2 \<or> k = 3" by auto
    then show ?thesis
      by (elim disjE; simp add: h(2) h_def enc_u16_def rfs_mem_read_request_packet_def
          rfs_mem_start_request_def rfs_mem_has_response_def Let_def numeral_eq_Suc)
  next
    case False
    then have t: "take k (rpc_packet ts) = h @ take (k - 4) (rpc_body ts)" using h by simp
    have "length (take (k - 4) (rpc_body ts)) < length (rpc_body ts)"
      using k False h ne by auto
    then show ?thesis
      using fh feed_body_part [of 0 "take (k - 4) (rpc_body ts)" "length (rpc_body ts)" p False]
      by (simp add: t rfs_mem_feed_append rfs_mem_has_response_def)
  qed
qed

subsection \<open>Client and server over a link\<close>

text \<open>
  The link is the combined multiplexer and server (\<^verbatim>\<open>rfsmux\<close>): the bytes the client sends are
  fed to the server, whose buffer is at address 0 of its own memory; a complete request is
  executed and its response waits to be received.
\<close>

record 'w rfs_link =
  lk_mem :: mem
  lk_world :: 'w
  lk_pend :: "u8 list"

definition link_send :: "'w rfs_server \<Rightarrow> u8 list \<Rightarrow> 'w rfs_link \<Rightarrow> u32 \<times> 'w rfs_link" where
  "link_send sv bs lk = (case rfs_mem_feed 0 bs (rfs_mem_start_request, lk_mem lk) of (t, m) \<Rightarrow>
     (of_nat (length bs),
      if rfs_mem_has_response t then
        (case rfs_mem_write_response sv 0 m (lk_world lk) of
           Some (Inr (n, m', w')) \<Rightarrow> lk\<lparr>lk_mem := m', lk_world := w', lk_pend := lk_pend lk @ mem_load m' 0 (unat n)\<rparr>
         | _ \<Rightarrow> lk\<lparr>lk_mem := m\<rparr>)
      else lk\<lparr>lk_mem := m\<rparr>))"

definition link_recv :: "u32 \<Rightarrow> u32 \<Rightarrow> 'w rfs_link \<Rightarrow> u8 list \<times> 'w rfs_link" where
  "link_recv n timeout lk = (take (unat n) (lk_pend lk), lk\<lparr>lk_pend := drop (unat n) (lk_pend lk)\<rparr>)"

definition link_client :: "sys_consts \<Rightarrow> 'w rfs_server \<Rightarrow> 'w rfs_link rfs_client" where
  "link_client k sv = rfsc_setup k 0 (link_send sv) link_recv 1000"

lemma link_client_simps [simp]:
  "rfsc_buffer (link_client k sv) = 0" "rfsc_send (link_client k sv) = link_send sv"
  "rfsc_recv (link_client k sv) = link_recv" "rfsc_consts (link_client k sv) = k"
  by (simp_all add: link_client_def rfsc_setup_def)

definition fits_packet :: "rpc_tok list \<Rightarrow> bool" where
  "fits_packet ts \<longleftrightarrow> length (rpc_packet ts) < 65536"

lemma link_send_packet:
  assumes "fits_packet ts" "lk_pend lk = []"
    and "server_execute_request sv 0 (mem_store (lk_mem lk) 0 (rpc_packet ts)) (lk_world lk) =
      Some (Inr (st, mem_store M 0 (rpc_packet ts'), w'))" "fits_packet ts'"
  shows "link_send sv (rpc_packet ts) lk =
    (of_nat (length (rpc_packet ts)), \<lparr>lk_mem = mem_store M 0 (rpc_packet ts'), lk_world = w', lk_pend = rpc_packet ts'\<rparr>)"
proof -
  have "length (rpc_packet ts) < 65536" using assms(1) by (simp add: fits_packet_def)
  note feed = feed_packet(1) [OF this, of 0 "lk_mem lk"]
  have "eluarpc_get_packet_size (mem_store M 0 (rpc_packet ts')) 0 = (ELUARPC_OK, of_nat (length (rpc_packet ts')))"
    by (rule packet_size_ok) (rule holds_store)
  then show ?thesis
    using assms feed
    by (simp add: link_send_def rfs_mem_has_response_def rfs_mem_write_response_def fits_packet_def
        unat_of_nat_u16 mem_load_store_same)
qed

text \<open>One exchange: the response is in the client's buffer, the link is idle again.\<close>

lemma exchange:
  assumes "fits_packet ts" "lk_pend lk = []"
    and "server_execute_request sv 0 (mem_store (lk_mem lk) 0 (rpc_packet ts)) (lk_world lk) =
      Some (Inr (st, mem_store M 0 (rpc_packet ts'), w'))" "fits_packet ts'"
  shows "rfsch_send_request_read_response False (link_client k sv) (mem_store m 0 (rpc_packet ts), lk) =
    Some (CLIENT_OK, mem_store (mem_store m 0 (rpc_packet ts)) 0 (rpc_packet ts'),
      \<lparr>lk_mem = mem_store M 0 (rpc_packet ts'), lk_world = w', lk_pend = []\<rparr>)"
proof -
  let ?m = "mem_store m 0 (rpc_packet ts)" and ?r = "rpc_packet ts'"
  have len: "length (rpc_packet ts) < 65536" "length ?r < 65536" "16 \<le> length ?r"
    using assms by (simp_all add: fits_packet_def length_rpc_packet)
  have sz: "eluarpc_get_packet_size ?m 0 = (ELUARPC_OK, of_nat (length (rpc_packet ts)))"
    by (rule packet_size_ok) (rule holds_store)
  define h b where "h = take 4 ?r" and "b = drop 4 ?r"
  have r: "?r = h @ b" "length h = 4" "length b = length ?r - 4"
    using len by (simp_all add: h_def b_def)
  have "holds (mem_store ?m 0 h) 0 (TYPE_PKT_SIZE # enc_u16 (of_nat (length ?r)))"
    using holds_store [of ?m 0 h] by (simp add: h_def rpc_packet_def)
  then have sz': "eluarpc_get_packet_size (mem_store ?m 0 h) 0 = (ELUARPC_OK, of_nat (length ?r))"
    by (auto simp: eluarpc_get_packet_size_def read_expect_eq read_u16_ok eluarpc_status_def)
  have snd: "link_send sv (rpc_packet ts) lk =
    (of_nat (length (rpc_packet ts)), \<lparr>lk_mem = mem_store M 0 ?r, lk_world = w', lk_pend = h @ b\<rparr>)"
    using link_send_packet [OF assms] r by simp
  have rest: "ucast (of_nat (length ?r) :: u16) - (4 :: u32) = of_nat (length b)"
    unfolding ucast_of_nat_u16 [OF len(2)] r(3) using len(3) by (simp add: of_nat_diff)
  have ub: "unat (of_nat (length b) :: u32) = length b"
    using len(2) r(3) by (intro unat_of_nat_u32) linarith
  have st: "mem_store (mem_store ?m 0 h) 4 b = mem_store ?m 0 ?r"
    using r mem_store_append [of ?m 0 h b] by simp
  have n: "unat (of_nat (length (rpc_packet ts)) :: u16) = length (rpc_packet ts)"
    "ucast (of_nat (length (rpc_packet ts)) :: u16) = (of_nat (length (rpc_packet ts)) :: u32)"
    using len(1) by (simp_all add: unat_of_nat_u16 ucast_of_nat_u16)
  have r1: "link_recv 4 to \<lparr>lk_mem = M', lk_world = w', lk_pend = h @ b\<rparr> = (h, \<lparr>lk_mem = M', lk_world = w', lk_pend = b\<rparr>)"
    for to M' using r(2) by (simp add: link_recv_def)
  have r2: "link_recv (of_nat (length b)) to \<lparr>lk_mem = M', lk_world = w', lk_pend = b\<rparr> = (b, \<lparr>lk_mem = M', lk_world = w', lk_pend = []\<rparr>)"
    for to M' by (simp add: link_recv_def ub)
  show ?thesis
    by (simp only: rfsch_send_request_read_response_def prod.case if_False option.case sz n Let_def
        link_client_simps mem_load_store_same snd r1 r(2) sz' rest r2 st of_nat_numeral)
      (simp add: st)
qed

text \<open>The operations of the client, over any POSIX implementation on the other side.\<close>

definition idle :: "'w rfs_link \<Rightarrow> 'w \<Rightarrow> mem \<Rightarrow> 'w rfs_link" where
  "idle lk w m = \<lparr>lk_mem = m, lk_world = w, lk_pend = []\<rparr>"

lemma rfsc_write_link:
  assumes "lk_pend lk = []" "unat n \<le> length buf" "unat n + 29 < 65536"
    and px: "px_write (server_os sv) fd (take (unat n) buf) (lk_world lk) = (r, w')"
  shows "\<exists>m2 sm. rfsc_write False (link_client k sv) fd buf n (m, lk) = Some (r, m2, idle lk w' sm)"
proof -
  let ?ts = "[TOp RFS_OP_WRITE, TInt32 fd, TBlock (take (unat n) buf)]" and ?ts' = "[TRes RFS_OP_WRITE, TInt32 r]"
  let ?M = "mem_store (lk_mem lk) 0 (rpc_packet ?ts)"
  have req: "remotefs_write_write_request m 0 fd buf n = mem_store m 0 (rpc_packet ?ts)"
    unfolding remotefs_write_write_request_def
    by (rule rpc_put_eq) (simp add: fmt_simps arg_tok_simps assms(2))
  have "server_execute_request sv 0 ?M (lk_world lk) = Some (Inr (SERVER_OK, mem_store ?M 0 (rpc_packet ?ts'), w'))"
    using exec_write [of ?M 0 fd "take (unat n) buf" sv "lk_world lk"] holds_store px assms(2,3)
    by (simp add: min_def)
  note ex = exchange [OF _ assms(1) this, of k m]
  have "remotefs_write_read_response M 0 = Some (ELUARPC_OK, [OInt r])"
    if "holds M 0 (rpc_packet ?ts')" for M
    using read_holds [of "''rl''", OF _ that] by (simp add: remotefs_write_read_response_def fmt_simps)
  then show ?thesis using ex holds_store assms(2,3)
    by (simp add: rfsc_write_def req fits_packet_def length_rpc_packet idle_def)
qed

lemma rfsc_read_link:
  assumes "lk_pend lk = []" "length bytes + 23 < 65536"
    and px: "px_read (server_os sv) fd n (lk_world lk) = ((of_nat (length bytes), bytes), w')"
  shows "\<exists>m2 sm. rfsc_read False (link_client k sv) fd n (m, lk) =
    Some ((of_nat (length bytes), bytes), m2, idle lk w' sm)"
proof -
  let ?ts = "[TOp RFS_OP_READ, TInt32 fd, TInt32 n]" and ?ts' = "[TRes RFS_OP_READ, TBlock bytes]"
  let ?M = "mem_store (lk_mem lk) 0 (rpc_packet ?ts)"
  have req: "remotefs_read_write_request m 0 fd n = mem_store m 0 (rpc_packet ?ts)"
    unfolding remotefs_read_write_request_def
    by (rule rpc_put_eq) (simp add: fmt_simps arg_tok_simps)
  have "server_execute_request sv 0 ?M (lk_world lk) = Some (Inr (SERVER_OK, mem_store ?M 0 (rpc_packet ?ts'), w'))"
    using exec_read [of ?M 0 fd n, OF _ px] holds_store assms(2) by simp
  note ex = exchange [OF _ assms(1) this, of k m]
  have "remotefs_read_read_response M 0 =
      Some (ELUARPC_OK, [OPtr (if bytes = [] then None else Some 17) (of_nat (length bytes))]) \<and>
      out_bytes M (if bytes = [] then None else Some 17) (of_nat (length bytes)) = bytes"
    if h: "holds M 0 (rpc_packet ?ts')" for M
  proof -
    have "holds M 17 bytes" using packet_body [OF h] by (simp add: rpc_body_def)
    then show ?thesis using read_holds [of "''rp''", OF _ h] assms(2)
      by (auto simp: remotefs_read_read_response_def fmt_simps out_bytes_def holds_load unat_of_nat_u32)
  qed
  then show ?thesis using ex holds_store assms(2)
    by (simp add: rfsc_read_def req fits_packet_def length_rpc_packet idle_def)
qed

lemma rfsc_lseek_link:
  assumes "lk_pend lk = []"
    and os: "os_lseek (server_consts sv) (server_os sv) fd off (os_lseek_sys_whence_to_rfs_whence k whence) (lk_world lk) = (r, w')"
  shows "\<exists>m2 sm. rfsc_lseek False (link_client k sv) fd off whence (m, lk) = Some (r, m2, idle lk w' sm)"
proof -
  let ?ts = "[TOp RFS_OP_LSEEK, TInt32 fd, TInt32 off, TInt32 (os_lseek_sys_whence_to_rfs_whence k whence)]"
    and ?ts' = "[TRes RFS_OP_LSEEK, TInt32 r]"
  let ?M = "mem_store (lk_mem lk) 0 (rpc_packet ?ts)"
  have req: "remotefs_lseek_write_request m 0 fd off (os_lseek_sys_whence_to_rfs_whence k whence) = mem_store m 0 (rpc_packet ?ts)"
    unfolding remotefs_lseek_write_request_def
    by (rule rpc_put_eq) (simp add: fmt_simps arg_tok_simps)
  have "server_execute_request sv 0 ?M (lk_world lk) = Some (Inr (SERVER_OK, mem_store ?M 0 (rpc_packet ?ts'), w'))"
    by (simp add: exec_lseek [OF holds_store] os)
  note ex = exchange [OF _ assms(1) this, of k m]
  have "remotefs_lseek_read_response M 0 = Some (ELUARPC_OK, [OInt r])" if "holds M 0 (rpc_packet ?ts')" for M
    using read_holds [of "''rL''", OF _ that] by (simp add: remotefs_lseek_read_response_def fmt_simps)
  then show ?thesis using ex holds_store
    by (simp add: rfsc_lseek_def req fits_packet_def length_rpc_packet idle_def)
qed

lemma rfsc_close_link:
  assumes "lk_pend lk = []" and px: "px_close (server_os sv) fd (lk_world lk) = (r, w')"
  shows "\<exists>m2 sm. rfsc_close False (link_client k sv) fd (m, lk) = Some (r, m2, idle lk w' sm)"
proof -
  let ?ts = "[TOp RFS_OP_CLOSE, TInt32 fd]" and ?ts' = "[TRes RFS_OP_CLOSE, TInt32 r]"
  let ?M = "mem_store (lk_mem lk) 0 (rpc_packet ?ts)"
  have req: "remotefs_close_write_request m 0 fd = mem_store m 0 (rpc_packet ?ts)"
    unfolding remotefs_close_write_request_def
    by (rule rpc_put_eq) (simp add: fmt_simps arg_tok_simps)
  have "server_execute_request sv 0 ?M (lk_world lk) = Some (Inr (SERVER_OK, mem_store ?M 0 (rpc_packet ?ts'), w'))"
    using exec_close [of ?M 0 fd sv "lk_world lk"] holds_store px by simp
  note ex = exchange [OF _ assms(1) this, of k m]
  have "remotefs_close_read_response M 0 = Some (ELUARPC_OK, [OInt r])" if "holds M 0 (rpc_packet ?ts')" for M
    using read_holds [of "''ri''", OF _ that] by (simp add: remotefs_close_read_response_def fmt_simps)
  then show ?thesis using ex holds_store
    by (simp add: rfsc_close_def req fits_packet_def length_rpc_packet idle_def)
qed


subsection \<open>Chunked transfers\<close>

text \<open>
  What the chunk loops of \<^verbatim>\<open>elua_rfs.c\<close> need of the client: a write of a chunk is complete, a
  read returns what is left, up to the chunk.
\<close>

locale chunk_sink =
  fixes wr :: "u8 list \<Rightarrow> u32 \<Rightarrow> 's \<Rightarrow> (u32 \<times> 's) option"
    and ok :: "'s \<Rightarrow> bool"
    and stored :: "'s \<Rightarrow> u8 list"
    and real :: u32
  assumes real_range: "0 < unat real" "unat real < 2 ^ 31"
    and wr_full: "ok s \<Longrightarrow> 0 < unat n \<Longrightarrow> unat n \<le> unat real \<Longrightarrow> unat n \<le> length p \<Longrightarrow>
      \<exists>s'. wr p n s = Some (n, s') \<and> ok s' \<and> stored s' = stored s @ take (unat n) p"
begin

lemma loop_stores:
  "ok s \<Longrightarrow> unat len \<le> length p \<Longrightarrow>
   \<exists>s'. rfs_write_loop real wr p len tot s = Some (tot + len, s') \<and> ok s' \<and>
     stored s' = stored s @ take (unat len) p"
proof (induction "unat len" arbitrary: len p tot s rule: less_induct)
  case less
  show ?case
  proof (cases "len = 0")
    case True
    then show ?thesis using less.prems by (simp add: rfs_write_loop.simps [of real wr p 0])
  next
    case False
    define n where "n = (if len > real then real else len)"
    have pos: "0 < unat n" using False real_range(1) by (auto simp: n_def unat_gt_0)
    have le: "unat n \<le> unat real" "unat n \<le> unat len"
      by (auto simp: n_def word_le_nat_alt word_less_nat_alt)
    obtain s' where s': "wr p n s = Some (n, s')" "ok s'" "stored s' = stored s @ take (unat n) p"
      using wr_full [OF less.prems(1) pos le(1), of p] le less.prems(2) by auto
    have "n \<noteq> -1"
    proof
      assume "n = -1"
      then have "unat n = 2 ^ 32 - 1" by (simp only: unat_minus_one_u32) simp
      with le(1) real_range(2) show False by simp
    qed
    then have step: "rfs_write_loop real wr p len tot s =
        rfs_write_loop real wr (drop (unat n) p) (len - n) (tot + n) s'"
      using False s'(1) by (subst rfs_write_loop.simps) (simp add: n_def [symmetric] Let_def)
    have sub: "unat (len - n) = unat len - unat n"
      using le(2) by (simp add: unat_sub word_le_nat_alt)
    have "unat (len - n) < unat len" "unat (len - n) \<le> length (drop (unat n) p)"
      using sub pos le(2) less.prems(2) by simp_all
    then obtain s2 where s2: "rfs_write_loop real wr (drop (unat n) p) (len - n) (tot + n) s' = Some (tot + n + (len - n), s2)"
      "ok s2" "stored s2 = stored s' @ take (unat (len - n)) (drop (unat n) p)"
      using less.hyps [of "len - n" s' "drop (unat n) p" "tot + n"] s'(2) by blast
    have "take (unat n) p @ take (unat len - unat n) (drop (unat n) p) = take (unat len) p"
      using le(2) by (metis le_add_diff_inverse take_add)
    then show ?thesis using step s2 s'(3) sub by simp
  qed
qed

end

locale chunk_source =
  fixes rdf :: "u32 \<Rightarrow> 's \<Rightarrow> ((u32 \<times> u8 list) \<times> 's) option"
    and ok :: "'s \<Rightarrow> bool"
    and left :: "'s \<Rightarrow> u8 list"
    and real :: u32
  assumes real_range: "0 < unat real" "unat real < 2 ^ 31"
    and rd_next: "ok s \<Longrightarrow> 0 < unat n \<Longrightarrow> unat n \<le> unat real \<Longrightarrow>
      \<exists>s'. rdf n s = Some ((of_nat (length (take (unat n) (left s))), take (unat n) (left s)), s') \<and>
        ok s' \<and> left s' = drop (unat n) (left s)"
begin

lemma loop_reads:
  "ok s \<Longrightarrow> p + unat len \<le> length dst \<Longrightarrow>
   \<exists>s'. rfs_read_loop real rdf dst p len tot s =
      Some ((tot + of_nat (length (take (unat len) (left s))), overwrite dst p (take (unat len) (left s))), s') \<and>
     ok s' \<and> left s' = drop (unat len) (left s)"
proof (induction "unat len" arbitrary: len p dst tot s rule: less_induct)
  case less
  show ?case
  proof (cases "len = 0")
    case True
    then show ?thesis using less.prems by (simp add: rfs_read_loop.simps [of real rdf dst p 0])
  next
    case False
    define n where "n = (if len > real then real else len)"
    have pos: "0 < unat n" using False real_range(1) by (auto simp: n_def unat_gt_0)
    have le: "unat n \<le> unat real" "unat n \<le> unat len"
      by (auto simp: n_def word_le_nat_alt word_less_nat_alt)
    define b where "b = take (unat n) (left s)"
    obtain s' where s': "rdf n s = Some ((of_nat (length b), b), s')" "ok s'" "left s' = drop (unat n) (left s)"
      using rd_next [OF less.prems(1) pos le(1)] b_def by blast
    have bn: "length b \<le> unat n" by (simp add: b_def)
    then have ub: "unat (of_nat (length b) :: u32) = length b"
      using le real_range(2) by (intro unat_of_nat_u32) simp
    have m1: "of_nat (length b) \<noteq> (-1 :: u32)"
    proof
      assume "of_nat (length b) = (-1 :: u32)"
      then have "unat (of_nat (length b) :: u32) = 2 ^ 32 - 1" by (simp only: unat_minus_one_u32) simp
      with ub bn le(1) real_range(2) show False by simp
    qed
    have lt: "(of_nat (length b) < n) = (length b < unat n)" using ub by (simp add: word_less_nat_alt)
    show ?thesis
    proof (cases "length b < unat n")
      case True
      then have all: "b = left s" "length (left s) < unat n" "length (left s) \<le> unat len"
        using le by (auto simp: b_def)
      then have "rfs_read_loop real rdf dst p len tot s = Some ((tot + of_nat (length b), overwrite dst p b), s')"
        using False s'(1) m1 True lt by (subst rfs_read_loop.simps) (simp add: n_def [symmetric] Let_def)
      then show ?thesis using s' all le by simp
    next
      case False2: False
      then have lb: "length b = unat n" using bn by simp
      have step: "rfs_read_loop real rdf dst p len tot s =
          rfs_read_loop real rdf (overwrite dst p b) (p + unat n) (len - n) (tot + of_nat (length b)) s'"
        using False s'(1) m1 False2 lt by (subst rfs_read_loop.simps) (simp add: n_def [symmetric] Let_def)
      have sub: "unat (len - n) = unat len - unat n"
        using le(2) by (simp add: unat_sub word_le_nat_alt)
      have fit: "p + length b \<le> length dst" using lb le(2) less.prems(2) by simp
      define c where "c = take (unat len - unat n) (drop (unat n) (left s))"
      obtain s2 where s2: "rfs_read_loop real rdf (overwrite dst p b) (p + unat n) (len - n) (tot + of_nat (length b)) s' =
          Some ((tot + of_nat (length b) + of_nat (length c), overwrite (overwrite dst p b) (p + unat n) c), s2)"
        "ok s2" "left s2 = drop (unat (len - n)) (left s')"
        using less.hyps [of "len - n" s' "p + unat n" "overwrite dst p b" "tot + of_nat (length b)"]
          sub pos le s' less.prems(2) fit by (auto simp: c_def)
      have bc: "b @ c = take (unat len) (left s)"
        unfolding b_def c_def using le(2) by (metis le_add_diff_inverse take_add)
      have "length c \<le> unat len - unat n" by (simp add: c_def)
      then have "overwrite (overwrite dst p b) (p + length b) c = overwrite dst p (b @ c)"
        using fit lb le(2) less.prems(2)
        by (intro nth_equalityI) (auto simp: nth_overwrite nth_append)
      moreover have "drop (unat len - unat n) (drop (unat n) (left s)) = drop (unat len) (left s)"
        using le(2) by simp
      ultimately show ?thesis using step s2 sub s'(3) lb bc [symmetric] by (simp add: add.assoc)
    qed
  qed
qed

end

subsection \<open>Properties\<close>

lemma real_size:
  assumes "5 \<le> lsize" "lsize \<le> 15"
  shows "unat (RFS_REAL_BUFFER_SIZE lsize) = 2 ^ lsize - 29" "(29 :: nat) < 2 ^ lsize" "(2 :: nat) ^ lsize \<le> 32768"
proof -
  have "(2 :: nat) ^ 5 \<le> 2 ^ lsize" by (rule power_increasing) (use assms in simp_all)
  moreover have "(2 :: nat) ^ lsize \<le> 2 ^ 15" by (rule power_increasing) (use assms in simp_all)
  ultimately have a: "(32 :: nat) \<le> 2 ^ lsize" "(2 :: nat) ^ lsize \<le> 32768" by simp_all
  then show "(29 :: nat) < 2 ^ lsize" "(2 :: nat) ^ lsize \<le> 32768" by simp_all
  have "RFS_REAL_BUFFER_SIZE lsize = of_nat (2 ^ lsize - 29)"
    using a by (simp add: RFS_REAL_BUFFER_SIZE_def of_nat_diff)
  moreover have "unat (of_nat (2 ^ lsize - 29) :: u32) = 2 ^ lsize - 29"
    using a by (intro unat_of_nat_u32) simp
  ultimately show "unat (RFS_REAL_BUFFER_SIZE lsize) = 2 ^ lsize - 29" by simp
qed

definition link_idle :: "mem \<times> 'w rfs_link \<Rightarrow> bool" where
  "link_idle s \<longleftrightarrow> lk_pend (snd s) = []"

text \<open>A server file system in which file \<open>fd\<close> is written at its end and read from its front.\<close>

definition stream_file :: "'w posix \<Rightarrow> u32 \<Rightarrow> ('w \<Rightarrow> u8 list) \<Rightarrow> ('w \<Rightarrow> u8 list) \<Rightarrow> bool" where
  "stream_file px fd written unread \<longleftrightarrow>
     (\<forall>bs w. fst (px_write px fd bs w) = of_nat (length bs) \<and> written (snd (px_write px fd bs w)) = written w @ bs) \<and>
     (\<forall>n w. fst (px_read px fd n w) = (of_nat (length (take (unat n) (unread w))), take (unat n) (unread w)) \<and>
        unread (snd (px_read px fd n w)) = drop (unat n) (unread w))"

lemma chunk_sink_link:
  assumes "stream_file (server_os sv) fd written unread" "5 \<le> lsize" "lsize \<le> 15"
  shows "chunk_sink (\<lambda>p n. rfsc_write False (link_client k sv) fd p n) link_idle
    (\<lambda>s. written (lk_world (snd s))) (RFS_REAL_BUFFER_SIZE lsize)"
proof unfold_locales
  show "0 < unat (RFS_REAL_BUFFER_SIZE lsize)" "unat (RFS_REAL_BUFFER_SIZE lsize) < 2 ^ 31"
    using real_size [OF assms(2,3)] by simp_all
  fix s :: "mem \<times> 'a rfs_link" and n :: u32 and p :: "u8 list"
  assume ok: "link_idle s" and n: "unat n \<le> unat (RFS_REAL_BUFFER_SIZE lsize)" "unat n \<le> length p"
  obtain m lk where s: "s = (m, lk)" by (cases s)
  obtain r w' where px: "px_write (server_os sv) fd (take (unat n) p) (lk_world lk) = (r, w')" by fastforce
  then have r: "r = n" "written w' = written (lk_world lk) @ take (unat n) p"
  proof -
    have "r = of_nat (length (take (unat n) p))" "written w' = written (lk_world lk) @ take (unat n) p"
      using assms(1) px unfolding stream_file_def by (metis fst_conv, metis snd_conv)
    then show "r = n" "written w' = written (lk_world lk) @ take (unat n) p"
      using n(2) by simp_all
  qed
  have "lk_pend lk = []" "unat n + 29 < 65536"
    using ok n(1) real_size [OF assms(2,3)] s by (simp_all add: link_idle_def)
  then obtain m2 sm where "rfsc_write False (link_client k sv) fd p n (m, lk) = Some (r, m2, idle lk w' sm)"
    using rfsc_write_link [OF _ n(2) _ px, of k m] by blast
  then show "\<exists>s'. rfsc_write False (link_client k sv) fd p n s = Some (n, s') \<and> link_idle s' \<and>
      written (lk_world (snd s')) = written (lk_world (snd s)) @ take (unat n) p"
    using r s by (simp add: link_idle_def idle_def)
qed

lemma chunk_source_link:
  assumes "stream_file (server_os sv) fd written unread" "5 \<le> lsize" "lsize \<le> 15"
  shows "chunk_source (\<lambda>n. rfsc_read False (link_client k sv) fd n) link_idle
    (\<lambda>s. unread (lk_world (snd s))) (RFS_REAL_BUFFER_SIZE lsize)"
proof unfold_locales
  show "0 < unat (RFS_REAL_BUFFER_SIZE lsize)" "unat (RFS_REAL_BUFFER_SIZE lsize) < 2 ^ 31"
    using real_size [OF assms(2,3)] by simp_all
  fix s :: "mem \<times> 'a rfs_link" and n :: u32
  assume ok: "link_idle s" and n: "unat n \<le> unat (RFS_REAL_BUFFER_SIZE lsize)"
  obtain m lk where s: "s = (m, lk)" by (cases s)
  define b where "b = take (unat n) (unread (lk_world lk))"
  obtain w' where px: "px_read (server_os sv) fd n (lk_world lk) = ((of_nat (length b), b), w')"
    and w': "unread w' = drop (unat n) (unread (lk_world lk))"
    using assms(1) unfolding stream_file_def b_def by (metis prod.collapse)
  have "length b + 23 < 65536" using n real_size [OF assms(2,3)] by (simp add: b_def)
  then obtain m2 sm where "rfsc_read False (link_client k sv) fd n (m, lk) =
      Some ((of_nat (length b), b), m2, idle lk w' sm)"
    using rfsc_read_link [OF _ _ px, of k m] ok s by (auto simp: link_idle_def)
  then show "\<exists>s'. rfsc_read False (link_client k sv) fd n s =
      Some ((of_nat (length (take (unat n) (unread (lk_world (snd s))))), take (unat n) (unread (lk_world (snd s)))), s') \<and>
      link_idle s' \<and> unread (lk_world (snd s')) = drop (unat n) (unread (lk_world (snd s)))"
    using w' s by (simp add: link_idle_def idle_def b_def [symmetric])
qed


definition demo_consts :: sys_consts where
  "demo_consts = \<lparr>O_APPEND = 8, O_CREAT = 0x200, O_EXCL = 0x800, O_TRUNC = 0x400, O_SYNC = 0x2000,
     O_RDONLY = 0, O_WRONLY = 1, O_RDWR = 2, SEEK_SET = 0, SEEK_CUR = 1, SEEK_END = 2\<rparr>"

text \<open>A server with one file, for the witnesses.\<close>

definition one_file :: "(u8 list \<times> u8 list) posix" where
  "one_file = \<lparr>px_open = (\<lambda>name flags w. (3, w)),
     px_write = (\<lambda>fd bs w. (of_nat (length bs), (fst w @ bs, snd w))),
     px_read = (\<lambda>fd n w. ((of_nat (length (take (unat n) (snd w))), take (unat n) (snd w)), (fst w, drop (unat n) (snd w)))),
     px_close = (\<lambda>fd w. (0, w)), px_lseek = (\<lambda>fd off wh w. (0, w)), px_opendir = (\<lambda>name w. (1, w)),
     px_readdir = (\<lambda>d w. (None, w)), px_closedir = (\<lambda>d w. (0, w))\<rparr>"

definition demo_server :: "(u8 list \<times> u8 list) rfs_server" where
  "demo_server = \<lparr>server_basedir = [0x2F, 0x74], server_os = one_file, server_consts = demo_consts\<rparr>"

lemma one_file_stream: "stream_file (server_os demo_server) fd fst snd"
  by (simp add: stream_file_def demo_server_def one_file_def)

interpretation demo_sink: chunk_sink "\<lambda>p n. rfsc_write False (link_client demo_consts demo_server) 3 p n"
  link_idle "\<lambda>s. fst (lk_world (snd s))" "RFS_REAL_BUFFER_SIZE 9"
  by (rule chunk_sink_link [OF one_file_stream]) simp_all

interpretation demo_source: chunk_source "\<lambda>n. rfsc_read False (link_client demo_consts demo_server) 3 n"
  link_idle "\<lambda>s. snd (lk_world (snd s))" "RFS_REAL_BUFFER_SIZE 9"
  by (rule chunk_source_link [OF one_file_stream]) simp_all












text \<open>The drain loop breaks the request it precedes: it reads stale bytes into the packet buffer
  after the request has been built there, so a single stale byte other than the header tag
  makes the exchange fail without anything being sent.\<close>

theorem rfs_stale_byte_breaks_request:
  assumes "rfsc_recv cl 1 0 t0 = ([b], t1)" "rfsc_recv cl 1 0 t1 = ([], t2)" "b \<noteq> TYPE_PKT_SIZE"
  shows "\<exists>m'. rfsch_send_request_read_response True cl (m, t0) = Some (CLIENT_ERR, m', t2)"
proof -
  have "rfsc_drain cl m t0 = Some (mem_store m (rfsc_buffer cl) [b], t2)"
    using assms(1,2) by (simp add: rfsc_drain.simps [of cl m t0] rfsc_drain.simps [of cl _ t1])
  moreover have "fst (eluarpc_get_packet_size (mem_store m (rfsc_buffer cl) [b]) (rfsc_buffer cl)) = ELUARPC_ERR"
  proof -
    have "mem_store m (rfsc_buffer cl) [b] (rfsc_buffer cl) = b" by (simp add: mem_store_def)
    then show ?thesis using assms(3)
      by (auto simp: eluarpc_get_packet_size_def read_expect_eq eluarpc_read_u16_def eluarpc_status_def)
  qed
  ultimately show ?thesis
    by (auto simp: rfsch_send_request_read_response_def split: prod.split)
qed

theorem rfs_stale_byte_breaks_request_witness:
  "\<exists>m'. rfsch_send_request_read_response True
     (rfsc_setup demo_consts 0 (\<lambda>bs t. (of_nat (length bs), t)) (\<lambda>n to t. (take (unat n) t, drop (unat n) t)) 10)
     ((\<lambda>_. 0), [0x55]) = Some (CLIENT_ERR, m', [])"
  by (rule rfs_stale_byte_breaks_request [where b = "0x55" and ?t1.0 = "[]"]) (simp_all add: rfsc_setup_def)

text \<open>A failing read runs off the server's buffer: when the POSIX read reports -1, the handler
  passes that number on as a block length, so the end of the response is written 4 GB behind the
  packet, and the header announces a packet that is 22 bytes long, modulo 65536.\<close>

theorem server_read_error_overruns:
  assumes "holds m p (rpc_packet [TOp RFS_OP_READ, TInt32 fd, TInt32 n])"
    and "px_read (server_os sv) fd n w = ((-1, []), w')"
  shows "\<exists>m'. server_execute_request sv p m w = Some (Inr (SERVER_OK, m', w')) \<and>
    m' (p + 17 + 4294967295) = TYPE_END \<and> eluarpc_get_packet_size m' p = (ELUARPC_OK, 22)"
proof -
  let ?R = "remotefs_read_write_response (mem_store m (p + 17) []) p (-1)"
  define L where "L = mem_load (fst (wr_puts (TYPE_PTR # enc_u32 (-1)) (emit (ELUARPC_OP_RES_MOD OR RFS_OP_READ) (eluarpc_start_packet (m, p))))) (p + 17) 4294967295"
  have exec: "server_execute_request sv p m w = Some (Inr (SERVER_OK, ?R, w'))"
    using read_holds [of "''oil''", OF _ assms(1)] assms(2)
    by (simp add: remotefs_read_read_request_def fmt_simps server_execute_request_def request_id_ok [OF assms(1)]
      server_read_def os_read_def)
  have L: "length L = 4294967295" by (simp add: L_def)
  have "wr_puts (TYPE_PTR # enc_u32 (-1)) (emit (ELUARPC_OP_RES_MOD OR RFS_OP_READ) (eluarpc_start_packet (m, p))) =
      (fst (wr_puts (TYPE_PTR # enc_u32 (-1)) (emit (ELUARPC_OP_RES_MOD OR RFS_OP_READ) (eluarpc_start_packet (m, p)))), p + 17)"
    by (simp add: eluarpc_start_packet_def emit_puts write_puts) (simp add: wr_puts_def)
  then have blk: "emit_block None 4294967295 (wr_puts (TYPE_PTR # enc_u32 (-1)) (emit (ELUARPC_OP_RES_MOD OR RFS_OP_READ) (eluarpc_start_packet (m, p)))) =
      emit_block (Some L) 4294967295 (wr_puts (TYPE_PTR # enc_u32 (-1)) (emit (ELUARPC_OP_RES_MOD OR RFS_OP_READ) (eluarpc_start_packet (m, p))))"
    unfolding L_def by (metis emit_block_in_place)
  have "?R = rpc_put m p ''rp'' [OpId RFS_OP_READ, APtr (Some L) (-1)]"
    using blk by (simp add: remotefs_read_write_response_def rpc_put_def eluarpc_gen_write_def eluarpc_write_item_def
        eluarpc_write_ptr_def unat_minus_one_u32 write_puts emit_puts)
  also have "\<dots> = mem_store m p (rpc_packet [TRes RFS_OP_READ, TBlock L])"
    using L by (intro rpc_put_eq) (simp add: fmt_simps arg_tok_simps unat_minus_one_u32)
  finally have R: "?R = mem_store m p (rpc_packet [TRes RFS_OP_READ, TBlock L])" .
  have h: "holds ?R p (rpc_packet [TRes RFS_OP_READ, TBlock L])" unfolding R by (rule holds_store)
  have "holds ?R (p + 17 + length L) [TYPE_END]"
    using packet_body [OF h] unfolding rpc_body_def by (simp add: add.assoc add.commute)
  moreover have "eluarpc_get_packet_size ?R p = (ELUARPC_OK, 22)"
    using packet_size_ok [OF h] L by (simp add: length_rpc_packet)
  ultimately show ?thesis using exec L by auto
qed

theorem server_read_error_overruns_witness:
  "\<exists>m'. server_execute_request (demo_server\<lparr>server_os := one_file\<lparr>px_read := \<lambda>fd n w. ((-1, []), w)\<rparr>\<rparr>) 0
     (mem_store (\<lambda>_. 0) 0 (rpc_packet [TOp RFS_OP_READ, TInt32 9, TInt32 4])) ([], []) = Some (Inr (SERVER_OK, m', ([], []))) \<and>
    m' 4294967312 = TYPE_END"
  using server_read_error_overruns [OF holds_store [of "\<lambda>_. 0" 0], where sv = "demo_server\<lparr>server_os := one_file\<lparr>px_read := \<lambda>fd n w. ((-1, []), w)\<rparr>\<rparr>"
      and fd = 9 and n = 4 and w = "([], [])" and w' = "([], [])"]
  by auto

text \<open>Closing a remote directory loses the result: whatever \<^verbatim>\<open>closedir\<close> reports, the response
  carries the directory handle of the request instead.\<close>

theorem server_closedir_echoes_handle:
  assumes "holds m p (rpc_packet [TOp RFS_OP_CLOSEDIR, TInt32 d])" "px_closedir (server_os sv) d w = (r, w')"
  shows "server_execute_request sv p m w =
    Some (Inr (SERVER_OK, mem_store m p (rpc_packet [TRes RFS_OP_CLOSEDIR, TInt32 d]), w'))"
  using read_holds [of "''ol''", OF _ assms(1)] assms(2)
  by (simp add: remotefs_closedir_read_request_def fmt_simps server_execute_request_def request_id_ok [OF assms(1)]
      server_closedir_def os_closedir_def remotefs_closedir_write_response_def rpc_put_eq arg_tok_simps)

theorem server_closedir_echoes_handle_witness:
  "server_execute_request demo_server 0 (mem_store (\<lambda>_. 0) 0 (rpc_packet [TOp RFS_OP_CLOSEDIR, TInt32 77])) ([], []) =
    Some (Inr (SERVER_OK, mem_store (mem_store (\<lambda>_. 0) 0 (rpc_packet [TOp RFS_OP_CLOSEDIR, TInt32 77])) 0
      (rpc_packet [TRes RFS_OP_CLOSEDIR, TInt32 77]), ([], [])))"
  by (rule server_closedir_echoes_handle [OF holds_store, where r = 0])
    (simp add: demo_server_def one_file_def)

end
