(* ===== verification/Elua_Int.thy ===== *)
theory Elua_Int
  imports Fifo_Interface
begin

text \<open>
  The interrupt queue between the C interrupt handlers and the Lua machine,
  \<^verbatim>\<open>src/elua_int.c\<close>: a ring of (source, resource) slots in which source 0 marks a free slot,
  one enable bit per source, and the Lua hook that is installed while the queue is not empty.
  The table of C handlers of the same file is modelled too. The theory shows that the ring is a
  list queue, that enabling and disabling a source touches only that source, and, for every
  interleaving of interrupts with the two halves of the hook, that accepted interrupts are
  handed to Lua in order, each exactly once.

  \<open>int_log\<close> is \<^verbatim>\<open>PLATFORM_INT_QUEUE_LOG_SIZE\<close> and \<open>int_last\<close> is \<^verbatim>\<open>INT_ELUA_LAST\<close> of the platform;
  the model is meant for at most 256 slots, which the byte-sized indexes can address.
\<close>

abbreviation ELUA_INT_EMPTY_SLOT :: u8 where "ELUA_INT_EMPTY_SLOT \<equiv> 0"
abbreviation ELUA_INT_FIRST_ID :: u8 where "ELUA_INT_FIRST_ID \<equiv> 1"
abbreviation LUA_INT_MAX_SOURCES :: nat where "LUA_INT_MAX_SOURCES \<equiv> 128"

type_synonym int_element = "u8 \<times> u16"

record int_sys =
  int_log :: nat
  int_last :: u8
  int_read_idx :: u8
  int_write_idx :: u8
  int_queue :: "int_element list"
  int_flags :: "u32 list"
  lua_running :: bool
  lua_hook :: bool

subsection \<open>The functions of the file\<close>

definition INT_IDX_MASK :: "int_sys \<Rightarrow> nat" where
  "INT_IDX_MASK s = 2 ^ int_log s - 1"

definition int_idx_next :: "int_sys \<Rightarrow> u8 \<Rightarrow> u8" where
  "int_idx_next s i = of_nat ((unat i + 1) AND INT_IDX_MASK s)"

definition elua_int_enable :: "u8 \<Rightarrow> int_sys \<Rightarrow> int_sys" where
  "elua_int_enable inttype s =
     (if unat inttype < LUA_INT_MAX_SOURCES
      then let i = unat (drop_bit 5 inttype)
           in s\<lparr>int_flags := (int_flags s)[i := int_flags s ! i OR push_bit (unat (inttype AND 0x1F)) 1]\<rparr>
      else s)"

definition elua_int_disable :: "u8 \<Rightarrow> int_sys \<Rightarrow> int_sys" where
  "elua_int_disable inttype s =
     (if unat inttype < LUA_INT_MAX_SOURCES
      then let i = unat (drop_bit 5 inttype)
           in s\<lparr>int_flags := (int_flags s)[i := int_flags s ! i AND NOT (push_bit (unat (inttype AND 0x1F)) 1)]\<rparr>
      else s)"

definition elua_int_is_enabled :: "u8 \<Rightarrow> int_sys \<Rightarrow> bool" where
  "elua_int_is_enabled inttype s =
     (if unat inttype < LUA_INT_MAX_SOURCES
      then int_flags s ! unat (drop_bit 5 inttype) AND push_bit (unat (inttype AND 0x1F)) 1 \<noteq> 0
      else False)"

definition elua_int_disable_all :: "int_sys \<Rightarrow> int_sys" where
  "elua_int_disable_all s = s\<lparr>int_flags := map (\<lambda>_. 0) (int_flags s)\<rparr>"

definition elua_int_cleanup :: "int_sys \<Rightarrow> int_sys" where
  "elua_int_cleanup s = (elua_int_disable_all s)\<lparr>int_read_idx := 0, int_write_idx := 0,
     int_queue := map (\<lambda>_. (ELUA_INT_EMPTY_SLOT, 0)) (int_queue s)\<rparr>"

definition elua_int_add :: "u8 \<Rightarrow> u16 \<Rightarrow> int_sys \<Rightarrow> int \<times> int_sys" where
  "elua_int_add inttype resnum s =
     (if inttype < ELUA_INT_FIRST_ID \<or> inttype > int_last s then (PLATFORM_ERR, s)
      else if \<not> lua_running s \<or> \<not> elua_int_is_enabled inttype s then (PLATFORM_ERR, s)
      else if fst (int_queue s ! unat (int_write_idx s)) \<noteq> ELUA_INT_EMPTY_SLOT then (PLATFORM_ERR, s)
      else (PLATFORM_OK,
        s\<lparr>int_queue := (int_queue s)[unat (int_write_idx s) := (inttype, resnum)],
          int_write_idx := int_idx_next s (int_write_idx s),
          lua_hook := True\<rparr>))"

text \<open>
  The hook in its two halves: taking an element and calling the Lua handler (which gets the
  resource number, if there is one and the source is still enabled), then, with interrupts off,
  removing the hook if the queue has become empty.
\<close>

definition elua_int_hook_take :: "int_sys \<Rightarrow> int_element \<times> int_sys" where
  "elua_int_hook_take s =
     (let crt = int_queue s ! unat (int_read_idx s)
      in (crt, s\<lparr>int_queue := (int_queue s)[unat (int_read_idx s) := (ELUA_INT_EMPTY_SLOT, snd crt)],
                int_read_idx := int_idx_next s (int_read_idx s)\<rparr>))"

definition elua_int_hook_call :: "(u8 \<Rightarrow> bool) \<Rightarrow> int_element \<Rightarrow> int_sys \<Rightarrow> u16 option" where
  "elua_int_hook_call has_handler crt s =
     (if elua_int_is_enabled (fst crt) s \<and> has_handler (fst crt) then Some (snd crt) else None)"

definition elua_int_hook_end :: "int_sys \<Rightarrow> int_sys" where
  "elua_int_hook_end s =
     (if fst (int_queue s ! unat (int_read_idx s)) = ELUA_INT_EMPTY_SLOT then s\<lparr>lua_hook := False\<rparr> else s)"

definition elua_int_hook :: "(u8 \<Rightarrow> bool) \<Rightarrow> int_sys \<Rightarrow> u16 option \<times> int_sys" where
  "elua_int_hook has_handler s =
     (case elua_int_hook_take s of (crt, s1) \<Rightarrow>
        (elua_int_hook_call has_handler crt s1, elua_int_hook_end s1))"

text \<open>The C handlers: a table of \<open>int_last\<close> entries, a handler being an address, 0 none.\<close>

definition elua_int_set_c_handler :: "u8 \<Rightarrow> u8 \<Rightarrow> u32 \<Rightarrow> u32 list \<Rightarrow> u32 \<times> u32 list" where
  "elua_int_set_c_handler lastid inttype phandler tab =
     (if inttype < ELUA_INT_FIRST_ID \<or> inttype > lastid then (0, tab)
      else let i = unat (inttype - ELUA_INT_FIRST_ID) in (tab ! i, tab[i := phandler]))"

definition elua_int_get_c_handler :: "u8 \<Rightarrow> u8 \<Rightarrow> u32 list \<Rightarrow> u32" where
  "elua_int_get_c_handler lastid inttype tab =
     (if inttype < ELUA_INT_FIRST_ID \<or> inttype > lastid then 0
      else tab ! unat (inttype - ELUA_INT_FIRST_ID))"

lemma c_handler_set_get:
  assumes "length tab = unat lastid" "1 \<le> i" "i \<le> lastid" "1 \<le> j" "j \<le> lastid"
  shows "elua_int_get_c_handler lastid j (snd (elua_int_set_c_handler lastid i h tab)) =
      (if i = j then h else elua_int_get_c_handler lastid j tab)"
    and "fst (elua_int_set_c_handler lastid i h tab) = elua_int_get_c_handler lastid i tab"
proof -
  have i: "unat (i - 1) = unat i - 1" "unat (j - 1) = unat j - 1"
    using assms by (auto simp: unat_sub)
  have nz: "0 < unat i" "0 < unat j" "unat i \<le> unat lastid"
    using assms by (auto simp: word_le_nat_alt)
  then show "elua_int_get_c_handler lastid j (snd (elua_int_set_c_handler lastid i h tab)) =
      (if i = j then h else elua_int_get_c_handler lastid j tab)"
    using assms i by (auto simp: elua_int_get_c_handler_def elua_int_set_c_handler_def Let_def nth_list_update
        word_less_nat_alt not_less word_eq_iff_unsigned [where 'a = nat])
  show "fst (elua_int_set_c_handler lastid i h tab) = elua_int_get_c_handler lastid i tab"
    by (simp add: elua_int_get_c_handler_def elua_int_set_c_handler_def Let_def)
qed

subsection \<open>The ring\<close>

definition int_cap :: "int_sys \<Rightarrow> nat" where
  "int_cap s = 2 ^ int_log s"

definition int_count :: "int_sys \<Rightarrow> nat" where
  "int_count s =
     (if fst (int_queue s ! unat (int_read_idx s)) = ELUA_INT_EMPTY_SLOT then 0
      else if int_read_idx s = int_write_idx s then int_cap s
      else (unat (int_write_idx s) + int_cap s - unat (int_read_idx s)) mod int_cap s)"

definition int_slot :: "int_sys \<Rightarrow> nat \<Rightarrow> int_element" where
  "int_slot s i = int_queue s ! ((unat (int_read_idx s) + i) mod int_cap s)"

definition int_contents :: "int_sys \<Rightarrow> int_element list" where
  "int_contents s = map (int_slot s) [0..<int_count s]"

text \<open>The used slots are the \<open>k\<close> slots from the read index on, the write index follows them.\<close>

definition int_ring :: "int_sys \<Rightarrow> nat \<Rightarrow> bool" where
  "int_ring s k \<longleftrightarrow> int_log s \<le> 8 \<and> length (int_queue s) = int_cap s \<and>
     unat (int_read_idx s) < int_cap s \<and> k \<le> int_cap s \<and>
     unat (int_write_idx s) = (unat (int_read_idx s) + k) mod int_cap s \<and>
     (\<forall>i < int_cap s. fst (int_slot s i) = ELUA_INT_EMPTY_SLOT \<longleftrightarrow> k \<le> i)"

definition int_good :: "int_sys \<Rightarrow> bool" where
  "int_good s \<longleftrightarrow> length (int_flags s) = 4 \<and> int_ring s (int_count s)"

lemma int_cap_pos: "0 < int_cap s"
  by (simp add: int_cap_def)

lemma int_cap_256: "int_log s \<le> 8 \<Longrightarrow> int_cap s \<le> 256"
  using power_increasing [of "int_log s" 8 "2 :: nat"] by (simp add: int_cap_def)

lemma int_idx_next_nat:
  "int_log s \<le> 8 \<Longrightarrow> unat (int_idx_next s i) = (unat i + 1) mod int_cap s"
  using unat_of_nat_u8 [of "Suc (unat i) mod int_cap s"]
    less_le_trans [OF mod_less_divisor [OF int_cap_pos [of s], of "Suc (unat i)"] int_cap_256 [of s]]
  by (simp add: int_idx_next_def INT_IDX_MASK_def int_cap_def nat_and_mask nat_and_mask_Suc)

lemma int_ring_count:
  assumes "int_ring s k"
  shows "int_count s = k"
proof (cases "k = 0")
  case True
  then have "fst (int_slot s 0) = ELUA_INT_EMPTY_SLOT" using assms int_cap_pos [of s] by (simp add: int_ring_def)
  then show ?thesis using True assms by (simp add: int_count_def int_slot_def int_ring_def)
next
  case False
  let ?r = "unat (int_read_idx s)" and ?w = "unat (int_write_idx s)" and ?N = "int_cap s"
  have r: "?r < ?N" "k \<le> ?N" "?w = (?r + k) mod ?N" using assms by (simp_all add: int_ring_def)
  have ne: "fst (int_queue s ! ?r) \<noteq> ELUA_INT_EMPTY_SLOT"
    using assms False int_cap_pos [of s] by (auto simp: int_ring_def int_slot_def dest: spec [of _ 0])
  show ?thesis
  proof (cases "k = ?N")
    case True
    then have "int_write_idx s = int_read_idx s" using r by (simp add: word_eq_iff_unsigned [where 'a = nat])
    then show ?thesis using ne True by (simp add: int_count_def)
  next
    case False2: False
    then have k: "0 < k" "k < ?N" using False r by auto
    have w: "?w = (if ?r + k < ?N then ?r + k else ?r + k - ?N)"
      using r k by (simp add: mod_less_twice)
    then have "?r \<noteq> ?w" using r(1) k by (simp split: if_splits)
    then have "int_read_idx s \<noteq> int_write_idx s" by auto
    moreover have "(?w + ?N - ?r) mod ?N = k"
    proof (cases "?r + k < ?N")
      case True
      then have "?w + ?N - ?r = k + ?N" using w by simp
      then show ?thesis using k by simp
    next
      case False
      then have "?w + ?N - ?r = k" using w r by simp
      then show ?thesis using k by simp
    qed
    ultimately have "(?w + ?N - ?r) mod ?N = k" "int_read_idx s \<noteq> int_write_idx s" by simp_all
    then show ?thesis using ne by (simp add: int_count_def)
  qed
qed

lemma int_good_iff: "int_good s \<longleftrightarrow> length (int_flags s) = 4 \<and> (\<exists>k. int_ring s k)"
  using int_ring_count by (auto simp: int_good_def)

lemma length_int_contents [simp]: "length (int_contents s) = int_count s"
  by (simp add: int_contents_def)

lemma int_slot_index_inj:
  "r < N \<Longrightarrow> i < N \<Longrightarrow> j < N \<Longrightarrow> ((r + i) mod N = (r + j) mod N) = (i = (j :: nat))"
  by (auto simp: mod_less_twice split: if_splits)

subsection \<open>Adding and taking\<close>

definition int_accepts :: "int_sys \<Rightarrow> int_element \<Rightarrow> bool" where
  "int_accepts s x \<longleftrightarrow> \<not> fst x < ELUA_INT_FIRST_ID \<and> fst x \<le> int_last s \<and> lua_running s \<and> elua_int_is_enabled (fst x) s"

definition int_queued :: "int_sys \<Rightarrow> int_element \<Rightarrow> int_sys" where
  "int_queued s x = s\<lparr>int_queue := (int_queue s)[unat (int_write_idx s) := x],
     int_write_idx := int_idx_next s (int_write_idx s), lua_hook := True\<rparr>"

lemma write_slot:
  assumes "int_ring s k" "k < int_cap s"
  shows "int_queue s ! unat (int_write_idx s) = int_slot s k"
  using assms by (simp add: int_ring_def int_slot_def)

lemma int_ring_queued:
  assumes "int_ring s k" "k < int_cap s" "fst x \<noteq> 0"
  shows "int_ring (int_queued s x) (k + 1)"
    and "i \<le> k \<Longrightarrow> int_slot (int_queued s x) i = (if i = k then x else int_slot s i)"
proof -
  let ?N = "int_cap s" and ?r = "unat (int_read_idx s)" and ?q = "int_queued s x"
  have r: "?r < ?N" "unat (int_write_idx s) = (?r + k) mod ?N" "length (int_queue s) = ?N" "int_log s \<le> 8"
    using assms(1) by (simp_all add: int_ring_def)
  have cap: "int_cap ?q = ?N" by (simp add: int_cap_def int_queued_def)
  have slot: "i < ?N \<Longrightarrow> int_slot ?q i = (if i = k then x else int_slot s i)" for i
    using r assms(2) int_slot_index_inj [of ?r ?N i k] int_cap_pos [of s]
    by (auto simp: int_slot_def cap nth_list_update) (simp_all add: int_queued_def nth_list_update)
  then show "i \<le> k \<Longrightarrow> int_slot ?q i = (if i = k then x else int_slot s i)" using assms(2) by simp
  have "unat (int_write_idx ?q) = (?r + (k + 1)) mod ?N"
    using int_idx_next_nat [OF r(4), of "int_write_idx s"] r(2) by (simp add: int_queued_def mod_Suc_eq)
  then show "int_ring ?q (k + 1)"
    using assms r slot unfolding int_ring_def cap
    by (auto simp: int_queued_def simp del: One_nat_def) 
qed

lemma int_contents_queued:
  assumes "int_ring s k" "k < int_cap s" "fst x \<noteq> 0"
  shows "int_contents (int_queued s x) = int_contents s @ [x]"
  using int_ring_queued(2) [OF assms] int_ring_count [OF assms(1)] int_ring_count [OF int_ring_queued(1) [OF assms]]
  by (simp add: int_contents_def)

lemma int_ring_taken:
  assumes "int_ring s (Suc k)" "elua_int_hook_take s = (x, t)"
  shows "x = int_slot s 0" "int_ring t k" "i < k \<Longrightarrow> int_slot t i = int_slot s (Suc i)"
proof -
  let ?N = "int_cap s" and ?r = "unat (int_read_idx s)"
  have r: "?r < ?N" "Suc k \<le> ?N" "unat (int_write_idx s) = (?r + Suc k) mod ?N" "length (int_queue s) = ?N" "int_log s \<le> 8"
    and used: "\<And>i. i < ?N \<Longrightarrow> fst (int_slot s i) = 0 \<longleftrightarrow> Suc k \<le> i"
    using assms(1) by (simp_all add: int_ring_def)
  have t: "t = s\<lparr>int_queue := (int_queue s)[?r := (0, snd x)], int_read_idx := int_idx_next s (int_read_idx s)\<rparr>"
    and x: "x = int_queue s ! ?r"
    using assms(2) by (auto simp: elua_int_hook_take_def Let_def)
  show "x = int_slot s 0" using x r by (simp add: int_slot_def)
  have cap: "int_cap t = ?N" by (simp add: t int_cap_def)
  have rd: "unat (int_read_idx t) = (?r + 1) mod ?N"
    using int_idx_next_nat [OF r(5), of "int_read_idx s"] by (simp add: t)
  have idx: "((?r + 1) mod ?N + i) mod ?N = (?r + Suc i) mod ?N" for i
    by (metis add.assoc add.commute mod_add_left_eq plus_1_eq_Suc)
  have slot: "i < ?N \<Longrightarrow> int_slot t i = (if i = ?N - 1 then (0, snd x) else int_slot s (Suc i))" for i
  proof -
    assume i: "i < ?N"
    show ?thesis
    proof (cases "i = ?N - 1")
      case True
      then have "(?r + Suc i) mod ?N = ?r" using r(1) i by simp
      then have "int_slot t i = int_queue t ! ?r" by (simp only: int_slot_def cap rd idx)
      then show ?thesis using True r by (simp add: t)
    next
      case False
      then have "Suc i < ?N" using i by simp
      then have "(?r + Suc i) mod ?N \<noteq> ?r" using int_slot_index_inj [of ?r ?N "Suc i" 0] r(1) by auto
      moreover have "int_slot t i = int_queue t ! ((?r + Suc i) mod ?N)" by (simp only: int_slot_def cap rd idx)
      ultimately have "int_slot t i = int_queue s ! ((?r + Suc i) mod ?N)" by (simp add: t)
      then show ?thesis using False by (simp add: int_slot_def)
    qed
  qed
  show "i < k \<Longrightarrow> int_slot t i = int_slot s (Suc i)" using slot [of i] r(2) by auto
  have wr: "unat (int_write_idx t) = (unat (int_read_idx t) + k) mod ?N"
    unfolding rd idx using r(3) by (simp add: t)
  show "int_ring t k"
    unfolding int_ring_def cap
  proof (intro conjI allI impI)
    fix i
    assume "i < ?N"
    then show "(fst (int_slot t i) = 0) = (k \<le> i)"
      using slot [of i] used [of "Suc i"] r(2) by (cases "i = ?N - 1") auto
  qed (use r wr rd int_cap_pos [of s] in \<open>auto simp: t\<close>)
qed

lemma int_contents_taken:
  assumes "int_ring s (Suc k)" "elua_int_hook_take s = (x, t)"
  shows "int_contents s = x # int_contents t"
proof -
  have "[0..<Suc k] = 0 # map Suc [0..<k]" by (simp add: map_Suc_upt upt_conv_Cons del: upt_Suc)
  then show ?thesis
    using int_ring_taken [OF assms] int_ring_count [OF assms(1)] int_ring_count [OF int_ring_taken(2) [OF assms]]
    by (simp add: int_contents_def del: upt_Suc)
qed

subsection \<open>The queue as a provider of the fifo contract\<close>

definition int_put :: "int_element \<Rightarrow> int_sys \<Rightarrow> int_sys option" where
  "int_put x s = (case elua_int_add (fst x) (snd x) s of (r, t) \<Rightarrow> if r = PLATFORM_OK then Some t else None)"

text \<open>The hook runs only while the queue has an element.\<close>

definition int_get :: "int_sys \<Rightarrow> (int_element \<times> int_sys) option" where
  "int_get s = (if int_count s = 0 then None else Some (elua_int_hook_take s))"

lemma int_ring_good: "int_good s \<Longrightarrow> int_ring s (int_count s)"
  by (simp add: int_good_def)

lemma int_add_eq:
  assumes "int_good s" "int_accepts s x"
  shows "elua_int_add (fst x) (snd x) s =
    (if int_count s < int_cap s then (PLATFORM_OK, int_queued s x) else (PLATFORM_ERR, s))"
proof -
  note ring = int_ring_good [OF assms(1)]
  have "fst (int_queue s ! unat (int_write_idx s)) = 0 \<longleftrightarrow> int_count s < int_cap s"
  proof (cases "int_count s < int_cap s")
    case True
    then show ?thesis using write_slot [OF ring] ring by (simp add: int_ring_def)
  next
    case False
    then have full: "int_count s = int_cap s" using ring by (simp add: int_ring_def)
    then have "unat (int_write_idx s) = unat (int_read_idx s)" using ring by (simp add: int_ring_def)
    moreover have "fst (int_slot s 0) \<noteq> 0" using ring full int_cap_pos [of s] by (auto simp: int_ring_def)
    ultimately show ?thesis using False ring by (simp add: int_slot_def int_ring_def)
  qed
  then show ?thesis using assms(2)
    by (auto simp: elua_int_add_def int_accepts_def int_queued_def not_less)
qed

lemma int_good_queued:
  assumes "int_good s" "int_accepts s x" "int_count s < int_cap s"
  shows "int_good (int_queued s x)" "int_contents (int_queued s x) = int_contents s @ [x]"
    "int_cap (int_queued s x) = int_cap s" "int_accepts (int_queued s x) = int_accepts s"
proof -
  have nz: "fst x \<noteq> 0" using assms(2) by (auto simp: int_accepts_def)
  note ring = int_ring_good [OF assms(1)]
  show "int_good (int_queued s x)"
    using int_ring_queued(1) [OF ring assms(3) nz] assms(1)
    by (auto simp: int_good_iff) (simp_all add: int_queued_def int_good_def)
  show "int_contents (int_queued s x) = int_contents s @ [x]"
    by (rule int_contents_queued [OF ring assms(3) nz])
qed (auto simp: int_queued_def int_cap_def int_accepts_def elua_int_is_enabled_def fun_eq_iff)

lemma int_good_taken:
  assumes "int_good s" "0 < int_count s" "elua_int_hook_take s = (x, t)"
  shows "int_good t" "int_contents s = x # int_contents t" "int_cap t = int_cap s" "int_accepts t = int_accepts s"
proof -
  obtain k where k: "int_count s = Suc k" using assms(2) gr0_implies_Suc by blast
  then have ring: "int_ring s (Suc k)" using int_ring_good [OF assms(1)] by simp
  show "int_contents s = x # int_contents t" by (rule int_contents_taken [OF ring assms(3)])
  show "int_good t"
    using int_ring_taken(2) [OF ring assms(3)] assms(1,3)
    by (auto simp: int_good_iff elua_int_hook_take_def Let_def)
qed (use assms(3) in \<open>auto simp: elua_int_hook_take_def Let_def int_cap_def int_accepts_def elua_int_is_enabled_def fun_eq_iff\<close>)

interpretation intq: fifo int_contents int_cap int_good int_accepts int_put int_get
proof unfold_locales
  fix s x
  assume *: "int_good s" "int_accepts s x" "length (int_contents s) < int_cap s"
  then show "\<exists>t. int_put x s = Some t \<and> int_good t \<and> int_contents t = int_contents s @ [x] \<and>
      int_cap t = int_cap s \<and> int_accepts t = int_accepts s"
    using int_good_queued [of s x] by (simp add: int_put_def int_add_eq)
next
  fix s
  assume "int_contents s = []"
  then have "int_count s = 0" using length_int_contents [of s] by simp
  then show "int_get s = None" by (simp add: int_get_def)
next
  fix s x xs
  assume *: "int_good s" "int_contents s = x # xs"
  then have n: "0 < int_count s" using length_int_contents [of s] by simp
  obtain y t where t: "elua_int_hook_take s = (y, t)" by fastforce
  show "\<exists>t. int_get s = Some (x, t) \<and> int_good t \<and> int_contents t = xs \<and>
      int_cap t = int_cap s \<and> int_accepts t = int_accepts s"
    using int_good_taken [OF *(1) n t] *(2) t n by (simp add: int_get_def)
qed

subsection \<open>Interrupts and the hook, interleaved\<close>

text \<open>
  The system state with the phase of the hook and two logs: the interrupts that were accepted
  and those the hook has taken. An interrupt may arrive at any moment, also between the two
  halves of the hook; the Lua machine runs the hook when it is installed and not running.
\<close>

datatype hook_phase = HookIdle | HookRunning

inductive int_step :: "int_sys \<times> hook_phase \<times> int_element list \<times> int_element list \<Rightarrow>
    int_sys \<times> hook_phase \<times> int_element list \<times> int_element list \<Rightarrow> bool" where
  step_irq: "elua_int_add (fst x) (snd x) s = (r, t) \<Longrightarrow>
     int_step (s, ph, acc, taken) (t, ph, (if r = PLATFORM_OK then acc @ [x] else acc), taken)"
| step_enable: "int_step (s, ph, acc, taken) (elua_int_enable i s, ph, acc, taken)"
| step_disable: "int_step (s, ph, acc, taken) (elua_int_disable i s, ph, acc, taken)"
| step_hook: "lua_hook s \<Longrightarrow> elua_int_hook_take s = (x, t) \<Longrightarrow>
     int_step (s, HookIdle, acc, taken) (t, HookRunning, acc, taken @ [x])"
| step_hook_end: "int_step (s, HookRunning, acc, taken) (elua_int_hook_end s, HookIdle, acc, taken)"

inductive_cases int_step_elim: "int_step (s, ph, acc, taken) (s', ph', acc', taken')"

inductive int_reach :: "int_sys \<Rightarrow> int_sys \<times> hook_phase \<times> int_element list \<times> int_element list \<Rightarrow> bool" for s0 where
  reach_start: "int_reach s0 (s0, HookIdle, [], [])"
| reach_step: "int_reach s0 c \<Longrightarrow> int_step c c' \<Longrightarrow> int_reach s0 c'"

text \<open>The state in which \<^verbatim>\<open>lua_newstate\<close> finds the queue: emptied, nothing enabled, no hook.\<close>

definition int_fresh :: "int_sys \<Rightarrow> bool" where
  "int_fresh s \<longleftrightarrow> int_log s \<le> 8 \<and> length (int_flags s) = 4 \<and> length (int_queue s) = int_cap s \<and> \<not> lua_hook s \<and>
     (\<exists>s'. s = elua_int_cleanup s' \<and> length (int_queue s') = int_cap s' \<and> length (int_flags s') = 4)"

definition int_inv :: "int_sys \<times> hook_phase \<times> int_element list \<times> int_element list \<Rightarrow> bool" where
  "int_inv c = (case c of (s, ph, acc, taken) \<Rightarrow>
     int_good s \<and> acc = taken @ int_contents s \<and> (int_contents s \<noteq> [] \<longrightarrow> lua_hook s) \<and>
     (ph = HookIdle \<longrightarrow> lua_hook s \<longrightarrow> int_contents s \<noteq> []))"

lemma int_fresh_good: "int_fresh s \<Longrightarrow> int_good s \<and> int_contents s = []"
proof -
  assume f: "int_fresh s"
  then obtain s' where s: "s = elua_int_cleanup s'" "length (int_queue s') = int_cap s'" unfolding int_fresh_def by blast
  have "int_slot s i = (0, 0)" if "i < int_cap s" for i
    using s f int_cap_pos [of s] that
    by (simp add: int_slot_def elua_int_cleanup_def elua_int_disable_all_def int_cap_def int_fresh_def)
  then have "int_ring s 0"
    using f s int_cap_pos [of s]
    by (auto simp: int_ring_def int_fresh_def elua_int_cleanup_def elua_int_disable_all_def)
  then show ?thesis using f int_ring_count [of s 0] by (auto simp: int_good_iff int_fresh_def int_contents_def)
qed

lemma int_frame:
  "int_ring (s\<lparr>int_flags := fl\<rparr>) k = int_ring s k" "int_ring (s\<lparr>lua_hook := h\<rparr>) k = int_ring s k"
  "int_count (s\<lparr>int_flags := fl\<rparr>) = int_count s" "int_count (s\<lparr>lua_hook := h\<rparr>) = int_count s"
  "int_slot (s\<lparr>int_flags := fl\<rparr>) i = int_slot s i" "int_slot (s\<lparr>lua_hook := h\<rparr>) i = int_slot s i"
  by (simp_all add: int_ring_def int_slot_def int_cap_def int_count_def)

lemma int_frame_good:
  "int_good s \<Longrightarrow> length fl = 4 \<Longrightarrow> int_good (s\<lparr>int_flags := fl\<rparr>)"
  "int_good s \<Longrightarrow> int_good (s\<lparr>lua_hook := h\<rparr>)"
  "int_contents (s\<lparr>int_flags := fl\<rparr>) = int_contents s" "int_contents (s\<lparr>lua_hook := h\<rparr>) = int_contents s"
  by (simp_all add: int_good_def int_frame int_contents_def)

lemma int_good_flags: "int_good s \<Longrightarrow> length (int_flags s) = 4"
  by (simp add: int_good_def)

lemma add_cases:
  assumes "elua_int_add (fst x) (snd x) s = (r, t)"
  obtains "r = PLATFORM_OK" "int_accepts s x" | "r = PLATFORM_ERR" "t = s"
  using assms by (auto simp: elua_int_add_def int_accepts_def not_less split: if_splits)

lemma int_step_inv: "int_step c c' \<Longrightarrow> int_inv c \<Longrightarrow> int_inv c'"
proof (induction rule: int_step.induct)
  case (step_irq x s r t ph acc taken)
  from step_irq(1) show ?case
  proof (cases rule: add_cases)
    case 1
    have g: "int_good s" using step_irq(2) by (simp add: int_inv_def)
    with 1 step_irq(1) have "int_count s < int_cap s" "t = int_queued s x"
      using int_add_eq [of s x] by (auto split: if_splits)
    then show ?thesis using int_good_queued [OF g 1(2)] 1 step_irq(2)
      by (simp add: int_inv_def) (simp add: int_queued_def)
  qed (use step_irq(2) in simp)
next
  case (step_enable s ph acc taken i)
  then show ?case
    by (auto simp: int_inv_def elua_int_enable_def Let_def int_frame_good int_good_flags)
next
  case (step_disable s ph acc taken i)
  then show ?case
    by (auto simp: int_inv_def elua_int_disable_def Let_def int_frame_good int_good_flags)
next
  case (step_hook s x t acc taken)
  then have "int_contents s \<noteq> []" "int_good s" by (auto simp: int_inv_def)
  moreover from this have "0 < int_count s" using length_int_contents [of s] by (metis length_greater_0_conv)
  moreover have "lua_hook t = lua_hook s" using step_hook(2) by (auto simp: elua_int_hook_take_def Let_def)
  ultimately show ?case
    using int_good_taken [OF _ _ step_hook(2)] step_hook by (auto simp: int_inv_def)
next
  case (step_hook_end s acc taken)
  then have g: "int_good s" by (simp add: int_inv_def)
  have "fst (int_queue s ! unat (int_read_idx s)) = 0 \<longleftrightarrow> int_contents s = []"
    using int_ring_good [OF g] int_cap_pos [of s] length_int_contents [of s]
    by (auto simp: int_ring_def int_slot_def int_count_def dest: spec [of _ 0] simp flip: length_0_conv)
  then show ?case using step_hook_end by (auto simp: int_inv_def elua_int_hook_end_def int_frame_good)
qed

lemma int_reach_inv: "int_reach s0 c \<Longrightarrow> int_fresh s0 \<Longrightarrow> int_inv c"
proof (induction rule: int_reach.induct)
  case reach_start
  then show ?case using int_fresh_good [of s0] by (simp add: int_inv_def int_fresh_def)
qed (rule int_step_inv)

subsection \<open>Properties\<close>

text \<open>C9. The interrupt ring is a first-in first-out queue: any run of accepted interrupts and hook
  takes that stays within the capacity gives the elements of a list queue in the same order,
  also when the byte-sized indexes wrap around.\<close>

theorem int_queue_is_fifo:
  assumes "int_good s" "fits (int_accepts s) (int_cap s) ops (int_contents s)"
  shows "fst (run_ops int_put int_get ops s) = fst (list_ops ops (int_contents s)) \<and>
    int_contents (snd (run_ops int_put int_get ops s)) = snd (list_ops ops (int_contents s))"
  using intq.run_ops_refines [OF assms] by simp

definition int_demo :: int_sys where
  "int_demo = \<lparr>int_log = 1, int_last = 9, int_read_idx = 1, int_write_idx = 1, int_queue = [(0, 0), (0, 0)],
     int_flags = [0xFF, 0, 0, 0], lua_running = True, lua_hook = False\<rparr>"

lemma int_demo_good: "int_good int_demo" "int_contents int_demo = []" "int_cap int_demo = 2"
  by (auto simp: int_good_def int_ring_def int_demo_def int_count_def int_cap_def int_slot_def int_contents_def less_2_cases_iff)

theorem int_queue_is_fifo_witness:
  "fst (run_ops int_put int_get [Put (3, 10), Put (2, 20), Get, Put (5, 30), Get, Get, Get] int_demo)
    = [Some (3, 10), Some (2, 20), Some (5, 30), None]"
proof -
  have "int_accepts int_demo (3, 10)" "int_accepts int_demo (2, 20)" "int_accepts int_demo (5, 30)"
    by (simp_all add: int_accepts_def elua_int_is_enabled_def int_demo_def)
  then show ?thesis
    using int_queue_is_fifo [OF int_demo_good(1), of "[Put (3, 10), Put (2, 20), Get, Put (5, 30), Get, Get, Get]"]
      int_demo_good(2,3) by (simp del: run_ops.simps)
qed

text \<open>C7. No interrupt is lost or invented: from a fresh queue, however interrupts, enabling,
  disabling and the two halves of the hook interleave, the interrupts that were accepted are
  those the hook has taken, in the same order, followed by those still queued; whenever
  something is queued the hook is installed, and the hook never runs on an empty queue.\<close>

theorem int_delivery_in_order:
  assumes "int_fresh s0" "int_reach s0 (s, ph, acc, taken)"
  shows "acc = taken @ int_contents s \<and> (int_contents s \<noteq> [] \<longrightarrow> lua_hook s) \<and>
    (ph = HookIdle \<longrightarrow> (lua_hook s \<longleftrightarrow> int_contents s \<noteq> []))"
  using int_reach_inv [OF assms(2,1)] by (auto simp: int_inv_def)

lemma int_fresh_cleanup:
  "int_log s \<le> 8 \<Longrightarrow> length (int_flags s) = 4 \<Longrightarrow> length (int_queue s) = int_cap s \<Longrightarrow> \<not> lua_hook s \<Longrightarrow>
   int_fresh (elua_int_cleanup s)"
  unfolding int_fresh_def by (auto simp: elua_int_cleanup_def elua_int_disable_all_def int_cap_def)

theorem int_delivery_in_order_witness:
  "\<exists>s. int_reach (elua_int_cleanup int_demo) (s, HookIdle, [(3, 7)], []) \<and> lua_hook s \<and> int_contents s = [(3, 7)]"
proof -
  let ?s0 = "elua_int_cleanup int_demo"
  let ?s1 = "elua_int_enable 3 ?s0"
  obtain s where s: "elua_int_add 3 7 ?s1 = (PLATFORM_OK, s)"
    by (simp add: elua_int_add_def elua_int_enable_def elua_int_cleanup_def elua_int_disable_all_def int_demo_def
        elua_int_is_enabled_def)
  have f: "int_fresh ?s0" by (rule int_fresh_cleanup) (simp_all add: int_demo_def int_cap_def)
  have "int_reach ?s0 (?s1, HookIdle, [], [])" by (rule reach_step [OF reach_start step_enable])
  then have r: "int_reach ?s0 (s, HookIdle, [(3, 7)], [])"
    using reach_step step_irq [of "(3, 7)" ?s1 PLATFORM_OK s HookIdle "[]" "[]"] s by fastforce
  then show ?thesis using int_delivery_in_order [OF f r] by auto
qed

text \<open>Enabling or disabling a source changes the enable bit of that source and of no other, for
  all 128 sources; numbers from 128 on are never enabled.\<close>

theorem int_enable_bits:
  assumes "length (int_flags s) = 4"
  shows "elua_int_is_enabled j (elua_int_enable i s) =
      (if i = j \<and> unat j < LUA_INT_MAX_SOURCES then True else elua_int_is_enabled j s) \<and>
    elua_int_is_enabled j (elua_int_disable i s) = (if i = j then False else elua_int_is_enabled j s) \<and>
    \<not> elua_int_is_enabled j (elua_int_disable_all s)"
proof -
  have idx: "unat (drop_bit 5 (x :: u8)) = unat x div 32" "unat (x AND 0x1F) = unat x mod 32" for x
    by (simp_all add: drop_bit_eq_div unat_div unsigned_and_eq nat_and_mask [of _ 5, simplified])
  have eq: "(i = j) = (unat i div 32 = unat j div 32 \<and> unat i mod 32 = unat j mod 32)"
    by (metis div_mult_mod_eq word_eq_iff_unsigned)
  have bit: "w AND push_bit n 1 \<noteq> 0 \<longleftrightarrow> bit w n" if "n < 32" for w :: u32 and n
    by (simp add: and_exp_eq_0_iff_not_bit)
  have en: "elua_int_is_enabled x s = (unat x < 128 \<and> bit (int_flags s ! (unat x div 32)) (unat x mod 32))" for x s
    by (simp add: elua_int_is_enabled_def idx bit del: push_bit_of_1)
  have len: "int_flags (elua_int_enable i s) = (if unat i < 128 then (int_flags s)[unat i div 32 :=
        int_flags s ! (unat i div 32) OR push_bit (unat i mod 32) 1] else int_flags s)"
      "int_flags (elua_int_disable i s) = (if unat i < 128 then (int_flags s)[unat i div 32 :=
        int_flags s ! (unat i div 32) AND NOT (push_bit (unat i mod 32) 1)] else int_flags s)"
    by (simp_all add: elua_int_enable_def elua_int_disable_def idx Let_def)
  have upd: "unat i < 128 \<Longrightarrow> unat j < 128 \<Longrightarrow>
      (int_flags s)[unat i div 32 := w] ! (unat j div 32) =
        (if unat i div 32 = unat j div 32 then w else int_flags s ! (unat j div 32))" for w
    using assms by (auto simp: nth_list_update)
  have m: "unat j mod 32 < 32" by simp
  have pb: "bit (push_bit n 1 :: u32) k \<longleftrightarrow> n = k" if "k < 32" for n k
    using that by (auto simp: bit_simps)
  have "elua_int_is_enabled j (elua_int_enable i s) =
      (if i = j \<and> unat j < 128 then True else elua_int_is_enabled j s)"
  proof (cases "i = j")
    case True
    then show ?thesis unfolding en len
      using assms by (auto simp: bit_or_iff pb [OF m] simp del: push_bit_of_1)
  next
    case False
    then have "unat i div 32 = unat j div 32 \<Longrightarrow> unat i mod 32 \<noteq> unat j mod 32" using eq by simp
    with False show ?thesis unfolding en len
      by (auto simp: upd bit_or_iff pb [OF m] simp del: push_bit_of_1 split: if_splits)
  qed
  moreover have "elua_int_is_enabled j (elua_int_disable i s) = (if i = j then False else elua_int_is_enabled j s)"
  proof (cases "i = j")
    case True
    then show ?thesis unfolding en len
      using assms by (auto simp: bit_and_iff bit_not_iff pb [OF m] simp del: push_bit_of_1)
  next
    case False
    then have "unat i div 32 = unat j div 32 \<Longrightarrow> unat i mod 32 \<noteq> unat j mod 32" using eq by simp
    with False show ?thesis unfolding en len using m
      by (auto simp: upd bit_and_iff bit_not_iff pb [OF m] simp del: push_bit_of_1 split: if_splits)
  qed
  moreover have "\<not> elua_int_is_enabled j (elua_int_disable_all s)"
    using assms unfolding en by (auto simp: elua_int_disable_all_def)
  ultimately show ?thesis by blast
qed

theorem int_enable_bits_witness:
  "elua_int_is_enabled 70 (elua_int_enable 70 int_demo) \<and> \<not> elua_int_is_enabled 71 (elua_int_enable 70 int_demo)"
proof -
  have "length (int_flags int_demo) = 4" "\<not> elua_int_is_enabled 71 int_demo"
    by (simp_all add: int_demo_def elua_int_is_enabled_def)
  then show ?thesis using int_enable_bits [of int_demo 70 70] int_enable_bits [of int_demo 71 70] by simp
qed

end
