(* ===== verification/Romfs.thy ===== *)
theory Romfs
  imports Elua_Prelude
begin

text \<open>
  The read-only file system of \<^verbatim>\<open>src/romfs.c\<close>: a flash image that is a chain of entries (name,
  size, alignment, data) and a table of four open files. All device functions are modelled,
  with the searches that walk the chain as loops that may not end on a corrupt image. The
  specification is the image that \<^verbatim>\<open>mkfs.py\<close> writes for a list of files.

  The image is addressed as \<^verbatim>\<open>romfiles_fs[ addr ]\<close>; \<open>img\<close> gives the byte at every address.
\<close>

abbreviation ROMFS_MAX_FDS :: nat where "ROMFS_MAX_FDS \<equiv> 4"
abbreviation DM_MAX_FNAME_LENGTH :: nat where "DM_MAX_FNAME_LENGTH \<equiv> 30"

record FS =
  baseaddr :: u32
  fs_offset :: u32
  fs_size :: u32
  p_read_func :: "(u32 \<Rightarrow> u8) option"

record romfs =
  romfs_fd_table :: "FS list"
  romfs_num_fd :: int
  romfs_dir_data :: u32

datatype rom_errno = ENFILE | ENOENT | EINVAL

definition romfs_zero :: FS where
  "romfs_zero = \<lparr>baseaddr = 0, fs_offset = 0, fs_size = 0, p_read_func = None\<rparr>"

definition romfs_read :: "mem \<Rightarrow> u32 \<Rightarrow> u8" where
  "romfs_read img addr = img (unat addr)"

text \<open>The search for a free table entry; -1 if there is none.\<close>

primrec romfs_find_from :: "nat \<Rightarrow> FS list \<Rightarrow> int" where
  "romfs_find_from i [] = -1"
| "romfs_find_from i (f # fs) = (if p_read_func f = None then int i else romfs_find_from (i + 1) fs)"

definition romfs_find_empty_fd :: "romfs \<Rightarrow> int" where
  "romfs_find_empty_fd r = romfs_find_from 0 (romfs_fd_table r)"

definition romfs_close_fd :: "nat \<Rightarrow> romfs \<Rightarrow> romfs" where
  "romfs_close_fd fd r = r\<lparr>romfs_fd_table := (romfs_fd_table r)[fd := romfs_zero]\<rparr>"

subsection \<open>Walking the image\<close>

text \<open>
  The name loop, with \<open>n\<close> characters to go from index \<open>j\<close>: the characters before the zero byte
  and the index at which the loop stopped; \<open>None\<close> is the return at an empty name.
\<close>

primrec romfs_name :: "(u32 \<Rightarrow> u8) \<Rightarrow> u32 \<Rightarrow> nat \<Rightarrow> nat \<Rightarrow> (u8 list \<times> nat) option" where
  "romfs_name rd i j 0 = Some ([], j)"
| "romfs_name rd i j (Suc n) =
     (let c = rd (i + of_nat j)
      in if c = 0 then (if j = 0 then None else Some ([], j))
         else (case romfs_name rd i (j + 1) n of
             None \<Rightarrow> None
           | Some (cs, k) \<Rightarrow> Some (c # cs, k)))"

definition romfs_size_at :: "(u32 \<Rightarrow> u8) \<Rightarrow> u32 \<Rightarrow> u32" where
  "romfs_size_at rd j = ucast (rd j) + push_bit 8 (ucast (rd (j + 1)))
     + (push_bit 16 (ucast (rd (j + 2))) + push_bit 24 (ucast (rd (j + 3))))"

definition ROMFS_ROUND :: "u32 \<Rightarrow> u32" where
  "ROMFS_ROUND j = (j + 3) AND NOT 3"

partial_function (option) romfs_open_loop :: "(u32 \<Rightarrow> u8) \<Rightarrow> u8 list \<Rightarrow> u32 \<Rightarrow> FS option option" where
  "romfs_open_loop rd fname i = (case romfs_name rd i 0 DM_MAX_FNAME_LENGTH of
      None \<Rightarrow> Some None
    | Some (fsname, k) \<Rightarrow>
        (let j = i + of_nat k + 1;
             fsize = romfs_size_at rd j;
             base = ROMFS_ROUND (j + 4)
         in if c_strncaseeq DM_MAX_FNAME_LENGTH fname fsname
            then Some (Some \<lparr>baseaddr = base, fs_offset = 0, fs_size = fsize, p_read_func = Some rd\<rparr>)
            else romfs_open_loop rd fname (base + fsize)))"

text \<open>\<open>None\<close> if the walk never ends; then \<^verbatim>\<open>FS_FILE_NOT_FOUND\<close> is \<open>None\<close> and \<^verbatim>\<open>FS_FILE_OK\<close> the entry.\<close>

definition romfs_open_file :: "u8 list \<Rightarrow> (u32 \<Rightarrow> u8) \<Rightarrow> FS option option" where
  "romfs_open_file fname rd = romfs_open_loop rd fname 0"

subsection \<open>Device functions\<close>

definition romfs_open_r :: "mem \<Rightarrow> u8 list \<Rightarrow> romfs \<Rightarrow> (c_fault + ((rom_errno + nat) \<times> romfs)) option" where
  "romfs_open_r img path r =
     (if romfs_num_fd r = int ROMFS_MAX_FDS then Some (Inr (Inl ENFILE, r))
      else case romfs_open_file path (romfs_read img) of
        None \<Rightarrow> None
      | Some None \<Rightarrow> Some (Inr (Inl ENOENT, r))
      | Some (Some tempfs) \<Rightarrow>
          (let i = romfs_find_empty_fd r
           in if i < 0 then Some (Inl OutOfBounds)
              else Some (Inr (Inr (nat i), r\<lparr>romfs_fd_table := (romfs_fd_table r)[nat i := tempfs],
                                         romfs_num_fd := romfs_num_fd r + 1\<rparr>))))"

definition romfs_close_r :: "nat \<Rightarrow> romfs \<Rightarrow> int \<times> romfs" where
  "romfs_close_r fd r =
     (let r' = romfs_close_fd fd r in (0, r'\<lparr>romfs_num_fd := romfs_num_fd r' - 1\<rparr>))"

definition romfs_write_r :: "nat \<Rightarrow> u8 list \<Rightarrow> romfs \<Rightarrow> (rom_errno + nat) \<times> romfs" where
  "romfs_write_r fd bytes r = (Inl EINVAL, r)"

definition fsmin :: "u32 \<Rightarrow> u32 \<Rightarrow> u32" where
  "fsmin x y = (if x < y then x else y)"

text \<open>A read gives the bytes copied to the caller.\<close>

definition romfs_read_r :: "mem \<Rightarrow> nat \<Rightarrow> u32 \<Rightarrow> romfs \<Rightarrow> u8 list \<times> romfs" where
  "romfs_read_r img fd len r =
     (let pfs = romfs_fd_table r ! fd;
          actlen = fsmin len (fs_size pfs - fs_offset pfs)
      in (mem_load img (unat (fs_offset pfs + baseaddr pfs)) (unat actlen),
          r\<lparr>romfs_fd_table := (romfs_fd_table r)[fd := pfs\<lparr>fs_offset := fs_offset pfs + actlen\<rparr>]\<rparr>))"

datatype whence = SEEK_SET | SEEK_CUR | SEEK_END | SEEK_OTHER

text \<open>\<open>off\<close> is the signed offset as 32 bits; \<open>None\<close> is the result -1.\<close>

definition romfs_lseek_r :: "nat \<Rightarrow> u32 \<Rightarrow> whence \<Rightarrow> romfs \<Rightarrow> u32 option \<times> romfs" where
  "romfs_lseek_r fd off wh r =
     (let pfs = romfs_fd_table r ! fd;
          newpos = (case wh of SEEK_SET \<Rightarrow> Some off
            | SEEK_CUR \<Rightarrow> Some (fs_offset pfs + off)
            | SEEK_END \<Rightarrow> Some (fs_size pfs + off)
            | SEEK_OTHER \<Rightarrow> None)
      in case newpos of
           None \<Rightarrow> (None, r)
         | Some np \<Rightarrow> if np > fs_size pfs then (None, r)
             else (Some np, r\<lparr>romfs_fd_table := (romfs_fd_table r)[fd := pfs\<lparr>fs_offset := np\<rparr>]\<rparr>))"

text \<open>Directory handle: \<^verbatim>\<open>&romfs_dir_data\<close> or NULL.\<close>

definition romfs_opendir_r :: "u8 list option \<Rightarrow> romfs \<Rightarrow> bool \<times> romfs" where
  "romfs_opendir_r dname r =
     (if dname = None \<or> dname = Some [] \<or> dname = Some [0x2F]
      then (True, r\<lparr>romfs_dir_data := 0\<rparr>) else (False, r))"

partial_function (option) romfs_copy_name :: "(u32 \<Rightarrow> u8) \<Rightarrow> u32 \<Rightarrow> (u8 list \<times> u32) option" where
  "romfs_copy_name rd off =
     (if rd off = 0 then Some ([], off + 1)
      else Option.bind (romfs_copy_name rd (off + 1)) (\<lambda>(cs, e). Some (rd off # cs, e)))"

text \<open>The shared directory entry: name and size; the copy of the name must fit its buffer.\<close>

definition romfs_readdir_r :: "mem \<Rightarrow> romfs \<Rightarrow> (c_fault + ((u8 list \<times> u32) option \<times> romfs)) option" where
  "romfs_readdir_r img r =
     (let off = romfs_dir_data r; rd = romfs_read img
      in if rd off = 0 then Some (Inr (None, r))
         else case romfs_copy_name rd off of
           None \<Rightarrow> None
         | Some (name, off1) \<Rightarrow>
             (if length name + 1 > DM_MAX_FNAME_LENGTH + 1 then Some (Inl OutOfBounds)
              else (let fsize = romfs_size_at rd off1;
                        off2 = ROMFS_ROUND (off1 + 4)
                    in Some (Inr (Some (name, fsize), r\<lparr>romfs_dir_data := off2 + fsize\<rparr>)))))"

definition romfs_closedir_r :: "romfs \<Rightarrow> int \<times> romfs" where
  "romfs_closedir_r r = (0, r\<lparr>romfs_dir_data := 0\<rparr>)"

definition romfs_getaddr_r :: "nat \<Rightarrow> romfs \<Rightarrow> u32" where
  "romfs_getaddr_r fd r = baseaddr (romfs_fd_table r ! fd)"

subsection \<open>The image of a list of files\<close>

text \<open>What \<^verbatim>\<open>mkfs.py\<close> writes: each file's name, zero byte, size, padding to four and data.\<close>

type_synonym rom_file = "u8 list \<times> u8 list"

definition align4 :: "nat \<Rightarrow> nat" where
  "align4 n = (n + 3) div 4 * 4"

definition le32 :: "u32 \<Rightarrow> u8 list" where
  "le32 x = [ucast x, ucast (drop_bit 8 x), ucast (drop_bit 16 x), ucast (drop_bit 24 x)]"

definition data_at :: "nat \<Rightarrow> rom_file \<Rightarrow> nat" where
  "data_at i f = align4 (i + length (fst f) + 5)"

definition next_at :: "nat \<Rightarrow> rom_file \<Rightarrow> nat" where
  "next_at i f = data_at i f + length (snd f)"

definition rom_header :: "nat \<Rightarrow> rom_file \<Rightarrow> u8 list" where
  "rom_header i f = fst f @ [0] @ le32 (of_nat (length (snd f)))
     @ replicate (data_at i f - (i + length (fst f) + 5)) 0"

fun rom_image :: "nat \<Rightarrow> rom_file list \<Rightarrow> u8 list" where
  "rom_image i [] = [0]"
| "rom_image i (f # fs) = rom_header i f @ snd f @ rom_image (next_at i f) fs"

definition rom_name_ok :: "u8 list \<Rightarrow> bool" where
  "rom_name_ok nm \<longleftrightarrow> nm \<noteq> [] \<and> 0 \<notin> set nm \<and> length nm \<le> DM_MAX_FNAME_LENGTH"

definition rom_image_ok :: "mem \<Rightarrow> nat \<Rightarrow> rom_file list \<Rightarrow> bool" where
  "rom_image_ok img i fs \<longleftrightarrow> holds img i (rom_image i fs) \<and> i + length (rom_image i fs) < 2 ^ 31 \<and>
     (\<forall>f \<in> set fs. rom_name_ok (fst f))"

lemma align4_ge: "n \<le> align4 n"
  by (simp add: align4_def)

lemma align4_le: "align4 n \<le> n + 3"
  by (simp add: align4_def)

lemma length_rom_header: "i + length (rom_header i f) = data_at i f"
  using align4_ge [of "i + length (fst f) + 5"] by (simp add: rom_header_def le32_def data_at_def)

lemma rom_image_ok_Cons:
  assumes "rom_image_ok img i (f # fs)"
  shows "holds img i (rom_header i f)" "holds img (data_at i f) (snd f)" "rom_image_ok img (next_at i f) fs"
    "data_at i f + length (snd f) < 2 ^ 31" "rom_name_ok (fst f)"
proof -
  have h: "holds img i (rom_header i f)" "holds img (i + length (rom_header i f)) (snd f)"
    "holds img (i + length (rom_header i f) + length (snd f)) (rom_image (next_at i f) fs)"
    using assms by (simp_all add: rom_image_ok_def add.assoc)
  then show "holds img i (rom_header i f)" "holds img (data_at i f) (snd f)"
    by (simp_all add: length_rom_header)
  have "i + length (rom_image i (f # fs)) = next_at i f + length (rom_image (next_at i f) fs)"
    using length_rom_header [of i f] by (simp add: next_at_def)
  moreover have "i + length (rom_image i (f # fs)) < 2 ^ 31"
    using assms by (simp only: rom_image_ok_def)
  ultimately have lt: "next_at i f + length (rom_image (next_at i f) fs) < 2 ^ 31" by (simp only:)
  then show "data_at i f + length (snd f) < 2 ^ 31" by (simp add: next_at_def)
  have "next_at i f = i + length (rom_header i f) + length (snd f)"
    using length_rom_header [of i f] by (simp add: next_at_def)
  with lt h(3) show "rom_image_ok img (next_at i f) fs"
    using assms by (simp add: rom_image_ok_def)
  show "rom_name_ok (fst f)" using assms by (simp add: rom_image_ok_def)
qed

lemma read_of_nat: "a < 2 ^ 32 \<Longrightarrow> romfs_read img (of_nat a) = img a"
  by (simp add: romfs_read_def unat_of_nat_u32)

lemma holds_nth: "holds m p bs \<longleftrightarrow> (\<forall>k < length bs. m (p + k) = bs ! k)"
  by (induction bs arbitrary: p) (auto simp: nth_Cons less_Suc_eq_0_disj split: nat.splits)

lemma romfs_name_scan:
  "holds img (i + j) (cs @ [0]) \<Longrightarrow> 0 \<notin> set cs \<Longrightarrow> length cs \<le> n \<Longrightarrow> i + j + length cs < 2 ^ 31 \<Longrightarrow>
   cs \<noteq> [] \<or> 0 < j \<Longrightarrow> romfs_name (romfs_read img) (of_nat i) j n = Some (cs, j + length cs)"
proof (induction n arbitrary: j cs)
  case (Suc n)
  have rd: "romfs_read img (of_nat i + of_nat j) = img (i + j)"
    using read_of_nat [of "i + j" img] Suc.prems(4) by simp
  show ?case
  proof (cases cs)
    case Nil
    then show ?thesis using Suc.prems rd by simp
  next
    case (Cons c cs')
    then have "romfs_name (romfs_read img) (of_nat i) (j + 1) n = Some (cs', j + 1 + length cs')"
      using Suc.prems by (intro Suc.IH) auto
    then show ?thesis using Cons Suc.prems rd by simp
  qed
qed simp

lemma size_assemble:
  "ucast (ucast x :: u8) + push_bit 8 (ucast (ucast (drop_bit 8 x) :: u8)) +
     (push_bit 16 (ucast (ucast (drop_bit 16 x) :: u8)) +
      push_bit 24 (ucast (ucast (drop_bit 24 x) :: u8))) = (x :: u32)"
proof -
  let ?a = "ucast (ucast x :: u8) :: u32" and ?b = "push_bit 8 (ucast (ucast (drop_bit 8 x) :: u8)) :: u32"
    and ?c = "push_bit 16 (ucast (ucast (drop_bit 16 x) :: u8)) :: u32"
    and ?d = "push_bit 24 (ucast (ucast (drop_bit 24 x) :: u8)) :: u32"
  have ab: "?a + ?b = ?a OR ?b" by (rule disjunctive_add) (auto simp: bit_simps)
  have cd: "?c + ?d = ?c OR ?d" by (rule disjunctive_add) (auto simp: bit_simps)
  have "(?a OR ?b) + (?c OR ?d) = (?a OR ?b) OR (?c OR ?d)"
    by (rule disjunctive_add) (auto simp: bit_simps)
  moreover have "(?a OR ?b) OR (?c OR ?d) = x"
  proof (rule bit_word_eqI)
    fix n
    assume "n < LENGTH(32)"
    then consider "n < 8" | "8 \<le> n" "n < 16" | "16 \<le> n" "n < 24" | "24 \<le> n" "n < 32" by fastforce
    then show "bit ((?a OR ?b) OR (?c OR ?d)) n = bit x n" by cases (auto simp: bit_simps)
  qed
  ultimately show ?thesis unfolding ab cd by (simp only:)
qed

lemma round_align4: "n + 3 < 2 ^ 32 \<Longrightarrow> ROMFS_ROUND (of_nat n) = of_nat (align4 n)"
proof -
  assume n: "n + 3 < 2 ^ 32"
  have u: "unat (of_nat n + 3 :: u32) = n + 3"
    using unat_of_nat_u32 [of "n + 3"] n by simp
  have "unat (ROMFS_ROUND (of_nat n)) = align4 n"
    unfolding ROMFS_ROUND_def and_not_3 u align4_def ..
  then show ?thesis by (metis of_nat_unat ucast_id)
qed

lemma rom_entry:
  assumes "rom_image_ok img i (f # fs)"
  shows "romfs_name (romfs_read img) (of_nat i) 0 DM_MAX_FNAME_LENGTH = Some (fst f, length (fst f))"
    "romfs_size_at (romfs_read img) (of_nat (i + length (fst f) + 1)) = of_nat (length (snd f))"
    "ROMFS_ROUND (of_nat (i + length (fst f) + 1) + 4) = of_nat (data_at i f)"
    "romfs_copy_name (romfs_read img) (of_nat i) = Some (fst f, of_nat (i + length (fst f) + 1))"
    "romfs_read img (of_nat i) \<noteq> 0"
proof -
  note ok = rom_image_ok_Cons [OF assms]
  let ?n = "length (fst f)"
  have nm: "fst f \<noteq> []" "0 \<notin> set (fst f)" "?n \<le> 30" using ok(5) by (simp_all add: rom_name_ok_def)
  have lt: "i + ?n + 8 < 2 ^ 32"
    using ok(4) align4_ge [of "i + ?n + 5"] by (simp add: data_at_def)
  have hn: "holds img i (fst f @ [0])" using ok(1) by (simp add: rom_header_def)
  have hs: "holds img (i + ?n + 1) (le32 (of_nat (length (snd f))))" using ok(1) by (simp add: rom_header_def)
  have lt31: "i + ?n < 2 ^ 31" using ok(4) align4_ge [of "i + ?n + 5"] by (simp add: data_at_def)
  show "romfs_name (romfs_read img) (of_nat i) 0 DM_MAX_FNAME_LENGTH = Some (fst f, ?n)"
    using romfs_name_scan [of img i 0 "fst f" DM_MAX_FNAME_LENGTH] hn nm lt31 by simp
  have rd: "romfs_read img (of_nat (i + ?n + 1) + of_nat k) = img (i + ?n + 1 + k)" if "k < 4" for k
    unfolding of_nat_add [symmetric] using lt that by (intro read_of_nat) simp
  show "romfs_size_at (romfs_read img) (of_nat (i + ?n + 1)) = of_nat (length (snd f))"
    using rd [of 0] rd [of 1] rd [of 2] rd [of 3] hs size_assemble [of "of_nat (length (snd f))"]
    by (simp add: romfs_size_at_def le32_def Suc_addr numeral_2_eq_2)
  show "ROMFS_ROUND (of_nat (i + ?n + 1) + 4) = of_nat (data_at i f)"
    using round_align4 [of "i + ?n + 5"] lt by (simp add: data_at_def add.commute)
  have copy: "holds img a (cs @ [0]) \<Longrightarrow> 0 \<notin> set cs \<Longrightarrow> a + length cs < 2 ^ 31 \<Longrightarrow>
      romfs_copy_name (romfs_read img) (of_nat a) = Some (cs, of_nat (a + length cs + 1))" for a cs
  proof (induction cs arbitrary: a)
    case Nil
    then show ?case by (simp add: romfs_copy_name.simps [of _ "of_nat a"] read_of_nat)
  next
    case (Cons c cs)
    have "romfs_copy_name (romfs_read img) (of_nat (a + 1)) = Some (cs, of_nat (a + 1 + length cs + 1))"
      using Cons.prems by (intro Cons.IH) auto
    then show ?case using Cons.prems
      by (simp add: romfs_copy_name.simps [of _ "of_nat a"] read_of_nat add.commute)
  qed
  show "romfs_copy_name (romfs_read img) (of_nat i) = Some (fst f, of_nat (i + ?n + 1))"
    by (rule copy [OF hn nm(2) lt31])
  show "romfs_read img (of_nat i) \<noteq> 0"
    using nm hn lt31 by (cases "fst f") (auto simp: read_of_nat)
qed

lemma rom_end:
  assumes "rom_image_ok img i []"
  shows "romfs_name (romfs_read img) (of_nat i) 0 DM_MAX_FNAME_LENGTH = None" "romfs_read img (of_nat i) = 0"
proof -
  show z: "romfs_read img (of_nat i) = 0" using assms by (simp add: rom_image_ok_def read_of_nat)
  show "romfs_name (romfs_read img) (of_nat i) 0 DM_MAX_FNAME_LENGTH = None"
    using z by (simp add: numeral_eq_Suc)
qed

text \<open>Looking a name up in the list of files: where its data lies, and the data.\<close>

fun rom_lookup :: "u8 list \<Rightarrow> nat \<Rightarrow> rom_file list \<Rightarrow> (nat \<times> u8 list) option" where
  "rom_lookup fname i [] = None"
| "rom_lookup fname i (f # fs) =
     (if c_strncaseeq DM_MAX_FNAME_LENGTH fname (fst f) then Some (data_at i f, snd f)
      else rom_lookup fname (next_at i f) fs)"

definition rom_fs :: "mem \<Rightarrow> nat \<Rightarrow> u8 list \<Rightarrow> FS" where
  "rom_fs img b d = \<lparr>baseaddr = of_nat b, fs_offset = 0, fs_size = of_nat (length d),
     p_read_func = Some (romfs_read img)\<rparr>"

lemma open_loop_lookup:
  "rom_image_ok img i fs \<Longrightarrow>
   romfs_open_loop (romfs_read img) fname (of_nat i) =
     Some (map_option (\<lambda>(b, d). rom_fs img b d) (rom_lookup fname i fs))"
proof (induction fs arbitrary: i)
  case Nil
  then show ?case using rom_end [OF Nil] by (simp add: romfs_open_loop.simps [of _ _ "of_nat i"])
next
  case (Cons f fs)
  note e = rom_entry [OF Cons.prems]
  have nx: "of_nat (data_at i f) + of_nat (length (snd f)) = (of_nat (next_at i f) :: u32)"
    by (simp add: next_at_def)
  have j: "of_nat i + of_nat (length (fst f)) + 1 = (of_nat (i + length (fst f) + 1) :: u32)" by simp
  show ?case
    by (subst romfs_open_loop.simps)
      (simp only: e option.case prod.case Let_def j nx Cons.IH [OF rom_image_ok_Cons(3) [OF Cons.prems]]
        rom_lookup.simps, simp add: rom_fs_def map_option_case split: option.split)
qed

lemma rom_lookup_data:
  "rom_image_ok img i fs \<Longrightarrow> rom_lookup fname i fs = Some (b, d) \<Longrightarrow>
   holds img b d \<and> b + length d < 2 ^ 31 \<and>
   (\<exists>nm. find (\<lambda>f. c_strncaseeq DM_MAX_FNAME_LENGTH fname (fst f)) fs = Some (nm, d))"
proof (induction fs arbitrary: i)
  case (Cons f fs)
  note ok = rom_image_ok_Cons [OF Cons.prems(1)]
  show ?case
  proof (cases "c_strncaseeq DM_MAX_FNAME_LENGTH fname (fst f)")
    case True
    then show ?thesis using Cons.prems ok by (cases f) auto
  next
    case False
    then show ?thesis using Cons.IH [OF ok(3)] Cons.prems(2) by simp
  qed
qed simp

lemma rom_lookup_find:
  "rom_lookup fname i fs = None \<longleftrightarrow> find (\<lambda>f. c_strncaseeq DM_MAX_FNAME_LENGTH fname (fst f)) fs = None"
  by (induction fs arbitrary: i) auto

subsection \<open>Open files\<close>

text \<open>\<open>rom_open img r fd d pos\<close>: descriptor \<open>fd\<close> is open on a file with data \<open>d\<close>, at position \<open>pos\<close>.\<close>

definition rom_open :: "mem \<Rightarrow> romfs \<Rightarrow> nat \<Rightarrow> u8 list \<Rightarrow> nat \<Rightarrow> bool" where
  "rom_open img r fd d pos \<longleftrightarrow> fd < length (romfs_fd_table r) \<and> pos \<le> length d \<and>
     (\<exists>b. romfs_fd_table r ! fd = (rom_fs img b d)\<lparr>fs_offset := of_nat pos\<rparr> \<and> holds img b d \<and> b + length d < 2 ^ 31)"

lemma holds_drop_load:
  "holds img b d \<Longrightarrow> pos + n \<le> length d \<Longrightarrow> mem_load img (b + pos) n = take n (drop pos d)"
  by (rule nth_equalityI) (auto simp: holds_nth add.assoc)

lemma rom_read_step:
  assumes "rom_open img r fd d pos"
  shows "\<exists>r'. romfs_read_r img fd len r = (take (unat len) (drop pos d), r') \<and>
    rom_open img r' fd d (min (pos + unat len) (length d)) \<and>
    (\<forall>fd'. fd' \<noteq> fd \<longrightarrow> romfs_fd_table r' ! fd' = romfs_fd_table r ! fd') \<and> romfs_num_fd r' = romfs_num_fd r"
proof -
  obtain b where b: "fd < length (romfs_fd_table r)" "pos \<le> length d"
    "romfs_fd_table r ! fd = (rom_fs img b d)\<lparr>fs_offset := of_nat pos\<rparr>" "holds img b d" "b + length d < 2 ^ 31"
    using assms by (auto simp: rom_open_def)
  have left: "of_nat (length d) - of_nat pos = (of_nat (length d - pos) :: u32)" using b by (simp add: of_nat_diff)
  define k where "k = min (unat len) (length d - pos)"
  have act: "fsmin len (of_nat (length d) - of_nat pos) = of_nat k"
    using b(5) unat_of_nat_u32 [of "length d - pos"]
    by (simp add: left fsmin_def k_def word_less_nat_alt min_def)
  have uk: "unat (of_nat k :: u32) = k" using b(5) by (intro unat_of_nat_u32) (simp add: k_def)
  have at: "unat (of_nat pos + of_nat b :: u32) = b + pos"
    using unat_of_nat_u32 [of "pos + b"] b by simp
  have "mem_load img (b + pos) k = take (unat len) (drop pos d)"
  proof -
    have "pos + k \<le> length d" using b(2) by (simp add: k_def)
    moreover have "take k (drop pos d) = take (unat len) (drop pos d)" by (simp add: k_def min_def)
    ultimately show ?thesis using holds_drop_load [OF b(4)] by simp
  qed
  moreover have "pos + k = min (pos + unat len) (length d)" using b(2) by (simp add: k_def)
  moreover from this have "of_nat pos + of_nat k = (of_nat (min (pos + unat len) (length d)) :: u32)"
    by (metis of_nat_add)
  ultimately show ?thesis
    using b act uk at by (auto simp: romfs_read_r_def Let_def rom_open_def rom_fs_def)
qed

text \<open>The position a seek asks for, as an integer.\<close>

definition seek_target :: "nat \<Rightarrow> nat \<Rightarrow> u32 \<Rightarrow> whence \<Rightarrow> int option" where
  "seek_target size0 pos off wh = (case wh of
      SEEK_SET \<Rightarrow> Some (sint off)
    | SEEK_CUR \<Rightarrow> Some (int pos + sint off)
    | SEEK_END \<Rightarrow> Some (int size0 + sint off)
    | SEEK_OTHER \<Rightarrow> None)"

definition seek_spec :: "nat \<Rightarrow> nat \<Rightarrow> u32 \<Rightarrow> whence \<Rightarrow> nat option" where
  "seek_spec size0 pos off wh = (case seek_target size0 pos off wh of
      None \<Rightarrow> None
    | Some t \<Rightarrow> if 0 \<le> t \<and> t \<le> int size0 then Some (nat t) else None)"

lemma seek_word:
  assumes "n < 2 ^ 31" "size0 < 2 ^ 31" "n \<le> size0"
  shows "(of_nat n + off > (of_nat size0 :: u32)) \<longleftrightarrow> \<not> (0 \<le> int n + sint off \<and> int n + sint off \<le> int size0)"
    and "0 \<le> int n + sint off \<Longrightarrow> int n + sint off \<le> int size0 \<Longrightarrow> of_nat n + off = (of_nat (nat (int n + sint off)) :: u32)"
proof -
  have r: "- (2 ^ 31) \<le> sint off" "sint off < 2 ^ 31"
    using sint_ge [of off] sint_lt [of off] by simp_all
  have w: "of_nat n + off = (of_int (int n + sint off) :: u32)" by simp
  show "0 \<le> int n + sint off \<Longrightarrow> int n + sint off \<le> int size0 \<Longrightarrow> of_nat n + off = (of_nat (nat (int n + sint off)) :: u32)"
    by (subst w) simp
  have u: "uint (of_int t :: u32) = t mod 2 ^ 32" for t
    by (simp add: uint_word_of_int)
  have s: "uint (of_nat size0 :: u32) = int size0"
    using assms by (simp add: uint_nat unat_of_nat_u32)
  let ?t = "int n + sint off"
  have "?t mod 2 ^ 32 = (if ?t < 0 then ?t + 2 ^ 32 else ?t)"
  proof (cases "?t < 0")
    case True
    have "(?t + 2 ^ 32) mod 2 ^ 32 = ?t + 2 ^ 32" using r True by (intro mod_pos_pos_trivial) simp_all
    then show ?thesis using True by simp
  next
    case False
    then show ?thesis using r assms by (simp add: mod_pos_pos_trivial)
  qed
  then show "(of_nat n + off > (of_nat size0 :: u32)) \<longleftrightarrow> \<not> (0 \<le> ?t \<and> ?t \<le> int size0)"
    unfolding w word_less_def u s using r assms by auto
qed

lemma rom_open_upd:
  "rom_open img r fd d pos \<Longrightarrow> t \<le> length d \<Longrightarrow>
   rom_open img (r\<lparr>romfs_fd_table := (romfs_fd_table r)[fd := (romfs_fd_table r ! fd)\<lparr>fs_offset := of_nat t\<rparr>]\<rparr>) fd d t"
  by (auto simp: rom_open_def)

lemma rom_seek_step:
  assumes "rom_open img r fd d pos"
  shows "\<exists>r'. romfs_lseek_r fd off wh r = (map_option of_nat (seek_spec (length d) pos off wh), r') \<and>
    rom_open img r' fd d (case seek_spec (length d) pos off wh of None \<Rightarrow> pos | Some p \<Rightarrow> p) \<and>
    romfs_num_fd r' = romfs_num_fd r"
proof -
  obtain b where b: "fd < length (romfs_fd_table r)" "pos \<le> length d"
    "romfs_fd_table r ! fd = (rom_fs img b d)\<lparr>fs_offset := of_nat pos\<rparr>" "holds img b d" "b + length d < 2 ^ 31"
    using assms by (auto simp: rom_open_def)
  have lim: "length d < 2 ^ 31" "pos < 2 ^ 31" using b by simp_all
  have step: "\<exists>r'. (if (of_nat n + off :: u32) > of_nat (length d) then (None, r)
        else (Some (of_nat n + off), r\<lparr>romfs_fd_table := (romfs_fd_table r)[fd := (romfs_fd_table r ! fd)\<lparr>fs_offset := of_nat n + off\<rparr>]\<rparr>)) =
      (map_option of_nat sp, r') \<and>
      rom_open img r' fd d (case sp of None \<Rightarrow> pos | Some p \<Rightarrow> p) \<and> romfs_num_fd r' = romfs_num_fd r"
    if n: "n \<le> length d" "sp = (if 0 \<le> int n + sint off \<and> int n + sint off \<le> int (length d) then Some (nat (int n + sint off)) else None)"
    for n sp
  proof (cases "0 \<le> int n + sint off \<and> int n + sint off \<le> int (length d)")
    case True
    define t where "t = nat (int n + sint off)"
    have t: "(of_nat n + off :: u32) = of_nat t" "\<not> (of_nat n + off :: u32) > of_nat (length d)"
      using seek_word [OF le_less_trans [OF n(1) lim(1)] lim(1) n(1), of off] True unfolding t_def by blast+
    have sp: "sp = Some t" and le: "t \<le> length d" using n(2) True by (simp_all add: t_def nat_le_iff)
    show ?thesis
      by (simp only: t(1) if_not_P [OF t(2) [unfolded t(1)]] sp option.map option.case)
        (use rom_open_upd [OF assms le] in auto)
  next
    case False
    then have "of_nat (length d) < of_nat n + off" "sp = None"
      using seek_word(1) [OF le_less_trans [OF n(1) lim(1)] lim(1) n(1), of off] n(2) by (blast, simp)
    then show ?thesis using assms by simp
  qed
  show ?thesis
  proof (cases "wh = SEEK_OTHER")
    case True
    then show ?thesis using assms by (simp add: romfs_lseek_r_def seek_spec_def seek_target_def Let_def)
  next
    case False
    define n where "n = (case wh of SEEK_SET \<Rightarrow> 0 | SEEK_CUR \<Rightarrow> pos | _ \<Rightarrow> length d)"
    have n: "n \<le> length d" using b(2) by (cases wh) (simp_all add: n_def)
    have sp: "seek_spec (length d) pos off wh =
        (if 0 \<le> int n + sint off \<and> int n + sint off \<le> int (length d) then Some (nat (int n + sint off)) else None)"
      using False by (cases wh) (simp_all add: seek_spec_def seek_target_def n_def)
    have lhs: "romfs_lseek_r fd off wh r = (if (of_nat n + off :: u32) > of_nat (length d) then (None, r)
        else (Some (of_nat n + off), r\<lparr>romfs_fd_table := (romfs_fd_table r)[fd := (romfs_fd_table r ! fd)\<lparr>fs_offset := of_nat n + off\<rparr>]\<rparr>))"
      using False b(3) by (cases wh) (simp_all add: romfs_lseek_r_def rom_fs_def Let_def n_def)
    show ?thesis unfolding lhs by (rule step [OF n sp])
  qed
qed

text \<open>A program that reads and seeks on one descriptor, and the same program on a byte list.\<close>

datatype rom_op = RRead u32 | RSeek u32 whence
datatype rom_res = RBytes "u8 list" | RPos "u32 option"

primrec rom_run :: "mem \<Rightarrow> nat \<Rightarrow> rom_op list \<Rightarrow> romfs \<Rightarrow> rom_res list" where
  "rom_run img fd [] r = []"
| "rom_run img fd (x # xs) r = (case x of
      RRead len \<Rightarrow> (case romfs_read_r img fd len r of (bs, r') \<Rightarrow> RBytes bs # rom_run img fd xs r')
    | RSeek off wh \<Rightarrow> (case romfs_lseek_r fd off wh r of (q, r') \<Rightarrow> RPos q # rom_run img fd xs r'))"

primrec list_run :: "u8 list \<Rightarrow> rom_op list \<Rightarrow> nat \<Rightarrow> rom_res list" where
  "list_run d [] pos = []"
| "list_run d (x # xs) pos = (case x of
      RRead len \<Rightarrow> RBytes (take (unat len) (drop pos d)) # list_run d xs (min (pos + unat len) (length d))
    | RSeek off wh \<Rightarrow> (case seek_spec (length d) pos off wh of
          None \<Rightarrow> RPos None # list_run d xs pos
        | Some p \<Rightarrow> RPos (Some (of_nat p)) # list_run d xs p))"

lemma rom_run_refines: "rom_open img r fd d pos \<Longrightarrow> rom_run img fd xs r = list_run d xs pos"
proof (induction xs arbitrary: r pos)
  case (Cons x xs)
  show ?case
  proof (cases x)
    case (RRead len)
    then show ?thesis using rom_read_step [OF Cons.prems, of len] Cons.IH by auto
  next
    case (RSeek off wh)
    then show ?thesis using rom_seek_step [OF Cons.prems, of off wh] Cons.IH
      by (cases "seek_spec (length d) pos off wh") auto
  qed
qed simp

subsection \<open>The descriptor table\<close>

definition fd_used :: "romfs \<Rightarrow> nat \<Rightarrow> bool" where
  "fd_used r fd \<longleftrightarrow> fd < length (romfs_fd_table r) \<and> p_read_func (romfs_fd_table r ! fd) \<noteq> None"

definition romfs_inv :: "romfs \<Rightarrow> bool" where
  "romfs_inv r \<longleftrightarrow> length (romfs_fd_table r) = ROMFS_MAX_FDS \<and> romfs_num_fd r = int (card {fd. fd_used r fd})"

lemma find_from:
  "(romfs_find_from i fs = -1 \<and> (\<forall>k < length fs. p_read_func (fs ! k) \<noteq> None)) \<or>
   (\<exists>k < length fs. romfs_find_from i fs = int (i + k) \<and> p_read_func (fs ! k) = None \<and>
      (\<forall>j < k. p_read_func (fs ! j) \<noteq> None))"
proof (induction fs arbitrary: i)
  case (Cons f fs)
  show ?case
  proof (cases "p_read_func f = None")
    case True
    then show ?thesis by (intro disjI2 exI [of _ 0]) simp
  next
    case False
    from Cons.IH [of "i + 1"] show ?thesis
    proof
      assume "romfs_find_from (i + 1) fs = -1 \<and> (\<forall>k < length fs. p_read_func (fs ! k) \<noteq> None)"
      then show ?thesis using False by (intro disjI1) (auto simp: less_Suc_eq_0_disj)
    next
      assume "\<exists>k < length fs. romfs_find_from (i + 1) fs = int (i + 1 + k) \<and> p_read_func (fs ! k) = None \<and>
        (\<forall>j < k. p_read_func (fs ! j) \<noteq> None)"
      then obtain k where "k < length fs" "romfs_find_from (i + 1) fs = int (i + 1 + k)" "p_read_func (fs ! k) = None"
        "\<forall>j < k. p_read_func (fs ! j) \<noteq> None" by blast
      then show ?thesis using False by (intro disjI2 exI [of _ "Suc k"]) (auto simp: less_Suc_eq_0_disj)
    qed
  qed
qed simp

lemma find_empty_spec:
  assumes "romfs_inv r"
  shows "if romfs_num_fd r = int ROMFS_MAX_FDS then romfs_find_empty_fd r = -1
    else \<exists>fd < ROMFS_MAX_FDS. romfs_find_empty_fd r = int fd \<and> \<not> fd_used r fd \<and> (\<forall>k < fd. fd_used r k)"
proof -
  let ?t = "romfs_fd_table r"
  have len: "length ?t = ROMFS_MAX_FDS" using assms by (simp add: romfs_inv_def)
  have sub: "{fd. fd_used r fd} \<subseteq> {..<ROMFS_MAX_FDS}" using len by (auto simp: fd_used_def)
  from find_from [of 0 ?t] show ?thesis
  proof
    assume *: "romfs_find_from 0 ?t = -1 \<and> (\<forall>k < length ?t. p_read_func (?t ! k) \<noteq> None)"
    then have "{fd. fd_used r fd} = {..<ROMFS_MAX_FDS}" using len by (auto simp: fd_used_def)
    then show ?thesis using assms * by (simp add: romfs_inv_def romfs_find_empty_fd_def)
  next
    assume "\<exists>k < length ?t. romfs_find_from 0 ?t = int (0 + k) \<and> p_read_func (?t ! k) = None \<and>
      (\<forall>j < k. p_read_func (?t ! j) \<noteq> None)"
    then obtain k where k: "k < length ?t" "romfs_find_from 0 ?t = int k" "p_read_func (?t ! k) = None"
      "\<forall>j < k. p_read_func (?t ! j) \<noteq> None" by auto
    then have "k \<notin> {fd. fd_used r fd}" "k \<in> {..<ROMFS_MAX_FDS}" using len by (auto simp: fd_used_def)
    then have "{fd. fd_used r fd} \<subset> {..<ROMFS_MAX_FDS}" using sub by blast
    then have "card {fd. fd_used r fd} < ROMFS_MAX_FDS"
      using psubset_card_mono [of "{..<ROMFS_MAX_FDS}"] by simp
    then have "romfs_num_fd r \<noteq> int ROMFS_MAX_FDS" using assms by (simp add: romfs_inv_def)
    moreover have "\<forall>j < k. fd_used r j" using k by (auto simp: fd_used_def)
    ultimately show ?thesis using k len by (auto simp: romfs_find_empty_fd_def fd_used_def)
  qed
qed

lemma fd_used_upd:
  assumes "fd < length (romfs_fd_table r)"
  shows "fd_used (r\<lparr>romfs_fd_table := (romfs_fd_table r)[fd := f], romfs_num_fd := n\<rparr>) k \<longleftrightarrow>
    (if k = fd then p_read_func f \<noteq> None else fd_used r k)"
  using assms by (auto simp: fd_used_def nth_list_update)

lemma finite_fd_used [simp]: "finite {fd. fd_used r fd}"
  by (rule finite_subset [of _ "{..<length (romfs_fd_table r)}"]) (auto simp: fd_used_def)

lemma romfs_open_cases:
  assumes "romfs_inv r" "rom_image_ok img 0 fs"
  shows "romfs_open_r img path r =
      (if romfs_num_fd r = int ROMFS_MAX_FDS then Some (Inr (Inl ENFILE, r))
       else case rom_lookup path 0 fs of
         None \<Rightarrow> Some (Inr (Inl ENOENT, r))
       | Some (b, d) \<Rightarrow> Some (Inr (Inr (nat (romfs_find_empty_fd r)),
           r\<lparr>romfs_fd_table := (romfs_fd_table r)[nat (romfs_find_empty_fd r) := rom_fs img b d],
             romfs_num_fd := romfs_num_fd r + 1\<rparr>)))"
  using find_empty_spec [OF assms(1)] open_loop_lookup [OF assms(2), of path]
  by (auto simp: romfs_open_r_def romfs_open_file_def Let_def split: option.splits if_splits)

lemma romfs_inv_open:
  assumes "romfs_inv r" "romfs_num_fd r \<noteq> int ROMFS_MAX_FDS" "fd = nat (romfs_find_empty_fd r)"
    "r' = r\<lparr>romfs_fd_table := (romfs_fd_table r)[fd := rom_fs img b d], romfs_num_fd := romfs_num_fd r + 1\<rparr>"
  shows "romfs_inv r' \<and> \<not> fd_used r fd \<and> fd_used r' fd \<and> (\<forall>k. k \<noteq> fd \<longrightarrow> romfs_fd_table r' ! k = romfs_fd_table r ! k)"
proof -
  have fd: "fd < length (romfs_fd_table r)" "\<not> fd_used r fd"
    using find_empty_spec [OF assms(1)] assms(1-3) by (auto simp: romfs_inv_def)
  have u: "fd_used r' k \<longleftrightarrow> k = fd \<or> fd_used r k" for k
    using fd_used_upd [OF fd(1), where f = "rom_fs img b d"] unfolding assms(4) by (simp add: rom_fs_def)
  then have "{k. fd_used r' k} = insert fd {k. fd_used r k}" by auto
  then have "card {k. fd_used r' k} = Suc (card {k. fd_used r k})" using fd(2) by simp
  then show ?thesis using assms(1) fd u by (simp add: romfs_inv_def assms(4))
qed

lemma romfs_inv_close:
  assumes "romfs_inv r" "fd_used r fd"
  shows "romfs_inv (snd (romfs_close_r fd r)) \<and> \<not> fd_used (snd (romfs_close_r fd r)) fd"
proof -
  have fd: "fd < length (romfs_fd_table r)" using assms(2) by (simp add: fd_used_def)
  have r': "snd (romfs_close_r fd r) = r\<lparr>romfs_fd_table := (romfs_fd_table r)[fd := romfs_zero], romfs_num_fd := romfs_num_fd r - 1\<rparr>"
    by (simp add: romfs_close_r_def romfs_close_fd_def Let_def)
  have u: "fd_used (snd (romfs_close_r fd r)) k \<longleftrightarrow> k \<noteq> fd \<and> fd_used r k" for k
    unfolding r' using fd_used_upd [OF fd] by (simp add: romfs_zero_def)
  then have "{k. fd_used (snd (romfs_close_r fd r)) k} = {k. fd_used r k} - {fd}" by auto
  moreover have "0 < card {k. fd_used r k}" using assms(2) by (simp add: card_gt_0_iff) blast
  ultimately have "int (card {k. fd_used (snd (romfs_close_r fd r)) k}) = int (card {k. fd_used r k}) - 1"
    using assms(2) by (simp add: of_nat_diff Suc_leI)
  then show ?thesis using assms(1) u by (simp add: romfs_inv_def r')
qed

lemma romfs_open_missing:
  assumes "romfs_inv r" "rom_image_ok img 0 fs" "romfs_num_fd r \<noteq> int ROMFS_MAX_FDS"
    and "find (\<lambda>f. c_strncaseeq DM_MAX_FNAME_LENGTH path (fst f)) fs = None"
  shows "romfs_open_r img path r = Some (Inr (Inl ENOENT, r))"
  using romfs_open_cases [OF assms(1,2), of path] assms(3,4) rom_lookup_find [of path 0 fs] by simp

lemma romfs_open_found:
  assumes "romfs_inv r" "rom_image_ok img 0 fs" "romfs_num_fd r \<noteq> int ROMFS_MAX_FDS"
    and "find (\<lambda>f. c_strncaseeq DM_MAX_FNAME_LENGTH path (fst f)) fs = Some (nm, d)"
  shows "\<exists>fd r'. romfs_open_r img path r = Some (Inr (Inr fd, r')) \<and> fd < ROMFS_MAX_FDS \<and> \<not> fd_used r fd \<and> romfs_inv r' \<and>
    (\<forall>k. k \<noteq> fd \<longrightarrow> romfs_fd_table r' ! k = romfs_fd_table r ! k) \<and> rom_open img r' fd d 0"
proof -
  obtain b d' where bd: "rom_lookup path 0 fs = Some (b, d')"
    using rom_lookup_find [of path 0 fs] assms(4) by (cases "rom_lookup path 0 fs") auto
  have h: "holds img b d" "b + length d < 2 ^ 31" "d' = d"
    using rom_lookup_data [OF assms(2) bd] assms(4) by auto
  let ?fd = "nat (romfs_find_empty_fd r)"
  let ?r = "r\<lparr>romfs_fd_table := (romfs_fd_table r)[?fd := rom_fs img b d], romfs_num_fd := romfs_num_fd r + 1\<rparr>"
  have inv: "romfs_inv ?r \<and> \<not> fd_used r ?fd \<and> fd_used ?r ?fd \<and> (\<forall>k. k \<noteq> ?fd \<longrightarrow> romfs_fd_table ?r ! k = romfs_fd_table r ! k)"
    by (rule romfs_inv_open [OF assms(1,3) refl refl])
  then have fd: "?fd < length (romfs_fd_table r)" by (simp add: fd_used_def)
  then have "rom_open img ?r ?fd d 0" using h by (auto simp: rom_open_def rom_fs_def)
  moreover have "?fd < ROMFS_MAX_FDS" using fd assms(1) by (simp add: romfs_inv_def)
  ultimately show ?thesis
    using inv romfs_open_cases [OF assms(1,2), of path] assms(3) bd h(3) by auto
qed

subsection \<open>Properties\<close>

text \<open>C10. Files of a ROM image: with a free descriptor, opening a path in an image that was written for
  a list of files ends, and finds the first file whose name matches (up to case, within 30
  characters); any program of reads and seeks on the new descriptor then behaves as on the byte
  list of that file, starting at position 0, and the other descriptors keep their files. If no
  name matches, the result is "no such file" and nothing changes.\<close>

theorem romfs_open_serves_file:
  assumes "romfs_inv r" "rom_image_ok img 0 fs" "romfs_num_fd r \<noteq> int ROMFS_MAX_FDS"
  shows "case find (\<lambda>f. c_strncaseeq DM_MAX_FNAME_LENGTH path (fst f)) fs of
      None \<Rightarrow> romfs_open_r img path r = Some (Inr (Inl ENOENT, r))
    | Some (nm, d) \<Rightarrow> \<exists>fd r'. romfs_open_r img path r = Some (Inr (Inr fd, r')) \<and> \<not> fd_used r fd \<and> romfs_inv r' \<and>
        (\<forall>k. k \<noteq> fd \<longrightarrow> romfs_fd_table r' ! k = romfs_fd_table r ! k) \<and>
        (\<forall>prog. rom_run img fd prog r' = list_run d prog 0)"
  using romfs_open_missing [OF assms, of path] romfs_open_found [OF assms, of path] rom_run_refines
  by (auto split: option.split)

definition rom_demo_files :: "rom_file list" where
  "rom_demo_files = [([0x61], [1, 2, 3]), ([0x62, 0x63], [7, 8])]"

definition rom_demo_img :: mem where
  "rom_demo_img = mem_store (\<lambda>_. 0) 0 (rom_image 0 rom_demo_files)"

definition rom_empty :: romfs where
  "rom_empty = \<lparr>romfs_fd_table = replicate 4 romfs_zero, romfs_num_fd = 0, romfs_dir_data = 0\<rparr>"

lemma rom_demo_ok: "rom_image_ok rom_demo_img 0 rom_demo_files" "romfs_inv rom_empty"
proof -
  show "rom_image_ok rom_demo_img 0 rom_demo_files"
    unfolding rom_image_ok_def rom_demo_img_def
  proof (intro conjI holds_store)
    show "0 + length (rom_image 0 rom_demo_files) < 2 ^ 31"
      by (simp add: rom_demo_files_def rom_header_def le32_def data_at_def next_at_def align4_def)
  qed (simp add: rom_demo_files_def rom_name_ok_def)
  have "\<not> fd_used rom_empty k" for k
    by (auto simp: fd_used_def rom_empty_def romfs_zero_def)
  then show "romfs_inv rom_empty" by (simp add: romfs_inv_def) (simp add: rom_empty_def)
qed

theorem romfs_open_serves_file_witness:
  "\<exists>fd r'. romfs_open_r rom_demo_img [0x42, 0x43] rom_empty = Some (Inr (Inr fd, r')) \<and>
     rom_run rom_demo_img fd [RRead 1, RSeek 0 SEEK_SET, RRead 9] r' = [RBytes [7], RPos (Some 0), RBytes [7, 8]]"
proof -
  have "romfs_num_fd rom_empty \<noteq> int ROMFS_MAX_FDS" by (simp add: rom_empty_def)
  from romfs_open_serves_file [OF rom_demo_ok(2,1) this, of "[0x42, 0x43]"]
  show ?thesis
    by (auto simp: rom_demo_files_def c_strncaseeq_def c_tolower_def seek_spec_def seek_target_def simp del: rom_run.simps)
qed

text \<open>Reading a directory \<open>n\<close> times.\<close>

primrec romfs_readdirs :: "mem \<Rightarrow> nat \<Rightarrow> romfs \<Rightarrow> (c_fault + (u8 list \<times> u32) option list) option" where
  "romfs_readdirs img 0 r = Some (Inr [])"
| "romfs_readdirs img (Suc n) r = (case romfs_readdir_r img r of
      None \<Rightarrow> None
    | Some (Inl e) \<Rightarrow> Some (Inl e)
    | Some (Inr (ent, r')) \<Rightarrow> (case romfs_readdirs img n r' of
          None \<Rightarrow> None
        | Some (Inl e) \<Rightarrow> Some (Inl e)
        | Some (Inr es) \<Rightarrow> Some (Inr (ent # es))))"

lemma romfs_readdir_at_end:
  assumes "rom_image_ok img i []" "romfs_dir_data r = of_nat i"
  shows "romfs_readdirs img n r = Some (Inr (replicate n None))"
proof (induction n)
  case (Suc n)
  have "romfs_readdir_r img r = Some (Inr (None, r))"
    using rom_end(2) [OF assms(1)] assms(2) by (simp add: romfs_readdir_r_def)
  then show ?case using Suc by simp
qed simp

lemma romfs_readdirs_list:
  "rom_image_ok img i fs \<Longrightarrow> romfs_dir_data r = of_nat i \<Longrightarrow>
   romfs_readdirs img (length fs + n) r =
     Some (Inr (map (\<lambda>f. Some (fst f, of_nat (length (snd f)))) fs @ replicate n None))"
proof (induction fs arbitrary: i r)
  case Nil
  then show ?case using romfs_readdir_at_end by simp
next
  case (Cons f fs)
  note e = rom_entry [OF Cons.prems(1)] and ok = rom_image_ok_Cons [OF Cons.prems(1)]
  let ?r = "r\<lparr>romfs_dir_data := of_nat (next_at i f)\<rparr>"
  have "length (fst f) \<le> 30" using ok(5) by (simp add: rom_name_ok_def)
  then have "romfs_readdir_r img r = Some (Inr (Some (fst f, of_nat (length (snd f))), ?r))"
    using e Cons.prems(2) by (simp add: romfs_readdir_r_def Let_def next_at_def)
  moreover have "romfs_readdirs img (length fs + n) ?r =
     Some (Inr (map (\<lambda>f. Some (fst f, of_nat (length (snd f)))) fs @ replicate n None))"
    by (rule Cons.IH [OF ok(3)]) simp
  ultimately show ?case by simp
qed

text \<open>Listing the ROM directory: after opening it, the reads give name and size of every file of
  the image, in order and each once, and from then on "no more entries"; every read ends, and
  no name overruns the shared name buffer.\<close>

theorem romfs_readdir_lists_files:
  assumes "rom_image_ok img 0 fs" "romfs_opendir_r dname r = (True, r')"
  shows "romfs_readdirs img (length fs + n) r' =
    Some (Inr (map (\<lambda>f. Some (fst f, of_nat (length (snd f)))) fs @ replicate n None))"
proof (rule romfs_readdirs_list [OF assms(1)])
  show "romfs_dir_data r' = of_nat 0"
    using assms(2) by (auto simp: romfs_opendir_r_def split: if_splits)
qed

theorem romfs_readdir_lists_files_witness:
  "romfs_readdirs rom_demo_img 3 (snd (romfs_opendir_r (Some [0x2F]) rom_empty)) =
     Some (Inr [Some ([0x61], 3), Some ([0x62, 0x63], 2), None])"
proof -
  have "romfs_opendir_r (Some [0x2F]) rom_empty = (True, snd (romfs_opendir_r (Some [0x2F]) rom_empty))"
    by (simp add: romfs_opendir_r_def)
  from romfs_readdir_lists_files [OF rom_demo_ok(1) this, of 1]
  show ?thesis by (simp add: rom_demo_files_def numeral_3_eq_3 del: romfs_readdirs.simps)
qed

text \<open>A program of opens, and of closes of descriptors that are open at that point.\<close>

datatype fd_op = FOpen "u8 list" | FClose nat

primrec fd_run :: "mem \<Rightarrow> fd_op list \<Rightarrow> romfs \<Rightarrow> (c_fault + romfs) option" where
  "fd_run img [] r = Some (Inr r)"
| "fd_run img (x # xs) r = (case x of
      FOpen path \<Rightarrow> (case romfs_open_r img path r of
          None \<Rightarrow> None
        | Some (Inl e) \<Rightarrow> Some (Inl e)
        | Some (Inr (_, r')) \<Rightarrow> fd_run img xs r')
    | FClose fd \<Rightarrow> fd_run img xs (if fd_used r fd then snd (romfs_close_r fd r) else r))"

text \<open>C22. The descriptor table: through any sequence of opens (successful or not) and closes of open
  descriptors, every open ends and none writes outside the table; the counter always equals
  the number of used entries, so an open is refused with "too many files" exactly when all four
  descriptors are in use.\<close>

theorem romfs_table_safe:
  assumes "rom_image_ok img 0 fs" "romfs_inv r"
  shows "\<exists>r'. fd_run img prog r = Some (Inr r') \<and> romfs_inv r' \<and>
    ((\<exists>path. romfs_open_r img path r' = Some (Inr (Inl ENFILE, r'))) \<longleftrightarrow> (\<forall>fd < ROMFS_MAX_FDS. fd_used r' fd))"
  using assms(2)
proof (induction prog arbitrary: r)
  case Nil
  have "romfs_num_fd r = int ROMFS_MAX_FDS \<longleftrightarrow> (\<forall>fd < ROMFS_MAX_FDS. fd_used r fd)"
  proof
    assume a: "\<forall>fd < ROMFS_MAX_FDS. fd_used r fd"
    then have "{fd. fd_used r fd} = {..<ROMFS_MAX_FDS}"
      using Nil by (auto simp: romfs_inv_def fd_used_def)
    then show "romfs_num_fd r = int ROMFS_MAX_FDS" using Nil by (simp add: romfs_inv_def)
  next
    assume n: "romfs_num_fd r = int ROMFS_MAX_FDS"
    have "{fd. fd_used r fd} \<subseteq> {..<ROMFS_MAX_FDS}" using Nil by (auto simp: romfs_inv_def fd_used_def)
    moreover have "card {fd. fd_used r fd} = card {..<ROMFS_MAX_FDS}" using Nil n by (simp add: romfs_inv_def)
    ultimately have "{fd. fd_used r fd} = {..<ROMFS_MAX_FDS}" by (intro card_subset_eq) simp_all
    then show "\<forall>fd < ROMFS_MAX_FDS. fd_used r fd" by blast
  qed
  then show ?case using romfs_open_cases [OF Nil assms(1)] Nil by (auto split: if_splits option.splits)
next
  case (Cons x xs)
  show ?case
  proof (cases x)
    case (FOpen path)
    have "\<exists>res r'. romfs_open_r img path r = Some (Inr (res, r')) \<and> romfs_inv r'"
    proof (cases "romfs_num_fd r = int ROMFS_MAX_FDS")
      case True
      then show ?thesis using romfs_open_cases [OF Cons.prems assms(1), of path] Cons.prems by simp
    next
      case False
      then show ?thesis
        using romfs_open_cases [OF Cons.prems assms(1), of path] Cons.prems
          romfs_inv_open [OF Cons.prems False refl refl] by (auto split: option.splits)
    qed
    then show ?thesis using Cons.IH FOpen by auto
  next
    case (FClose fd)
    have "romfs_inv (if fd_used r fd then snd (romfs_close_r fd r) else r)"
      using romfs_inv_close [OF Cons.prems] Cons.prems by simp
    from Cons.IH [OF this] show ?thesis using FClose by simp
  qed
qed

theorem romfs_table_safe_witness:
  "\<exists>r'. fd_run rom_demo_img [FOpen [0x61], FOpen [0x61], FClose 0, FOpen [0x78]] rom_empty = Some (Inr r') \<and> romfs_inv r'"
  using romfs_table_safe [OF rom_demo_ok, of "[FOpen [0x61], FOpen [0x61], FClose 0, FOpen [0x78]]"] by blast

end
