(* ===== verification/Sermux.thy ===== *)
theory Sermux
  imports Buf Rfs_System
begin

unbundle bit_operations_syntax

text \<open>
  The serial multiplexer: several virtual UARTs (services) share one physical UART. The two
  ends of the line are \<^verbatim>\<open>src/common_uart.c\<close> on the target, which feeds the ring buffers of
  \<^verbatim>\<open>src/buf.c\<close>, and the loop of \<^verbatim>\<open>mux_src/main.c\<close> on the host, which serves one serial port per
  service and, in rfsmux mode, the remote file system on the first service. A byte that equals
  a control byte is sent escaped; a service identifier is sent only when the service changes;
  a receiver that does not know the current service asks for the identifier and the last byte
  again. The theory shows, for both directions, that every message arrives at its own service,
  in order, exactly once, and that a receiver that was reset recovers.
\<close>

subsection \<open>The line code\<close>

abbreviation SERMUX_FIRST :: u8 where "SERMUX_FIRST \<equiv> 0xD0"
abbreviation SERMUX_LAST :: u8 where "SERMUX_LAST \<equiv> 0xD7"
abbreviation SERMUX_ESCAPE_CHAR :: u8 where "SERMUX_ESCAPE_CHAR \<equiv> 0xC0"
abbreviation SERMUX_FORCE_SID_CHAR :: u8 where "SERMUX_FORCE_SID_CHAR \<equiv> 0xFF"
abbreviation SERMUX_ESCAPE_XOR_MASK :: u8 where "SERMUX_ESCAPE_XOR_MASK \<equiv> 0x20"
abbreviation SERMUX_ESC_MASK :: int where "SERMUX_ESC_MASK \<equiv> 0x100"

text \<open>The condition under which both ends escape a data byte.\<close>

definition sermux_special :: "u8 \<Rightarrow> bool" where
  "sermux_special c \<longleftrightarrow> c = SERMUX_ESCAPE_CHAR \<or> c = SERMUX_FORCE_SID_CHAR \<or>
     (SERMUX_FIRST \<le> c \<and> c \<le> SERMUX_LAST)"

subsection \<open>The target: \<^verbatim>\<open>common_uart.c\<close>\<close>

text \<open>
  The platform: the number of physical UARTs, of virtual ones, and the physical UART that
  carries the multiplexed line. Identifiers "none" are -1. An output is a physical UART and
  the byte given to \<^verbatim>\<open>platform_s_uart_send\<close>.
\<close>

record uart_conf =
  cf_num_uart :: nat
  cf_num_vuart :: nat
  cf_phys_id :: nat

record uart_sys =
  uart_service_id_in :: int
  uart_service_id_out :: int
  uart_got_esc :: u8
  uart_last_sent :: int
  uart_bufs :: buf_table

type_synonym uart_out = "(nat \<times> u8) list"

definition platform_uart_exists :: "uart_conf \<Rightarrow> nat \<Rightarrow> bool" where
  "platform_uart_exists cf uid \<longleftrightarrow> uid < cf_num_uart cf \<or>
     (SERMUX_SERVICE_ID_FIRST \<le> uid \<and> uid < SERMUX_SERVICE_ID_FIRST + cf_num_vuart cf)"

definition uart_buf_write :: "uart_conf \<Rightarrow> nat \<Rightarrow> u8 \<Rightarrow> uart_sys \<Rightarrow> c_fault + uart_sys" where
  "uart_buf_write cf uid data s =
     (case buf_write (cf_num_uart cf) (uart_bufs s) BUF_ID_UART uid [data] of
        Inl e \<Rightarrow> Inl e
      | Inr (_, t) \<Rightarrow> Inr (s\<lparr>uart_bufs := t\<rparr>))"

definition cmn_rx_handler :: "uart_conf \<Rightarrow> nat \<Rightarrow> u8 \<Rightarrow> uart_sys \<Rightarrow> c_fault + (uart_out \<times> uart_sys)" where
  "cmn_rx_handler cf usart_id data s =
     (if usart_id = cf_phys_id cf then
        (if data \<noteq> SERMUX_ESCAPE_CHAR then
           (if SERMUX_FIRST \<le> data \<and> unat data < SERMUX_SERVICE_ID_FIRST + cf_num_vuart cf
            then Inr ([], s\<lparr>uart_service_id_in := uint data\<rparr>)
            else if data = SERMUX_FORCE_SID_CHAR \<and> uart_last_sent s \<noteq> -1
            then Inr ([(cf_phys_id cf, of_int (uart_service_id_out s))] @
                      (if uart_last_sent s AND SERMUX_ESC_MASK \<noteq> 0 then [(cf_phys_id cf, SERMUX_ESCAPE_CHAR)] else []) @
                      [(cf_phys_id cf, of_int (uart_last_sent s AND 0xFF))],
                      s\<lparr>uart_last_sent := -1\<rparr>)
            else
              (let data' = (if uart_got_esc s \<noteq> 0 then data XOR SERMUX_ESCAPE_XOR_MASK else data);
                   s' = (if uart_got_esc s \<noteq> 0 then s\<lparr>uart_got_esc := 0\<rparr> else s)
               in if uart_service_id_in s' = -1
                  then Inr ([(cf_phys_id cf, SERMUX_FORCE_SID_CHAR)], s')
                  else (case uart_buf_write cf (nat (uart_service_id_in s')) data' s' of
                          Inl e \<Rightarrow> Inl e | Inr t \<Rightarrow> Inr ([], t))))
         else Inr ([], s\<lparr>uart_got_esc := 1\<rparr>))
      else (case uart_buf_write cf usart_id data s of Inl e \<Rightarrow> Inl e | Inr t \<Rightarrow> Inr ([], t)))"

text \<open>The interrupt handler drains the receiver; \<open>avail\<close> is what \<^verbatim>\<open>platform_s_uart_recv\<close> yields.\<close>

fun uart_rx_loop :: "uart_conf \<Rightarrow> nat \<Rightarrow> u8 list \<Rightarrow> uart_out \<times> uart_sys \<Rightarrow> c_fault + (uart_out \<times> uart_sys)" where
  "uart_rx_loop cf uid [] r = Inr r"
| "uart_rx_loop cf uid (c # avail) r =
     (case cmn_rx_handler cf uid c (snd r) of
        Inl e \<Rightarrow> Inl e
      | Inr (out, s) \<Rightarrow> uart_rx_loop cf uid avail (fst r @ out, s))"

definition cmn_uart_rx_inthandler :: "uart_conf \<Rightarrow> nat \<Rightarrow> u8 list \<Rightarrow> uart_sys \<Rightarrow> c_fault + (uart_out \<times> uart_sys)" where
  "cmn_uart_rx_inthandler cf resnum avail s =
     (if buf_is_enabled (cf_num_uart cf) (uart_bufs s) BUF_ID_UART resnum \<or> resnum = cf_phys_id cf
      then uart_rx_loop cf resnum avail ([], s)
      else Inr ([], s))"

definition platform_uart_send :: "uart_conf \<Rightarrow> nat \<Rightarrow> u8 \<Rightarrow> uart_sys \<Rightarrow> uart_out \<times> uart_sys" where
  "platform_uart_send cf uid data s =
     (if SERMUX_SERVICE_ID_FIRST \<le> uid \<and> uid < SERMUX_SERVICE_ID_FIRST + cf_num_vuart cf then
        (let o1 = (if int uid \<noteq> uart_service_id_out s then [(cf_phys_id cf, of_nat uid)] else []);
             s1 = s\<lparr>uart_last_sent := uint data\<rparr>
         in if sermux_special data
            then (o1 @ [(cf_phys_id cf, SERMUX_ESCAPE_CHAR), (cf_phys_id cf, data XOR SERMUX_ESCAPE_XOR_MASK)],
                  s1\<lparr>uart_last_sent := SERMUX_ESC_MASK OR uint (data XOR SERMUX_ESCAPE_XOR_MASK),
                     uart_service_id_out := int uid\<rparr>)
            else (o1 @ [(cf_phys_id cf, data)], s1\<lparr>uart_service_id_out := int uid\<rparr>))
      else ([(uid, data)], s))"

text \<open>
  Receiving: from the ring when buffering is on, else from the platform (\<open>hw\<close>). Without a
  time-out the code polls the ring until an interrupt fills it: with an empty ring and no
  further interrupt it does not return (\<open>None\<close>).
\<close>

definition cmn_recv_helper :: "uart_conf \<Rightarrow> (nat \<Rightarrow> int \<Rightarrow> int) \<Rightarrow> nat \<Rightarrow> int \<Rightarrow> uart_sys \<Rightarrow>
    (c_fault + (int \<times> uart_sys)) option" where
  "cmn_recv_helper cf hw uid timeout s =
     (if buf_is_enabled (cf_num_uart cf) (uart_bufs s) BUF_ID_UART uid
      then (case buf_read (cf_num_uart cf) (uart_bufs s) BUF_ID_UART uid [0] of
              Inl e \<Rightarrow> Some (Inl e)
            | Inr (r, d, t) \<Rightarrow>
                if r = PLATFORM_UNDERFLOW
                then (if timeout = 0 then Some (Inr (-1, s)) else None)
                else Some (Inr (uint (d ! 0), s\<lparr>uart_bufs := t\<rparr>)))
      else Some (Inr (hw uid timeout, s)))"

definition platform_uart_set_buffer :: "uart_conf \<Rightarrow> bool \<Rightarrow> (nat \<Rightarrow> u8) \<Rightarrow> nat \<Rightarrow> u8 \<Rightarrow> uart_sys \<Rightarrow> int \<times> bool \<times> uart_sys" where
  "platform_uart_set_buffer cf avail junk uid log2size s =
     (if uid = cf_phys_id cf then (PLATFORM_ERR, False, s)
      else if log2size = 0 then
        (if SERMUX_SERVICE_ID_FIRST \<le> uid then (PLATFORM_ERR, False, s)
         else (PLATFORM_OK, False,
               s\<lparr>uart_bufs := snd (buf_set (cf_num_uart cf) avail junk (uart_bufs s) BUF_ID_UART uid BUF_SIZE_NONE 0)\<rparr>))
      else (case buf_set (cf_num_uart cf) avail junk (uart_bufs s) BUF_ID_UART uid log2size 0 of
              (r, t) \<Rightarrow>
                if r = PLATFORM_ERR then (PLATFORM_ERR, False, s\<lparr>uart_bufs := t\<rparr>)
                else (PLATFORM_OK, uid < SERMUX_SERVICE_ID_FIRST, s\<lparr>uart_bufs := t\<rparr>)))"

subsection \<open>The host: the loop of \<^verbatim>\<open>mux_src/main.c\<close>\<close>

text \<open>
  The mode fixes the service that is the file server (\<open>-1\<close> in plain mux mode) and the offset of
  the first serial port; \<open>vport_num\<close> ports are open. The file server is the byte-fed transport of
  the Rfs_Server theory over the server's file system \<open>'w\<close>, with its packet buffer at address \<open>mx_buffer\<close>.
  An event is a byte sent on the line or a byte written to a serial port.
\<close>

record 'w mux_conf =
  mx_rfs_service_id :: int
  mx_service_offset :: int
  mx_vport_num :: nat
  mx_server :: "'w rfs_server"
  mx_buffer :: nat

record 'w mux_sys =
  mux_service_id_in :: int
  mux_service_id_out :: int
  mux_got_esc :: bool
  mux_prev_sent :: int
  mux_rfs_size :: u16
  mux_rfs_ptr :: nat
  mux_trans :: mem_trans
  mux_mem :: mem
  mux_world :: 'w

datatype mux_event = MuxLine u8 | MuxPort nat u8

text \<open>The loop goes on, the program ends with a protocol error, faults, or the server hangs.\<close>

datatype 'a mux_outcome = MuxCont 'a | MuxExit | MuxFault c_fault | MuxHang

definition mux_deliver :: "'w mux_conf \<Rightarrow> u8 \<Rightarrow> 'w mux_sys \<Rightarrow> (mux_event list \<times> 'w mux_sys) mux_outcome" where
  "mux_deliver cf c s =
     (if mux_service_id_in s = mx_rfs_service_id cf then
        (case rfs_mem_read_request_packet (mx_buffer cf) (uint c) (mux_trans s, mux_mem s) of
           (_, t, m) \<Rightarrow>
             (let s1 = s\<lparr>mux_trans := t, mux_mem := m\<rparr>
              in if rfs_mem_has_response t then
                   (case rfs_mem_write_response (mx_server cf) (mx_buffer cf) m (mux_world s1) of
                      None \<Rightarrow> MuxHang
                    | Some (Inl e) \<Rightarrow> MuxFault e
                    | Some (Inr (n, m', w')) \<Rightarrow>
                        MuxCont ([], s1\<lparr>mux_rfs_size := n, mux_rfs_ptr := mx_buffer cf, mux_mem := m',
                                        mux_world := w', mux_trans := rfs_mem_start_request\<rparr>))
                 else MuxCont ([], s1)))
      else (let i = mux_service_id_in s - int SERMUX_SERVICE_ID_FIRST - mx_service_offset cf
            in if 0 \<le> i \<and> i < int (mx_vport_num cf) then MuxCont ([MuxPort (nat i) c], s)
               else MuxFault OutOfBounds))"

definition mux_transport_byte :: "'w mux_conf \<Rightarrow> u8 \<Rightarrow> 'w mux_sys \<Rightarrow> (mux_event list \<times> 'w mux_sys) mux_outcome" where
  "mux_transport_byte cf c s =
     (if c \<noteq> SERMUX_ESCAPE_CHAR then
        (if SERMUX_FIRST \<le> c \<and> c \<le> SERMUX_LAST then MuxCont ([], s\<lparr>mux_service_id_in := uint c\<rparr>)
         else if c = SERMUX_FORCE_SID_CHAR then
           (if mux_prev_sent s = -1 then MuxExit
            else MuxCont ([MuxLine (of_int (mux_service_id_out s))] @
                          (if mux_prev_sent s AND SERMUX_ESC_MASK \<noteq> 0 then [MuxLine SERMUX_ESCAPE_CHAR] else []) @
                          [MuxLine (of_int (mux_prev_sent s AND 0xFF))],
                          s\<lparr>mux_prev_sent := -1\<rparr>))
         else
           (let c' = (if mux_got_esc s then c XOR SERMUX_ESCAPE_XOR_MASK else c)
            in if mux_got_esc s \<and> \<not> sermux_special c' then MuxExit
               else (let s' = s\<lparr>mux_got_esc := False\<rparr>
                     in if mux_service_id_in s' = -1
                        then MuxCont ([MuxLine SERMUX_FORCE_SID_CHAR], s')
                        else mux_deliver cf c' s')))
      else MuxCont ([], s\<lparr>mux_got_esc := True\<rparr>))"

text \<open>A byte of port \<open>selidx - 1\<close>, or of the file server (\<open>RFS_PSEUDO_SELIDX\<close>), goes to the line.\<close>

abbreviation HND_TRANSPORT_OFFSET :: int where "HND_TRANSPORT_OFFSET \<equiv> 0"
abbreviation HND_FIRST_VOFFSET :: int where "HND_FIRST_VOFFSET \<equiv> 1"
abbreviation RFS_PSEUDO_SELIDX :: int where "RFS_PSEUDO_SELIDX \<equiv> 0xFF"

definition mux_service_byte :: "'w mux_conf \<Rightarrow> int \<Rightarrow> u8 \<Rightarrow> 'w mux_sys \<Rightarrow> mux_event list \<times> 'w mux_sys" where
  "mux_service_byte cf selidx c s =
     (let temp = (if selidx = RFS_PSEUDO_SELIDX then int SERMUX_SERVICE_ID_FIRST
                  else int SERMUX_SERVICE_ID_FIRST + selidx - HND_FIRST_VOFFSET + mx_service_offset cf);
          o1 = (if temp \<noteq> mux_service_id_out s then [MuxLine (of_int temp)] else []);
          s1 = s\<lparr>mux_prev_sent := uint c\<rparr>
      in if sermux_special c
         then (o1 @ [MuxLine SERMUX_ESCAPE_CHAR, MuxLine (c XOR SERMUX_ESCAPE_XOR_MASK)],
               s1\<lparr>mux_prev_sent := SERMUX_ESC_MASK OR uint (c XOR SERMUX_ESCAPE_XOR_MASK),
                  mux_service_id_out := temp\<rparr>)
         else (o1 @ [MuxLine c], s1\<lparr>mux_service_id_out := temp\<rparr>))"

text \<open>
  One iteration of the main loop. A pending response of the file server goes first; otherwise
  \<open>sel\<close> is what \<^verbatim>\<open>ser_select_byte\<close> returns, the handler's index times 256 plus the byte, or -1.
\<close>

definition mux_main_step :: "'w mux_conf \<Rightarrow> int \<Rightarrow> 'w mux_sys \<Rightarrow> (mux_event list \<times> 'w mux_sys) mux_outcome" where
  "mux_main_step cf sel s =
     (if 0 < mux_rfs_size s
      then MuxCont (mux_service_byte cf RFS_PSEUDO_SELIDX (mux_mem s (mux_rfs_ptr s))
             (s\<lparr>mux_rfs_ptr := mux_rfs_ptr s + 1, mux_rfs_size := mux_rfs_size s - 1\<rparr>))
      else if sel = -1 then MuxExit
      else (let selidx = drop_bit 8 sel; c = of_int (sel AND 0xFF)
            in if selidx = HND_TRANSPORT_OFFSET then mux_transport_byte cf c s
               else MuxCont (mux_service_byte cf selidx c s)))"

text \<open>
  The loop over a list of select results, with the events collected: a pending response is sent
  before the next select, and the run ends when both are used up.
\<close>

lemma mux_main_step_drains:
  "0 < mux_rfs_size s \<Longrightarrow> mux_main_step cf sel s = MuxCont (ev, s') \<Longrightarrow>
     unat (mux_rfs_size s') < unat (mux_rfs_size s)"
  by (auto simp: mux_main_step_def mux_service_byte_def Let_def split: if_splits)
    (auto simp: unat_minus_one word_greater_zero_iff unat_gt_0)

function mux_run :: "'w mux_conf \<Rightarrow> int list \<Rightarrow> mux_event list \<times> 'w mux_sys \<Rightarrow> (mux_event list \<times> 'w mux_sys) mux_outcome" where
  "mux_run cf sels (ev, s) =
     (if 0 < mux_rfs_size s then
        (case mux_main_step cf (-1) s of
           MuxCont (e, s') \<Rightarrow> mux_run cf sels (ev @ e, s')
         | MuxExit \<Rightarrow> MuxExit | MuxFault e \<Rightarrow> MuxFault e | MuxHang \<Rightarrow> MuxHang)
      else (case sels of
              [] \<Rightarrow> MuxCont (ev, s)
            | x # xs \<Rightarrow>
                (case mux_main_step cf x s of
                   MuxCont (e, s') \<Rightarrow> mux_run cf xs (ev @ e, s')
                 | MuxExit \<Rightarrow> MuxExit | MuxFault e \<Rightarrow> MuxFault e | MuxHang \<Rightarrow> MuxHang)))"
  by pat_completeness auto
termination
  by (relation "measures [\<lambda>(cf, sels, r). length sels, \<lambda>(cf, sels, r). unat (mux_rfs_size (snd r))]")
    (auto dest: mux_main_step_drains)

declare mux_run.simps [simp del]

subsection \<open>The line code, both ways\<close>

lemma sermux_special_cases:
  "sermux_special c \<longleftrightarrow> c \<in> {0xC0, 0xFF, 0xD0, 0xD1, 0xD2, 0xD3, 0xD4, 0xD5, 0xD6, 0xD7}"
proof
  assume "sermux_special c"
  then consider "c = 0xC0" | "c = 0xFF" | "208 \<le> uint c \<and> uint c \<le> 215"
    by (auto simp: sermux_special_def word_le_def)
  then show "c \<in> {0xC0, 0xFF, 0xD0, 0xD1, 0xD2, 0xD3, 0xD4, 0xD5, 0xD6, 0xD7}"
  proof cases
    case 3
    then consider "uint c = 208" | "uint c = 209" | "uint c = 210" | "uint c = 211" | "uint c = 212"
      | "uint c = 213" | "uint c = 214" | "uint c = 215" by linarith
    then show ?thesis by cases (simp_all add: word_uint_eq_iff)
  qed simp_all
qed (auto simp: sermux_special_def)

lemma sermux_special_xor:
  assumes "sermux_special c"
  shows "\<not> sermux_special (c XOR 0x20)" "c XOR 0x20 \<noteq> 0xC0" "c XOR 0x20 \<noteq> 0xFF"
    "\<not> (0xD0 \<le> c XOR 0x20 \<and> c XOR 0x20 \<le> 0xD7)" "(c XOR 0x20) XOR 0x20 = c"
  using assms unfolding sermux_special_cases by auto

lemma bit_256: "bit (256 :: int) n \<longleftrightarrow> n = 8"
proof -
  have "(256 :: int) = 2 ^ 8" by simp
  then show ?thesis by (metis bit_exp_iff possible_bit_int)
qed

lemma bit_255: "bit (255 :: int) n \<longleftrightarrow> n < 8"
proof -
  have "(255 :: int) = mask 8" by (simp add: mask_eq_exp_minus_1)
  then show ?thesis by (simp only: bit_mask_iff) simp
qed

lemma sermux_esc_word:
  "(256 OR uint (x :: u8)) AND 256 = 256" "(256 OR uint x) AND 255 = uint x"
  "uint x AND 256 = 0" "uint x AND 255 = uint x"
  by ((rule bit_eqI, auto simp: bit_simps bit_256 bit_255 dest: bit_imp_le_length)[1])+

subsection \<open>One direction of the line as a channel\<close>

text \<open>
  The contract of one direction: the sender turns a message (service, byte) into line bytes, the
  receiver consumes line bytes, \<open>view\<close> is what the rest of the system sees of the receiver, and
  \<open>deliver\<close> is what one message is supposed to do to that view. One message is delivered, and
  the ends stay in step; the lemma extends this to any sequence of messages.
\<close>

fun send_msgs :: "(nat \<times> u8 \<Rightarrow> 's \<Rightarrow> u8 list \<times> 's) \<Rightarrow> (nat \<times> u8) list \<Rightarrow> 's \<Rightarrow> u8 list \<times> 's" where
  "send_msgs send [] s = ([], s)"
| "send_msgs send (m # ms) s =
     (case send m s of (bs, s1) \<Rightarrow> (case send_msgs send ms s1 of (bs', s2) \<Rightarrow> (bs @ bs', s2)))"

fun deliver_msgs :: "(nat \<times> u8 \<Rightarrow> 'v \<Rightarrow> 'v option) \<Rightarrow> (nat \<times> u8) list \<Rightarrow> 'v \<Rightarrow> 'v option" where
  "deliver_msgs deliver [] v = Some v"
| "deliver_msgs deliver (m # ms) v =
     (case deliver m v of None \<Rightarrow> None | Some v' \<Rightarrow> deliver_msgs deliver ms v')"

locale mux_channel =
  fixes send :: "nat \<times> u8 \<Rightarrow> 's \<Rightarrow> u8 list \<times> 's"
    and recv :: "u8 list \<Rightarrow> 'r \<Rightarrow> 'r option"
    and view :: "'r \<Rightarrow> 'v"
    and deliver :: "nat \<times> u8 \<Rightarrow> 'v \<Rightarrow> 'v option"
    and insync :: "'s \<Rightarrow> 'r \<Rightarrow> bool"
    and service :: "nat \<Rightarrow> bool"
  assumes recv_Nil: "insync s r \<Longrightarrow> recv [] r = Some r"
    and recv_append: "recv (xs @ ys) r = Option.bind (recv xs r) (recv ys)"
    and one_message: "insync s r \<Longrightarrow> service (fst m) \<Longrightarrow> deliver m (view r) = Some v \<Longrightarrow>
      \<exists>r'. recv (fst (send m s)) r = Some r' \<and> view r' = v \<and> insync (snd (send m s)) r'"
begin

lemma all_messages:
  "insync s r \<Longrightarrow> \<forall>m \<in> set ms. service (fst m) \<Longrightarrow> deliver_msgs deliver ms (view r) = Some v \<Longrightarrow>
   \<exists>r'. recv (fst (send_msgs send ms s)) r = Some r' \<and> view r' = v \<and> insync (snd (send_msgs send ms s)) r'"
proof (induction ms arbitrary: s r)
  case Nil
  then show ?case using recv_Nil by simp
next
  case (Cons m ms)
  obtain v1 where v1: "deliver m (view r) = Some v1" "deliver_msgs deliver ms v1 = Some v"
    using Cons.prems(3) by (auto split: option.splits)
  obtain bs s1 where b: "send m s = (bs, s1)" by fastforce
  obtain r1 where r1: "recv bs r = Some r1" "view r1 = v1" "insync s1 r1"
    using one_message [OF Cons.prems(1) _ v1(1)] Cons.prems(2) b by auto
  then show ?case
    using Cons.IH [of s1 r1] Cons.prems(2) v1 b
    by (auto simp: recv_append split: prod.splits)
qed

end

subsubsection \<open>Host to target\<close>

definition mux_selidx :: "'w mux_conf \<Rightarrow> nat \<Rightarrow> int" where
  "mux_selidx cf sid =
     (if int sid = mx_rfs_service_id cf then RFS_PSEUDO_SELIDX
      else int sid - int SERMUX_SERVICE_ID_FIRST + HND_FIRST_VOFFSET - mx_service_offset cf)"

definition mux_events_line :: "mux_event list \<Rightarrow> u8 list" where
  "mux_events_line ev = concat (map (\<lambda>e. case e of MuxLine c \<Rightarrow> [c] | MuxPort _ _ \<Rightarrow> []) ev)"

definition host_send :: "'w mux_conf \<Rightarrow> nat \<times> u8 \<Rightarrow> 'w mux_sys \<Rightarrow> u8 list \<times> 'w mux_sys" where
  "host_send cf m s = (case mux_service_byte cf (mux_selidx cf (fst m)) (snd m) s of
     (ev, s') \<Rightarrow> (mux_events_line ev, s'))"

definition target_recv :: "uart_conf \<Rightarrow> u8 list \<Rightarrow> uart_out \<times> uart_sys \<Rightarrow> (uart_out \<times> uart_sys) option" where
  "target_recv cf bs r = (case uart_rx_loop cf (cf_phys_id cf) bs r of Inl _ \<Rightarrow> None | Inr r' \<Rightarrow> Some r')"

definition target_view :: "uart_out \<times> uart_sys \<Rightarrow> uart_out \<times> buf_table" where
  "target_view r = (fst r, uart_bufs (snd r))"

definition target_deliver :: "uart_conf \<Rightarrow> nat \<times> u8 \<Rightarrow> uart_out \<times> buf_table \<Rightarrow> (uart_out \<times> buf_table) option" where
  "target_deliver cf m v = (case buf_write (cf_num_uart cf) (snd v) BUF_ID_UART (fst m) [snd m] of
     Inl _ \<Rightarrow> None | Inr (_, t) \<Rightarrow> Some (fst v, t))"

text \<open>The two configurations the mux has, with at most eight services in all.\<close>

definition mux_conf_ok :: "'w mux_conf \<Rightarrow> bool" where
  "mux_conf_ok cf \<longleftrightarrow> mx_vport_num cf \<le> 8 \<and>
     (mx_rfs_service_id cf = -1 \<and> mx_service_offset cf = 0 \<or>
      mx_rfs_service_id cf = int SERMUX_SERVICE_ID_FIRST \<and> mx_service_offset cf = 1)"

definition target_service :: "uart_conf \<Rightarrow> nat \<Rightarrow> bool" where
  "target_service cf sid \<longleftrightarrow> SERMUX_SERVICE_ID_FIRST \<le> sid \<and> sid < SERMUX_SERVICE_ID_FIRST + cf_num_vuart cf \<and>
     cf_num_vuart cf \<le> 8"

definition host_target_insync :: "'w mux_sys \<Rightarrow> uart_out \<times> uart_sys \<Rightarrow> bool" where
  "host_target_insync s r \<longleftrightarrow> mux_service_id_out s = uart_service_id_in (snd r) \<and> uart_got_esc (snd r) = 0"

lemma uart_rx_loop_append:
  "uart_rx_loop cf uid (xs @ ys) r = (case uart_rx_loop cf uid xs r of Inl e \<Rightarrow> Inl e | Inr r' \<Rightarrow> uart_rx_loop cf uid ys r')"
  by (induction cf uid xs r rule: uart_rx_loop.induct) (auto split: sum.splits)

lemma vuart_le_LAST:
  "n \<le> 8 \<Longrightarrow> unat (c :: u8) < SERMUX_SERVICE_ID_FIRST + n \<Longrightarrow> c \<le> SERMUX_LAST"
  by (auto simp: word_le_nat_alt)

lemma not_special_conds:
  assumes "\<not> sermux_special c" "n \<le> 8"
  shows "c \<noteq> SERMUX_ESCAPE_CHAR" "c \<noteq> SERMUX_FORCE_SID_CHAR"
    "\<not> (SERMUX_FIRST \<le> c \<and> unat c < SERMUX_SERVICE_ID_FIRST + n)" "\<not> (SERMUX_FIRST \<le> c \<and> c \<le> SERMUX_LAST)"
  using assms vuart_le_LAST [of n c] by (auto simp: sermux_special_def)

lemma rx_service:
  assumes "target_service cf sid"
  shows "cmn_rx_handler cf (cf_phys_id cf) (of_nat sid) s = Inr ([], s\<lparr>uart_service_id_in := int sid\<rparr>)"
proof -
  have u: "unat (of_nat sid :: u8) = sid" "uint (of_nat sid :: u8) = int sid"
    using assms by (auto simp: target_service_def unat_of_nat uint_nat)
  have "(of_nat sid :: u8) \<noteq> SERMUX_ESCAPE_CHAR" "SERMUX_FIRST \<le> (of_nat sid :: u8)"
    using assms by (auto simp: target_service_def word_le_nat_alt u word_unat_eq_iff)
  then show ?thesis using assms u by (simp add: cmn_rx_handler_def target_service_def)
qed

lemma rx_escape:
  "cmn_rx_handler cf (cf_phys_id cf) SERMUX_ESCAPE_CHAR s = Inr ([], s\<lparr>uart_got_esc := 1\<rparr>)"
  by (simp add: cmn_rx_handler_def)

lemma uart_got_esc_same: "uart_got_esc s = 0 \<Longrightarrow> s\<lparr>uart_got_esc := 0\<rparr> = s"
  by (cases s) simp

lemma rx_data:
  assumes "\<not> sermux_special c" "cf_num_vuart cf \<le> 8"
  shows "cmn_rx_handler cf (cf_phys_id cf) c s =
    (let c' = (if uart_got_esc s \<noteq> 0 then c XOR SERMUX_ESCAPE_XOR_MASK else c); s' = s\<lparr>uart_got_esc := 0\<rparr>
     in if uart_service_id_in s = -1 then Inr ([(cf_phys_id cf, SERMUX_FORCE_SID_CHAR)], s')
        else (case uart_buf_write cf (nat (uart_service_id_in s)) c' s' of Inl e \<Rightarrow> Inl e | Inr t \<Rightarrow> Inr ([], t)))"
proof (cases "uart_got_esc s = 0")
  case True
  then show ?thesis using not_special_conds [OF assms]
    by (auto simp: cmn_rx_handler_def Let_def uart_got_esc_same [OF True])
next
  case False
  then show ?thesis using not_special_conds [OF assms] by (auto simp: cmn_rx_handler_def Let_def)
qed

text \<open>What the receiver does with the coded form of one byte, whatever it knows of the service.\<close>

definition sermux_code :: "u8 \<Rightarrow> u8 list" where
  "sermux_code c = (if sermux_special c then [SERMUX_ESCAPE_CHAR, c XOR SERMUX_ESCAPE_XOR_MASK] else [c])"

text \<open>What both senders remember of the byte last sent.\<close>

definition sermux_last :: "u8 \<Rightarrow> int" where
  "sermux_last c = (if sermux_special c then SERMUX_ESC_MASK OR uint (c XOR SERMUX_ESCAPE_XOR_MASK) else uint c)"

lemma rx_coded:
  assumes "uart_got_esc s = 0" "cf_num_vuart cf \<le> 8"
  shows "uart_rx_loop cf (cf_phys_id cf) (sermux_code c) (out, s) =
     (if uart_service_id_in s = -1 then Inr (out @ [(cf_phys_id cf, SERMUX_FORCE_SID_CHAR)], s)
      else (case uart_buf_write cf (nat (uart_service_id_in s)) c s of Inl e \<Rightarrow> Inl e | Inr t \<Rightarrow> Inr (out, t)))"
proof (cases "sermux_special c")
  case True
  then show ?thesis using sermux_special_xor [OF True] assms(2)
    by (simp add: sermux_code_def rx_escape rx_data Let_def uart_got_esc_same [OF assms(1)] split: sum.splits)
next
  case False
  then show ?thesis using assms
    by (simp add: sermux_code_def rx_data Let_def uart_got_esc_same [OF assms(1)] split: sum.splits)
qed

lemma host_send_code:
  assumes "mux_conf_ok cf" "SERMUX_SERVICE_ID_FIRST \<le> sid" "sid < SERMUX_SERVICE_ID_FIRST + 8"
  shows "host_send cf (sid, c) s =
    ((if int sid \<noteq> mux_service_id_out s then [of_nat sid] else []) @ sermux_code c,
     s\<lparr>mux_prev_sent := sermux_last c,
       mux_service_id_out := int sid\<rparr>)"
proof -
  have t: "(if mux_selidx cf sid = RFS_PSEUDO_SELIDX then int SERMUX_SERVICE_ID_FIRST
     else int SERMUX_SERVICE_ID_FIRST + mux_selidx cf sid - HND_FIRST_VOFFSET + mx_service_offset cf) = int sid"
    using assms by (auto simp: mux_selidx_def mux_conf_ok_def)
  show ?thesis unfolding host_send_def mux_service_byte_def fst_conv t
    by (auto simp: Let_def mux_events_line_def sermux_code_def sermux_last_def)
qed

lemma sid_word:
  assumes "SERMUX_SERVICE_ID_FIRST \<le> sid" "sid < SERMUX_SERVICE_ID_FIRST + 8"
  shows "unat (of_nat sid :: u8) = sid" "uint (of_nat sid :: u8) = int sid"
  using assms by (auto simp: unat_of_nat uint_nat)

interpretation to_target: mux_channel "host_send mcf" "target_recv cf" target_view "target_deliver cf"
  "\<lambda>s r. mux_conf_ok mcf \<and> host_target_insync s r" "target_service cf" for mcf cf
proof unfold_locales
  show "target_recv cf (xs @ ys) r = Option.bind (target_recv cf xs r) (target_recv cf ys)" for xs ys r
    by (auto simp: target_recv_def uart_rx_loop_append split: sum.splits)
  show "target_recv cf [] r = Some r" for r
    by (simp add: target_recv_def)
next
  fix s :: "'a mux_sys" and r m v
  assume a: "mux_conf_ok mcf \<and> host_target_insync s r" and sv: "target_service cf (fst m)"
    and d: "target_deliver cf m (target_view r) = Some v"
  obtain sid c where m: "m = (sid, c)" by fastforce
  obtain out t where r: "r = (out, t)" by fastforce
  have esc: "uart_got_esc t = 0" and sin: "mux_service_id_out s = uart_service_id_in t"
    using a r by (auto simp: host_target_insync_def)
  have rng: "SERMUX_SERVICE_ID_FIRST \<le> sid" "sid < SERMUX_SERVICE_ID_FIRST + 8" "cf_num_vuart cf \<le> 8"
    using sv m by (auto simp: target_service_def)
  let ?t = "t\<lparr>uart_service_id_in := int sid\<rparr>"
  have same: "uart_service_id_in t = int sid \<Longrightarrow> ?t = t" by (cases t) simp
  have pre: "uart_rx_loop cf (cf_phys_id cf) (if int sid \<noteq> mux_service_id_out s then [of_nat sid] else []) (out, t) = Inr (out, ?t)"
    using rx_service [of cf sid t] sv m sin same by auto
  obtain tab where tab: "buf_write (cf_num_uart cf) (uart_bufs t) BUF_ID_UART sid [c] = Inr tab" "v = (out, snd tab)"
    using d m r by (auto simp: target_deliver_def target_view_def split: sum.splits prod.splits)
  then have "uart_rx_loop cf (cf_phys_id cf) (sermux_code c) (out, ?t) = Inr (out, ?t\<lparr>uart_bufs := snd tab\<rparr>)"
    using rx_coded [of ?t cf c out] esc rng by (simp add: uart_buf_write_def split: prod.splits)
  then have "target_recv cf (fst (host_send mcf m s)) r = Some (out, ?t\<lparr>uart_bufs := snd tab\<rparr>)"
    using a rng pre m r by (simp add: host_send_code target_recv_def uart_rx_loop_append)
  then show "\<exists>r'. target_recv cf (fst (host_send mcf m s)) r = Some r' \<and> target_view r' = v \<and>
      (mux_conf_ok mcf \<and> host_target_insync (snd (host_send mcf m s)) r')"
    using a rng m tab esc by (simp add: host_send_code target_view_def host_target_insync_def)
qed

subsubsection \<open>Target to host\<close>

definition target_send :: "uart_conf \<Rightarrow> nat \<times> u8 \<Rightarrow> uart_sys \<Rightarrow> u8 list \<times> uart_sys" where
  "target_send cf m s = (case platform_uart_send cf (fst m) (snd m) s of (out, s') \<Rightarrow> (map snd out, s'))"

definition host_recv :: "'w mux_conf \<Rightarrow> u8 list \<Rightarrow> mux_event list \<times> 'w mux_sys \<Rightarrow> (mux_event list \<times> 'w mux_sys) option" where
  "host_recv cf bs r = (case mux_run cf (map uint bs) r of MuxCont r' \<Rightarrow> Some r' | _ \<Rightarrow> None)"

definition host_view :: "mux_event list \<times> 'w mux_sys \<Rightarrow> mux_event list \<times> 'w mux_sys" where
  "host_view r = (fst r, (snd r)\<lparr>mux_service_id_in := 0, mux_got_esc := False\<rparr>)"

definition host_deliver :: "'w mux_conf \<Rightarrow> nat \<times> u8 \<Rightarrow> mux_event list \<times> 'w mux_sys \<Rightarrow> (mux_event list \<times> 'w mux_sys) option" where
  "host_deliver cf m v =
     Some (fst v @ [MuxPort (fst m - SERMUX_SERVICE_ID_FIRST - nat (mx_service_offset cf)) (snd m)], snd v)"

text \<open>The services with a serial port of their own, which the target may send to.\<close>

definition port_service :: "'w mux_conf \<Rightarrow> uart_conf \<Rightarrow> nat \<Rightarrow> bool" where
  "port_service mcf cf sid \<longleftrightarrow> target_service cf sid \<and> mux_conf_ok mcf \<and>
     int SERMUX_SERVICE_ID_FIRST + mx_service_offset mcf \<le> int sid \<and>
     int sid < int SERMUX_SERVICE_ID_FIRST + mx_service_offset mcf + int (mx_vport_num mcf)"

definition target_host_insync :: "uart_sys \<Rightarrow> mux_event list \<times> 'w mux_sys \<Rightarrow> bool" where
  "target_host_insync s r \<longleftrightarrow> uart_service_id_out s = mux_service_id_in (snd r) \<and> \<not> mux_got_esc (snd r) \<and>
     mux_rfs_size (snd r) = 0"

lemma mux_run_append:
  "mux_run cf (xs @ ys) r = (case mux_run cf xs r of MuxCont r' \<Rightarrow> mux_run cf ys r'
     | MuxExit \<Rightarrow> MuxExit | MuxFault e \<Rightarrow> MuxFault e | MuxHang \<Rightarrow> MuxHang)"
proof (induction cf xs r rule: mux_run.induct)
  case (1 cf xs ev s)
  show ?case
  proof (cases "0 < mux_rfs_size s")
    case True
    then show ?thesis using 1(1)
      by (simp add: mux_run.simps [of cf _ ev s] split: mux_outcome.split prod.split)
  next
    case False
    show ?thesis
    proof (cases xs)
      case Nil
      then show ?thesis using False by (simp add: mux_run.simps [of cf "[]" ev s])
    next
      case (Cons x xs')
      then show ?thesis using False 1(2) [OF False Cons]
        by (simp add: mux_run.simps [of cf _ ev s] split: mux_outcome.split prod.split)
    qed
  qed
qed

text \<open>With no response pending, a byte of the line is one iteration.\<close>

lemma mux_main_step_line:
  assumes "mux_rfs_size s = 0"
  shows "mux_main_step cf (uint c) s = mux_transport_byte cf c s"
proof -
  have "uint c AND 255 = uint c" by (rule sermux_esc_word)
  moreover have "drop_bit 8 (uint c) = 0"
    using uint_bounded [of c] by (simp add: drop_bit_eq_div)
  moreover have "uint c \<noteq> -1" using uint_ge_0 [of c] by linarith
  ultimately show ?thesis using assms by (simp add: mux_main_step_def Let_def)
qed

lemma mux_run_line_Cons:
  assumes "mux_rfs_size s = 0"
  shows "mux_run cf (uint c # xs) (ev, s) =
    (case mux_transport_byte cf c s of MuxCont (e, s') \<Rightarrow> mux_run cf xs (ev @ e, s')
       | MuxExit \<Rightarrow> MuxExit | MuxFault e \<Rightarrow> MuxFault e | MuxHang \<Rightarrow> MuxHang)"
  using assms by (simp add: mux_run.simps [of cf "uint c # xs"] mux_main_step_line)

lemma mux_run_Nil: "mux_rfs_size s = 0 \<Longrightarrow> mux_run cf [] (ev, s) = MuxCont (ev, s)"
  by (simp add: mux_run.simps)

lemma host_service:
  assumes "SERMUX_SERVICE_ID_FIRST \<le> sid" "sid < SERMUX_SERVICE_ID_FIRST + 8"
  shows "mux_transport_byte cf (of_nat sid) s = MuxCont ([], s\<lparr>mux_service_id_in := int sid\<rparr>)"
  using assms sid_word [OF assms] by (auto simp: mux_transport_byte_def word_le_nat_alt word_unat_eq_iff)

lemma host_data:
  assumes "\<not> sermux_special c"
  shows "mux_transport_byte cf c s =
    (let c' = (if mux_got_esc s then c XOR SERMUX_ESCAPE_XOR_MASK else c)
     in if mux_got_esc s \<and> \<not> sermux_special c' then MuxExit
        else if mux_service_id_in s = -1 then MuxCont ([MuxLine SERMUX_FORCE_SID_CHAR], s\<lparr>mux_got_esc := False\<rparr>)
        else mux_deliver cf c' (s\<lparr>mux_got_esc := False\<rparr>))"
  using not_special_conds [OF assms, of 8] by (auto simp: mux_transport_byte_def Let_def)

lemma host_coded:
  assumes "\<not> mux_got_esc s" "mux_rfs_size s = 0" "\<And>ev s'. mux_service_id_in s \<noteq> -1 \<Longrightarrow> mux_deliver cf c s = MuxCont (ev, s') \<Longrightarrow> mux_rfs_size s' = 0"
  shows "mux_run cf (map uint (sermux_code c)) (ev, s) =
    (if mux_service_id_in s = -1 then MuxCont (ev @ [MuxLine SERMUX_FORCE_SID_CHAR], s)
     else (case mux_deliver cf c s of MuxCont (e, s') \<Rightarrow> MuxCont (ev @ e, s')
       | MuxExit \<Rightarrow> MuxExit | MuxFault e \<Rightarrow> MuxFault e | MuxHang \<Rightarrow> MuxHang))"
proof -
  have same: "s\<lparr>mux_got_esc := False\<rparr> = s" using assms(1) by (cases s) simp
  have esc: "mux_run cf (192 # xs) (ev, s) = mux_run cf xs (ev, s\<lparr>mux_got_esc := True\<rparr>)" for xs
    using mux_run_line_Cons [of s cf SERMUX_ESCAPE_CHAR xs ev] assms(2) by (simp add: mux_transport_byte_def)
  show ?thesis
  proof (cases "sermux_special c")
    case True
    then show ?thesis using assms sermux_special_xor [OF True]
      by (auto simp: same sermux_code_def mux_run_line_Cons esc host_data Let_def
          mux_run_Nil split: mux_outcome.split)
  next
    case False
    then show ?thesis using assms
      by (auto simp: same sermux_code_def mux_run_line_Cons host_data Let_def mux_run_Nil split: mux_outcome.split)
  qed
qed

lemma target_send_code:
  assumes "target_service cf sid"
  shows "target_send cf (sid, c) s =
    ((if int sid \<noteq> uart_service_id_out s then [of_nat sid] else []) @ sermux_code c,
     s\<lparr>uart_last_sent := sermux_last c,
       uart_service_id_out := int sid\<rparr>)"
  using assms by (auto simp: target_send_def platform_uart_send_def target_service_def Let_def sermux_code_def sermux_last_def)

lemma mux_deliver_port:
  assumes "port_service mcf cf sid" "mux_service_id_in s = int sid"
  shows "mux_deliver mcf c s =
    MuxCont ([MuxPort (sid - SERMUX_SERVICE_ID_FIRST - nat (mx_service_offset mcf)) c], s)"
  using assms by (auto simp: mux_deliver_def port_service_def mux_conf_ok_def Let_def nat_diff_distrib)

lemma port_target_service: "port_service mcf cf sid \<Longrightarrow> target_service cf sid"
  by (simp add: port_service_def)

interpretation to_host: mux_channel "target_send cf" "host_recv mcf" host_view "host_deliver mcf"
  target_host_insync "port_service mcf cf" for cf mcf
proof unfold_locales
  fix s and r :: "mux_event list \<times> 'a mux_sys"
  assume "target_host_insync s r"
  then show "host_recv mcf [] r = Some r"
    by (cases r) (simp add: host_recv_def target_host_insync_def mux_run_Nil)
next
  show "host_recv mcf (xs @ ys) r = Option.bind (host_recv mcf xs r) (host_recv mcf ys)" for xs ys r
    by (auto simp: host_recv_def mux_run_append split: mux_outcome.splits)
next
  fix s m v and r :: "mux_event list \<times> 'a mux_sys"
  assume a: "target_host_insync s r" and sv: "port_service mcf cf (fst m)"
    and d: "host_deliver mcf m (host_view r) = Some v"
  obtain sid c where m: "m = (sid, c)" by fastforce
  obtain ev h where r: "r = (ev, h)" by fastforce
  have sync: "\<not> mux_got_esc h" "uart_service_id_out s = mux_service_id_in h" "mux_rfs_size h = 0"
    using a r by (auto simp: target_host_insync_def)
  have ts: "target_service cf sid" using sv m by (simp add: port_target_service)
  then have rng: "SERMUX_SERVICE_ID_FIRST \<le> sid" "sid < SERMUX_SERVICE_ID_FIRST + 8"
    by (auto simp: target_service_def)
  let ?h = "h\<lparr>mux_service_id_in := int sid\<rparr>"
  have same: "mux_service_id_in h = int sid \<Longrightarrow> ?h = h" by (cases h) simp
  have pre: "mux_run mcf (map uint (if int sid \<noteq> uart_service_id_out s then [of_nat sid :: u8] else [])) (ev, h) = MuxCont (ev, ?h)"
    using mux_run_line_Cons [of h mcf "of_nat sid" "[]" ev] host_service [OF rng, of mcf h] sync same
    by (auto simp: mux_run_Nil)
  have dl: "mux_deliver mcf c ?h = MuxCont ([MuxPort (sid - SERMUX_SERVICE_ID_FIRST - nat (mx_service_offset mcf)) c], ?h)"
    using mux_deliver_port [of mcf cf sid ?h c] sv m by simp
  have "mux_run mcf (map uint (sermux_code c)) (ev, ?h) =
      MuxCont (ev @ [MuxPort (sid - SERMUX_SERVICE_ID_FIRST - nat (mx_service_offset mcf)) c], ?h)"
    using host_coded [of ?h mcf c ev] dl sync by simp
  then have "host_recv mcf (fst (target_send cf m s)) r =
      Some (ev @ [MuxPort (sid - SERMUX_SERVICE_ID_FIRST - nat (mx_service_offset mcf)) c], ?h)"
    using pre m r by (simp add: target_send_code [OF ts] host_recv_def mux_run_append)
  then show "\<exists>r'. host_recv mcf (fst (target_send cf m s)) r = Some r' \<and> host_view r' = v \<and>
      target_host_insync (snd (target_send cf m s)) r'"
    using m r d sync by (auto simp: target_send_code [OF ts] host_view_def host_deliver_def target_host_insync_def)
qed

subsection \<open>The rings behind the target's end\<close>

definition vuart_ring :: "uart_conf \<Rightarrow> buf_table \<Rightarrow> nat \<Rightarrow> buf_desc" where
  "vuart_ring cf tab sid = buf_get_ptr (cf_num_uart cf) tab BUF_ID_UART sid"

definition for_service :: "nat \<Rightarrow> (nat \<times> u8) list \<Rightarrow> u8 list list" where
  "for_service sid ms = map (\<lambda>m. [snd m]) (filter (\<lambda>m. fst m = sid) ms)"

text \<open>Every virtual UART has a well-formed one-byte ring with room for its messages.\<close>

definition rings_ready :: "uart_conf \<Rightarrow> buf_table \<Rightarrow> (nat \<times> u8) list \<Rightarrow> bool" where
  "rings_ready cf tab ms \<longleftrightarrow>
     (\<forall>sid \<in> {SERMUX_SERVICE_ID_FIRST..<SERMUX_SERVICE_ID_FIRST + cf_num_vuart cf}.
        buf_good (vuart_ring cf tab sid) \<and> BUF_REALDSIZE (vuart_ring cf tab sid) = 1 \<and>
        length (buf_contents (vuart_ring cf tab sid)) + length (for_service sid ms) \<le> BUF_REALSIZE (vuart_ring cf tab sid))"

lemma vuart_ring_upd:
  assumes "SERMUX_SERVICE_ID_FIRST \<le> sid" "SERMUX_SERVICE_ID_FIRST \<le> sid'"
  shows "vuart_ring cf (buf_upd (cf_num_uart cf) tab BUF_ID_UART sid p) sid' = (if sid = sid' then p else vuart_ring cf tab sid')"
  using assms by (auto simp: vuart_ring_def buf_upd_def buf_get_ptr_def bufh_check_resnum_def)

lemma ring_write:
  assumes "buf_good p" "BUF_REALDSIZE p = 1" "length (buf_contents p) < BUF_REALSIZE p"
  obtains q where "buf_write_desc p [c] = Inr (PLATFORM_OK, q)" "buf_good q" "BUF_REALDSIZE q = 1"
    "buf_contents q = buf_contents p @ [[c]]" "BUF_REALSIZE q = BUF_REALSIZE p"
proof -
  obtain q where "buf_put [c] p = Some q" "buf_good q" "buf_contents q = buf_contents p @ [[c]]"
      "BUF_REALSIZE q = BUF_REALSIZE p" "buf_elem q = buf_elem p"
    using devbuf.put_room [of p "[c]"] assms by (auto simp: buf_elem_def)
  moreover from this have "BUF_REALDSIZE q = 1"
    using assms(2) by (metis buf_elem_def length_replicate)
  ultimately show ?thesis using that
    by (auto simp: buf_put_def split: sum.splits if_splits)
qed

lemma deliver_rings:
  assumes "rings_ready cf tab ms" "\<forall>m \<in> set ms. target_service cf (fst m)"
  shows "\<exists>tab'. deliver_msgs (target_deliver cf) ms (out, tab) = Some (out, tab') \<and>
    (\<forall>sid \<in> {SERMUX_SERVICE_ID_FIRST..<SERMUX_SERVICE_ID_FIRST + cf_num_vuart cf}.
       buf_good (vuart_ring cf tab' sid) \<and>
       buf_contents (vuart_ring cf tab' sid) = buf_contents (vuart_ring cf tab sid) @ for_service sid ms)"
  using assms
proof (induction ms arbitrary: tab)
  case Nil
  then show ?case by (auto simp: rings_ready_def for_service_def)
next
  case (Cons m ms)
  obtain sid c where m: "m = (sid, c)" by fastforce
  have sv: "SERMUX_SERVICE_ID_FIRST \<le> sid" "sid < SERMUX_SERVICE_ID_FIRST + cf_num_vuart cf"
    using Cons.prems(2) m by (auto simp: target_service_def)
  let ?p = "vuart_ring cf tab sid"
  have "buf_good ?p \<and> BUF_REALDSIZE ?p = 1 \<and> length (buf_contents ?p) < BUF_REALSIZE ?p"
    using bspec [OF Cons.prems(1) [unfolded rings_ready_def], of sid] m sv by (simp add: for_service_def)
  then obtain q where q: "buf_write_desc ?p [c] = Inr (PLATFORM_OK, q)" "buf_good q" "BUF_REALDSIZE q = 1"
    "buf_contents q = buf_contents ?p @ [[c]]" "BUF_REALSIZE q = BUF_REALSIZE ?p"
    using ring_write by metis
  let ?tab = "buf_upd (cf_num_uart cf) tab BUF_ID_UART sid q"
  have d: "target_deliver cf m (out, tab) = Some (out, ?tab)"
    using q(1) m by (simp add: target_deliver_def buf_write_def vuart_ring_def)
  have "unat (bcount q) = Suc (unat (bcount ?p))"
    using arg_cong [OF q(4), of length] by simp
  then have "rings_ready cf ?tab ms"
    using Cons.prems(1) q m sv by (auto simp: rings_ready_def vuart_ring_upd for_service_def split: if_splits)
  then obtain tab' where t: "deliver_msgs (target_deliver cf) ms (out, ?tab) = Some (out, tab')"
    "\<forall>sid \<in> {SERMUX_SERVICE_ID_FIRST..<SERMUX_SERVICE_ID_FIRST + cf_num_vuart cf}.
       buf_good (vuart_ring cf tab' sid) \<and>
       buf_contents (vuart_ring cf tab' sid) = buf_contents (vuart_ring cf ?tab sid) @ for_service sid ms"
    using Cons.IH [of ?tab] Cons.prems(2) by auto
  then show ?case using d m q(4) sv
    by (auto simp: vuart_ring_upd for_service_def)
qed

subsection \<open>Retransmission\<close>

lemma rx_force:
  assumes "cf_num_vuart cf \<le> 8" "uart_last_sent t \<noteq> -1"
  shows "cmn_rx_handler cf (cf_phys_id cf) SERMUX_FORCE_SID_CHAR t =
    Inr ([(cf_phys_id cf, of_int (uart_service_id_out t))] @
         (if uart_last_sent t AND SERMUX_ESC_MASK \<noteq> 0 then [(cf_phys_id cf, SERMUX_ESCAPE_CHAR)] else []) @
         [(cf_phys_id cf, of_int (uart_last_sent t AND 0xFF))], t\<lparr>uart_last_sent := -1\<rparr>)"
  using assms by (simp add: cmn_rx_handler_def)

text \<open>The bytes that a request for retransmission brings, in terms of the coded byte.\<close>

lemma retransmitted:
  "(if sermux_last c AND SERMUX_ESC_MASK \<noteq> 0 then [SERMUX_ESCAPE_CHAR] else []) @ [of_int (sermux_last c AND 0xFF)] = sermux_code c"
  by (simp add: sermux_last_def sermux_code_def sermux_esc_word)

lemma retransmitted_map:
  "(if sermux_last c AND SERMUX_ESC_MASK \<noteq> 0 then [f SERMUX_ESCAPE_CHAR] else []) @ [f (of_int (sermux_last c AND 0xFF))] =
   map f (sermux_code c)"
  using arg_cong [OF retransmitted [of c], of "map f"] by (simp split: if_splits)

lemma sermux_last_set [simp]: "sermux_last c \<noteq> -1"
proof
  assume m: "sermux_last c = -1"
  have "sermux_last c AND 255 = (if sermux_special c then uint (c XOR SERMUX_ESCAPE_XOR_MASK) else uint c)"
    "sermux_last c AND SERMUX_ESC_MASK = (if sermux_special c then SERMUX_ESC_MASK else 0)"
    by (simp_all add: sermux_last_def sermux_esc_word)
  then have "sermux_special c" "uint (c XOR SERMUX_ESCAPE_XOR_MASK) = 255"
    using m by (auto split: if_splits)
  then show False using sermux_special_xor(3) [of c] by (simp add: word_uint_eq_iff)
qed

subsection \<open>Properties\<close>

text \<open>C11. Host to target. When the ends are in step (which holds at start-up, where both sides
  know no service), any list of bytes for any of the target's virtual UARTs, sent through the
  multiplexer's loop body with the service identifiers and escapes it inserts, ends up in the
  ring of its own virtual UART behind what the ring held, in order, every byte once, provided
  the rings have room; no other ring changes its contents, the target sends nothing back and
  the ends are in step again.\<close>

theorem sermux_host_to_target:
  assumes "mux_conf_ok mcf" "mux_service_id_out h = uart_service_id_in t" "uart_got_esc t = 0"
    and "\<forall>m \<in> set ms. target_service cf (fst m)"
    and "rings_ready cf (uart_bufs t) ms"
  shows "\<exists>t'. uart_rx_loop cf (cf_phys_id cf) (fst (send_msgs (host_send mcf) ms h)) ([], t) = Inr ([], t') \<and>
    (\<forall>sid \<in> {SERMUX_SERVICE_ID_FIRST..<SERMUX_SERVICE_ID_FIRST + cf_num_vuart cf}.
       buf_contents (vuart_ring cf (uart_bufs t') sid) =
       buf_contents (vuart_ring cf (uart_bufs t) sid) @ for_service sid ms) \<and>
    host_target_insync (snd (send_msgs (host_send mcf) ms h)) ([], t')"
proof -
  obtain tab where tab: "deliver_msgs (target_deliver cf) ms ([], uart_bufs t) = Some ([], tab)"
    "\<forall>sid \<in> {SERMUX_SERVICE_ID_FIRST..<SERMUX_SERVICE_ID_FIRST + cf_num_vuart cf}.
       buf_contents (vuart_ring cf tab sid) = buf_contents (vuart_ring cf (uart_bufs t) sid) @ for_service sid ms"
    using deliver_rings [OF assms(5,4), of "[]"] by blast
  obtain r where "target_recv cf (fst (send_msgs (host_send mcf) ms h)) ([], t) = Some r" "target_view r = ([], tab)"
    "host_target_insync (snd (send_msgs (host_send mcf) ms h)) r"
    using to_target.all_messages [of mcf h "([], t)" ms cf "([], tab)"] assms(1-4) tab(1)
    by (auto simp: host_target_insync_def target_view_def)
  then show ?thesis using tab(2)
    by (cases r) (auto simp: target_recv_def target_view_def split: sum.splits)
qed

text \<open>C13. Target to host. When the ends are in step, any list of bytes that the target writes to
  its virtual UARTs arrives at the serial ports of those services, in the order written and
  every byte once; the multiplexer sends nothing back, does not stop, and nothing else in its
  state changes than the service it listens to.\<close>

theorem sermux_target_to_host:
  assumes "uart_service_id_out t = mux_service_id_in h" "\<not> mux_got_esc h" "mux_rfs_size h = 0"
    and "\<forall>m \<in> set ms. port_service mcf cf (fst m)"
  shows "\<exists>sid. mux_run mcf (map uint (fst (send_msgs (target_send cf) ms t))) ([], h) =
    MuxCont (map (\<lambda>m. MuxPort (fst m - SERMUX_SERVICE_ID_FIRST - nat (mx_service_offset mcf)) (snd m)) ms,
             h\<lparr>mux_service_id_in := sid\<rparr>)"
proof -
  have d: "deliver_msgs (host_deliver mcf) ms (ev, x) =
      Some (ev @ map (\<lambda>m. MuxPort (fst m - SERMUX_SERVICE_ID_FIRST - nat (mx_service_offset mcf)) (snd m)) ms, x)" for ev x
    by (induction ms arbitrary: ev) (simp_all add: host_deliver_def)
  obtain r where r: "host_recv mcf (fst (send_msgs (target_send cf) ms t)) ([], h) = Some r"
    "host_view r = (map (\<lambda>m. MuxPort (fst m - SERMUX_SERVICE_ID_FIRST - nat (mx_service_offset mcf)) (snd m)) ms,
                    h\<lparr>mux_service_id_in := 0, mux_got_esc := False\<rparr>)"
    "target_host_insync (snd (send_msgs (target_send cf) ms t)) r"
    using to_host.all_messages [of t "([], h)" ms mcf cf "(map (\<lambda>m. MuxPort (fst m - SERMUX_SERVICE_ID_FIRST - nat (mx_service_offset mcf)) (snd m)) ms,
                    h\<lparr>mux_service_id_in := 0, mux_got_esc := False\<rparr>)"] assms d
    by (auto simp: target_host_insync_def host_view_def)
  then show ?thesis using assms(2)
    by (cases r; cases h; cases "snd r")
      (auto simp: host_recv_def host_view_def target_host_insync_def split: mux_outcome.splits)
qed

text \<open>Recovery of the target. A target that does not know its service (it was reset while the
  multiplexer went on) loses nothing to a byte that arrives without its identifier: it asks for
  the identifier, the multiplexer answers with identifier and byte, the byte enters the ring of
  its service exactly once, nothing more is asked for, and the two ends are in step.\<close>

theorem sermux_target_recovers:
  assumes "mux_conf_ok mcf" "target_service cf sid" "mux_service_id_out h = int sid" "mux_rfs_size h = 0"
    and "uart_service_id_in t = -1" "uart_got_esc t = 0"
    and "buf_write (cf_num_uart cf) (uart_bufs t) BUF_ID_UART sid [c] = Inr (r, tab)"
  shows "\<exists>h1 h2 line. host_send mcf (sid, c) h = (sermux_code c, h1) \<and>
    uart_rx_loop cf (cf_phys_id cf) (sermux_code c) ([], t) = Inr ([(cf_phys_id cf, SERMUX_FORCE_SID_CHAR)], t) \<and>
    mux_run mcf [uint SERMUX_FORCE_SID_CHAR] ([], h1) = MuxCont (map MuxLine line, h2) \<and>
    uart_rx_loop cf (cf_phys_id cf) line ([], t) = Inr ([], t\<lparr>uart_service_id_in := int sid, uart_bufs := tab\<rparr>) \<and>
    host_target_insync h2 ([], t\<lparr>uart_service_id_in := int sid, uart_bufs := tab\<rparr>)"
proof -
  have rng: "SERMUX_SERVICE_ID_FIRST \<le> sid" "sid < SERMUX_SERVICE_ID_FIRST + 8" "cf_num_vuart cf \<le> 8"
    using assms(2) by (auto simp: target_service_def)
  let ?last = "sermux_last c"
  let ?h1 = "h\<lparr>mux_prev_sent := ?last, mux_service_id_out := int sid\<rparr>"
  let ?h2 = "?h1\<lparr>mux_prev_sent := -1\<rparr>"
  let ?t = "t\<lparr>uart_service_id_in := int sid\<rparr>"
  have send: "host_send mcf (sid, c) h = (sermux_code c, ?h1)"
    using assms(3) by (simp add: host_send_code [OF assms(1) rng(1,2)])
  have ask: "uart_rx_loop cf (cf_phys_id cf) (sermux_code c) ([], t) = Inr ([(cf_phys_id cf, SERMUX_FORCE_SID_CHAR)], t)"
    using rx_coded [OF assms(6) rng(3), of c "[]"] assms(5) by simp
  have "mux_transport_byte mcf SERMUX_FORCE_SID_CHAR ?h1 = MuxCont (map MuxLine (of_nat sid # sermux_code c), ?h2)"
    using retransmitted_map [of c MuxLine] by (simp add: mux_transport_byte_def)
  then have answer: "mux_run mcf [uint SERMUX_FORCE_SID_CHAR] ([], ?h1) = MuxCont (map MuxLine (of_nat sid # sermux_code c), ?h2)"
    using mux_run_line_Cons [of ?h1 mcf SERMUX_FORCE_SID_CHAR "[]" "[]"] assms(4) by (simp add: mux_run_Nil)
  have "uart_rx_loop cf (cf_phys_id cf) (of_nat sid # sermux_code c) ([], t) = uart_rx_loop cf (cf_phys_id cf) (sermux_code c) ([], ?t)"
    by (simp add: rx_service [OF assms(2)])
  also have "\<dots> = Inr ([], t\<lparr>uart_service_id_in := int sid, uart_bufs := tab\<rparr>)"
    using rx_coded [of ?t cf c "[]"] assms(6,7) rng(3) by (simp add: uart_buf_write_def)
  finally show ?thesis using send ask answer assms(6) unfolding host_target_insync_def
    by (intro exI [of _ ?h1] exI [of _ ?h2] exI [of _ "of_nat sid # sermux_code c"]) simp
qed

text \<open>Recovery of the multiplexer. A multiplexer that does not know the service (it was
  restarted while the target went on) asks the target for it; the target's interrupt handler
  answers with identifier and byte, which then reaches the service's port exactly once, and a
  second request for the same byte could not be answered again.\<close>

theorem sermux_host_recovers:
  assumes "port_service mcf cf sid" "uart_service_id_out t = int sid"
    and "mux_service_id_in h = -1" "\<not> mux_got_esc h" "mux_rfs_size h = 0"
  shows "\<exists>t1 line. target_send cf (sid, c) t = (sermux_code c, t1) \<and>
    mux_run mcf (map uint (sermux_code c)) ([], h) = MuxCont ([MuxLine SERMUX_FORCE_SID_CHAR], h) \<and>
    cmn_rx_handler cf (cf_phys_id cf) SERMUX_FORCE_SID_CHAR t1 =
      Inr (map (Pair (cf_phys_id cf)) line, t1\<lparr>uart_last_sent := -1\<rparr>) \<and>
    mux_run mcf (map uint line) ([], h) =
      MuxCont ([MuxPort (sid - SERMUX_SERVICE_ID_FIRST - nat (mx_service_offset mcf)) c], h\<lparr>mux_service_id_in := int sid\<rparr>)"
proof -
  have ts: "target_service cf sid" using assms(1) by (rule port_target_service)
  then have rng: "SERMUX_SERVICE_ID_FIRST \<le> sid" "sid < SERMUX_SERVICE_ID_FIRST + 8" "cf_num_vuart cf \<le> 8"
    by (auto simp: target_service_def)
  let ?last = "sermux_last c"
  let ?t1 = "t\<lparr>uart_last_sent := ?last, uart_service_id_out := int sid\<rparr>"
  let ?h = "h\<lparr>mux_service_id_in := int sid\<rparr>"
  have d: "mux_deliver mcf c ?h = MuxCont ([MuxPort (sid - SERMUX_SERVICE_ID_FIRST - nat (mx_service_offset mcf)) c], ?h)"
    using mux_deliver_port [of mcf cf sid ?h c] assms(1) by simp
  have ask: "mux_run mcf (map uint (sermux_code c)) ([], h) = MuxCont ([MuxLine SERMUX_FORCE_SID_CHAR], h)"
    using host_coded [of h mcf c "[]"] assms by simp
  have answer: "cmn_rx_handler cf (cf_phys_id cf) SERMUX_FORCE_SID_CHAR ?t1 =
      Inr (map (Pair (cf_phys_id cf)) (of_nat sid # sermux_code c), ?t1\<lparr>uart_last_sent := -1\<rparr>)"
    using retransmitted_map [of c "Pair (cf_phys_id cf)"] by (subst rx_force [OF rng(3)]) simp_all
  have "mux_run mcf (map uint (of_nat sid # sermux_code c)) ([], h) = mux_run mcf (map uint (sermux_code c)) ([], ?h)"
    using mux_run_line_Cons [of h mcf "of_nat sid" "map uint (sermux_code c)" "[]"] host_service [OF rng(1,2), of mcf h] assms(5)
    by simp
  also have "\<dots> = MuxCont ([MuxPort (sid - SERMUX_SERVICE_ID_FIRST - nat (mx_service_offset mcf)) c], ?h)"
    using host_coded [of ?h mcf c "[]"] d assms(4,5) by simp
  finally show ?thesis using ask answer assms(2)
    by (intro exI [of _ ?t1] exI [of _ "of_nat sid # sermux_code c"]) (simp add: target_send_code [OF ts])
qed

text \<open>Two bytes in flight stop the multiplexer. If two bytes of one service are on their way to
  a target that does not know its service, the target asks twice; the multiplexer answers the
  first request with the second byte (the first is lost) and takes the second request for a
  protocol error, on which the program ends.\<close>

theorem sermux_two_in_flight_stops_mux:
  assumes "mux_conf_ok mcf" "target_service cf sid" "mux_service_id_out h = int sid" "mux_rfs_size h = 0"
    and "uart_service_id_in t = -1" "uart_got_esc t = 0"
  shows "uart_rx_loop cf (cf_phys_id cf) (fst (send_msgs (host_send mcf) [(sid, c), (sid, d)] h)) ([], t) =
      Inr ([(cf_phys_id cf, SERMUX_FORCE_SID_CHAR), (cf_phys_id cf, SERMUX_FORCE_SID_CHAR)], t) \<and>
    mux_run mcf [uint SERMUX_FORCE_SID_CHAR, uint SERMUX_FORCE_SID_CHAR]
      ([], snd (send_msgs (host_send mcf) [(sid, c), (sid, d)] h)) = MuxExit"
proof -
  have rng: "SERMUX_SERVICE_ID_FIRST \<le> sid" "sid < SERMUX_SERVICE_ID_FIRST + 8" "cf_num_vuart cf \<le> 8"
    using assms(2) by (auto simp: target_service_def)
  let ?h1 = "h\<lparr>mux_prev_sent := sermux_last d, mux_service_id_out := int sid\<rparr>"
  have send: "send_msgs (host_send mcf) [(sid, c), (sid, d)] h = (sermux_code c @ sermux_code d, ?h1)"
    using assms(3) by (simp add: host_send_code [OF assms(1) rng(1,2)])
  have "mux_transport_byte mcf SERMUX_FORCE_SID_CHAR ?h1 = MuxCont (map MuxLine (of_nat sid # sermux_code d), ?h1\<lparr>mux_prev_sent := -1\<rparr>)"
    using retransmitted_map [of d MuxLine] by (simp add: mux_transport_byte_def)
  moreover have "mux_transport_byte mcf SERMUX_FORCE_SID_CHAR (?h1\<lparr>mux_prev_sent := -1\<rparr>) = MuxExit"
    by (simp add: mux_transport_byte_def)
  moreover have "mux_rfs_size ?h1 = 0" "mux_rfs_size (?h1\<lparr>mux_prev_sent := -1\<rparr>) = 0"
    using assms(4) by simp_all
  ultimately have "mux_run mcf [uint SERMUX_FORCE_SID_CHAR, uint SERMUX_FORCE_SID_CHAR] ([], ?h1) = MuxExit"
    by (simp only: mux_run_line_Cons mux_outcome.case prod.case)
  then show ?thesis using assms(5) rx_coded [OF assms(6) rng(3)]
    by (simp only: send fst_conv snd_conv uart_rx_loop_append) simp
qed

subsection \<open>Witnesses\<close>

text \<open>
  A target with one physical UART and three virtual ones, each with an empty ring of four
  bytes, and a host in rfsmux mode with two serial ports. Both have just started.
\<close>

definition uart_demo :: uart_conf where
  "uart_demo = \<lparr>cf_num_uart = 1, cf_num_vuart = 3, cf_phys_id = 0\<rparr>"

definition ring_demo :: buf_desc where
  "ring_demo = \<lparr>logsize = 2, wptr = 0, rptr = 0, bcount = 0, bdata = Some [0, 0, 0, 0], logdsize = 0\<rparr>"

definition target_demo :: uart_sys where
  "target_demo = \<lparr>uart_service_id_in = -1, uart_service_id_out = -1, uart_got_esc = 0,
     uart_last_sent = -1, uart_bufs = \<lambda>_ _. ring_demo\<rparr>"

definition mux_demo :: "(u8 list \<times> u8 list) mux_conf" where
  "mux_demo = \<lparr>mx_rfs_service_id = 0xD0, mx_service_offset = 1, mx_vport_num = 2,
     mx_server = demo_server, mx_buffer = 0\<rparr>"

definition host_demo :: "(u8 list \<times> u8 list) mux_sys" where
  "host_demo = \<lparr>mux_service_id_in = -1, mux_service_id_out = -1, mux_got_esc = False, mux_prev_sent = -1,
     mux_rfs_size = 0, mux_rfs_ptr = 0, mux_trans = rfs_mem_start_request, mux_mem = \<lambda>_. 0, mux_world = ([], [])\<rparr>"

lemma sermux_demo [simp]:
  "cf_num_uart uart_demo = 1" "cf_num_vuart uart_demo = 3" "cf_phys_id uart_demo = 0"
  "uart_service_id_in target_demo = -1" "uart_service_id_out target_demo = -1" "uart_got_esc target_demo = 0"
  "mx_rfs_service_id mux_demo = 0xD0" "mx_service_offset mux_demo = 1" "mx_vport_num mux_demo = 2"
  "mux_service_id_in host_demo = -1" "mux_service_id_out host_demo = -1" "\<not> mux_got_esc host_demo"
  "mux_rfs_size host_demo = 0"
  by (simp_all add: uart_demo_def target_demo_def mux_demo_def host_demo_def)

lemma ring_demo_facts: "buf_good ring_demo" "BUF_REALDSIZE ring_demo = 1" "BUF_REALSIZE ring_demo = 4"
  "buf_contents ring_demo = []"
  by (simp_all add: ring_demo_def buf_good_def buf_inv_def buf_sizes buf_contents_def)

lemma vuart_ring_demo [simp]: "vuart_ring uart_demo (uart_bufs target_demo) sid = ring_demo"
  by (simp add: vuart_ring_def buf_get_ptr_def target_demo_def)

lemma demo_confs: "mux_conf_ok mux_demo" "target_service uart_demo 0xD1" "target_service uart_demo 0xD2"
  "port_service mux_demo uart_demo 0xD1" "port_service mux_demo uart_demo 0xD2"
  by (simp_all add: mux_conf_ok_def target_service_def port_service_def)

theorem sermux_host_to_target_witness:
  "\<exists>t'. uart_rx_loop uart_demo 0 [0xD1, 0x41, 0xC0, 0xE0, 0xD2, 0x42] ([], target_demo) = Inr ([], t') \<and>
     buf_contents (vuart_ring uart_demo (uart_bufs t') 0xD1) = [[0x41], [0xC0]] \<and>
     buf_contents (vuart_ring uart_demo (uart_bufs t') 0xD2) = [[0x42]]"
proof -
  let ?ms = "[(0xD1, 0x41), (0xD1, 0xC0), (0xD2, 0x42)]"
  have e: "fst (send_msgs (host_send mux_demo) ?ms host_demo) = [0xD1, 0x41, 0xC0, 0xE0, 0xD2, 0x42]"
    by (simp add: host_send_code demo_confs sermux_code_def sermux_special_def)
  have "\<forall>m \<in> set ?ms. target_service uart_demo (fst m)" "rings_ready uart_demo (uart_bufs target_demo) ?ms"
    by (auto simp: demo_confs rings_ready_def ring_demo_facts for_service_def)
  from sermux_host_to_target [OF demo_confs(1) _ _ this, of host_demo, unfolded e]
  show ?thesis by (auto simp: for_service_def ring_demo_facts simp del: uart_rx_loop.simps)
qed

theorem sermux_target_to_host_witness:
  "\<exists>sid. mux_run mux_demo (map uint [0xD1 :: u8, 0x41, 0xC0, 0xDF, 0xD2, 0x42]) ([], host_demo) =
     MuxCont ([MuxPort 0 0x41, MuxPort 0 0xFF, MuxPort 1 0x42], host_demo\<lparr>mux_service_id_in := sid\<rparr>)"
proof -
  have "fst (send_msgs (target_send uart_demo) [(0xD1, 0x41), (0xD1, 0xFF), (0xD2, 0x42)] target_demo) =
      [0xD1, 0x41, 0xC0, 0xDF, 0xD2, 0x42]"
    by (simp add: target_send_code demo_confs sermux_code_def sermux_special_def)
  then show ?thesis
    using sermux_target_to_host [of target_demo host_demo "[(0xD1, 0x41), (0xD1, 0xFF), (0xD2, 0x42)]" mux_demo uart_demo]
    by (simp add: demo_confs)
qed

theorem sermux_target_recovers_witness:
  "\<exists>h2 line t'. mux_run mux_demo [0xFF] ([], snd (host_send mux_demo (0xD1, 0xC0) (host_demo\<lparr>mux_service_id_out := 0xD1\<rparr>))) =
       MuxCont (map MuxLine line, h2) \<and>
     uart_rx_loop uart_demo (cf_phys_id uart_demo) line ([], target_demo) = Inr ([], t') \<and> uart_service_id_in t' = 0xD1"
proof -
  obtain q where q: "buf_write_desc ring_demo [0xC0] = Inr (PLATFORM_OK, q)"
    using ring_write [OF ring_demo_facts(1,2), of "0xC0"] by (auto simp: ring_demo_facts)
  then have "buf_write (cf_num_uart uart_demo) (uart_bufs target_demo) BUF_ID_UART 0xD1 [0xC0] =
     Inr (PLATFORM_OK, buf_upd (cf_num_uart uart_demo) (uart_bufs target_demo) BUF_ID_UART 0xD1 q)"
    using vuart_ring_demo [of "0xD1", unfolded vuart_ring_def] by (simp add: buf_write_def)
  from sermux_target_recovers [OF demo_confs(1,2) _ _ _ _ this, of "host_demo\<lparr>mux_service_id_out := 0xD1\<rparr>"]
  show ?thesis by fastforce
qed

theorem sermux_host_recovers_witness:
  "\<exists>line :: u8 list. mux_run mux_demo (map uint line) ([], host_demo) =
     MuxCont ([MuxPort 0 0xC0], host_demo\<lparr>mux_service_id_in := 0xD1\<rparr>)"
  using sermux_host_recovers [OF demo_confs(4), of "target_demo\<lparr>uart_service_id_out := 0xD1\<rparr>" host_demo "0xC0"]
  by auto

theorem sermux_two_in_flight_stops_mux_witness:
  "mux_run mux_demo [0xFF, 0xFF] ([], snd (send_msgs (host_send mux_demo) [(0xD1, 1), (0xD1, 2)]
     (host_demo\<lparr>mux_service_id_out := 0xD1\<rparr>))) = MuxExit"
  using sermux_two_in_flight_stops_mux [OF demo_confs(1,2), of "host_demo\<lparr>mux_service_id_out := 0xD1\<rparr>" target_demo 1 2]
  by simp

end
