(* ===== verification/Xmodem.thy ===== *)
theory Xmodem
  imports Buf
begin

unbundle bit_operations_syntax

text \<open>
  The XMODEM-CRC receiver of the shell's \<^verbatim>\<open>recv\<close> command, \<^verbatim>\<open>src/xmodem.c\<close>. The line is the list of
  results of \<^verbatim>\<open>xmodem_in_func\<close>, a byte or a time-out (\<open>None\<close>); a line that is used up stays silent.
  The theory shows that a transmission, with damaged packets, noise and silence below the retry
  limit before each good packet, is received exactly; that no input whatsoever makes the receiver
  leave its buffer or run for ever; and what happens on a silent line and after a lost
  acknowledgement.
\<close>

abbreviation PXM_ACKET_SIZE :: nat where "PXM_ACKET_SIZE \<equiv> 128"
abbreviation XM_SOH :: u8 where "XM_SOH \<equiv> 0x01"
abbreviation XM_ACK :: u8 where "XM_ACK \<equiv> 0x06"
abbreviation XM_NAK :: u8 where "XM_NAK \<equiv> 0x15"
abbreviation XM_CAN :: u8 where "XM_CAN \<equiv> 0x18"
abbreviation XM_EOT :: u8 where "XM_EOT \<equiv> 0x04"
abbreviation XM_C :: u8 where "XM_C \<equiv> 0x43"
abbreviation XMODEM_INITIAL_BUFFER_SIZE :: nat where "XMODEM_INITIAL_BUFFER_SIZE \<equiv> 1024"
abbreviation XMODEM_INCREMENT_AMMOUNT :: u32 where "XMODEM_INCREMENT_AMMOUNT \<equiv> 512"
abbreviation XMODEM_RETRY_LIMIT :: nat where "XMODEM_RETRY_LIMIT \<equiv> 20"
abbreviation XMODEM_ERROR_REMOTECANCEL :: int where "XMODEM_ERROR_REMOTECANCEL \<equiv> -1"
abbreviation XMODEM_ERROR_RETRYEXCEED :: int where "XMODEM_ERROR_RETRYEXCEED \<equiv> -3"
abbreviation XMODEM_ERROR_OUTOFMEM :: int where "XMODEM_ERROR_OUTOFMEM \<equiv> -4"

type_synonym line_in = "u8 option list"

subsection \<open>The functions of the file\<close>

fun xmodem_in :: "line_in \<Rightarrow> u8 option \<times> line_in" where
  "xmodem_in [] = (None, [])"
| "xmodem_in (c # inp) = (c, inp)"

text \<open>Flushing reads up to the first time-out; with \<open>cancel\<close> it then sends three CAN.\<close>

fun xmodem_drain :: "line_in \<Rightarrow> line_in" where
  "xmodem_drain [] = []"
| "xmodem_drain (None # inp) = inp"
| "xmodem_drain (Some c # inp) = xmodem_drain inp"

definition xmodem_flush :: "bool \<Rightarrow> line_in \<times> u8 list \<Rightarrow> line_in \<times> u8 list" where
  "xmodem_flush cancel s = (xmodem_drain (fst s), if cancel then snd s @ [XM_CAN, XM_CAN, XM_CAN] else snd s)"

fun xmodem_read_packet :: "nat \<Rightarrow> line_in \<Rightarrow> u8 list option \<times> line_in" where
  "xmodem_read_packet 0 inp = (Some [], inp)"
| "xmodem_read_packet (Suc n) inp = (case xmodem_in inp of
     (None, inp') \<Rightarrow> (None, inp')
   | (Some c, inp') \<Rightarrow> (case xmodem_read_packet n inp' of
       (None, inp'') \<Rightarrow> (None, inp'') | (Some cs, inp'') \<Rightarrow> (Some (c # cs), inp'')))"

definition crc_bit :: "u32 \<Rightarrow> u32" where
  "crc_bit chk = (if chk AND 0x8000 \<noteq> 0 then push_bit 1 chk XOR 0x1021 else push_bit 1 chk)"

definition crc_byte :: "u32 \<Rightarrow> u8 \<Rightarrow> u32" where
  "crc_byte chk c = (crc_bit ^^ 8) (chk XOR push_bit 8 (ucast c))"

definition xmodem_crc :: "u8 list \<Rightarrow> u32" where
  "xmodem_crc cs = foldl crc_byte 0 cs AND 0xFFFF"

definition xmodem_packet_ok :: "u8 \<Rightarrow> u8 list \<Rightarrow> bool" where
  "xmodem_packet_ok blocknum pbuf \<longleftrightarrow>
     pbuf ! 0 = blocknum \<and> pbuf ! 1 = NOT blocknum \<and>
     (let chk = xmodem_crc (take PXM_ACKET_SIZE (drop 2 pbuf))
      in (ucast (pbuf ! 130) :: u32) = drop_bit 8 chk AND 0xFF \<and> (ucast (pbuf ! 131) :: u32) = chk AND 0xFF)"

definition xmodem_get_record :: "u8 \<Rightarrow> line_in \<times> u8 list \<Rightarrow> u8 list option \<times> line_in \<times> u8 list" where
  "xmodem_get_record blocknum s = (case xmodem_read_packet (PXM_ACKET_SIZE + 4) (fst s) of
     (None, inp) \<Rightarrow> (None, inp, snd s @ [XM_NAK])
   | (Some pbuf, inp) \<Rightarrow>
       if xmodem_packet_ok blocknum pbuf then (Some pbuf, inp, snd s)
       else (None, inp, snd s @ [XM_NAK]))"

text \<open>The loop's variables; \<open>retries\<close> counts down from a small constant.\<close>

record xm_state =
  xm_starting :: bool
  xm_packnum :: u8
  xm_retries :: nat
  xm_limit :: u32
  xm_size :: u32
  xm_dest :: "u8 list"

definition xmodem_store :: "(nat \<Rightarrow> bool) \<Rightarrow> (nat \<Rightarrow> u8) \<Rightarrow> u8 list \<Rightarrow> xm_state \<Rightarrow> line_in \<times> u8 list
    \<Rightarrow> c_fault + (int option \<times> xm_state \<times> line_in \<times> u8 list)" where
  "xmodem_store avail junk pbuf st s =
     (let grow = xm_size st + of_nat PXM_ACKET_SIZE > xm_limit st;
          limit = (if grow then xm_limit st + XMODEM_INCREMENT_AMMOUNT else xm_limit st);
          p = (if grow then c_realloc (avail (unat limit)) junk (Some (xm_dest st)) (unat limit) else Some (xm_dest st))
      in case p of
           None \<Rightarrow> Inr (Some XMODEM_ERROR_OUTOFMEM, st\<lparr>xm_limit := limit\<rparr>, xmodem_flush True s)
         | Some dest \<Rightarrow>
             (if unat (xm_size st) + PXM_ACKET_SIZE \<le> length dest
              then Inr (None, st\<lparr>xm_limit := limit,
                                 xm_dest := overwrite dest (unat (xm_size st)) (take PXM_ACKET_SIZE (drop 2 pbuf)),
                                 xm_size := xm_size st + of_nat PXM_ACKET_SIZE\<rparr>, fst s, snd s @ [XM_ACK])
              else Inl OutOfBounds))"

definition xmodem_step :: "(nat \<Rightarrow> bool) \<Rightarrow> (nat \<Rightarrow> u8) \<Rightarrow> xm_state \<Rightarrow> line_in \<times> u8 list
    \<Rightarrow> c_fault + (int option \<times> xm_state \<times> line_in \<times> u8 list)" where
  "xmodem_step avail junk st s =
     (let out = (if xm_starting st then snd s @ [XM_C] else snd s)
      in case xmodem_in (fst s) of
           (None, inp) \<Rightarrow> Inr (None, st, inp, out)
         | (Some ch, inp) \<Rightarrow>
             if ch \<noteq> XM_SOH \<and> ch \<noteq> XM_EOT \<and> ch \<noteq> XM_CAN then Inr (None, st, inp, out)
             else if ch = XM_EOT then Inr (Some (uint (xm_size st)), st, xmodem_flush False (inp, out @ [XM_ACK]))
             else if ch = XM_CAN then Inr (Some XMODEM_ERROR_REMOTECANCEL, st, xmodem_flush False (inp, out @ [XM_ACK]))
             else (let st1 = st\<lparr>xm_starting := False\<rparr>
                   in case xmodem_get_record (xm_packnum st1) (inp, out) of
                        (None, s') \<Rightarrow> Inr (None, st1, s')
                      | (Some pbuf, s') \<Rightarrow>
                          xmodem_store avail junk pbuf
                            (st1\<lparr>xm_retries := XMODEM_RETRY_LIMIT, xm_packnum := xm_packnum st1 + 1\<rparr>)
                            (xmodem_flush False s')))"

text \<open>Every iteration uses up input, or there is none left and it leaves the retry count alone.\<close>

lemma length_drain: "length (xmodem_drain inp) \<le> length inp"
  by (induction inp rule: xmodem_drain.induct) auto

lemma length_read_packet: "length (snd (xmodem_read_packet n inp)) \<le> length inp"
proof (induction n arbitrary: inp)
  case (Suc n)
  show ?case
  proof (cases inp)
    case Nil
    then show ?thesis by simp
  next
    case (Cons a rest)
    then show ?thesis using Suc.IH [of rest]
      by (cases a) (auto split: prod.split option.split dest: le_SucI)
  qed
qed simp

lemma length_get_record:
  "xmodem_get_record b s = (r, s') \<Longrightarrow> length (fst s') \<le> length (fst s)"
  using length_read_packet [of "PXM_ACKET_SIZE + 4" "fst s"]
  by (auto simp: xmodem_get_record_def simp del: xmodem_read_packet.simps split: prod.splits option.splits if_splits)

lemma xmodem_store_inp:
  "xmodem_store avail junk pbuf st s = Inr (r, st', s') \<Longrightarrow> length (fst s') \<le> length (fst s)"
  using length_drain [of "fst s"]
  by (auto simp: xmodem_store_def xmodem_flush_def Let_def split: option.splits if_splits)

lemma xmodem_step_uses_input:
  assumes "xmodem_step avail junk st s = Inr (None, st', s')"
  shows "length (fst s') < length (fst s) \<or> fst s = [] \<and> fst s' = [] \<and> xm_retries st' = xm_retries st"
proof (cases "fst s")
  case Nil
  then show ?thesis using assms by (auto simp: xmodem_step_def Let_def)
next
  case (Cons a rest)
  have "length (fst s') \<le> length rest"
    using assms Cons
    by (auto simp: xmodem_step_def Let_def xmodem_flush_def
        dest!: length_get_record xmodem_store_inp split: option.splits if_splits prod.splits)
      (metis length_drain order_trans fst_conv)+
  then show ?thesis using Cons by simp
qed

function xmodem_loop :: "(nat \<Rightarrow> bool) \<Rightarrow> (nat \<Rightarrow> u8) \<Rightarrow> xm_state \<Rightarrow> line_in \<times> u8 list
    \<Rightarrow> c_fault + (int \<times> u8 list \<times> line_in \<times> u8 list)" where
  "xmodem_loop avail junk st s =
     (if xm_retries st = 0 then Inr (XMODEM_ERROR_RETRYEXCEED, xm_dest st, xmodem_flush True s)
      else (case xmodem_step avail junk (st\<lparr>xm_retries := xm_retries st - 1\<rparr>) s of
              Inl e \<Rightarrow> Inl e
            | Inr (Some r, st', s') \<Rightarrow> Inr (r, xm_dest st', s')
            | Inr (None, st', s') \<Rightarrow> xmodem_loop avail junk st' s'))"
  by pat_completeness auto
termination
  by (relation "measures [\<lambda>(_, _, st, s). length (fst s), \<lambda>(_, _, st, s). xm_retries st]")
    (auto dest!: xmodem_step_uses_input)

declare xmodem_loop.simps [simp del]

definition xmodem_receive :: "(nat \<Rightarrow> bool) \<Rightarrow> (nat \<Rightarrow> u8) \<Rightarrow> u8 list \<Rightarrow> line_in
    \<Rightarrow> c_fault + (int \<times> u8 list \<times> line_in \<times> u8 list)" where
  "xmodem_receive avail junk dest inp =
     xmodem_loop avail junk \<lparr>xm_starting = True, xm_packnum = 1, xm_retries = XMODEM_RETRY_LIMIT,
       xm_limit = of_nat XMODEM_INITIAL_BUFFER_SIZE, xm_size = 0, xm_dest = dest\<rparr> (inp, [])"

subsection \<open>Storing a packet\<close>

text \<open>The block has the size the receiver believes it has, and is never far ahead of the data.\<close>

definition xm_inv :: "xm_state \<Rightarrow> bool" where
  "xm_inv st \<longleftrightarrow> length (xm_dest st) = unat (xm_limit st) \<and> unat (xm_size st) \<le> unat (xm_limit st) \<and>
     unat (xm_limit st) \<le> unat (xm_size st) + 1024 \<and> unat (xm_size st) mod PXM_ACKET_SIZE = 0"

lemma length_c_realloc: "c_realloc a junk old n = Some b \<Longrightarrow> length b = n"
  by (auto simp: c_realloc_def split: if_splits option.splits)

lemma take_c_realloc: "c_realloc a junk (Some d) n = Some b \<Longrightarrow> m \<le> n \<Longrightarrow> m \<le> length d \<Longrightarrow> take m b = take m d"
  by (auto simp: c_realloc_def min_def split: if_splits)

lemma unat_plus_small:
  "unat (x :: u32) + k < 2 ^ 32 \<Longrightarrow> unat (x + of_nat k) = unat x + k"
  by (simp add: unat_word_ariths unat_of_nat)

lemma xm_sizes:
  assumes "unat (xm_size st) < 4294965248" "unat (xm_limit st) \<le> unat (xm_size st) + 1024"
  shows "unat (xm_size st + 128) = unat (xm_size st) + 128" "unat (xm_limit st + 512) = unat (xm_limit st) + 512"
  using unat_plus_small [of "xm_size st" 128] unat_plus_small [of "xm_limit st" 512] assms by simp_all

lemma xmodem_store_ok:
  assumes inv: "xm_inv st" and small: "unat (xm_size st) < 4294965248" and len: "length pbuf = 132"
  obtains st' s' where "xmodem_store avail junk pbuf st s = Inr (Some XMODEM_ERROR_OUTOFMEM, st', s')" "\<not> avail (unat (xm_limit st'))"
  | st' where "xmodem_store avail junk pbuf st s = Inr (None, st', fst s, snd s @ [XM_ACK])" "xm_inv st'"
    "unat (xm_size st') = unat (xm_size st) + PXM_ACKET_SIZE" "xm_retries st' = xm_retries st"
    "xm_packnum st' = xm_packnum st" "xm_starting st' = xm_starting st"
    "take (unat (xm_size st')) (xm_dest st') = take (unat (xm_size st)) (xm_dest st) @ take PXM_ACKET_SIZE (drop 2 pbuf)"
proof -
  let ?data = "take PXM_ACKET_SIZE (drop 2 pbuf)"
  define grow where "grow \<longleftrightarrow> xm_size st + of_nat PXM_ACKET_SIZE > xm_limit st"
  define limit where "limit = (if grow then xm_limit st + XMODEM_INCREMENT_AMMOUNT else xm_limit st)"
  define q where "q = (if grow then c_realloc (avail (unat limit)) junk (Some (xm_dest st)) (unat limit) else Some (xm_dest st))"
  note i = inv [unfolded xm_inv_def]
  have u: "unat (xm_size st + 128) = unat (xm_size st) + 128" "unat (xm_limit st + 512) = unat (xm_limit st) + 512"
    using xm_sizes [OF small] i by blast+
  have lim: "unat (xm_size st) + 128 \<le> unat limit" "unat limit \<le> unat (xm_size st) + 1152 - 1" "unat (xm_limit st) \<le> unat limit"
    using i u by (auto simp: limit_def grow_def word_less_nat_alt not_less)
  have eq: "xmodem_store avail junk pbuf st s = (case q of
         None \<Rightarrow> Inr (Some XMODEM_ERROR_OUTOFMEM, st\<lparr>xm_limit := limit\<rparr>, xmodem_flush True s)
       | Some dest \<Rightarrow>
           (if unat (xm_size st) + PXM_ACKET_SIZE \<le> length dest
            then Inr (None, st\<lparr>xm_limit := limit, xm_dest := overwrite dest (unat (xm_size st)) ?data,
                               xm_size := xm_size st + of_nat PXM_ACKET_SIZE\<rparr>, fst s, snd s @ [XM_ACK])
            else Inl OutOfBounds))"
    by (simp only: xmodem_store_def Let_def grow_def limit_def q_def)
  show ?thesis
  proof (cases q)
    case None
    then have "\<not> avail (unat limit)" by (auto simp: q_def c_realloc_def split: if_splits)
    then show ?thesis using that(1) eq None by simp
  next
    case (Some dest)
    have ld: "length dest = unat limit"
      using Some i by (auto simp: q_def limit_def dest: length_c_realloc split: if_splits)
    have pre: "take (unat (xm_size st)) dest = take (unat (xm_size st)) (xm_dest st)"
      using Some i lim take_c_realloc [of _ junk "xm_dest st" "unat limit" dest "unat (xm_size st)"]
      by (auto simp: q_def split: if_splits)
    let ?st = "st\<lparr>xm_limit := limit, xm_dest := overwrite dest (unat (xm_size st)) ?data,
        xm_size := xm_size st + of_nat PXM_ACKET_SIZE\<rparr>"
    have data: "length ?data = 128" using len by simp
    have inv': "xm_inv ?st"
      using i lim u ld data by (auto simp: xm_inv_def mod_simps)
    have tk: "take (unat (xm_size st) + 128) (overwrite dest (unat (xm_size st)) ?data) = take (unat (xm_size st)) dest @ ?data"
      using data lim ld by (simp add: overwrite_def)
    show ?thesis using that(2) [of ?st] eq Some ld lim u inv' tk pre by simp
  qed
qed

lemma xmodem_get_record_some:
  assumes "xmodem_get_record b s = (Some pbuf, s')"
  shows "length pbuf = 132" "length (fst s') + 132 \<le> length (fst s)" "xmodem_packet_ok b pbuf" "snd s' = snd s"
proof -
  have rd: "length cs = n \<and> length inp' + n \<le> length inp" if "xmodem_read_packet n inp = (Some cs, inp')" for n inp cs inp'
    using that
  proof (induction n arbitrary: inp cs)
    case (Suc n)
    then show ?case by (cases inp) (auto split: prod.splits option.splits)
  qed simp
  show "length pbuf = 132" "length (fst s') + 132 \<le> length (fst s)" "xmodem_packet_ok b pbuf" "snd s' = snd s"
    using assms rd [of 132 "fst s" pbuf] by (auto simp: xmodem_get_record_def simp del: xmodem_read_packet.simps split: prod.splits option.splits if_splits)
qed

subsection \<open>Any input\<close>

definition xm_result_ok :: "int \<Rightarrow> u8 list \<Rightarrow> bool" where
  "xm_result_ok r dest \<longleftrightarrow>
     (if r < 0 then r \<in> {XMODEM_ERROR_REMOTECANCEL, XMODEM_ERROR_RETRYEXCEED, XMODEM_ERROR_OUTOFMEM}
      else r \<le> int (length dest) \<and> r mod int PXM_ACKET_SIZE = 0)"

lemma xm_inv_same:
  "xm_inv (st\<lparr>xm_starting := b, xm_retries := n, xm_packnum := k\<rparr>) = xm_inv st"
  "xm_inv (st\<lparr>xm_starting := b\<rparr>) = xm_inv st" "xm_inv (st\<lparr>xm_retries := n\<rparr>) = xm_inv st"
  by (simp_all add: xm_inv_def)

lemma xm_inv_result: "xm_inv st \<Longrightarrow> xm_result_ok (uint (xm_size st)) (xm_dest st)"
proof -
  assume i: "xm_inv st"
  have "int (unat (xm_size st)) mod int PXM_ACKET_SIZE = 0" "int (unat (xm_size st)) \<le> int (length (xm_dest st))"
    using i unfolding xm_inv_def by presburger+
  then show ?thesis unfolding xm_result_ok_def uint_nat by auto
qed

lemma xmodem_step_safe:
  assumes inv: "xm_inv st" and small: "unat (xm_size st) + length (fst s) < 4294965248"
  obtains r st' s' where "xmodem_step avail junk st s = Inr (Some r, st', s')" "xm_result_ok r (xm_dest st')"
  | st' s' where "xmodem_step avail junk st s = Inr (None, st', s')" "xm_inv st'"
      "unat (xm_size st') + length (fst s') < 4294965248"
proof (cases "fst s")
  case Nil
  then show ?thesis using that(2) inv small by (simp add: xmodem_step_def Let_def)
next
  case (Cons a inp)
  show ?thesis
  proof (cases a)
    case None
    then show ?thesis using that(2) Cons inv small by (simp add: xmodem_step_def Let_def)
  next
    case (Some ch)
    let ?out = "if xm_starting st then snd s @ [XM_C] else snd s"
    consider "ch \<noteq> XM_SOH \<and> ch \<noteq> XM_EOT \<and> ch \<noteq> XM_CAN" | "ch = XM_EOT" | "ch = XM_CAN" | "ch = XM_SOH" by blast
    then show ?thesis
    proof cases
      case 1
      then show ?thesis using that(2) Cons Some inv small by (simp add: xmodem_step_def Let_def)
    next
      case 2
      then show ?thesis using that(1) Cons Some xm_inv_result [OF inv] by (simp add: xmodem_step_def Let_def)
    next
      case 3
      then show ?thesis using that(1) Cons Some by (simp add: xmodem_step_def Let_def xm_result_ok_def)
    next
      case 4
      let ?st1 = "st\<lparr>xm_starting := False\<rparr>"
      obtain res s1 where g: "xmodem_get_record (xm_packnum ?st1) (inp, ?out) = (res, s1)"
        by (metis surj_pair)
      show ?thesis
      proof (cases res)
        case None
        then show ?thesis using that(2) [of ?st1 s1] g Cons Some 4 inv small length_get_record [OF g]
          by (simp add: xmodem_step_def Let_def xm_inv_same)
      next
        case res: (Some pbuf)
        note rec = xmodem_get_record_some [OF g [unfolded res]]
        let ?st2 = "?st1\<lparr>xm_retries := XMODEM_RETRY_LIMIT, xm_packnum := xm_packnum ?st1 + 1\<rparr>"
        let ?s2 = "xmodem_flush False s1"
        have step: "xmodem_step avail junk st s = xmodem_store avail junk pbuf ?st2 ?s2"
          using g Cons Some 4 res by (simp add: xmodem_step_def Let_def)
        have i2: "xm_inv ?st2" "unat (xm_size ?st2) < 4294965248" using inv small by (simp_all add: xm_inv_same)
        have l2: "length (fst ?s2) + 132 \<le> length inp"
          using rec(2) length_drain [of "fst s1"] by (simp add: xmodem_flush_def)
        show ?thesis
        proof (cases rule: xmodem_store_ok [OF i2 rec(1), of avail junk ?s2])
          case (1 st' s')
          then show ?thesis using that(1) step by (simp add: xm_result_ok_def)
        next
          case (2 st')
          then show ?thesis using that(2) [of st' "(fst ?s2, snd ?s2 @ [XM_ACK])"] step l2 small Cons by simp
        qed
      qed
    qed
  qed
qed

text \<open>Safety and termination for every input: whatever arrives on the line (any bytes, any
  time-outs, any packet headers) and whenever memory runs out, the receiver returns, never
  stores outside the block it was given or has grown, and its result is either one of its three
  error codes or a whole number of packets that fits in the block.\<close>

theorem xmodem_receive_safe:
  assumes "length dest = XMODEM_INITIAL_BUFFER_SIZE" "length inp < 4294965248"
  shows "\<exists>r dest' rest out. xmodem_receive avail junk dest inp = Inr (r, dest', rest, out) \<and> xm_result_ok r dest'"
proof -
  have "\<exists>r dest' rest out. xmodem_loop avail junk st s = Inr (r, dest', rest, out) \<and> xm_result_ok r dest'"
    if "xm_inv st" "unat (xm_size st) + length (fst s) < 4294965248" for st s
    using that
  proof (induction avail junk st s rule: xmodem_loop.induct)
    case (1 avail junk st s)
    show ?case
    proof (cases "xm_retries st = 0")
      case True
      then show ?thesis by (simp add: xmodem_loop.simps xm_result_ok_def xmodem_flush_def)
    next
      case False
      let ?st = "st\<lparr>xm_retries := xm_retries st - 1\<rparr>"
      have pre: "xm_inv ?st" "unat (xm_size ?st) + length (fst s) < 4294965248"
        using 1(2,3) by (simp_all add: xm_inv_same)
      show ?thesis
      proof (cases rule: xmodem_step_safe [OF pre, of avail junk])
        case (1 r st' s')
        then show ?thesis using False by (cases s') (simp add: xmodem_loop.simps [of _ _ st])
      next
        case (2 st' s')
        then show ?thesis using False 1(1) [OF False 2(1)] by (simp add: xmodem_loop.simps [of _ _ st])
      qed
    qed
  qed
  from this [of "\<lparr>xm_starting = True, xm_packnum = 1, xm_retries = XMODEM_RETRY_LIMIT,
       xm_limit = of_nat XMODEM_INITIAL_BUFFER_SIZE, xm_size = 0, xm_dest = dest\<rparr>" "(inp, [])"]
  show ?thesis using assms by (simp add: xmodem_receive_def xm_inv_def)
qed

subsection \<open>A transmission\<close>

text \<open>The sender's packet, and what may go wrong before it arrives.\<close>

definition xmodem_packet :: "u8 \<Rightarrow> u8 list \<Rightarrow> u8 list" where
  "xmodem_packet blocknum data =
     [blocknum, NOT blocknum] @ data @ [ucast (drop_bit 8 (xmodem_crc data)), ucast (xmodem_crc data)]"

datatype xm_fail = XSilent | XNoise u8 | XShort "u8 list" | XDamaged "u8 list"

fun fail_line :: "xm_fail \<Rightarrow> line_in" where
  "fail_line XSilent = [None]"
| "fail_line (XNoise c) = [Some c]"
| "fail_line (XShort cs) = Some XM_SOH # map Some cs @ [None]"
| "fail_line (XDamaged cs) = Some XM_SOH # map Some cs"

fun fail_ok :: "u8 \<Rightarrow> xm_fail \<Rightarrow> bool" where
  "fail_ok b XSilent = True"
| "fail_ok b (XNoise c) = (c \<noteq> XM_SOH \<and> c \<noteq> XM_EOT \<and> c \<noteq> XM_CAN)"
| "fail_ok b (XShort cs) = (length cs < 132)"
| "fail_ok b (XDamaged cs) = (length cs = 132 \<and> \<not> xmodem_packet_ok b cs)"

text \<open>The line of a whole transmission: every packet after its failures, then silence.\<close>

fun xm_line :: "u8 \<Rightarrow> (xm_fail list \<times> u8 list) list \<Rightarrow> line_in" where
  "xm_line b [] = []"
| "xm_line b ((fs, data) # ps) =
     concat (map fail_line fs) @ Some XM_SOH # map Some (xmodem_packet b data) @ None # xm_line (b + 1) ps"

fun xm_line_ok :: "u8 \<Rightarrow> (xm_fail list \<times> u8 list) list \<Rightarrow> bool" where
  "xm_line_ok b [] = True"
| "xm_line_ok b ((fs, data) # ps) = (length fs < XMODEM_RETRY_LIMIT \<and> (\<forall>f \<in> set fs. fail_ok b f) \<and>
     length data = PXM_ACKET_SIZE \<and> xm_line_ok (b + 1) ps)"

definition acks :: "u8 list \<Rightarrow> nat" where
  "acks out = length (filter (\<lambda>c. c = XM_ACK) out)"

lemma acks_simps [simp]: "acks [] = 0" "acks (xs @ ys) = acks xs + acks ys"
  "acks (c # xs) = (if c = XM_ACK then Suc (acks xs) else acks xs)"
  by (simp_all add: acks_def)

lemma crc_bytes:
  fixes v :: u32
  assumes "v = w AND 0xFFFF"
  shows "(ucast (ucast (drop_bit 8 v) :: u8) :: u32) = drop_bit 8 v AND 0xFF" "(ucast (ucast v :: u8) :: u32) = v AND 0xFF"
proof -
  have m: "bit (0xFF :: int) n \<longleftrightarrow> n < 8" for n
  proof -
    have "(0xFF :: int) = mask 8" by (simp add: mask_eq_exp_minus_1)
    then show ?thesis by (simp only: bit_mask_iff) simp
  qed
  show "(ucast (ucast (drop_bit 8 v) :: u8) :: u32) = drop_bit 8 v AND 0xFF" "(ucast (ucast v :: u8) :: u32) = v AND 0xFF"
    by ((rule bit_word_eqI, auto simp: bit_simps m)[1])+
qed

lemma xmodem_packet_accepted:
  assumes "length data = PXM_ACKET_SIZE"
  shows "xmodem_packet_ok b (xmodem_packet b data)" "length (xmodem_packet b data) = 132"
    "take PXM_ACKET_SIZE (drop 2 (xmodem_packet b data)) = data"
  using assms crc_bytes [of "xmodem_crc data"]
  by (auto simp: xmodem_packet_ok_def xmodem_packet_def Let_def nth_append xmodem_crc_def)

lemma read_packet_full: "xmodem_read_packet (length cs) (map Some cs @ inp) = (Some cs, inp)"
  by (induction cs) auto

lemma read_packet_short: "length cs < n \<Longrightarrow> xmodem_read_packet n (map Some cs @ None # inp) = (None, inp)"
proof (induction cs arbitrary: n)
  case Nil
  then show ?case by (cases n) auto
next
  case (Cons c cs)
  then show ?case by (cases n) auto
qed

lemma xmodem_step_fail:
  assumes "fail_ok (xm_packnum st) f"
  shows "\<exists>b out'. xmodem_step avail junk st (fail_line f @ inp, out) = Inr (None, st\<lparr>xm_starting := b\<rparr>, inp, out') \<and>
    acks out' = acks out"
proof (cases f)
  case XSilent
  then show ?thesis by (intro exI [of _ "xm_starting st"]) (simp add: xmodem_step_def Let_def)
next
  case (XNoise c)
  then show ?thesis using assms by (intro exI [of _ "xm_starting st"]) (simp add: xmodem_step_def Let_def)
next
  case (XShort cs)
  then have "xmodem_read_packet 132 (map Some cs @ None # inp) = (None, inp)"
    using assms read_packet_short by simp
  then show ?thesis using XShort
    by (intro exI [of _ False]) (simp add: xmodem_step_def Let_def xmodem_get_record_def)
next
  case (XDamaged cs)
  then have "xmodem_read_packet 132 (map Some cs @ inp) = (Some cs, inp)"
    using assms read_packet_full [of cs inp] by simp
  then show ?thesis using XDamaged assms
    by (intro exI [of _ False]) (simp add: xmodem_step_def Let_def xmodem_get_record_def)
qed

lemma xmodem_loop_fails:
  assumes "\<forall>f \<in> set fs. fail_ok (xm_packnum st) f" "length fs < xm_retries st"
  shows "\<exists>b out'. xmodem_loop avail junk st (concat (map fail_line fs) @ inp, out) =
      xmodem_loop avail junk (st\<lparr>xm_starting := b, xm_retries := xm_retries st - length fs\<rparr>) (inp, out') \<and> acks out' = acks out"
  using assms
proof (induction fs arbitrary: st out)
  case Nil
  then show ?case by (intro exI [of _ "xm_starting st"] exI [of _ out]) simp
next
  case (Cons f fs)
  let ?st = "st\<lparr>xm_retries := xm_retries st - 1\<rparr>"
  obtain b out1 where 1: "xmodem_step avail junk ?st (fail_line f @ concat (map fail_line fs) @ inp, out) =
      Inr (None, ?st\<lparr>xm_starting := b\<rparr>, concat (map fail_line fs) @ inp, out1)" "acks out1 = acks out"
    using xmodem_step_fail [of ?st f] Cons.prems by fastforce
  have pre: "\<forall>f \<in> set fs. fail_ok (xm_packnum (?st\<lparr>xm_starting := b\<rparr>)) f" "length fs < xm_retries (?st\<lparr>xm_starting := b\<rparr>)"
    using Cons.prems by auto
  obtain b' out2 where 2: "xmodem_loop avail junk (?st\<lparr>xm_starting := b\<rparr>) (concat (map fail_line fs) @ inp, out1) =
      xmodem_loop avail junk (?st\<lparr>xm_starting := b', xm_retries := xm_retries ?st - length fs\<rparr>) (inp, out2)" "acks out2 = acks out1"
    using Cons.IH [OF pre, of out1] by auto
  have "xm_retries st \<noteq> 0" using Cons.prems by auto
  then show ?case using 1 2
    by (intro exI [of _ b'] exI [of _ out2]) (simp add: xmodem_loop.simps [of avail junk st])
qed

lemma xmodem_step_packet:
  assumes inv: "xm_inv st" and small: "unat (xm_size st) < 4294965248"
    and data: "length data = PXM_ACKET_SIZE" and mem: "\<forall>n. avail n"
  obtains st' out' where "xmodem_step avail junk st (Some XM_SOH # map Some (xmodem_packet (xm_packnum st) data) @ None # inp, out) =
      Inr (None, st', inp, out')" "acks out' = Suc (acks out)" "xm_inv st'"
    "unat (xm_size st') = unat (xm_size st) + PXM_ACKET_SIZE" "xm_retries st' = XMODEM_RETRY_LIMIT"
    "xm_packnum st' = xm_packnum st + 1"
    "take (unat (xm_size st')) (xm_dest st') = take (unat (xm_size st)) (xm_dest st) @ data"
proof -
  let ?p = "xmodem_packet (xm_packnum st) data"
  let ?out = "if xm_starting st then out @ [XM_C] else out"
  let ?st2 = "st\<lparr>xm_starting := False, xm_retries := XMODEM_RETRY_LIMIT, xm_packnum := xm_packnum st + 1\<rparr>"
  note p = xmodem_packet_accepted [OF data, of "xm_packnum st"]
  have "xmodem_read_packet 132 (map Some ?p @ None # inp) = (Some ?p, None # inp)"
    using read_packet_full [of ?p "None # inp"] p(2) by simp
  then have step: "xmodem_step avail junk st (Some XM_SOH # map Some ?p @ None # inp, out) = xmodem_store avail junk ?p ?st2 (inp, ?out)"
    using p(1) by (simp add: xmodem_step_def Let_def xmodem_get_record_def xmodem_flush_def)
  have i2: "xm_inv ?st2" "unat (xm_size ?st2) < 4294965248" using inv small by (simp_all add: xm_inv_same)
  show ?thesis
  proof (cases rule: xmodem_store_ok [OF i2 p(2), of avail junk "(inp, ?out)"])
    case (1 st' s')
    then show ?thesis using mem by simp
  next
    case (2 st')
    then show ?thesis using that [of st' "?out @ [XM_ACK]"] step p(3) by simp
  qed
qed

lemma xmodem_loop_line:
  assumes "xm_inv st" "unat (xm_size st) + PXM_ACKET_SIZE * length ps < 4294965248" "xm_retries st = XMODEM_RETRY_LIMIT"
    and "xm_line_ok (xm_packnum st) ps" "\<forall>n. avail n"
  shows "\<exists>st' out'. xmodem_loop avail junk st (xm_line (xm_packnum st) ps @ inp, out) = xmodem_loop avail junk st' (inp, out') \<and>
    xm_inv st' \<and> xm_retries st' = XMODEM_RETRY_LIMIT \<and> xm_packnum st' = xm_packnum st + of_nat (length ps) \<and>
    unat (xm_size st') = unat (xm_size st) + PXM_ACKET_SIZE * length ps \<and> acks out' = acks out + length ps \<and>
    take (unat (xm_size st')) (xm_dest st') = take (unat (xm_size st)) (xm_dest st) @ concat (map snd ps)"
  using assms
proof (induction ps arbitrary: st out)
  case Nil
  then show ?case by (intro exI [of _ st] exI [of _ out]) simp
next
  case (Cons p ps)
  obtain fs data where p: "p = (fs, data)" by fastforce
  let ?rest = "Some XM_SOH # map Some (xmodem_packet (xm_packnum st) data) @ None # xm_line (xm_packnum st + 1) ps @ inp"
  obtain b out1 where 1: "xmodem_loop avail junk st (concat (map fail_line fs) @ ?rest, out) =
      xmodem_loop avail junk (st\<lparr>xm_starting := b, xm_retries := xm_retries st - length fs\<rparr>) (?rest, out1)" "acks out1 = acks out"
    using xmodem_loop_fails [of fs st avail junk ?rest out] Cons.prems p by auto
  let ?st = "st\<lparr>xm_starting := b, xm_retries := xm_retries st - length fs - 1\<rparr>"
  have pre: "xm_inv ?st" "unat (xm_size ?st) < 4294965248" "length data = PXM_ACKET_SIZE"
    using Cons.prems p by (simp_all add: xm_inv_def)
  obtain st2 out2 where 2: "xmodem_step avail junk ?st (?rest, out1) = Inr (None, st2, xm_line (xm_packnum st + 1) ps @ inp, out2)"
      "acks out2 = Suc (acks out1)" "xm_inv st2" "unat (xm_size st2) = unat (xm_size st) + PXM_ACKET_SIZE"
      "xm_retries st2 = XMODEM_RETRY_LIMIT" "xm_packnum st2 = xm_packnum st + 1"
      "take (unat (xm_size st2)) (xm_dest st2) = take (unat (xm_size st)) (xm_dest st) @ data"
    using xmodem_step_packet [OF pre Cons.prems(5), of junk "xm_line (xm_packnum st + 1) ps @ inp" out1] by auto
  have nz: "xm_retries st - length fs \<noteq> 0" using Cons.prems p by simp
  then have 3: "xmodem_loop avail junk (st\<lparr>xm_starting := b, xm_retries := xm_retries st - length fs\<rparr>) (?rest, out1) =
      xmodem_loop avail junk st2 (xm_line (xm_packnum st + 1) ps @ inp, out2)"
    using 2(1) by (simp add: xmodem_loop.simps [of avail junk "st\<lparr>xm_starting := b, xm_retries := xm_retries st - length fs\<rparr>"])
  have h: "unat (xm_size st2) + PXM_ACKET_SIZE * length ps < 4294965248" "xm_line_ok (xm_packnum st2) ps"
    using Cons.prems(2,4) 2 p by simp_all
  obtain st3 out3 where 4: "xmodem_loop avail junk st2 (xm_line (xm_packnum st2) ps @ inp, out2) = xmodem_loop avail junk st3 (inp, out3)"
      "xm_inv st3" "xm_retries st3 = XMODEM_RETRY_LIMIT" "xm_packnum st3 = xm_packnum st2 + of_nat (length ps)"
      "unat (xm_size st3) = unat (xm_size st2) + PXM_ACKET_SIZE * length ps" "acks out3 = acks out2 + length ps"
      "take (unat (xm_size st3)) (xm_dest st3) = take (unat (xm_size st2)) (xm_dest st2) @ concat (map snd ps)"
    using Cons.IH [OF 2(3) h(1) 2(5) h(2) Cons.prems(5), of out2] by blast
  have "xmodem_loop avail junk st (xm_line (xm_packnum st) (p # ps) @ inp, out) = xmodem_loop avail junk st3 (inp, out3)"
    using 1(1) 3 4(1) 2(6) p by simp
  then show ?case using 4 2 1(2) p by (intro exI [of _ st3] exI [of _ out3]) simp
qed

lemma xmodem_loop_zero:
  "xm_retries st = 0 \<Longrightarrow> xmodem_loop avail junk st s = Inr (XMODEM_ERROR_RETRYEXCEED, xm_dest st, xmodem_flush True s)"
  by (simp add: xmodem_loop.simps)

lemma xmodem_loop_next:
  assumes "xm_retries st \<noteq> 0" "xmodem_step avail junk (st\<lparr>xm_retries := xm_retries st - 1\<rparr>) s = Inr (None, st', s')"
  shows "xmodem_loop avail junk st s = xmodem_loop avail junk st' s'"
  using assms by (simp add: xmodem_loop.simps [of _ _ st])

lemma xmodem_loop_eot:
  assumes "xm_retries st \<noteq> 0"
  shows "xmodem_loop avail junk st (Some XM_EOT # inp, out) =
    Inr (uint (xm_size st), xm_dest st, xmodem_drain inp, (if xm_starting st then out @ [XM_C] else out) @ [XM_ACK])"
  using assms by (simp add: xmodem_loop.simps [of _ _ st] xmodem_step_def Let_def xmodem_flush_def)

subsection \<open>Properties\<close>

text \<open>C16. A transmission is received exactly: blocks of 128 bytes, sent as packets with the right
  numbers and CRC, each preceded by fewer than 20 failures of any kind (silence, noise, packets
  cut short, complete packets that do not check) and followed by the silence in which the
  sender waits for the acknowledgement, then an end of transmission after fewer than 20 failures,
  give a return value of 128 times the number of blocks, a buffer that starts with exactly the
  blocks in order, and one acknowledgement per packet and one for the end.\<close>

theorem xmodem_receives_transmission:
  assumes "length dest = XMODEM_INITIAL_BUFFER_SIZE" "\<forall>n. avail n" "xm_line_ok 1 ps"
    and "\<forall>f \<in> set fs. fail_ok (1 + of_nat (length ps)) f" "length fs < XMODEM_RETRY_LIMIT"
    and "PXM_ACKET_SIZE * length ps < 4294965248"
  shows "\<exists>dest' out. xmodem_receive avail junk dest (xm_line 1 ps @ concat (map fail_line fs) @ [Some XM_EOT]) =
      Inr (int (PXM_ACKET_SIZE * length ps), dest', [], out) \<and>
    take (PXM_ACKET_SIZE * length ps) dest' = concat (map snd ps) \<and> acks out = length ps + 1"
proof -
  let ?st = "\<lparr>xm_starting = True, xm_packnum = 1, xm_retries = XMODEM_RETRY_LIMIT,
       xm_limit = of_nat XMODEM_INITIAL_BUFFER_SIZE, xm_size = 0, xm_dest = dest\<rparr>"
  have pre: "xm_inv ?st" "unat (xm_size ?st) + PXM_ACKET_SIZE * length ps < 4294965248" "xm_retries ?st = XMODEM_RETRY_LIMIT"
    "xm_line_ok (xm_packnum ?st) ps"
    using assms by (simp_all add: xm_inv_def)
  obtain st1 out1 where 1: "xmodem_loop avail junk ?st (xm_line 1 ps @ concat (map fail_line fs) @ [Some XM_EOT], []) =
      xmodem_loop avail junk st1 (concat (map fail_line fs) @ [Some XM_EOT], out1)"
      "xm_retries st1 = XMODEM_RETRY_LIMIT" "xm_packnum st1 = 1 + of_nat (length ps)"
      "unat (xm_size st1) = PXM_ACKET_SIZE * length ps" "acks out1 = length ps"
      "take (unat (xm_size st1)) (xm_dest st1) = concat (map snd ps)"
    using xmodem_loop_line [OF pre assms(2), of junk "concat (map fail_line fs) @ [Some XM_EOT]" "[]"] by auto
  obtain b out2 where 2: "xmodem_loop avail junk st1 (concat (map fail_line fs) @ [Some XM_EOT], out1) =
      xmodem_loop avail junk (st1\<lparr>xm_starting := b, xm_retries := xm_retries st1 - length fs\<rparr>) ([Some XM_EOT], out2)"
      "acks out2 = acks out1"
    using xmodem_loop_fails [of fs st1 avail junk "[Some XM_EOT]" out1] assms 1 by auto
  have "uint (xm_size st1) = int (PXM_ACKET_SIZE * length ps)" using 1(4) by (simp only: uint_nat)
  then show ?thesis using 1 2 assms(5) by (simp add: xmodem_receive_def xmodem_loop_eot)
qed

text \<open>A line that stays silent, or on which only noise arrives, ends the call after the 20
  allowed tries with the retry error, three cancel bytes and the buffer untouched.\<close>

theorem xmodem_gives_up:
  assumes "\<forall>f \<in> set fs. fail_ok 1 f" "length fs = XMODEM_RETRY_LIMIT - 1" "fail_ok 1 g"
  shows "\<exists>out. xmodem_receive avail junk dest (concat (map fail_line fs) @ fail_line g) =
    Inr (XMODEM_ERROR_RETRYEXCEED, dest, [], out @ [XM_CAN, XM_CAN, XM_CAN])"
proof -
  let ?st = "\<lparr>xm_starting = True, xm_packnum = 1, xm_retries = XMODEM_RETRY_LIMIT,
       xm_limit = of_nat XMODEM_INITIAL_BUFFER_SIZE, xm_size = 0, xm_dest = dest\<rparr>"
  obtain b out1 where 1: "xmodem_loop avail junk ?st (concat (map fail_line fs) @ fail_line g, []) =
      xmodem_loop avail junk (?st\<lparr>xm_starting := b, xm_retries := 1\<rparr>) (fail_line g, out1)"
    using xmodem_loop_fails [of fs ?st avail junk "fail_line g" "[]"] assms by auto
  let ?st1 = "?st\<lparr>xm_starting := b, xm_retries := 1\<rparr>"
  obtain b' out2 where 2: "xmodem_step avail junk (?st1\<lparr>xm_retries := xm_retries ?st1 - 1\<rparr>) (fail_line g, out1) =
      Inr (None, ?st1\<lparr>xm_retries := xm_retries ?st1 - 1, xm_starting := b'\<rparr>, [], out2)"
    using xmodem_step_fail [of "?st1\<lparr>xm_retries := xm_retries ?st1 - 1\<rparr>" g avail junk "[]" out1] assms(3) by auto
  have "xmodem_loop avail junk ?st1 (fail_line g, out1) =
      xmodem_loop avail junk (?st1\<lparr>xm_retries := xm_retries ?st1 - 1, xm_starting := b'\<rparr>) ([], out2)"
    by (rule xmodem_loop_next [OF _ 2]) simp
  then show ?thesis using 1 by (simp add: xmodem_receive_def xmodem_loop_zero xmodem_flush_def)
qed

text \<open>A lost acknowledgement is fatal: the sender then repeats the packet it sent last, and
  the receiver, which already expects the next number, rejects every copy of it with NAK however
  often it is sent, until the retries are used up.\<close>

theorem xmodem_repeated_packet_rejected:
  assumes "length data = PXM_ACKET_SIZE"
  shows "xmodem_get_record (b + 1) (map Some (xmodem_packet b data) @ inp, out) = (None, inp, out @ [XM_NAK])"
proof -
  have "xmodem_packet b data ! 0 = b" by (simp add: xmodem_packet_def)
  then have "\<not> xmodem_packet_ok (b + 1) (xmodem_packet b data)" by (simp add: xmodem_packet_ok_def)
  then show ?thesis
    using read_packet_full [of "xmodem_packet b data" inp] xmodem_packet_accepted(2) [OF assms, of b]
    by (simp add: xmodem_get_record_def)
qed

subsection \<open>Witnesses\<close>

theorem xmodem_receive_safe_witness:
  "\<exists>r dest' rest out. xmodem_receive (\<lambda>n. False) (\<lambda>_. 0) (replicate 1024 0) [Some XM_SOH, Some 1, None, Some 7] =
     Inr (r, dest', rest, out) \<and> xm_result_ok r dest'"
  by (rule xmodem_receive_safe) simp_all

theorem xmodem_receives_transmission_witness:
  "\<exists>dest' out. xmodem_receive (\<lambda>_. True) (\<lambda>_. 0) (replicate 1024 0)
      (xm_line 1 [([XSilent, XNoise 7, XShort [1, 2]], replicate 128 9)] @ concat (map fail_line [XSilent]) @ [Some XM_EOT]) =
      Inr (128, dest', [], out) \<and> take 128 dest' = replicate 128 9 \<and> acks out = Suc (Suc 0)"
  using xmodem_receives_transmission [of "replicate 1024 0" "\<lambda>_. True" "[([XSilent, XNoise 7, XShort [1, 2]], replicate 128 9)]"
      "[XSilent]" "\<lambda>_. 0"] by (simp del: xm_line.simps fail_line.simps)

theorem xmodem_gives_up_witness:
  "\<exists>out. xmodem_receive (\<lambda>_. True) (\<lambda>_. 0) [5] (concat (map fail_line (replicate 19 XSilent)) @ fail_line (XNoise 7)) =
     Inr (XMODEM_ERROR_RETRYEXCEED, [5], [], out @ [XM_CAN, XM_CAN, XM_CAN])"
  by (rule xmodem_gives_up) simp_all

theorem xmodem_repeated_packet_rejected_witness:
  "xmodem_get_record 2 (map Some (xmodem_packet 1 (replicate 128 0)), []) = (None, [], [XM_NAK])"
  using xmodem_repeated_packet_rejected [of "replicate 128 0" 1 "[]" "[]"] by simp

end
