(* ===== verification/Vtmr.thy ===== *)
theory Vtmr
  imports Elua_Int
begin

unbundle bit_operations_syntax

text \<open>
  Timers: the virtual timers, their match interrupts and the common timer functions of
  \<^verbatim>\<open>src/common_tmr.c\<close>. All virtual timers are advanced by one periodic interrupt,
  \<^verbatim>\<open>cmn_virtual_timer_cb\<close>; the foreground code resets a counter by leaving a request that the next
  interrupt serves. Interrupts are handed to \<^verbatim>\<open>elua_int_add\<close>; the queue is the field \<open>vt_q\<close>, of a
  type of its own, and \<open>add\<close> is what a call of \<^verbatim>\<open>elua_int_add\<close> with the match interrupt does to it
  (\<open>vtmr_int_add\<close> below for the queue of the Elua_Int theory). The theory shows that the
  interrupt refines one small automaton per timer, that periodic and one-shot match interrupts
  come exactly when they should, and what \<^verbatim>\<open>platform_timer_get_diff_us\<close> computes.
\<close>

abbreviation VTMR_FIRST_ID :: nat where "VTMR_FIRST_ID \<equiv> 32"
abbreviation PLATFORM_TIMER_INT_ONESHOT :: int where "PLATFORM_TIMER_INT_ONESHOT \<equiv> 1"
abbreviation PLATFORM_TIMER_INT_CYCLIC :: int where "PLATFORM_TIMER_INT_CYCLIC \<equiv> 2"
abbreviation PLATFORM_TIMER_INT_OK :: int where "PLATFORM_TIMER_INT_OK \<equiv> 0"
abbreviation PLATFORM_TIMER_INT_TOO_SHORT :: int where "PLATFORM_TIMER_INT_TOO_SHORT \<equiv> 1"
abbreviation PLATFORM_CPU_ENABLE :: int where "PLATFORM_CPU_ENABLE \<equiv> 1"
abbreviation PLATFORM_INT_NOT_HANDLED :: int where "PLATFORM_INT_NOT_HANDLED \<equiv> -3"

record vtmr_conf =
  VTMR_NUM_TIMERS :: nat
  VTMR_FREQ_HZ :: u32
  INT_TMR_MATCH :: u8

record 'q vtmr_sys =
  vtmr_counters :: "u32 list"
  vtmr_reset_idx :: int
  vtmr_period_limit :: "u32 list"
  vtmr_int_periodic_flag :: "u8 list"
  vtmr_int_enabled :: "u8 list"
  vtmr_int_flag :: "u8 list"
  vt_q :: 'q

definition VTMR_GET_ID :: "nat \<Rightarrow> nat" where
  "VTMR_GET_ID x = x - VTMR_FIRST_ID"

definition TIMER_IS_VIRTUAL :: "vtmr_conf \<Rightarrow> nat \<Rightarrow> bool" where
  "TIMER_IS_VIRTUAL cf x \<longleftrightarrow> VTMR_NUM_TIMERS cf > 0 \<and> VTMR_FIRST_ID \<le> x \<and> x < VTMR_NUM_TIMERS cf + VTMR_FIRST_ID"

definition vtmr_int_add :: "vtmr_conf \<Rightarrow> nat \<Rightarrow> int_sys \<Rightarrow> int_sys" where
  "vtmr_int_add cf resnum q = snd (elua_int_add (INT_TMR_MATCH cf) (of_nat resnum) q)"

subsection \<open>Bit maps of one bit per timer\<close>

definition vt_msk :: "nat \<Rightarrow> u8" where
  "vt_msk i = push_bit (i AND 7) 1"

definition vt_set :: "nat \<Rightarrow> u8 list \<Rightarrow> u8 list" where
  "vt_set i m = m[drop_bit 3 i := m ! drop_bit 3 i OR vt_msk i]"

definition vt_clear :: "nat \<Rightarrow> u8 list \<Rightarrow> u8 list" where
  "vt_clear i m = m[drop_bit 3 i := m ! drop_bit 3 i AND NOT (vt_msk i)]"

definition vt_test :: "nat \<Rightarrow> u8 list \<Rightarrow> bool" where
  "vt_test i m \<longleftrightarrow> m ! drop_bit 3 i AND vt_msk i \<noteq> 0"

subsection \<open>The timer interrupt\<close>

definition vtmr_tick_one :: "(nat \<Rightarrow> 'q \<Rightarrow> 'q) \<Rightarrow> nat \<Rightarrow> 'q vtmr_sys \<Rightarrow> 'q vtmr_sys" where
  "vtmr_tick_one add i s0 =
     (let s = s0\<lparr>vtmr_counters := (vtmr_counters s0)[i := vtmr_counters s0 ! i + 1]\<rparr>
      in if vtmr_period_limit s ! i \<le> vtmr_counters s ! i then
           (let s1 = s\<lparr>vtmr_int_flag := vt_set i (vtmr_int_flag s)\<rparr>;
                s2 = (if vt_test i (vtmr_int_enabled s1) then s1\<lparr>vt_q := add (i + VTMR_FIRST_ID) (vt_q s1)\<rparr> else s1)
            in if vt_test i (vtmr_int_periodic_flag s2)
               then s2\<lparr>vtmr_counters := (vtmr_counters s2)[i := 0]\<rparr>
               else s2\<lparr>vtmr_int_enabled := vt_clear i (vtmr_int_enabled s2)\<rparr>)
         else s)"

definition cmn_virtual_timer_cb :: "vtmr_conf \<Rightarrow> (nat \<Rightarrow> 'q \<Rightarrow> 'q) \<Rightarrow> 'q vtmr_sys \<Rightarrow> 'q vtmr_sys" where
  "cmn_virtual_timer_cb cf add s =
     (let s1 = fold (vtmr_tick_one add) [0..<VTMR_NUM_TIMERS cf] s
      in if vtmr_reset_idx s1 \<noteq> -1
         then s1\<lparr>vtmr_counters := (vtmr_counters s1)[nat (vtmr_reset_idx s1) := 0], vtmr_reset_idx := -1\<rparr>
         else s1)"

subsection \<open>The virtual timer functions\<close>

text \<open>
  \<^verbatim>\<open>vtmr_reset_timer\<close> waits for the interrupt that serves its request: it ends with the first
  interrupt after the store, which sets the index back to -1.
\<close>

definition vtmr_reset_timer :: "vtmr_conf \<Rightarrow> (nat \<Rightarrow> 'q \<Rightarrow> 'q) \<Rightarrow> nat \<Rightarrow> 'q vtmr_sys \<Rightarrow> 'q vtmr_sys" where
  "vtmr_reset_timer cf add vid s =
     cmn_virtual_timer_cb cf add (s\<lparr>vtmr_reset_idx := sint (of_nat (VTMR_GET_ID vid) :: u8)\<rparr>)"

text \<open>The conversion of microseconds to ticks, stored in 32 bits.\<close>

definition vtmr_ticks :: "vtmr_conf \<Rightarrow> u32 \<Rightarrow> u32" where
  "vtmr_ticks cf us = ucast ((ucast us * ucast (VTMR_FREQ_HZ cf) :: u64) div 1000000)"

text \<open>The wait of \<^verbatim>\<open>vtmr_delay\<close>: interrupts go on until the counter is there; \<open>None\<close> if it never is.\<close>

partial_function (option) vtmr_wait :: "vtmr_conf \<Rightarrow> (nat \<Rightarrow> 'q \<Rightarrow> 'q) \<Rightarrow> nat \<Rightarrow> u32 \<Rightarrow> 'q vtmr_sys \<Rightarrow> 'q vtmr_sys option" where
  "vtmr_wait cf add i final s =
     (if vtmr_counters s ! i < final then vtmr_wait cf add i final (cmn_virtual_timer_cb cf add s) else Some s)"

definition vtmr_delay :: "vtmr_conf \<Rightarrow> (nat \<Rightarrow> 'q \<Rightarrow> 'q) \<Rightarrow> nat \<Rightarrow> u32 \<Rightarrow> 'q vtmr_sys \<Rightarrow> 'q vtmr_sys option" where
  "vtmr_delay cf add vid delay_us s =
     vtmr_wait cf add (VTMR_GET_ID vid) (vtmr_ticks cf delay_us) (vtmr_reset_timer cf add vid s)"

definition vtmr_set_match_int :: "vtmr_conf \<Rightarrow> (nat \<Rightarrow> 'q \<Rightarrow> 'q) \<Rightarrow> nat \<Rightarrow> u32 \<Rightarrow> int \<Rightarrow> 'q vtmr_sys \<Rightarrow> int \<times> 'q vtmr_sys" where
  "vtmr_set_match_int cf add vid period_us type s =
     (let i = VTMR_GET_ID vid
      in if period_us = 0
         then (PLATFORM_TIMER_INT_OK, s\<lparr>vtmr_int_enabled := vt_clear i (vtmr_int_enabled s),
                                        vtmr_int_flag := vt_clear i (vtmr_int_flag s)\<rparr>)
         else if vtmr_ticks cf period_us = 0 then (PLATFORM_TIMER_INT_TOO_SHORT, s)
         else
           (let s1 = s\<lparr>vtmr_period_limit := (vtmr_period_limit s)[i := vtmr_ticks cf period_us]\<rparr>;
                s2 = (if type = PLATFORM_TIMER_INT_ONESHOT
                      then s1\<lparr>vtmr_int_periodic_flag := vt_clear i (vtmr_int_periodic_flag s1)\<rparr>
                      else s1\<lparr>vtmr_int_periodic_flag := vt_set i (vtmr_int_periodic_flag s1)\<rparr>);
                s3 = s2\<lparr>vtmr_int_flag := vt_clear i (vtmr_int_flag s2)\<rparr>;
                s4 = vtmr_reset_timer cf add vid s3
            in (PLATFORM_TIMER_INT_OK, s4\<lparr>vtmr_int_enabled := vt_set i (vtmr_int_enabled s4)\<rparr>)))"

definition vtmr_int_get_flag :: "nat \<Rightarrow> bool \<Rightarrow> 'q vtmr_sys \<Rightarrow> int \<times> 'q vtmr_sys" where
  "vtmr_int_get_flag resnum clear s =
     (let i = VTMR_GET_ID resnum; status = vt_test i (vtmr_int_flag s)
      in (of_bool status, if clear then s\<lparr>vtmr_int_flag := vt_clear i (vtmr_int_flag s)\<rparr> else s))"

definition vtmr_int_set_status :: "nat \<Rightarrow> int \<Rightarrow> 'q vtmr_sys \<Rightarrow> int \<times> 'q vtmr_sys" where
  "vtmr_int_set_status resnum status s =
     (let i = VTMR_GET_ID resnum; prev = vt_test i (vtmr_int_enabled s)
      in (of_bool prev,
          if status = PLATFORM_CPU_ENABLE then s\<lparr>vtmr_int_enabled := vt_set i (vtmr_int_enabled s)\<rparr>
          else s\<lparr>vtmr_int_enabled := vt_clear i (vtmr_int_enabled s)\<rparr>))"

definition vtmr_int_get_status :: "nat \<Rightarrow> 'q vtmr_sys \<Rightarrow> int" where
  "vtmr_int_get_status resnum s = of_bool (vt_test (VTMR_GET_ID resnum) (vtmr_int_enabled s))"

subsection \<open>The common timer functions\<close>

text \<open>
  The platform's own timers over a state \<open>'p\<close>, and its entries (if any) in the table of
  interrupt descriptors.
\<close>

datatype timer_op = PLATFORM_TIMER_OP_START | PLATFORM_TIMER_OP_READ | PLATFORM_TIMER_OP_SET_CLOCK
  | PLATFORM_TIMER_OP_GET_CLOCK | PLATFORM_TIMER_OP_GET_MAX_DELAY | PLATFORM_TIMER_OP_GET_MIN_DELAY

record 'p timer_hw =
  hw_num_timer :: nat
  hw_timer_op :: "nat \<Rightarrow> timer_op \<Rightarrow> u32 \<Rightarrow> 'p \<Rightarrow> u32 \<times> 'p"
  hw_timer_delay :: "nat \<Rightarrow> u32 \<Rightarrow> 'p \<Rightarrow> 'p"
  hw_set_match_int :: "nat \<Rightarrow> u32 \<Rightarrow> int \<Rightarrow> 'p \<Rightarrow> int \<times> 'p"
  hw_int_set_status :: "(nat \<Rightarrow> int \<Rightarrow> 'p \<Rightarrow> int \<times> 'p) option"
  hw_int_get_status :: "(nat \<Rightarrow> 'p \<Rightarrow> int) option"
  hw_int_get_flag :: "(nat \<Rightarrow> bool \<Rightarrow> 'p \<Rightarrow> int \<times> 'p) option"

definition platform_timer_exists :: "vtmr_conf \<Rightarrow> 'p timer_hw \<Rightarrow> nat \<Rightarrow> bool" where
  "platform_timer_exists cf hw tid =
     (if VTMR_NUM_TIMERS cf > 0 \<and> VTMR_FIRST_ID \<le> tid then TIMER_IS_VIRTUAL cf tid else tid < hw_num_timer hw)"

text \<open>A difference of two readings at \<open>freq\<close>, \<open>None\<close> when the division by zero would trap.\<close>

definition timer_diff_us :: "u32 \<Rightarrow> u32 \<Rightarrow> u32 \<Rightarrow> u32 option" where
  "timer_diff_us freq end0 start0 =
     (let start = (if start0 < end0 then end0 else start0);
          end1 = (if start0 < end0 then start0 else end0)
      in if freq = 0 then None
         else (let res = ucast ((ucast (start - end1) * 1000000 :: u64) div ucast freq) :: u32
               in Some (if res > 0x7FFFFFFF then 0x7FFFFFFF else res)))"

definition platform_timer_get_diff_us :: "vtmr_conf \<Rightarrow> 'p timer_hw \<Rightarrow> nat \<Rightarrow> u32 \<Rightarrow> u32 \<Rightarrow> 'p \<Rightarrow> u32 option \<times> 'p" where
  "platform_timer_get_diff_us cf hw tid end0 start0 p =
     (if TIMER_IS_VIRTUAL cf tid then (timer_diff_us (VTMR_FREQ_HZ cf) end0 start0, p)
      else (case hw_timer_op hw tid PLATFORM_TIMER_OP_GET_CLOCK 0 p of
              (freq, p') \<Rightarrow> (timer_diff_us freq end0 start0, p')))"

definition platform_timer_op :: "vtmr_conf \<Rightarrow> (nat \<Rightarrow> 'q \<Rightarrow> 'q) \<Rightarrow> 'p timer_hw \<Rightarrow> nat \<Rightarrow> timer_op \<Rightarrow> u32
    \<Rightarrow> 'q vtmr_sys \<times> 'p \<Rightarrow> u32 option \<times> 'q vtmr_sys \<times> 'p" where
  "platform_timer_op cf add hw tid op data s =
     (if \<not> TIMER_IS_VIRTUAL cf tid
      then (case hw_timer_op hw tid op data (snd s) of (r, p) \<Rightarrow> (Some r, fst s, p))
      else (case op of
              PLATFORM_TIMER_OP_START \<Rightarrow> (Some 0, vtmr_reset_timer cf add tid (fst s), snd s)
            | PLATFORM_TIMER_OP_READ \<Rightarrow> (Some (vtmr_counters (fst s) ! VTMR_GET_ID tid), s)
            | PLATFORM_TIMER_OP_GET_MAX_DELAY \<Rightarrow>
                (fst (platform_timer_get_diff_us cf hw tid 0 0xFFFFFFFF (snd s)), s)
            | PLATFORM_TIMER_OP_GET_MIN_DELAY \<Rightarrow>
                (fst (platform_timer_get_diff_us cf hw tid 0 1 (snd s)), s)
            | PLATFORM_TIMER_OP_SET_CLOCK \<Rightarrow> (Some (VTMR_FREQ_HZ cf), s)
            | PLATFORM_TIMER_OP_GET_CLOCK \<Rightarrow> (Some (VTMR_FREQ_HZ cf), s)))"

definition platform_timer_delay :: "vtmr_conf \<Rightarrow> (nat \<Rightarrow> 'q \<Rightarrow> 'q) \<Rightarrow> 'p timer_hw \<Rightarrow> nat \<Rightarrow> u32
    \<Rightarrow> 'q vtmr_sys \<times> 'p \<Rightarrow> ('q vtmr_sys \<times> 'p) option" where
  "platform_timer_delay cf add hw tid delay_us s =
     (if TIMER_IS_VIRTUAL cf tid
      then (case vtmr_delay cf add tid delay_us (fst s) of None \<Rightarrow> None | Some v \<Rightarrow> Some (v, snd s))
      else Some (fst s, hw_timer_delay hw tid delay_us (snd s)))"

definition platform_timer_set_match_int :: "vtmr_conf \<Rightarrow> (nat \<Rightarrow> 'q \<Rightarrow> 'q) \<Rightarrow> 'p timer_hw \<Rightarrow> nat \<Rightarrow> u32 \<Rightarrow> int
    \<Rightarrow> 'q vtmr_sys \<times> 'p \<Rightarrow> int \<times> 'q vtmr_sys \<times> 'p" where
  "platform_timer_set_match_int cf add hw tid period_us type s =
     (if TIMER_IS_VIRTUAL cf tid
      then (case vtmr_set_match_int cf add tid period_us type (fst s) of (r, v) \<Rightarrow> (r, v, snd s))
      else (case hw_set_match_int hw tid period_us type (snd s) of (r, p) \<Rightarrow> (r, fst s, p)))"

definition cmn_tmr_int_set_status :: "vtmr_conf \<Rightarrow> 'p timer_hw \<Rightarrow> nat \<Rightarrow> int \<Rightarrow> 'q vtmr_sys \<times> 'p \<Rightarrow> int \<times> 'q vtmr_sys \<times> 'p" where
  "cmn_tmr_int_set_status cf hw resnum status s =
     (if TIMER_IS_VIRTUAL cf resnum
      then (case vtmr_int_set_status resnum status (fst s) of (r, v) \<Rightarrow> (r, v, snd s))
      else (case hw_int_set_status hw of
              None \<Rightarrow> (PLATFORM_INT_NOT_HANDLED, s)
            | Some ps \<Rightarrow> (case ps resnum status (snd s) of (r, p) \<Rightarrow> (r, fst s, p))))"

definition cmn_tmr_int_get_status :: "vtmr_conf \<Rightarrow> 'p timer_hw \<Rightarrow> nat \<Rightarrow> 'q vtmr_sys \<times> 'p \<Rightarrow> int" where
  "cmn_tmr_int_get_status cf hw resnum s =
     (if TIMER_IS_VIRTUAL cf resnum then vtmr_int_get_status resnum (fst s)
      else (case hw_int_get_status hw of None \<Rightarrow> PLATFORM_INT_NOT_HANDLED | Some pg \<Rightarrow> pg resnum (snd s)))"

definition cmn_tmr_int_get_flag :: "vtmr_conf \<Rightarrow> 'p timer_hw \<Rightarrow> nat \<Rightarrow> bool \<Rightarrow> 'q vtmr_sys \<times> 'p \<Rightarrow> int \<times> 'q vtmr_sys \<times> 'p" where
  "cmn_tmr_int_get_flag cf hw resnum clear s =
     (if TIMER_IS_VIRTUAL cf resnum
      then (case vtmr_int_get_flag resnum clear (fst s) of (r, v) \<Rightarrow> (r, v, snd s))
      else (case hw_int_get_flag hw of
              None \<Rightarrow> (PLATFORM_INT_NOT_HANDLED, s)
            | Some pf \<Rightarrow> (case pf resnum clear (snd s) of (r, p) \<Rightarrow> (r, fst s, p))))"

subsection \<open>One automaton per timer\<close>

text \<open>
  What a timer is: its counter, its limit, whether it repeats, whether its interrupt is enabled
  and its flag. \<open>vt_tick\<close> is one interrupt; \<open>vt_fires\<close> says whether it raises the timer's own one.
\<close>

record vt_state =
  vt_count :: u32
  vt_limit :: u32
  vt_periodic :: bool
  vt_enabled :: bool
  vt_flag :: bool

definition vt_tick :: "vt_state \<Rightarrow> vt_state" where
  "vt_tick v =
     (if vt_limit v \<le> vt_count v + 1
      then v\<lparr>vt_count := (if vt_periodic v then 0 else vt_count v + 1),
             vt_enabled := vt_enabled v \<and> vt_periodic v, vt_flag := True\<rparr>
      else v\<lparr>vt_count := vt_count v + 1\<rparr>)"

definition vt_fires :: "vt_state \<Rightarrow> bool" where
  "vt_fires v \<longleftrightarrow> vt_limit v \<le> vt_count v + 1 \<and> vt_enabled v"

definition vt_view :: "nat \<Rightarrow> 'q vtmr_sys \<Rightarrow> vt_state" where
  "vt_view i s = \<lparr>vt_count = vtmr_counters s ! i, vt_limit = vtmr_period_limit s ! i,
     vt_periodic = vt_test i (vtmr_int_periodic_flag s), vt_enabled = vt_test i (vtmr_int_enabled s),
     vt_flag = vt_test i (vtmr_int_flag s)\<rparr>"

definition vt_wf :: "vtmr_conf \<Rightarrow> 'q vtmr_sys \<Rightarrow> bool" where
  "vt_wf cf s \<longleftrightarrow> length (vtmr_counters s) = VTMR_NUM_TIMERS cf \<and> length (vtmr_period_limit s) = VTMR_NUM_TIMERS cf \<and>
     (\<forall>m \<in> {vtmr_int_periodic_flag s, vtmr_int_enabled s, vtmr_int_flag s}. VTMR_NUM_TIMERS cf \<le> 8 * length m)"

lemma vt_test_bit: "vt_test i m \<longleftrightarrow> bit (m ! (i div 8)) (i mod 8)"
proof -
  have "i AND 7 = i mod 8" using nat_and_mask [of i 3] by simp
  then have "vt_msk i = 2 ^ (i mod 8)" by (simp add: vt_msk_def push_bit_eq_mult)
  then show ?thesis by (simp add: vt_test_def drop_bit_eq_div and_exp_eq_0_iff_not_bit)
qed

lemma vt_msk_bit: "bit (vt_msk i) k \<longleftrightarrow> k = i mod 8"
proof -
  have "i AND 7 = i mod 8" using nat_and_mask [of i 3] by simp
  then have m: "vt_msk i = 2 ^ (i mod 8)" by (simp add: vt_msk_def push_bit_eq_mult)
  have "i mod 8 < 8" by simp
  then show ?thesis unfolding m bit_exp_iff by (auto simp: possible_bit_word)
qed

lemma div_mod_8_eq: "i div 8 = j div 8 \<Longrightarrow> i mod 8 = j mod 8 \<Longrightarrow> i = j" for i j :: nat
  by (metis mod_mult_div_eq)

lemma vt_test_set [simp]:
  assumes "j < 8 * length m"
  shows "vt_test i (vt_set j m) \<longleftrightarrow> i = j \<or> vt_test i m"
proof (cases "i div 8 = j div 8")
  case True
  then have "j div 8 < length m" using assms by linarith
  then show ?thesis using True div_mod_8_eq [of i j]
    by (auto simp: vt_test_bit vt_set_def drop_bit_eq_div bit_or_iff vt_msk_bit)
next
  case False
  then show ?thesis by (auto simp: vt_test_bit vt_set_def drop_bit_eq_div)
qed

lemma vt_test_clear [simp]:
  assumes "j < 8 * length m"
  shows "vt_test i (vt_clear j m) \<longleftrightarrow> i \<noteq> j \<and> vt_test i m"
proof (cases "i div 8 = j div 8")
  case True
  then have "j div 8 < length m" using assms by linarith
  then show ?thesis using True div_mod_8_eq [of i j]
    by (auto simp: vt_test_bit vt_clear_def drop_bit_eq_div bit_and_iff bit_not_iff vt_msk_bit possible_bit_word
        dest: bit_imp_le_length)
next
  case False
  then show ?thesis by (auto simp: vt_test_bit vt_clear_def drop_bit_eq_div)
qed

lemma length_vt_set [simp]: "length (vt_set i m) = length m" "length (vt_clear i m) = length m"
  by (simp_all add: vt_set_def vt_clear_def)

lemma vt_wf_lengths:
  "vt_wf cf s \<Longrightarrow> i < VTMR_NUM_TIMERS cf \<Longrightarrow> i < length (vtmr_counters s) \<and> i < length (vtmr_period_limit s) \<and>
     i < 8 * length (vtmr_int_periodic_flag s) \<and> i < 8 * length (vtmr_int_enabled s) \<and> i < 8 * length (vtmr_int_flag s)"
  by (auto simp: vt_wf_def)

lemma vtmr_tick_one_wf [simp]: "vt_wf cf (vtmr_tick_one add i s) = vt_wf cf s"
  by (simp add: vt_wf_def vtmr_tick_one_def Let_def)

lemma vtmr_tick_one_reset [simp]: "vtmr_reset_idx (vtmr_tick_one add i s) = vtmr_reset_idx s"
  by (simp add: vtmr_tick_one_def Let_def)

lemma vtmr_tick_one_view:
  assumes "vt_wf cf s" "i < VTMR_NUM_TIMERS cf"
  shows "vt_view j (vtmr_tick_one add i s) = (if i = j then vt_tick (vt_view j s) else vt_view j s)"
  using vt_wf_lengths [OF assms] by (auto simp: vt_view_def vtmr_tick_one_def vt_tick_def Let_def)

lemma vtmr_tick_one_q:
  assumes "vt_wf cf s" "i < VTMR_NUM_TIMERS cf"
  shows "vt_q (vtmr_tick_one add i s) = (if vt_fires (vt_view i s) then add (i + VTMR_FIRST_ID) (vt_q s) else vt_q s)"
  using vt_wf_lengths [OF assms] by (auto simp: vt_view_def vtmr_tick_one_def vt_fires_def Let_def)

lemma vtmr_ticks_all:
  assumes "vt_wf cf s" "distinct is" "\<forall>i \<in> set is. i < VTMR_NUM_TIMERS cf"
  shows "vt_wf cf (fold (vtmr_tick_one add) is s) \<and>
    vtmr_reset_idx (fold (vtmr_tick_one add) is s) = vtmr_reset_idx s \<and>
    vt_view j (fold (vtmr_tick_one add) is s) = (if j \<in> set is then vt_tick (vt_view j s) else vt_view j s) \<and>
    vt_q (fold (vtmr_tick_one add) is s) =
      fold (\<lambda>i. add (i + VTMR_FIRST_ID)) (filter (\<lambda>i. vt_fires (vt_view i s)) is) (vt_q s)"
  using assms
proof (induction "is" arbitrary: s)
  case Nil
  then show ?case by simp
next
  case (Cons i "is")
  let ?s = "vtmr_tick_one add i s"
  have wf: "vt_wf cf ?s" and i: "i < VTMR_NUM_TIMERS cf" "i \<notin> set is" using Cons.prems by simp_all
  have v: "vt_view k ?s = (if i = k then vt_tick (vt_view k s) else vt_view k s)" for k
    using vtmr_tick_one_view [OF Cons.prems(1) i(1)] .
  have f: "filter (\<lambda>k. vt_fires (vt_view k ?s)) is = filter (\<lambda>k. vt_fires (vt_view k s)) is"
    using i(2) v by (intro filter_cong) auto
  show ?case
    using Cons.IH [OF wf] Cons.prems i f v vtmr_tick_one_q [OF Cons.prems(1) i(1), of add] by auto
qed

text \<open>The interrupt without and with a pending reset request.\<close>

definition vt_after :: "'q vtmr_sys \<Rightarrow> nat \<Rightarrow> vt_state" where
  "vt_after s i = (if vtmr_reset_idx s = int i then (vt_tick (vt_view i s))\<lparr>vt_count := 0\<rparr> else vt_tick (vt_view i s))"

lemma cmn_virtual_timer_cb_view:
  fixes cf :: vtmr_conf and s :: "'q vtmr_sys"
  assumes "vt_wf cf s" "vtmr_reset_idx s = -1 \<or> 0 \<le> vtmr_reset_idx s \<and> vtmr_reset_idx s < int (VTMR_NUM_TIMERS cf)"
  shows "vt_wf cf (cmn_virtual_timer_cb cf add s)" "vtmr_reset_idx (cmn_virtual_timer_cb cf add s) = -1"
    "i < VTMR_NUM_TIMERS cf \<Longrightarrow> vt_view i (cmn_virtual_timer_cb cf add s) = vt_after s i"
    "vt_q (cmn_virtual_timer_cb cf add s) =
       fold (\<lambda>i. add (i + VTMR_FIRST_ID)) (filter (\<lambda>i. vt_fires (vt_view i s)) [0..<VTMR_NUM_TIMERS cf]) (vt_q s)"
proof -
  let ?is = "[0..<VTMR_NUM_TIMERS cf]"
  let ?s1 = "fold (vtmr_tick_one add) ?is s"
  note all = vtmr_ticks_all [OF assms(1), of ?is, where add = add, simplified]
  have wf: "vt_wf cf ?s1" and r: "vtmr_reset_idx ?s1 = vtmr_reset_idx s"
    and v: "\<And>j. j < VTMR_NUM_TIMERS cf \<Longrightarrow> vt_view j ?s1 = vt_tick (vt_view j s)"
    and q: "vt_q ?s1 = fold (\<lambda>i. add (i + VTMR_FIRST_ID)) (filter (\<lambda>i. vt_fires (vt_view i s)) ?is) (vt_q s)"
    using all by auto
  show "vt_wf cf (cmn_virtual_timer_cb cf add s)"
    using wf by (simp add: cmn_virtual_timer_cb_def Let_def vt_wf_def)
  show "vtmr_reset_idx (cmn_virtual_timer_cb cf add s) = -1"
    by (simp add: cmn_virtual_timer_cb_def Let_def)
  show "vt_q (cmn_virtual_timer_cb cf add s) =
       fold (\<lambda>i. add (i + VTMR_FIRST_ID)) (filter (\<lambda>i. vt_fires (vt_view i s)) ?is) (vt_q s)"
    using q by (simp add: cmn_virtual_timer_cb_def Let_def)
  assume i: "i < VTMR_NUM_TIMERS cf"
  have len: "length (vtmr_counters ?s1) = VTMR_NUM_TIMERS cf" using wf by (simp add: vt_wf_def)
  have cb: "cmn_virtual_timer_cb cf add s = (if vtmr_reset_idx s \<noteq> -1
       then ?s1\<lparr>vtmr_counters := (vtmr_counters ?s1)[nat (vtmr_reset_idx s) := 0], vtmr_reset_idx := -1\<rparr> else ?s1)"
    by (simp add: cmn_virtual_timer_cb_def Let_def r)
  show "vt_view i (cmn_virtual_timer_cb cf add s) = vt_after s i"
  proof (cases "vtmr_reset_idx s = int i")
    case True
    have "vt_view i (cmn_virtual_timer_cb cf add s) = (vt_view i ?s1)\<lparr>vt_count := 0\<rparr>"
      using i len by (simp add: cb True vt_view_def)
    then show ?thesis using True v [OF i] by (simp add: vt_after_def)
  next
    case False
    then have "vt_view i (cmn_virtual_timer_cb cf add s) = vt_view i ?s1"
      using assms(2) by (auto simp: cb vt_view_def nth_list_update)
    then show ?thesis using False v [OF i] by (simp add: vt_after_def)
  qed
qed

lemma vtmr_runs:
  assumes "vt_wf cf s" "vtmr_reset_idx s = -1"
  shows "vt_wf cf ((cmn_virtual_timer_cb cf add ^^ k) s) \<and> vtmr_reset_idx ((cmn_virtual_timer_cb cf add ^^ k) s) = -1 \<and>
    (i < VTMR_NUM_TIMERS cf \<longrightarrow> vt_view i ((cmn_virtual_timer_cb cf add ^^ k) s) = (vt_tick ^^ k) (vt_view i s))"
proof (induction k)
  case 0
  then show ?case using assms by simp
next
  case (Suc k)
  let ?t = "(cmn_virtual_timer_cb cf add ^^ k) s"
  show ?case
    using Suc cmn_virtual_timer_cb_view [of cf ?t, where add = add] by (auto simp: vt_after_def)
qed

text \<open>The number of interrupts of one timer, with the queue as the list of all of them.\<close>

definition vt_log :: "nat \<Rightarrow> nat list \<Rightarrow> nat list" where
  "vt_log resnum q = q @ [resnum]"

lemma fold_vt_log: "fold (\<lambda>i. vt_log (i + VTMR_FIRST_ID)) is q = q @ map (\<lambda>i. i + VTMR_FIRST_ID) is"
  by (induction "is" arbitrary: q) (simp_all add: vt_log_def)

lemma count_list_filter_upt:
  "count_list (map (\<lambda>i. i + c) (filter P [0..<n])) (i + c) = (if i < n \<and> P i then 1 else 0)" for c :: nat
  by (induction n) (auto simp: less_Suc_eq)

fun vt_firings :: "nat \<Rightarrow> vt_state \<Rightarrow> nat" where
  "vt_firings 0 v = 0"
| "vt_firings (Suc k) v = vt_firings k v + of_bool (vt_fires ((vt_tick ^^ k) v))"

lemma vtmr_firings:
  assumes "vt_wf cf s" "vtmr_reset_idx s = -1" "i < VTMR_NUM_TIMERS cf"
  shows "count_list (vt_q ((cmn_virtual_timer_cb cf vt_log ^^ k) s)) (i + VTMR_FIRST_ID) =
    count_list (vt_q s) (i + VTMR_FIRST_ID) + vt_firings k (vt_view i s)"
proof (induction k)
  case (Suc k)
  let ?t = "(cmn_virtual_timer_cb cf vt_log ^^ k) s"
  have t: "vt_wf cf ?t" "vtmr_reset_idx ?t = -1" "vt_view i ?t = (vt_tick ^^ k) (vt_view i s)"
    using vtmr_runs [OF assms(1,2), where add = vt_log and k = k and i = i] assms(3) by auto
  have q: "vt_q (cmn_virtual_timer_cb cf vt_log ?t) = vt_q ?t @
     map (\<lambda>i. i + VTMR_FIRST_ID) (filter (\<lambda>i. vt_fires (vt_view i ?t)) [0..<VTMR_NUM_TIMERS cf])"
    using cmn_virtual_timer_cb_view(4) [of cf ?t, where add = vt_log] t by (simp add: fold_vt_log)
  show ?case using Suc t(3) assms(3)
    by (simp add: q count_list_filter_upt [of _ "\<lambda>i. vt_fires (vt_view i ?t)"])
qed simp

lemma vt_cyclic_run:
  assumes "vt_count v = 0" "vt_periodic v" "vt_enabled v" "vt_limit v \<noteq> 0"
  shows "unat (vt_count ((vt_tick ^^ k) v)) = k mod unat (vt_limit v) \<and> vt_limit ((vt_tick ^^ k) v) = vt_limit v \<and>
    vt_periodic ((vt_tick ^^ k) v) \<and> vt_enabled ((vt_tick ^^ k) v)"
    and "vt_firings k v = k div unat (vt_limit v)"
proof -
  have run: "unat (vt_count ((vt_tick ^^ k) v)) = k mod unat (vt_limit v) \<and> vt_limit ((vt_tick ^^ k) v) = vt_limit v \<and>
    vt_periodic ((vt_tick ^^ k) v) \<and> vt_enabled ((vt_tick ^^ k) v)" for k
  proof (induction k)
    case 0
    then show ?case using assms by simp
  next
    case (Suc k)
    let ?w = "(vt_tick ^^ k) v"
    have "unat (vt_count ?w) < unat (vt_limit v)" using Suc assms(4) by (simp add: unat_gt_0)
    then have "unat (vt_count ?w + 1) = Suc (unat (vt_count ?w))"
      using unat_lt_u32 [of "vt_limit v"] by (intro unat_Suc_u32) linarith
    moreover have "k mod unat (vt_limit v) < unat (vt_limit v)" using assms(4) by (simp add: unat_gt_0)
    ultimately show ?case using Suc
      by (auto simp: vt_tick_def [of ?w] word_le_nat_alt mod_Suc)
  qed
  show "unat (vt_count ((vt_tick ^^ k) v)) = k mod unat (vt_limit v) \<and> vt_limit ((vt_tick ^^ k) v) = vt_limit v \<and>
    vt_periodic ((vt_tick ^^ k) v) \<and> vt_enabled ((vt_tick ^^ k) v)" by (rule run)
  show "vt_firings k v = k div unat (vt_limit v)"
  proof (induction k)
    case (Suc k)
    let ?w = "(vt_tick ^^ k) v"
    have "unat (vt_count ?w) < unat (vt_limit v)" using run [of k] assms(4) by (simp add: unat_gt_0)
    then have "unat (vt_count ?w + 1) = Suc (unat (vt_count ?w))"
      using unat_lt_u32 [of "vt_limit v"] by (intro unat_Suc_u32) linarith
    then have "vt_fires ?w \<longleftrightarrow> unat (vt_limit v) \<le> Suc (k mod unat (vt_limit v))"
      using run [of k] by (simp add: vt_fires_def word_le_nat_alt)
    also have "\<dots> \<longleftrightarrow> Suc k mod unat (vt_limit v) = 0"
    proof -
      have "k mod unat (vt_limit v) < unat (vt_limit v)" using assms(4) by (simp add: unat_gt_0)
      then show ?thesis by (simp add: mod_Suc)
    qed
    finally show ?case using Suc by (simp add: div_Suc)
  qed simp
qed

lemma vt_oneshot_run:
  assumes "vt_count v = 0" "\<not> vt_periodic v" "vt_limit v \<noteq> 0" "vt_enabled v"
  shows "vt_limit ((vt_tick ^^ k) v) = vt_limit v \<and> \<not> vt_periodic ((vt_tick ^^ k) v) \<and>
    vt_enabled ((vt_tick ^^ k) v) = (k < unat (vt_limit v)) \<and>
    (k < unat (vt_limit v) \<longrightarrow> unat (vt_count ((vt_tick ^^ k) v)) = k)"
    and "vt_firings k v = of_bool (unat (vt_limit v) \<le> k)"
proof -
  have inc: "unat (vt_count w + 1) = Suc k" if "k < unat (vt_limit v)" "unat (vt_count w) = k" for k w
    using that unat_lt_u32 [of "vt_limit v"] unat_Suc_u32 [of "vt_count w"] by linarith
  have run: "vt_limit ((vt_tick ^^ k) v) = vt_limit v \<and> \<not> vt_periodic ((vt_tick ^^ k) v) \<and>
    vt_enabled ((vt_tick ^^ k) v) = (k < unat (vt_limit v)) \<and>
    (k < unat (vt_limit v) \<longrightarrow> unat (vt_count ((vt_tick ^^ k) v)) = k)" for k
  proof (induction k)
    case 0
    then show ?case using assms by (simp add: unat_gt_0)
  next
    case (Suc k)
    let ?w = "(vt_tick ^^ k) v"
    show ?case using Suc inc [of k ?w] by (auto simp: vt_tick_def [of ?w] word_le_nat_alt)
  qed
  show "vt_limit ((vt_tick ^^ k) v) = vt_limit v \<and> \<not> vt_periodic ((vt_tick ^^ k) v) \<and>
    vt_enabled ((vt_tick ^^ k) v) = (k < unat (vt_limit v)) \<and>
    (k < unat (vt_limit v) \<longrightarrow> unat (vt_count ((vt_tick ^^ k) v)) = k)" by (rule run)
  show "vt_firings k v = of_bool (unat (vt_limit v) \<le> k)"
  proof (induction k)
    case 0
    then show ?case using assms(3) by (simp add: unat_gt_0)
  next
    case (Suc k)
    let ?w = "(vt_tick ^^ k) v"
    have "vt_fires ?w \<longleftrightarrow> Suc k = unat (vt_limit v)"
      using run [of k] inc [of k ?w] by (auto simp: vt_fires_def word_le_nat_alt)
    then show ?case using Suc by auto
  qed
qed

subsection \<open>Setting a match interrupt\<close>

lemma vtmr_id [simp]: "VTMR_GET_ID (i + VTMR_FIRST_ID) = i" "VTMR_GET_ID (VTMR_FIRST_ID + i) = i"
  by (simp_all add: VTMR_GET_ID_def)

lemma vt_view_updates [simp]:
  "vt_view i (s\<lparr>vtmr_reset_idx := r\<rparr>) = vt_view i s"
  by (simp add: vt_view_def)

lemma vt_wf_updates [simp]:
  "vt_wf cf (s\<lparr>vtmr_reset_idx := r\<rparr>) = vt_wf cf s"
  by (simp add: vt_wf_def)

lemma sint_small_u8: "i < 128 \<Longrightarrow> sint (of_nat i :: u8) = int i"
  by (simp add: signed_of_nat signed_take_bit_int_eq_self)

lemma vtmr_reset_timer_view:
  assumes "vt_wf cf s" "i < VTMR_NUM_TIMERS cf" "VTMR_NUM_TIMERS cf < 128"
  shows "vt_wf cf (vtmr_reset_timer cf add (i + VTMR_FIRST_ID) s)"
    "vtmr_reset_idx (vtmr_reset_timer cf add (i + VTMR_FIRST_ID) s) = -1"
    "vt_view i (vtmr_reset_timer cf add (i + VTMR_FIRST_ID) s) = (vt_tick (vt_view i s))\<lparr>vt_count := 0\<rparr>"
proof -
  let ?s = "s\<lparr>vtmr_reset_idx := int i\<rparr>"
  have eq: "vtmr_reset_timer cf add (i + VTMR_FIRST_ID) s = cmn_virtual_timer_cb cf add ?s"
    using assms by (simp add: vtmr_reset_timer_def sint_small_u8)
  have pre: "vt_wf cf ?s" "vtmr_reset_idx ?s = -1 \<or> 0 \<le> vtmr_reset_idx ?s \<and> vtmr_reset_idx ?s < int (VTMR_NUM_TIMERS cf)"
    using assms by simp_all
  show "vt_wf cf (vtmr_reset_timer cf add (i + VTMR_FIRST_ID) s)"
    "vtmr_reset_idx (vtmr_reset_timer cf add (i + VTMR_FIRST_ID) s) = -1"
    "vt_view i (vtmr_reset_timer cf add (i + VTMR_FIRST_ID) s) = (vt_tick (vt_view i s))\<lparr>vt_count := 0\<rparr>"
    using cmn_virtual_timer_cb_view [OF pre, where add = add] assms(2) by (simp_all add: eq vt_after_def)
qed

lemma vtmr_set_match_int_view:
  assumes "vt_wf cf s" "i < VTMR_NUM_TIMERS cf" "VTMR_NUM_TIMERS cf < 128"
    and "period_us \<noteq> 0" "vtmr_ticks cf period_us \<noteq> 0"
    and "vtmr_set_match_int cf add (i + VTMR_FIRST_ID) period_us type s = (r, t)"
  shows "r = PLATFORM_TIMER_INT_OK" "vt_wf cf t" "vtmr_reset_idx t = -1" "vt_count (vt_view i t) = 0"
    "vt_limit (vt_view i t) = vtmr_ticks cf period_us" "vt_enabled (vt_view i t)"
    "vt_periodic (vt_view i t) \<longleftrightarrow> type \<noteq> PLATFORM_TIMER_INT_ONESHOT"
proof -
  define s1 where "s1 = s\<lparr>vtmr_period_limit := (vtmr_period_limit s)[i := vtmr_ticks cf period_us],
    vtmr_int_periodic_flag := (if type = PLATFORM_TIMER_INT_ONESHOT then vt_clear i (vtmr_int_periodic_flag s)
                               else vt_set i (vtmr_int_periodic_flag s)),
    vtmr_int_flag := vt_clear i (vtmr_int_flag s)\<rparr>"
  note l = vt_wf_lengths [OF assms(1,2)]
  have wf1: "vt_wf cf s1" using assms(1) by (simp add: s1_def vt_wf_def)
  have v1: "vt_limit (vt_view i s1) = vtmr_ticks cf period_us" "vt_periodic (vt_view i s1) \<longleftrightarrow> type \<noteq> PLATFORM_TIMER_INT_ONESHOT"
    using l by (auto simp: s1_def vt_view_def)
  let ?u = "vtmr_reset_timer cf add (i + VTMR_FIRST_ID) s1"
  note u = vtmr_reset_timer_view [OF wf1 assms(2,3), where add = add]
  have t: "r = PLATFORM_TIMER_INT_OK" "t = ?u\<lparr>vtmr_int_enabled := vt_set i (vtmr_int_enabled ?u)\<rparr>"
    using assms(4-6) by (auto simp: vtmr_set_match_int_def Let_def s1_def cong: if_cong split: if_splits)
  then show "r = PLATFORM_TIMER_INT_OK" "vt_wf cf t" "vtmr_reset_idx t = -1"
    using u by (simp_all add: vt_wf_def)
  have "vt_view i t = (vt_view i ?u)\<lparr>vt_enabled := True\<rparr>"
    using vt_wf_lengths [OF u(1) assms(2)] by (simp add: t vt_view_def)
  then show "vt_count (vt_view i t) = 0" "vt_limit (vt_view i t) = vtmr_ticks cf period_us" "vt_enabled (vt_view i t)"
    "vt_periodic (vt_view i t) \<longleftrightarrow> type \<noteq> PLATFORM_TIMER_INT_ONESHOT"
    using u(3) v1 by (simp_all add: vt_tick_def)
qed

subsection \<open>Waiting\<close>

text \<open>A timer that does not repeat counts up to any value; one that does stays below its limit.\<close>

lemma vt_count_up:
  assumes "\<not> vt_periodic v \<or> unat (vt_limit v) > k" "unat (vt_count v) = 0" "k < 2 ^ 32"
  shows "unat (vt_count ((vt_tick ^^ k) v)) = k \<and> vt_limit ((vt_tick ^^ k) v) = vt_limit v \<and>
    vt_periodic ((vt_tick ^^ k) v) = vt_periodic v"
  using assms
proof (induction k)
  case (Suc k)
  let ?w = "(vt_tick ^^ k) v"
  have "unat (vt_count ?w) = k" "vt_limit ?w = vt_limit v" "vt_periodic ?w = vt_periodic v" using Suc by auto
  moreover have "unat (vt_count ?w + 1) = Suc k" using calculation Suc.prems(3) unat_Suc_u32 [of "vt_count ?w"] by simp
  ultimately show ?case using Suc.prems by (auto simp: vt_tick_def [of ?w] word_le_nat_alt)
qed simp

lemma vtmr_wait_steps:
  assumes "\<And>j. j < k \<Longrightarrow> vtmr_counters ((cmn_virtual_timer_cb cf add ^^ j) s) ! i < final"
    and "\<not> vtmr_counters ((cmn_virtual_timer_cb cf add ^^ k) s) ! i < final"
  shows "vtmr_wait cf add i final s = Some ((cmn_virtual_timer_cb cf add ^^ k) s)"
  using assms
proof (induction k arbitrary: s)
  case 0
  then show ?case by (simp add: vtmr_wait.simps)
next
  case (Suc k)
  have shift: "(cmn_virtual_timer_cb cf add ^^ j) (cmn_virtual_timer_cb cf add s) = (cmn_virtual_timer_cb cf add ^^ Suc j) s" for j
    by (simp add: funpow_swap1)
  have "vtmr_wait cf add i final (cmn_virtual_timer_cb cf add s) =
      Some ((cmn_virtual_timer_cb cf add ^^ k) (cmn_virtual_timer_cb cf add s))"
    using Suc.prems(1) [of "Suc _"] Suc.prems(2) by (intro Suc.IH; simp only: shift)
  moreover have "vtmr_counters s ! i < final" using Suc.prems(1) [of 0] by simp
  ultimately show ?case by (simp add: vtmr_wait.simps [of cf add i final s] funpow_swap1)
qed

lemma vtmr_wait_result:
  assumes "vtmr_wait cf add i final s = Some t"
  shows "\<exists>k. t = (cmn_virtual_timer_cb cf add ^^ k) s \<and> \<not> vtmr_counters t ! i < final"
  using assms
proof (rule vtmr_wait.raw_induct [rotated])
  fix wait cf add i final and s t :: "'a vtmr_sys"
  assume ih: "\<And>cf add i final s t. wait cf add i final s = Some t \<Longrightarrow>
      \<exists>k. t = (cmn_virtual_timer_cb cf add ^^ k) s \<and> \<not> vtmr_counters t ! i < final"
    and eq: "(if vtmr_counters s ! i < final then wait cf add i final (cmn_virtual_timer_cb cf add s) else Some s) = Some t"
  show "\<exists>k. t = (cmn_virtual_timer_cb cf add ^^ k) s \<and> \<not> vtmr_counters t ! i < final"
  proof (cases "vtmr_counters s ! i < final")
    case True
    then obtain k where "t = (cmn_virtual_timer_cb cf add ^^ k) (cmn_virtual_timer_cb cf add s)" "\<not> vtmr_counters t ! i < final"
      using ih [of cf add i final "cmn_virtual_timer_cb cf add s" t] eq by auto
    then show ?thesis by (intro exI [of _ "Suc k"]) (simp add: funpow_swap1)
  next
    case False
    then show ?thesis using eq by (intro exI [of _ 0]) simp
  qed
qed

text \<open>A cyclic match interrupt with a period up to the delay restarts the counter for ever.\<close>

lemma vtmr_delay_hangs:
  assumes "vt_wf cf s" "i < VTMR_NUM_TIMERS cf" "VTMR_NUM_TIMERS cf < 128"
    and "vt_periodic (vt_view i s)" "vt_enabled (vt_view i s)" "vt_limit (vt_view i s) \<noteq> 0"
    and "vt_limit (vt_view i s) \<le> vtmr_ticks cf delay_us"
  shows "vtmr_delay cf add (i + VTMR_FIRST_ID) delay_us s = None"
proof (rule ccontr)
  let ?u = "vtmr_reset_timer cf add (i + VTMR_FIRST_ID) s"
  note u = vtmr_reset_timer_view [OF assms(1-3), where add = add]
  assume "vtmr_delay cf add (i + VTMR_FIRST_ID) delay_us s \<noteq> None"
  then obtain k where k: "\<not> vtmr_counters ((cmn_virtual_timer_cb cf add ^^ k) ?u) ! i < vtmr_ticks cf delay_us"
    using vtmr_wait_result unfolding vtmr_delay_def vtmr_id by fastforce
  have "vt_view i ((cmn_virtual_timer_cb cf add ^^ k) ?u) = (vt_tick ^^ k) (vt_view i ?u)"
    using vtmr_runs [OF u(1,2), where add = add and k = k and i = i] assms(2) by simp
  moreover have "vt_count (vt_view i ((cmn_virtual_timer_cb cf add ^^ k) ?u)) = vtmr_counters ((cmn_virtual_timer_cb cf add ^^ k) ?u) ! i"
    by (simp add: vt_view_def)
  moreover have "vt_limit (vt_view i ?u) = vt_limit (vt_view i s)" by (simp add: u(3) vt_tick_def)
  moreover have "unat (vt_count ((vt_tick ^^ k) (vt_view i ?u))) = k mod unat (vt_limit (vt_view i ?u))"
    using vt_cyclic_run(1) [of "vt_view i ?u" k] u(3) assms(4-6) by (simp add: vt_tick_def)
  moreover have "k mod unat (vt_limit (vt_view i s)) < unat (vt_limit (vt_view i s))"
    using assms(6) by (simp add: unat_gt_0)
  ultimately show False using k assms(7) by (simp add: word_less_nat_alt word_le_nat_alt)
qed

subsection \<open>Properties\<close>

text \<open>C23. Refinement of the timer interrupt: one call of the interrupt routine, whatever the state
  of the tables, advances every virtual timer by the same small automaton (count, compare with
  the limit, set the flag, restart or disable), a pending reset request sets the counter of
  exactly its timer to 0 and is served, and \<^verbatim>\<open>elua_int_add\<close> is called exactly for the timers
  that are enabled and reach their limit, in ascending order.\<close>

theorem vtmr_interrupt_refines:
  fixes s :: "'q vtmr_sys"
  assumes "vt_wf cf s"
    and "vtmr_reset_idx s = -1 \<or> 0 \<le> vtmr_reset_idx s \<and> vtmr_reset_idx s < int (VTMR_NUM_TIMERS cf)"
  shows "(\<forall>i < VTMR_NUM_TIMERS cf. vt_view i (cmn_virtual_timer_cb cf add s) =
      (if vtmr_reset_idx s = int i then (vt_tick (vt_view i s))\<lparr>vt_count := 0\<rparr> else vt_tick (vt_view i s))) \<and>
    vtmr_reset_idx (cmn_virtual_timer_cb cf add s) = -1 \<and>
    vt_q (cmn_virtual_timer_cb cf add s) =
      fold (\<lambda>i. add (i + VTMR_FIRST_ID)) (filter (\<lambda>i. vt_fires (vt_view i s)) [0..<VTMR_NUM_TIMERS cf]) (vt_q s)"
  using cmn_virtual_timer_cb_view [OF assms, where add = add] by (auto simp: vt_after_def)

text \<open>C21. Match interrupts come exactly when they should: after \<^verbatim>\<open>vtmr_set_match_int\<close> with a period
  of \<open>T\<close> ticks, the number of interrupts of that timer handed over during the next \<open>k\<close> timer
  interrupts is \<open>k div T\<close> for a cyclic one, however long it runs, and for a one-shot one it is
  none before tick \<open>T\<close> and one from then on, for ever, whatever the other timers do.\<close>

theorem vtmr_match_interrupts:
  assumes "vt_wf cf s" "i < VTMR_NUM_TIMERS cf" "VTMR_NUM_TIMERS cf < 128"
    and "period_us \<noteq> 0" "vtmr_ticks cf period_us \<noteq> 0"
    and "vtmr_set_match_int cf vt_log (i + VTMR_FIRST_ID) period_us type s = (r, t)"
  shows "count_list (vt_q ((cmn_virtual_timer_cb cf vt_log ^^ k) t)) (i + VTMR_FIRST_ID) =
    count_list (vt_q t) (i + VTMR_FIRST_ID) +
      (if type = PLATFORM_TIMER_INT_ONESHOT then of_bool (unat (vtmr_ticks cf period_us) \<le> k)
       else k div unat (vtmr_ticks cf period_us))"
proof -
  note v = vtmr_set_match_int_view [OF assms]
  have "count_list (vt_q ((cmn_virtual_timer_cb cf vt_log ^^ k) t)) (i + VTMR_FIRST_ID) =
      count_list (vt_q t) (i + VTMR_FIRST_ID) + vt_firings k (vt_view i t)"
    by (rule vtmr_firings [OF v(2,3) assms(2)])
  then show ?thesis
    using v vt_cyclic_run(2) [of "vt_view i t" k] vt_oneshot_run(2) [of "vt_view i t" k] assms(5) by simp
qed

text \<open>C36. \<^verbatim>\<open>vtmr_delay\<close> returns, after exactly the number of timer interrupts that its delay is
  worth (one more serves its reset), as long as the timer does not itself restart before
  that: it has no cyclic match interrupt with a period up to the delay.\<close>

theorem vtmr_delay_returns:
  assumes "vt_wf cf s" "i < VTMR_NUM_TIMERS cf" "VTMR_NUM_TIMERS cf < 128"
    and "\<not> vt_periodic (vt_view i s) \<or> vt_limit (vt_view i s) > vtmr_ticks cf delay_us"
  shows "vtmr_delay cf add (i + VTMR_FIRST_ID) delay_us s =
    Some ((cmn_virtual_timer_cb cf add ^^ unat (vtmr_ticks cf delay_us)) (vtmr_reset_timer cf add (i + VTMR_FIRST_ID) s))"
proof -
  let ?u = "vtmr_reset_timer cf add (i + VTMR_FIRST_ID) s"
  note u = vtmr_reset_timer_view [OF assms(1-3), where add = add]
  let ?n = "unat (vtmr_ticks cf delay_us)"
  have "unat (vtmr_counters ((cmn_virtual_timer_cb cf add ^^ k) ?u) ! i) = k" if "k \<le> ?n" for k
  proof -
    have "vt_view i ((cmn_virtual_timer_cb cf add ^^ k) ?u) = (vt_tick ^^ k) (vt_view i ?u)"
      using vtmr_runs [OF u(1,2), where add = add and k = k and i = i] assms(2) by simp
    moreover have "vt_count (vt_view i t) = vtmr_counters t ! i" for t :: "'a vtmr_sys" by (simp add: vt_view_def)
    moreover have "unat (vt_count ((vt_tick ^^ k) (vt_view i ?u))) = k"
      using vt_count_up [of "vt_view i ?u" k] u(3) assms(4) that unat_lt_u32 [of "vtmr_ticks cf delay_us"]
      by (auto simp: vt_tick_def word_less_nat_alt)
    ultimately show ?thesis by metis
  qed
  then show ?thesis unfolding vtmr_delay_def vtmr_id
    by (intro vtmr_wait_steps) (auto simp: word_less_nat_alt)
qed

text \<open>What a time difference is: the absolute difference of the readings in microseconds, cut
  to its low 32 bits first and limited to \<open>2^31 - 1\<close> only afterwards. So it is the difference,
  limited, for differences below \<open>2^32\<close> microseconds (about 72 minutes), and garbage beyond.\<close>

theorem timer_diff_truncates_before_limit:
  assumes "freq \<noteq> 0"
  shows "timer_diff_us freq t2 t1 =
    Some (of_nat (min (nat \<bar>int (unat t2) - int (unat t1)\<bar> * 1000000 div unat freq mod 2 ^ 32) (2 ^ 31 - 1)))"
proof -
  define hi where "hi = (if t1 < t2 then t2 else t1)"
  define lo where "lo = (if t1 < t2 then t1 else t2)"
  have d: "unat (hi - lo) = nat \<bar>int (unat t2) - int (unat t1)\<bar>"
  proof -
    have "lo \<le> hi" by (auto simp: hi_def lo_def)
    then have "unat (hi - lo) = unat hi - unat lo" by (rule unat_sub)
    moreover have "nat \<bar>int a - int b\<bar> = (if b < a then a - b else b - a)" for a b :: nat by auto
    ultimately show ?thesis by (simp only:) (auto simp: hi_def lo_def word_less_nat_alt)
  qed
  let ?q = "(ucast (hi - lo) * 1000000 :: u64) div ucast freq"
  have "unat (ucast (hi - lo) * 1000000 :: u64) = unat (hi - lo) * 1000000"
    using unat_lt_u32 [of "hi - lo"] by (simp add: unat_word_ariths unsigned_ucast_eq take_bit_eq_mod)
  then have "unat ?q = unat (hi - lo) * 1000000 div unat freq"
    using unat_lt_u32 [of freq] by (simp add: unat_div unsigned_ucast_eq take_bit_eq_mod)
  then have q: "unat (ucast ?q :: u32) = unat (hi - lo) * 1000000 div unat freq mod 2 ^ 32"
    by (simp add: unsigned_ucast_eq take_bit_eq_mod)
  have "timer_diff_us freq t2 t1 = Some (if (ucast ?q :: u32) > 0x7FFFFFFF then 0x7FFFFFFF else ucast ?q)"
    using assms by (simp add: timer_diff_us_def Let_def hi_def lo_def)
  also have "\<dots> = Some (of_nat (min (unat (ucast ?q :: u32)) (2 ^ 31 - 1)))"
    by (auto simp: word_less_nat_alt min_def)
  finally show ?thesis by (simp only: q d)
qed

subsection \<open>Witnesses\<close>

text \<open>Two virtual timers at 4 Hz, as on the LM3S and AT91SAM7X boards, just after start-up.\<close>

definition vtmr_demo_conf :: vtmr_conf where
  "vtmr_demo_conf = \<lparr>VTMR_NUM_TIMERS = 2, VTMR_FREQ_HZ = 4, INT_TMR_MATCH = 3\<rparr>"

definition vtmr_demo :: "nat list vtmr_sys" where
  "vtmr_demo = \<lparr>vtmr_counters = [0, 0], vtmr_reset_idx = -1, vtmr_period_limit = [0, 0],
     vtmr_int_periodic_flag = [0], vtmr_int_enabled = [0], vtmr_int_flag = [0], vt_q = []\<rparr>"

lemma vtmr_demo_simps [simp]: "VTMR_NUM_TIMERS vtmr_demo_conf = 2" "vt_wf vtmr_demo_conf vtmr_demo" "vtmr_reset_idx vtmr_demo = -1"
  "vtmr_ticks vtmr_demo_conf 1000000 = 4"
  by (simp_all add: vtmr_demo_conf_def vtmr_demo_def vt_wf_def vtmr_ticks_def)

theorem vtmr_interrupt_refines_witness:
  "vt_view 1 (cmn_virtual_timer_cb vtmr_demo_conf vt_log vtmr_demo) = vt_tick (vt_view 1 vtmr_demo)"
  using vtmr_interrupt_refines [of vtmr_demo_conf vtmr_demo vt_log] by simp

theorem vtmr_match_interrupts_witness:
  "\<exists>t. vtmr_set_match_int vtmr_demo_conf vt_log 33 1000000 PLATFORM_TIMER_INT_CYCLIC vtmr_demo = (PLATFORM_TIMER_INT_OK, t) \<and>
     count_list (vt_q ((cmn_virtual_timer_cb vtmr_demo_conf vt_log ^^ 11) t)) 33 = count_list (vt_q t) 33 + 2"
proof -
  obtain r t where rt: "vtmr_set_match_int vtmr_demo_conf vt_log (1 + VTMR_FIRST_ID) 1000000 PLATFORM_TIMER_INT_CYCLIC vtmr_demo = (r, t)"
    by fastforce
  then have "r = PLATFORM_TIMER_INT_OK" by (rule vtmr_set_match_int_view(1) [rotated 5]) simp_all
  then show ?thesis using rt vtmr_match_interrupts [OF _ _ _ _ _ rt, of 11] by simp
qed

theorem vtmr_delay_returns_witness:
  "vtmr_delay vtmr_demo_conf vt_log 33 1000000 vtmr_demo =
     Some ((cmn_virtual_timer_cb vtmr_demo_conf vt_log ^^ 4) (vtmr_reset_timer vtmr_demo_conf vt_log 33 vtmr_demo))"
proof -
  have "\<not> vt_periodic (vt_view 1 vtmr_demo)" by (simp add: vt_view_def vtmr_demo_def vt_test_bit)
  then show ?thesis using vtmr_delay_returns [of vtmr_demo_conf vtmr_demo 1 1000000 vt_log] by simp
qed

text \<open>5000 seconds at 4 Hz, reported as 705 seconds.\<close>

theorem timer_diff_truncates_before_limit_witness:
  "timer_diff_us 4 20000 0 = Some 705032704"
  using timer_diff_truncates_before_limit [of 4 20000 0] by simp

end
