(* ===== verification/Devman.thy ===== *)
theory Devman
  imports Elua_Prelude
begin

unbundle bit_operations_syntax

text \<open>
  The device manager \<^verbatim>\<open>src/newlib/devman.c\<close> (the table of registered devices and the directory
  operations) and the system calls of \<^verbatim>\<open>src/newlib/stubs.c\<close> that dispatch through it: a path
  \<^verbatim>\<open>/device/rest\<close> selects a device, whose function gets the rest; a descriptor packs the index of
  the device and the device's own descriptor into 15 bits.

  A device is a record of functions, \<open>None\<close> where the C record has NULL. They work on an
  environment, the C library's \<^verbatim>\<open>_errno\<close> and a state \<open>'s\<close> that all devices share; an \<open>outcome\<close> is
  \<open>None\<close> for a call that does not return, otherwise a fault or a value.
\<close>

type_synonym 'a outcome = "(c_fault + 'a) option"
type_synonym 's env = "int \<times> 's"

abbreviation (input) returns :: "'a \<Rightarrow> 'a outcome" where "returns x \<equiv> Some (Inr x)"

text \<open>A directory entry: size, name, time. Directory handles of a device are addresses, 0 for NULL.\<close>

type_synonym dm_dirent = "u32 \<times> u8 list \<times> u32"

record 's dm_device =
  dm_name :: "u8 list"
  p_open_r :: "(u8 list \<Rightarrow> int \<Rightarrow> int \<Rightarrow> 's env \<Rightarrow> (int \<times> 's env) outcome) option"
  p_close_r :: "(int \<Rightarrow> 's env \<Rightarrow> (int \<times> 's env) outcome) option"
  p_write_r :: "(int \<Rightarrow> u8 list \<Rightarrow> 's env \<Rightarrow> (int \<times> 's env) outcome) option"
  p_read_r :: "(int \<Rightarrow> u32 \<Rightarrow> 's env \<Rightarrow> ((int \<times> u8 list) \<times> 's env) outcome) option"
  p_lseek_r :: "(int \<Rightarrow> u32 \<Rightarrow> int \<Rightarrow> 's env \<Rightarrow> (int \<times> 's env) outcome) option"
  p_opendir_r :: "(u8 list \<Rightarrow> 's env \<Rightarrow> (u32 \<times> 's env) outcome) option"
  p_readdir_r :: "(u32 \<Rightarrow> 's env \<Rightarrow> (dm_dirent option \<times> 's env) outcome) option"
  p_closedir_r :: "(u32 \<Rightarrow> 's env \<Rightarrow> (int \<times> 's env) outcome) option"
  p_getaddr_r :: "(int \<Rightarrow> 's env \<Rightarrow> (u32 \<times> 's env) outcome) option"
  p_unlink_r :: "(u8 list \<Rightarrow> 's env \<Rightarrow> (int \<times> 's env) outcome) option"

abbreviation DM_MAX_DEVICES :: nat where "DM_MAX_DEVICES \<equiv> 16"
abbreviation DM_MAX_DEV_NAME :: nat where "DM_MAX_DEV_NAME \<equiv> 12"
abbreviation DM_ERR_ALREADY_REGISTERED :: int where "DM_ERR_ALREADY_REGISTERED \<equiv> -1"
abbreviation DM_ERR_NOT_REGISTERED :: int where "DM_ERR_NOT_REGISTERED \<equiv> -2"
abbreviation DM_ERR_NO_SPACE :: int where "DM_ERR_NO_SPACE \<equiv> -3"
abbreviation DM_ERR_INVALID_NAME :: int where "DM_ERR_INVALID_NAME \<equiv> -4"
abbreviation DM_OK :: int where "DM_OK \<equiv> 0"
abbreviation c_slash :: u8 where "c_slash \<equiv> 0x2F"

text \<open>The error numbers of Newlib that are stored; -1 is the result that goes with them.\<close>

abbreviation EBADF :: int where "EBADF \<equiv> 9"
abbreviation ENOMEM :: int where "ENOMEM \<equiv> 12"
abbreviation ENODEV :: int where "ENODEV \<equiv> 19"
abbreviation ENOSYS :: int where "ENOSYS \<equiv> 88"
abbreviation ENOENT_NO :: int where "ENOENT_NO \<equiv> 2"

subsection \<open>Descriptors\<close>

definition DM_MAKE_DESC :: "int \<Rightarrow> int \<Rightarrow> int" where
  "DM_MAKE_DESC devid fd = push_bit 11 devid OR fd"

definition DM_GET_DEVID :: "int \<Rightarrow> int" where
  "DM_GET_DEVID desc = drop_bit 11 desc"

definition DM_GET_FD :: "int \<Rightarrow> int" where
  "DM_GET_FD desc = desc AND (2 ^ 11 - 1)"

subsection \<open>The table of devices\<close>

text \<open>The first \<open>dm_num_devs\<close> entries of \<^verbatim>\<open>dm_list\<close>. The scans stop at the first entry with the name.\<close>

type_synonym 's dm_table = "'s dm_device list"

primrec dm_find :: "u8 list \<Rightarrow> 's dm_table \<Rightarrow> nat option" where
  "dm_find name [] = None"
| "dm_find name (d # ds) = (if c_strcaseeq name (dm_name d) then Some 0 else map_option Suc (dm_find name ds))"

definition dm_register :: "'s dm_device option \<Rightarrow> 's dm_table \<Rightarrow> int \<times> 's dm_table" where
  "dm_register pdev ds = (case pdev of
      None \<Rightarrow> (DM_ERR_INVALID_NAME, ds)
    | Some d \<Rightarrow>
        if dm_name d = [] \<or> hd (dm_name d) \<noteq> c_slash \<or> length (dm_name d) > DM_MAX_DEV_NAME then (DM_ERR_INVALID_NAME, ds)
        else if dm_find (dm_name d) ds \<noteq> None then (DM_ERR_ALREADY_REGISTERED, ds)
        else if length ds = DM_MAX_DEVICES then (DM_ERR_NO_SPACE, ds)
        else (int (length ds), ds @ [d]))"

text \<open>The longest registered name that starts \<open>name\<close>, as index and rest; \<open>None\<close> is \<^verbatim>\<open>DM_ERR_NO_DEVICE\<close>.\<close>

fun dm_longest :: "u8 list \<Rightarrow> nat \<Rightarrow> 's dm_table \<Rightarrow> nat \<times> nat \<Rightarrow> nat \<times> nat" where
  "dm_longest name i [] (matchlen, pos) = (matchlen, pos)"
| "dm_longest name i (d # ds) (matchlen, pos) =
     dm_longest name (i + 1) ds
       (if c_strncaseeq (length (dm_name d)) name (dm_name d) \<and> length (dm_name d) > matchlen
        then (length (dm_name d), i) else (matchlen, pos))"

definition dm_device_id_from_name :: "u8 list \<Rightarrow> 's dm_table \<Rightarrow> (nat \<times> u8 list) option" where
  "dm_device_id_from_name name ds = (case dm_longest name 0 ds (0, 0) of
     (matchlen, pos) \<Rightarrow> if matchlen = 0 then None else Some (pos, drop (length (dm_name (ds ! pos))) name))"

definition dm_unregister :: "u8 list option \<Rightarrow> 's dm_table \<Rightarrow> int \<times> 's dm_table" where
  "dm_unregister name ds = (case name of
      None \<Rightarrow> (DM_ERR_INVALID_NAME, ds)
    | Some n \<Rightarrow>
        if n = [] \<or> hd n \<noteq> c_slash \<or> length n > DM_MAX_DEV_NAME then (DM_ERR_INVALID_NAME, ds)
        else (case dm_find n ds of
                None \<Rightarrow> (DM_ERR_NOT_REGISTERED, ds)
              | Some i \<Rightarrow> (DM_OK, take i ds @ drop (i + 1) ds)))"

definition dm_get_device_at :: "int \<Rightarrow> 's dm_table \<Rightarrow> 's dm_device option" where
  "dm_get_device_at idx ds = (if idx < 0 \<or> idx \<ge> int (length ds) then None else Some (ds ! nat idx))"

definition dm_get_num_devices :: "'s dm_table \<Rightarrow> int" where
  "dm_get_num_devices ds = int (length ds)"

text \<open>\<^verbatim>\<open>dm_init\<close> registers the standard device.\<close>

definition dm_init :: "'s dm_device option \<Rightarrow> int \<times> 's dm_table" where
  "dm_init std = (DM_OK, snd (dm_register std []))"

subsection \<open>Directories\<close>

text \<open>A \<^verbatim>\<open>DM_DIR\<close>: the device's index in a byte, and the device's handle.\<close>

type_synonym dm_dir = "u8 \<times> u32"

text \<open>\<open>avail\<close> tells whether \<^verbatim>\<open>malloc\<close> succeeds.\<close>

definition dm_opendir :: "bool \<Rightarrow> u8 list \<Rightarrow> 's dm_table \<Rightarrow> 's env \<Rightarrow> (dm_dir option \<times> 's env) outcome" where
  "dm_opendir avail dirname ds e = (case dm_device_id_from_name dirname ds of
      None \<Rightarrow> returns (None, ENOSYS, snd e)
    | Some (pos, rest) \<Rightarrow> (case p_opendir_r (ds ! pos) of
        None \<Rightarrow> returns (None, ENOSYS, snd e)
      | Some f \<Rightarrow> (case f rest e of
          None \<Rightarrow> None
        | Some (Inl flt) \<Rightarrow> Some (Inl flt)
        | Some (Inr (data, e')) \<Rightarrow>
            if data = 0 then returns (None, e')
            else if \<not> avail then returns (None, ENOMEM, snd e')
            else returns (Some (of_nat pos, data), e'))))"

definition dm_readdir :: "dm_dir \<Rightarrow> 's dm_table \<Rightarrow> 's env \<Rightarrow> (dm_dirent option \<times> 's env) outcome" where
  "dm_readdir d ds e =
     (if unat (fst d) \<ge> length ds then returns (None, EBADF, snd e)
      else case p_readdir_r (ds ! unat (fst d)) of
        None \<Rightarrow> returns (None, EBADF, snd e)
      | Some f \<Rightarrow> f (snd d) e)"

text \<open>A device without a \<^verbatim>\<open>closedir\<close> is not tested for.\<close>

definition dm_closedir :: "dm_dir \<Rightarrow> 's dm_table \<Rightarrow> 's env \<Rightarrow> (int \<times> 's env) outcome" where
  "dm_closedir d ds e =
     (if unat (fst d) \<ge> length ds then returns (-1, EBADF, snd e)
      else case p_closedir_r (ds ! unat (fst d)) of
        None \<Rightarrow> Some (Inl NullDeref)
      | Some f \<Rightarrow> f (snd d) e)"

definition dm_getaddr :: "int \<Rightarrow> 's dm_table \<Rightarrow> 's env \<Rightarrow> (u32 \<times> 's env) outcome" where
  "dm_getaddr fd ds e = (case dm_get_device_at (DM_GET_DEVID fd) ds of
      None \<Rightarrow> returns (0, ENOSYS, snd e)
    | Some d \<Rightarrow> (case p_getaddr_r d of
        None \<Rightarrow> returns (0, ENOSYS, snd e)
      | Some f \<Rightarrow> f (DM_GET_FD fd) e))"

subsection \<open>The system calls\<close>

text \<open>
  \<^verbatim>\<open>find_dm_entry\<close>: the device is the part up to the second slash (the device \<^verbatim>\<open>/\<close> if there is
  none), and something must follow. The result is the device's index and the rest of the name.
\<close>

definition find_dm_entry :: "u8 list option \<Rightarrow> 's dm_table \<Rightarrow> (nat \<times> u8 list) option" where
  "find_dm_entry name ds = (case name of
      None \<Rightarrow> None
    | Some [] \<Rightarrow> None
    | Some (c # cs) \<Rightarrow>
        if c \<noteq> c_slash then None
        else
          (let dev = takeWhile (\<lambda>x. x \<noteq> c_slash) cs; tail = dropWhile (\<lambda>x. x \<noteq> c_slash) cs;
               toolong = tail \<noteq> [] \<and> (length dev + 1 > DM_MAX_DEV_NAME \<or> length dev + 1 = 1);
               tempname = (if tail = [] then [c_slash] else c # dev);
               preal = (if tail = [] then c # cs else tail)
           in if toolong then None
              else (case dm_find tempname ds of
                      None \<Rightarrow> None
                    | Some i \<Rightarrow> if tl preal = [] then None else Some (i, tl preal))))"

definition sys_open_r :: "u8 list option \<Rightarrow> int \<Rightarrow> int \<Rightarrow> 's dm_table \<Rightarrow> 's env \<Rightarrow> (int \<times> 's env) outcome" where
  "sys_open_r name flags mode ds e = (case find_dm_entry name ds of
      None \<Rightarrow> returns (-1, ENODEV, snd e)
    | Some (devid, actname) \<Rightarrow> (case p_open_r (ds ! devid) of
        None \<Rightarrow> returns (-1, ENOSYS, snd e)
      | Some f \<Rightarrow> (case f actname flags mode e of
          None \<Rightarrow> None
        | Some (Inl flt) \<Rightarrow> Some (Inl flt)
        | Some (Inr (res, e')) \<Rightarrow>
            if res < 0 then returns (res, e') else returns (DM_MAKE_DESC (int devid) res, e'))))"

text \<open>
  The calls on a descriptor share their shape: the device's record is fetched without a test
  (a descriptor of no device is a NULL dereference), then its function is.
\<close>

definition sys_dispatch :: "('s dm_device \<Rightarrow> (int \<Rightarrow> 'f) option) \<Rightarrow> ('f \<Rightarrow> 's env \<Rightarrow> ('r \<times> 's env) outcome) \<Rightarrow> 'r
    \<Rightarrow> int \<Rightarrow> 's dm_table \<Rightarrow> 's env \<Rightarrow> ('r \<times> 's env) outcome" where
  "sys_dispatch sel call bad file ds e = (case dm_get_device_at (DM_GET_DEVID file) ds of
      None \<Rightarrow> Some (Inl NullDeref)
    | Some d \<Rightarrow> (case sel d of
        None \<Rightarrow> returns (bad, ENOSYS, snd e)
      | Some f \<Rightarrow> call (f (DM_GET_FD file)) e))"

definition sys_close_r :: "int \<Rightarrow> 's dm_table \<Rightarrow> 's env \<Rightarrow> (int \<times> 's env) outcome" where
  "sys_close_r file = sys_dispatch p_close_r (\<lambda>f. f) (-1) file"

definition sys_lseek_r :: "int \<Rightarrow> u32 \<Rightarrow> int \<Rightarrow> 's dm_table \<Rightarrow> 's env \<Rightarrow> (int \<times> 's env) outcome" where
  "sys_lseek_r file off whence = sys_dispatch p_lseek_r (\<lambda>f. f off whence) (-1) file"

definition sys_read_r :: "int \<Rightarrow> u32 \<Rightarrow> 's dm_table \<Rightarrow> 's env \<Rightarrow> ((int \<times> u8 list) \<times> 's env) outcome" where
  "sys_read_r file len = sys_dispatch p_read_r (\<lambda>f. f len) (-1, []) file"

definition sys_write_r :: "int \<Rightarrow> u8 list \<Rightarrow> 's dm_table \<Rightarrow> 's env \<Rightarrow> (int \<times> 's env) outcome" where
  "sys_write_r file bytes = sys_dispatch p_write_r (\<lambda>f. f bytes) (-1) file"

definition sys_unlink_r :: "u8 list option \<Rightarrow> 's dm_table \<Rightarrow> 's env \<Rightarrow> (int \<times> 's env) outcome" where
  "sys_unlink_r fname ds e =
     (if fname = None \<or> fname = Some [] then returns (-1, ENOENT_NO, snd e)
      else case find_dm_entry fname ds of
        None \<Rightarrow> returns (-1, ENODEV, snd e)
      | Some (devid, actname) \<Rightarrow> (case p_unlink_r (ds ! devid) of
          None \<Rightarrow> returns (-1, ENOSYS, snd e)
        | Some f \<Rightarrow> f actname e))"

text \<open>\<^verbatim>\<open>_fstat_r\<close> knows the three standard descriptors: \<open>True\<close> is the mode \<^verbatim>\<open>S_IFCHR\<close>.\<close>

definition sys_fstat_r :: "int \<Rightarrow> 's env \<Rightarrow> int \<times> bool \<times> 's env" where
  "sys_fstat_r file e = (if 0 \<le> file \<and> file \<le> 2 then (0, True, e) else (-1, False, ENOSYS, snd e))"

subsection \<open>Packing descriptors\<close>

lemma DM_desc_roundtrip:
  assumes "0 \<le> fd" "fd < 2048"
  shows "DM_GET_DEVID (DM_MAKE_DESC k fd) = k" "DM_GET_FD (DM_MAKE_DESC k fd) = fd"
proof -
  have d: "drop_bit 11 fd = 0" using assms by (simp add: drop_bit_eq_div)
  have t: "take_bit 11 fd = fd" using assms by (simp add: take_bit_int_eq_self)
  show "DM_GET_DEVID (DM_MAKE_DESC k fd) = k"
    using d by (simp add: DM_GET_DEVID_def DM_MAKE_DESC_def drop_bit_push_bit)
  have "DM_GET_FD x = take_bit 11 x" for x
    by (simp only: DM_GET_FD_def take_bit_eq_mask mask_eq_exp_minus_1)
  then show "DM_GET_FD (DM_MAKE_DESC k fd) = fd"
    using t by (simp add: DM_MAKE_DESC_def take_bit_push_bit)
qed

lemma DM_MAKE_DESC_range:
  assumes "0 \<le> k" "k < 16" "0 \<le> fd" "fd < 2048"
  shows "0 \<le> DM_MAKE_DESC k fd \<and> DM_MAKE_DESC k fd < 2 ^ 15"
proof -
  have "push_bit 11 k < 2 ^ 15" using assms by (simp add: push_bit_eq_mult)
  then have "DM_MAKE_DESC k fd < 2 ^ 15"
    unfolding DM_MAKE_DESC_def using assms by (intro OR_upper) (simp_all add: push_bit_eq_mult)
  then show ?thesis using assms by (simp add: DM_MAKE_DESC_def)
qed

subsection \<open>The table\<close>

text \<open>Names are proper and differ from each other by more than case.\<close>

definition dm_name_ok :: "u8 list \<Rightarrow> bool" where
  "dm_name_ok n \<longleftrightarrow> n \<noteq> [] \<and> hd n = c_slash \<and> length n \<le> DM_MAX_DEV_NAME"

definition dm_table_ok :: "'s dm_table \<Rightarrow> bool" where
  "dm_table_ok ds \<longleftrightarrow> length ds \<le> DM_MAX_DEVICES \<and> (\<forall>d \<in> set ds. dm_name_ok (dm_name d)) \<and>
     distinct (map (\<lambda>d. map c_tolower (dm_name d)) ds)"

lemma dm_find_Some:
  "dm_find name ds = Some i \<longleftrightarrow> i < length ds \<and> c_strcaseeq name (dm_name (ds ! i)) \<and>
     (\<forall>j < i. \<not> c_strcaseeq name (dm_name (ds ! j)))"
proof (induction ds arbitrary: i)
  case (Cons d ds)
  show ?case by (cases i) (auto simp: Cons.IH less_Suc_eq_0_disj)
qed simp

lemma dm_find_None: "dm_find name ds = None \<longleftrightarrow> (\<forall>d \<in> set ds. \<not> c_strcaseeq name (dm_name d))"
  by (induction ds) auto

lemma dm_find_own:
  assumes "dm_table_ok ds" "i < length ds"
  shows "dm_find (dm_name (ds ! i)) ds = Some i"
proof -
  have "map c_tolower (dm_name (ds ! i)) \<noteq> map c_tolower (dm_name (ds ! j))" if "j < i" for j
    using assms that by (auto simp: dm_table_ok_def distinct_conv_nth)
  then show ?thesis using assms(2) by (simp add: dm_find_Some c_strcaseeq_def)
qed

lemma dm_register_ok:
  assumes "dm_table_ok ds"
  shows "dm_table_ok (snd (dm_register p ds))"
proof (cases p)
  case None
  then show ?thesis using assms by (simp add: dm_register_def)
next
  case (Some d)
  show ?thesis
  proof (cases "dm_name_ok (dm_name d) \<and> dm_find (dm_name d) ds = None \<and> length ds \<noteq> DM_MAX_DEVICES")
    case True
    then have "map c_tolower (dm_name d) \<notin> set (map (\<lambda>d. map c_tolower (dm_name d)) ds)"
      by (auto simp: dm_find_None c_strcaseeq_def)
    then show ?thesis using True Some assms
      by (auto simp: dm_register_def dm_table_ok_def dm_name_ok_def)
  next
    case False
    then show ?thesis using Some assms by (auto simp: dm_register_def dm_name_ok_def)
  qed
qed

lemma dm_table_ok_remove: "dm_table_ok (xs @ d # ys) \<Longrightarrow> dm_table_ok (xs @ ys)"
  by (auto simp: dm_table_ok_def)

lemma dm_unregister_ok:
  assumes "dm_table_ok ds"
  shows "dm_table_ok (snd (dm_unregister n ds))"
proof -
  have "dm_table_ok (take i ds @ drop (i + 1) ds)" for i
  proof (cases "i < length ds")
    case True
    then show ?thesis using assms dm_table_ok_remove [of "take i ds" "ds ! i" "drop (i + 1) ds"]
      by (simp add: id_take_nth_drop [symmetric])
  next
    case False
    then show ?thesis using assms by simp
  qed
  then show ?thesis using assms by (auto simp: dm_unregister_def split: option.splits)
qed

text \<open>Any history of registrations and removals.\<close>

datatype 's dm_op = DmRegister "'s dm_device option" | DmUnregister "u8 list option"

fun dm_exec :: "'s dm_op \<Rightarrow> 's dm_table \<Rightarrow> 's dm_table" where
  "dm_exec (DmRegister p) ds = snd (dm_register p ds)"
| "dm_exec (DmUnregister n) ds = snd (dm_unregister n ds)"

lemma dm_exec_ok: "dm_table_ok ds \<Longrightarrow> dm_table_ok (fold dm_exec ops ds)"
proof (induction ops arbitrary: ds)
  case (Cons x ops)
  then show ?case by (cases x) (auto intro: dm_register_ok dm_unregister_ok)
qed simp

lemma dm_init_ok: "dm_table_ok (snd (dm_init std))"
  unfolding dm_init_def snd_conv by (rule dm_register_ok) (simp add: dm_table_ok_def)

subsection \<open>Paths\<close>

definition dm_path :: "u8 list \<Rightarrow> u8 list \<Rightarrow> u8 list" where
  "dm_path dev rest = dev @ c_slash # rest"

text \<open>The name of a device as \<^verbatim>\<open>find_dm_entry\<close> can select it: one slash, in front.\<close>

definition dm_simple_name :: "u8 list \<Rightarrow> bool" where
  "dm_simple_name n \<longleftrightarrow> dm_name_ok n \<and> c_slash \<notin> set (tl n) \<and> tl n \<noteq> []"

lemma c_tolower_slash: "c_tolower c = c_slash \<longleftrightarrow> c = c_slash"
proof -
  have "c + 0x20 \<noteq> c_slash" if "0x41 \<le> c" "c \<le> 0x5A" for c :: u8
  proof
    assume "c + 0x20 = c_slash"
    then have "c = c_slash - 0x20" by (metis add_diff_cancel)
    then show False using that by simp
  qed
  then show ?thesis by (auto simp: c_tolower_def)
qed

lemma find_dm_entry_path:
  assumes "dm_simple_name n" "rest \<noteq> []" "dm_find n ds = Some i"
  shows "find_dm_entry (Some (dm_path n rest)) ds = Some (i, rest)"
proof -
  obtain dev where n: "n = c_slash # dev" "c_slash \<notin> set dev" "dev \<noteq> []" "length dev < DM_MAX_DEV_NAME"
    using assms(1) by (cases n) (auto simp: dm_simple_name_def dm_name_ok_def)
  have t: "takeWhile (\<lambda>x. x \<noteq> c_slash) (dev @ c_slash # rest) = dev"
    "dropWhile (\<lambda>x. x \<noteq> c_slash) (dev @ c_slash # rest) = c_slash # rest"
    using n(2) by (auto simp: takeWhile_append dropWhile_append)
  show ?thesis using n assms(2,3) by (simp add: find_dm_entry_def dm_path_def t Let_def)
qed

end
