(* ===== verification/Devman_System.thy ===== *)
theory Devman_System
  imports Devman Romfs
begin

text \<open>
  The ROM file system as a device of the device manager: the descriptor record
  \<^verbatim>\<open>romfs_device\<close> of \<^verbatim>\<open>src/romfs.c\<close> over the model of its functions, and the system calls on
  paths \<^verbatim>\<open>/rom/...\<close> and on the descriptors they return. The shared state is the state of the ROM
  file system and the state \<open>'o\<close> of the other devices.
\<close>

subsection \<open>The device\<close>

definition rom_errno_no :: "rom_errno \<Rightarrow> int" where
  "rom_errno_no e = (case e of ENFILE \<Rightarrow> 23 | ENOENT \<Rightarrow> ENOENT_NO | EINVAL \<Rightarrow> 22)"

definition whence_of :: "int \<Rightarrow> whence" where
  "whence_of w = (if w = 0 then SEEK_SET else if w = 1 then SEEK_CUR else if w = 2 then SEEK_END else SEEK_OTHER)"

definition rom_dev_open :: "mem \<Rightarrow> u8 list \<Rightarrow> int \<Rightarrow> int \<Rightarrow> (romfs \<times> 'o) env \<Rightarrow> (int \<times> (romfs \<times> 'o) env) outcome" where
  "rom_dev_open img path flags mode e = (case romfs_open_r img path (fst (snd e)) of
      None \<Rightarrow> None
    | Some (Inl f) \<Rightarrow> Some (Inl f)
    | Some (Inr (Inl err, r)) \<Rightarrow> returns (-1, rom_errno_no err, r, snd (snd e))
    | Some (Inr (Inr fd, r)) \<Rightarrow> returns (int fd, fst e, r, snd (snd e)))"

definition rom_dev_close :: "int \<Rightarrow> (romfs \<times> 'o) env \<Rightarrow> (int \<times> (romfs \<times> 'o) env) outcome" where
  "rom_dev_close fd e = (case romfs_close_r (nat fd) (fst (snd e)) of (res, r) \<Rightarrow> returns (res, fst e, r, snd (snd e)))"

definition rom_dev_write :: "int \<Rightarrow> u8 list \<Rightarrow> (romfs \<times> 'o) env \<Rightarrow> (int \<times> (romfs \<times> 'o) env) outcome" where
  "rom_dev_write fd bytes e = (case romfs_write_r (nat fd) bytes (fst (snd e)) of
      (Inl err, r) \<Rightarrow> returns (-1, rom_errno_no err, r, snd (snd e))
    | (Inr n, r) \<Rightarrow> returns (int n, fst e, r, snd (snd e)))"

definition rom_dev_read :: "mem \<Rightarrow> int \<Rightarrow> u32 \<Rightarrow> (romfs \<times> 'o) env \<Rightarrow> ((int \<times> u8 list) \<times> (romfs \<times> 'o) env) outcome" where
  "rom_dev_read img fd len e = (case romfs_read_r img (nat fd) len (fst (snd e)) of
      (bs, r) \<Rightarrow> returns ((int (length bs), bs), fst e, r, snd (snd e)))"

definition rom_dev_lseek :: "int \<Rightarrow> u32 \<Rightarrow> int \<Rightarrow> (romfs \<times> 'o) env \<Rightarrow> (int \<times> (romfs \<times> 'o) env) outcome" where
  "rom_dev_lseek fd off w e = (case romfs_lseek_r (nat fd) off (whence_of w) (fst (snd e)) of
      (None, r) \<Rightarrow> returns (-1, fst e, r, snd (snd e))
    | (Some p, r) \<Rightarrow> returns (uint p, fst e, r, snd (snd e)))"

definition rom_dev_opendir :: "u8 list \<Rightarrow> (romfs \<times> 'o) env \<Rightarrow> (u32 \<times> (romfs \<times> 'o) env) outcome" where
  "rom_dev_opendir dname e = (case romfs_opendir_r (Some dname) (fst (snd e)) of
      (ok, r) \<Rightarrow> returns (of_bool ok, fst e, r, snd (snd e)))"

definition rom_dev_readdir :: "mem \<Rightarrow> u32 \<Rightarrow> (romfs \<times> 'o) env \<Rightarrow> (dm_dirent option \<times> (romfs \<times> 'o) env) outcome" where
  "rom_dev_readdir img d e = (case romfs_readdir_r img (fst (snd e)) of
      None \<Rightarrow> None
    | Some (Inl f) \<Rightarrow> Some (Inl f)
    | Some (Inr (ent, r)) \<Rightarrow> returns (map_option (\<lambda>(name, size). (size, name, 0)) ent, fst e, r, snd (snd e)))"

definition rom_dev_closedir :: "u32 \<Rightarrow> (romfs \<times> 'o) env \<Rightarrow> (int \<times> (romfs \<times> 'o) env) outcome" where
  "rom_dev_closedir d e = (case romfs_closedir_r (fst (snd e)) of (res, r) \<Rightarrow> returns (res, fst e, r, snd (snd e)))"

definition rom_dev_getaddr :: "int \<Rightarrow> (romfs \<times> 'o) env \<Rightarrow> (u32 \<times> (romfs \<times> 'o) env) outcome" where
  "rom_dev_getaddr fd e = returns (romfs_getaddr_r (nat fd) (fst (snd e)), e)"

abbreviation rom_name :: "u8 list" where "rom_name \<equiv> [0x2F, 0x72, 0x6F, 0x6D]"

definition romfs_device :: "mem \<Rightarrow> (romfs \<times> 'o) dm_device" where
  "romfs_device img = \<lparr>dm_name = rom_name,
     p_open_r = Some (rom_dev_open img), p_close_r = Some rom_dev_close, p_write_r = Some rom_dev_write,
     p_read_r = Some (rom_dev_read img), p_lseek_r = Some rom_dev_lseek, p_opendir_r = Some rom_dev_opendir,
     p_readdir_r = Some (rom_dev_readdir img), p_closedir_r = Some rom_dev_closedir,
     p_getaddr_r = Some rom_dev_getaddr, p_unlink_r = None\<rparr>"

subsection \<open>Programs on a descriptor\<close>

text \<open>A program of reads and seeks through the system calls; \<open>None\<close> if a call faults or hangs.\<close>

definition whence_no :: "whence \<Rightarrow> int" where
  "whence_no w = (case w of SEEK_SET \<Rightarrow> 0 | SEEK_CUR \<Rightarrow> 1 | SEEK_END \<Rightarrow> 2 | SEEK_OTHER \<Rightarrow> 3)"

lemma whence_of_no [simp]: "whence_of (whence_no w) = w"
  by (cases w) (simp_all add: whence_of_def whence_no_def)

primrec sys_run :: "int \<Rightarrow> rom_op list \<Rightarrow> 's dm_table \<Rightarrow> 's env \<Rightarrow> rom_res list option" where
  "sys_run file [] ds e = Some []"
| "sys_run file (x # xs) ds e = (case x of
      RRead len \<Rightarrow> (case sys_read_r file len ds e of
          Some (Inr ((n, bs), e')) \<Rightarrow> map_option ((#) (RBytes (take (nat n) bs))) (sys_run file xs ds e')
        | _ \<Rightarrow> None)
    | RSeek off wh \<Rightarrow> (case sys_lseek_r file off (whence_no wh) ds e of
          Some (Inr (p, e')) \<Rightarrow> map_option ((#) (RPos (if p < 0 then None else Some (of_int p)))) (sys_run file xs ds e')
        | _ \<Rightarrow> None))"

lemma dm_get_device_made:
  assumes "k < length ds" "0 \<le> fd" "fd < 2048"
  shows "dm_get_device_at (DM_GET_DEVID (DM_MAKE_DESC (int k) fd)) ds = Some (ds ! k)"
  using assms DM_desc_roundtrip [of fd "int k"] by (simp add: dm_get_device_at_def)

lemma sys_run_rom:
  assumes "k < length ds" "ds ! k = romfs_device img" "fd < 2048" "rom_open img r fd d pos"
  shows "sys_run (DM_MAKE_DESC (int k) (int fd)) prog ds (err, r, o') = Some (list_run d prog pos)"
  using assms(4)
proof (induction prog arbitrary: r pos)
  case (Cons x prog)
  have fd: "DM_GET_FD (DM_MAKE_DESC (int k) (int fd)) = int fd"
    "dm_get_device_at (DM_GET_DEVID (DM_MAKE_DESC (int k) (int fd))) ds = Some (ds ! k)"
    using DM_desc_roundtrip(2) [of "int fd"] dm_get_device_made [OF assms(1), of "int fd"] assms(3) by simp_all
  show ?case
  proof (cases x)
    case (RRead len)
    obtain r' where r': "romfs_read_r img fd len r = (take (unat len) (drop pos d), r')"
      "rom_open img r' fd d (min (pos + unat len) (length d))"
      using rom_read_step [OF Cons.prems, of len] by blast
    then have "sys_read_r (DM_MAKE_DESC (int k) (int fd)) len ds (err, r, o') =
        returns ((int (length (take (unat len) (drop pos d))), take (unat len) (drop pos d)), err, r', o')"
      by (simp add: sys_read_r_def sys_dispatch_def fd assms(2) romfs_device_def rom_dev_read_def)
    then show ?thesis using Cons.IH [OF r'(2)] RRead by (simp add: min_def)
  next
    case (RSeek off wh)
    obtain r' where r': "romfs_lseek_r fd off wh r = (map_option of_nat (seek_spec (length d) pos off wh), r')"
      "rom_open img r' fd d (case seek_spec (length d) pos off wh of None \<Rightarrow> pos | Some p \<Rightarrow> p)"
      using rom_seek_step [OF Cons.prems, of off wh] by blast
    then have "sys_lseek_r (DM_MAKE_DESC (int k) (int fd)) off (whence_no wh) ds (err, r, o') =
        returns (case seek_spec (length d) pos off wh of None \<Rightarrow> -1 | Some p \<Rightarrow> uint (of_nat p :: u32), err, r', o')"
      by (simp add: sys_lseek_r_def sys_dispatch_def fd assms(2) romfs_device_def rom_dev_lseek_def split: option.split)
    then show ?thesis using Cons.IH [OF r'(2)] RSeek
      by (auto simp: not_less split: option.split)
  qed
qed simp

lemma rom_name_simple: "dm_simple_name rom_name"
  by (simp add: dm_simple_name_def dm_name_ok_def)

lemma romfs_device_name [simp]: "dm_name (romfs_device img) = rom_name"
  by (simp add: romfs_device_def)

subsection \<open>Properties\<close>

text \<open>C18. The table of devices stays well-formed through any history of registrations and removals
  after start-up: at most 16 devices with proper names that differ by more than case; every
  device of the table is the one its own name selects, at its index; and a path
  \<^verbatim>\<open>/device/rest\<close> is split into exactly that device and the rest.\<close>

theorem dm_table_serves_names:
  fixes std :: "'s dm_device option"
  assumes "ds = fold dm_exec ops (snd (dm_init std))"
  shows "dm_table_ok ds \<and>
    (\<forall>i < length ds. dm_find (dm_name (ds ! i)) ds = Some i \<and>
       (\<forall>rest. dm_simple_name (dm_name (ds ! i)) \<longrightarrow> rest \<noteq> [] \<longrightarrow>
          find_dm_entry (Some (dm_path (dm_name (ds ! i)) rest)) ds = Some (i, rest)))"
proof -
  have ok: "dm_table_ok ds" unfolding assms by (intro dm_exec_ok dm_init_ok)
  then show ?thesis using dm_find_own [OF ok] find_dm_entry_path by blast
qed

text \<open>C8. Files of the ROM image through the system calls: with the ROM file system registered and a
  free ROM descriptor, \<^verbatim>\<open>open\<close> of \<^verbatim>\<open>/rom/path\<close> returns a descriptor of at most 15 bits for the
  first file of the image that matches the path, and every program of \<^verbatim>\<open>read\<close> and \<^verbatim>\<open>lseek\<close>
  calls on it returns what the same program returns on the file's byte list; without a
  matching file the call returns -1 with ENOENT. Nothing else of the state changes.\<close>

theorem dm_serves_rom_files:
  assumes "dm_table_ok ds" "k < length ds" "ds ! k = romfs_device img" "path \<noteq> []"
    and "romfs_inv r" "rom_image_ok img 0 fs" "romfs_num_fd r \<noteq> int ROMFS_MAX_FDS"
  shows "case find (\<lambda>f. c_strncaseeq DM_MAX_FNAME_LENGTH path (fst f)) fs of
      None \<Rightarrow> sys_open_r (Some (dm_path rom_name path)) flags mode ds (err, r, o') = returns (-1, ENOENT_NO, r, o')
    | Some (nm, d) \<Rightarrow> \<exists>desc r'. sys_open_r (Some (dm_path rom_name path)) flags mode ds (err, r, o') = returns (desc, err, r', o') \<and>
        0 \<le> desc \<and> desc < 2 ^ 15 \<and> romfs_inv r' \<and> (\<forall>prog. sys_run desc prog ds (err, r', o') = Some (list_run d prog 0))"
proof -
  have "dm_find rom_name ds = Some k" using dm_find_own [OF assms(1,2)] assms(3) by simp
  then have ent: "find_dm_entry (Some (dm_path rom_name path)) ds = Some (k, path)"
    by (rule find_dm_entry_path [OF rom_name_simple assms(4)])
  have k: "int k < 16" using assms(1,2) by (simp add: dm_table_ok_def)
  show ?thesis
  proof (cases "find (\<lambda>f. c_strncaseeq DM_MAX_FNAME_LENGTH path (fst f)) fs")
    case None
    then show ?thesis using romfs_open_missing [OF assms(5-7) None] ent assms(3)
      by (simp add: sys_open_r_def romfs_device_def rom_dev_open_def rom_errno_no_def)
  next
    case (Some f)
    obtain nm d where f: "f = (nm, d)" by fastforce
    obtain fd r' where r': "romfs_open_r img path r = Some (Inr (Inr fd, r'))" "fd < ROMFS_MAX_FDS" "romfs_inv r'"
        "rom_open img r' fd d 0"
      using romfs_open_found [OF assms(5-7)] Some f by blast
    have "sys_open_r (Some (dm_path rom_name path)) flags mode ds (err, r, o') = returns (DM_MAKE_DESC (int k) (int fd), err, r', o')"
      using ent assms(3) r'(1) by (simp add: sys_open_r_def romfs_device_def rom_dev_open_def)
    moreover have "0 \<le> DM_MAKE_DESC (int k) (int fd) \<and> DM_MAKE_DESC (int k) (int fd) < 2 ^ 15"
      using k r'(2) by (intro DM_MAKE_DESC_range) simp_all
    moreover have "\<forall>prog. sys_run (DM_MAKE_DESC (int k) (int fd)) prog ds (err, r', o') = Some (list_run d prog 0)"
      using sys_run_rom [OF assms(2,3) _ r'(4)] r'(2) by simp
    ultimately show ?thesis using Some f r'(3) by auto
  qed
qed

text \<open>Removing a device redirects open descriptors: all devices behind the removed one move down
  by one, so a descriptor that belongs to the device at index \<open>k\<close> dispatches, after the removal of
  an earlier one, to the device that was at \<open>k + 1\<close>, and one of the last device to a NULL record.\<close>

theorem dm_unregister_redirects:
  assumes "dm_table_ok ds" "i < k" "k < length ds" "0 \<le> fd" "fd < 2048"
  shows "dm_get_device_at (DM_GET_DEVID (DM_MAKE_DESC (int k) fd)) (snd (dm_unregister (Some (dm_name (ds ! i))) ds)) =
    (if k + 1 < length ds then Some (ds ! (k + 1)) else None)"
proof -
  have "dm_name_ok (dm_name (ds ! i))" using assms(1-3) by (simp add: dm_table_ok_def)
  then have "snd (dm_unregister (Some (dm_name (ds ! i))) ds) = take i ds @ drop (i + 1) ds"
    using dm_find_own [OF assms(1), of i] assms(2,3) by (auto simp: dm_unregister_def dm_name_ok_def)
  then show ?thesis using assms DM_desc_roundtrip(1) [of fd "int k"]
    by (auto simp: dm_get_device_at_def nth_append)
qed

subsection \<open>Witnesses\<close>

definition dm_demo_std :: "(romfs \<times> unit) dm_device" where
  "dm_demo_std = \<lparr>dm_name = [0x2F, 0x73, 0x74, 0x64], p_open_r = None, p_close_r = None, p_write_r = None, p_read_r = None,
     p_lseek_r = None, p_opendir_r = None, p_readdir_r = None, p_closedir_r = None, p_getaddr_r = None, p_unlink_r = None\<rparr>"

definition dm_demo :: "(romfs \<times> unit) dm_table" where
  "dm_demo = [dm_demo_std, romfs_device rom_demo_img]"

lemma dm_demo_ok: "dm_table_ok dm_demo" "length dm_demo = 2" "dm_demo ! 1 = romfs_device rom_demo_img"
  by (simp_all add: dm_demo_def dm_table_ok_def dm_name_ok_def dm_demo_std_def c_tolower_def)

theorem dm_table_serves_names_witness:
  "find_dm_entry (Some (dm_path rom_name [0x61, 0x62]))
     (fold dm_exec [DmRegister (Some (romfs_device rom_demo_img :: (romfs \<times> unit) dm_device))] (snd (dm_init (Some dm_demo_std)))) = Some (1, [0x61, 0x62])"
proof -
  have "fold dm_exec [DmRegister (Some (romfs_device rom_demo_img))] (snd (dm_init (Some dm_demo_std))) = dm_demo"
    by (simp add: dm_init_def dm_register_def dm_demo_def dm_demo_std_def c_strcaseeq_def c_tolower_def)
  note eq = this
  have "1 < length dm_demo" by (simp add: dm_demo_ok)
  then show ?thesis
    using dm_table_serves_names [OF eq [symmetric]] dm_demo_ok(3) rom_name_simple
    unfolding eq by (metis romfs_device_name list.distinct(1))
qed

theorem dm_serves_rom_files_witness:
  "\<exists>desc r'. sys_open_r (Some (dm_path rom_name [0x42, 0x43])) 0 0 dm_demo (0, rom_empty, ()) = returns (desc, 0, r', ()) \<and>
     sys_run desc [RRead 1, RSeek 0 SEEK_SET, RRead 9] dm_demo (0, r', ()) = Some [RBytes [7], RPos (Some 0), RBytes [7, 8]]"
proof -
  have "romfs_num_fd rom_empty \<noteq> int ROMFS_MAX_FDS" "1 < length dm_demo" "[0x42, 0x43] \<noteq> ([] :: u8 list)"
    by (simp_all add: rom_empty_def dm_demo_ok)
  from dm_serves_rom_files [OF dm_demo_ok(1) this(2) dm_demo_ok(3) this(3) rom_demo_ok(2,1) this(1), of 0 0 0 "()"]
  show ?thesis
    by (auto simp: rom_demo_files_def c_strncaseeq_def c_tolower_def seek_spec_def seek_target_def simp del: sys_run.simps)
qed

theorem dm_unregister_redirects_witness:
  "dm_get_device_at (DM_GET_DEVID (DM_MAKE_DESC 1 0)) (snd (dm_unregister (Some (dm_name (dm_demo ! 0))) dm_demo)) = None"
  using dm_unregister_redirects [OF dm_demo_ok(1), of 0 1 0] dm_demo_ok(2) by simp

end
