(* ===== verification/Genstd.thy ===== *)
theory Genstd
  imports Elua_Prelude
begin

text \<open>
  The standard input and output device, \<^verbatim>\<open>src/newlib/genstd.c\<close>: \<^verbatim>\<open>std_read\<close> is a line editor with
  echo over a function that gets one character (or -1 for a time-out), \<^verbatim>\<open>std_write\<close> adds a
  carriage return before each line feed. The console is the list of the results that the get
  function will give (a list that is used up gives -1) and the list of (descriptor, character)
  pairs sent. The model is the build without \<^verbatim>\<open>BUILD_VRAM\<close>. The theory shows that a line
  typed with corrections is read as an ideal line editor leaves it.
\<close>

abbreviation STD_CTRLZ_CODE :: int where "STD_CTRLZ_CODE \<equiv> 26"
abbreviation STD_EBADF :: int where "STD_EBADF \<equiv> 9"
abbreviation STD_EINVAL :: int where "STD_EINVAL \<equiv> 22"

record std_sys =
  std_prev_char :: int
  std_in :: "int list"
  std_out :: "(int \<times> int) list"

definition std_get_char :: "std_sys \<Rightarrow> int \<times> std_sys" where
  "std_get_char s = (case std_in s of [] \<Rightarrow> (-1, s) | c # cs \<Rightarrow> (c, s\<lparr>std_in := cs\<rparr>))"

definition std_send_char :: "int \<Rightarrow> int \<Rightarrow> std_sys \<Rightarrow> std_sys" where
  "std_send_char fd c s = s\<lparr>std_out := std_out s @ [(fd, c)]\<rparr>"

definition std_echo_bs :: "std_sys \<Rightarrow> std_sys" where
  "std_echo_bs s = std_send_char 1 8 (std_send_char 1 0x20 (std_send_char 1 8 s))"

subsection \<open>Reading\<close>

text \<open>The loop of \<^verbatim>\<open>std_read\<close>: the result, the caller's buffer and the console.\<close>

definition std_read_newline :: "int \<Rightarrow> nat \<Rightarrow> u8 list \<Rightarrow> std_sys \<Rightarrow> int \<times> u8 list \<times> std_sys" where
  "std_read_newline c i buf s =
     (case std_get_char s of (p, s1) \<Rightarrow>
        (let s2 = s1\<lparr>std_prev_char := (if p + c = 23 then -1 else p)\<rparr>
         in (int i + 1, buf[i := 10], std_send_char 1 (23 - c) s2)))"

function std_read_loop :: "nat \<Rightarrow> nat \<Rightarrow> u8 list \<Rightarrow> std_sys \<Rightarrow> int \<times> u8 list \<times> std_sys" where
  "std_read_loop len i buf s =
     (if i < len then
        (if std_prev_char s \<noteq> -1
         then std_read_loop len (i + 1) (buf[i := of_int (std_prev_char s)]) (s\<lparr>std_prev_char := -1\<rparr>)
         else (case std_in s of
                 [] \<Rightarrow> (int i, buf, s)
               | c # cs \<Rightarrow>
                   (let s1 = s\<lparr>std_in := cs\<rparr>
                    in if c = -1 then (int i, buf, s1)
                       else if c = 8 \<or> c = 0x7F
                       then (if i > 0 then std_read_loop len (i - 1) buf (std_echo_bs s1)
                             else std_read_loop len i buf s1)
                       else if \<not> c_isprint c \<and> c \<noteq> 10 \<and> c \<noteq> 13 \<and> c \<noteq> STD_CTRLZ_CODE then std_read_loop len i buf s1
                       else if c = STD_CTRLZ_CODE then (0, buf, s1)
                       else (let s2 = std_send_char 1 c s1
                             in if c = 13 \<or> c = 10 then std_read_newline c i buf s2
                                else std_read_loop len (i + 1) (buf[i := of_int c]) s2))))
      else (int i, buf, s))"
  by pat_completeness auto
termination
  by (relation "measures [\<lambda>(len, i, buf, s). length (std_in s), \<lambda>(len, i, buf, s). of_bool (std_prev_char s \<noteq> -1)]")
    (auto simp: std_echo_bs_def std_send_char_def)

declare std_read_loop.simps [simp del]

text \<open>\<open>ready\<close>: both functions are installed. The error number and -1, or what the loop gives.\<close>

definition std_read :: "bool \<Rightarrow> int \<Rightarrow> nat \<Rightarrow> u8 list \<Rightarrow> std_sys \<Rightarrow> int + (int \<times> u8 list \<times> std_sys)" where
  "std_read ready fd len buf s =
     (if \<not> ready then Inl STD_EBADF
      else if fd < 0 \<or> fd > 2 then Inl STD_EBADF
      else if fd \<noteq> 0 then Inl STD_EINVAL
      else Inr (std_read_loop len 0 buf s))"

subsection \<open>Writing\<close>

primrec std_write_loop :: "int \<Rightarrow> u8 list \<Rightarrow> std_sys \<Rightarrow> std_sys" where
  "std_write_loop fd [] s = s"
| "std_write_loop fd (c # cs) s =
     std_write_loop fd cs (std_send_char fd (uint c) (if c = 10 then std_send_char fd 13 s else s))"

definition std_write :: "bool \<Rightarrow> int \<Rightarrow> u8 list \<Rightarrow> std_sys \<Rightarrow> int + (int \<times> std_sys)" where
  "std_write ready fd bytes s =
     (if \<not> ready then Inl STD_EBADF
      else if fd < 0 \<or> fd > 2 then Inl STD_EBADF
      else if fd \<noteq> 1 \<and> fd \<noteq> 2 then Inl STD_EINVAL
      else Inr (int (length bytes), std_write_loop fd bytes s))"

subsection \<open>The ideal line editor\<close>

text \<open>What a typed character does to the line.\<close>

definition edit_key :: "int \<Rightarrow> u8 list \<Rightarrow> u8 list" where
  "edit_key c l = (if c = 8 \<or> c = 0x7F then butlast l else if c_isprint c then l @ [of_int c] else l)"

definition is_key :: "int \<Rightarrow> bool" where
  "is_key c \<longleftrightarrow> c \<noteq> -1 \<and> c \<noteq> 10 \<and> c \<noteq> 13 \<and> c \<noteq> STD_CTRLZ_CODE"

text \<open>The line stays below \<open>n\<close> characters all the time.\<close>

fun line_fits :: "nat \<Rightarrow> int list \<Rightarrow> u8 list \<Rightarrow> bool" where
  "line_fits n [] l = (length l < n)"
| "line_fits n (c # cs) l = (length l < n \<and> line_fits n cs (edit_key c l))"

lemma std_read_keys:
  assumes "line_fits len cs l" "\<forall>c \<in> set cs. is_key c" "std_prev_char s = -1" "std_in s = cs @ rest"
    and "take (length l) buf = l" "len \<le> length buf" "length l \<le> length buf"
  shows "\<exists>buf' s'. std_read_loop len (length l) buf s = std_read_loop len (length (fold edit_key cs l)) buf' s' \<and>
    std_prev_char s' = -1 \<and> std_in s' = rest \<and> length buf' = length buf \<and>
    take (length (fold edit_key cs l)) buf' = fold edit_key cs l \<and> length (fold edit_key cs l) < len \<and>
    (\<exists>e. std_out s' = std_out s @ map (Pair 1) e)"
  using assms
proof (induction cs arbitrary: l buf s)
  case Nil
  then show ?case by (intro exI [of _ buf] exI [of _ s]) simp
next
  case (Cons c cs)
  let ?s1 = "s\<lparr>std_in := cs @ rest\<rparr>"
  have len: "length l < len" and fit: "line_fits len cs (edit_key c l)" and key: "is_key c"
    using Cons.prems(1,2) by simp_all
  note step = std_read_loop.simps [of len "length l" buf s]
  consider (bs) "c = 8 \<or> c = 0x7F" "l \<noteq> []" | (nobs) "c = 8 \<or> c = 0x7F" "l = []"
    | (print) "c_isprint c" "c \<noteq> 0x7F" | (other) "\<not> c_isprint c" "c \<noteq> 8" "c \<noteq> 0x7F"
    by (cases "c = 8 \<or> c = 0x7F"; cases "l = []"; cases "c_isprint c") auto
  then obtain buf1 s1 e1 where 1: "std_read_loop len (length l) buf s = std_read_loop len (length (edit_key c l)) buf1 s1"
    "std_prev_char s1 = -1" "std_in s1 = cs @ rest" "length buf1 = length buf"
    "take (length (edit_key c l)) buf1 = edit_key c l" "std_out s1 = std_out s @ map (Pair 1) e1"
  proof cases
    case bs
    then have "take (length l - 1) buf = butlast l" "length (butlast l) = length l - 1"
      using Cons.prems(5,7) take_take [of "length l - 1" "length l" buf] by (simp_all add: butlast_conv_take)
    then show ?thesis
      using that [of buf "std_echo_bs ?s1" "[8, 0x20, 8]"] bs Cons.prems(3-5) len step
      by (auto simp: edit_key_def std_echo_bs_def std_send_char_def Let_def)
  next
    case nobs
    then show ?thesis using that [of buf ?s1 "[]"] Cons.prems(3,4) len step by (auto simp: edit_key_def Let_def)
  next
    case print
    then have "c \<noteq> 8" by (auto simp: c_isprint_def)
    then show ?thesis
      using that [of "buf[length l := of_int c]" "std_send_char 1 c ?s1" "[c]"] print key Cons.prems(3-7) len step
      by (auto simp: edit_key_def std_send_char_def Let_def is_key_def take_Suc_conv_app_nth)
  next
    case other
    then show ?thesis using that [of buf ?s1 "[]"] key Cons.prems(3-5) len step
      by (auto simp: edit_key_def Let_def is_key_def)
  qed
  have "length (edit_key c l) \<le> length buf1"
    using 1(4) len Cons.prems(6) by (auto simp: edit_key_def)
  then obtain buf2 s2 e2 where 2: "std_read_loop len (length (edit_key c l)) buf1 s1 =
      std_read_loop len (length (fold edit_key cs (edit_key c l))) buf2 s2" "std_prev_char s2 = -1" "std_in s2 = rest"
      "length buf2 = length buf1" "take (length (fold edit_key cs (edit_key c l))) buf2 = fold edit_key cs (edit_key c l)"
      "length (fold edit_key cs (edit_key c l)) < len" "std_out s2 = std_out s1 @ map (Pair 1) e2"
    using Cons.IH [OF fit _ 1(2,3,5)] Cons.prems(2,6) 1(4) by auto
  then show ?case using 1
    by (intro exI [of _ buf2] exI [of _ s2]) (auto intro: exI [of _ "e1 @ e2"])
qed

lemma std_read_newline_step:
  assumes "i < len" "std_prev_char s = -1" "std_in s = c # cs" "c = 10 \<or> c = 13"
  shows "std_read_loop len i buf s = std_read_newline c i buf (std_send_char 1 c (s\<lparr>std_in := cs\<rparr>))"
  using assms std_read_loop.simps [of len i buf s] by (auto simp: Let_def c_isprint_def)

text \<open>C25. A line typed on the console is read as an ideal line editor leaves it: with no character
  pending, any keys (printable ones, backspaces, control characters to be ignored) followed by a
  carriage return or a line feed, the line always below the caller's length, give the edited
  line and a line feed in the buffer, its length as the result, and the rest of the input
  unread; the second half of a CR LF or LF CR pair is swallowed.\<close>

theorem std_read_edits_line:
  assumes "line_fits len keys []" "\<forall>c \<in> set keys. is_key c" "c = 10 \<or> c = 13" "len \<le> length buf"
    and "std_prev_char s = -1" "std_in s = keys @ c # (if pair then (23 - c) # rest else (-1) # rest)"
  shows "\<exists>buf' s'. std_read True 0 len buf s = Inr (int (length (fold edit_key keys [])) + 1, buf', s') \<and>
    take (length (fold edit_key keys []) + 1) buf' = fold edit_key keys [] @ [10] \<and> length buf' = length buf \<and>
    std_prev_char s' = -1 \<and> std_in s' = rest \<and> (\<exists>e. std_out s' = std_out s @ map (Pair 1) e)"
proof -
  obtain buf1 s1 e where 1: "std_read_loop len 0 buf s = std_read_loop len (length (fold edit_key keys [])) buf1 s1"
    "std_prev_char s1 = -1" "std_in s1 = c # (if pair then (23 - c) # rest else (-1) # rest)" "length buf1 = length buf"
    "take (length (fold edit_key keys [])) buf1 = fold edit_key keys []" "length (fold edit_key keys []) < len"
    "std_out s1 = std_out s @ map (Pair 1) e"
    using std_read_keys [OF assms(1,2,5,6), of buf] assms(4) by simp metis
  let ?n = "length (fold edit_key keys [])"
  note nl = std_read_newline_step [OF 1(6,2,3) assms(3)]
  have "take (?n + 1) (buf1[?n := 10]) = fold edit_key keys [] @ [10]"
    using 1(4-6) assms(4) by (simp add: take_Suc_conv_app_nth)
  then show ?thesis
    using 1 assms(3) nl
    by (auto simp: std_read_def std_read_newline_def std_get_char_def std_send_char_def Let_def
        intro!: exI [of _ "e @ [c, 23 - c]"])
qed

theorem std_read_edits_line_witness:
  "\<exists>buf' s'. std_read True 0 8 [0, 0, 0, 0, 0, 0, 0, 0] \<lparr>std_prev_char = -1, std_in = [97, 98, 8, 1, 99, 13, 10, 120], std_out = []\<rparr> =
     Inr (3, buf', s') \<and> take 3 buf' = [97, 99, 10] \<and> std_in s' = [120]"
proof -
  have "fold edit_key [97, 98, 8, 1, 99] [] = [97, 99]"
    by (simp add: edit_key_def c_isprint_def)
  moreover have "line_fits 8 [97, 98, 8, 1, 99] []"
    by (simp add: edit_key_def c_isprint_def)
  ultimately show ?thesis
    using std_read_edits_line [of 8 "[97, 98, 8, 1, 99]" 13 "[0, 0, 0, 0, 0, 0, 0, 0]"
        "\<lparr>std_prev_char = -1, std_in = [97, 98, 8, 1, 99, 13, 10, 120], std_out = []\<rparr>" True "[120]"]
    by (auto simp: is_key_def eval_nat_numeral)
qed

end
