(* ===== verification/Salloc.thy ===== *)
theory Salloc
  imports Elua_Memory
begin

unbundle bit_operations_syntax

text \<open>
  The simple allocator \<^verbatim>\<open>src/salloc.c\<close>: every memory region holds a doubly linked list of blocks in
  address order, between two guard blocks that count as taken. A block starts with two words, the
  addresses of the next and the previous block divided by eight; the top bit of the first word
  says that the block is taken. Addresses are natural numbers below 2^32 (the C pointer
  arithmetic does not wrap), sizes are 32 bit words; memory is byte-addressed and little-endian.

  A walk along the links is a \<^verbatim>\<open>partial_function\<close>: \<open>None\<close> is a walk that does not end.
\<close>

abbreviation DYN_HEADER_SIZE :: u32 where "DYN_HEADER_SIZE \<equiv> 8"
abbreviation DYN_MIN_SPLIT_SIZE :: u32 where "DYN_MIN_SPLIT_SIZE \<equiv> 16"

definition load_u32 :: "mem \<Rightarrow> nat \<Rightarrow> u32" where
  "load_u32 m a = ucast (m a) OR push_bit 8 (ucast (m (a + 1)))
     OR push_bit 16 (ucast (m (a + 2))) OR push_bit 24 (ucast (m (a + 3)))"

definition store_u32 :: "mem \<Rightarrow> nat \<Rightarrow> u32 \<Rightarrow> mem" where
  "store_u32 m a v = mem_store m a [ucast v, ucast (drop_bit 8 v), ucast (drop_bit 16 v), ucast (drop_bit 24 v)]"

subsection \<open>Blocks\<close>

definition s_act_size :: "u32 \<Rightarrow> u32" where
  "s_act_size sz = (if sz AND 7 \<noteq> 0 then push_bit 3 (drop_bit 3 sz + 1) else sz)"

definition s_get_next_block :: "mem \<Rightarrow> nat \<Rightarrow> nat" where
  "s_get_next_block m ptr = unat (push_bit 3 (load_u32 m ptr AND 0x7FFFFFFF))"

definition s_set_next_block :: "mem \<Rightarrow> nat \<Rightarrow> nat \<Rightarrow> mem" where
  "s_set_next_block m ptr nxt = store_u32 m ptr ((load_u32 m ptr AND 0x80000000) OR drop_bit 3 (of_nat nxt))"

definition s_get_prev_block :: "mem \<Rightarrow> nat \<Rightarrow> nat" where
  "s_get_prev_block m ptr = unat (push_bit 3 (load_u32 m (ptr + 4) AND 0x7FFFFFFF))"

definition s_set_prev_block :: "mem \<Rightarrow> nat \<Rightarrow> nat \<Rightarrow> mem" where
  "s_set_prev_block m ptr prv = store_u32 m (ptr + 4) ((load_u32 m (ptr + 4) AND 0x80000000) OR drop_bit 3 (of_nat prv))"

definition s_get_block_size :: "mem \<Rightarrow> nat \<Rightarrow> u32" where
  "s_get_block_size m ptr = (let nxt = s_get_next_block m ptr in if nxt \<noteq> 0 then of_nat nxt - of_nat ptr else 0)"

definition s_mark_block_taken :: "mem \<Rightarrow> nat \<Rightarrow> mem" where
  "s_mark_block_taken m p = store_u32 m p (load_u32 m p OR 0x80000000)"

definition s_mark_block_free :: "mem \<Rightarrow> nat \<Rightarrow> mem" where
  "s_mark_block_free m p = store_u32 m p (load_u32 m p AND 0x7FFFFFFF)"

definition s_is_block_free :: "mem \<Rightarrow> nat \<Rightarrow> bool" where
  "s_is_block_free m p \<longleftrightarrow> load_u32 m p AND 0x80000000 = 0"

definition s_create_new_block :: "mem \<Rightarrow> nat \<Rightarrow> nat \<Rightarrow> nat \<Rightarrow> mem" where
  "s_create_new_block m p nxt prv = store_u32 (store_u32 m p (drop_bit 3 (of_nat nxt))) (p + 4) (drop_bit 3 (of_nat prv))"

text \<open>The two walks of \<^verbatim>\<open>s_compact_free\<close>.\<close>

partial_function (option) s_back :: "mem \<Rightarrow> nat \<Rightarrow> nat option" where
  "s_back m p = (if s_is_block_free m p then s_back m (s_get_prev_block m p) else Some p)"

partial_function (option) s_fwd :: "mem \<Rightarrow> nat \<Rightarrow> nat option" where
  "s_fwd m p = (if s_is_block_free m p then s_fwd m (s_get_next_block m p) else Some p)"

definition s_compact_free :: "mem \<Rightarrow> nat \<Rightarrow> mem option" where
  "s_compact_free m ptr =
     (let m1 = s_mark_block_free m ptr in
      Option.bind (s_back m1 ptr) (\<lambda>t. let temp1 = s_get_next_block m1 t in
      Option.bind (s_fwd m1 ptr) (\<lambda>temp2.
        if temp1 \<noteq> ptr \<or> s_get_prev_block m1 temp2 \<noteq> ptr
        then Some (s_set_prev_block (s_set_next_block m1 temp1 temp2) temp2 temp1)
        else Some m1)))"

text \<open>Best fit: the walk over a region's blocks, and the block cut to its size with the rest freed.\<close>

partial_function (option) s_best :: "mem \<Rightarrow> u32 \<Rightarrow> nat \<Rightarrow> nat \<times> u32 \<Rightarrow> (nat \<times> u32) option" where
  "s_best m sz temp pm =
     (if temp = 0 then Some pm
      else s_best m sz (s_get_next_block m temp)
        (if s_is_block_free m temp \<and> sz \<le> s_get_block_size m temp \<and> s_get_block_size m temp < snd pm
         then (temp, s_get_block_size m temp) else pm))"

definition s_split :: "mem \<Rightarrow> nat \<Rightarrow> u32 \<Rightarrow> mem option" where
  "s_split m pblock sz =
     (let temp = pblock + unat sz; nxt = s_get_next_block m pblock;
          m1 = s_set_prev_block m temp pblock;
          m2 = s_set_next_block m1 temp nxt;
          m3 = s_set_prev_block m2 nxt temp;
          m4 = s_set_next_block m3 pblock temp
      in s_compact_free m4 temp)"

definition s_get_free_block :: "u32 \<Rightarrow> nat \<Rightarrow> mem \<Rightarrow> (nat \<times> mem) option" where
  "s_get_free_block sz0 pstart m =
     (if sz0 = 0 then Some (0, m)
      else
        (let sz = s_act_size (sz0 + DYN_HEADER_SIZE) in
         Option.bind (s_best m sz (s_get_next_block m pstart) (0, -1)) (\<lambda>(pblock, minsize).
           if pblock = 0 then Some (0, m)
           else
             (let m1 = s_mark_block_taken m pblock in
              if minsize > sz \<and> minsize - sz \<ge> DYN_MIN_SPLIT_SIZE
              then map_option (Pair (pblock + 8)) (s_split m1 pblock sz)
              else Some (pblock + 8, m1)))))"

definition s_free_block :: "nat \<Rightarrow> mem \<Rightarrow> mem option" where
  "s_free_block ptr m = s_compact_free m (ptr - 8)"

definition s_get_actual_block_size :: "mem \<Rightarrow> nat \<Rightarrow> u32" where
  "s_get_actual_block_size m ptr = s_get_block_size m (ptr - 8) - DYN_HEADER_SIZE"

definition s_shrink_block :: "nat \<Rightarrow> u32 \<Rightarrow> mem \<Rightarrow> mem option" where
  "s_shrink_block ptr sz0 m =
     (let pblock = ptr - 8; sz = s_act_size (sz0 + DYN_HEADER_SIZE) in
      if sz \<ge> s_get_block_size m pblock \<or> s_get_block_size m pblock - sz < DYN_MIN_SPLIT_SIZE then Some m
      else s_split m pblock sz)"

subsection \<open>The allocator\<close>

record salloc =
  s_initialized :: bool
  s_mem :: mem

definition s_init_region :: "u32 list \<Rightarrow> u32 list \<Rightarrow> nat \<Rightarrow> mem \<Rightarrow> mem" where
  "s_init_region mstart mend i m =
     (let pstart = platform_get_first_free_ram mstart i;
          memspace = platform_get_last_free_ram mend i - pstart;
          g1 = unat pstart; crt = g1 + 8; g2 = unat (pstart + memspace - 8);
          m1 = s_create_new_block m g1 crt 0;
          m2 = s_create_new_block m1 crt g2 g1;
          m3 = s_create_new_block m2 g2 0 crt
      in s_mark_block_free (s_mark_block_taken (s_mark_block_taken m3 g1) g2) crt)"

function s_init_loop :: "u32 list \<Rightarrow> u32 list \<Rightarrow> nat \<Rightarrow> mem \<Rightarrow> mem" where
  "s_init_loop mstart mend i m =
     (if platform_get_first_free_ram mstart i = 0 then m
      else s_init_loop mstart mend (i + 1) (s_init_region mstart mend i m))"
  by pat_completeness auto
termination
  by (relation "measure (\<lambda>(mstart, mend, i, m). length mstart - i)")
    (auto simp: platform_get_first_free_ram_def split: if_splits)

definition s_init :: "u32 list \<Rightarrow> u32 list \<Rightarrow> salloc \<Rightarrow> salloc" where
  "s_init mstart mend st = \<lparr>s_initialized = True, s_mem = s_init_loop mstart mend 0 (s_mem st)\<rparr>"

function smalloc_loop :: "u32 list \<Rightarrow> u32 \<Rightarrow> nat \<Rightarrow> mem \<Rightarrow> (nat \<times> mem) option" where
  "smalloc_loop mstart sz i m =
     (let pstart = platform_get_first_free_ram mstart i in
      if pstart = 0 then Some (0, m)
      else (case s_get_free_block sz (unat pstart) m of
              None \<Rightarrow> None
            | Some (ptr, m') \<Rightarrow> if ptr \<noteq> 0 then Some (ptr, m') else smalloc_loop mstart sz (i + 1) m'))"
  by pat_completeness auto
termination
  by (relation "measure (\<lambda>(mstart, sz, i, m). length mstart - i)")
    (auto simp: platform_get_first_free_ram_def split: if_splits)

declare s_init_loop.simps [simp del] smalloc_loop.simps [simp del]

definition smalloc :: "u32 list \<Rightarrow> u32 list \<Rightarrow> u32 \<Rightarrow> salloc \<Rightarrow> (nat \<times> salloc) option" where
  "smalloc mstart mend sz st0 =
     (let st = (if s_initialized st0 then st0 else s_init mstart mend st0)
      in map_option (\<lambda>(p, m). (p, st\<lparr>s_mem := m\<rparr>)) (smalloc_loop mstart sz 0 (s_mem st)))"

definition sfree :: "nat \<Rightarrow> salloc \<Rightarrow> salloc option" where
  "sfree ptr st =
     (if ptr = 0 \<or> \<not> s_initialized st then Some st
      else map_option (\<lambda>m. st\<lparr>s_mem := m\<rparr>) (s_free_block ptr (s_mem st)))"

definition scalloc :: "u32 list \<Rightarrow> u32 list \<Rightarrow> u32 \<Rightarrow> u32 \<Rightarrow> salloc \<Rightarrow> (nat \<times> salloc) option" where
  "scalloc mstart mend nmemb sz st0 =
     (let st = (if s_initialized st0 then st0 else s_init mstart mend st0)
      in map_option (\<lambda>(p, st'). if p \<noteq> 0 then (p, st'\<lparr>s_mem := mem_store (s_mem st') p (replicate (unat (nmemb * sz)) 0)\<rparr>)
             else (p, st')) (smalloc mstart mend (nmemb * sz) st))"

definition srealloc :: "u32 list \<Rightarrow> u32 list \<Rightarrow> nat \<Rightarrow> u32 \<Rightarrow> salloc \<Rightarrow> (nat \<times> salloc) option" where
  "srealloc mstart mend ptr sz st0 =
     (let st = (if s_initialized st0 then st0 else s_init mstart mend st0)
      in if ptr = 0 then smalloc mstart mend sz st
         else if sz = 0 then map_option (Pair 0) (sfree ptr st)
         else if s_get_actual_block_size (s_mem st) ptr = sz then Some (ptr, st)
         else if sz < s_get_actual_block_size (s_mem st) ptr
         then map_option (\<lambda>m. (ptr, st\<lparr>s_mem := m\<rparr>)) (s_shrink_block ptr sz (s_mem st))
         else (case smalloc mstart mend sz st of
                 None \<Rightarrow> None
               | Some (newptr, st1) \<Rightarrow>
                   if newptr = 0 then Some (0, st1)
                   else (let n = unat (s_get_actual_block_size (s_mem st1) ptr);
                             st2 = st1\<lparr>s_mem := mem_store (s_mem st1) newptr (mem_load (s_mem st1) ptr n)\<rparr>
                         in map_option (Pair newptr) (sfree ptr st2))))"

subsection \<open>Headers\<close>

lemma load_store_u32:
  assumes "4 dvd a" "4 dvd b"
  shows "load_u32 (store_u32 m a v) b = (if a = b then v else load_u32 m b)"
proof (cases "a = b")
  case True
  then show ?thesis using u32_assemble [of v]
    by (simp add: load_u32_def store_u32_def mem_store_def)
next
  case False
  then have "a + 4 \<le> b \<or> b + 4 \<le> a" using assms by (auto simp: dvd_def)
  then show ?thesis using False by (auto simp: load_u32_def store_u32_def mem_store_def)
qed

lemma link_words:
  fixes w n :: u32
  shows "push_bit 3 (((w AND 0x80000000) OR drop_bit 3 n) AND 0x7FFFFFFF) = n AND NOT 7"
    and "((w AND 0x80000000) OR drop_bit 3 n) AND 0x80000000 = 0 \<longleftrightarrow> w AND 0x80000000 = 0"
    and "push_bit 3 ((w OR 0x80000000) AND 0x7FFFFFFF) = push_bit 3 (w AND 0x7FFFFFFF)"
    and "(w OR 0x80000000) AND 0x80000000 \<noteq> 0"
    and "push_bit 3 ((w AND 0x7FFFFFFF) AND 0x7FFFFFFF) = push_bit 3 (w AND 0x7FFFFFFF)"
    and "(w AND 0x7FFFFFFF) AND 0x80000000 = 0"
    and "push_bit 3 (drop_bit 3 n AND 0x7FFFFFFF) = n AND NOT 7"
    and "drop_bit 3 n AND 0x80000000 = 0"
proof -
  define h l :: u32 where "h = 0x80000000" and "l = 0x7FFFFFFF"
  have "h = push_bit 31 1" "l = mask 31" "7 = (mask 3 :: u32)"
    by (simp_all add: h_def l_def mask_eq_exp_minus_1)
  then have b: "bit h k \<longleftrightarrow> k = 31" "bit l k \<longleftrightarrow> k < 31" "bit (NOT 7 :: u32) k \<longleftrightarrow> 3 \<le> k \<and> k < 32" for k
    by (auto simp only: bit_push_bit_iff bit_1_iff bit_mask_iff bit_not_iff) auto
  have z: "v AND h = 0 \<longleftrightarrow> \<not> bit v 31" for v :: u32
  proof
    assume "v AND h = 0"
    then have "\<not> bit (v AND h) 31" by simp
    then show "\<not> bit v 31" by (simp add: bit_and_iff b)
  next
    assume "\<not> bit v 31"
    then show "v AND h = 0" by (intro bit_word_eqI) (auto simp: bit_and_iff b)
  qed
  show "push_bit 3 (((w AND 0x80000000) OR drop_bit 3 n) AND 0x7FFFFFFF) = n AND NOT 7"
    "push_bit 3 (drop_bit 3 n AND 0x7FFFFFFF) = n AND NOT 7"
    "push_bit 3 ((w OR 0x80000000) AND 0x7FFFFFFF) = push_bit 3 (w AND 0x7FFFFFFF)"
    "push_bit 3 ((w AND 0x7FFFFFFF) AND 0x7FFFFFFF) = push_bit 3 (w AND 0x7FFFFFFF)"
    unfolding h_def [symmetric] l_def [symmetric]
    by (intro bit_word_eqI; auto simp only: bit_push_bit_iff bit_and_iff bit_or_iff bit_drop_bit_eq comp_def b; auto)+
  show "((w AND 0x80000000) OR drop_bit 3 n) AND 0x80000000 = 0 \<longleftrightarrow> w AND 0x80000000 = 0"
    "(w OR 0x80000000) AND 0x80000000 \<noteq> 0" "(w AND 0x7FFFFFFF) AND 0x80000000 = 0" "drop_bit 3 n AND 0x80000000 = 0"
    unfolding h_def [symmetric] l_def [symmetric] z by (auto simp: bit_simps b dest: bit_imp_le_length)
qed

lemma aligned_addr: "8 dvd n \<Longrightarrow> n < 4294967296 \<Longrightarrow> unat ((of_nat n :: u32) AND NOT 7) = n"
proof -
  assume n: "8 dvd n" "n < 4294967296"
  have "(of_nat n :: u32) AND 7 = 0"
    using n and_7_eq [of "of_nat n"] by (simp add: unat_of_nat_u32 unat_eq_0 dvd_eq_mod_eq_0)
  then show ?thesis using n by (simp only: word_and_not diff_zero unat_of_nat_u32)
qed

text \<open>The address in a link word.\<close>

definition the_link :: "u32 \<Rightarrow> nat" where
  "the_link w = unat (push_bit 3 (w AND 0x7FFFFFFF))"

lemma the_link_simps:
  "8 dvd n \<Longrightarrow> n < 4294967296 \<Longrightarrow> the_link ((w AND 0x80000000) OR drop_bit 3 (of_nat n)) = n"
  "8 dvd n \<Longrightarrow> n < 4294967296 \<Longrightarrow> the_link (drop_bit 3 (of_nat n)) = n"
  "the_link (w OR 0x80000000) = the_link w" "the_link (w AND 0x7FFFFFFF) = the_link w"
  by (simp_all only: the_link_def link_words aligned_addr)

text \<open>What a header shows after each change of a header: these rules carry all block proofs.\<close>

named_theorems header_simps \<open>reading block headers after header updates\<close>

lemma aligned_4: "8 dvd p \<Longrightarrow> 4 dvd p" "8 dvd p \<Longrightarrow> 4 dvd p + 4" for p :: nat
  by presburger+

lemma aligned_neq: "8 dvd p \<Longrightarrow> 8 dvd q \<Longrightarrow> p \<noteq> q + 4" for p q :: nat
  by presburger

lemmas header_defs = s_get_next_block_def [folded the_link_def] s_get_prev_block_def [folded the_link_def] s_is_block_free_def s_set_next_block_def
  s_set_prev_block_def s_mark_block_taken_def s_mark_block_free_def s_create_new_block_def

lemma header_next [header_simps]:
  assumes "8 dvd p" "8 dvd q"
  shows "8 dvd n \<Longrightarrow> n < 4294967296 \<Longrightarrow> s_get_next_block (s_set_next_block m p n) q = (if p = q then n else s_get_next_block m q)"
    and "s_get_next_block (s_set_prev_block m p n) q = s_get_next_block m q"
    and "s_get_next_block (s_mark_block_taken m p) q = s_get_next_block m q"
    and "s_get_next_block (s_mark_block_free m p) q = s_get_next_block m q"
    and "8 dvd n \<Longrightarrow> n < 4294967296 \<Longrightarrow> s_get_next_block (s_create_new_block m p n k) q = (if p = q then n else s_get_next_block m q)"
  using assms aligned_neq [OF assms(2,1)] by (auto simp: header_defs load_store_u32 aligned_4 the_link_simps)

lemma header_prev [header_simps]:
  assumes "8 dvd p" "8 dvd q"
  shows "8 dvd n \<Longrightarrow> n < 4294967296 \<Longrightarrow> s_get_prev_block (s_set_prev_block m p n) q = (if p = q then n else s_get_prev_block m q)"
    and "s_get_prev_block (s_set_next_block m p n) q = s_get_prev_block m q"
    and "s_get_prev_block (s_mark_block_taken m p) q = s_get_prev_block m q"
    and "s_get_prev_block (s_mark_block_free m p) q = s_get_prev_block m q"
    and "8 dvd k \<Longrightarrow> k < 4294967296 \<Longrightarrow> s_get_prev_block (s_create_new_block m p n k) q = (if p = q then k else s_get_prev_block m q)"
  using assms aligned_neq [OF assms] by (auto simp: header_defs load_store_u32 aligned_4 the_link_simps)

lemma header_free [header_simps]:
  assumes "8 dvd p" "8 dvd q"
  shows "s_is_block_free (s_set_next_block m p n) q = s_is_block_free m q"
    and "s_is_block_free (s_set_prev_block m p n) q = s_is_block_free m q"
    and "s_is_block_free (s_mark_block_taken m p) q = (p \<noteq> q \<and> s_is_block_free m q)"
    and "s_is_block_free (s_mark_block_free m p) q = (p = q \<or> s_is_block_free m q)"
    and "s_is_block_free (s_create_new_block m p n k) q = (p = q \<or> s_is_block_free m q)"
  using assms aligned_neq [OF assms(2,1)] by (auto simp: header_defs load_store_u32 aligned_4 link_words(2,4,6,8))

lemma header_other:
  assumes "i < p \<or> p + 8 \<le> i"
  shows "s_set_next_block m p n i = m i" "s_set_prev_block m p n i = m i" "s_mark_block_taken m p i = m i"
    "s_mark_block_free m p i = m i" "s_create_new_block m p n k i = m i"
  using assms by (auto simp: header_defs store_u32_def mem_store_def)

end
