(* ===== verification/Salloc_Heap.thy ===== *)
theory Salloc_Heap
  imports Salloc
begin

text \<open>
  The simple allocator against lists of blocks. A region's memory represents a list of (size,
  taken) pairs in address order; the theory shows what each operation does to that list, that it
  keeps the contents of all other taken blocks, and combines this over the regions to the contract
  of \<^verbatim>\<open>malloc\<close>, \<^verbatim>\<open>free\<close> and \<^verbatim>\<open>realloc\<close>.
\<close>

type_synonym blocks = "(nat \<times> bool) list"

definition span :: "blocks \<Rightarrow> nat" where
  "span bs = sum_list (map fst bs)"

lemma span_simps [simp]: "span [] = 0" "span (b # bs) = fst b + span bs" "span (xs @ ys) = span xs + span ys"
  by (simp_all add: span_def)

text \<open>A stretch of blocks from address \<open>a\<close> whose first block has the predecessor \<open>p\<close>, up to the
  predecessor and the address of what follows; and a stretch that ends in the second guard.\<close>

fun chain :: "mem \<Rightarrow> nat \<Rightarrow> nat \<Rightarrow> blocks \<Rightarrow> nat \<times> nat \<Rightarrow> bool" where
  "chain m p a [] e = (e = (p, a))"
| "chain m p a ((sz, t) # bs) e = (s_get_prev_block m a = p \<and> s_get_next_block m a = a + sz \<and>
     s_is_block_free m a = (\<not> t) \<and> 8 \<le> sz \<and> 8 dvd sz \<and> chain m a (a + sz) bs e)"

fun guarded :: "mem \<Rightarrow> nat \<Rightarrow> nat \<Rightarrow> blocks \<Rightarrow> bool" where
  "guarded m p a [] = (s_get_prev_block m a = p \<and> s_get_next_block m a = 0 \<and> \<not> s_is_block_free m a)"
| "guarded m p a ((sz, t) # bs) = (s_get_prev_block m a = p \<and> s_get_next_block m a = a + sz \<and>
     s_is_block_free m a = (\<not> t) \<and> 8 \<le> sz \<and> 8 dvd sz \<and> guarded m a (a + sz) bs)"

lemma chain_append: "chain m p a (xs @ ys) e \<longleftrightarrow> (\<exists>e1. chain m p a xs e1 \<and> chain m (fst e1) (snd e1) ys e)"
  by (induction m p a xs e rule: chain.induct) auto

lemma guarded_append: "guarded m p a (xs @ ys) \<longleftrightarrow> (\<exists>e. chain m p a xs e \<and> guarded m (fst e) (snd e) ys)"
  by (induction m p a xs rule: guarded.induct) auto

lemma guarded_appendI: "chain m p a xs e \<Longrightarrow> guarded m (fst e) (snd e) ys \<Longrightarrow> guarded m p a (xs @ ys)"
  using guarded_append by blast

lemma chain_end: "chain m p a bs e \<Longrightarrow> snd e = a + span bs"
  by (induction m p a bs e rule: chain.induct) auto

lemma chain_aligned: "chain m p a bs e \<Longrightarrow> 8 dvd a \<Longrightarrow> 8 dvd snd e"
  by (induction m p a bs e rule: chain.induct) auto

lemma guarded_span: "guarded m p a bs \<Longrightarrow> 8 dvd span bs"
  by (induction m p a bs rule: guarded.induct) auto

text \<open>The chain only reads the headers of its blocks.\<close>

definition same_header :: "mem \<Rightarrow> mem \<Rightarrow> nat \<Rightarrow> bool" where
  "same_header m m' x \<longleftrightarrow> s_get_next_block m' x = s_get_next_block m x \<and>
     s_get_prev_block m' x = s_get_prev_block m x \<and> s_is_block_free m' x = s_is_block_free m x"

lemma same_header_mem: "(\<And>i. x \<le> i \<Longrightarrow> i < x + 8 \<Longrightarrow> m' i = m i) \<Longrightarrow> same_header m m' x"
  by (simp add: same_header_def s_get_next_block_def s_get_prev_block_def s_is_block_free_def load_u32_def)

lemma chain_cong:
  "chain m p a bs e \<Longrightarrow> 8 dvd a \<Longrightarrow> (\<And>x. a \<le> x \<Longrightarrow> x < a + span bs \<Longrightarrow> 8 dvd x \<Longrightarrow> same_header m m' x) \<Longrightarrow> chain m' p a bs e"
  by (induction m p a bs e rule: chain.induct) (auto simp: same_header_def)

lemma guarded_cong:
  "guarded m p a bs \<Longrightarrow> 8 dvd a \<Longrightarrow> (\<And>x. a \<le> x \<Longrightarrow> x \<le> a + span bs \<Longrightarrow> 8 dvd x \<Longrightarrow> same_header m m' x) \<Longrightarrow> guarded m' p a bs"
  by (induction m p a bs rule: guarded.induct) (auto simp: same_header_def)

text \<open>Only the predecessor of the first block changes.\<close>

lemma guarded_set_prev:
  assumes "guarded m p a bs" "8 dvd a" "8 dvd q" "q < 4294967296"
  shows "guarded (s_set_prev_block m a q) q a bs"
proof (cases bs)
  case Nil
  then show ?thesis using assms by (simp add: header_simps)
next
  case (Cons b bs')
  obtain sz t where b: "b = (sz, t)" by fastforce
  have "guarded m a (a + sz) bs'" "8 dvd a + sz" "8 \<le> sz" using assms b Cons by auto
  then have "guarded (s_set_prev_block m a q) a (a + sz) bs'"
    using assms(2-4) by (elim guarded_cong) (auto simp: same_header_def header_simps)
  then show ?thesis using assms b Cons by (simp add: header_simps)
qed

subsection \<open>The walks\<close>

lemma s_back_walk:
  assumes "chain m p a ((k, True) # fr) (q, x)" "\<forall>b \<in> set fr. \<not> snd b"
  shows "s_back m q = Some a"
  using assms
proof (induction fr arbitrary: q x rule: rev_induct)
  case Nil
  then show ?case by (simp add: s_back.simps [of m a])
next
  case (snoc b fr)
  obtain sz where b: "b = (sz, False)" using snoc.prems(2) by (cases b) auto
  from snoc.prems(1) b obtain q' where q': "chain m p a ((k, True) # fr) (q', q)" "s_get_prev_block m q = q'" "s_is_block_free m q"
    using chain_append [of m p a "(k, True) # fr" "[b]" "(q, x)"] by auto
  have "s_back m q' = Some a" using snoc.IH [OF q'(1)] snoc.prems(2) by auto
  then show ?case using q' by (simp add: s_back.simps [of m q])
qed

definition taken_head :: "blocks \<Rightarrow> bool" where
  "taken_head bs \<longleftrightarrow> bs = [] \<or> snd (hd bs)"

lemma s_fwd_walk:
  assumes "guarded m p a (fr @ post)" "\<forall>b \<in> set fr. \<not> snd b" "taken_head post"
  shows "s_fwd m a = Some (a + span fr)"
  using assms
proof (induction fr arbitrary: p a)
  case Nil
  then have "\<not> s_is_block_free m a" by (cases post) (auto simp: taken_head_def)
  then show ?case by (simp add: s_fwd.simps [of m a])
next
  case (Cons b fr)
  then obtain sz where b: "b = (sz, False)" by (cases b) auto
  have "s_fwd m (a + sz) = Some (a + sz + span fr)"
    using Cons.IH [of a "a + sz"] Cons.prems b by simp
  then show ?case using Cons.prems b by (simp add: s_fwd.simps [of m a])
qed

subsection \<open>Freeing with coalescing\<close>

lemma guarded_flag:
  assumes "guarded m p a (xs @ (sz, t) # ys)" "8 dvd a"
    and same: "\<And>y. 8 dvd y \<Longrightarrow> s_get_next_block m' y = s_get_next_block m y \<and> s_get_prev_block m' y = s_get_prev_block m y \<and>
      s_is_block_free m' y = (if y = a + span xs then \<not> t' else s_is_block_free m y)"
  shows "guarded m' p a (xs @ (sz, t') # ys)"
proof -
  obtain e where e: "chain m p a xs e" "guarded m (fst e) (snd e) ((sz, t) # ys)"
    using assms(1) guarded_append by blast
  have x: "snd e = a + span xs" "8 dvd a + span xs"
    using e(1) assms(2) chain_end chain_aligned by metis+
  have "chain m' p a xs e"
    by (intro chain_cong [OF e(1) assms(2)]) (simp add: same_header_def same)
  moreover have "guarded m' (snd e) (snd e + sz) ys"
    using x(2) e(2) unfolding x(1) by (auto intro!: guarded_cong [of m] simp: same_header_def same)
  then have "guarded m' (fst e) (snd e) ((sz, t') # ys)"
    using e(2) x by (simp add: same)
  ultimately show ?thesis by (rule guarded_appendI)
qed

lemma guarded_mark_free:
  assumes "guarded m p a (xs @ (sz, t) # ys)" "8 dvd a"
  shows "guarded (s_mark_block_free m (a + span xs)) p a (xs @ (sz, False) # ys)"
proof -
  have "8 dvd a + span xs" using assms guarded_append chain_end chain_aligned by metis
  then show ?thesis by (intro guarded_flag [OF assms]) (auto simp: header_simps)
qed

lemma guarded_mark_taken:
  assumes "guarded m p a (xs @ (sz, t) # ys)" "8 dvd a"
  shows "guarded (s_mark_block_taken m (a + span xs)) p a (xs @ (sz, True) # ys)"
proof -
  have "8 dvd a + span xs" using assms guarded_append chain_end chain_aligned by metis
  then show ?thesis by (intro guarded_flag [OF assms]) (auto simp: header_simps)
qed

lemma chain_last_ge: "chain m p a bs (q, y) \<Longrightarrow> bs \<noteq> [] \<Longrightarrow> a \<le> q"
  by (induction m p a bs "(q, y)" rule: chain.induct) (case_tac bs; fastforce)+

lemma guarded_prev: "guarded m p a bs \<Longrightarrow> s_get_prev_block m a = p"
  by (cases bs) auto

lemma span_free_zero: "chain m p a bs e \<Longrightarrow> span bs = 0 \<Longrightarrow> bs = []"
  by (cases bs) auto

lemma compact_blocks:
  assumes "guarded m p a (pre @ (k, True) # fr1 @ (sz, t) # fr2 @ post)" "8 dvd a"
    and "a + span (pre @ (k, True) # fr1 @ (sz, t) # fr2 @ post) < 4294967296"
    and "\<forall>b \<in> set fr1. \<not> snd b" "\<forall>b \<in> set fr2. \<not> snd b" "taken_head post"
    and x: "x = a + span pre + k + span fr1"
  obtains m' where "s_compact_free m x = Some m'"
    "guarded m' p a (pre @ (k, True) # (span fr1 + sz + span fr2, False) # post)"
    "\<And>i. (i < x - span fr1 \<or> x + 8 \<le> i) \<Longrightarrow> (i < x + sz + span fr2 \<or> x + sz + span fr2 + 8 \<le> i) \<Longrightarrow> m' i = m i"
proof -
  let ?m1 = "s_mark_block_free m x" and ?t = "x - span fr1" and ?y = "x + sz + span fr2"
  have "guarded ?m1 p a (pre @ (k, True) # fr1 @ (sz, False) # fr2 @ post)"
    using guarded_mark_free [of m p a "pre @ (k, True) # fr1" sz t "fr2 @ post"] assms(1,2) x by (simp add: add.assoc)
  then obtain p0 a0 where pre: "chain ?m1 p a pre (p0, a0)" "guarded ?m1 p0 a0 (((k, True) # fr1) @ (sz, False) # fr2 @ post)"
    unfolding guarded_append [of _ _ _ pre] by auto
  obtain q x' where "chain ?m1 p0 a0 ((k, True) # fr1) (q, x')" "guarded ?m1 q x' (((sz, False) # fr2) @ post)"
    using pre(2) guarded_append [of ?m1 p0 a0 "(k, True) # fr1"] by auto
  moreover have a0: "a0 = a + span pre" using chain_end [OF pre(1)] by simp
  moreover have "x' = x" using chain_end [of ?m1 p0 a0 "(k, True) # fr1" "(q, x')"] calculation x by simp
  ultimately have mid: "chain ?m1 p0 a0 ((k, True) # fr1) (q, x)" "guarded ?m1 q x (((sz, False) # fr2) @ post)"
    by simp_all
  then obtain r where rest: "chain ?m1 x (x + sz) fr2 (r, ?y)" "guarded ?m1 r ?y post" "8 \<le> sz" "8 dvd sz"
    using guarded_append [of ?m1 x "x + sz" fr2 post] chain_end [of ?m1 x "x + sz" fr2] by auto
  have al: "8 dvd a0" "8 dvd x" "8 dvd ?t" "8 dvd ?y" "?t = a0 + k" "8 \<le> k"
    using chain_aligned [OF pre(1) assms(2)] chain_aligned [OF mid(1)] chain_aligned [OF rest(1)] mid(1) rest a0 x by auto
  have bound: "?t < 4294967296" "?y < 4294967296"
    using assms(3) x by auto
  have bwd: "s_back ?m1 x = Some a0"
    using s_back_walk [OF mid(1) assms(4)] mid(2) by (simp add: s_back.simps [of ?m1 x])
  have temp1: "s_get_next_block ?m1 a0 = ?t" using mid(1) al by simp
  have fwd: "s_fwd ?m1 x = Some ?y" using s_fwd_walk [OF mid(2) _ assms(6)] assms(5) by (simp add: add.assoc)
  have head: "s_get_prev_block ?m1 ?t = a0" "s_is_block_free ?m1 ?t"
    using mid al(5) assms(4) by (cases fr1; auto)+
  have prev_y: "s_get_prev_block ?m1 ?y = r" using guarded_prev [OF rest(2)] .
  show ?thesis
  proof (cases "?t \<noteq> x \<or> r \<noteq> x")
    case False
    then have "fr1 = []" using span_free_zero [of ?m1 a0 "a0 + k" fr1 "(q, x)"] mid(1) x by (cases "span fr1 = 0") auto
    moreover have "fr2 = []" using chain_last_ge [OF rest(1)] False rest(3) by (cases fr2) auto
    moreover have "s_compact_free m x = Some ?m1"
      using bwd fwd temp1 prev_y False by (simp add: s_compact_free_def Let_def)
    moreover have "guarded ?m1 p a (pre @ (k, True) # (sz, False) # post)"
      using pre calculation guarded_append by fastforce
    ultimately show ?thesis using that [of ?m1] by (auto simp: header_other)
  next
    case True
    define m' where "m' = s_set_prev_block (s_set_next_block ?m1 ?t ?y) ?y ?t"
    have ne: "?t < ?y" "a0 < ?t" using rest(3) al x by auto
    have "chain m' p a pre (p0, a0)"
      using al ne bound a0 unfolding m'_def
      by (intro chain_cong [OF pre(1) assms(2)]) (auto simp: same_header_def header_simps)
    moreover have "guarded m' ?t ?y post"
    proof -
      have "guarded (s_set_next_block ?m1 ?t ?y) r ?y post"
        using al ne bound by (intro guarded_cong [OF rest(2)]) (auto simp: same_header_def header_simps)
      then show ?thesis unfolding m'_def using al bound by (intro guarded_set_prev)
    qed
    then have "guarded m' a0 (a0 + k) ((span fr1 + sz + span fr2, False) # post)"
      using head al ne bound rest(3,4) x a0 dvd_diff_nat [of 8 ?y ?t]
      by (auto simp: m'_def header_simps add.assoc)
    then have "guarded m' p0 a0 ((k, True) # (span fr1 + sz + span fr2, False) # post)"
      using mid(1) al ne bound by (auto simp: m'_def header_simps)
    ultimately have "guarded m' p a (pre @ (k, True) # (span fr1 + sz + span fr2, False) # post)"
      using guarded_append by fastforce
    moreover have "s_compact_free m x = Some m'"
      using bwd fwd temp1 prev_y True by (simp add: s_compact_free_def Let_def m'_def)
    moreover have "m' i = m i" if "i < ?t \<or> x + 8 \<le> i" "i < ?y \<or> ?y + 8 \<le> i" for i
      using that x by (auto simp: m'_def header_other)
    ultimately show ?thesis using that [of m'] by blast
  qed
qed

subsection \<open>Cutting a taken block\<close>

lemma split_blocks:
  assumes "guarded m p a (pre @ (sz, True) # fr @ post)" "8 dvd a"
    and "a + span (pre @ (sz, True) # fr @ post) < 4294967296"
    and "\<forall>b \<in> set fr. \<not> snd b" "taken_head post" "8 dvd unat n" "8 \<le> unat n" "unat n + 8 \<le> sz"
    and x: "x = a + span pre"
  obtains m' where "s_split m x n = Some m'"
    "guarded m' p a (pre @ (unat n, True) # (sz - unat n + span fr, False) # post)"
    "\<And>i. (i < x \<or> x + 8 \<le> i) \<Longrightarrow> (i < x + unat n \<or> x + unat n + 8 \<le> i) \<Longrightarrow> (i < x + sz \<or> x + sz + 8 \<le> i) \<Longrightarrow>
       (i < x + sz + span fr \<or> x + sz + span fr + 8 \<le> i) \<Longrightarrow> m' i = m i"
proof -
  let ?t = "x + unat n" and ?n = "x + sz"
  obtain e where e: "chain m p a pre e" "guarded m (fst e) (snd e) ((sz, True) # fr @ post)"
    using assms(1) guarded_append by blast
  have x': "snd e = x" "8 dvd x" using chain_end [OF e(1)] chain_aligned [OF e(1) assms(2)] x by simp_all
  have b: "s_get_prev_block m x = fst e" "s_get_next_block m x = ?n" "\<not> s_is_block_free m x" "8 dvd sz" "guarded m x ?n (fr @ post)"
    using e(2) unfolding x'(1) by auto
  have al: "8 dvd ?t" "8 dvd ?n" "x < ?t" "?t < ?n" "x < 4294967296" "?t < 4294967296" "?n < 4294967296"
    using x'(2) b(4) assms(3,6-8) x by auto
  define m2 where "m2 = s_set_next_block (s_set_prev_block m ?t x) ?t ?n"
  define m4 where "m4 = s_set_next_block (s_set_prev_block m2 ?n ?t) x ?t"
  note h = m4_def m2_def header_simps same_header_def
  have "guarded m2 x ?n (fr @ post)"
    using al x'(2) by (intro guarded_cong [OF b(5)]) (auto simp: h)
  then have "guarded (s_set_prev_block m2 ?n ?t) ?t ?n (fr @ post)"
    using al by (intro guarded_set_prev)
  then have "guarded m4 ?t ?n (fr @ post)"
    using al x'(2) by (elim guarded_cong) (auto simp: h)
  then have "guarded m4 (fst e) x ((unat n, True) # (sz - unat n, \<not> s_is_block_free m ?t) # fr @ post)"
    using al x'(2) b assms(6-8) dvd_diff_nat [of 8 sz "unat n"] by (auto simp: h)
  moreover have "chain m4 p a pre e"
    using al x' chain_end [OF e(1)] by (intro chain_cong [OF e(1) assms(2)]) (auto simp: h)
  ultimately have "guarded m4 p a (pre @ (unat n, True) # [] @ (sz - unat n, \<not> s_is_block_free m ?t) # fr @ post)"
    unfolding x'(1) [symmetric] append_Nil by (intro guarded_appendI [of m4 p a pre e])
  then obtain m' where m': "s_compact_free m4 ?t = Some m'"
    "guarded m' p a (pre @ (unat n, True) # (span [] + (sz - unat n) + span fr, False) # post)"
    "\<And>i. (i < ?t - span [] \<or> ?t + 8 \<le> i) \<Longrightarrow> (i < ?t + (sz - unat n) + span fr \<or> ?t + (sz - unat n) + span fr + 8 \<le> i) \<Longrightarrow> m' i = m4 i"
    by (rule compact_blocks [where x = ?t]) (use assms(2-5,8) x in auto)
  have "s_split m x n = Some m'"
    using m'(1) b(2) by (simp add: s_split_def Let_def m4_def m2_def)
  moreover have "m' i = m i" if "i < x \<or> x + 8 \<le> i" "i < ?t \<or> ?t + 8 \<le> i" "i < ?n \<or> ?n + 8 \<le> i"
    "i < ?n + span fr \<or> ?n + span fr + 8 \<le> i" for i
    using that m'(3) [of i] assms(8) by (auto simp: m4_def m2_def header_other)
  ultimately show ?thesis using that [of m'] m'(2) by simp
qed

end
