(* ===== verification/Salloc_Region.thy ===== *)
theory Salloc_Region
  imports Salloc_Heap
begin

text \<open>
  One region of the simple allocator: best fit, allocation, release and shrinking of a block
  inside a region that represents a list of blocks, with what they do to the live blocks.
\<close>

subsection \<open>Sizes\<close>

lemma s_act_size_unat:
  assumes "unat n + 15 < 4294967296"
  shows "unat (s_act_size (n + 8)) = (unat n + 15) div 8 * 8"
proof -
  have n: "unat (n + 8) = unat n + 8" using assms by (simp add: unat_word_ariths)
  have lt: "unat (drop_bit 3 (n + 8)) + 1 < 536870912" if "(n + 8) AND 7 \<noteq> 0"
  proof -
    have "(unat n + 8) mod 8 \<noteq> 0" using that and_7_eq [of "n + 8"] n unat_eq_0 by metis
    then have "(unat n + 8) div 8 + 1 < 536870912" using assms by presburger
    then show ?thesis by (simp add: unat_drop_bit_3 n)
  qed
  show ?thesis
  proof (cases "(n + 8) AND 7 = 0")
    case True
    then have "(unat n + 8) mod 8 = 0" using and_7_eq [of "n + 8"] n by simp
    then have "(unat n + 15) div 8 * 8 = unat n + 8" by presburger
    then show ?thesis using True n by (simp add: s_act_size_def)
  next
    case False
    then have "(unat n + 8) mod 8 \<noteq> 0" using and_7_eq [of "n + 8"] n unat_eq_0 by metis
    then have e: "(unat n + 15) div 8 * 8 = ((unat n + 8) div 8 + 1) * 8" by presburger
    have "unat (drop_bit 3 (n + 8) + 1) = (unat n + 8) div 8 + 1"
      using lt [OF False] n by (simp add: unat_word_ariths unat_drop_bit_3)
    then have "unat (push_bit 3 (drop_bit 3 (n + 8) + 1)) = ((unat n + 8) div 8 + 1) * 8"
      using lt [OF False] n unat_drop_bit_3 [of "n + 8"] unfolding unsigned_push_bit_eq
      by (simp add: push_bit_eq_mult take_bit_nat_eq_self)
    then show ?thesis using False e by (simp add: s_act_size_def)
  qed
qed

lemma block_size_guarded:
  assumes "guarded m p a ((sz, t) # bs)" "0 < a" "a + sz < 4294967296"
  shows "s_get_block_size m a = of_nat sz"
  using assms by (simp add: s_get_block_size_def)

subsection \<open>Best fit\<close>

fun best :: "nat \<Rightarrow> nat \<Rightarrow> blocks \<Rightarrow> nat \<times> nat \<Rightarrow> nat \<times> nat" where
  "best n a [] pm = pm"
| "best n a ((sz, t) # bs) pm = best n (a + sz) bs (if \<not> t \<and> n \<le> sz \<and> sz < snd pm then (a, sz) else pm)"

lemma s_best_spec:
  assumes "guarded m p a bs" "0 < a" "a + span bs < 4294967296" "snd pm < 4294967296"
  shows "s_best m n a (fst pm, of_nat (snd pm)) = Some (map_prod id of_nat (best (unat n) a bs pm))"
  using assms
proof (induction bs arbitrary: p a pm)
  case Nil
  then show ?case by (simp add: s_best.simps [of m n a] s_best.simps [of m n 0] map_prod_def split: prod.split)
next
  case (Cons b bs)
  obtain sz t where b: "b = (sz, t)" by fastforce
  have sz: "s_get_block_size m a = of_nat sz" "sz < 4294967296"
    using block_size_guarded [of m p a sz t bs] Cons.prems b by simp_all
  have cmp: "(n \<le> of_nat sz) = (unat n \<le> sz)" "((of_nat sz :: u32) < of_nat (snd pm)) = (sz < snd pm)"
    using sz(2) Cons.prems(4) by (simp_all add: word_le_nat_alt word_less_nat_alt unat_of_nat_u32)
  have nx: "s_get_next_block m a = a + sz" "s_is_block_free m a = (\<not> t)" "guarded m a (a + sz) bs"
    using Cons.prems(1) b by simp_all
  let ?pm = "if \<not> t \<and> unat n \<le> sz \<and> sz < snd pm then (a, sz) else pm"
  have "s_best m n a (fst pm, of_nat (snd pm)) = s_best m n (a + sz) (fst ?pm, of_nat (snd ?pm))"
    using Cons.prems(2) nx sz(1) cmp by (simp add: s_best.simps [of m n a])
  also have "\<dots> = Some (map_prod id of_nat (best (unat n) (a + sz) bs ?pm))"
    using Cons.IH [OF nx(3), of ?pm] Cons.prems sz(2) b by (simp add: id_def)
  finally show ?case using b by (simp add: id_def)
qed

lemma best_spec:
  assumes "best n a bs (pb, mn) = (pb', mn')"
  shows "((pb', mn') = (pb, mn) \<or> (\<exists>xs ys. bs = xs @ (mn', False) # ys \<and> pb' = a + span xs \<and> n \<le> mn')) \<and>
    mn' \<le> mn \<and> (\<forall>sz. (sz, False) \<in> set bs \<longrightarrow> n \<le> sz \<longrightarrow> mn' \<le> sz)"
  using assms
proof (induction bs arbitrary: a pb mn)
  case (Cons b bs)
  obtain sz t where b: "b = (sz, t)" by fastforce
  define pm where "pm = (if \<not> t \<and> n \<le> sz \<and> sz < mn then (a, sz) else (pb, mn))"
  have IH: "((pb', mn') = pm \<or> (\<exists>xs ys. bs = xs @ (mn', False) # ys \<and> pb' = a + sz + span xs \<and> n \<le> mn')) \<and>
    mn' \<le> snd pm \<and> (\<forall>sz. (sz, False) \<in> set bs \<longrightarrow> n \<le> sz \<longrightarrow> mn' \<le> sz)"
    using Cons.IH [of "a + sz" "fst pm" "snd pm"] Cons.prems b by (simp add: pm_def)
  have step: "\<exists>xs ys. b # bs = xs @ (mn', False) # ys \<and> pb' = a + span xs \<and> n \<le> mn'"
    if "bs = xs @ (mn', False) # ys" "pb' = a + sz + span xs" "n \<le> mn'" for xs ys
    using that b by (intro exI [of _ "b # xs"] exI [of _ ys]) simp
  have fits: "\<exists>xs ys. b # bs = xs @ (sz, False) # ys \<and> a = a + span xs" if "\<not> t"
    using that b by (intro exI [of _ "[]"] exI [of _ bs]) simp
  have all: "\<forall>s. (s, False) \<in> set (b # bs) \<longrightarrow> n \<le> s \<longrightarrow> mn' \<le> s"
    using IH b by (auto simp: pm_def split: if_splits)
  have le: "mn' \<le> mn" using IH by (auto simp: pm_def split: if_splits)
  from IH consider "(pb', mn') = pm" | xs ys where "bs = xs @ (mn', False) # ys" "pb' = a + sz + span xs" "n \<le> mn'"
    by blast
  then show ?case
  proof cases
    case 1
    show ?thesis
    proof (cases "\<not> t \<and> n \<le> sz \<and> sz < mn")
      case True
      then show ?thesis using 1 fits all le by (simp add: pm_def)
    next
      case False
      then have "pm = (pb, mn)" by (simp only: pm_def if_False)
      then show ?thesis using 1 all le by blast
    qed
  next
    case 2
    then show ?thesis using step all le by blast
  qed
qed simp

subsection \<open>Regions and their live blocks\<close>

text \<open>The addresses and sizes of the data parts of the taken blocks.\<close>

fun lives :: "nat \<Rightarrow> blocks \<Rightarrow> (nat \<times> nat) set" where
  "lives a [] = {}"
| "lives a ((sz, t) # bs) = (if t then {(a + 8, sz - 8)} else {}) \<union> lives (a + sz) bs"

lemma lives_append [simp]: "lives a (xs @ ys) = lives a xs \<union> lives (a + span xs) ys"
  by (induction a xs rule: lives.induct) (auto simp: add.assoc)

lemma lives_free: "\<forall>b \<in> set bs. \<not> snd b \<Longrightarrow> lives a bs = {}"
  by (induction a bs rule: lives.induct) auto

definition sizes_ok :: "blocks \<Rightarrow> bool" where
  "sizes_ok bs \<longleftrightarrow> (\<forall>b \<in> set bs. 8 \<le> fst b \<and> 8 dvd fst b)"

lemma guarded_sizes: "guarded m p a bs \<Longrightarrow> sizes_ok bs"
  by (induction m p a bs rule: guarded.induct) (auto simp: sizes_ok_def)

lemma lives_range: "(q, j) \<in> lives a bs \<Longrightarrow> sizes_ok bs \<Longrightarrow> a + 8 \<le> q \<and> q + j \<le> a + span bs"
  by (induction a bs rule: lives.induct) (fastforce simp: sizes_ok_def split: if_splits)+

lemma lives_in: "(q, j) \<in> lives a bs \<Longrightarrow> \<exists>xs sz ys. bs = xs @ (sz, True) # ys \<and> q = a + span xs + 8 \<and> j = sz - 8"
proof (induction a bs rule: lives.induct)
  case (2 a sz t bs)
  then consider "t" "q = a + 8" "j = sz - 8" | "(q, j) \<in> lives (a + sz) bs" by (auto split: if_splits)
  then show ?case
  proof cases
    case 1
    then show ?thesis by (intro exI [of _ "[]"]) auto
  next
    case 2
    then obtain xs s ys where "bs = xs @ (s, True) # ys" "q = a + sz + span xs + 8" "j = s - 8"
      using "2.IH" by blast
    then show ?thesis by (intro exI [of _ "(sz, t) # xs"] exI [of _ s] exI [of _ ys]) simp
  qed
qed simp

abbreviation coalesced :: "blocks \<Rightarrow> bool" where
  "coalesced \<equiv> successively (\<lambda>b c. snd b \<or> snd c)"

definition region :: "mem \<Rightarrow> nat \<Rightarrow> blocks \<Rightarrow> bool" where
  "region m a bs \<longleftrightarrow> 8 dvd a \<and> 0 < a \<and> a + span bs + 16 \<le> 4294967296 \<and>
     guarded m 0 a ((8, True) # bs) \<and> coalesced bs"

lemma region_sizes: "region m a bs \<Longrightarrow> sizes_ok bs"
  unfolding region_def using guarded_sizes [of m 0 a "(8, True) # bs"] by (simp add: sizes_ok_def)

lemma region_cong:
  assumes "region m a bs" "\<And>i. a \<le> i \<Longrightarrow> i < a + span bs + 16 \<Longrightarrow> m' i = m i"
  shows "region m' a bs"
proof -
  have "same_header m m' x" if "a \<le> x" "x \<le> a + span ((8, True) # bs)" for x
    using that assms(2) by (intro same_header_mem) simp
  then show ?thesis using assms(1) unfolding region_def by (blast intro: guarded_cong)
qed

text \<open>\<open>keeps m m' S\<close>: the contents of the data parts in \<open>S\<close> are the same.\<close>

definition keeps :: "mem \<Rightarrow> mem \<Rightarrow> (nat \<times> nat) set \<Rightarrow> bool" where
  "keeps m m' S \<longleftrightarrow> (\<forall>(q, j) \<in> S. mem_load m' q j = mem_load m q j)"

lemma keeps_Un [simp]: "keeps m m' (S \<union> T) \<longleftrightarrow> keeps m m' S \<and> keeps m m' T"
  by (auto simp: keeps_def)

lemma keeps_empty [simp]: "keeps m m' {}"
  by (simp add: keeps_def)

lemma keeps_trans: "keeps m m' S \<Longrightarrow> keeps m' m'' S \<Longrightarrow> keeps m m'' S"
  by (fastforce simp: keeps_def)

lemma keeps_subset: "keeps m m' S \<Longrightarrow> T \<subseteq> S \<Longrightarrow> keeps m m' T"
  by (auto simp: keeps_def)

lemma keeps_lives:
  assumes "sizes_ok bs" "\<And>i. a + 8 \<le> i \<Longrightarrow> i < a + span bs \<Longrightarrow> m' i = m i"
  shows "keeps m m' (lives a bs)"
proof -
  have "mem_load m' q j = mem_load m q j" if "(q, j) \<in> lives a bs" for q j
    using lives_range [OF that assms(1)] by (intro mem_load_cong assms(2)) simp_all
  then show ?thesis by (auto simp: keeps_def)
qed

text \<open>The live blocks lie apart, with a header between any two.\<close>

definition apart :: "nat \<times> nat \<Rightarrow> nat \<times> nat \<Rightarrow> bool" where
  "apart b c \<longleftrightarrow> fst b + snd b + 8 \<le> fst c \<or> fst c + snd c + 8 \<le> fst b"

lemma lives_apart:
  "sizes_ok bs \<Longrightarrow> b \<in> lives a bs \<Longrightarrow> c \<in> lives a bs \<Longrightarrow> b = c \<or> apart b c"
proof (induction a bs rule: lives.induct)
  case (2 a sz t bs)
  have ok: "sizes_ok bs" "8 \<le> sz" using "2.prems"(1) by (auto simp: sizes_ok_def)
  have "fst d \<ge> a + sz + 8" if "d \<in> lives (a + sz) bs" for d
    using lives_range [of "fst d" "snd d" "a + sz" bs] that ok by simp
  then show ?case using 2 ok by (fastforce simp: apart_def split: if_splits)
qed simp

lemma lives_not_in:
  assumes "sizes_ok xs" "sizes_ok ys"
  shows "(a + span xs + 8, j) \<notin> lives a xs" and "(a + span xs + 8, j) \<notin> lives (a + span xs + sz) ys \<or> sz = 0"
  using lives_range [of "a + span xs + 8" j a xs] lives_range [of "a + span xs + 8" j "a + span xs + sz" ys] assms by auto

lemma region_parts:
  assumes "region m a (xs @ (sz, t) # ys)"
  shows "sizes_ok xs" "sizes_ok ys" "8 \<le> sz" "8 dvd sz" "8 dvd a + 8 + span xs"
proof -
  have "sizes_ok (xs @ (sz, t) # ys)" using assms by (rule region_sizes)
  then show "sizes_ok xs" "sizes_ok ys" "8 \<le> sz" "8 dvd sz" by (auto simp: sizes_ok_def)
  have "8 dvd span xs" if "sizes_ok xs" for xs using that by (induction xs) (auto simp: sizes_ok_def)
  then show "8 dvd a + 8 + span xs" using \<open>sizes_ok xs\<close> assms by (auto simp: region_def)
qed

definition inside :: "nat \<Rightarrow> blocks \<Rightarrow> nat \<Rightarrow> bool" where
  "inside a bs i \<longleftrightarrow> a \<le> i \<and> i < a + span bs + 16"

text \<open>A free block is marked as taken.\<close>

lemma region_mark_taken:
  assumes "region m a (xs @ (sz, False) # ys)" and x: "x = a + 8 + span xs"
  shows "region (s_mark_block_taken m x) a (xs @ (sz, True) # ys)"
    and "lives (a + 8) (xs @ (sz, True) # ys) = insert (x + 8, sz - 8) (lives (a + 8) (xs @ (sz, False) # ys))"
    and "keeps m (s_mark_block_taken m x) (lives (a + 8) (xs @ (sz, True) # ys))"
    and "i < x \<or> x + 8 \<le> i \<Longrightarrow> s_mark_block_taken m x i = m i"
proof -
  note parts = region_parts [OF assms(1)]
  have "guarded (s_mark_block_taken m x) 0 a ((8, True) # xs @ (sz, True) # ys)"
    using guarded_mark_taken [of m 0 a "(8, True) # xs" sz False ys] assms x by (simp add: region_def add.assoc)
  moreover have "coalesced (xs @ (sz, True) # ys)"
    using assms(1) by (auto simp: region_def successively_append_iff successively_Cons)
  ultimately show "region (s_mark_block_taken m x) a (xs @ (sz, True) # ys)"
    using assms(1) by (simp add: region_def)
  show lives: "lives (a + 8) (xs @ (sz, True) # ys) = insert (x + 8, sz - 8) (lives (a + 8) (xs @ (sz, False) # ys))"
    using x by (auto simp: add.assoc)
  have "keeps m (s_mark_block_taken m x) (lives (a + 8) xs)"
    using x by (intro keeps_lives [OF parts(1)]) (simp add: header_other)
  moreover have "keeps m (s_mark_block_taken m x) (lives x ((sz, True) # ys))"
    using parts by (intro keeps_lives) (auto simp: header_other sizes_ok_def)
  ultimately show "keeps m (s_mark_block_taken m x) (lives (a + 8) (xs @ (sz, True) # ys))"
    unfolding lives_append keeps_Un x by blast
  show "i < x \<or> x + 8 \<le> i \<Longrightarrow> s_mark_block_taken m x i = m i" by (simp add: header_other)
qed

lemma takeWhile_free:
  "\<forall>b \<in> set (takeWhile (Not \<circ> snd) ys). \<not> snd b" "taken_head (dropWhile (Not \<circ> snd) ys)"
proof -
  show "\<forall>b \<in> set (takeWhile (Not \<circ> snd) ys). \<not> snd b" by (auto dest: set_takeWhileD)
  show "taken_head (dropWhile (Not \<circ> snd) ys)"
    using hd_dropWhile [of "Not \<circ> snd" ys]
    by (cases "dropWhile (Not \<circ> snd) ys = []") (auto simp: taken_head_def simp del: dropWhile_eq_Nil_conv)
qed

text \<open>The tail of a taken block is freed.\<close>

lemma region_split:
  assumes "region m a (xs @ (sz, True) # ys)" and x: "x = a + 8 + span xs"
    and n: "8 dvd unat n" "8 \<le> unat n" "unat n + 8 \<le> sz"
  obtains m' bs' where "s_split m x n = Some m'" "region m' a bs'" "span bs' = span (xs @ (sz, True) # ys)"
    "lives (a + 8) bs' = insert (x + 8, unat n - 8) (lives (a + 8) (xs @ (sz, True) # ys) - {(x + 8, sz - 8)})"
    "keeps m m' (lives (a + 8) bs')" "\<And>i. \<not> inside a bs' i \<Longrightarrow> m' i = m i"
proof -
  note parts = region_parts [OF assms(1)]
  define fr post where "fr = takeWhile (Not \<circ> snd) ys" and "post = dropWhile (Not \<circ> snd) ys"
  have ys: "ys = fr @ post" and free: "\<forall>b \<in> set fr. \<not> snd b" and th: "taken_head post"
    using takeWhile_free [of ys] by (simp_all add: fr_def post_def)
  have reg: "8 dvd a" "a + span (xs @ (sz, True) # ys) + 16 \<le> 4294967296"
    "guarded m 0 a (((8, True) # xs) @ (sz, True) # fr @ post)" "coalesced (xs @ (sz, True) # fr @ post)"
    using assms(1) ys by (simp_all add: region_def)
  obtain m' where m': "s_split m x n = Some m'"
    "guarded m' 0 a (((8, True) # xs) @ (unat n, True) # (sz - unat n + span fr, False) # post)"
    "\<And>i. (i < x \<or> x + 8 \<le> i) \<Longrightarrow> (i < x + unat n \<or> x + unat n + 8 \<le> i) \<Longrightarrow> (i < x + sz \<or> x + sz + 8 \<le> i) \<Longrightarrow>
       (i < x + sz + span fr \<or> x + sz + span fr + 8 \<le> i) \<Longrightarrow> m' i = m i"
    by (rule split_blocks [OF reg(3,1) _ free th n, of x]) (use reg(2) ys x in auto)
  let ?bs = "xs @ (unat n, True) # (sz - unat n + span fr, False) # post" and ?y = "x + sz + span fr"
  have span: "span ?bs = span (xs @ (sz, True) # ys)" using n(3) ys by simp
  have "coalesced ?bs"
    using reg(4) th by (auto simp: successively_append_iff successively_Cons taken_head_def)
  then have region: "region m' a ?bs" using m'(2) span assms(1) by (simp add: region_def)
  have post: "lives x ((sz, True) # ys) = {(x + 8, sz - 8)} \<union> lives ?y post"
    using free by (simp add: ys lives_free add.assoc)
  have new: "lives x ((unat n, True) # (sz - unat n + span fr, False) # post) = {(x + 8, unat n - 8)} \<union> lives ?y post"
    using n(3) by (simp add: add.assoc)
  have "(x + 8, sz - 8) \<notin> lives (a + 8) xs" "(x + 8, sz - 8) \<notin> lives ?y post"
    using lives_range [of "x + 8" "sz - 8"] parts(1,2,3) x ys by (fastforce simp: sizes_ok_def)+
  then have "lives (a + 8) ?bs = insert (x + 8, unat n - 8) (lives (a + 8) (xs @ (sz, True) # ys) - {(x + 8, sz - 8)})"
    using new post x by auto
  note lives = this
  have "keeps m m' (lives (a + 8) xs)"
    using m'(3) x by (intro keeps_lives [OF parts(1)]) simp
  moreover have "keeps m m' (lives x [(unat n, True)])"
    using m'(3) n by (intro keeps_lives) (auto simp: sizes_ok_def)
  moreover have "keeps m m' (lives ?y post)"
    using m'(3) n(3) parts(2) ys by (intro keeps_lives) (auto simp: sizes_ok_def)
  moreover have "lives (a + 8) ?bs = lives (a + 8) xs \<union> (lives x [(unat n, True)] \<union> lives ?y post)"
    using new x by simp
  ultimately have "keeps m m' (lives (a + 8) ?bs)" by (simp only: keeps_Un)
  moreover have "m' i = m i" if "\<not> inside a ?bs i" for i
    using that m'(3) [of i] x n(3) by (auto simp: inside_def)
  ultimately show ?thesis using that [OF m'(1) region span lives] by blast
qed

lemma set_drop: "c \<notin> A \<Longrightarrow> c \<notin> P \<Longrightarrow> A \<union> P - G = (A \<union> {c} \<union> P - G) - {c}"
  by blast

text \<open>A taken block is freed, with the free blocks around it.\<close>

lemma region_free:
  assumes "region m a bs" and live: "(q, j) \<in> lives (a + 8) bs"
  obtains m' bs' where "s_free_block q m = Some m'" "region m' a bs'" "span bs' = span bs"
    "lives (a + 8) bs' = lives (a + 8) bs - {(q, j)}" "keeps m m' (lives (a + 8) bs')"
    "\<And>i. \<not> inside a bs' i \<Longrightarrow> m' i = m i"
proof -
  obtain xs sz ys where bs: "bs = xs @ (sz, True) # ys" "q = a + 8 + span xs + 8" "j = sz - 8"
    using lives_in [OF live] by blast
  let ?x = "a + 8 + span xs"
  note parts = region_parts [OF assms(1) [unfolded bs(1)]]
  define fr2 post where "fr2 = takeWhile (Not \<circ> snd) ys" and "post = dropWhile (Not \<circ> snd) ys"
  have ys: "ys = fr2 @ post" and free2: "\<forall>b \<in> set fr2. \<not> snd b" and th: "taken_head post"
    using takeWhile_free [of ys] by (simp_all add: fr2_def post_def)
  obtain pre k fr1 where pre: "(8, True) # xs = pre @ (k, True) # fr1" "\<forall>b \<in> set fr1. \<not> snd b"
    using split_list_last_prop [of "(8, True) # xs" snd] by auto
  have sx: "8 + span xs = span pre + k + span fr1"
    using arg_cong [OF pre(1), of span] by simp
  have all: "(8, True) # bs = pre @ (k, True) # fr1 @ (sz, True) # fr2 @ post" using pre(1) bs(1) ys by simp
  have reg: "8 dvd a" "a + 8 + span bs + 8 \<le> 4294967296" "guarded m 0 a ((8, True) # bs)" "coalesced ((8, True) # bs)"
    using assms(1) by (auto simp: region_def successively_Cons)
  have low: "a + span ((8, True) # bs) < 4294967296" using reg(2) by simp
  let ?new = "(span fr1 + sz + span fr2, False) # post" and ?t = "a + span pre + k" and ?y = "?x + sz + span fr2"
  obtain m' where m': "s_compact_free m ?x = Some m'" "guarded m' 0 a (pre @ (k, True) # ?new)"
    "\<And>i. (i < ?x - span fr1 \<or> ?x + 8 \<le> i) \<Longrightarrow> (i < ?y \<or> ?y + 8 \<le> i) \<Longrightarrow> m' i = m i"
    by (rule compact_blocks [OF reg(3) [unfolded all] reg(1) low [unfolded all] pre(2) free2 th, of ?x])
      (use sx in auto)
  have t: "?x - span fr1 = ?t" using sx by simp
  obtain bs' where bs': "pre @ (k, True) # ?new = (8, True) # bs'"
    using pre(1) by (cases pre) auto
  have span: "span bs' = span bs"
    using arg_cong [OF bs', of span] arg_cong [OF all, of span] by simp
  have "coalesced (pre @ (k, True) # ?new)"
    using reg(4) th unfolding all by (auto simp: successively_append_iff successively_Cons taken_head_def)
  then have region: "region m' a bs'"
    using m'(2) assms(1) span unfolding bs' by (auto simp: region_def successively_Cons)
  have sz1: "sizes_ok ((8, True) # bs)" using region_sizes [OF assms(1)] by (simp add: sizes_ok_def)
  have head: "lives a ((8, True) # cs) - {(a + 8, 0)} = lives (a + 8) cs" if "sizes_ok cs" for cs
    using lives_range [of "a + 8" 0 "a + 8" cs] that by auto
  have so: "sizes_ok (pre @ [(k, True)])" "sizes_ok post"
    using sz1 unfolding all by (auto simp: sizes_ok_def)
  have q: "q = a + span (pre @ [(k, True)]) + span fr1 + 8" "q \<le> ?y" "a + 8 < q"
    using bs(2) sx parts(3) unfolding span_simps fst_conv by linarith+
  have nin: "(q, j) \<notin> lives a (pre @ [(k, True)])" "(q, j) \<notin> lives ?y post" "(q, j) \<noteq> (a + 8, 0)"
  proof -
    show "(q, j) \<notin> lives a (pre @ [(k, True)])"
    proof
      assume "(q, j) \<in> lives a (pre @ [(k, True)])"
      from lives_range [OF this so(1)] q(1) show False by linarith
    qed
    show "(q, j) \<notin> lives ?y post"
    proof
      assume "(q, j) \<in> lives ?y post"
      from lives_range [OF this so(2)] q(2) show False by linarith
    qed
    show "(q, j) \<noteq> (a + 8, 0)" using q(3) by simp
  qed
  have old: "lives a ((8, True) # bs) = lives a (pre @ [(k, True)]) \<union> {(q, j)} \<union> lives ?y post"
    unfolding all using pre(2) free2 sx bs by (simp add: lives_free add.assoc)
  have new: "lives a ((8, True) # bs') = lives a (pre @ [(k, True)]) \<union> lives ?y post"
    unfolding bs' [symmetric] using sx by (simp add: add.assoc)
  have lives: "lives (a + 8) bs' = lives (a + 8) bs - {(q, j)}"
    unfolding head [OF region_sizes [OF region], symmetric] head [OF region_sizes [OF assms(1)], symmetric] old new
    using nin(1,2) by (rule set_drop)
  have "keeps m m' (lives a (pre @ [(k, True)]))"
    using m'(3) sx by (intro keeps_lives [OF so(1)]) (simp add: t)
  moreover have "keeps m m' (lives ?y post)"
    using m'(3) by (intro keeps_lives [OF so(2)]) simp
  ultimately have "keeps m m' (lives a ((8, True) # bs'))" unfolding new keeps_Un by blast
  then have "keeps m m' (lives (a + 8) bs')" by (rule keeps_subset) auto
  moreover have "m' i = m i" if "\<not> inside a bs' i" for i
  proof -
    have "span bs' = span xs + sz + span fr2 + span post" using span bs(1) ys by simp
    then show ?thesis using that m'(3) [of i] sx by (auto simp: inside_def t)
  qed
  moreover have "s_free_block q m = Some m'" using m'(1) by (simp only: s_free_block_def bs(2) diff_add_inverse2)
  ultimately show ?thesis using that region span lives by blast
qed

subsection \<open>Allocation and shrinking\<close>

definition s_round :: "u32 \<Rightarrow> nat" where
  "s_round n = (unat n + 15) div 8 * 8"

lemma s_round: "8 dvd s_round n" "unat n + 8 \<le> s_round n" "n \<noteq> 0 \<Longrightarrow> 16 \<le> s_round n"
proof -
  show "8 dvd s_round n" by (simp add: s_round_def)
  show le: "unat n + 8 \<le> s_round n" unfolding s_round_def by presburger
  assume "n \<noteq> 0"
  then have "0 < unat n" by (simp add: unat_gt_0)
  then show "16 \<le> s_round n" unfolding s_round_def by presburger
qed

lemma act_size_round: "unat n + 15 < 4294967296 \<Longrightarrow> unat (s_act_size (n + 8)) = s_round n"
  unfolding s_round_def by (rule s_act_size_unat)

lemma not_live_start:
  assumes "region m a (xs @ (sz, t) # ys)" "(a + 8 + span xs + 8, j) \<in> lives (a + 8) (xs @ (sz, t) # ys)"
  shows "t \<and> j = sz - 8"
proof -
  note parts = region_parts [OF assms(1)]
  have "(a + 8 + span xs + 8, j) \<notin> lives (a + 8) xs"
    using lives_range [OF _ parts(1), of "a + 8 + span xs + 8" j "a + 8"] by fastforce
  moreover have "(a + 8 + span xs + 8, j) \<notin> lives (a + 8 + span xs + sz) ys"
    using lives_range [OF _ parts(2), of "a + 8 + span xs + 8" j] parts(3) by fastforce
  ultimately show ?thesis using assms(2) by (auto split: if_splits)
qed

lemma region_alloc:
  assumes "region m a bs" "n \<noteq> 0" "unat n + 15 < 4294967296"
  obtains (none) "s_get_free_block n a m = Some (0, m)" "\<forall>sz. (sz, False) \<in> set bs \<longrightarrow> sz < s_round n"
  | (some) ptr m' bs' k where "s_get_free_block n a m = Some (ptr, m')" "ptr \<noteq> 0" "8 dvd ptr" "unat n \<le> k"
    "region m' a bs'" "span bs' = span bs" "lives (a + 8) bs' = insert (ptr, k) (lives (a + 8) bs)"
    "(ptr, k) \<notin> lives (a + 8) bs" "keeps m m' (lives (a + 8) bs)" "\<And>i. \<not> inside a bs' i \<Longrightarrow> m' i = m i"
proof -
  let ?size = "s_act_size (n + 8)"
  have size: "unat ?size = s_round n" using assms(3) by (rule act_size_round)
  have g: "guarded m a (a + 8) bs" "s_get_next_block m a = a + 8" "a + 8 + span bs < 4294967296" "0 < a"
    using assms(1) by (simp_all add: region_def)
  obtain pb mn where b: "best (s_round n) (a + 8) bs (0, 4294967295) = (pb, mn)" by fastforce
  have top: "(4294967295 :: u32) = -1" by simp
  have "s_best m ?size (a + 8) (0, -1) = Some (pb, of_nat mn)"
    using s_best_spec [OF g(1) _ g(3), of "(0, 4294967295)" ?size] b size by (simp add: top)
  then have step: "s_get_free_block n a m = (if pb = 0 then Some (0, m) else
      (let m1 = s_mark_block_taken m pb in
       if of_nat mn > ?size \<and> of_nat mn - ?size \<ge> DYN_MIN_SPLIT_SIZE
       then map_option (Pair (pb + 8)) (s_split m1 pb ?size) else Some (pb + 8, m1)))"
    using assms(2) g(2) by (simp add: s_get_free_block_def Let_def)
  from best_spec [OF b] consider "pb = 0" "mn = 4294967295" "\<forall>sz. (sz, False) \<in> set bs \<longrightarrow> s_round n \<le> sz \<longrightarrow> mn \<le> sz"
    | xs ys where "bs = xs @ (mn, False) # ys" "pb = a + 8 + span xs" "s_round n \<le> mn" by auto
  then show ?thesis
  proof cases
    case 1
    have "sz < s_round n" if "(sz, False) \<in> set bs" for sz
    proof -
      have "sz \<le> span bs" unfolding span_def using that member_le_sum_list [of sz "map fst bs"] by force
      then show ?thesis using 1(2,3) that g(3) by (cases "s_round n \<le> sz") auto
    qed
    then show ?thesis using none step 1(1) by simp
  next
    case 2
    note reg = assms(1) [unfolded 2(1)]
    note parts = region_parts [OF reg]
    let ?m1 = "s_mark_block_taken m pb" and ?bs1 = "xs @ (mn, True) # ys"
    note mark = region_mark_taken [OF reg 2(2)]
    have mn: "mn < 4294967296" using g(3) 2(1) by simp
    have al: "8 dvd pb + 8" using parts(5) 2(2) by (simp only: dvd_add_triv_right_iff)
    have new: "(pb + 8, j) \<notin> lives (a + 8) bs" for j
      using not_live_start [OF reg, of j] 2(1,2) by auto
    have cmp: "(of_nat mn > ?size \<and> of_nat mn - ?size \<ge> DYN_MIN_SPLIT_SIZE) = (s_round n + 16 \<le> mn)"
    proof -
      have "?size \<le> of_nat mn" using 2(3) mn size by (simp add: word_le_nat_alt unat_of_nat_u32)
      then have "unat (of_nat mn - ?size) = mn - s_round n" using mn size by (simp add: unat_sub unat_of_nat_u32)
      then show ?thesis using mn size by (auto simp: word_le_nat_alt word_less_nat_alt unat_of_nat_u32)
    qed
    show ?thesis
    proof (cases "s_round n + 16 \<le> mn")
      case False
      have "s_get_free_block n a m = Some (pb + 8, ?m1)" using step cmp False 2(2) by simp
      moreover have "span ?bs1 = span bs" using 2(1) by simp
      moreover have "m i = ?m1 i" if "\<not> inside a ?bs1 i" for i
        using mark(4) [of i] that 2(2) parts(3) by (auto simp: inside_def)
      ultimately show ?thesis
        using some [of "pb + 8" ?m1 "mn - 8" ?bs1] mark(1-3) [folded 2(1)] new s_round(2) [of n] 2(3) al
        by (simp add: keeps_def)
    next
      case True
      obtain m' bs' where m': "s_split ?m1 pb ?size = Some m'" "region m' a bs'" "span bs' = span ?bs1"
        "lives (a + 8) bs' = insert (pb + 8, unat ?size - 8) (lives (a + 8) ?bs1 - {(pb + 8, mn - 8)})"
        "keeps ?m1 m' (lives (a + 8) bs')" "\<And>i. \<not> inside a bs' i \<Longrightarrow> m' i = ?m1 i"
        by (rule region_split [OF mark(1) 2(2), of ?size]) (use size s_round [of n] assms(2) True in auto)
      have eq: "lives (a + 8) bs' = insert (pb + 8, s_round n - 8) (lives (a + 8) bs)"
        using m'(4) mark(2) new size 2(1) by auto
      have "keeps m m' (lives (a + 8) bs)"
        using m'(5) mark(2,3) eq 2(1) by (auto intro: keeps_trans [of m ?m1] keeps_subset)
      moreover have "m' i = m i" if "\<not> inside a bs' i" for i
        using m'(6) [OF that] mark(4) [of i] that 2(2) m'(3) parts(3) by (auto simp: inside_def)
      moreover have "s_get_free_block n a m = Some (pb + 8, m')" using step cmp True 2(2) m'(1) by simp
      ultimately show ?thesis
        using some [of "pb + 8" m' "s_round n - 8" bs'] m'(2,3) eq new s_round(2) [of n] 2(1) al by simp
    qed
  qed
qed

lemma region_block_size:
  assumes "region m a bs" "(q, j) \<in> lives (a + 8) bs"
  shows "s_get_actual_block_size m q = of_nat j" "j < 4294967296" "q \<noteq> 0" "8 dvd q"
proof -
  obtain xs sz ys where bs: "bs = xs @ (sz, True) # ys" "q = a + 8 + span xs + 8" "j = sz - 8"
    using lives_in [OF assms(2)] by blast
  note parts = region_parts [OF assms(1) [unfolded bs(1)]]
  have "guarded m 0 a (((8, True) # xs) @ (sz, True) # ys)" "a + span bs + 16 \<le> 4294967296"
    using assms(1) bs(1) by (simp_all add: region_def)
  then obtain e where "chain m 0 a ((8, True) # xs) e" "guarded m (fst e) (snd e) ((sz, True) # ys)"
    using guarded_append by blast
  moreover have "snd e = a + 8 + span xs" using chain_end [OF calculation(1)] by simp
  ultimately have "s_get_block_size m (a + 8 + span xs) = of_nat sz"
    using block_size_guarded [of m "fst e" "snd e" sz True ys] \<open>a + span bs + 16 \<le> 4294967296\<close> bs(1) by simp
  then show "s_get_actual_block_size m q = of_nat j"
    using parts(3) unfolding s_get_actual_block_size_def bs(2,3) diff_add_inverse2 by (simp add: of_nat_diff)
  show "j < 4294967296" "q \<noteq> 0" using \<open>a + span bs + 16 \<le> 4294967296\<close> bs by simp_all
  show "8 dvd q" using parts(5) bs(2) by (simp only: dvd_add_triv_right_iff)
qed

lemma region_shrink:
  assumes "region m a bs" "(q, j) \<in> lives (a + 8) bs" "n \<noteq> 0" "unat n < j"
  obtains m' bs' k where "s_shrink_block q n m = Some m'" "region m' a bs'" "span bs' = span bs"
    "lives (a + 8) bs' = insert (q, k) (lives (a + 8) bs - {(q, j)})" "unat n \<le> k" "k \<le> j"
    "keeps m m' (lives (a + 8) bs')" "\<And>i. \<not> inside a bs' i \<Longrightarrow> m' i = m i"
proof -
  obtain xs sz ys where bs: "bs = xs @ (sz, True) # ys" "q = a + 8 + span xs + 8" "j = sz - 8"
    using lives_in [OF assms(2)] by blast
  let ?x = "a + 8 + span xs" and ?size = "s_act_size (n + 8)"
  note reg = assms(1) [unfolded bs(1)]
  note parts = region_parts [OF reg]
  have sz: "sz + 16 \<le> 4294967296" using assms(1) bs(1) by (simp add: region_def)
  have size: "unat ?size = s_round n" using assms(4) bs(3) sz by (intro act_size_round) simp
  have "s_get_block_size m ?x = of_nat sz"
  proof -
    have "of_nat sz - DYN_HEADER_SIZE = s_get_block_size m ?x - DYN_HEADER_SIZE"
      using region_block_size(1) [OF assms(1,2)] parts(3)
      unfolding s_get_actual_block_size_def bs(2,3) diff_add_inverse2 by (simp add: of_nat_diff)
    then show ?thesis by simp
  qed
  moreover have "(?size \<ge> of_nat sz \<or> of_nat sz - ?size < DYN_MIN_SPLIT_SIZE) = (\<not> s_round n + 16 \<le> sz)"
  proof (cases "s_round n < sz")
    case True
    then have "unat (of_nat sz - ?size) = sz - s_round n"
      using sz size by (simp add: unat_sub word_le_nat_alt unat_of_nat_u32)
    then show ?thesis using True sz size by (auto simp: word_le_nat_alt word_less_nat_alt unat_of_nat_u32)
  next
    case False
    then show ?thesis using sz size by (auto simp: word_le_nat_alt unat_of_nat_u32)
  qed
  ultimately have step: "s_shrink_block q n m = (if s_round n + 16 \<le> sz then s_split m ?x ?size else Some m)"
    unfolding s_shrink_block_def bs(2) diff_add_inverse2 Let_def by simp
  show ?thesis
  proof (cases "s_round n + 16 \<le> sz")
    case True
    obtain m' bs' where m': "s_split m ?x ?size = Some m'" "region m' a bs'" "span bs' = span bs"
      "lives (a + 8) bs' = insert (q, s_round n - 8) (lives (a + 8) bs - {(q, j)})"
      "keeps m m' (lives (a + 8) bs')" "\<And>i. \<not> inside a bs' i \<Longrightarrow> m' i = m i"
      by (rule region_split [OF reg refl, of ?size, folded bs])
        (use size s_round [of n] assms(3) True bs(1) in auto)
    show ?thesis using that [of m' bs' "s_round n - 8"] m' step True s_round(2) [of n] bs(3) by simp
  next
    case False
    show ?thesis
      using that [of m bs j] step False assms by (auto simp: keeps_def insert_absorb)
  qed
qed

end
