(* ===== verification/Salloc_Alloc.thy ===== *)
theory Salloc_Alloc
  imports Salloc_Region
begin

text \<open>
  The contract of \<^verbatim>\<open>smalloc\<close>, \<^verbatim>\<open>sfree\<close> and \<^verbatim>\<open>srealloc\<close> over all memory regions: the heap is a list
  of regions (start address and blocks), its live blocks are the data parts of the taken blocks.
\<close>

subsection \<open>The heap\<close>

type_synonym regions = "(nat \<times> blocks) list"

definition beyond :: "nat \<times> blocks \<Rightarrow> nat \<times> blocks \<Rightarrow> bool" where
  "beyond r s \<longleftrightarrow> fst r + span (snd r) + 16 \<le> fst s \<or> fst s + span (snd s) + 16 \<le> fst r"

definition heap :: "mem \<Rightarrow> regions \<Rightarrow> bool" where
  "heap m rs \<longleftrightarrow> (\<forall>r \<in> set rs. region m (fst r) (snd r)) \<and> sorted_wrt beyond rs"

definition live :: "regions \<Rightarrow> (nat \<times> nat) set" where
  "live rs = (\<Union>r \<in> set rs. lives (fst r + 8) (snd r))"

lemma live_simps [simp]: "live [] = {}" "live (r # rs) = lives (fst r + 8) (snd r) \<union> live rs" "live (rs @ ss) = live rs \<union> live ss"
  by (auto simp: live_def)

lemma heap_update:
  assumes "heap m (ls @ (a, bs) # rs)" "region m' a bs'" "span bs' = span bs" "\<And>i. \<not> inside a bs' i \<Longrightarrow> m' i = m i"
  shows "heap m' (ls @ (a, bs') # rs)" "keeps m m' (live (ls @ rs))"
proof -
  have other: "region m (fst r) (snd r)" "beyond r (a, bs)" if "r \<in> set (ls @ rs)" for r
    using that assms(1) by (auto simp: heap_def sorted_wrt_append beyond_def)
  have same: "m' i = m i" if "r \<in> set (ls @ rs)" "inside (fst r) (snd r) i" for r i
    using other(2) [OF that(1)] that(2) assms(3,4) by (auto simp: beyond_def inside_def)
  have "region m' (fst r) (snd r)" if "r \<in> set (ls @ rs)" for r
    using other(1) [OF that] same [OF that] by (auto intro: region_cong simp: inside_def)
  then show "heap m' (ls @ (a, bs') # rs)"
    using assms(1-3) by (auto simp: heap_def sorted_wrt_append beyond_def)
  have "keeps m m' (lives (fst r + 8) (snd r))" if "r \<in> set (ls @ rs)" for r
    using same [OF that] region_sizes [OF other(1) [OF that]] by (intro keeps_lives) (auto simp: inside_def)
  then show "keeps m m' (live (ls @ rs))"
    unfolding live_def keeps_def by blast
qed

lemma live_elsewhere:
  assumes "heap m (ls @ (a, bs) # rs)" "(q, j) \<in> lives (a + 8) bs"
  shows "(q, j) \<notin> live (ls @ rs)"
proof -
  have sizes: "sizes_ok bs" using assms(1) region_sizes by (fastforce simp: heap_def)
  have "(q, j) \<notin> lives (fst s + 8) (snd s)" if s: "s \<in> set (ls @ rs)" for s
  proof
    assume "(q, j) \<in> lives (fst s + 8) (snd s)"
    moreover have "sizes_ok (snd s)" using assms(1) s by (auto simp: heap_def intro: region_sizes)
    moreover have "beyond s (a, bs)" using assms(1) s by (auto simp: heap_def sorted_wrt_append beyond_def)
    ultimately show False
      using lives_range [of q j "fst s + 8" "snd s"] lives_range [OF assms(2) sizes] by (auto simp: beyond_def)
  qed
  then show ?thesis by (auto simp: live_def)
qed

lemma live_split:
  assumes "heap m rs" "(q, j) \<in> live rs"
  obtains ls a bs rs' where "rs = ls @ (a, bs) # rs'" "(q, j) \<in> lives (a + 8) bs" "region m a bs"
    "(q, j) \<notin> live (ls @ rs')"
proof -
  obtain r where r: "r \<in> set rs" "(q, j) \<in> lives (fst r + 8) (snd r)" using assms(2) by (auto simp: live_def)
  then obtain ls rs' where "rs = ls @ r # rs'" by (meson split_list)
  then have "rs = ls @ (fst r, snd r) # rs'" by simp
  then show ?thesis using that r(2) live_elsewhere assms(1) r(1) unfolding heap_def by metis
qed

lemma live_apart:
  assumes "heap m rs" "b \<in> live rs" "c \<in> live rs"
  shows "b = c \<or> apart b c"
proof -
  obtain r s where rs: "r \<in> set rs" "b \<in> lives (fst r + 8) (snd r)" "s \<in> set rs" "c \<in> lives (fst s + 8) (snd s)"
    using assms(2,3) by (auto simp: live_def)
  have ok: "sizes_ok (snd r)" "sizes_ok (snd s)" using assms(1) rs(1,3) by (auto simp: heap_def intro: region_sizes)
  consider "r = s" | "beyond r s"
  proof (cases "r = s")
    case False
    have "beyond r s \<or> beyond s r"
    proof -
      obtain i j where "i < length rs" "j < length rs" "rs ! i = r" "rs ! j = s" using rs by (metis in_set_conv_nth)
      moreover have "i \<noteq> j" using calculation False by auto
      ultimately show ?thesis using assms(1) sorted_wrt_nth_less [of beyond rs] unfolding heap_def by (metis nat_neq_iff)
    qed
    then show ?thesis using that(2) by (auto simp: beyond_def)
  qed auto
  then show ?thesis
  proof cases
    case 1
    then show ?thesis using rs lives_apart [OF ok(1)] by blast
  next
    case 2
    then show ?thesis
      using lives_range [of "fst b" "snd b" "fst r + 8" "snd r"] lives_range [of "fst c" "snd c" "fst s + 8" "snd s"] ok rs
      by (auto simp: beyond_def apart_def)
  qed
qed

lemma live_unique: "heap m rs \<Longrightarrow> (p, j) \<in> live rs \<Longrightarrow> (p, k) \<in> live rs \<Longrightarrow> j = k"
  using live_apart [of m rs "(p, j)" "(p, k)"] by (auto simp: apart_def)

subsection \<open>The operations\<close>

definition starts :: "u32 list \<Rightarrow> u32 list \<Rightarrow> regions \<Rightarrow> bool" where
  "starts mstart mend rs \<longleftrightarrow> length mstart = length rs \<and>
     (\<forall>i < length rs. unat (platform_get_first_free_ram mstart i) = fst (rs ! i) \<and>
        fst (rs ! i) + span (snd (rs ! i)) + 16 = unat (platform_get_last_free_ram mend i))"

definition heap_ok :: "u32 list \<Rightarrow> u32 list \<Rightarrow> salloc \<Rightarrow> regions \<Rightarrow> bool" where
  "heap_ok mstart mend st rs \<longleftrightarrow> s_initialized st \<and> starts mstart mend rs \<and> heap (s_mem st) rs"

lemma starts_update:
  "starts mstart mend (ls @ (a, bs) # rs) \<Longrightarrow> span bs' = span bs \<Longrightarrow> starts mstart mend (ls @ (a, bs') # rs)"
  by (auto simp: starts_def nth_append nth_Cons split: if_splits nat.splits)

lemma smalloc_loop_spec:
  assumes "starts mstart mend rs" "heap m rs" "n \<noteq> 0" "unat n + 15 < 4294967296" "i \<le> length rs"
  obtains (none) "smalloc_loop mstart n i m = Some (0, m)" "\<forall>r \<in> set (drop i rs). \<forall>sz. (sz, False) \<in> set (snd r) \<longrightarrow> sz < s_round n"
  | (some) ptr m' rs' k where "smalloc_loop mstart n i m = Some (ptr, m')" "ptr \<noteq> 0" "8 dvd ptr" "unat n \<le> k"
    "starts mstart mend rs'" "heap m' rs'" "live rs' = insert (ptr, k) (live rs)" "(ptr, k) \<notin> live rs" "keeps m m' (live rs)"
  using assms(5)
proof (induction "length rs - i" arbitrary: i thesis rule: less_induct)
  case less
  show ?case
  proof (cases "i = length rs")
    case True
    then have "platform_get_first_free_ram mstart i = 0"
      using assms(1) by (simp add: starts_def platform_get_first_free_ram_def)
    then have "smalloc_loop mstart n i m = Some (0, m)" by (simp add: smalloc_loop.simps [of mstart n i])
    then show ?thesis using less.prems(1) True by simp
  next
    case False
    then have i: "i < length rs" using less.prems(3) by simp
    obtain a bs where ri: "rs ! i = (a, bs)" by fastforce
    then have rs: "rs = take i rs @ (a, bs) # drop (i + 1) rs" using id_take_nth_drop [OF i] by simp
    have reg: "region m a bs" using assms(2) nth_mem [OF i] ri by (force simp: heap_def)
    have start: "unat (platform_get_first_free_ram mstart i) = a" "platform_get_first_free_ram mstart i \<noteq> 0"
      using assms(1) i ri reg by (auto simp: starts_def region_def)
    note step = smalloc_loop.simps [of mstart n i m]
    from region_alloc [OF reg assms(3,4)] show ?thesis
    proof cases
      case 1
      note none = this
      have eq: "smalloc_loop mstart n i m = smalloc_loop mstart n (i + 1) m"
        using step start none(1) by simp
      have d: "drop i rs = (a, bs) # drop (i + 1) rs" using i ri by (simp add: Cons_nth_drop_Suc [symmetric])
      show ?thesis
        by (rule less.hyps [of "i + 1"]; (unfold eq [symmetric])?)
          (use i none(2) less.prems d eq in \<open>auto\<close>)
    next
      case (2 ptr m' bs' k)
      note some = this
      let ?rs = "take i rs @ (a, bs') # drop (i + 1) rs"
      have up: "heap m' ?rs" "keeps m m' (live (take i rs @ drop (i + 1) rs))"
        using heap_update [of m "take i rs" a bs "drop (i + 1) rs" m' bs'] assms(2) rs some by auto
      have nin: "(ptr, k) \<notin> live (take i rs @ drop (i + 1) rs)"
        using live_elsewhere [OF up(1)] some(7) by simp
      have old: "live rs = lives (a + 8) bs \<union> live (take i rs @ drop (i + 1) rs)"
        by (subst rs) auto
      have "live ?rs = insert (ptr, k) (live rs)" using some(7) old by auto
      moreover have "(ptr, k) \<notin> live rs" using nin some(8) old by simp
      moreover have "keeps m m' (live rs)" unfolding old keeps_Un using up(2) some(9) by blast
      moreover have "starts mstart mend ?rs" using starts_update [of mstart mend "take i rs" a bs] assms(1) rs some(6) by simp
      moreover have "smalloc_loop mstart n i m = Some (ptr, m')" using step start some(1,2) by simp
      ultimately show ?thesis using less.prems(2) [of ptr m' k ?rs] some(2-4) up(1) by blast
    qed
  qed
qed

lemma smalloc_spec:
  assumes "heap_ok mstart mend st rs" "n \<noteq> 0" "unat n + 15 < 4294967296"
  obtains (none) "smalloc mstart mend n st = Some (0, st)" "\<forall>r \<in> set rs. \<forall>sz. (sz, False) \<in> set (snd r) \<longrightarrow> sz < s_round n"
  | (some) ptr st' rs' k where "smalloc mstart mend n st = Some (ptr, st')" "ptr \<noteq> 0" "8 dvd ptr" "unat n \<le> k"
    "heap_ok mstart mend st' rs'" "live rs' = insert (ptr, k) (live rs)" "ptr \<notin> fst ` live rs" "keeps (s_mem st) (s_mem st') (live rs)"
proof -
  have ok: "s_initialized st" "starts mstart mend rs" "heap (s_mem st) rs" using assms(1) by (simp_all add: heap_ok_def)
  note step = smalloc_def [of mstart mend n st]
  from smalloc_loop_spec [OF ok(2,3) assms(2,3) le0] show ?thesis
  proof cases
    case 1
    then show ?thesis using that(1) ok(1) step by simp
  next
    case (2 ptr m' rs' k)
    have "ptr \<notin> fst ` live rs"
    proof
      assume "ptr \<in> fst ` live rs"
      then obtain j where "(ptr, j) \<in> live rs" by auto
      with live_unique [OF 2(6), of ptr j k] 2(7,8) show False by simp
    qed
    with 2 show ?thesis using that(2) [of ptr "st\<lparr>s_mem := m'\<rparr>" k rs'] ok(1) step by (simp add: heap_ok_def)
  qed
qed

lemma sfree_spec:
  assumes "heap_ok mstart mend st rs" "(q, j) \<in> live rs"
  obtains st' rs' where "sfree q st = Some st'" "heap_ok mstart mend st' rs'" "live rs' = live rs - {(q, j)}"
    "keeps (s_mem st) (s_mem st') (live rs')"
proof -
  have ok: "s_initialized st" "starts mstart mend rs" "heap (s_mem st) rs" using assms(1) by (simp_all add: heap_ok_def)
  obtain ls a bs rs1 where rs: "rs = ls @ (a, bs) # rs1" and live: "(q, j) \<in> lives (a + 8) bs" and reg: "region (s_mem st) a bs"
    and nin: "(q, j) \<notin> live (ls @ rs1)"
    using live_split [OF ok(3) assms(2)] by blast
  obtain m' bs' where m': "s_free_block q (s_mem st) = Some m'" "region m' a bs'" "span bs' = span bs"
    "lives (a + 8) bs' = lives (a + 8) bs - {(q, j)}" "keeps (s_mem st) m' (lives (a + 8) bs')"
    "\<And>i. \<not> inside a bs' i \<Longrightarrow> m' i = s_mem st i"
    using region_free [OF reg live] by blast
  note up = heap_update [OF ok(3) [unfolded rs] m'(2,3,6)]
  have "sfree q st = Some (st\<lparr>s_mem := m'\<rparr>)"
    using region_block_size(3) [OF reg live] ok(1) m'(1) by (simp add: sfree_def)
  moreover have "heap_ok mstart mend (st\<lparr>s_mem := m'\<rparr>) (ls @ (a, bs') # rs1)"
    using up(1) ok starts_update [OF _ m'(3)] rs by (auto simp: heap_ok_def)
  moreover have "live (ls @ (a, bs') # rs1) = live rs - {(q, j)}" using m'(4) nin rs by auto
  moreover have "keeps (s_mem st) m' (live (ls @ (a, bs') # rs1))" using up(2) m'(5) by simp
  ultimately show ?thesis using that [of "st\<lparr>s_mem := m'\<rparr>" "ls @ (a, bs') # rs1"] by simp
qed

text \<open>Writing into a live block keeps the heap and all other live blocks.\<close>

lemma guarded_write:
  assumes "guarded m p a (xs @ (sz, t) # ys)" "8 dvd a"
    and same: "\<And>i. i < a + span xs + 8 \<or> a + span xs + sz \<le> i \<Longrightarrow> m' i = m i"
  shows "guarded m' p a (xs @ (sz, t) # ys)"
proof -
  obtain e where e: "chain m p a xs e" "guarded m (fst e) (snd e) ((sz, t) # ys)"
    using assms(1) guarded_append by blast
  have x: "snd e = a + span xs" "8 dvd snd e" using chain_end [OF e(1)] chain_aligned [OF e(1) assms(2)] by simp_all
  have before: "y + 8 \<le> snd e" if "8 dvd y" "y < snd e" for y
    using that x(2) by presburger
  have "chain m' p a xs e"
    by (intro chain_cong [OF e(1) assms(2)] same_header_mem same) (use before x(1) in fastforce)
  moreover have "guarded m' (snd e) (snd e + sz) ys"
    using e(2) x same by (auto intro!: guarded_cong [of m] same_header_mem)
  moreover have "same_header m m' (snd e)" using x same by (intro same_header_mem) simp
  ultimately show ?thesis using e(2) by (intro guarded_appendI [of m' p a xs e]) (auto simp: same_header_def)
qed

lemma heap_write:
  assumes "heap m rs" "(q, j) \<in> live rs" "length d \<le> j"
  shows "heap (mem_store m q d) rs" "keeps m (mem_store m q d) (live rs - {(q, j)})"
proof -
  obtain ls a bs rs1 where rs: "rs = ls @ (a, bs) # rs1" and live: "(q, j) \<in> lives (a + 8) bs" and reg: "region m a bs"
    by (rule live_split [OF assms(1,2)])
  obtain xs sz ys where bs: "bs = xs @ (sz, True) # ys" "q = a + 8 + span xs + 8" "j = sz - 8"
    using lives_in [OF live] by blast
  have "8 \<le> sz" using region_parts [OF reg [unfolded bs(1)]] by simp
  then have same: "mem_store m q d i = m i" if "i < q \<or> q + (sz - 8) \<le> i" for i
    using that assms(3) bs(3) by (auto simp: mem_store_def)
  have "guarded (mem_store m q d) 0 a (((8, True) # xs) @ (sz, True) # ys)"
  proof (rule guarded_write [of m])
    show "guarded m 0 a (((8, True) # xs) @ (sz, True) # ys)" "8 dvd a" using reg bs(1) by (simp_all add: region_def)
    fix i
    assume "i < a + span ((8, True) # xs) + 8 \<or> a + span ((8, True) # xs) + sz \<le> i"
    then show "mem_store m q d i = m i" using bs(2) \<open>8 \<le> sz\<close> by (intro same) auto
  qed
  then have region: "region (mem_store m q d) a bs" using reg bs(1) by (simp add: region_def)
  have out: "mem_store m q d i = m i" if "\<not> inside a bs i" for i
    using that bs(1,2) same [of i] \<open>8 \<le> sz\<close> by (auto simp: inside_def)
  show "heap (mem_store m q d) rs"
    unfolding rs by (rule heap_update(1) [OF assms(1) [unfolded rs] region refl out])
  have "mem_load (mem_store m q d) p k = mem_load m p k" if "(p, k) \<in> live rs" "(p, k) \<noteq> (q, j)" for p k
    using live_apart [OF assms(1) that(1) assms(2)] that(2) assms(3) by (auto simp: apart_def intro!: mem_load_store_other)
  then show "keeps m (mem_store m q d) (live rs - {(q, j)})" by (auto simp: keeps_def)
qed

lemma mem_load_prefix: "mem_load m' p k = mem_load m q k \<Longrightarrow> n \<le> k \<Longrightarrow> mem_load m' p n = mem_load m q n"
  using mem_load_append [of m' p n "k - n"] mem_load_append [of m q n "k - n"] by simp

lemma srealloc_spec:
  assumes "heap_ok mstart mend st rs" "(q, j) \<in> live rs" "n \<noteq> 0" "unat n + 15 < 4294967296"
  obtains (none) "srealloc mstart mend q n st = Some (0, st)"
  | (some) ptr st' rs' k where "srealloc mstart mend q n st = Some (ptr, st')" "ptr \<noteq> 0" "unat n \<le> k"
    "heap_ok mstart mend st' rs'" "live rs' = insert (ptr, k) (live rs - {(q, j)})"
    "ptr \<notin> fst ` (live rs - {(q, j)})" "keeps (s_mem st) (s_mem st') (live rs - {(q, j)})"
    "mem_load (s_mem st') ptr (min j (unat n)) = mem_load (s_mem st) q (min j (unat n))"
proof -
  have ok: "s_initialized st" "starts mstart mend rs" "heap (s_mem st) rs" using assms(1) by (simp_all add: heap_ok_def)
  obtain ls a bs rs1 where rs: "rs = ls @ (a, bs) # rs1" and live: "(q, j) \<in> lives (a + 8) bs" and reg: "region (s_mem st) a bs"
    and nin: "(q, j) \<notin> live (ls @ rs1)"
    by (rule live_split [OF ok(3) assms(2)])
  note q = region_block_size [OF reg live]
  have cmp: "of_nat j = n \<longleftrightarrow> j = unat n" "n < of_nat j \<longleftrightarrow> unat n < j"
    using q(2) by (auto simp: word_less_nat_alt unat_of_nat_u32)
  have step: "srealloc mstart mend q n st =
      (if j = unat n then Some (q, st)
       else if unat n < j then map_option (\<lambda>m. (q, st\<lparr>s_mem := m\<rparr>)) (s_shrink_block q n (s_mem st))
       else (case smalloc mstart mend n st of None \<Rightarrow> None
         | Some (newptr, st1) \<Rightarrow> if newptr = 0 then Some (0, st1)
             else map_option (Pair newptr) (sfree q (st1\<lparr>s_mem := mem_store (s_mem st1) newptr
                (mem_load (s_mem st1) q (unat (s_get_actual_block_size (s_mem st1) q)))\<rparr>))))"
    using ok(1) q(3) assms(3) unfolding srealloc_def Let_def by (simp add: q(1) cmp)
  have own: "q \<notin> fst ` (live rs - {(q, j)})"
  proof
    assume "q \<in> fst ` (live rs - {(q, j)})"
    then obtain i where "(q, i) \<in> live rs - {(q, j)}" by (metis imageE prod.collapse)
    with live_unique [OF ok(3) assms(2), of i] show False by simp
  qed
  consider "j = unat n" | "unat n < j" | "j < unat n" by linarith
  then show ?thesis
  proof cases
    case 1
    then show ?thesis
      using some [of q st j rs] step q(3) assms(1,2) own by (auto simp: keeps_def insert_absorb)
  next
    case 2
    obtain m' bs' k where m': "s_shrink_block q n (s_mem st) = Some m'" "region m' a bs'" "span bs' = span bs"
      "lives (a + 8) bs' = insert (q, k) (lives (a + 8) bs - {(q, j)})" "unat n \<le> k" "k \<le> j"
      "keeps (s_mem st) m' (lives (a + 8) bs')" "\<And>i. \<not> inside a bs' i \<Longrightarrow> m' i = s_mem st i"
      using region_shrink [OF reg live assms(3) 2] by blast
    note up = heap_update [OF ok(3) [unfolded rs] m'(2,3,8)]
    let ?rs = "ls @ (a, bs') # rs1"
    have "live ?rs = insert (q, k) (live rs - {(q, j)})" using m'(4) nin rs by auto
    moreover have "keeps (s_mem st) m' (live ?rs)" using up(2) m'(7) by simp
    moreover from this have "mem_load m' q (unat n) = mem_load (s_mem st) q (unat n)"
      using m'(4,5) by (auto simp: keeps_def intro: mem_load_prefix)
    moreover have "heap_ok mstart mend (st\<lparr>s_mem := m'\<rparr>) ?rs"
      using up(1) ok starts_update [OF _ m'(3)] rs by (auto simp: heap_ok_def)
    moreover have "keeps (s_mem st) m' (live rs - {(q, j)})"
      by (rule keeps_subset [OF calculation(2)]) (use calculation(1) in auto)
    ultimately show ?thesis
      using some [of q "st\<lparr>s_mem := m'\<rparr>" k ?rs] step 2 m'(1,5) q(3) own by simp
  next
    case 3
    from smalloc_spec [OF assms(1,3,4)] show ?thesis
    proof cases
      case 1
      then show ?thesis using none step 3 by simp
    next
      case (2 ptr st1 rs1 k)
      note some1 = 2
      have h1: "heap (s_mem st1) rs1" "(q, j) \<in> live rs1" "(ptr, k) \<in> live rs1" "(ptr, k) \<noteq> (q, j)"
        using some1(5-7) assms(2) by (auto simp: heap_ok_def image_iff)
      have size: "unat (s_get_actual_block_size (s_mem st1) q) = j"
      proof -
        obtain ls' a' bs' rs' where "(q, j) \<in> lives (a' + 8) bs'" "region (s_mem st1) a' bs'"
          by (rule live_split [OF h1(1,2)])
        then show ?thesis using region_block_size q(2) by (simp add: unat_of_nat_u32)
      qed
      define m2 where "m2 = mem_store (s_mem st1) ptr (mem_load (s_mem st1) q j)"
      have "j \<le> k" using 3 some1(4) by simp
      have w: "heap m2 rs1" "keeps (s_mem st1) m2 (live rs1 - {(ptr, k)})"
        using heap_write [OF h1(1,3), of "mem_load (s_mem st1) q j"] \<open>j \<le> k\<close> by (simp_all add: m2_def)
      have ok2: "heap_ok mstart mend (st1\<lparr>s_mem := m2\<rparr>) rs1" using w(1) some1(5) by (simp add: heap_ok_def)
      obtain st3 rs3 where f: "sfree q (st1\<lparr>s_mem := m2\<rparr>) = Some st3" "heap_ok mstart mend st3 rs3"
        "live rs3 = live rs1 - {(q, j)}" "keeps m2 (s_mem st3) (live rs3)"
        using sfree_spec [OF ok2 h1(2)] by auto
      have l3: "live rs3 = insert (ptr, k) (live rs - {(q, j)})" using f(3) some1(6) h1(4) by auto
      have "(ptr, k) \<notin> live rs" using some1(7) by force
      have "keeps (s_mem st) (s_mem st3) (live rs - {(q, j)})"
      proof (rule keeps_trans [OF keeps_trans])
        show "keeps (s_mem st) (s_mem st1) (live rs - {(q, j)})"
          using some1(8) by (rule keeps_subset) auto
        show "keeps (s_mem st1) m2 (live rs - {(q, j)})"
          using w(2) by (rule keeps_subset) (use some1(6) \<open>(ptr, k) \<notin> live rs\<close> in auto)
        show "keeps m2 (s_mem st3) (live rs - {(q, j)})"
          using f(4) by (rule keeps_subset) (use l3 in auto)
      qed
      moreover have "mem_load (s_mem st3) ptr j = mem_load (s_mem st) q j"
      proof -
        have "mem_load (s_mem st3) ptr k = mem_load m2 ptr k" using f(4) l3 by (auto simp: keeps_def)
        then have "mem_load (s_mem st3) ptr j = mem_load m2 ptr j" using \<open>j \<le> k\<close> by (rule mem_load_prefix)
        also have "\<dots> = mem_load (s_mem st1) q j"
          unfolding m2_def using mem_load_store_same [of "s_mem st1" ptr "mem_load (s_mem st1) q j"] by simp
        also have "\<dots> = mem_load (s_mem st) q j" using some1(8) assms(2) by (auto simp: keeps_def)
        finally show ?thesis .
      qed
      moreover have "srealloc mstart mend q n st = Some (ptr, st3)"
        using step 3 some1(1,2) f(1) size by (simp add: m2_def)
      ultimately show ?thesis using some [of ptr st3 k rs3] some1(2,4,7) f(2) l3 3 by auto
    qed
  qed
qed

end
