(* ===== verification/Salloc_Client.thy ===== *)
theory Salloc_Client
  imports Salloc_Alloc
begin

text \<open>
  The simple allocator as its client sees it: start-up, and any program of allocations, releases,
  resizings and writes, compared with a map from the pointers the client owns to their contents.
\<close>

subsection \<open>Start-up\<close>

text \<open>The regions lie apart and have room for the two guards and a block.\<close>

definition regions_fit :: "u32 list \<Rightarrow> u32 list \<Rightarrow> bool" where
  "regions_fit mstart mend \<longleftrightarrow>
     (\<forall>i < length mstart. platform_get_first_free_ram mstart i \<noteq> 0 \<and>
        unat (platform_get_first_free_ram mstart i) + 24 \<le> unat (platform_get_last_free_ram mend i) \<and>
        (\<forall>j < i. platform_get_last_free_ram mend i \<le> platform_get_first_free_ram mstart j \<or>
           platform_get_last_free_ram mend j \<le> platform_get_first_free_ram mstart i))"

definition init_region :: "u32 list \<Rightarrow> u32 list \<Rightarrow> nat \<Rightarrow> nat \<times> blocks" where
  "init_region mstart mend i = (unat (platform_get_first_free_ram mstart i),
     [(unat (platform_get_last_free_ram mend i) - unat (platform_get_first_free_ram mstart i) - 16, False)])"

definition init_regions :: "u32 list \<Rightarrow> u32 list \<Rightarrow> regions" where
  "init_regions mstart mend = map (init_region mstart mend) [0..<length mstart]"

lemma last_free_ram_aligned: "8 dvd unat (platform_get_last_free_ram mend i)"
  unfolding platform_get_last_free_ram_def Let_def using dvd_push_bit_3 dvd_and_7 by auto

lemma init_region_ok:
  assumes "i < length mstart" "regions_fit mstart mend"
  shows "region (s_init_region mstart mend i m) (fst (init_region mstart mend i)) (snd (init_region mstart mend i))"
    and "x < unat (platform_get_first_free_ram mstart i) \<or> unat (platform_get_last_free_ram mend i) \<le> x \<Longrightarrow>
      s_init_region mstart mend i m x = m x"
proof -
  define f l where "f = platform_get_first_free_ram mstart i" and "l = platform_get_last_free_ram mend i"
  have fit: "0 < unat f" "unat f + 24 \<le> unat l" "unat l < 4294967296" "8 dvd unat f" "8 dvd unat l"
    using assms first_free_ram_aligned last_free_ram_aligned unat_lt_u32 [of l]
    by (auto simp: regions_fit_def f_def l_def unat_gt_0)
  have "unat (f + (l - f) - 8) = unat l - 8" using fit by (simp add: unat_sub word_le_nat_alt)
  then have g2: "unat (platform_get_first_free_ram mstart i + (platform_get_last_free_ram mend i - platform_get_first_free_ram mstart i) - 8) = unat l - 8"
    by (simp add: f_def l_def)
  note init = s_init_region_def [of mstart mend i m, unfolded Let_def g2, folded f_def]
  have al: "8 dvd unat f + 8" "8 dvd unat l - 8" "unat f + 8 + (unat l - unat f - 16) = unat l - 8"
    "unat f + 16 \<le> unat l - 8" "8 dvd unat l - unat f - 16" "8 \<le> unat l - unat f - 16"
    using fit by (auto intro!: dvd_diff_nat)
  show "region (s_init_region mstart mend i m) (fst (init_region mstart mend i)) (snd (init_region mstart mend i))"
    unfolding init region_def init_region_def f_def [symmetric] l_def [symmetric]
    using fit al by (auto simp: header_simps)
  show "x < unat (platform_get_first_free_ram mstart i) \<or> unat (platform_get_last_free_ram mend i) \<le> x \<Longrightarrow>
      s_init_region mstart mend i m x = m x"
    unfolding init f_def [symmetric] l_def [symmetric] using al(4) fit(2) by (auto simp: header_other)
qed

lemma init_regions_apart:
  assumes "regions_fit mstart mend" "j < i" "i < length mstart"
  shows "beyond (init_region mstart mend j) (init_region mstart mend i)"
proof -
  have "fst (init_region mstart mend k) + span (snd (init_region mstart mend k)) + 16 = unat (platform_get_last_free_ram mend k)"
    if "k < length mstart" for k
    using that assms(1) by (auto simp: regions_fit_def init_region_def)
  moreover have "j < length mstart" using assms(2,3) by simp
  ultimately show ?thesis using assms unfolding regions_fit_def beyond_def
    by (auto simp: word_le_nat_alt init_region_def)
qed

lemma s_init_loop_heap:
  assumes "regions_fit mstart mend" "i \<le> length mstart" "heap m (map (init_region mstart mend) [0..<i])"
  shows "heap (s_init_loop mstart mend i m) (init_regions mstart mend)"
  using assms(2,3)
proof (induction "length mstart - i" arbitrary: i m)
  case 0
  then have "platform_get_first_free_ram mstart i = 0" "i = length mstart"
    by (simp_all add: platform_get_first_free_ram_def)
  then show ?case using 0 by (simp add: s_init_loop.simps [of mstart mend "length mstart"] init_regions_def)
next
  case (Suc n)
  then have i: "i < length mstart" by simp
  let ?m = "s_init_region mstart mend i m" and ?r = "init_region mstart mend"
  have old: "region ?m (fst (?r j)) (snd (?r j))" if "j < i" for j
  proof (rule region_cong)
    show "region m (fst (?r j)) (snd (?r j))" using Suc.prems(2) that by (auto simp: heap_def)
    fix x
    assume "fst (?r j) \<le> x" "x < fst (?r j) + span (snd (?r j)) + 16"
    then show "?m x = m x"
      using init_regions_apart [OF assms(1) that i] init_region_ok(2) [OF i assms(1)] assms(1) i
      by (auto simp: beyond_def init_region_def regions_fit_def)
  qed
  have "heap ?m (map ?r [0..<i + 1])"
    using old init_region_ok(1) [OF i assms(1)] Suc.prems(2) init_regions_apart [OF assms(1) _ i]
    by (auto simp: heap_def sorted_wrt_append)
  then have "heap (s_init_loop mstart mend (i + 1) ?m) (init_regions mstart mend)"
    using Suc.hyps i by simp
  moreover have "platform_get_first_free_ram mstart i \<noteq> 0" using assms(1) i by (simp add: regions_fit_def)
  ultimately show ?case by (simp add: s_init_loop.simps [of mstart mend i])
qed

lemma s_init_ok:
  assumes "regions_fit mstart mend"
  shows "heap_ok mstart mend (s_init mstart mend st) (init_regions mstart mend)"
    and "live (init_regions mstart mend) = {}"
proof -
  have "heap (s_init_loop mstart mend 0 (s_mem st)) (init_regions mstart mend)"
    using s_init_loop_heap [OF assms, of 0] by (simp add: heap_def)
  moreover have "starts mstart mend (init_regions mstart mend)"
    using assms by (auto simp: starts_def init_regions_def init_region_def regions_fit_def)
  ultimately show "heap_ok mstart mend (s_init mstart mend st) (init_regions mstart mend)"
    by (simp add: heap_ok_def s_init_def)
  show "live (init_regions mstart mend) = {}"
    by (simp add: live_def init_regions_def init_region_def)
qed

subsection \<open>Client programs\<close>

text \<open>
  The client owns pointers with contents. It releases and resizes only pointers it owns and
  writes only inside its blocks; other requests are skipped. A new block's contents are what the
  memory holds there. \<open>None\<close>: a call did not return.
\<close>

datatype s_op = SMalloc u32 | SFree nat | SRealloc nat u32 | SWrite nat "u8 list"

type_synonym owned = "nat \<rightharpoonup> u8 list"

definition sc_step :: "u32 list \<Rightarrow> u32 list \<Rightarrow> s_op \<Rightarrow> salloc \<times> owned \<Rightarrow> (salloc \<times> owned) option" where
  "sc_step mstart mend op s = (case s of (st, w) \<Rightarrow> (case op of
      SMalloc n \<Rightarrow> map_option (\<lambda>(p, st'). (st', if p = 0 then w else w(p \<mapsto> mem_load (s_mem st') p (unat n))))
        (smalloc mstart mend n st)
    | SFree p \<Rightarrow> if w p = None then Some s else map_option (\<lambda>st'. (st', w(p := None))) (sfree p st)
    | SRealloc p n \<Rightarrow> (case w p of None \<Rightarrow> Some s
        | Some d \<Rightarrow> map_option (\<lambda>(q, st'). (st', if q = 0 then w
            else (w(p := None))(q \<mapsto> take (unat n) d @ drop (length d) (mem_load (s_mem st') q (unat n)))))
            (srealloc mstart mend p n st))
    | SWrite p e \<Rightarrow> (case w p of None \<Rightarrow> Some s
        | Some d \<Rightarrow> if length e \<le> length d then Some (st\<lparr>s_mem := mem_store (s_mem st) p e\<rparr>, w(p \<mapsto> e @ drop (length e) d))
            else Some s)))"

primrec sc_run :: "u32 list \<Rightarrow> u32 list \<Rightarrow> s_op list \<Rightarrow> salloc \<times> owned \<Rightarrow> (salloc \<times> owned) option" where
  "sc_run mstart mend [] s = Some s"
| "sc_run mstart mend (x # xs) s = Option.bind (sc_step mstart mend x s) (sc_run mstart mend xs)"

text \<open>The sizes asked for: not 0, and small enough for the header and the rounding.\<close>

definition size_ok :: "u32 \<Rightarrow> bool" where
  "size_ok n \<longleftrightarrow> n \<noteq> 0 \<and> unat n + 15 < 4294967296"

primrec op_ok :: "s_op \<Rightarrow> bool" where
  "op_ok (SMalloc n) = size_ok n"
| "op_ok (SFree p) = True"
| "op_ok (SRealloc p n) = size_ok n"
| "op_ok (SWrite p e) = True"

text \<open>The client's map agrees with the heap: it owns exactly the live blocks, with their contents.\<close>

definition agrees :: "mem \<Rightarrow> (nat \<times> nat) set \<Rightarrow> owned \<Rightarrow> bool" where
  "agrees m L w \<longleftrightarrow> fst ` L = dom w \<and>
     (\<forall>(p, k) \<in> L. \<forall>d. w p = Some d \<longrightarrow> length d \<le> k \<and> mem_load m p (length d) = d)"

definition sc_inv :: "u32 list \<Rightarrow> u32 list \<Rightarrow> salloc \<times> owned \<Rightarrow> bool" where
  "sc_inv mstart mend s \<longleftrightarrow> (\<exists>rs. heap_ok mstart mend (fst s) rs \<and> agrees (s_mem (fst s)) (live rs) (snd s))"

lemma agreesD:
  assumes "agrees m L w"
  shows "fst ` L = dom w" "(p, k) \<in> L \<Longrightarrow> w p = Some d \<Longrightarrow> length d \<le> k"
    "(p, k) \<in> L \<Longrightarrow> w p = Some d \<Longrightarrow> mem_load m p (length d) = d"
  using assms by (auto simp: agrees_def)

lemma agreesI:
  assumes "fst ` L = dom w"
    and "\<And>p k d. (p, k) \<in> L \<Longrightarrow> w p = Some d \<Longrightarrow> length d \<le> k \<and> mem_load m p (length d) = d"
  shows "agrees m L w"
  using assms by (auto simp: agrees_def)

lemma agrees_keeps:
  assumes "agrees m L w" "keeps m m' L"
  shows "agrees m' L w"
proof (rule agreesI)
  show "fst ` L = dom w" using agreesD(1) [OF assms(1)] .
  fix p k d
  assume p: "(p, k) \<in> L" "w p = Some d"
  have "mem_load m' p k = mem_load m p k" using assms(2) p(1) by (auto simp: keeps_def)
  then show "length d \<le> k \<and> mem_load m' p (length d) = d"
    using agreesD(2,3) [OF assms(1) p] mem_load_prefix by metis
qed

lemma agrees_remove:
  assumes "agrees m L w" "\<And>b c. b \<in> L \<Longrightarrow> c \<in> L \<Longrightarrow> b = c \<or> apart b c" "(p, k) \<in> L"
  shows "agrees m (L - {(p, k)}) (w(p := None))"
proof -
  have uniq: "i = k" if "(p, i) \<in> L" for i
    using assms(2) [OF that assms(3)] by (auto simp: apart_def)
  have "p \<notin> fst ` (L - {(p, k)})"
  proof
    assume "p \<in> fst ` (L - {(p, k)})"
    then obtain i where "(p, i) \<in> L - {(p, k)}" by (metis imageE prod.collapse)
    then show False using uniq by blast
  qed
  moreover have "fst ` L = insert p (fst ` (L - {(p, k)}))"
    using assms(3) by (metis fst_conv image_insert insert_Diff)
  ultimately have "fst ` (L - {(p, k)}) = fst ` L - {p}" by simp
  then have dom: "fst ` (L - {(p, k)}) = dom (w(p := None))" using agreesD(1) [OF assms(1)] by simp
  show ?thesis
  proof (rule agreesI [OF dom])
    fix q i d
    assume "(q, i) \<in> L - {(p, k)}" "(w(p := None)) q = Some d"
    then show "length d \<le> i \<and> mem_load m q (length d) = d"
      using agreesD(2,3) [OF assms(1), of q i d] by (simp split: if_splits)
  qed
qed

lemma agrees_insert:
  assumes "agrees m L w" "length d \<le> k" "mem_load m p (length d) = d" "p \<notin> fst ` L"
  shows "agrees m (insert (p, k) L) (w(p \<mapsto> d))"
proof (rule agreesI)
  show "fst ` insert (p, k) L = dom (w(p \<mapsto> d))" using agreesD(1) [OF assms(1)] by simp
  fix q i e
  assume q: "(q, i) \<in> insert (p, k) L" "(w(p \<mapsto> d)) q = Some e"
  show "length e \<le> i \<and> mem_load m q (length e) = e"
  proof (cases "q = p")
    case True
    have "(p, i) \<notin> L" using assms(4) by (metis fst_conv imageI)
    then show ?thesis using q True assms(2,3) by auto
  next
    case False
    then show ?thesis using q agreesD(2,3) [OF assms(1)] by simp
  qed
qed

lemma take_mem_load: "take k (mem_load m p n) = mem_load m p (min k n)"
  by (rule nth_equalityI) auto

lemma drop_mem_load: "k \<le> n \<Longrightarrow> drop k (mem_load m p n) = mem_load m (p + k) (n - k)"
  by (rule nth_equalityI) (auto simp: add.assoc)

lemma heap_ok_heap: "heap_ok mstart mend st rs \<Longrightarrow> heap (s_mem st) rs"
  by (simp add: heap_ok_def)

lemma sc_step_inv:
  assumes "sc_inv mstart mend s" "op_ok op"
  shows "\<exists>s'. sc_step mstart mend op s = Some s' \<and> sc_inv mstart mend s'"
proof -
  obtain st w where s: "s = (st, w)" by fastforce
  obtain rs where rs: "heap_ok mstart mend st rs" "agrees (s_mem st) (live rs) w"
    using assms(1) s by (auto simp: sc_inv_def)
  note hp = heap_ok_heap [OF rs(1)]
  have own: "\<exists>k. (p, k) \<in> live rs \<and> length d \<le> k \<and> mem_load (s_mem st) p (length d) = d" if "w p = Some d" for p d
  proof -
    have "p \<in> fst ` live rs" using agreesD(1) [OF rs(2)] that by auto
    then obtain k where "(p, k) \<in> live rs" by auto
    then show ?thesis using agreesD(2,3) [OF rs(2)] that by blast
  qed
  show ?thesis
  proof (cases op)
    case (SMalloc n)
    then have n: "n \<noteq> 0" "unat n + 15 < 4294967296" using assms(2) by (simp_all add: size_ok_def)
    from smalloc_spec [OF rs(1) n] show ?thesis
    proof cases
      case 1
      then show ?thesis using SMalloc s assms(1) by (simp add: sc_step_def)
    next
      case (2 p st' rs' k)
      have "agrees (s_mem st') (live rs') (w(p \<mapsto> mem_load (s_mem st') p (unat n)))"
        unfolding 2(6) using agrees_keeps [OF rs(2) 2(8)] 2(4) 2(7) by (intro agrees_insert) simp_all
      then show ?thesis using SMalloc s 2(1,2,5) by (auto simp: sc_step_def sc_inv_def)
    qed
  next
    case (SFree p)
    show ?thesis
    proof (cases "w p")
      case None
      then show ?thesis using SFree s assms(1) by (simp add: sc_step_def)
    next
      case (Some d)
      then obtain k where k: "(p, k) \<in> live rs" using own by blast
      obtain st' rs' where f: "sfree p st = Some st'" "heap_ok mstart mend st' rs'" "live rs' = live rs - {(p, k)}"
        "keeps (s_mem st) (s_mem st') (live rs')"
        using sfree_spec [OF rs(1) k] by blast
      have "agrees (s_mem st) (live rs') (w(p := None))"
        unfolding f(3) by (rule agrees_remove [OF rs(2) live_apart [OF hp] k])
      then show ?thesis using SFree s Some f agrees_keeps by (fastforce simp: sc_step_def sc_inv_def)
    qed
  next
    case (SRealloc p n)
    then have n: "n \<noteq> 0" "unat n + 15 < 4294967296" using assms(2) by (simp_all add: size_ok_def)
    show ?thesis
    proof (cases "w p")
      case None
      then show ?thesis using SRealloc s assms(1) by (simp add: sc_step_def)
    next
      case (Some d)
      then obtain j where j: "(p, j) \<in> live rs" "length d \<le> j" "mem_load (s_mem st) p (length d) = d" using own by blast
      from srealloc_spec [OF rs(1) j(1) n] show ?thesis
      proof cases
        case 1
        then show ?thesis using SRealloc s Some assms(1) by (simp add: sc_step_def)
      next
        case (2 q st' rs' k)
        let ?new = "mem_load (s_mem st') q (unat n)"
        have "mem_load (s_mem st') q (min (length d) (unat n)) = mem_load (s_mem st) p (min (length d) (unat n))"
          by (rule mem_load_prefix [OF 2(8)]) (use j(2) in simp)
        then have "take (length d) ?new = take (unat n) d"
          using j(3) take_mem_load [of "unat n" "s_mem st" p "length d"] by (simp add: take_mem_load min.commute)
        then have new: "take (unat n) d @ drop (length d) ?new = ?new" by (metis append_take_drop_id)
        have "agrees (s_mem st) (live rs - {(p, j)}) (w(p := None))"
          by (rule agrees_remove [OF rs(2) live_apart [OF hp] j(1)])
        then have "agrees (s_mem st') (live rs - {(p, j)}) (w(p := None))" using 2(7) by (rule agrees_keeps)
        then have "agrees (s_mem st') (live rs') ((w(p := None))(q \<mapsto> ?new))"
          unfolding 2(5) using 2(3,6) by (intro agrees_insert) simp_all
        then show ?thesis using SRealloc s Some 2(1,2,4) by (auto simp: sc_step_def sc_inv_def new)
      qed
    qed
  next
    case (SWrite p e)
    show ?thesis
    proof (cases "w p")
      case None
      then show ?thesis using SWrite s assms(1) by (simp add: sc_step_def)
    next
      case (Some d)
      then obtain j where j: "(p, j) \<in> live rs" "length d \<le> j" "mem_load (s_mem st) p (length d) = d" using own by blast
      show ?thesis
      proof (cases "length e \<le> length d")
        case False
        then show ?thesis using SWrite s Some assms(1) by (simp add: sc_step_def)
      next
        case True
        let ?m = "mem_store (s_mem st) p e" and ?d = "e @ drop (length e) d"
        have hw: "heap ?m rs" "keeps (s_mem st) ?m (live rs - {(p, j)})"
          using heap_write [OF hp j(1), of e] True j(2) by simp_all
        have "agrees (s_mem st) (live rs - {(p, j)}) (w(p := None))"
          by (rule agrees_remove [OF rs(2) live_apart [OF hp] j(1)])
        then have "agrees ?m (live rs - {(p, j)}) (w(p := None))" using hw(2) by (rule agrees_keeps)
        moreover have "mem_load ?m p (length ?d) = ?d"
          using mem_load_append [of ?m p "length e" "length d - length e"] True j(3)
            drop_mem_load [of "length e" "length d" "s_mem st" p]
          by (simp add: mem_load_store_same mem_load_store_other)
        moreover have "p \<notin> fst ` (live rs - {(p, j)})" using live_unique [OF hp j(1)] by auto
        ultimately have "agrees ?m (insert (p, j) (live rs - {(p, j)})) ((w(p := None))(p \<mapsto> ?d))"
          using True j(2) by (intro agrees_insert) simp_all
        then have "agrees ?m (live rs) (w(p \<mapsto> ?d))" using j(1) by (simp add: insert_absorb)
        moreover have "heap_ok mstart mend (st\<lparr>s_mem := ?m\<rparr>) rs" using hw(1) rs(1) by (simp add: heap_ok_def)
        ultimately show ?thesis using SWrite s Some True by (auto simp: sc_step_def sc_inv_def)
      qed
    qed
  qed
qed

text \<open>Before the first call the allocator is not initialised and the client owns nothing.\<close>

definition sc_ready :: "u32 list \<Rightarrow> u32 list \<Rightarrow> salloc \<times> owned \<Rightarrow> bool" where
  "sc_ready mstart mend s \<longleftrightarrow> sc_inv mstart mend s \<or> (\<not> s_initialized (fst s) \<and> snd s = Map.empty)"

lemma sc_step_ready:
  assumes "regions_fit mstart mend" "sc_ready mstart mend s" "op_ok op"
  shows "\<exists>s'. sc_step mstart mend op s = Some s' \<and> sc_ready mstart mend s'"
proof (cases "sc_inv mstart mend s")
  case True
  then show ?thesis using sc_step_inv [OF True assms(3)] by (auto simp: sc_ready_def)
next
  case False
  then obtain st where s: "s = (st, Map.empty)" "\<not> s_initialized st"
    using assms(2) by (cases s) (auto simp: sc_ready_def)
  have inv: "sc_inv mstart mend (s_init mstart mend st, Map.empty)"
    using s_init_ok [OF assms(1)] by (auto simp: sc_inv_def intro!: exI [of _ "init_regions mstart mend"] agreesI)
  have "sc_step mstart mend (SMalloc n) s = sc_step mstart mend (SMalloc n) (s_init mstart mend st, Map.empty)" for n
    using s by (simp add: sc_step_def smalloc_def s_init_def)
  note init = this
  show ?thesis
  proof (cases "\<exists>n. op = SMalloc n")
    case True
    then show ?thesis using sc_step_inv [OF inv assms(3)] init unfolding sc_ready_def by metis
  next
    case False
    then have "sc_step mstart mend op s = Some s" using s(1) by (cases op) (simp_all add: sc_step_def)
    then show ?thesis using assms(2) by simp
  qed
qed

lemma sc_run_ready:
  assumes "regions_fit mstart mend" "sc_ready mstart mend s" "\<forall>op \<in> set ops. op_ok op"
  shows "\<exists>s'. sc_run mstart mend ops s = Some s' \<and> sc_ready mstart mend s'"
  using assms(2,3)
proof (induction ops arbitrary: s)
  case (Cons op ops)
  obtain s1 where "sc_step mstart mend op s = Some s1" "sc_ready mstart mend s1"
    using sc_step_ready [OF assms(1) Cons.prems(1), of op] Cons.prems(2) by auto
  then show ?case using Cons.IH [of s1] Cons.prems(2) by simp
qed simp

lemma live_in_region:
  assumes "heap_ok mstart mend st rs" "(p, k) \<in> live rs"
  shows "\<exists>i < length mstart. unat (platform_get_first_free_ram mstart i) + 16 \<le> p \<and>
    p + k + 8 \<le> unat (platform_get_last_free_ram mend i)"
proof -
  obtain i where i: "i < length rs" "(p, k) \<in> lives (fst (rs ! i) + 8) (snd (rs ! i))"
    using assms(2) by (auto simp: live_def in_set_conv_nth)
  have "region (s_mem st) (fst (rs ! i)) (snd (rs ! i))" using assms(1) i(1) by (simp add: heap_ok_def heap_def)
  from lives_range [OF i(2) region_sizes [OF this]] show ?thesis
    using assms(1) i(1) by (intro exI [of _ i]) (auto simp: heap_ok_def starts_def)
qed

text \<open>With nothing live, a region is a single free block.\<close>

lemma lives_empty_single:
  assumes "lives a bs = {}" "coalesced bs" "0 < span bs"
  shows "bs = [(span bs, False)]"
proof (cases bs)
  case Nil
  then show ?thesis using assms(3) by simp
next
  case (Cons b bs')
  then have b: "b = (fst b, False)" using assms(1) by (cases b) (auto split: if_splits)
  have "bs' = []"
  proof (cases bs')
    case (Cons c cs)
    then have "\<not> snd c" using assms(1) \<open>bs = b # bs'\<close> by (cases b; cases c) (auto split: if_splits)
    then show ?thesis using assms(2) \<open>bs = b # bs'\<close> Cons b by (metis snd_conv successively.simps(3))
  qed simp
  then show ?thesis using Cons b by simp
qed

lemma s_back_loop:
  assumes "s_is_block_free m p" "s_get_prev_block m p = p"
  shows "s_back m p = None"
proof -
  have "\<not> (s_is_block_free m p \<and> s_get_prev_block m p = p)" if "s_back m p = Some r" for r
  proof (rule s_back.raw_induct [where P = "\<lambda>m p r. \<not> (s_is_block_free m p \<and> s_get_prev_block m p = p)", OF _ that])
    fix s_back' m p r
    assume IH: "\<And>m p r. s_back' m p = Some r \<Longrightarrow> \<not> (s_is_block_free m p \<and> s_get_prev_block m p = p)"
      and step: "(if s_is_block_free m p then s_back' m (s_get_prev_block m p) else Some p) = Some r"
    show "\<not> (s_is_block_free m p \<and> s_get_prev_block m p = p)"
      using IH [of m p r] step by (auto split: if_splits)
  qed
  then show ?thesis using assms by (cases "s_back m p") auto
qed

subsection \<open>Properties\<close>

text \<open>C2. Client data is safe: from the uninitialised allocator on, in regions that lie apart, every
  program of allocations, releases, resizings (of sizes not within 15 bytes of 4 GB) and writes
  runs to its end (no call hangs), and every block the client then owns holds exactly what the
  client last had in it, lies inside a region, and shares no byte with another owned block.\<close>

theorem salloc_client_data_safe:
  assumes "regions_fit mstart mend" "\<not> s_initialized st0" "\<forall>op \<in> set ops. op_ok op"
  shows "\<exists>st w. sc_run mstart mend ops (st0, Map.empty) = Some (st, w) \<and>
    (\<forall>p d. w p = Some d \<longrightarrow> p \<noteq> 0 \<and> mem_load (s_mem st) p (length d) = d \<and>
       (\<exists>i < length mstart. unat (platform_get_first_free_ram mstart i) \<le> p \<and>
          p + length d \<le> unat (platform_get_last_free_ram mend i)) \<and>
       (\<forall>q e. w q = Some e \<longrightarrow> q \<noteq> p \<longrightarrow> p + length d \<le> q \<or> q + length e \<le> p))"
proof -
  have "sc_ready mstart mend (st0, Map.empty)" using assms(2) by (simp add: sc_ready_def)
  then obtain st w where run: "sc_run mstart mend ops (st0, Map.empty) = Some (st, w)" "sc_ready mstart mend (st, w)"
    using sc_run_ready [OF assms(1) _ assms(3)] by (metis surj_pair)
  have owned: "p \<noteq> 0 \<and> mem_load (s_mem st) p (length d) = d \<and>
       (\<exists>i < length mstart. unat (platform_get_first_free_ram mstart i) \<le> p \<and>
          p + length d \<le> unat (platform_get_last_free_ram mend i)) \<and>
       (\<forall>q e. w q = Some e \<longrightarrow> q \<noteq> p \<longrightarrow> p + length d \<le> q \<or> q + length e \<le> p)" if d: "w p = Some d" for p d
  proof -
    obtain rs where rs: "heap_ok mstart mend st rs" "agrees (s_mem st) (live rs) w"
      using run(2) d by (auto simp: sc_ready_def sc_inv_def)
    have own: "\<exists>k. (q, k) \<in> live rs \<and> length e \<le> k \<and> mem_load (s_mem st) q (length e) = e" if "w q = Some e" for q e
    proof -
      have "q \<in> fst ` live rs" using agreesD(1) [OF rs(2)] that by auto
      then obtain k where "(q, k) \<in> live rs" by auto
      then show ?thesis using agreesD(2,3) [OF rs(2)] that by blast
    qed
    obtain k where k: "(p, k) \<in> live rs" "length d \<le> k" "mem_load (s_mem st) p (length d) = d" using own [OF d] by blast
    obtain i where i: "i < length mstart" "unat (platform_get_first_free_ram mstart i) + 16 \<le> p"
      "p + k + 8 \<le> unat (platform_get_last_free_ram mend i)" using live_in_region [OF rs(1) k(1)] by blast
    have "p + length d \<le> q \<or> q + length e \<le> p" if "w q = Some e" "q \<noteq> p" for q e
    proof -
      note q = that
      obtain l where l: "(q, l) \<in> live rs" "length e \<le> l" using own [OF q(1)] by blast
      have "apart (p, k) (q, l)" using live_apart [OF heap_ok_heap [OF rs(1)] k(1) l(1)] q(2) by simp
      then show ?thesis using k(2) l(2) by (auto simp: apart_def)
    qed
    moreover have "p \<noteq> 0" "p + length d \<le> unat (platform_get_last_free_ram mend i)"
      "unat (platform_get_first_free_ram mstart i) \<le> p" using i(2,3) k(2) by simp_all
    ultimately show ?thesis using k(3) i(1) by blast
  qed
  then show ?thesis using run(1) by blast
qed

text \<open>C14. No memory is ever lost: when a client program has released everything it owned, the next
  allocation succeeds for every size that would have fitted a fresh region, however the
  releases were ordered.\<close>

theorem salloc_recovers_memory:
  assumes "regions_fit mstart mend" "\<not> s_initialized st0" "\<forall>op \<in> set ops. op_ok op"
    and "sc_run mstart mend ops (st0, Map.empty) = Some (st, Map.empty)"
    and "size_ok n" "i < length mstart"
    and "s_round n + 16 \<le> unat (platform_get_last_free_ram mend i) - unat (platform_get_first_free_ram mstart i)"
  shows "\<exists>p st'. smalloc mstart mend n st = Some (p, st') \<and> p \<noteq> 0"
proof -
  have n: "n \<noteq> 0" "unat n + 15 < 4294967296" using assms(5) by (simp_all add: size_ok_def)
  have "sc_ready mstart mend (st0, Map.empty)" using assms(2) by (simp add: sc_ready_def)
  then have ready: "sc_ready mstart mend (st, Map.empty)"
    using sc_run_ready [OF assms(1) _ assms(3)] assms(4) by fastforce
  obtain st1 rs where st1: "heap_ok mstart mend st1 rs" "live rs = {}" "smalloc mstart mend n st = smalloc mstart mend n st1"
  proof (cases "s_initialized st")
    case True
    then obtain rs where "heap_ok mstart mend st rs" "agrees (s_mem st) (live rs) Map.empty"
      using ready by (auto simp: sc_ready_def sc_inv_def)
    moreover have "live rs = {}" using agreesD(1) [OF calculation(2)] by simp
    ultimately show ?thesis using that by blast
  next
    case False
    then have "smalloc mstart mend n st = smalloc mstart mend n (s_init mstart mend st)"
      by (simp add: smalloc_def s_init_def)
    then show ?thesis using that s_init_ok [OF assms(1)] by blast
  qed
  have len: "i < length rs" and starts: "fst (rs ! i) = unat (platform_get_first_free_ram mstart i)"
    "fst (rs ! i) + span (snd (rs ! i)) + 16 = unat (platform_get_last_free_ram mend i)"
    using st1(1) assms(6) by (auto simp: heap_ok_def starts_def)
  have "lives (fst (rs ! i) + 8) (snd (rs ! i)) = {}" using st1(2) len by (auto simp: live_def)
  moreover have "coalesced (snd (rs ! i))" using st1(1) len by (simp add: heap_ok_def heap_def region_def)
  moreover have fits: "s_round n \<le> span (snd (rs ! i))" using starts assms(7) by simp
  ultimately have "snd (rs ! i) = [(span (snd (rs ! i)), False)]"
    using s_round(3) [OF n(1)] by (intro lives_empty_single) simp_all
  then have free: "(span (snd (rs ! i)), False) \<in> set (snd (rs ! i))" by (metis list.set_intros(1))
  from smalloc_spec [OF st1(1) n] show ?thesis
  proof cases
    case 1
    then show ?thesis using free fits len by (meson leD nth_mem)
  next
    case 2
    then show ?thesis using st1(3) by auto
  qed
qed

text \<open>The rounded size of a request within 15 and 8 bytes of 4 GB is 0.\<close>

lemma s_act_size_wraps:
  assumes "0xFFFFFFF1 \<le> n" "n \<le> 0xFFFFFFF8"
  shows "s_act_size (n + 8) = 0"
proof -
  have "unat n \<ge> 4294967281" "unat n \<le> 4294967288" using assms by (simp_all add: word_le_nat_alt)
  then consider "unat n = 4294967281" | "unat n = 4294967282" | "unat n = 4294967283" | "unat n = 4294967284"
    | "unat n = 4294967285" | "unat n = 4294967286" | "unat n = 4294967287" | "unat n = 4294967288" by linarith
  then have "n \<in> {4294967281, 4294967282, 4294967283, 4294967284, 4294967285, 4294967286, 4294967287, 4294967288}"
    by cases (auto simp: word_unat_eq_iff)
  then show ?thesis by (auto simp: s_act_size_def)
qed

lemma s_split_zero_hangs:
  assumes "8 dvd p" "0 < p" "p < 4294967296" "8 dvd s_get_next_block m p" "s_get_next_block m p < 4294967296" "s_get_next_block m p \<noteq> p"
  shows "s_split m p 0 = None"
proof -
  let ?n = "s_get_next_block m p"
  define m5 where "m5 = s_mark_block_free (s_set_next_block (s_set_prev_block (s_set_next_block (s_set_prev_block m p p) p ?n) ?n p) p p) p"
  have "s_back m5 p = None"
    using assms by (intro s_back_loop) (simp_all add: m5_def header_simps)
  then show ?thesis by (simp add: s_split_def s_compact_free_def Let_def m5_def)
qed

text \<open>The size computation of \<^verbatim>\<open>smalloc\<close> is not protected against overflow: a request within 15 to
  8 bytes of 4 GB is rounded to size 0, links the chosen free block to itself and never returns
  (instead of returning NULL).\<close>

theorem smalloc_size_wrap_hangs:
  assumes "heap_ok mstart mend st ((a, bs) # rs)" "(sz, False) \<in> set bs" "\<forall>s. (s, False) \<in> set bs \<longrightarrow> 16 \<le> s"
    and "0xFFFFFFF1 \<le> n" "n \<le> 0xFFFFFFF8"
  shows "smalloc mstart mend n st = None"
proof -
  let ?m = "s_mem st"
  have reg: "region ?m a bs" and start: "platform_get_first_free_ram mstart 0 \<noteq> 0" "unat (platform_get_first_free_ram mstart 0) = a"
    and init: "s_initialized st"
    using assms(1) by (auto simp: heap_ok_def heap_def starts_def region_def)
  have g: "guarded ?m a (a + 8) bs" "s_get_next_block ?m a = a + 8" "a + 8 + span bs < 4294967296" "8 dvd a"
    using reg by (simp_all add: region_def)
  obtain pb mn where b: "best 0 (a + 8) bs (0, 4294967295) = (pb, mn)" by fastforce
  have top: "(4294967295 :: u32) = -1" by simp
  have best: "s_best ?m 0 (a + 8) (0, -1) = Some (pb, of_nat mn)"
    using s_best_spec [OF g(1) _ g(3), of "(0, 4294967295)" 0] b by (simp add: top)
  have "sz \<le> span bs" unfolding span_def using assms(2) member_le_sum_list [of sz "map fst bs"] by force
  moreover have "mn \<le> sz" using best_spec [OF b] assms(2) by blast
  ultimately obtain xs ys where bs: "bs = xs @ (mn, False) # ys" "pb = a + 8 + span xs"
    using best_spec [OF b] g(3) by auto
  have mn: "16 \<le> mn" "mn < 4294967296" using bs(1) assms(3) g(3) by auto
  note parts = region_parts [OF reg [unfolded bs(1)]]
  note mark = region_mark_taken [OF reg [unfolded bs(1)] bs(2)]
  let ?m1 = "s_mark_block_taken ?m pb"
  obtain e where e: "chain ?m1 0 a ((8, True) # xs) e" "guarded ?m1 (fst e) (snd e) ((mn, True) # ys)"
    using mark(1) guarded_append [of ?m1 0 a "(8, True) # xs"] unfolding region_def by (metis append_Cons)
  have "snd e = pb" using chain_end [OF e(1)] bs(2) by simp
  then have nxt: "s_get_next_block ?m1 pb = pb + mn" using e(2) by simp
  have "s_split ?m1 pb 0 = None"
  proof (rule s_split_zero_hangs)
    show "8 dvd pb" "0 < pb" "pb < 4294967296" using parts(5) bs g(3) by auto
    show "8 dvd s_get_next_block ?m1 pb" "s_get_next_block ?m1 pb \<noteq> pb" using nxt parts(4,5) bs(2) mn(1) by auto
    show "s_get_next_block ?m1 pb < 4294967296" using nxt g(3) bs by simp
  qed
  moreover have "(of_nat mn :: u32) > 0" "(of_nat mn :: u32) \<ge> DYN_MIN_SPLIT_SIZE"
    using mn by (simp_all add: word_less_nat_alt word_le_nat_alt unat_of_nat_u32)
  moreover have "n \<noteq> 0" using assms(4) by auto
  ultimately have "s_get_free_block n a ?m = None"
    using s_act_size_wraps [OF assms(4,5)] best g(2) bs(2) by (simp add: s_get_free_block_def Let_def)
  then show ?thesis using start init by (simp add: smalloc_def smalloc_loop.simps [of mstart n 0])
qed

subsection \<open>Witnesses\<close>

definition sc_demo :: salloc where
  "sc_demo = \<lparr>s_initialized = False, s_mem = (\<lambda>_. 0)\<rparr>"

lemma sc_demo_fit: "regions_fit [0x1004, 0x8000] [0x2000, 0x9000]" "\<not> s_initialized sc_demo"
  by (auto simp: regions_fit_def platform_get_first_free_ram_def platform_get_last_free_ram_def less_Suc_eq sc_demo_def)

theorem salloc_client_data_safe_witness:
  "\<exists>st w. sc_run [0x1004, 0x8000] [0x2000, 0x9000] [SMalloc 10, SMalloc 20, SWrite 0x1018 [1, 2, 3], SRealloc 0x1018 40, SFree 0x1030]
      (sc_demo, Map.empty) = Some (st, w) \<and> (\<forall>p d. w p = Some d \<longrightarrow> mem_load (s_mem st) p (length d) = d)"
  using salloc_client_data_safe [OF sc_demo_fit, of "[SMalloc 10, SMalloc 20, SWrite 0x1018 [1, 2, 3], SRealloc 0x1018 40, SFree 0x1030]"]
  by (fastforce simp: size_ok_def simp del: sc_run.simps)

theorem salloc_recovers_memory_witness:
  "\<exists>p st. sc_run [0x1004, 0x8000] [0x2000, 0x9000] [SMalloc 10, SFree p] (sc_demo, Map.empty) = Some (st, Map.empty) \<and>
     (\<exists>q st'. smalloc [0x1004, 0x8000] [0x2000, 0x9000] 0xFD0 st = Some (q, st') \<and> q \<noteq> 0)"
proof -
  note rec = salloc_recovers_memory [OF sc_demo_fit]
  have room: "s_round 10 + 16 \<le> unat (platform_get_last_free_ram [0x2000, 0x9000] 1) - unat (platform_get_first_free_ram [0x1004, 0x8000] 1)"
    "s_round 0xFD0 + 16 \<le> unat (platform_get_last_free_ram [0x2000, 0x9000] 1) - unat (platform_get_first_free_ram [0x1004, 0x8000] 1)"
    by (simp_all add: s_round_def platform_get_last_free_ram_def platform_get_first_free_ram_def)
  obtain p st1 where p: "smalloc [0x1004, 0x8000] [0x2000, 0x9000] 10 sc_demo = Some (p, st1)" "p \<noteq> 0"
    using rec [of "[]" sc_demo, where n = 10 and i = 1] room(1) by (auto simp: size_ok_def)
  obtain st w where run: "sc_run [0x1004, 0x8000] [0x2000, 0x9000] [SMalloc 10, SFree p] (sc_demo, Map.empty) = Some (st, w)"
    using sc_run_ready [OF sc_demo_fit(1), of "(sc_demo, Map.empty)" "[SMalloc 10, SFree p]"] sc_demo_fit(2)
    by (auto simp: sc_ready_def size_ok_def simp del: sc_run.simps)
  then have "w = Map.empty" using p by (auto simp: sc_step_def bind_eq_Some_conv)
  with run have run: "sc_run [0x1004, 0x8000] [0x2000, 0x9000] [SMalloc 10, SFree p] (sc_demo, Map.empty) = Some (st, Map.empty)" by simp
  show ?thesis using run rec [of "[SMalloc 10, SFree p]" st, where n = "0xFD0" and i = 1] room(2) by (auto simp: size_ok_def simp del: sc_run.simps)
qed

theorem smalloc_size_wrap_hangs_witness:
  "smalloc [0x1004, 0x8000] [0x2000, 0x9000] 0xFFFFFFF8 (s_init [0x1004, 0x8000] [0x2000, 0x9000] sc_demo) = None"
proof -
  have "init_regions [0x1004, 0x8000] [0x2000, 0x9000] = [(0x1008, [(0xFE8, False)]), (0x8000, [(0xFF0, False)])]"
    by (simp add: init_regions_def init_region_def platform_get_last_free_ram_def platform_get_first_free_ram_def upt_conv_Cons)
  then show ?thesis
    using smalloc_size_wrap_hangs [where bs = "[(0xFE8, False)]" and sz = "0xFE8" and n = "0xFFFFFFF8"]
      s_init_ok(1) [OF sc_demo_fit(1), of sc_demo] by simp
qed

end
