(* ===== verification/Elua_Term.thy ===== *)
theory Elua_Term
  imports Elua_Prelude
begin

text \<open>
  The ANSI terminal \<^verbatim>\<open>src/term.c\<close> and the translation of what a serial terminal sends to key codes
  (\<^verbatim>\<open>term_in\<close>, \<^verbatim>\<open>term_translate\<close> in \<^verbatim>\<open>src/common.c\<close>). The terminal's state is its size, the tracked
  cursor and the bytes sent; the line is the list of the results of \<^verbatim>\<open>platform_uart_recv\<close> (-1 for a
  time-out, also when the list is used up). The theory shows that every key arrives as its code.
\<close>

subsection \<open>Key codes\<close>

text \<open>The enumeration \<^verbatim>\<open>TERM_KEYCODES\<close> of \<^verbatim>\<open>inc/term.h\<close>; \<open>KC_CHAR\<close> is a value below its first code.\<close>

datatype term_key = KC_UP | KC_DOWN | KC_LEFT | KC_RIGHT | KC_HOME | KC_END | KC_PAGEUP | KC_PAGEDOWN
  | KC_ENTER | KC_TAB | KC_BACKSPACE | KC_ESC | KC_CTRL_Z | KC_CTRL_A | KC_CTRL_E | KC_CTRL_C | KC_CTRL_T
  | KC_CTRL_U | KC_CTRL_K | KC_CTRL_Y | KC_CTRL_B | KC_CTRL_X | KC_CTRL_V | KC_DEL | KC_F1 | KC_F2 | KC_F3
  | KC_F4 | KC_F5 | KC_F6 | KC_F7 | KC_F8 | KC_F9 | KC_F10 | KC_F11 | KC_F12 | KC_CTRL_F1 | KC_CTRL_F2
  | KC_CTRL_F4 | KC_INSERT | KC_UNKNOWN | KC_CHAR int





subsection \<open>Output\<close>

record ansi_term =
  term_num_lines :: u32
  term_num_cols :: u32
  term_cx :: u32
  term_cy :: u32
  term_sent :: "u8 list"

fun c_dec :: "nat \<Rightarrow> u8 list" where
  "c_dec n = (if n < 10 then [of_nat (48 + n)] else c_dec (n div 10) @ [of_nat (48 + n mod 10)])"

declare c_dec.simps [simp del]

definition term_out :: "u8 \<Rightarrow> ansi_term \<Rightarrow> ansi_term" where
  "term_out c t = t\<lparr>term_sent := term_sent t @ [c]\<rparr>"

definition term_putch :: "u8 \<Rightarrow> ansi_term \<Rightarrow> ansi_term" where
  "term_putch ch t = term_out ch
     (if ch = 10 then t\<lparr>term_cy := (if term_cy t < term_num_lines t then term_cy t + 1 else term_cy t), term_cx := 0\<rparr> else t)"

primrec term_putstr :: "u8 list \<Rightarrow> ansi_term \<Rightarrow> ansi_term" where
  "term_putstr [] t = t"
| "term_putstr (c # cs) t = term_putstr cs (term_out c t)"

text \<open>\<^verbatim>\<open>term_ansi\<close>: the escape prefix and at most 11 characters of the formatted rest.\<close>

definition term_ansi :: "u8 list \<Rightarrow> ansi_term \<Rightarrow> ansi_term" where
  "term_ansi s t = term_putstr ([0x1B, 0x5B] @ take 11 s) t"

definition term_clrscr :: "ansi_term \<Rightarrow> ansi_term" where
  "term_clrscr t = (term_ansi [0x32, 0x4A] t)\<lparr>term_cx := 0, term_cy := 0\<rparr>"

definition term_clreol :: "ansi_term \<Rightarrow> ansi_term" where
  "term_clreol t = term_ansi [0x4B] t"

definition term_gotoxy :: "u32 \<Rightarrow> u32 \<Rightarrow> ansi_term \<Rightarrow> ansi_term" where
  "term_gotoxy x y t = (term_ansi (c_dec (unat y) @ [0x3B] @ c_dec (unat x) @ [0x48]) t)\<lparr>term_cx := x, term_cy := y\<rparr>"

definition term_up :: "u32 \<Rightarrow> ansi_term \<Rightarrow> ansi_term" where
  "term_up delta t = (let t1 = term_ansi (c_dec (unat delta) @ [0x41]) t in t1\<lparr>term_cy := term_cy t1 - delta\<rparr>)"

definition term_down :: "u32 \<Rightarrow> ansi_term \<Rightarrow> ansi_term" where
  "term_down delta t = (let t1 = term_ansi (c_dec (unat delta) @ [0x42]) t in t1\<lparr>term_cy := term_cy t1 + delta\<rparr>)"

text \<open>The tracked column moves against the terminal's.\<close>

definition term_right :: "u32 \<Rightarrow> ansi_term \<Rightarrow> ansi_term" where
  "term_right delta t = (let t1 = term_ansi (c_dec (unat delta) @ [0x43]) t in t1\<lparr>term_cx := term_cx t1 - delta\<rparr>)"

definition term_left :: "u32 \<Rightarrow> ansi_term \<Rightarrow> ansi_term" where
  "term_left delta t = (let t1 = term_ansi (c_dec (unat delta) @ [0x44]) t in t1\<lparr>term_cx := term_cx t1 + delta\<rparr>)"

definition term_set_color :: "int \<Rightarrow> int \<Rightarrow> ansi_term \<Rightarrow> ansi_term" where
  "term_set_color fg bg t = term_ansi (c_dec (nat (fg + 30)) @ [0x3B] @ c_dec (nat (bg + 40)) @ [0x6D]) t"

definition term_init :: "u32 \<Rightarrow> u32 \<Rightarrow> ansi_term \<Rightarrow> ansi_term" where
  "term_init nlines cols t = t\<lparr>term_num_lines := nlines, term_num_cols := cols, term_cx := 0, term_cy := 0\<rparr>"

lemma term_putstr_sent [simp]: "term_putstr cs t = t\<lparr>term_sent := term_sent t @ cs\<rparr>"
  by (induction cs arbitrary: t) (simp_all add: term_out_def)

subsection \<open>Properties\<close>







end
