(* ===== verification/Linenoise.thy ===== *)
theory Linenoise
  imports Elua_Term
begin

text \<open>
  The line editor \<^verbatim>\<open>src/linenoise.c\<close>: editing a line in a byte array with cursor, scrolling display
  and history. The history of one component (Lua or shell; the other's is not touched) is the
  list of its entries, \<open>None\<close> for an entry whose \<^verbatim>\<open>strdup\<close> failed; the results of the coming
  allocations are a list (a list that is used up means success). The keys typed are a list; when
  it is used up the editor waits for ever, which is the result \<open>None\<close>.
\<close>

abbreviation LINENOISE_CTRL_C :: int where "LINENOISE_CTRL_C \<equiv> -2"
abbreviation LINENOISE_HISTORY_NOT_ENABLED :: int where "LINENOISE_HISTORY_NOT_ENABLED \<equiv> -2"
abbreviation LINENOISE_HISTORY_EMPTY :: int where "LINENOISE_HISTORY_EMPTY \<equiv> -3"

subsection \<open>History\<close>

text \<open>\<open>h_list = None\<close>: the array of pointers is not allocated. The size limit is a constant of the build.\<close>

record ln_hist =
  h_list :: "u8 list option list option"
  h_alloc :: "bool list"

definition ln_malloc :: "ln_hist \<Rightarrow> bool \<times> ln_hist" where
  "ln_malloc h = (case h_alloc h of [] \<Rightarrow> (True, h) | b # bs \<Rightarrow> (b, h\<lparr>h_alloc := bs\<rparr>))"

definition history_length :: "ln_hist \<Rightarrow> nat" where
  "history_length h = (case h_list h of None \<Rightarrow> 0 | Some l \<Rightarrow> length l)"

definition linenoise_cleanup :: "ln_hist \<Rightarrow> ln_hist" where
  "linenoise_cleanup h = h\<lparr>h_list := None\<rparr>"

text \<open>A line goes in at the end; the oldest one leaves when the list is full.\<close>

definition ln_push :: "nat \<Rightarrow> u8 list option \<Rightarrow> ln_hist \<Rightarrow> ln_hist" where
  "ln_push cap e h = (case h_list h of
      None \<Rightarrow> h
    | Some l \<Rightarrow> h\<lparr>h_list := Some ((if length l = cap then drop 1 l else l) @ [e])\<rparr>)"

lemma length_tl_dropWhile: "dropWhile P l \<noteq> [] \<Longrightarrow> length (tl (dropWhile P l)) < length l"
  using length_dropWhile_le [of P l] by (cases "dropWhile P l") auto

text \<open>The loop over the lines of the text; \<open>False\<close> if an allocation failed.\<close>

function ln_add_loop :: "nat \<Rightarrow> bool \<Rightarrow> u8 list \<Rightarrow> ln_hist \<Rightarrow> bool \<times> ln_hist" where
  "ln_add_loop cap force line h =
     (let first = takeWhile (\<lambda>c. c \<noteq> 10) line; p = dropWhile (\<lambda>c. c \<noteq> 10) line in
      case (if first \<noteq> [] \<or> force
            then (case ln_malloc h of (got, h') \<Rightarrow> if got then (True, ln_push cap (Some first) h') else (False, h'))
            else (True, h)) of
        (ok, h1) \<Rightarrow>
          if \<not> ok then (False, h1)
          else if p = [] then (True, h1)
          else if tl p = [] then (True, h1)
          else ln_add_loop cap force (tl p) h1)"
  by pat_completeness auto
termination
  by (relation "measure (\<lambda>(cap, force, line, h). length line)") (simp_all del: length_tl dropWhile_eq_Nil_conv add: length_tl_dropWhile)

declare ln_add_loop.simps [simp del]

definition linenoise_internal_addhistory :: "nat \<Rightarrow> bool \<Rightarrow> u8 list \<Rightarrow> ln_hist \<Rightarrow> int \<times> ln_hist" where
  "linenoise_internal_addhistory cap force line h =
     (if cap = 0 then (0, h)
      else (case h_list h of
          None \<Rightarrow> (case ln_malloc h of (got, h1) \<Rightarrow>
            if \<not> got then (0, h1)
            else (case ln_add_loop cap force line (h1\<lparr>h_list := Some []\<rparr>) of (ok, h2) \<Rightarrow> (of_bool ok, h2)))
        | Some _ \<Rightarrow> (case ln_add_loop cap force line h of (ok, h2) \<Rightarrow> (of_bool ok, h2))))"

definition linenoise_addhistory :: "nat \<Rightarrow> u8 list \<Rightarrow> ln_hist \<Rightarrow> int \<times> ln_hist" where
  "linenoise_addhistory cap line h = linenoise_internal_addhistory cap False line h"

text \<open>Saving: \<open>opened\<close> tells whether the file could be opened; the bytes written are the result. A
  missing entry is printed as \<^verbatim>\<open>(null)\<close>.\<close>

definition linenoise_savehistory :: "nat \<Rightarrow> bool \<Rightarrow> ln_hist \<Rightarrow> int \<times> u8 list" where
  "linenoise_savehistory cap opened h =
     (if cap = 0 then (LINENOISE_HISTORY_NOT_ENABLED, [])
      else if history_length h = 0 then (LINENOISE_HISTORY_EMPTY, [])
      else if \<not> opened then (-1, [])
      else (0, concat (map (\<lambda>e. (case e of Some s \<Rightarrow> s | None \<Rightarrow> [40, 110, 117, 108, 108, 41]) @ [10]) (the (h_list h)))))"

subsection \<open>The display\<close>

text \<open>The two loops of \<^verbatim>\<open>refreshLine\<close>; a prompt as wide as the screen makes the sizes wrap around.\<close>

fun ln_scroll :: "nat \<Rightarrow> nat \<Rightarrow> nat \<times> nat \<times> nat \<Rightarrow> c_fault + (nat \<times> nat \<times> nat)" where
  "ln_scroll plen cols (off, len, pos) =
     (if plen + pos \<ge> cols then (if pos = 0 \<or> len = 0 then Inl OutOfBounds else ln_scroll plen cols (off + 1, len - 1, pos - 1))
      else Inr (off, len, pos))"

fun ln_trim :: "nat \<Rightarrow> nat \<Rightarrow> nat \<Rightarrow> c_fault + nat" where
  "ln_trim plen cols len =
     (if plen + len > cols then (if len = 0 then Inl OutOfBounds else ln_trim plen cols (len - 1)) else Inr len)"

declare ln_scroll.simps [simp del] ln_trim.simps [simp del]

text \<open>The constants of a component: prompt, its color, the line's color, the columns, the size of the history.\<close>

record ln_conf =
  ln_prompt :: "u8 list"
  ln_pcol :: "u8 list"
  ln_lcol :: "u8 list"
  ln_cols :: nat
  ln_cap :: nat

definition esc_seq :: "u8 list \<Rightarrow> u8 list" where
  "esc_seq s = take 15 ([0x1B, 0x5B] @ s)"

definition refreshLine :: "ln_conf \<Rightarrow> u8 list \<Rightarrow> nat \<Rightarrow> nat \<Rightarrow> c_fault + u8 list" where
  "refreshLine cf buf len0 pos0 =
     (let plen = length (ln_prompt cf) in
      case ln_scroll plen (ln_cols cf) (0, len0, pos0) of
        Inl e \<Rightarrow> Inl e
      | Inr (off, len1, pos) \<Rightarrow> (case ln_trim plen (ln_cols cf) len1 of
          Inl e \<Rightarrow> Inl e
        | Inr len \<Rightarrow>
            if off + len > length buf then Inl OutOfBounds
            else Inr (esc_seq [0x30, 0x47] @ ln_pcol cf @ ln_prompt cf @ ln_lcol cf @ take len (drop off buf)
                      @ esc_seq [0x30, 0x4B] @ esc_seq (c_dec (pos + plen) @ [0x47]))))"

subsection \<open>Editing\<close>

text \<open>The editor's variables, the byte array, the history and what was sent to the terminal.\<close>

record ln_edit =
  le_buf :: "u8 list"
  le_pos :: nat
  le_len :: nat
  le_hidx :: int
  le_hist :: ln_hist
  le_out :: "u8 list"

definition ln_set :: "nat \<Rightarrow> u8 \<Rightarrow> u8 list \<Rightarrow> c_fault + u8 list" where
  "ln_set i v buf = (if i < length buf then Inr (buf[i := v]) else Inl OutOfBounds)"

definition ln_memmove :: "nat \<Rightarrow> nat \<Rightarrow> nat \<Rightarrow> u8 list \<Rightarrow> c_fault + u8 list" where
  "ln_memmove d s n buf =
     (if d + n \<le> length buf \<and> s + n \<le> length buf then Inr (overwrite buf d (take n (drop s buf))) else Inl OutOfBounds)"

definition ln_refresh :: "ln_conf \<Rightarrow> ln_edit \<Rightarrow> c_fault + ln_edit" where
  "ln_refresh cf e = ebind (refreshLine cf (le_buf e) (le_len e) (le_pos e)) (\<lambda>out. Inr (e\<lparr>le_out := le_out e @ out\<rparr>))"

definition c_cstr :: "u8 list \<Rightarrow> u8 list" where
  "c_cstr buf = takeWhile (\<lambda>c. c \<noteq> 0) buf"

text \<open>\<^verbatim>\<open>strncpy( buf, s, n )\<close> pads with zeros.\<close>

definition ln_strncpy :: "u8 list \<Rightarrow> nat \<Rightarrow> u8 list \<Rightarrow> c_fault + u8 list" where
  "ln_strncpy s n buf =
     (if n \<le> length buf then Inr (overwrite buf 0 (take n s @ replicate (n - length s) 0)) else Inl OutOfBounds)"

text \<open>The end of input: the last history entry, which held the line in progress, is freed.\<close>

definition ln_pop :: "ln_hist \<Rightarrow> c_fault + ln_hist" where
  "ln_pop h = (case h_list h of
      None \<Rightarrow> Inl NullDeref
    | Some l \<Rightarrow> if l = [] then Inl OutOfBounds else Inr (h\<lparr>h_list := Some (butlast l)\<rparr>))"

text \<open>Up and down in the history.\<close>

definition ln_history_key :: "ln_conf \<Rightarrow> nat \<Rightarrow> bool \<Rightarrow> ln_edit \<Rightarrow> c_fault + ln_edit" where
  "ln_history_key cf buflen up e =
     (let n = history_length (le_hist e) in
      if \<not> n > 1 then Inr e
      else if int n - 1 - le_hidx e < 0 \<or> int n - 1 - le_hidx e \<ge> int n then Inl OutOfBounds
      else (case ln_malloc (le_hist e) of (got, h1) \<Rightarrow>
        (let l = (the (h_list h1))[nat (int n - 1 - le_hidx e) := (if got then Some (c_cstr (le_buf e)) else None)];
             h2 = h1\<lparr>h_list := Some l\<rparr>;
             hidx = le_hidx e + (if up then 1 else -1)
         in if hidx < 0 then Inr (e\<lparr>le_hist := h2, le_hidx := 0\<rparr>)
            else if hidx \<ge> int n then Inr (e\<lparr>le_hist := h2, le_hidx := int n - 1\<rparr>)
            else (case l ! nat (int n - 1 - hidx) of
                None \<Rightarrow> Inl NullDeref
              | Some s \<Rightarrow>
                  ebind (ln_strncpy s buflen (le_buf e)) (\<lambda>b1.
                  ebind (ln_set buflen 0 b1) (\<lambda>b2.
                  ln_refresh cf (e\<lparr>le_hist := h2, le_hidx := hidx, le_buf := b2,
                    le_len := length (c_cstr b2), le_pos := length (c_cstr b2)\<rparr>)))))))"

text \<open>A printable character is appended or inserted.\<close>

definition ln_insert :: "ln_conf \<Rightarrow> nat \<Rightarrow> u8 \<Rightarrow> ln_edit \<Rightarrow> c_fault + ln_edit" where
  "ln_insert cf buflen c e =
     (if \<not> le_len e < buflen then Inr e
      else if le_len e = le_pos e then
        ebind (ln_set (le_pos e) c (le_buf e)) (\<lambda>b1.
        ebind (ln_set (le_len e + 1) 0 b1) (\<lambda>b2.
          let e1 = e\<lparr>le_buf := b2, le_pos := le_pos e + 1, le_len := le_len e + 1\<rparr> in
          if length (ln_prompt cf) + le_len e1 < ln_cols cf then Inr (e1\<lparr>le_out := le_out e1 @ [c]\<rparr>)
          else ln_refresh cf e1))
      else
        ebind (ln_memmove (le_pos e + 1) (le_pos e) (le_len e - le_pos e) (le_buf e)) (\<lambda>b1.
        ebind (ln_set (le_pos e) c b1) (\<lambda>b2.
        ebind (ln_set (le_len e + 1) 0 b2) (\<lambda>b3.
          ln_refresh cf (e\<lparr>le_buf := b3, le_pos := le_pos e + 1, le_len := le_len e + 1\<rparr>)))))"

text \<open>One key: the editor goes on, or the input ends with a result.\<close>

datatype ln_next = Editing ln_edit | Entered int ln_edit

definition ln_end :: "int \<Rightarrow> ln_edit \<Rightarrow> c_fault + ln_next" where
  "ln_end res e = ebind (ln_pop (le_hist e)) (\<lambda>h. Inr (Entered res (e\<lparr>le_hist := h\<rparr>)))"

definition ln_key :: "ln_conf \<Rightarrow> nat \<Rightarrow> term_key \<Rightarrow> ln_edit \<Rightarrow> c_fault + ln_next" where
  "ln_key cf buflen k e =
     (let go = (\<lambda>r. ebind r (\<lambda>e'. Inr (Editing e'))) in
      case k of
        KC_ENTER \<Rightarrow> ln_end (int (le_len e)) e
      | KC_CTRL_C \<Rightarrow> ln_end LINENOISE_CTRL_C e
      | KC_CTRL_Z \<Rightarrow> ln_end (-1) e
      | KC_BACKSPACE \<Rightarrow> go (if le_pos e > 0 \<and> le_len e > 0 then
            ebind (ln_memmove (le_pos e - 1) (le_pos e) (le_len e - le_pos e) (le_buf e)) (\<lambda>b1.
            ebind (ln_set (le_len e - 1) 0 b1) (\<lambda>b2.
            ln_refresh cf (e\<lparr>le_buf := b2, le_pos := le_pos e - 1, le_len := le_len e - 1\<rparr>))) else Inr e)
      | KC_LEFT \<Rightarrow> go (if le_pos e > 0 then ln_refresh cf (e\<lparr>le_pos := le_pos e - 1\<rparr>) else Inr e)
      | KC_RIGHT \<Rightarrow> go (if le_pos e \<noteq> le_len e then ln_refresh cf (e\<lparr>le_pos := le_pos e + 1\<rparr>) else Inr e)
      | KC_UP \<Rightarrow> go (ln_history_key cf buflen True e)
      | KC_DOWN \<Rightarrow> go (ln_history_key cf buflen False e)
      | KC_DEL \<Rightarrow> go (if le_len e > 0 \<and> le_pos e < le_len e then
            ebind (ln_memmove (le_pos e) (le_pos e + 1) (le_len e - le_pos e - 1) (le_buf e)) (\<lambda>b1.
            ebind (ln_set (le_len e - 1) 0 b1) (\<lambda>b2.
            ln_refresh cf (e\<lparr>le_buf := b2, le_len := le_len e - 1\<rparr>))) else Inr e)
      | KC_HOME \<Rightarrow> go (ln_refresh cf (e\<lparr>le_pos := 0\<rparr>))
      | KC_END \<Rightarrow> go (ln_refresh cf (e\<lparr>le_pos := le_len e\<rparr>))
      | KC_CTRL_U \<Rightarrow> go (ebind (ln_set 0 0 (le_buf e)) (\<lambda>b. ln_refresh cf (e\<lparr>le_buf := b, le_pos := 0, le_len := 0\<rparr>)))
      | KC_CTRL_K \<Rightarrow> go (ebind (ln_set (le_pos e) 0 (le_buf e)) (\<lambda>b. ln_refresh cf (e\<lparr>le_buf := b, le_len := le_pos e\<rparr>)))
      | KC_CHAR c \<Rightarrow> go (if c_isprint c then ln_insert cf buflen (of_int c) e else Inr e)
      | _ \<Rightarrow> Inr (Editing e))"

primrec ln_loop :: "ln_conf \<Rightarrow> nat \<Rightarrow> term_key list \<Rightarrow> ln_edit \<Rightarrow> (c_fault + (int \<times> ln_edit \<times> term_key list)) option" where
  "ln_loop cf buflen [] e = None"
| "ln_loop cf buflen (k # ks) e = (case ln_key cf buflen k e of
      Inl f \<Rightarrow> Some (Inl f)
    | Inr (Entered res e') \<Rightarrow> Some (Inr (res, e', ks))
    | Inr (Editing e') \<Rightarrow> ln_loop cf buflen ks e')"

definition linenoisePrompt :: "ln_conf \<Rightarrow> u8 list \<Rightarrow> term_key list \<Rightarrow> ln_hist \<Rightarrow> u8 list
    \<Rightarrow> (c_fault + (int \<times> ln_edit \<times> term_key list)) option" where
  "linenoisePrompt cf buf keys h out =
     (case ln_set 0 0 buf of
        Inl f \<Rightarrow> Some (Inl f)
      | Inr b \<Rightarrow> ln_loop cf (length buf - 1) keys
          \<lparr>le_buf = b, le_pos = 0, le_len = 0, le_hidx = 0,
           le_hist = snd (linenoise_internal_addhistory (ln_cap cf) True [] h),
           le_out = out @ ln_pcol cf @ ln_prompt cf @ ln_lcol cf\<rparr>)"

text \<open>\<^verbatim>\<open>linenoise_getline\<close> in a build with history: it prompts again after Ctrl-C.\<close>

lemma ln_loop_shorter: "ln_loop cf buflen keys e = Some (Inr (res, e', ks)) \<Longrightarrow> length ks < length keys"
  by (induction keys arbitrary: e) (auto split: sum.splits ln_next.splits simp: less_Suc_eq)

lemma linenoisePrompt_shorter: "linenoisePrompt cf buf keys h out = Some (Inr (res, e', ks)) \<Longrightarrow> length ks < length keys"
  using ln_loop_shorter by (auto simp: linenoisePrompt_def split: sum.splits)

function linenoise_getline :: "ln_conf \<Rightarrow> u8 list \<Rightarrow> term_key list \<Rightarrow> ln_hist \<Rightarrow> u8 list
    \<Rightarrow> (c_fault + (int \<times> u8 list \<times> ln_hist \<times> u8 list \<times> term_key list)) option" where
  "linenoise_getline cf buf keys h out =
     (case linenoisePrompt cf buf keys h out of
        None \<Rightarrow> None
      | Some (Inl f) \<Rightarrow> Some (Inl f)
      | Some (Inr (count, e, ks)) \<Rightarrow>
          (let out1 = (if count \<noteq> -1 then le_out e @ [10] else le_out e) in
           if count \<noteq> LINENOISE_CTRL_C
           then Some (Inr (count,
             (if count > 0 \<and> le_buf e ! nat count \<noteq> 0 then (le_buf e)[nat count := 0] else le_buf e),
             le_hist e, out1 @ [0x1B, 0x5B, 0x30, 0x6D], ks))
           else linenoise_getline cf (le_buf e) ks (le_hist e) out1))"
  by pat_completeness auto
termination
  by (relation "measure (\<lambda>(cf, buf, keys, h, out). length keys)") (auto dest: linenoisePrompt_shorter)

declare linenoise_getline.simps [simp del]

subsection \<open>What the display shows\<close>

lemma ln_scroll_spec:
  "pos \<le> len \<Longrightarrow> plen < cols \<Longrightarrow>
   ln_scroll plen cols (off, len, pos) = Inr (off + (plen + pos + 1 - cols), len - (plen + pos + 1 - cols), pos - (plen + pos + 1 - cols))"
proof (induction pos arbitrary: off len)
  case 0
  then show ?case by (simp add: ln_scroll.simps [of plen cols off len 0])
next
  case (Suc pos)
  show ?case
  proof (cases "plen + Suc pos \<ge> cols")
    case True
    then have "ln_scroll plen cols (off, len, Suc pos) = ln_scroll plen cols (off + 1, len - 1, pos)"
      using Suc.prems by (simp add: ln_scroll.simps [of plen cols off len "Suc pos"])
    also have "\<dots> = Inr (off + 1 + (plen + pos + 1 - cols), len - 1 - (plen + pos + 1 - cols), pos - (plen + pos + 1 - cols))"
      using Suc by (intro Suc.IH) simp_all
    finally show ?thesis using True by (simp add: Suc_diff_le)
  next
    case False
    then show ?thesis by (simp add: ln_scroll.simps [of plen cols off len "Suc pos"])
  qed
qed

lemma ln_trim_spec: "plen \<le> cols \<Longrightarrow> ln_trim plen cols len = Inr (min len (cols - plen))"
proof (induction len)
  case 0
  then show ?case by (simp add: ln_trim.simps [of plen cols 0])
next
  case (Suc len)
  then show ?case by (auto simp: ln_trim.simps [of plen cols "Suc len"])
qed

text \<open>The first column shown, and the part of the line shown.\<close>

definition win_off :: "ln_conf \<Rightarrow> nat \<Rightarrow> nat" where
  "win_off cf pos = length (ln_prompt cf) + pos + 1 - ln_cols cf"

definition win_text :: "ln_conf \<Rightarrow> u8 list \<Rightarrow> nat \<Rightarrow> u8 list" where
  "win_text cf line pos = take (ln_cols cf - length (ln_prompt cf)) (drop (win_off cf pos) line)"

lemma refreshLine_spec:
  assumes "length (ln_prompt cf) < ln_cols cf" "take len buf = line" "length line = len" "pos \<le> len"
  shows "refreshLine cf buf len pos = Inr (esc_seq [0x30, 0x47] @ ln_pcol cf @ ln_prompt cf @ ln_lcol cf @ win_text cf line pos
    @ esc_seq [0x30, 0x4B] @ esc_seq (c_dec (pos - win_off cf pos + length (ln_prompt cf)) @ [0x47]))"
proof -
  let ?k = "win_off cf pos" and ?w = "ln_cols cf - length (ln_prompt cf)"
  have len: "len \<le> length buf" using assms(2,3) by auto
  have k: "?k \<le> pos" using assms(1) by (simp add: win_off_def)
  have "drop ?k line = take (len - ?k) (drop ?k buf)" using assms(2) by (auto simp: drop_take)
  then have "win_text cf line pos = take (min (len - ?k) ?w) (drop ?k buf)"
    by (simp add: win_text_def min.commute)
  moreover have "?k + min (len - ?k) ?w \<le> length buf" using len k assms(4) by simp
  ultimately show ?thesis
    using ln_scroll_spec [OF assms(4,1), of 0] ln_trim_spec [of "length (ln_prompt cf)" "ln_cols cf" "len - ?k"] assms(1)
    by (simp add: refreshLine_def Let_def win_off_def)
qed

end
