(* ===== verification/Linenoise_Ideal.thy ===== *)
theory Linenoise_Ideal
  imports Linenoise
begin

text \<open>
  The line editor against an ideal one: a line is what stands before and after the cursor, the
  history a list of lines with the line in progress at its end. The byte array with its memory
  moves and terminators does exactly what the ideal editor does, for every sequence of keys.
\<close>

subsection \<open>The ideal editor\<close>

record ideal =
  i_before :: "u8 list"
  i_after :: "u8 list"
  i_ents :: "u8 list list"
  i_idx :: nat

definition i_line :: "ideal \<Rightarrow> u8 list" where
  "i_line i = i_before i @ i_after i"

definition i_history :: "nat \<Rightarrow> bool \<Rightarrow> ideal \<Rightarrow> ideal" where
  "i_history buflen up i =
     (let n = length (i_ents i); ents = (i_ents i)[n - 1 - i_idx i := i_line i] in
      if n \<le> 1 then i
      else if up then
        (if i_idx i + 1 \<ge> n then i\<lparr>i_ents := ents\<rparr>
         else i\<lparr>i_ents := ents, i_idx := i_idx i + 1, i_before := take buflen (ents ! (n - 2 - i_idx i)), i_after := []\<rparr>)
      else
        (if i_idx i = 0 then i\<lparr>i_ents := ents\<rparr>
         else i\<lparr>i_ents := ents, i_idx := i_idx i - 1, i_before := take buflen (ents ! (n - i_idx i)), i_after := []\<rparr>))"

definition i_key :: "nat \<Rightarrow> term_key \<Rightarrow> ideal \<Rightarrow> ideal" where
  "i_key buflen k i = (case k of
      KC_BACKSPACE \<Rightarrow> i\<lparr>i_before := butlast (i_before i)\<rparr>
    | KC_DEL \<Rightarrow> i\<lparr>i_after := tl (i_after i)\<rparr>
    | KC_LEFT \<Rightarrow> if i_before i = [] then i else i\<lparr>i_before := butlast (i_before i), i_after := last (i_before i) # i_after i\<rparr>
    | KC_RIGHT \<Rightarrow> if i_after i = [] then i else i\<lparr>i_before := i_before i @ [hd (i_after i)], i_after := tl (i_after i)\<rparr>
    | KC_HOME \<Rightarrow> i\<lparr>i_before := [], i_after := i_line i\<rparr>
    | KC_END \<Rightarrow> i\<lparr>i_before := i_line i, i_after := []\<rparr>
    | KC_CTRL_U \<Rightarrow> i\<lparr>i_before := [], i_after := []\<rparr>
    | KC_CTRL_K \<Rightarrow> i\<lparr>i_after := []\<rparr>
    | KC_CHAR c \<Rightarrow> if c_isprint c \<and> length (i_line i) < buflen then i\<lparr>i_before := i_before i @ [of_int c]\<rparr> else i
    | KC_UP \<Rightarrow> i_history buflen True i
    | KC_DOWN \<Rightarrow> i_history buflen False i
    | _ \<Rightarrow> i)"

definition i_result :: "term_key \<Rightarrow> ideal \<Rightarrow> int option" where
  "i_result k i = (case k of KC_ENTER \<Rightarrow> Some (int (length (i_line i))) | KC_CTRL_C \<Rightarrow> Some (-2) | KC_CTRL_Z \<Rightarrow> Some (-1) | _ \<Rightarrow> None)"

primrec i_loop :: "nat \<Rightarrow> term_key list \<Rightarrow> ideal \<Rightarrow> (int \<times> ideal \<times> term_key list) option" where
  "i_loop buflen [] i = None"
| "i_loop buflen (k # ks) i = (case i_result k i of
      Some r \<Rightarrow> Some (r, i\<lparr>i_ents := butlast (i_ents i)\<rparr>, ks)
    | None \<Rightarrow> i_loop buflen ks (i_key buflen k i))"

subsection \<open>The byte array holds the ideal line\<close>

definition holds_line :: "nat \<Rightarrow> u8 list \<Rightarrow> u8 list \<Rightarrow> bool" where
  "holds_line buflen buf line \<longleftrightarrow> length buf = buflen + 1 \<and> length line \<le> buflen \<and> 0 \<notin> set line \<and>
     take (length line + 1) buf = line @ [0]"

definition sim :: "ln_conf \<Rightarrow> nat \<Rightarrow> ln_edit \<Rightarrow> ideal \<Rightarrow> bool" where
  "sim cf buflen e i \<longleftrightarrow> length (ln_prompt cf) < ln_cols cf \<and> holds_line buflen (le_buf e) (i_line i) \<and>
     le_len e = length (i_line i) \<and> le_pos e = length (i_before i) \<and> le_hidx e = int (i_idx i) \<and>
     i_idx i < length (i_ents i) \<and> (\<forall>s \<in> set (i_ents i). 0 \<notin> set s) \<and>
     h_list (le_hist e) = Some (map Some (i_ents i)) \<and> h_alloc (le_hist e) = []"

lemma holds_line_parts:
  assumes "holds_line buflen buf line"
  shows "length buf = buflen + 1" "length line \<le> buflen" "0 \<notin> set line" "take (length line) buf = line" "buf ! length line = 0"
    "c_cstr buf = line"
proof -
  have t: "take (length line + 1) buf = line @ [0]" "length line < length buf"
    using assms by (auto simp: holds_line_def)
  show "length buf = buflen + 1" "length line \<le> buflen" "0 \<notin> set line" using assms by (simp_all add: holds_line_def)
  show l: "take (length line) buf = line" and z: "buf ! length line = 0"
    using t by (simp_all add: take_Suc_conv_app_nth)
  have "buf = (line @ [0]) @ drop (length line + 1) buf" using t(1) by (metis append_take_drop_id)
  then obtain r where "buf = line @ 0 # r" by auto
  moreover have "takeWhile (\<lambda>c. c \<noteq> 0) (line @ 0 # r) = line" for r
    using \<open>0 \<notin> set line\<close> by (subst takeWhile_append2) auto
  ultimately show "c_cstr buf = line" by (simp add: c_cstr_def)
qed

lemma holds_lineI:
  "length buf = buflen + 1 \<Longrightarrow> length line \<le> buflen \<Longrightarrow> 0 \<notin> set line \<Longrightarrow> take (length line) buf = line \<Longrightarrow> buf ! length line = 0 \<Longrightarrow>
   holds_line buflen buf line"
  by (simp add: holds_line_def take_Suc_conv_app_nth)

lemma refresh_ok:
  assumes "length (ln_prompt cf) < ln_cols cf" "holds_line buflen (le_buf e) line" "le_len e = length line" "le_pos e \<le> length line"
  shows "\<exists>out. ln_refresh cf e = Inr (e\<lparr>le_out := out\<rparr>)"
  using refreshLine_spec [OF assms(1) holds_line_parts(4) [OF assms(2)] refl assms(4)] assms(3)
  by (simp add: ln_refresh_def ebind_def) (rule exI, rule refl)

lemma overwrite_take: "i \<le> length xs \<Longrightarrow> take (i + length ys) (overwrite xs i ys) = take i xs @ ys"
  by (simp add: overwrite_def)

text \<open>Deleting the character at a position and inserting one, as memory moves.\<close>

lemma delete_at:
  assumes "holds_line buflen buf (xs @ c # ys)"
  shows "\<exists>b1 b2. ln_memmove (length xs) (length xs + 1) (length ys) buf = Inr b1 \<and>
    ln_set (length xs + length ys) 0 b1 = Inr b2 \<and> holds_line buflen b2 (xs @ ys)"
proof -
  note h = holds_line_parts [OF assms]
  have ys: "take (length ys) (drop (length xs + 1) buf) = ys"
  proof -
    have "drop (length xs + 1) (take (length (xs @ c # ys)) buf) = ys" using h(4) by simp
    then show ?thesis by (simp add: drop_take)
  qed
  have xs: "take (length xs) buf = xs"
    using h(4) by (metis append_eq_conv_conj length_append nat_le_iff_add take_take min_def)
  let ?b1 = "overwrite buf (length xs) ys"
  have "length xs + length ys < length buf" using h(1,2) by simp
  then have "take (length xs + length ys) (?b1[length xs + length ys := 0]) = xs @ ys"
    using overwrite_take [of "length xs" buf ys] xs by simp
  then have "holds_line buflen (?b1[length xs + length ys := 0]) (xs @ ys)"
    using h(1-3) by (intro holds_lineI) simp_all
  then show ?thesis using h(1,2) ys by (simp add: ln_memmove_def ln_set_def)
qed

lemma insert_at:
  assumes "holds_line buflen buf (xs @ ys)" "length xs + length ys < buflen" "c \<noteq> 0"
  shows "\<exists>b1 b2 b3. ln_memmove (length xs + 1) (length xs) (length ys) buf = Inr b1 \<and> ln_set (length xs) c b1 = Inr b2 \<and>
    ln_set (length xs + length ys + 1) 0 b2 = Inr b3 \<and> holds_line buflen b3 (xs @ c # ys)"
proof -
  note h = holds_line_parts [OF assms(1)]
  have ys: "take (length ys) (drop (length xs) buf) = ys"
    using h(4) by (metis append_eq_conv_conj drop_take length_append add_diff_cancel_left')
  have xs: "take (length xs) buf = xs"
    using h(4) by (metis append_eq_conv_conj length_append nat_le_iff_add take_take min_def)
  let ?b1 = "overwrite buf (length xs + 1) ys"
  let ?b3 = "(?b1[length xs := c])[length xs + length ys + 1 := 0]"
  have len: "length ?b1 = buflen + 1" using h(1) assms(2) by simp
  have "take (length xs + 1 + length ys) ?b1 = take (length xs + 1) buf @ ys"
    using h(1) assms(2) by (intro overwrite_take) simp
  then have "take (length (xs @ c # ys)) ?b3 = (take (length xs + 1) buf @ ys)[length xs := c]"
    using h(1) assms(2) by (simp add: take_update_swap list_update_beyond)
  also have "\<dots> = xs @ c # ys"
    using xs h(1) assms(2) by (simp add: take_Suc_conv_app_nth list_update_append)
  finally have "holds_line buflen ?b3 (xs @ c # ys)"
    using h(1-3) assms(2,3) len by (intro holds_lineI) simp_all
  then show ?thesis using h(1) assms(2) ys len by (simp add: ln_memmove_def ln_set_def)
qed

lemma append_at:
  assumes "holds_line buflen buf xs" "length xs < buflen" "c \<noteq> 0"
  shows "\<exists>b1 b2. ln_set (length xs) c buf = Inr b1 \<and> ln_set (length xs + 1) 0 b1 = Inr b2 \<and> holds_line buflen b2 (xs @ [c])"
proof -
  note h = holds_line_parts [OF assms(1)]
  have "holds_line buflen ((buf[length xs := c])[length xs + 1 := 0]) (xs @ [c])"
    using h assms(2,3) by (intro holds_lineI) (simp_all add: take_Suc_conv_app_nth)
  then show ?thesis using h(1) assms(2) by (simp add: ln_set_def)
qed

lemma cut_at:
  assumes "holds_line buflen buf (xs @ ys)"
  shows "\<exists>b. ln_set (length xs) 0 buf = Inr b \<and> holds_line buflen b xs"
proof -
  note h = holds_line_parts [OF assms]
  have "take (length xs) buf = xs"
    using h(4) by (metis append_eq_conv_conj length_append nat_le_iff_add take_take min_def)
  then have "holds_line buflen (buf[length xs := 0]) xs" using h by (intro holds_lineI) simp_all
  then show ?thesis using h(1,2) by (simp add: ln_set_def)
qed

lemma strncpy_line:
  assumes "length buf = buflen + 1" "0 \<notin> set s"
  shows "\<exists>b1 b2. ln_strncpy s buflen buf = Inr b1 \<and> ln_set buflen 0 b1 = Inr b2 \<and> holds_line buflen b2 (take buflen s)"
proof -
  let ?w = "take buflen s @ replicate (buflen - length s) 0"
  have w: "length ?w = buflen" by simp
  let ?b = "(overwrite buf 0 ?w)[buflen := 0]"
  have "drop buflen buf = [buf ! buflen]"
    using assms(1) Cons_nth_drop_Suc [of buflen buf] by simp
  then have "overwrite buf 0 ?w = ?w @ [buf ! buflen]" unfolding overwrite_def w add_0 by simp
  then have b: "?b = ?w @ [0]" using w by (simp only: list_update_append) simp
  have "take (length (take buflen s) + 1) (?w @ [0]) = take buflen s @ [0]"
    by (cases "length s < buflen") (auto simp: take_Suc_conv_app_nth Suc_diff_Suc nth_append)
  then have "holds_line buflen ?b (take buflen s)"
    unfolding holds_line_def b using w assms(2) by (auto dest: in_set_takeD)
  then show ?thesis using assms(1) w by (simp add: ln_strncpy_def ln_set_def)
qed

subsection \<open>Simulation\<close>

lemma sim_out [simp]: "sim cf buflen (e\<lparr>le_out := out\<rparr>) i = sim cf buflen e i"
  by (simp add: sim_def)

lemma sim_refresh:
  assumes "sim cf buflen e i"
  shows "\<exists>e'. ln_refresh cf e = Inr e' \<and> sim cf buflen e' i"
proof -
  have "\<exists>out. ln_refresh cf e = Inr (e\<lparr>le_out := out\<rparr>)"
    by (rule refresh_ok [of cf buflen e "i_line i"]) (use assms in \<open>auto simp: sim_def i_line_def\<close>)
  then show ?thesis using assms by auto
qed

lemma simD:
  assumes "sim cf buflen e i"
  shows "holds_line buflen (le_buf e) (i_before i @ i_after i)" "le_len e = length (i_before i) + length (i_after i)"
    "le_pos e = length (i_before i)" "le_hidx e = int (i_idx i)" "i_idx i < length (i_ents i)"
    "h_list (le_hist e) = Some (map Some (i_ents i))" "h_alloc (le_hist e) = []" "length (ln_prompt cf) < ln_cols cf"
    "history_length (le_hist e) = length (i_ents i)"
  using assms by (auto simp: sim_def i_line_def history_length_def)

text \<open>The same history: only the array and the cursor changed.\<close>

lemma sim_edit:
  assumes "sim cf buflen e i" "holds_line buflen buf (xs @ ys)"
  shows "sim cf buflen (e\<lparr>le_buf := buf, le_pos := length xs, le_len := length xs + length ys\<rparr>) (i\<lparr>i_before := xs, i_after := ys\<rparr>)"
  using assms by (simp add: sim_def i_line_def)

lemma history_sim:
  assumes "sim cf buflen e i"
  shows "\<exists>e'. ln_history_key cf buflen up e = Inr e' \<and> sim cf buflen e' (i_history buflen up i)"
proof (cases "length (i_ents i) > 1")
  case False
  then show ?thesis using assms simD [OF assms] by (simp add: ln_history_key_def i_history_def)
next
  case True
  note d = simD [OF assms]
  define n where "n = length (i_ents i)"
  define ents where "ents = (i_ents i)[n - 1 - i_idx i := i_line i]"
  define h where "h = (le_hist e)\<lparr>h_list := Some (map Some ents)\<rparr>"
  have ents: "\<forall>s \<in> set ents. 0 \<notin> set s" "length ents = n"
    using assms set_update_subset_insert [of "i_ents i" "n - 1 - i_idx i" "i_line i"]
    by (auto simp: sim_def ents_def n_def holds_line_def)
  have line: "c_cstr (le_buf e) = i_line i" using holds_line_parts(6) [OF d(1)] by (simp add: i_line_def)
  have idx: "nat (int n - 1 - int (i_idx i)) = n - 1 - i_idx i" "int n - 1 - int (i_idx i) \<ge> 0"
    using d(5) by (simp_all add: n_def)
  let ?j = "le_hidx e + (if up then 1 else -1)"
  have step: "ln_history_key cf buflen up e = (if ?j < 0 then Inr (e\<lparr>le_hist := h, le_hidx := 0\<rparr>)
      else if ?j \<ge> int n then Inr (e\<lparr>le_hist := h, le_hidx := int n - 1\<rparr>)
      else ebind (ln_strncpy (ents ! nat (int n - 1 - ?j)) buflen (le_buf e)) (\<lambda>b1. ebind (ln_set buflen 0 b1) (\<lambda>b2.
        ln_refresh cf (e\<lparr>le_hist := h, le_hidx := ?j, le_buf := b2, le_len := length (c_cstr b2), le_pos := length (c_cstr b2)\<rparr>))))"
    (is "_ = ?rhs")
  proof -
    have "(map Some (i_ents i))[n - 1 - i_idx i := Some (i_line i)] = map Some ents"
      by (simp add: ents_def map_update)
    moreover have "map Some ents ! nat (int n - 1 - ?j) = Some (ents ! nat (int n - 1 - ?j))" if "\<not> ?j < 0" "\<not> ?j \<ge> int n"
      using that ents(2) by (intro nth_map) linarith
    ultimately show ?thesis
      using True d(4-7,9) idx line unfolding ln_history_key_def Let_def ln_malloc_def
      by (simp add: n_def [symmetric] h_def)
  qed
  have keep: "sim cf buflen (e\<lparr>le_hist := h, le_hidx := int (i_idx i)\<rparr>) (i\<lparr>i_ents := ents\<rparr>)"
    using assms ents by (simp add: sim_def h_def i_line_def n_def)
  have move: "\<exists>e'. ?rhs = Inr e' \<and> sim cf buflen e' (i\<lparr>i_ents := ents, i_idx := k, i_before := take buflen (ents ! (n - 1 - k)), i_after := []\<rparr>)"
    if k: "?j = int k" "k < n" for k
  proof -
    have nat: "nat (int n - 1 - int k) = n - 1 - k" using k(2) by simp
    have "0 \<notin> set (ents ! (n - 1 - k))" using ents k(2) by simp
    from strncpy_line [OF holds_line_parts(1) [OF d(1)] this]
    obtain b1 b2 where b: "ln_strncpy (ents ! (n - 1 - k)) buflen (le_buf e) = Inr b1" "ln_set buflen 0 b1 = Inr b2"
      "holds_line buflen b2 (take buflen (ents ! (n - 1 - k)))" by blast
    let ?e = "e\<lparr>le_hist := h, le_hidx := int k, le_buf := b2, le_len := length (c_cstr b2), le_pos := length (c_cstr b2)\<rparr>"
    have "sim cf buflen ?e (i\<lparr>i_ents := ents, i_idx := k, i_before := take buflen (ents ! (n - 1 - k)), i_after := []\<rparr>)"
      using assms ents k(2) b(3) holds_line_parts(6) [OF b(3)] by (simp add: sim_def h_def i_line_def)
    from sim_refresh [OF this] show ?thesis using k b(1,2) nat by (simp add: ebind_def)
  qed
  show ?thesis
  proof (cases up)
    case up: True
    show ?thesis
    proof (cases "i_idx i + 1 \<ge> n")
      case True
      then have "i_idx i = n - 1" using d(5) by (simp add: n_def)
      then show ?thesis using up keep step d(4) \<open>length (i_ents i) > 1\<close>
        by (auto simp: i_history_def ents_def n_def Let_def)
    next
      case False
      then show ?thesis using move [of "i_idx i + 1"] up step d(4) \<open>length (i_ents i) > 1\<close>
        by (auto simp: i_history_def ents_def n_def Let_def)
    qed
  next
    case down: False
    show ?thesis
    proof (cases "i_idx i = 0")
      case True
      then show ?thesis using down keep step d(4) \<open>length (i_ents i) > 1\<close>
        by (auto simp: i_history_def ents_def n_def Let_def)
    next
      case False
      then show ?thesis using move [of "i_idx i - 1"] down step d(4,5) \<open>length (i_ents i) > 1\<close>
        by (auto simp: i_history_def ents_def n_def Let_def)
    qed
  qed
qed

lemma ideal_same: "i_before i = [] \<Longrightarrow> i\<lparr>i_before := []\<rparr> = i" "i_after i = [] \<Longrightarrow> i\<lparr>i_after := []\<rparr> = i"
  "i_after i = [] \<Longrightarrow> i\<lparr>i_before := x, i_after := []\<rparr> = i\<lparr>i_before := x\<rparr>"
  by (cases i; simp)+

lemma edit_same:
  "n = le_pos e \<Longrightarrow> e\<lparr>le_buf := b, le_pos := n, le_len := l\<rparr> = e\<lparr>le_buf := b, le_len := l\<rparr>"
  "l = le_len e \<Longrightarrow> e\<lparr>le_pos := n, le_len := l\<rparr> = e\<lparr>le_pos := n\<rparr>"
  by (cases e; simp)+

lemma key_sim:
  assumes "sim cf buflen e i" "i_result k i = None"
  shows "\<exists>e'. ln_key cf buflen k e = Inr (Editing e') \<and> sim cf buflen e' (i_key buflen k i)"
proof -
  note d = simD [OF assms(1)]
  have go: "\<exists>e'. ebind (ln_refresh cf e1) (\<lambda>e'. Inr (Editing e')) = (Inr (Editing e') :: c_fault + ln_next) \<and> sim cf buflen e' i1"
    if "sim cf buflen e1 i1" for e1 i1
    using sim_refresh [OF that] by (auto simp: ebind_def)
  show ?thesis
  proof (cases k)
    case KC_BACKSPACE
    show ?thesis
    proof (cases "i_before i" rule: rev_cases)
      case Nil
      then show ?thesis using KC_BACKSPACE assms(1) d by (simp add: ln_key_def i_key_def ebind_def ideal_same)
    next
      case (snoc xs c)
      then have "holds_line buflen (le_buf e) (xs @ c # i_after i)" using d(1) by simp
      from delete_at [OF this] obtain b1 b2 where b: "ln_memmove (length xs) (length xs + 1) (length (i_after i)) (le_buf e) = Inr b1"
        "ln_set (length xs + length (i_after i)) 0 b1 = Inr b2" "holds_line buflen b2 (xs @ i_after i)" by blast
      from go [OF sim_edit [OF assms(1) b(3)]] show ?thesis
        using KC_BACKSPACE snoc d b(1,2) by (simp add: ln_key_def i_key_def ebind_def edit_same)
    qed
  next
    case KC_DEL
    show ?thesis
    proof (cases "i_after i")
      case Nil
      then show ?thesis using KC_DEL assms(1) d by (simp add: ln_key_def i_key_def ebind_def ideal_same)
    next
      case (Cons c ys)
      let ?xs = "i_before i"
      have "holds_line buflen (le_buf e) (?xs @ c # ys)" using d(1) Cons by simp
      from delete_at [OF this] obtain b1 b2 where b: "ln_memmove (length ?xs) (length ?xs + 1) (length ys) (le_buf e) = Inr b1"
        "ln_set (length ?xs + length ys) 0 b1 = Inr b2" "holds_line buflen b2 (?xs @ ys)" by blast
      from go [OF sim_edit [OF assms(1) b(3)]] show ?thesis
        using KC_DEL Cons d b(1,2) by (simp add: ln_key_def i_key_def ebind_def edit_same)
    qed
  next
    case KC_LEFT
    show ?thesis
    proof (cases "i_before i" rule: rev_cases)
      case Nil
      then show ?thesis using KC_LEFT assms(1) d by (simp add: ln_key_def i_key_def ebind_def edit_same)
    next
      case (snoc xs c)
      then have "holds_line buflen (le_buf e) (xs @ c # i_after i)" using d(1) by simp
      from go [OF sim_edit [OF assms(1) this]] show ?thesis
        using KC_LEFT snoc d by (simp add: ln_key_def i_key_def edit_same)
    qed
  next
    case KC_RIGHT
    show ?thesis
    proof (cases "i_after i")
      case Nil
      then show ?thesis using KC_RIGHT assms(1) d by (simp add: ln_key_def i_key_def ebind_def edit_same)
    next
      case (Cons c ys)
      then have "holds_line buflen (le_buf e) ((i_before i @ [c]) @ ys)" using d(1) by simp
      from go [OF sim_edit [OF assms(1) this]] show ?thesis
        using KC_RIGHT Cons d by (simp add: ln_key_def i_key_def edit_same)
    qed
  next
    case KC_HOME
    have "holds_line buflen (le_buf e) ([] @ i_line i)" using d(1) by (simp add: i_line_def)
    from go [OF sim_edit [OF assms(1) this]] show ?thesis
      using KC_HOME d by (simp add: ln_key_def i_key_def i_line_def edit_same)
  next
    case KC_END
    have "holds_line buflen (le_buf e) (i_line i @ [])" using d(1) by (simp add: i_line_def)
    from go [OF sim_edit [OF assms(1) this]] show ?thesis
      using KC_END d by (simp add: ln_key_def i_key_def i_line_def edit_same)
  next
    case KC_CTRL_U
    from cut_at [of buflen "le_buf e" "[]" "i_line i"] d(1) obtain b where b: "ln_set 0 0 (le_buf e) = Inr b" "holds_line buflen b ([] @ [])"
      by (auto simp: i_line_def)
    from go [OF sim_edit [OF assms(1) b(2)]] show ?thesis
      using KC_CTRL_U d b(1) by (simp add: ln_key_def i_key_def ebind_def edit_same)
  next
    case KC_CTRL_K
    from cut_at [OF d(1)] obtain b where b: "ln_set (length (i_before i)) 0 (le_buf e) = Inr b" "holds_line buflen b (i_before i @ [])"
      by auto
    from go [OF sim_edit [OF assms(1) b(2)]] show ?thesis
      using KC_CTRL_K d b(1) by (simp add: ln_key_def i_key_def ebind_def edit_same)
  next
    case KC_UP
    from history_sim [OF assms(1), of True] show ?thesis using KC_UP by (auto simp: ln_key_def i_key_def ebind_def edit_same)
  next
    case KC_DOWN
    from history_sim [OF assms(1), of False] show ?thesis using KC_DOWN by (auto simp: ln_key_def i_key_def ebind_def edit_same)
  next
    case (KC_CHAR c)
    show ?thesis
    proof (cases "c_isprint c \<and> length (i_line i) < buflen")
      case False
      then show ?thesis using KC_CHAR assms(1) d by (auto simp: ln_key_def i_key_def ebind_def ln_insert_def i_line_def)
    next
      case True
      then have nz: "(of_int c :: u8) \<noteq> 0" by (auto simp: c_isprint_def word_of_int_eq_0_iff dest: zdvd_imp_le)
      let ?c = "of_int c :: u8" and ?xs = "i_before i" and ?ys = "i_after i"
      have room: "length ?xs + length ?ys < buflen" using True by (simp add: i_line_def)
      show ?thesis
      proof (cases "?ys = []")
        case Nil: True
        from append_at [of buflen "le_buf e" ?xs ?c] d(1) Nil room nz obtain b1 b2 where
          b: "ln_set (length ?xs) ?c (le_buf e) = Inr b1" "ln_set (length ?xs + 1) 0 b1 = Inr b2" "holds_line buflen b2 ((?xs @ [?c]) @ [])"
          by auto
        note s = sim_edit [OF assms(1) b(3)]
        show ?thesis
          using go [OF s] s KC_CHAR True Nil d b(1,2) room by (auto simp: ln_key_def i_key_def ebind_def ln_insert_def Let_def ideal_same)
      next
        case False
        from insert_at [OF d(1) room nz] obtain b1 b2 b3 where
          b: "ln_memmove (length ?xs + 1) (length ?xs) (length ?ys) (le_buf e) = Inr b1" "ln_set (length ?xs) ?c b1 = Inr b2"
          "ln_set (length ?xs + length ?ys + 1) 0 b2 = Inr b3" "holds_line buflen b3 ((?xs @ [?c]) @ ?ys)" by auto
        show ?thesis
          using go [OF sim_edit [OF assms(1) b(4)]] KC_CHAR True False d b(1-3) room
          by (simp add: ln_key_def i_key_def ebind_def ln_insert_def)
      qed
    qed
  qed (use assms in \<open>simp_all add: ln_key_def i_key_def i_result_def ebind_def\<close>)
qed

lemma key_end:
  assumes "sim cf buflen e i" "i_result k i = Some r"
  shows "\<exists>e'. ln_key cf buflen k e = Inr (Entered r e') \<and> le_buf e' = le_buf e \<and>
    le_hist e' = (le_hist e)\<lparr>h_list := Some (map Some (butlast (i_ents i)))\<rparr>"
  using assms(2) simD [OF assms(1)]
  by (cases k) (auto simp: i_result_def ln_key_def ln_end_def ln_pop_def ebind_def i_line_def map_butlast)

lemma loop_sim:
  assumes "sim cf buflen e i"
  shows "case i_loop buflen keys i of
      None \<Rightarrow> ln_loop cf buflen keys e = None
    | Some (r, i', ks) \<Rightarrow> \<exists>e'. ln_loop cf buflen keys e = Some (Inr (r, e', ks)) \<and> holds_line buflen (le_buf e') (i_line i') \<and>
        h_list (le_hist e') = Some (map Some (i_ents i')) \<and> h_alloc (le_hist e') = [] \<and> (\<forall>s \<in> set (i_ents i'). 0 \<notin> set s)"
  using assms
proof (induction keys arbitrary: e i)
  case (Cons k ks)
  show ?case
  proof (cases "i_result k i")
    case None
    from key_sim [OF Cons.prems None] obtain e' where e': "ln_key cf buflen k e = Inr (Editing e')" "sim cf buflen e' (i_key buflen k i)"
      by blast
    have eq: "ln_loop cf buflen (k # ks) e = ln_loop cf buflen ks e'" "i_loop buflen (k # ks) i = i_loop buflen ks (i_key buflen k i)"
      using e'(1) None by simp_all
    show ?thesis unfolding eq by (rule Cons.IH [OF e'(2)])
  next
    case (Some r)
    from key_end [OF Cons.prems Some] obtain e' where "ln_key cf buflen k e = Inr (Entered r e')" "le_buf e' = le_buf e"
      "le_hist e' = (le_hist e)\<lparr>h_list := Some (map Some (butlast (i_ents i)))\<rparr>" by blast
    moreover have "\<forall>s \<in> set (butlast (i_ents i)). 0 \<notin> set s" using Cons.prems by (auto simp: sim_def dest: in_set_butlastD)
    ultimately show ?thesis using Some simD [OF Cons.prems] by (simp add: i_line_def)
  qed
qed simp

subsection \<open>Whole lines\<close>

text \<open>A prompt starts with an empty line at the end of the history, which loses its oldest entry when full.\<close>

definition i_start :: "nat \<Rightarrow> u8 list list \<Rightarrow> ideal" where
  "i_start cap ents = \<lparr>i_before = [], i_after = [], i_ents = (if length ents = cap then drop 1 ents else ents) @ [[]], i_idx = 0\<rparr>"

lemma i_loop_shorter: "i_loop buflen keys i = Some (r, i', ks) \<Longrightarrow> length ks < length keys"
  by (induction keys arbitrary: i) (fastforce split: option.splits)+

lemma i_loop_result: "i_loop buflen keys i = Some (r, i', ks) \<Longrightarrow> r > 0 \<Longrightarrow> nat r = length (i_line i')"
proof (induction keys arbitrary: i)
  case (Cons k keys)
  have "r > 0 \<Longrightarrow> nat r = length (i_line i)" if "i_result k i = Some r" for r
    using that by (cases k) (auto simp: i_result_def)
  then show ?case using Cons by (cases "i_result k i") (auto simp: i_line_def)
qed simp

function i_getline :: "nat \<Rightarrow> nat \<Rightarrow> term_key list \<Rightarrow> u8 list list \<Rightarrow> (int \<times> u8 list \<times> u8 list list \<times> term_key list) option" where
  "i_getline cap buflen keys ents = (case i_loop buflen keys (i_start cap ents) of
      None \<Rightarrow> None
    | Some (r, i, ks) \<Rightarrow> if r \<noteq> -2 then Some (r, i_line i, i_ents i, ks) else i_getline cap buflen ks (i_ents i))"
  by pat_completeness auto
termination
  by (relation "measure (\<lambda>(cap, buflen, keys, ents). length keys)") (auto dest: i_loop_shorter)

declare i_getline.simps [simp del]

text \<open>The history is \<open>ents\<close>, and allocations succeed.\<close>

definition hist_holds :: "ln_hist \<Rightarrow> u8 list list \<Rightarrow> bool" where
  "hist_holds h ents \<longleftrightarrow> (h_list h = Some (map Some ents) \<or> h_list h = None \<and> ents = []) \<and> h_alloc h = [] \<and>
     (\<forall>s \<in> set ents. 0 \<notin> set s)"

lemma add_empty_line:
  "h_alloc h = [] \<Longrightarrow> ln_add_loop cap True [] h = (True, ln_push cap (Some []) h)"
  by (simp add: ln_add_loop.simps [of cap True "[]" h] ln_malloc_def)

lemma prompt_start:
  assumes "0 < cap" "length (ln_prompt cf) < ln_cols cf" "length buf = buflen + 1" "hist_holds h ents"
  shows "sim cf buflen \<lparr>le_buf = buf[0 := 0], le_pos = 0, le_len = 0, le_hidx = 0,
     le_hist = snd (linenoise_internal_addhistory cap True [] h), le_out = out\<rparr> (i_start cap ents)"
proof -
  have "h_list (snd (linenoise_internal_addhistory cap True [] h)) = Some (map Some (i_ents (i_start cap ents)))"
    "h_alloc (snd (linenoise_internal_addhistory cap True [] h)) = []"
    using assms(1,4) by (auto simp: linenoise_internal_addhistory_def hist_holds_def ln_malloc_def ln_push_def add_empty_line
        i_start_def drop_map)
  moreover have "take (Suc 0) (buf[0 := 0]) = [0]" using assms(3) by (cases buf) simp_all
  ultimately show ?thesis
    using assms by (auto simp: sim_def i_start_def i_line_def holds_line_def hist_holds_def dest: in_set_dropD)
qed

text \<open>C5. The line editor is equivalent to the ideal editor that keeps the line as the text before
  and after the cursor: for every sequence of keys, every prompt narrower than the screen and
  every history, \<^verbatim>\<open>linenoise_getline\<close> never leaves its buffer, waits for more keys exactly when the
  ideal editor does, and otherwise returns the same result with the same line, terminated, in
  the buffer, the same history and the same keys left.\<close>

theorem linenoise_is_ideal_editor:
  assumes "0 < ln_cap cf" "length (ln_prompt cf) < ln_cols cf" "length buf = buflen + 1" "hist_holds h ents"
  shows "case i_getline (ln_cap cf) buflen keys ents of
      None \<Rightarrow> linenoise_getline cf buf keys h out = None
    | Some (r, line, ents', ks) \<Rightarrow> \<exists>buf' h' out'. linenoise_getline cf buf keys h out = Some (Inr (r, buf', h', out', ks)) \<and>
        holds_line buflen buf' line \<and> hist_holds h' ents'"
  using assms(3,4)
proof (induction "length keys" arbitrary: keys buf h out ents rule: less_induct)
  case less
  let ?out = "out @ ln_pcol cf @ ln_prompt cf @ ln_lcol cf"
  let ?e = "\<lparr>le_buf = buf[0 := 0], le_pos = 0, le_len = 0, le_hidx = 0,
     le_hist = snd (linenoise_internal_addhistory (ln_cap cf) True [] h), le_out = ?out\<rparr>"
  have p: "linenoisePrompt cf buf keys h out = ln_loop cf buflen keys ?e"
    using less.prems(1) by (simp add: linenoisePrompt_def ln_set_def)
  note s = loop_sim [OF prompt_start [OF assms(1,2) less.prems, of ?out], of keys]
  show ?case
  proof (cases "i_loop buflen keys (i_start (ln_cap cf) ents)")
    case None
    then show ?thesis using s p by (simp add: i_getline.simps [of _ _ keys] linenoise_getline.simps [of cf buf keys])
  next
    case (Some x)
    obtain r i ks where x: "x = (r, i, ks)" by (cases x) auto
    from s Some x obtain e where e: "ln_loop cf buflen keys ?e = Some (Inr (r, e, ks))" "holds_line buflen (le_buf e) (i_line i)"
      "h_list (le_hist e) = Some (map Some (i_ents i))" "h_alloc (le_hist e) = []" "\<forall>s \<in> set (i_ents i). 0 \<notin> set s"
      by auto
    have hh: "hist_holds (le_hist e) (i_ents i)" using e(3-5) by (simp add: hist_holds_def)
    have shorter: "length ks < length keys" using i_loop_shorter Some x by blast
    show ?thesis
    proof (cases "r = -2")
      case True
      then have eq: "linenoise_getline cf buf keys h out = linenoise_getline cf (le_buf e) ks (le_hist e) (le_out e @ [10])"
        "i_getline (ln_cap cf) buflen keys ents = i_getline (ln_cap cf) buflen ks (i_ents i)"
        using Some x p e(1) by (simp_all add: i_getline.simps [of _ _ keys] linenoise_getline.simps [of cf buf keys])
      show ?thesis unfolding eq by (rule less.hyps [OF shorter holds_line_parts(1) [OF e(2)] hh])
    next
      case False
      have "r > 0 \<Longrightarrow> nat r = length (i_line i)"
        using Some unfolding x by (rule i_loop_result)
      then have "\<not> (r > 0 \<and> le_buf e ! nat r \<noteq> 0)" using holds_line_parts(5) [OF e(2)] by auto
      then show ?thesis using False Some x p e(1,2) hh
        by (auto simp: i_getline.simps [of _ _ keys] linenoise_getline.simps [of cf buf keys] Let_def)
    qed
  qed
qed

text \<open>C27. What \<^verbatim>\<open>refreshLine\<close> draws: with a prompt narrower than the screen it sends the prompt and a part
  of the line that together fit into the columns, erases the rest and puts the cursor between
  the prompt's end and the last column; the character at the cursor is in the part shown, at
  the place the cursor goes to, and a line that fits is shown whole.\<close>

theorem refresh_shows_cursor:
  assumes "length (ln_prompt cf) < ln_cols cf" "take len buf = line" "length line = len" "pos \<le> len"
  shows "\<exists>off text col. refreshLine cf buf len pos = Inr (esc_seq [0x30, 0x47] @ ln_pcol cf @ ln_prompt cf @ ln_lcol cf @ text
      @ esc_seq [0x30, 0x4B] @ esc_seq (c_dec col @ [0x47])) \<and>
    text = take (length text) (drop off line) \<and> length (ln_prompt cf) + length text \<le> ln_cols cf \<and>
    col = length (ln_prompt cf) + (pos - off) \<and> off \<le> pos \<and> col < ln_cols cf \<and>
    (pos < len \<longrightarrow> col - length (ln_prompt cf) < length text \<and> text ! (col - length (ln_prompt cf)) = line ! pos) \<and>
    (length (ln_prompt cf) + len < ln_cols cf \<longrightarrow> text = line)"
proof (intro exI conjI impI)
  let ?off = "win_off cf pos" and ?text = "win_text cf line pos" and ?p = "length (ln_prompt cf)"
  have off: "?off \<le> pos" "?p + (pos - ?off) < ln_cols cf" using assms(1) by (simp_all add: win_off_def)
  show "refreshLine cf buf len pos = Inr (esc_seq [0x30, 0x47] @ ln_pcol cf @ ln_prompt cf @ ln_lcol cf @ ?text
      @ esc_seq [0x30, 0x4B] @ esc_seq (c_dec (?p + (pos - ?off)) @ [0x47]))"
    using refreshLine_spec [OF assms] by (simp add: add.commute)
  show "?text = take (length ?text) (drop ?off line)" by (auto simp: win_text_def min_def)
  show "?p + length ?text \<le> ln_cols cf" using assms(1) by (simp add: win_text_def)
  show "?off \<le> pos" "?p + (pos - ?off) < ln_cols cf" using off by simp_all
  show "?p + (pos - ?off) - ?p < length ?text" "?text ! (?p + (pos - ?off) - ?p) = line ! pos" if "pos < len"
  proof -
    have "pos - ?off < len - ?off" "pos - ?off < ln_cols cf - ?p" using that off by linarith+
    then show "?p + (pos - ?off) - ?p < length ?text" "?text ! (?p + (pos - ?off) - ?p) = line ! pos"
      using off assms(3) by (simp_all add: win_text_def)
  qed
  show "?text = line" if "?p + len < ln_cols cf"
    using that assms(3,4) by (simp add: win_text_def win_off_def)
qed simp

definition ln_demo :: ln_conf where
  "ln_demo = \<lparr>ln_prompt = [0x3E, 0x20], ln_pcol = [], ln_lcol = [], ln_cols = 80, ln_cap = 3\<rparr>"

theorem linenoise_is_ideal_editor_witness:
  "\<exists>buf' h' out'. linenoise_getline ln_demo [0, 0, 0, 0, 0, 0] [KC_CHAR 97, KC_CHAR 98, KC_LEFT, KC_CHAR 99, KC_UP, KC_DOWN, KC_BACKSPACE, KC_ENTER, KC_TAB]
     \<lparr>h_list = Some [Some [120, 121]], h_alloc = []\<rparr> [] = Some (Inr (2, buf', h', out', [KC_TAB])) \<and>
     holds_line 5 buf' [97, 99] \<and> hist_holds h' [[120, 121]]"
proof -
  have "i_getline 3 5 [KC_CHAR 97, KC_CHAR 98, KC_LEFT, KC_CHAR 99, KC_UP, KC_DOWN, KC_BACKSPACE, KC_ENTER, KC_TAB] [[120, 121]] =
      Some (2, [97, 99], [[120, 121]], [KC_TAB])"
    by (simp add: i_getline.simps i_start_def i_result_def i_key_def i_line_def i_history_def Let_def c_isprint_def)
  then show ?thesis
    using linenoise_is_ideal_editor [of ln_demo "[0, 0, 0, 0, 0, 0]" 5 "\<lparr>h_list = Some [Some [120, 121]], h_alloc = []\<rparr>" "[[120, 121]]"
      "[KC_CHAR 97, KC_CHAR 98, KC_LEFT, KC_CHAR 99, KC_UP, KC_DOWN, KC_BACKSPACE, KC_ENTER, KC_TAB]" "[]"]
    by (simp add: ln_demo_def hist_holds_def)
qed

theorem refresh_shows_cursor_witness:
  "\<exists>off text col. refreshLine (ln_demo\<lparr>ln_cols := 5\<rparr>) [97, 98, 99, 100, 101, 0] 5 4 = Inr (esc_seq [0x30, 0x47] @ [0x3E, 0x20] @ text
      @ esc_seq [0x30, 0x4B] @ esc_seq (c_dec col @ [0x47])) \<and> col < 5 \<and> text ! (col - 2) = 101"
  using refresh_shows_cursor [of "ln_demo\<lparr>ln_cols := 5\<rparr>" 5 "[97, 98, 99, 100, 101, 0]" "[97, 98, 99, 100, 101]" 4]
  by (fastforce simp: ln_demo_def)

end
