(* ===== verification/Bitarray.thy ===== *)
theory Bitarray
  imports Elua_Prelude
begin

text \<open>
  The bit array module \<^verbatim>\<open>src/modules/bitarray.c\<close>: arrays of 1, 2, 4, 8, 16 or 32 bit elements packed
  into bytes, the first element of a byte in its highest bits. A user datum is its header and the
  bytes behind it. Arguments from Lua are what the code asks for: a number (converted to 32 bits), a
  string, the integers of a table, or anything else; the errors raised with \<^verbatim>\<open>luaL_error\<close> and the
  faults of the C code are values. Multi-byte elements are stored in the order of the little-endian
  targets, and the processor is assumed to allow the unaligned accesses of the module.
\<close>

subsection \<open>Arrays\<close>

record bitarray =
  capacity :: u32
  elsize :: u8
  bvalues :: "u8 list"

datatype ba_error = BaLengthNotMultiple | BaInvalidArguments | BaInvalidElementSize
  | BaInvalidIndex | BaInvalidMode | BaElementTooLarge | BaFault c_fault

datatype ba_arg = BaNumber u32 | BaString "u8 list" | BaTable "u32 list" | BaOther

definition ROUND_SIZE :: "u32 \<Rightarrow> u32" where
  "ROUND_SIZE s = drop_bit 3 s + (if s AND 7 \<noteq> 0 then 1 else 0)"

definition bitarray_index_shift :: "nat list" where
  "bitarray_index_shift = [0, 3, 2, 0, 1]"

definition bitarray_index_mask :: "u32 list" where
  "bitarray_index_mask = [0, 0x01, 0x03, 0, 0x0F]"

text \<open>The common end of \<^verbatim>\<open>bitarray_new\<close>: checks, allocation and the given way to fill the block.\<close>

definition ba_build :: "(nat \<Rightarrow> u8) \<Rightarrow> u32 \<Rightarrow> u8 \<Rightarrow> (u8 list \<Rightarrow> c_fault + u8 list) \<Rightarrow> ba_error + bitarray" where
  "ba_build junk cap es filler =
     (if es \<le> 0 \<or> 32 < es \<or> es AND (es - 1) \<noteq> 0 then Inl BaInvalidElementSize
      else let total = ROUND_SIZE (cap * ucast es) in
        if total \<le> 0 then Inl BaInvalidArguments
        else case filler (map junk [0..<unat total]) of
          Inl f \<Rightarrow> Inl (BaFault f)
        | Inr vs \<Rightarrow> Inr \<lparr>capacity = cap, elsize = es, bvalues = vs\<rparr>)"

definition ba_memcpy :: "u8 list \<Rightarrow> u8 list \<Rightarrow> c_fault + u8 list" where
  "ba_memcpy src vs = (if length src \<le> length vs then Inr (overwrite vs 0 src) else Inl OutOfBounds)"

primrec ba_from_table :: "nat \<Rightarrow> u32 list \<Rightarrow> u8 list \<Rightarrow> c_fault + u8 list" where
  "ba_from_table i [] vs = Inr vs"
| "ba_from_table i (t # ts) vs =
     (if i < length vs then ba_from_table (i + 1) ts (vs[i := ucast t]) else Inl OutOfBounds)"

definition ba_from_bytes :: "(nat \<Rightarrow> u8) \<Rightarrow> u32 \<Rightarrow> u8 \<Rightarrow> (u8 list \<Rightarrow> c_fault + u8 list) \<Rightarrow> ba_error + bitarray" where
  "ba_from_bytes junk temp es filler =
     (if es = 0 then Inl (BaFault DivByZero)
      else if push_bit 3 temp mod ucast es \<noteq> 0 then Inl BaLengthNotMultiple
      else ba_build junk (push_bit 3 temp div ucast es) es filler)"

definition bitarray_new :: "(nat \<Rightarrow> u8) \<Rightarrow> ba_arg \<Rightarrow> u32 option \<Rightarrow> u32 option \<Rightarrow> ba_error + bitarray" where
  "bitarray_new junk a1 a2 a3 =
     (let es = (case a2 of Some n \<Rightarrow> ucast n | None \<Rightarrow> 8) in
      case a1 of
        BaNumber n \<Rightarrow>
          (let fill = (case a3 of Some f \<Rightarrow> ucast f | None \<Rightarrow> 0)
           in ba_build junk n es (\<lambda>vs. Inr (map (\<lambda>_. fill) vs)))
      | BaString s \<Rightarrow> ba_from_bytes junk (of_nat (length s)) es (ba_memcpy s)
      | BaTable t \<Rightarrow> ba_from_bytes junk (of_nat (length t)) es (ba_from_table 0 t)
      | BaOther \<Rightarrow> Inl BaInvalidArguments)"

subsection \<open>Elements\<close>

definition bitarray_getval :: "bitarray \<Rightarrow> u32 \<Rightarrow> c_fault + u32" where
  "bitarray_getval pa idx0 =
     (let idx = idx0 - 1; es = unat (elsize pa); vs = bvalues pa in
      if es < 8 then
        (if es \<ge> length bitarray_index_shift then Inl OutOfBounds
         else let shift = unat (drop_bit (bitarray_index_shift ! es) idx);
                  mask = push_bit (bitarray_index_shift ! es) 1 :: u8;
                  rest = ucast (idx AND ucast (mask - 1)) :: u8
              in if shift < length vs
                 then Inr (drop_bit ((unat mask - 1 - unat rest) * es) (ucast (vs ! shift)) AND bitarray_index_mask ! es)
                 else Inl OutOfBounds)
      else if es = 8 then
        (if unat idx < length vs then Inr (ucast (vs ! unat idx)) else Inl OutOfBounds)
      else if es = 16 then
        (if 2 * unat idx + 1 < length vs
         then Inr (ucast (vs ! (2 * unat idx)) OR push_bit 8 (ucast (vs ! (2 * unat idx + 1))))
         else Inl OutOfBounds)
      else if es = 32 then
        (if 4 * unat idx + 3 < length vs
         then Inr (ucast (vs ! (4 * unat idx)) OR push_bit 8 (ucast (vs ! (4 * unat idx + 1)))
                OR push_bit 16 (ucast (vs ! (4 * unat idx + 2))) OR push_bit 24 (ucast (vs ! (4 * unat idx + 3))))
         else Inl OutOfBounds)
      else Inr 0)"

definition ba_lift :: "c_fault + 'a \<Rightarrow> ba_error + 'a" where
  "ba_lift r = (case r of Inl f \<Rightarrow> Inl (BaFault f) | Inr x \<Rightarrow> Inr x)"

definition bitarray_get :: "bitarray \<Rightarrow> u32 \<Rightarrow> ba_error + u32" where
  "bitarray_get pa idx =
     (if idx \<le> 0 \<or> idx > capacity pa then Inl BaInvalidIndex else ba_lift (bitarray_getval pa idx))"

definition ba_setval :: "bitarray \<Rightarrow> u32 \<Rightarrow> u32 \<Rightarrow> c_fault + u8 list" where
  "ba_setval pa idx newval =
     (let es = unat (elsize pa); vs = bvalues pa in
      if es < 8 then
        (if es \<ge> length bitarray_index_shift then Inl OutOfBounds
         else let shift = unat (drop_bit (bitarray_index_shift ! es) idx);
                  mask = push_bit (bitarray_index_shift ! es) 1 :: u8;
                  rest = ucast (idx AND ucast (mask - 1)) :: u8;
                  pos = (unat mask - 1 - unat rest) * es
              in if shift < length vs
                 then let val = ucast (vs ! shift) :: u32;
                          val = val AND NOT (push_bit pos (bitarray_index_mask ! es));
                          val = val OR push_bit pos newval
                      in Inr (vs[shift := ucast val])
                 else Inl OutOfBounds)
      else if es = 8 then
        (if unat idx < length vs then Inr (vs[unat idx := ucast newval]) else Inl OutOfBounds)
      else if es = 16 then
        (if 2 * unat idx + 1 < length vs
         then Inr (overwrite vs (2 * unat idx) [ucast newval, ucast (drop_bit 8 newval)])
         else Inl OutOfBounds)
      else if es = 32 then
        (if 4 * unat idx + 3 < length vs
         then Inr (overwrite vs (4 * unat idx)
                [ucast newval, ucast (drop_bit 8 newval), ucast (drop_bit 16 newval), ucast (drop_bit 24 newval)])
         else Inl OutOfBounds)
      else Inr vs)"

definition bitarray_set :: "bitarray \<Rightarrow> u32 \<Rightarrow> u32 \<Rightarrow> ba_error + bitarray" where
  "bitarray_set pa idx newval =
     (if idx \<le> 0 \<or> idx > capacity pa then Inl BaInvalidIndex
      else case ba_setval pa (idx - 1) newval of
        Inl f \<Rightarrow> Inl (BaFault f)
      | Inr vs \<Rightarrow> Inr (pa\<lparr>bvalues := vs\<rparr>))"

definition bitarray_len :: "bitarray \<Rightarrow> u32" where
  "bitarray_len pa = capacity pa"

text \<open>The iterator returns the next index with its value, or nothing at the end.\<close>

definition bitarray_iter :: "bitarray \<Rightarrow> u32 \<Rightarrow> c_fault + (u32 \<times> u32) option" where
  "bitarray_iter pa i =
     (let idx = i + 1 in
      if idx \<le> capacity pa
      then (case bitarray_getval pa idx of Inl f \<Rightarrow> Inl f | Inr v \<Rightarrow> Inr (Some (idx, v)))
      else Inr None)"

text \<open>
  The loop \<^verbatim>\<open>for( idx = ...; idx <= pa->capacity; idx ++ )\<close> over all elements; for the largest
  capacity the condition always holds and the loop does not end.
\<close>

partial_function (option) ba_all :: "bitarray \<Rightarrow> u32 \<Rightarrow> (c_fault + u32 list) option" where
  "ba_all pa idx =
     (if idx \<le> capacity pa
      then (case bitarray_getval pa idx of
          Inl f \<Rightarrow> Some (Inl f)
        | Inr v \<Rightarrow> Option.bind (ba_all pa (idx + 1)) (\<lambda>r.
            Some (case r of Inl f \<Rightarrow> Inl f | Inr vs \<Rightarrow> Inr (v # vs))))
      else Some (Inr []))"

datatype ba_mode = BITARRAY_UNPACK_RAW | BITARRAY_UNPACK_SEQ

definition ba_raw_name :: "u8 list" where "ba_raw_name = [0x72, 0x61, 0x77]"
definition ba_seq_name :: "u8 list" where "ba_seq_name = [0x73, 0x65, 0x71]"

definition ba_get_mode :: "bitarray \<Rightarrow> u8 list option \<Rightarrow> ba_error + ba_mode" where
  "ba_get_mode pa textmode =
     (case (case textmode of
         None \<Rightarrow> Inr BITARRAY_UNPACK_SEQ
       | Some t \<Rightarrow> if t = ba_raw_name then Inr BITARRAY_UNPACK_RAW
                  else if t = ba_seq_name then Inr BITARRAY_UNPACK_SEQ
                  else Inl BaInvalidMode) of
       Inl e \<Rightarrow> Inl e
     | Inr mode \<Rightarrow>
         if mode = BITARRAY_UNPACK_SEQ \<and> elsize pa > 8 then Inl BaElementTooLarge else Inr mode)"

text \<open>The bytes of the block that the raw modes copy.\<close>

definition ba_raw :: "bitarray \<Rightarrow> c_fault + u8 list" where
  "ba_raw pa =
     (let n = unat (ROUND_SIZE (capacity pa * ucast (elsize pa)))
      in if n \<le> length (bvalues pa) then Inr (take n (bvalues pa)) else Inl OutOfBounds)"

definition bitarray_tostring :: "bitarray \<Rightarrow> u8 list option \<Rightarrow> (ba_error + u8 list) option" where
  "bitarray_tostring pa textmode =
     (case ba_get_mode pa textmode of
       Inl e \<Rightarrow> Some (Inl e)
     | Inr BITARRAY_UNPACK_SEQ \<Rightarrow> map_option (\<lambda>r. map_sum BaFault (map ucast) r) (ba_all pa 1)
     | Inr BITARRAY_UNPACK_RAW \<Rightarrow> Some (ba_lift (ba_raw pa)))"

definition bitarray_totable :: "bitarray \<Rightarrow> u8 list option \<Rightarrow> (ba_error + u32 list) option" where
  "bitarray_totable pa textmode =
     (case ba_get_mode pa textmode of
       Inl e \<Rightarrow> Some (Inl e)
     | Inr BITARRAY_UNPACK_SEQ \<Rightarrow> map_option ba_lift (ba_all pa 1)
     | Inr BITARRAY_UNPACK_RAW \<Rightarrow> Some (ba_lift (map_sum id (map ucast) (ba_raw pa))))"

text \<open>The iterator factory returns the iterator, the array and the index to start from.\<close>

definition bitarray_pairs :: "bitarray \<Rightarrow> (bitarray \<Rightarrow> u32 \<Rightarrow> c_fault + (u32 \<times> u32) option) \<times> bitarray \<times> u32" where
  "bitarray_pairs pa = (bitarray_iter, pa, 0)"

subsection \<open>Well-formed arrays\<close>

text \<open>
  \<open>ba_elem pa i\<close> is the element at the 0-based index \<open>i\<close>, directly from the bytes: the first
  element of a byte is in its high bits.
\<close>

definition ba_low :: "nat \<Rightarrow> nat \<Rightarrow> nat" where
  "ba_low es i = 8 - es - i * es mod 8"

definition ba_elem :: "bitarray \<Rightarrow> nat \<Rightarrow> u32" where
  "ba_elem pa i = (case bitarray_getval pa (of_nat (Suc i)) of Inl _ \<Rightarrow> 0 | Inr v \<Rightarrow> v)"

definition ba_elems :: "bitarray \<Rightarrow> u32 list" where
  "ba_elems pa = map (ba_elem pa) [0..<unat (capacity pa)]"

definition ba_ok :: "bitarray \<Rightarrow> bool" where
  "ba_ok pa \<longleftrightarrow> unat (elsize pa) \<in> {1, 2, 4, 8, 16, 32} \<and> unat (capacity pa) * unat (elsize pa) < 2 ^ 32 \<and>
     length (bvalues pa) = (unat (capacity pa) * unat (elsize pa) + 7) div 8"

lemma ba_ok_cases:
  assumes "ba_ok pa"
  obtains "unat (elsize pa) = 1" | "unat (elsize pa) = 2" | "unat (elsize pa) = 4"
    | "unat (elsize pa) = 8" | "unat (elsize pa) = 16" | "unat (elsize pa) = 32"
  using assms by (auto simp: ba_ok_def)

lemma unat_ucast_u8: "unat (w :: u32) < 256 \<Longrightarrow> unat (ucast w :: u8) = unat w"
  by (simp add: unsigned_ucast_eq take_bit_nat_eq_self)

lemma ba_rest [word_facts]:
  fixes idx :: u32
  shows "unat (ucast (idx AND 7) :: u8) = unat idx mod 8" "unat (ucast (idx AND 3) :: u8) = unat idx mod 4"
    "unat (ucast (idx AND 1) :: u8) = unat idx mod 2"
proof -
  have "unat (idx AND 7) = unat idx mod 8" "unat (idx AND 3) = unat idx mod 4" "unat (idx AND 1) = unat idx mod 2"
    using nat_and_mask [of "unat idx" 3] nat_and_mask [of "unat idx" 2] nat_and_mask [of "unat idx" 1]
    by (simp_all add: unsigned_and_eq)
  moreover have "unat idx mod 8 < 256" "unat idx mod 4 < 256" "unat idx mod 2 < 256"
    using mod_less_divisor [of 8 "unat idx"] mod_less_divisor [of 4 "unat idx"] by linarith+
  ultimately show "unat (ucast (idx AND 7) :: u8) = unat idx mod 8" "unat (ucast (idx AND 3) :: u8) = unat idx mod 4"
    "unat (ucast (idx AND 1) :: u8) = unat idx mod 2"
    using unat_ucast_u8 [of "idx AND 7"] unat_ucast_u8 [of "idx AND 3"] unat_ucast_u8 [of "idx AND 1"] by metis+
qed

lemma ba_rest_norm [word_facts]:
  fixes idx :: u32
  shows "unat (ucast (take_bit 2 idx) :: u8) = unat idx mod 4" "unat (ucast (idx mod 2) :: u8) = unat idx mod 2"
  using ba_rest(2,3) [of idx] by (simp_all add: take_bit_eq_mask mask_eq_exp_minus_1 and_one_eq)

text \<open>Sub-byte elements: byte and position are those of the packing.\<close>

lemma ba_low_simps [simp]:
  "ba_low (Suc 0) i = 7 - i mod 8" "ba_low 2 i = (3 - i mod 4) * 2" "ba_low 4 i = (1 - i mod 2) * 4"
proof -
  have "i * 2 mod 8 = (i mod 4) * 2" "i * 4 mod 8 = (i mod 2) * 4"
    using mult_mod_left [of i 2 4] mult_mod_left [of i 4 2] by simp_all
  then show "ba_low (Suc 0) i = 7 - i mod 8" "ba_low 2 i = (3 - i mod 4) * 2" "ba_low 4 i = (1 - i mod 2) * 4"
    by (simp_all add: ba_low_def)
qed

lemma ba_byte_simps:
  fixes i :: nat
  shows "i * 2 div 8 = i div 4" "i * 4 div 8 = i div 2"
  by linarith+

lemma bitarray_getval_low:
  assumes "unat (elsize pa) = es" "es = 1 \<or> es = 2 \<or> es = 4" "i = unat (idx - 1)"
  shows "bitarray_getval pa idx =
    (if i * es div 8 < length (bvalues pa)
     then Inr (take_bit es (drop_bit (ba_low es i) (ucast (bvalues pa ! (i * es div 8)))))
     else Inl OutOfBounds)"
proof -
  have m: "(w AND 1) = take_bit 1 w" "(w AND 3) = take_bit 2 w" "(w AND 15) = take_bit 4 w" for w :: u32
    by (simp_all add: take_bit_eq_mask mask_eq_exp_minus_1)
  have u: "unat (push_bit 3 1 :: u8) = 8" "unat (push_bit 2 1 :: u8) = 4" "unat (push_bit 1 1 :: u8) = 2"
    "push_bit 3 1 - 1 = (7 :: u8)" "push_bit 2 1 - 1 = (3 :: u8)" "push_bit 1 1 - 1 = (1 :: u8)"
    by (simp_all add: push_bit_eq_mult)
  from assms(2) show ?thesis
    by (elim disjE)
      (use assms(1,3) in \<open>simp_all add: bitarray_getval_def Let_def bitarray_index_shift_def bitarray_index_mask_def
         u m ba_rest ba_rest_norm ba_byte_simps unat_div drop_bit_eq_div\<close>)
qed

definition ba_put :: "u8 \<Rightarrow> nat \<Rightarrow> nat \<Rightarrow> u32 \<Rightarrow> u8" where
  "ba_put b pos es v = ucast (((ucast b :: u32) AND NOT (push_bit pos (mask es))) OR push_bit pos v)"

lemma bit_ba_put:
  "bit (ba_put b pos es v) n \<longleftrightarrow>
     n < 8 \<and> (if pos \<le> n \<and> n < pos + es then bit v (n - pos) else bit b n \<or> (pos \<le> n \<and> bit v (n - pos)))"
  by (auto simp: ba_put_def bit_simps)

lemma ba_setval_low:
  assumes "unat (elsize pa) = es" "es = 1 \<or> es = 2 \<or> es = 4" "i = unat idx"
  shows "ba_setval pa idx v =
    (if i * es div 8 < length (bvalues pa)
     then Inr ((bvalues pa)[i * es div 8 := ba_put (bvalues pa ! (i * es div 8)) (ba_low es i) es v])
     else Inl OutOfBounds)"
proof -
  have m: "mask (Suc 0) = (1 :: u32)" "mask 2 = (3 :: u32)" "mask 4 = (15 :: u32)"
    by (simp_all add: mask_eq_exp_minus_1)
  have u: "unat (push_bit 3 1 :: u8) = 8" "unat (push_bit 2 1 :: u8) = 4" "unat (push_bit 1 1 :: u8) = 2"
    "push_bit 3 1 - 1 = (7 :: u8)" "push_bit 2 1 - 1 = (3 :: u8)" "push_bit 1 1 - 1 = (1 :: u8)"
    by (simp_all add: push_bit_eq_mult)
  from assms(2) show ?thesis
    by (elim disjE)
      (use assms(1,3) in \<open>simp_all add: ba_setval_def ba_put_def Let_def bitarray_index_shift_def bitarray_index_mask_def
         u m ba_rest ba_rest_norm ba_byte_simps unat_div drop_bit_eq_div\<close>)
qed

text \<open>Two elements of one byte: the earlier one lies higher by whole elements.\<close>

lemma same_quotient:
  fixes i j m :: nat
  assumes "j div m = i div m" "j \<le> i"
  shows "j mod m \<le> i mod m" "i - j = i mod m - j mod m"
proof -
  obtain q where "i = q * m + i mod m" "j = q * m + j mod m"
    using assms(1) by (metis div_mult_mod_eq)
  with assms(2) show "j mod m \<le> i mod m" "i - j = i mod m - j mod m" by linarith+
qed

lemma ba_low_same_byte:
  assumes "es = 1 \<or> es = 2 \<or> es = 4" "j * es div 8 = i * es div 8" "j \<le> i"
  shows "ba_low es j = ba_low es i + es * (i - j)"
  using assms(1)
proof (elim disjE)
  assume e: "es = 1"
  with assms(2) have "j div 8 = i div 8" by (simp add: ba_byte_simps)
  note same_quotient [OF this assms(3)]
  moreover have "i mod 8 < 8" by (rule mod_less_divisor) simp
  ultimately show ?thesis unfolding e ba_low_simps One_nat_def by linarith
next
  assume e: "es = 2"
  with assms(2) have "j div 4 = i div 4" by (simp add: ba_byte_simps)
  note same_quotient [OF this assms(3)]
  moreover have "i mod 4 < 4" by (rule mod_less_divisor) simp
  ultimately show ?thesis unfolding e ba_low_simps by linarith
next
  assume e: "es = 4"
  with assms(2) have "j div 2 = i div 2" by (simp add: ba_byte_simps)
  note same_quotient [OF this assms(3)]
  moreover have "i mod 2 < 2" by (rule mod_less_divisor) simp
  ultimately show ?thesis unfolding e ba_low_simps by linarith
qed

lemma ba_low_room:
  assumes "es = 1 \<or> es = 2 \<or> es = 4"
  shows "ba_low es i + es \<le> 8"
  using assms by (auto simp: ba_low_def)

lemma take_drop_ba_put:
  assumes "pos + es \<le> 8" "pos' + es \<le> 8"
  shows "pos' = pos \<Longrightarrow> take_bit es (drop_bit pos' (ucast (ba_put b pos es v))) = take_bit es v"
    and "pos' + es \<le> pos \<Longrightarrow> take_bit es (drop_bit pos' (ucast (ba_put b pos es v))) = (take_bit es (drop_bit pos' (ucast b)) :: u32)"
    and "pos' = pos + k \<Longrightarrow> es \<le> k \<Longrightarrow> take_bit es (drop_bit pos' (ucast (ba_put b pos es v))) =
      (take_bit es (drop_bit pos' (ucast b)) OR take_bit es (drop_bit k v) :: u32)"
proof -
  show "take_bit es (drop_bit pos' (ucast (ba_put b pos es v))) = take_bit es v" if "pos' = pos"
    using that assms by (intro bit_word_eqI) (auto simp: bit_simps bit_ba_put)
  show "take_bit es (drop_bit pos' (ucast (ba_put b pos es v))) = (take_bit es (drop_bit pos' (ucast b)) :: u32)"
    if "pos' + es \<le> pos"
    using that assms by (intro bit_word_eqI) (auto simp: bit_simps bit_ba_put)
  show "take_bit es (drop_bit pos' (ucast (ba_put b pos es v))) =
      (take_bit es (drop_bit pos' (ucast b)) OR take_bit es (drop_bit k v) :: u32)" if "pos' = pos + k" "es \<le> k"
  proof (rule bit_word_eqI)
    fix n
    assume "n < LENGTH(32)"
    have "pos + k + n - pos = k + n" by simp
    then show "bit (take_bit es (drop_bit pos' (ucast (ba_put b pos es v)) :: u32)) n =
        bit (take_bit es (drop_bit pos' (ucast b)) OR take_bit es (drop_bit k v) :: u32) n"
      using that assms by (auto simp: bit_simps bit_ba_put)
  qed
qed

text \<open>What a store of \<open>v\<close> at \<open>i\<close> leaves at \<open>j\<close>, for an element \<open>x\<close> there.\<close>

definition ba_spill :: "nat \<Rightarrow> nat \<Rightarrow> u32 \<Rightarrow> nat \<Rightarrow> u32 \<Rightarrow> u32" where
  "ba_spill es i v j x =
     (if j = i then take_bit es v
      else if es < 8 \<and> j * es div 8 = i * es div 8 \<and> j < i then x OR take_bit es (drop_bit (es * (i - j)) v)
      else x)"

lemma bitarray_set_low:
  assumes "unat (elsize pa) = es" "es = 1 \<or> es = 2 \<or> es = 4"
    and "idx' = unat idx" "idx' * es div 8 < length (bvalues pa)" "jx = unat (j - 1)" "jx * es div 8 < length (bvalues pa)"
  shows "\<exists>vs. ba_setval pa idx v = Inr vs \<and> length vs = length (bvalues pa) \<and>
    bitarray_getval (pa\<lparr>bvalues := vs\<rparr>) j = map_sum id (ba_spill es idx' v jx) (bitarray_getval pa j)"
proof -
  let ?b = "bvalues pa ! (idx' * es div 8)"
  let ?vs = "(bvalues pa)[idx' * es div 8 := ba_put ?b (ba_low es idx') es v]"
  have set: "ba_setval pa idx v = Inr ?vs"
    using ba_setval_low [OF assms(1-3)] assms(4) by simp
  have get: "bitarray_getval (pa\<lparr>bvalues := ?vs\<rparr>) j = Inr (take_bit es (drop_bit (ba_low es jx) (ucast (?vs ! (jx * es div 8)))))"
    using bitarray_getval_low [of "pa\<lparr>bvalues := ?vs\<rparr>", OF _ assms(2,5)] assms(1,6) by simp
  have get0: "bitarray_getval pa j = Inr (take_bit es (drop_bit (ba_low es jx) (ucast (bvalues pa ! (jx * es div 8)))))"
    using bitarray_getval_low [OF assms(1,2,5)] assms(6) by simp
  note room = ba_low_room [OF assms(2)]
  have es: "es < 8" using assms(2) by auto
  have "take_bit es (drop_bit (ba_low es jx) (ucast (?vs ! (jx * es div 8)))) =
      ba_spill es idx' v jx (take_bit es (drop_bit (ba_low es jx) (ucast (bvalues pa ! (jx * es div 8)))))"
  proof (cases "jx * es div 8 = idx' * es div 8")
    case True
    then consider "jx = idx'" | "jx < idx'" | "idx' < jx" by linarith
    then show ?thesis
    proof cases
      case 1
      then show ?thesis using assms(4) take_drop_ba_put(1) [OF room room] by (simp add: ba_spill_def)
    next
      case 2
      then have "es * 1 \<le> es * (idx' - jx)" by (intro mult_le_mono) auto
      then show ?thesis using 2 True assms(4) es
          take_drop_ba_put(3) [OF room room ba_low_same_byte [OF assms(2) True]]
        by (simp add: ba_spill_def)
    next
      case 3
      then have "es * 1 \<le> es * (jx - idx')" by (intro mult_le_mono) auto
      then have "ba_low es jx + es \<le> ba_low es idx'"
        using ba_low_same_byte [OF assms(2) True [symmetric]] 3 by simp
      then show ?thesis using 3 True assms(4) take_drop_ba_put(2) [OF room room]
        by (simp add: ba_spill_def)
    qed
  next
    case False
    then show ?thesis by (auto simp: ba_spill_def)
  qed
  then show ?thesis using set get get0 by simp
qed

text \<open>Elements of whole bytes.\<close>

lemma ba_assemble:
  "ucast (ucast v :: u8) = (take_bit 8 v :: u32)"
  "ucast (ucast v :: u8) OR push_bit 8 (ucast (ucast (drop_bit 8 v) :: u8)) = (take_bit 16 v :: u32)"
  "take_bit 8 v OR push_bit 8 (take_bit 8 (drop_bit 8 v)) = (take_bit 16 v :: u32)"
  by (rule bit_word_eqI, auto simp: bit_simps)+

lemma nth_overwrite_block:
  assumes "length bs = m" "m * i + m \<le> length vs" "m * j + m \<le> length vs" "k < m"
  shows "overwrite vs (m * i) bs ! (m * j + k) = (if j = i then bs ! k else vs ! (m * j + k))"
proof -
  have "m * Suc j \<le> m * i" if "j < i" using that by (intro mult_le_mono) auto
  moreover have "m * Suc i \<le> m * j" if "i < j" using that by (intro mult_le_mono) auto
  ultimately show ?thesis using assms by (cases i j rule: linorder_cases) (auto simp: nth_overwrite)
qed

lemma bitarray_set_wide:
  assumes "unat (elsize pa) = es" "es = 8 \<or> es = 16 \<or> es = 32"
    and "i = unat idx" "Suc i * es div 8 \<le> length (bvalues pa)" "j' = unat (j - 1)" "Suc j' * es div 8 \<le> length (bvalues pa)"
  shows "\<exists>vs. ba_setval pa idx v = Inr vs \<and> length vs = length (bvalues pa) \<and>
    bitarray_getval (pa\<lparr>bvalues := vs\<rparr>) j = map_sum id (ba_spill es i v j') (bitarray_getval pa j) \<and>
    (\<exists>x. bitarray_getval pa j = Inr x)"
  using assms(2)
proof (elim disjE)
  assume es: "es = 8"
  then have l: "i < length (bvalues pa)" "j' < length (bvalues pa)" using assms(4,6) by simp_all
  with es assms show ?thesis
    by (auto simp: ba_setval_def bitarray_getval_def Let_def ba_spill_def nth_list_update ba_assemble)
next
  assume es: "es = 16"
  then have l: "2 * i + 1 < length (bvalues pa)" "2 * j' + 1 < length (bvalues pa)" using assms(4,6) by simp_all
  define bs :: "u8 list" where "bs = [ucast v, ucast (drop_bit 8 v)]"
  have len: "length bs = 2" by (simp add: bs_def)
  have nth: "overwrite (bvalues pa) (2 * i) bs ! (2 * j' + k) = (if j' = i then bs ! k else bvalues pa ! (2 * j' + k))"
    if "k < 2" for k
    using that l len by (intro nth_overwrite_block) auto
  have nth0: "overwrite (bvalues pa) (2 * i) bs ! (2 * j') = (if j' = i then bs ! 0 else bvalues pa ! (2 * j'))"
    "overwrite (bvalues pa) (2 * i) bs ! Suc (2 * j') = (if j' = i then bs ! 1 else bvalues pa ! Suc (2 * j'))"
    using nth [of 0] nth [of 1] by simp_all
  have nthi: "overwrite (bvalues pa) (2 * i) bs ! (2 * i) = bs ! 0" "overwrite (bvalues pa) (2 * i) bs ! Suc (2 * i) = bs ! 1"
    using l len by (simp_all add: nth_overwrite)
  have set: "ba_setval pa idx v = Inr (overwrite (bvalues pa) (2 * i) bs)"
    using es assms(1,3) l by (simp add: ba_setval_def Let_def bs_def)
  have len': "length (overwrite (bvalues pa) (2 * i) bs) = length (bvalues pa)" using l len by simp
  with es assms(1) l show ?thesis
    unfolding set bitarray_getval_def Let_def ba_spill_def
    by (cases "j' = i") (simp_all add: nth0 nthi assms(5) [symmetric], simp add: bs_def ba_assemble)
next
  assume es: "es = 32"
  then have l: "4 * i + 3 < length (bvalues pa)" "4 * j' + 3 < length (bvalues pa)" using assms(4,6) by simp_all
  define bs :: "u8 list" where "bs = [ucast v, ucast (drop_bit 8 v), ucast (drop_bit 16 v), ucast (drop_bit 24 v)]"
  have len: "length bs = 4" by (simp add: bs_def)
  have nth: "overwrite (bvalues pa) (4 * i) bs ! (4 * j' + k) = (if j' = i then bs ! k else bvalues pa ! (4 * j' + k))"
    if "k < 4" for k
    using that l len by (intro nth_overwrite_block) auto
  have nth0: "overwrite (bvalues pa) (4 * i) bs ! (4 * j') = (if j' = i then bs ! 0 else bvalues pa ! (4 * j'))"
    "overwrite (bvalues pa) (4 * i) bs ! (Suc (4 * j')) = (if j' = i then bs ! 1 else bvalues pa ! (Suc (4 * j')))"
    "overwrite (bvalues pa) (4 * i) bs ! (Suc (Suc (4 * j'))) = (if j' = i then bs ! 2 else bvalues pa ! (Suc (Suc (4 * j'))))"
    "overwrite (bvalues pa) (4 * i) bs ! (4 * j' + 3) = (if j' = i then bs ! 3 else bvalues pa ! (4 * j' + 3))"
    using nth [of 0] nth [of 1] nth [of 2] nth [of 3] by simp_all
  have nthi: "overwrite (bvalues pa) (4 * i) bs ! (4 * i) = bs ! 0"
    "overwrite (bvalues pa) (4 * i) bs ! (Suc (4 * i)) = bs ! 1"
    "overwrite (bvalues pa) (4 * i) bs ! (Suc (Suc (4 * i))) = bs ! 2"
    "overwrite (bvalues pa) (4 * i) bs ! (4 * i + 3) = bs ! 3"
    using l len by (simp_all add: nth_overwrite)
  have set: "ba_setval pa idx v = Inr (overwrite (bvalues pa) (4 * i) bs)"
    using es assms(1,3) l by (simp add: ba_setval_def Let_def bs_def)
  have len': "length (overwrite (bvalues pa) (4 * i) bs) = length (bvalues pa)" using l len by simp
  have "take_bit 32 v = v" by (rule bit_word_eqI) (simp add: bit_simps)
  with es assms(1) l len' show ?thesis
    unfolding set bitarray_getval_def Let_def ba_spill_def
    by (cases "j' = i") (simp_all add: nth0 nthi assms(5) [symmetric], simp add: bs_def u32_assemble [simplified])
qed

lemma ba_room_low:
  assumes "ba_ok pa" "unat (elsize pa) = es" "i < unat (capacity pa)"
  shows "i * es div 8 < length (bvalues pa)"
proof -
  have "0 < es" using assms(1,2) by (auto simp: ba_ok_def)
  moreover have "Suc i * es \<le> unat (capacity pa) * es" using assms(3) by (intro mult_le_mono) auto
  ultimately have "i * es + 8 \<le> unat (capacity pa) * es + 7" by simp
  then have "(i * es + 8) div 8 \<le> (unat (capacity pa) * es + 7) div 8" by (rule div_le_mono)
  moreover have "(i * es + 8) div 8 = Suc (i * es div 8)" by simp
  ultimately show ?thesis using assms(1,2) by (simp add: ba_ok_def)
qed

lemma ba_room_wide:
  assumes "ba_ok pa" "unat (elsize pa) = es" "i < unat (capacity pa)"
  shows "Suc i * es div 8 \<le> length (bvalues pa)"
proof -
  have "Suc i * es \<le> unat (capacity pa) * es" using assms(3) by (intro mult_le_mono) auto
  then have "Suc i * es div 8 \<le> (unat (capacity pa) * es + 7) div 8" by (intro div_le_mono) simp
  then show ?thesis using assms(1,2) by (simp add: ba_ok_def)
qed

lemma ba_setval_spills:
  assumes "ba_ok pa" "unat idx < unat (capacity pa)" "unat (j - 1) < unat (capacity pa)"
  shows "\<exists>vs. ba_setval pa idx v = Inr vs \<and> length vs = length (bvalues pa) \<and>
    (\<exists>x. bitarray_getval pa j = Inr x \<and>
      bitarray_getval (pa\<lparr>bvalues := vs\<rparr>) j = Inr (ba_spill (unat (elsize pa)) (unat idx) v (unat (j - 1)) x))"
proof -
  note low = ba_room_low [OF assms(1) refl] and wide = ba_room_wide [OF assms(1) refl]
  consider "unat (elsize pa) = 1 \<or> unat (elsize pa) = 2 \<or> unat (elsize pa) = 4"
    | "unat (elsize pa) = 8 \<or> unat (elsize pa) = 16 \<or> unat (elsize pa) = 32"
    using ba_ok_cases [OF assms(1)] by metis
  then show ?thesis
  proof cases
    case 1
    then show ?thesis
      using bitarray_set_low [OF refl 1 refl low [OF assms(2)] refl low [OF assms(3)], of v]
        bitarray_getval_low [OF refl 1 refl, of j] low [OF assms(3)] by auto
  next
    case 2
    then show ?thesis
      using bitarray_set_wide [OF refl 2 refl wide [OF assms(2)] refl wide [OF assms(3)], of v] by auto
  qed
qed

lemma ba_index: "i < unat (capacity pa) \<Longrightarrow> unat (of_nat (Suc i) - 1 :: u32) = i"
  using unat_lt_u32 [of "capacity pa"] by (simp add: unat_of_nat_u32)

lemma unat_index:
  fixes idx :: u32
  assumes "0 < idx"
  shows "unat (idx - 1) = unat idx - 1" "0 < unat idx"
  using assms by (auto simp: unat_minus_one unat_gt_0 word_gt_0)

lemma bitarray_getval_elem:
  assumes "ba_ok pa" "0 < idx" "idx \<le> capacity pa"
  shows "bitarray_getval pa idx = Inr (ba_elem pa (unat idx - 1))"
proof -
  have u: "unat (idx - 1) = unat idx - 1" "0 < unat idx"
    using unat_index [OF assms(2)] .
  then have "unat (idx - 1) < unat (capacity pa)" using assms(3) by (simp add: word_le_nat_alt)
  from ba_setval_spills [OF assms(1) this this] obtain x where "bitarray_getval pa idx = Inr x" by blast
  moreover have "of_nat (Suc (unat idx - 1)) = idx" using u(2) by simp
  ultimately show ?thesis by (simp add: ba_elem_def)
qed

lemma length_ba_elems [simp]: "length (ba_elems pa) = unat (capacity pa)"
  by (simp add: ba_elems_def)

lemma bitarray_get_elem:
  assumes "ba_ok pa"
  shows "bitarray_get pa idx =
    (if 0 < idx \<and> idx \<le> capacity pa then Inr (ba_elems pa ! (unat idx - 1)) else Inl BaInvalidIndex)"
proof (cases "0 < idx \<and> idx \<le> capacity pa")
  case True
  then have "unat idx - 1 < unat (capacity pa)" using unat_index(2) [of idx] by (auto simp: word_le_nat_alt)
  with True bitarray_getval_elem [OF assms] show ?thesis
    by (auto simp: bitarray_get_def ba_lift_def ba_elems_def)
next
  case False
  then show ?thesis by (auto simp: bitarray_get_def not_le word_gt_0)
qed

text \<open>C32. Storing in a bit array: for an index in range \<^verbatim>\<open>array[ idx ] = v\<close> succeeds, keeps the array well
  formed with its capacity and element size, and leaves in the element the low bits of \<open>v\<close>. A
  value that fits the element changes nothing else: the array is the old list of elements with
  one replaced. A value that is too wide also sets bits in the earlier elements of the same byte,
  exactly its bits above the element. Every index outside 1 to capacity is refused.\<close>

theorem bitarray_set_updates:
  assumes "ba_ok pa"
  shows "if 0 < idx \<and> idx \<le> capacity pa
    then \<exists>pa'. bitarray_set pa idx v = Inr pa' \<and> ba_ok pa' \<and> capacity pa' = capacity pa \<and> elsize pa' = elsize pa \<and>
      bitarray_get pa' idx = Inr (take_bit (unat (elsize pa)) v) \<and>
      (unat v < 2 ^ unat (elsize pa) \<longrightarrow> ba_elems pa' = (ba_elems pa)[unat idx - 1 := v]) \<and>
      ba_elems pa' = map (\<lambda>j. ba_spill (unat (elsize pa)) (unat idx - 1) v j (ba_elems pa ! j)) [0..<unat (capacity pa)]
    else bitarray_set pa idx v = Inl BaInvalidIndex"
proof (cases "0 < idx \<and> idx \<le> capacity pa")
  case True
  let ?es = "unat (elsize pa)" and ?n = "unat (capacity pa)"
  have u: "unat (idx - 1) = unat idx - 1" "0 < unat idx"
    using True unat_index [of idx] by simp_all
  then have i: "unat (idx - 1) < ?n" using True by (auto simp: word_le_nat_alt)
  obtain vs where vs: "ba_setval pa (idx - 1) v = Inr vs" "length vs = length (bvalues pa)"
    using ba_setval_spills [OF assms i i, of v] by blast
  define pa' where "pa' = pa\<lparr>bvalues := vs\<rparr>"
  have pa': "ba_ok pa'" "capacity pa' = capacity pa" "elsize pa' = elsize pa"
    using assms vs(2) by (simp_all add: pa'_def ba_ok_def)
  have elem: "ba_elem pa' j = ba_spill ?es (unat idx - 1) v j (ba_elem pa j)" if "j < ?n" for j
  proof -
    have "unat (of_nat (Suc j) - 1 :: u32) = j" using that by (rule ba_index)
    then show ?thesis
      using ba_setval_spills [OF assms i, of "of_nat (Suc j)" v] that vs(1) u(1)
      by (auto simp: ba_elem_def pa'_def)
  qed
  then have elems: "ba_elems pa' = map (\<lambda>j. ba_spill ?es (unat idx - 1) v j (ba_elems pa ! j)) [0..<?n]"
    by (simp add: ba_elems_def pa'(2))
  have "bitarray_set pa idx v = Inr pa'"
    using True vs(1) by (auto simp: bitarray_set_def pa'_def not_le)
  moreover have "bitarray_get pa' idx = Inr (take_bit ?es v)"
    using True i u(1) pa' by (simp add: bitarray_get_elem elems ba_spill_def)
  moreover have "ba_elems pa' = (ba_elems pa)[unat idx - 1 := v]" if "unat v < 2 ^ ?es"
  proof (rule nth_equalityI)
    show "length (ba_elems pa') = length ((ba_elems pa)[unat idx - 1 := v])" by (simp add: pa'(2))
    fix j
    assume "j < length (ba_elems pa')"
    then have j: "j < ?n" by (simp add: pa'(2))
    have tb: "take_bit ?es v = v"
      using that by (simp add: word_unat_eq_iff unsigned_take_bit_eq take_bit_nat_eq_self)
    moreover have "take_bit ?es (drop_bit (?es * k) v) = 0" if "1 \<le> k" for k
    proof -
      have "?es * 1 \<le> ?es * k" using that by (intro mult_le_mono) auto
      then have "\<not> ?es * k + n < ?es" for n by linarith
      then have "\<not> bit (drop_bit (?es * k) (take_bit ?es v)) n" for n by (simp add: bit_simps)
      then have "drop_bit (?es * k) (take_bit ?es v) = 0" by (intro bit_word_eqI) simp
      then show ?thesis using tb by simp
    qed
    ultimately show "ba_elems pa' ! j = (ba_elems pa)[unat idx - 1 := v] ! j"
      using j by (auto simp: elems ba_spill_def nth_list_update)
  qed
  ultimately show ?thesis using True pa' elems by auto
next
  case False
  then show ?thesis by (auto simp: bitarray_set_def not_le word_gt_0)
qed

subsection \<open>Iteration and conversion\<close>

lemma ba_all_elems:
  assumes "ba_ok pa" "capacity pa \<noteq> -1" "0 < unat idx" "unat idx \<le> Suc (unat (capacity pa))"
  shows "ba_all pa idx = Some (Inr (drop (unat idx - 1) (ba_elems pa)))"
  using assms(3,4)
proof (induction "Suc (unat (capacity pa)) - unat idx" arbitrary: idx)
  case 0
  then have "\<not> idx \<le> capacity pa" by (simp add: word_le_nat_alt)
  with 0 show ?case by (subst ba_all.simps) simp
next
  case (Suc d)
  then have le: "idx \<le> capacity pa" "0 < idx" by (auto simp: word_le_nat_alt word_less_nat_alt)
  have "unat (capacity pa) < 4294967295"
    using assms(2) unat_lt_u32 [of "capacity pa"] word_unat_eq_iff [of "capacity pa" "-1"]
    by (simp add: unat_minus_one_u32)
  with le(1) have "unat idx < 4294967295" by (simp add: word_le_nat_alt)
  then have u: "unat (idx + 1) = Suc (unat idx)" by (rule unat_Suc_u32)
  have "unat (idx + 1) \<le> Suc (unat (capacity pa))" using le(1) u by (simp add: word_le_nat_alt)
  then have "ba_all pa (idx + 1) = Some (Inr (drop (unat idx) (ba_elems pa)))"
    using Suc.hyps u by simp
  moreover have "drop (unat idx - 1) (ba_elems pa) = ba_elem pa (unat idx - 1) # drop (unat idx) (ba_elems pa)"
    using le(1) Suc.prems(1) by (subst Cons_nth_drop_Suc [symmetric]) (auto simp: ba_elems_def word_le_nat_alt)
  ultimately show ?case
    using le bitarray_getval_elem [OF assms(1) le(2,1)] by (subst ba_all.simps) simp
qed

lemma ba_raw_values:
  assumes "ba_ok pa"
  shows "ba_raw pa = Inr (bvalues pa)"
proof -
  let ?b = "unat (capacity pa) * unat (elsize pa)"
  have lt: "?b < 2 ^ 32" using assms by (simp add: ba_ok_def)
  have prod: "unat (capacity pa * ucast (elsize pa)) = ?b"
    using lt by (simp add: unat_word_ariths unsigned_ucast_eq take_bit_nat_eq_self unat_lt_u8 less_trans [OF unat_lt_u8])
  have "unat (ROUND_SIZE (capacity pa * ucast (elsize pa))) = (?b + 7) div 8"
  proof -
    let ?s = "capacity pa * ucast (elsize pa)"
    have and7: "unat (?s AND 7) = ?b mod 8"
      using nat_and_mask [of ?b 3] prod by (simp add: unsigned_and_eq)
    have div: "unat (drop_bit 3 ?s) = ?b div 8" by (simp add: drop_bit_eq_div unat_div prod)
    have q: "?b div 8 < 2 ^ 29" using lt by (intro less_mult_imp_div_less) simp
    show ?thesis
    proof (cases "?b mod 8 = 0")
      case True
      then have "?s AND 7 = 0" using and7 by (simp add: unat_eq_0)
      moreover have "(?b + 7) div 8 = ?b div 8" using True by presburger
      ultimately show ?thesis using div by (simp add: ROUND_SIZE_def)
    next
      case False
      then have "?s AND 7 \<noteq> 0" using and7 by (metis unat_0)
      moreover have "(?b + 7) div 8 = Suc (?b div 8)" using False by presburger
      ultimately show ?thesis using div q unat_Suc_u32 [of "drop_bit 3 ?s"] by (simp add: ROUND_SIZE_def)
    qed
  qed
  then show ?thesis using assms by (simp add: ba_raw_def ba_ok_def)
qed

text \<open>The sizes \<^verbatim>\<open>bitarray_new\<close> accepts are the powers of two up to 32.\<close>

lemma ba_elsize_valid:
  "\<not> (es \<le> 0 \<or> 32 < es \<or> es AND (es - 1) \<noteq> 0) \<longleftrightarrow> unat (es :: u8) \<in> {1, 2, 4, 8, 16, 32}"
proof -
  have all: "\<forall>n \<in> set [0..<33]. \<not> ((of_nat n :: u8) \<le> 0 \<or> 32 < (of_nat n :: u8) \<or> of_nat n AND (of_nat n - 1) \<noteq> (0 :: u8))
      \<longleftrightarrow> n \<in> {1, 2, 4, 8, 16, 32}"
    by code_simp
  show ?thesis
  proof (cases "unat es \<le> 32")
    case True
    then have "unat es \<in> set [0..<33]" by simp
    from bspec [OF all this] show ?thesis by simp
  next
    case False
    then show ?thesis by (auto simp: word_less_nat_alt)
  qed
qed

lemma ba_build_bytes:
  assumes "length bs < 2 ^ 29" "unat (es :: u8) \<in> {1, 2, 4, 8, 16, 32}" "8 * length bs mod unat es = 0"
    and "bs \<noteq> []" "\<And>vs. length vs = length bs \<Longrightarrow> filler vs = Inr bs"
  shows "ba_from_bytes junk (of_nat (length bs)) es filler =
      Inr \<lparr>capacity = of_nat (8 * length bs div unat es), elsize = es, bvalues = bs\<rparr> \<and>
    ba_ok \<lparr>capacity = of_nat (8 * length bs div unat es), elsize = es, bvalues = bs\<rparr>"
proof -
  let ?n = "8 * length bs" and ?e = "unat es"
  let ?pa = "\<lparr>capacity = of_nat (?n div ?e), elsize = es, bvalues = bs\<rparr>"
  have n: "?n < 2 ^ 32" using assms(1) by simp
  have e: "es \<noteq> 0" using assms(2) by auto
  have pb: "push_bit 3 (of_nat (length bs)) = (of_nat ?n :: u32)"
    by (simp add: push_bit_eq_mult mult.commute)
  have un: "unat (of_nat ?n :: u32) = ?n" using n by (intro unat_of_nat_u32) simp
  have ue: "unat (ucast es :: u32) = ?e" by (simp add: unsigned_ucast_eq take_bit_nat_eq_self unat_lt_u8 less_trans [OF unat_lt_u8])
  have m: "push_bit 3 (of_nat (length bs)) mod (ucast es :: u32) = 0"
    unfolding pb word_unat_eq_iff unat_mod un ue using assms(3) by simp
  have q: "?n div ?e < 4294967296" using le_less_trans [OF div_le_dividend [of ?n ?e]] n by simp
  have d: "push_bit 3 (of_nat (length bs)) div (ucast es :: u32) = of_nat (?n div ?e)"
    unfolding pb word_unat_eq_iff unat_div un ue using unat_of_nat_u32 [OF q] by simp
  have prod: "?n div ?e * ?e = ?n" using assms(3) by (simp add: mod_eq_0_iff_dvd)
  have ok: "ba_ok ?pa" using assms(2) n q prod by (simp add: ba_ok_def unat_of_nat_u32)
  have "ba_raw ?pa = Inr bs" using ba_raw_values [OF ok] by simp
  then have total: "length bs \<le> unat (ROUND_SIZE (of_nat (?n div ?e) * ucast es)) \<and>
      unat (ROUND_SIZE (of_nat (?n div ?e) * ucast es)) \<le> length bs"
    by (auto simp: ba_raw_def Let_def split: if_splits)
  then have "unat (ROUND_SIZE (of_nat (?n div ?e) * ucast es)) = length bs" by simp
  moreover from this assms(4) have "\<not> ROUND_SIZE (of_nat (?n div ?e) * ucast es) \<le> 0"
    by (metis length_0_conv unat_0 word_le_0_iff)
  ultimately have "ba_build junk (of_nat (?n div ?e)) es filler = Inr ?pa"
    using assms(5) ba_elsize_valid [of es] assms(2) by (simp add: ba_build_def Let_def del: word_le_0_iff)
  then show ?thesis using ok e m by (simp add: ba_from_bytes_def d)
qed

lemma ba_from_table_all:
  "i + length ts \<le> length vs \<Longrightarrow> ba_from_table i ts vs = Inr (overwrite vs i (map ucast ts))"
proof (induction ts arbitrary: i vs)
  case Nil
  then show ?case by simp
next
  case (Cons t ts)
  have "overwrite (vs[i := ucast t]) (i + 1) (map ucast ts) = overwrite vs i (map ucast (t # ts))"
    using Cons.prems by (simp add: overwrite_def take_Suc_conv_app_nth)
  then show ?case using Cons by simp
qed

subsection \<open>Arrays from strings\<close>

text \<open>The elements a byte holds, highest first, and the byte put together again.\<close>

definition ba_digits :: "nat \<Rightarrow> u8 \<Rightarrow> u8 list" where
  "ba_digits es b = map (\<lambda>k. take_bit es (drop_bit (8 - es - k * es) b)) [0..<8 div es]"

definition ba_join :: "nat \<Rightarrow> u8 list \<Rightarrow> u8" where
  "ba_join es ds = foldl (\<lambda>a d. push_bit es a OR d) 0 ds"

lemma ba_join_step: "push_bit es (drop_bit (k + es) b) OR take_bit es (drop_bit k b) = drop_bit k (b :: u8)"
  by (rule bit_word_eqI) (auto simp: bit_simps)

lemma ba_join_digits:
  assumes "es \<in> {1, 2, 4, 8}"
  shows "ba_join es (ba_digits es b) = b"
proof -
  let ?d = "\<lambda>k. take_bit es (drop_bit (8 - es - k * es) b)"
  have "foldl (\<lambda>a d. push_bit es a OR d) 0 (map ?d [0..<m]) = drop_bit (8 - m * es) b" if "m * es \<le> 8" for m
    using that
  proof (induction m)
    case 0
    show ?case by (rule bit_word_eqI) (simp add: bit_simps)
  next
    case (Suc m)
    then have "8 - m * es = (8 - Suc m * es) + es" "8 - es - m * es = 8 - Suc m * es" by auto
    moreover have "m * es \<le> 8" using Suc.prems by simp
    ultimately show ?case
      using Suc.IH ba_join_step [of es "8 - Suc m * es" b] by (simp del: mult_Suc diff_diff_left)
  qed
  from this [of "8 div es"] assms show ?thesis
    unfolding ba_join_def ba_digits_def by auto
qed

lemma map_blocks:
  assumes "0 < (K :: nat)"
  shows "map (\<lambda>i. g (s ! (i div K)) (i mod K)) [0..<K * length s] = concat (map (\<lambda>b. map (g b) [0..<K]) s)"
proof (induction s rule: rev_induct)
  case Nil
  then show ?case by simp
next
  case (snoc b s)
  let ?f = "\<lambda>i. g ((s @ [b]) ! (i div K)) (i mod K)"
  have "map ?f [0..<K * length s] = map (\<lambda>i. g (s ! (i div K)) (i mod K)) [0..<K * length s]"
    by (rule map_cong) (auto simp: nth_append less_mult_imp_div_less mult.commute)
  moreover have "map ?f [K * length s..<K * length s + K] = map (g b) [0..<K]"
    by (rule nth_equalityI) (simp_all add: nth_append)
  moreover have "[0..<K * length (s @ [b])] = [0..<K * length s] @ [K * length s..<K * length s + K]"
    using upt_add_eq_append [of 0 "K * length s" K] by (simp add: add.commute)
  ultimately show ?case using snoc by simp
qed

lemma ba_elem_digit:
  assumes "ba_ok pa" "unat (elsize pa) \<in> {1, 2, 4, 8}" "i < unat (capacity pa)"
  shows "ucast (ba_elem pa i) =
    (take_bit (unat (elsize pa)) (drop_bit (8 - unat (elsize pa) - i mod (8 div unat (elsize pa)) * unat (elsize pa))
       (bvalues pa ! (i div (8 div unat (elsize pa))))) :: u8)"
proof -
  let ?es = "unat (elsize pa)"
  have idx: "i = unat (of_nat (Suc i) - 1 :: u32)" using ba_index [OF assms(3)] by simp
  show ?thesis
  proof (cases "?es = 8")
    case True
    then have "i < length (bvalues pa)" using ba_room_wide [OF assms(1) refl assms(3)] by simp
    moreover have "(take_bit 8 x :: u8) = x" for x by (rule bit_word_eqI) (simp add: bit_simps)
    ultimately show ?thesis using True idx
      by (simp add: ba_elem_def bitarray_getval_def Let_def) (rule bit_word_eqI, simp add: bit_simps)
  next
    case False
    with assms(2) have e: "?es = 1 \<or> ?es = 2 \<or> ?es = 4" by auto
    then have shift: "i * ?es div 8 = i div (8 div ?es)" "ba_low ?es i = 8 - ?es - i mod (8 div ?es) * ?es"
      by (auto simp: ba_byte_simps algebra_simps diff_mult_distrib)
    have "ba_elem pa i = take_bit ?es (drop_bit (ba_low ?es i) (ucast (bvalues pa ! (i * ?es div 8))))"
      using bitarray_getval_low [OF refl e idx] ba_room_low [OF assms(1) refl assms(3)] by (simp add: ba_elem_def)
    moreover have "ucast (take_bit n (drop_bit k (ucast x :: u32))) = (take_bit n (drop_bit k x) :: u8)" for n k x
      using bit_imp_le_length [of x] by (intro bit_word_eqI) (force simp: bit_simps)
    ultimately show ?thesis by (simp only: shift)
  qed
qed

text \<open>A bit array made from a string is that string: \<^verbatim>\<open>bitarray.new( s, size )\<close> for a non-empty string
  and a size that divides its bits holds exactly the bytes of \<open>s\<close>, which both conversions in "raw"
  mode return. For sizes up to 8 the "seq" mode returns, byte by byte, the elements from the
  highest bits down, and joining them gives the string back.\<close>

theorem bitarray_string_roundtrip:
  assumes "length s < 2 ^ 29" "s \<noteq> []" "unat (es :: u8) \<in> {1, 2, 4, 8, 16, 32}" "8 * length s mod unat es = 0"
  shows "\<exists>pa. bitarray_new junk (BaString s) (Some (ucast es)) a3 = Inr pa \<and> ba_ok pa \<and>
    unat (bitarray_len pa) = 8 * length s div unat es \<and>
    bitarray_tostring pa (Some ba_raw_name) = Some (Inr s) \<and>
    bitarray_totable pa (Some ba_raw_name) = Some (Inr (map ucast s)) \<and>
    bitarray_new junk (BaTable (map ucast s)) (Some (ucast es)) a3 = Inr pa \<and>
    (es \<le> 8 \<longrightarrow> bitarray_tostring pa None = Some (Inr (concat (map (ba_digits (unat es)) s))) \<and>
       map (ba_join (unat es) \<circ> ba_digits (unat es)) s = s)"
proof -
  let ?e = "unat es"
  define pa where "pa = \<lparr>capacity = of_nat (8 * length s div ?e), elsize = es, bvalues = s\<rparr>"
  have uc: "ucast (ucast es :: u32) = es" by (rule bit_word_eqI) (simp add: bit_simps)
  have "length s \<le> length vs \<Longrightarrow> length vs = length s \<Longrightarrow> overwrite vs 0 s = s" for vs
    by (simp add: overwrite_def)
  then have "ba_from_bytes junk (of_nat (length s)) es (ba_memcpy s) = Inr pa \<and> ba_ok pa"
    unfolding pa_def using assms by (intro ba_build_bytes) (auto simp: ba_memcpy_def)
  then have new: "bitarray_new junk (BaString s) (Some (ucast es)) a3 = Inr pa" and ok: "ba_ok pa"
    by (auto simp: bitarray_new_def uc)
  have "map (\<lambda>x. ucast (ucast x :: u32)) s = s" by (rule map_idI) (rule bit_word_eqI, simp add: bit_simps)
  then have "ba_from_bytes junk (of_nat (length s)) es (ba_from_table 0 (map ucast s)) = Inr pa \<and> ba_ok pa"
    unfolding pa_def using assms
    by (intro ba_build_bytes) (auto simp: ba_from_table_all overwrite_def comp_def)
  then have new': "bitarray_new junk (BaTable (map ucast s)) (Some (ucast es)) a3 = Inr pa"
    by (simp add: bitarray_new_def uc)
  have bl: "8 * length s div ?e \<le> 8 * length s" by (rule div_le_dividend)
  have len: "unat (bitarray_len pa) = 8 * length s div ?e"
    using assms(1) le_less_trans [OF bl] unat_of_nat_u32 [of "8 * length s div ?e"] by (simp add: pa_def bitarray_len_def)
  have raw: "ba_raw pa = Inr s" using ba_raw_values [OF ok] by (simp add: pa_def)
  have mode: "ba_get_mode pa (Some ba_raw_name) = Inr BITARRAY_UNPACK_RAW" by (simp add: ba_get_mode_def)
  have seq: "bitarray_tostring pa None = Some (Inr (concat (map (ba_digits ?e) s)))
      \<and> map (ba_join ?e \<circ> ba_digits ?e) s = s" if "es \<le> 8"
  proof -
    have e: "?e \<in> {1, 2, 4, 8}" using that assms(3) by (auto simp: word_le_nat_alt)
    then obtain K where K: "8 = K * ?e" "0 < K" "8 div ?e = K"
      by (intro that [of "8 div ?e"]) auto
    have cap: "unat (capacity pa) = K * length s"
    proof -
      have "8 * length s = K * length s * ?e" using K(1) by (metis mult.assoc mult.commute)
      then have "8 * length s div ?e = K * length s" using e by auto
      then show ?thesis using len by (simp add: bitarray_len_def)
    qed
    have "capacity pa \<noteq> -1"
    proof
      assume "capacity pa = -1"
      then have "unat (capacity pa) = 4294967295" using unat_minus_one_u32 by simp
      moreover have "K \<in> {8, 4, 2, 1}" using e K(1) by auto
      ultimately show False using cap assms(1) by (elim insertE emptyE) (simp_all, presburger+)
    qed
    then have "ba_all pa 1 = Some (Inr (ba_elems pa))"
      using ba_all_elems [OF ok, of 1] by simp
    moreover have "map ucast (ba_elems pa) = concat (map (ba_digits ?e) s)"
    proof -
      have "map ucast (ba_elems pa) =
          map (\<lambda>i. take_bit ?e (drop_bit (8 - ?e - i mod K * ?e) (s ! (i div K)))) [0..<K * length s]"
        using ba_elem_digit [OF ok] e K(3) cap by (simp add: ba_elems_def pa_def)
      then show ?thesis
        using map_blocks [OF K(2), of "\<lambda>b k. take_bit ?e (drop_bit (8 - ?e - k * ?e) b)" s] K(3)
        by (simp add: ba_digits_def [abs_def])
    qed
    moreover have "ba_get_mode pa None = Inr BITARRAY_UNPACK_SEQ"
      using that by (simp add: ba_get_mode_def pa_def not_less)
    ultimately show ?thesis
      using ba_join_digits [OF e] by (simp add: bitarray_tostring_def map_idI)
  qed
  have "bitarray_tostring pa (Some ba_raw_name) = Some (Inr s)"
    "bitarray_totable pa (Some ba_raw_name) = Some (Inr (map ucast s))"
    by (simp_all add: bitarray_tostring_def bitarray_totable_def mode raw ba_lift_def)
  then show ?thesis using new new' ok len seq by blast
qed

subsection \<open>The capacity times the element size is not checked\<close>

lemma ba_access_beyond:
  assumes "unat (elsize pa) \<in> {1, 2, 4, 8, 16, 32}" "length (bvalues pa) \<le> unat (idx - 1) * unat (elsize pa) div 8"
  shows "bitarray_getval pa idx = Inl OutOfBounds" "ba_setval pa (idx - 1) v = Inl OutOfBounds"
proof -
  consider "unat (elsize pa) = 1 \<or> unat (elsize pa) = 2 \<or> unat (elsize pa) = 4"
    | "unat (elsize pa) = 8" | "unat (elsize pa) = 16" | "unat (elsize pa) = 32"
    using assms(1) by blast
  then have "bitarray_getval pa idx = Inl OutOfBounds \<and> ba_setval pa (idx - 1) v = Inl OutOfBounds"
  proof cases
    case 1
    then show ?thesis
      using bitarray_getval_low [OF refl 1 refl] ba_setval_low [OF refl 1 refl] assms(2) by simp
  qed (use assms(2) in \<open>simp_all add: bitarray_getval_def ba_setval_def Let_def\<close>)
  then show "bitarray_getval pa idx = Inl OutOfBounds" "ba_setval pa (idx - 1) v = Inl OutOfBounds" by simp_all
qed

text \<open>The size of the block is computed in 32 bits: for a capacity whose bits are \<open>2 ^ 32\<close> or more
  (and not a multiple of it) \<^verbatim>\<open>bitarray.new\<close> succeeds with the block of the remainder, and reading or
  writing the last element, whose index passes the check, is an access outside the block.\<close>

theorem bitarray_capacity_overflows:
  fixes cap :: u32 and es :: u8
  assumes "unat es \<in> {1, 2, 4, 8, 16, 32}" "2 ^ 32 \<le> unat cap * unat es" "unat cap * unat es mod 2 ^ 32 \<noteq> 0"
  shows "\<exists>pa. bitarray_new junk (BaNumber cap) (Some (ucast es)) a3 = Inr pa \<and>
    length (bvalues pa) = (unat cap * unat es mod 2 ^ 32 + 7) div 8 \<and> bitarray_len pa = cap \<and>
    bitarray_get pa cap = Inl (BaFault OutOfBounds) \<and> bitarray_set pa cap v = Inl (BaFault OutOfBounds)"
proof -
  let ?s = "cap * ucast es" and ?e = "unat es"
  let ?r = "unat cap * ?e mod 2 ^ 32"
  have uc: "ucast (ucast es :: u32) = es" by (rule bit_word_eqI) (simp add: bit_simps)
  have us: "unat ?s = ?r"
    by (simp add: unat_word_ariths unsigned_ucast_eq take_bit_nat_eq_self unat_lt_u8 less_trans [OF unat_lt_u8])
  define one where "one = \<lparr>capacity = ?s, elsize = 1, bvalues = replicate ((?r + 7) div 8) 0\<rparr>"
  have "ba_ok one" using us by (simp add: one_def ba_ok_def)
  from ba_raw_values [OF this] us have total: "unat (ROUND_SIZE ?s) \<le> (?r + 7) div 8"
    "take (unat (ROUND_SIZE ?s)) (replicate ((?r + 7) div 8) (0 :: u8)) = replicate ((?r + 7) div 8) 0"
    by (simp_all add: one_def ba_raw_def Let_def split: if_splits)
  then have size: "unat (ROUND_SIZE ?s) = (?r + 7) div 8" by simp
  moreover have "0 < (?r + 7) div 8" using assms(3) by (simp add: div_greater_zero_iff)
  ultimately have nz: "\<not> ROUND_SIZE ?s \<le> 0" by (metis less_numeral_extra(3) unat_0 word_le_0_iff)
  let ?fill = "case a3 of Some f \<Rightarrow> ucast f | None \<Rightarrow> 0"
  define pa where "pa = \<lparr>capacity = cap, elsize = es, bvalues = replicate ((?r + 7) div 8) ?fill\<rparr>"
  have "map (\<lambda>_. ?fill) (map junk [0..<unat (ROUND_SIZE ?s)]) = replicate ((?r + 7) div 8) ?fill"
    by (simp add: size map_replicate_const)
  then have new: "bitarray_new junk (BaNumber cap) (Some (ucast es)) a3 = Inr pa"
    using nz ba_elsize_valid [of es] assms(1)
    by (simp add: bitarray_new_def ba_build_def Let_def uc pa_def del: word_le_0_iff)
  have cap: "0 < cap" using assms(2) by (auto simp: word_gt_0)
  have "?r + 2 ^ 32 \<le> unat cap * ?e"
  proof -
    have "1 \<le> unat cap * ?e div 2 ^ 32" using assms(2) by (simp add: div_greater_zero_iff Suc_leI)
    then have "2 ^ 32 * 1 \<le> 2 ^ 32 * (unat cap * ?e div 2 ^ 32)" by (rule mult_le_mono2)
    then show ?thesis using mult_div_mod_eq [of "2 ^ 32" "unat cap * ?e"] by linarith
  qed
  moreover have "?e \<le> 32" using assms(1) by auto
  ultimately have "?r + 7 \<le> (unat cap - 1) * ?e" by (simp add: diff_mult_distrib)
  then have "(?r + 7) div 8 \<le> unat (cap - 1) * ?e div 8"
    using unat_index [OF cap] by (simp add: div_le_mono)
  then have far: "length (bvalues pa) \<le> unat (cap - 1) * unat (elsize pa) div 8" by (simp add: pa_def)
  from ba_access_beyond [OF _ this] assms(1) have "bitarray_getval pa cap = Inl OutOfBounds"
    "ba_setval pa (cap - 1) v = Inl OutOfBounds" by (simp_all add: pa_def)
  then have "bitarray_get pa cap = Inl (BaFault OutOfBounds)" "bitarray_set pa cap v = Inl (BaFault OutOfBounds)"
    using cap by (auto simp: bitarray_get_def bitarray_set_def ba_lift_def pa_def)
  moreover have "length (bvalues pa) = (?r + 7) div 8" "bitarray_len pa = cap" by (simp_all add: pa_def bitarray_len_def)
  ultimately show ?thesis using new by blast
qed

text \<open>An element size that is 0 in its low byte is used as a divisor before it is checked.\<close>

lemma bitarray_new_size_zero:
  "bitarray_new junk (BaString s) (Some 256) a3 = Inl (BaFault DivByZero)"
  by (simp add: bitarray_new_def ba_from_bytes_def)

subsection \<open>Witnesses\<close>

definition ba_demo :: bitarray where
  "ba_demo = \<lparr>capacity = 3, elsize = 4, bvalues = [0x12, 0x30]\<rparr>"

theorem bitarray_set_updates_witness:
  "ba_elems ba_demo = [1, 2, 3] \<and>
   (\<exists>pa'. bitarray_set ba_demo 2 9 = Inr pa' \<and> ba_elems pa' = [1, 9, 3]) \<and>
   (\<exists>pa'. bitarray_set ba_demo 2 0x4A = Inr pa' \<and> ba_elems pa' = [5, 0xA, 3])"
proof -
  have ok: "ba_ok ba_demo" by (simp add: ba_ok_def ba_demo_def)
  have el: "ba_elems ba_demo = [1, 2, 3]" by code_simp
  have "ba_elems pa' = map (\<lambda>j. ba_spill 4 1 0x4A j (ba_elems ba_demo ! j)) [0..<3] \<Longrightarrow> ba_elems pa' = [5, 0xA, 3]" for pa'
    unfolding el by (simp add: ba_spill_def upt_rec take_bit_eq_mod drop_bit_eq_div)
  then show ?thesis
    using bitarray_set_updates [OF ok, of 2 9] bitarray_set_updates [OF ok, of 2 "0x4A"] el
    by (auto simp: ba_demo_def [symmetric]) (auto simp: ba_demo_def)
qed

theorem bitarray_string_roundtrip_witness:
  "\<exists>pa. bitarray_new (\<lambda>_. 0) (BaString [0x1B, 0xFF]) (Some 2) None = Inr pa \<and>
     bitarray_tostring pa (Some ba_raw_name) = Some (Inr [0x1B, 0xFF]) \<and>
     bitarray_tostring pa None = Some (Inr [0, 1, 2, 3, 3, 3, 3, 3])"
proof -
  have "concat (map (ba_digits 2) [0x1B, 0xFF]) = [0, 1, 2, 3, 3, 3, 3, 3]" by code_simp
  then show ?thesis
    using bitarray_string_roundtrip [of "[0x1B, 0xFF]" 2 "\<lambda>_. 0" None] by auto
qed

theorem bitarray_capacity_overflows_witness:
  "\<exists>pa. bitarray_new (\<lambda>_. 0) (BaNumber 0x20000001) (Some 8) None = Inr pa \<and> length (bvalues pa) = 1 \<and>
     bitarray_get pa 0x20000001 = Inl (BaFault OutOfBounds)"
  using bitarray_capacity_overflows [of 8 "0x20000001" "\<lambda>_. 0" None] by auto

end
