(* ===== verification/Ps2.thy ===== *)
theory Ps2
  imports Fifo_Interface Elua_Term
begin

text \<open>
  The PS/2 keyboard decoder \<^verbatim>\<open>src/ps2.c\<close>. The keyboard clocks out frames of 11 bits; every falling edge
  runs the interrupt handler, which collects the data bits, keeps track of the modifier keys and puts
  the codes of other keys with the modifiers in their upper three bits into a ring of 256. The
  handler also walks through the commands sent to the keyboard, one per acknowledgement. The pins,
  the timer and the previous handler of the chain are the environment: an edge is the level of the
  data line, the frames sent are recorded, and a wait runs the handler on the edges that come.
\<close>

subsection \<open>State\<close>

record ps2 =
  ps2_flags :: u16
  ps2_bitcnt :: u8
  ps2_data :: u8
  ps2_r_idx :: u8
  ps2_w_idx :: u8
  ps2_queue :: "u16 list"
  ps2_ignore_count :: u8
  ps2_send_buffer :: "u8 list"
  ps2_cmds_to_send :: u8
  ps2_send_idx :: u8
  ps2_acks_to_receive :: u8
  ps2_sent :: "bool list list"
  ps2_chained :: "nat list"

text \<open>The public modifier flags and the internal ones.\<close>

abbreviation PS2_SHIFT :: u16 where "PS2_SHIFT \<equiv> 0x0001"
abbreviation PS2_CTRL :: u16 where "PS2_CTRL \<equiv> 0x0002"
abbreviation PS2_ALT :: u16 where "PS2_ALT \<equiv> 0x0004"
abbreviation PS2_IF_EXTENDED :: u16 where "PS2_IF_EXTENDED \<equiv> 0x0008"
abbreviation PS2_IF_BREAK :: u16 where "PS2_IF_BREAK \<equiv> 0x0010"
abbreviation PS2_IF_EXT_CTRL :: u16 where "PS2_IF_EXT_CTRL \<equiv> 0x0020"
abbreviation PS2_IF_EXT_ALT :: u16 where "PS2_IF_EXT_ALT \<equiv> 0x0040"
abbreviation PS2_IF_CTRL :: u16 where "PS2_IF_CTRL \<equiv> 0x0080"
abbreviation PS2_IF_ALT :: u16 where "PS2_IF_ALT \<equiv> 0x0100"
abbreviation PS2_IF_LSHIFT :: u16 where "PS2_IF_LSHIFT \<equiv> 0x0200"
abbreviation PS2_IF_RSHIFT :: u16 where "PS2_IF_RSHIFT \<equiv> 0x0400"
abbreviation PS2_IF_CAPS :: u16 where "PS2_IF_CAPS \<equiv> 0x0800"

definition ps2_set_flag :: "u16 \<Rightarrow> ps2 \<Rightarrow> ps2" where
  "ps2_set_flag x s = s\<lparr>ps2_flags := ps2_flags s OR x\<rparr>"

definition ps2_clear_flag :: "u16 \<Rightarrow> ps2 \<Rightarrow> ps2" where
  "ps2_clear_flag x s = s\<lparr>ps2_flags := ps2_flags s AND NOT x\<rparr>"

definition ps2_is_set :: "u16 \<Rightarrow> ps2 \<Rightarrow> bool" where
  "ps2_is_set x s \<longleftrightarrow> ps2_flags s AND x \<noteq> 0"

abbreviation PS2_EXTENDED_CODE :: u8 where "PS2_EXTENDED_CODE \<equiv> 0xE0"
abbreviation PS2_BREAK_CODE :: u8 where "PS2_BREAK_CODE \<equiv> 0xF0"
abbreviation PS2_PAUSE_1ST_CODE :: u8 where "PS2_PAUSE_1ST_CODE \<equiv> 0xE1"
abbreviation PS2_PAUSE_NUM_CODES :: u8 where "PS2_PAUSE_NUM_CODES \<equiv> 8"
abbreviation PS2_CTRL_CODE :: u8 where "PS2_CTRL_CODE \<equiv> 0x14"
abbreviation PS2_ALT_CODE :: u8 where "PS2_ALT_CODE \<equiv> 0x11"
abbreviation PS2_LSHIFT_CODE :: u8 where "PS2_LSHIFT_CODE \<equiv> 0x12"
abbreviation PS2_RSHIFT_CODE :: u8 where "PS2_RSHIFT_CODE \<equiv> 0x59"
abbreviation PS2_LAST_MAP_CODE :: u8 where "PS2_LAST_MAP_CODE \<equiv> 0x7F"
abbreviation PS2_F7_CODE :: u8 where "PS2_F7_CODE \<equiv> 0x83"
abbreviation PS2_CAPS_CODE :: u8 where "PS2_CAPS_CODE \<equiv> 0x58"
abbreviation PS2_CMD_LED_SET :: u8 where "PS2_CMD_LED_SET \<equiv> 0xED"
abbreviation PS2_CMD_TYPE_RATE :: u8 where "PS2_CMD_TYPE_RATE \<equiv> 0xF3"
abbreviation PS2_CMD_RESET :: u8 where "PS2_CMD_RESET \<equiv> 0xFF"
abbreviation PS2_CAPS_LED_MASK :: u8 where "PS2_CAPS_LED_MASK \<equiv> 0x04"

text \<open>The numbers of the key codes of \<^verbatim>\<open>inc/term.h\<close>, which start at 256.\<close>

definition term_keycodes :: "term_key list" where
  "term_keycodes = [KC_UP, KC_DOWN, KC_LEFT, KC_RIGHT, KC_HOME, KC_END, KC_PAGEUP, KC_PAGEDOWN, KC_ENTER, KC_TAB,
     KC_BACKSPACE, KC_ESC, KC_CTRL_Z, KC_CTRL_A, KC_CTRL_E, KC_CTRL_C, KC_CTRL_T, KC_CTRL_U, KC_CTRL_K, KC_CTRL_Y,
     KC_CTRL_B, KC_CTRL_X, KC_CTRL_V, KC_DEL, KC_F1, KC_F2, KC_F3, KC_F4, KC_F5, KC_F6, KC_F7, KC_F8, KC_F9, KC_F10,
     KC_F11, KC_F12, KC_CTRL_F1, KC_CTRL_F2, KC_CTRL_F4, KC_INSERT, KC_UNKNOWN]"

text \<open>The scan code tables: 0 means no mapping.\<close>

definition ps2_direct_mapping :: "u16 list" where
  "ps2_direct_mapping = [
     0, 288, 0, 284, 282, 280, 281, 291, 0, 289, 287, 285, 283, 9, 0x60, 0,
     0, 0, 0, 0, 0, 0x71, 0x31, 0, 0, 0, 0x7a, 0x73, 0x61, 0x77, 0x32, 0,
     0, 0x63, 0x78, 0x64, 0x65, 0x34, 0x33, 0, 0, 0x20, 0x76, 0x66, 0x74, 0x72, 0x35, 0,
     0, 0x6e, 0x62, 0x68, 0x67, 0x79, 0x36, 0, 0, 0, 0x6d, 0x6a, 0x75, 0x37, 0x38, 0,
     0, 0x2c, 0x6b, 0x69, 0x6f, 0x30, 0x39, 0, 0, 0x2e, 0x2f, 0x6c, 0x3b, 0x70, 0x2d, 0,
     0, 0, 0x27, 0, 0x5b, 0x3d, 0, 0, 0, 0, 10, 0x5d, 0, 0x5c, 0, 0,
     0, 0, 0, 0, 0, 0, 8, 0, 0, 0x31, 0, 0x34, 0x37, 0, 0, 0,
     0x30, 0x2e, 0x32, 0x35, 0x36, 0x38, 0x1b, 0, 290, 0x2b, 0x33, 0x2d, 0x2a, 0x39, 0, 0]"

definition ps2_shift_mapping :: "u16 list" where
  "ps2_shift_mapping = [
     0, 288, 0, 284, 282, 280, 281, 291, 0, 289, 287, 285, 283, 9, 0x7e, 0,
     0, 0, 0, 0, 0, 0x51, 0x21, 0, 0, 0, 0x5a, 0x53, 0x41, 0x57, 0x40, 0,
     0, 0x43, 0x58, 0x44, 0x45, 0x24, 0x23, 0, 0, 0x20, 0x56, 0x46, 0x54, 0x52, 0x25, 0,
     0, 0x4e, 0x42, 0x48, 0x47, 0x59, 0x5e, 0, 0, 0, 0x4d, 0x4a, 0x55, 0x26, 0x2a, 0,
     0, 0x3c, 0x4b, 0x49, 0x4f, 0x29, 0x28, 0, 0, 0x3e, 0x3f, 0x4c, 0x3a, 0x50, 0x5f, 0,
     0, 0, 0x22, 0, 0x7b, 0x2b, 0, 0, 0, 0, 10, 0x7d, 0, 0x7c, 0, 0,
     0, 0, 0, 0, 0, 0, 8, 0, 0, 0x31, 0, 0x34, 0x37, 0, 0, 0,
     0x30, 0x2e, 0x32, 0x35, 0x36, 0x38, 0x1b, 0, 290, 0x2b, 0x33, 0x2d, 0x2a, 0x39, 0, 0]"

definition ps2_ext_mapping :: "(u8 \<times> u16) list" where
  "ps2_ext_mapping = [(0x75, 256), (0x72, 257), (0x6B, 258), (0x74, 259), (0x6C, 260), (0x69, 261), (0x7D, 262),
     (0x7A, 263), (0x71, 279), (0x70, 295), (0x5A, 10), (0x4A, 0x2F)]"

definition KC_DEL_CODE :: u16 where "KC_DEL_CODE = 279"
definition KC_F7_CODE :: u16 where "KC_F7_CODE = 286"

text \<open>
  The character classes of the C library are defined for 0 to 255; what it answers for other
  arguments is part of the environment, and \<open>ctype_plain\<close> states the usual answer.
\<close>

record ctype_beyond =
  beyond_isalpha :: "int \<Rightarrow> bool"
  beyond_toupper :: "int \<Rightarrow> int"
  beyond_tolower :: "int \<Rightarrow> int"

definition ctype_plain :: "ctype_beyond \<Rightarrow> bool" where
  "ctype_plain ct \<longleftrightarrow> (\<forall>c > 255. \<not> beyond_isalpha ct c \<and> beyond_toupper ct c = c \<and> beyond_tolower ct c = c)"

definition c_isalpha :: "ctype_beyond \<Rightarrow> int \<Rightarrow> bool" where
  "c_isalpha ct c \<longleftrightarrow> (if 0 \<le> c \<and> c \<le> 255 then (0x41 \<le> c \<and> c \<le> 0x5A) \<or> (0x61 \<le> c \<and> c \<le> 0x7A)
     else beyond_isalpha ct c)"

definition c_toupper :: "ctype_beyond \<Rightarrow> int \<Rightarrow> int" where
  "c_toupper ct c = (if 0 \<le> c \<and> c \<le> 255 then (if 0x61 \<le> c \<and> c \<le> 0x7A then c - 0x20 else c)
     else beyond_toupper ct c)"

definition c_int_tolower :: "ctype_beyond \<Rightarrow> int \<Rightarrow> int" where
  "c_int_tolower ct c = (if 0 \<le> c \<and> c \<le> 255 then (if 0x41 \<le> c \<and> c \<le> 0x5A then c + 0x20 else c)
     else beyond_tolower ct c)"

subsection \<open>Commands to the keyboard\<close>

datatype ps2_stop = Ps2Reset | Ps2Fault c_fault

text \<open>The data bits from the lowest on, and the bit that makes the number of ones odd.\<close>

primrec ps2_out_bits :: "nat \<Rightarrow> nat \<Rightarrow> nat \<Rightarrow> bool list" where
  "ps2_out_bits 0 cmd par = [\<not> odd par]"
| "ps2_out_bits (Suc n) cmd par =
     (if odd cmd then True # ps2_out_bits n (cmd div 2) (par + 1) else False # ps2_out_bits n (cmd div 2) par)"

definition ps2h_send_cmd :: "nat \<Rightarrow> ps2 \<Rightarrow> ps2_stop + ps2" where
  "ps2h_send_cmd idx s =
     (if idx * 2 + 1 < length (ps2_send_buffer s)
      then let cmd = unat (ps2_send_buffer s ! (idx * 2)); nacks = ps2_send_buffer s ! (idx * 2 + 1)
           in Inr (s\<lparr>ps2_sent := ps2_sent s @ [ps2_out_bits 8 cmd 0], ps2_acks_to_receive := nacks\<rparr>)
      else Inl (Ps2Fault OutOfBounds))"

definition ps2_send :: "u8 list \<Rightarrow> ps2 \<Rightarrow> ps2_stop + ps2" where
  "ps2_send args s =
     (if length args \<le> length (ps2_send_buffer s)
      then ps2h_send_cmd 0 (s\<lparr>ps2_send_buffer := overwrite (ps2_send_buffer s) 0 args,
             ps2_cmds_to_send := of_nat (length args div 2), ps2_send_idx := 0, ps2_acks_to_receive := 0\<rparr>)
      else Inl (Ps2Fault OutOfBounds))"

subsection \<open>Scan codes\<close>

definition ps2_put :: "u16 \<Rightarrow> ps2 \<Rightarrow> ps2" where
  "ps2_put code s = s\<lparr>ps2_queue := (ps2_queue s)[unat (ps2_w_idx s) := push_bit 13 (ps2_flags s AND 7) OR code],
     ps2_w_idx := (ps2_w_idx s + 1) AND 0xFF\<rparr>"

definition ps2_ext_released :: "ps2 \<Rightarrow> ps2" where
  "ps2_ext_released s =
     (let s1 = (if ps2_data s = PS2_CTRL_CODE
                then (let t = ps2_clear_flag PS2_IF_EXT_CTRL s
                      in if \<not> ps2_is_set PS2_IF_CTRL t then ps2_clear_flag PS2_CTRL t else t)
                else if ps2_data s = PS2_ALT_CODE
                then (let t = ps2_clear_flag PS2_IF_EXT_ALT s
                      in if \<not> ps2_is_set PS2_IF_ALT t then ps2_clear_flag PS2_ALT t else t)
                else s)
      in ps2_clear_flag PS2_IF_EXTENDED (ps2_clear_flag PS2_IF_BREAK s1))"

definition ps2_ext_pressed :: "ps2 \<Rightarrow> ps2_stop + ps2" where
  "ps2_ext_pressed s =
     (let s1 = (if ps2_data s = PS2_CTRL_CODE then ps2_set_flag (PS2_IF_EXT_CTRL OR PS2_CTRL) s else s) in
      if ps2_data s1 = PS2_ALT_CODE
      then Inr (ps2_clear_flag PS2_IF_EXTENDED (ps2_set_flag (PS2_IF_EXT_ALT OR PS2_ALT) s1))
      else case map_of ps2_ext_mapping (ps2_data s1) of
        None \<Rightarrow> Inr (ps2_clear_flag PS2_IF_EXTENDED s1)
      | Some code \<Rightarrow>
          if code = KC_DEL_CODE \<and> ps2_is_set PS2_ALT s1 \<and> ps2_is_set PS2_CTRL s1 then Inl Ps2Reset
          else Inr (ps2_clear_flag PS2_IF_EXTENDED (ps2_put code s1)))"

definition ps2_released :: "ps2 \<Rightarrow> ps2_stop + ps2" where
  "ps2_released s =
     (case (if ps2_data s = PS2_CTRL_CODE
            then (let t = ps2_clear_flag PS2_IF_CTRL s
                  in Inr (if \<not> ps2_is_set PS2_IF_EXT_CTRL t then ps2_clear_flag PS2_CTRL t else t))
            else if ps2_data s = PS2_ALT_CODE
            then (let t = ps2_clear_flag PS2_IF_ALT s
                  in Inr (if \<not> ps2_is_set PS2_IF_EXT_ALT t then ps2_clear_flag PS2_ALT t else t))
            else if ps2_data s = PS2_LSHIFT_CODE
            then (let t = ps2_clear_flag PS2_IF_LSHIFT s
                  in Inr (if \<not> ps2_is_set PS2_IF_RSHIFT t then ps2_clear_flag PS2_SHIFT t else t))
            else if ps2_data s = PS2_RSHIFT_CODE
            then (let t = ps2_clear_flag PS2_IF_RSHIFT s
                  in Inr (if \<not> ps2_is_set PS2_IF_LSHIFT t then ps2_clear_flag PS2_SHIFT t else t))
            else if ps2_data s = PS2_CAPS_CODE
            then (if ps2_is_set PS2_IF_CAPS s
                  then ps2_send [PS2_CMD_LED_SET, 1, 0, 1] (ps2_clear_flag PS2_IF_CAPS s)
                  else ps2_send [PS2_CMD_LED_SET, 1, PS2_CAPS_LED_MASK, 1] (ps2_set_flag PS2_IF_CAPS s))
            else Inr s) of
       Inl e \<Rightarrow> Inl e
     | Inr t \<Rightarrow> Inr (ps2_clear_flag PS2_IF_BREAK t))"

definition ps2_map_code :: "ps2 \<Rightarrow> u16" where
  "ps2_map_code s =
     (if ps2_data s = PS2_F7_CODE then KC_F7_CODE
      else if ps2_data s > PS2_LAST_MAP_CODE then 0
      else if ps2_is_set PS2_SHIFT s then ps2_shift_mapping ! unat (ps2_data s)
      else ps2_direct_mapping ! unat (ps2_data s))"

definition ps2_enqueue :: "ctype_beyond \<Rightarrow> ps2 \<Rightarrow> ps2" where
  "ps2_enqueue ct s =
     (let temp = uint (ps2_map_code s) in
      if temp \<noteq> 0
      then (let temp' = (if ps2_is_set PS2_IF_CAPS s \<and> c_isalpha ct temp then c_toupper ct temp else temp)
            in ps2_put (of_int temp') s)
      else s)"

definition ps2_interpret :: "ctype_beyond \<Rightarrow> ps2 \<Rightarrow> ps2_stop + ps2" where
  "ps2_interpret ct s =
     (if ps2_ignore_count s > 0 then Inr (s\<lparr>ps2_ignore_count := ps2_ignore_count s - 1\<rparr>)
      else if ps2_is_set PS2_IF_EXTENDED s then
        (if ps2_is_set PS2_IF_BREAK s then Inr (ps2_ext_released s)
         else if ps2_data s = PS2_BREAK_CODE then Inr (ps2_set_flag PS2_IF_BREAK s)
         else ps2_ext_pressed s)
      else if ps2_is_set PS2_IF_BREAK s then ps2_released s
      else if ps2_data s = PS2_PAUSE_1ST_CODE then Inr (s\<lparr>ps2_ignore_count := PS2_PAUSE_NUM_CODES - 1\<rparr>)
      else if ps2_data s = PS2_EXTENDED_CODE then Inr (ps2_set_flag PS2_IF_EXTENDED s)
      else if ps2_data s = PS2_BREAK_CODE then Inr (ps2_set_flag PS2_IF_BREAK s)
      else if ps2_data s = PS2_CTRL_CODE then Inr (ps2_set_flag (PS2_IF_CTRL OR PS2_CTRL) s)
      else if ps2_data s = PS2_ALT_CODE then Inr (ps2_set_flag (PS2_IF_ALT OR PS2_ALT) s)
      else if ps2_data s = PS2_LSHIFT_CODE then Inr (ps2_set_flag (PS2_IF_LSHIFT OR PS2_SHIFT) s)
      else if ps2_data s = PS2_RSHIFT_CODE then Inr (ps2_set_flag (PS2_IF_RSHIFT OR PS2_SHIFT) s)
      else Inr (ps2_enqueue ct s))"

text \<open>The acknowledgement of a command, whatever the code is.\<close>

definition ps2_acked :: "ps2 \<Rightarrow> ps2_stop + ps2" where
  "ps2_acked s =
     (let s1 = s\<lparr>ps2_bitcnt := 0, ps2_data := 0, ps2_acks_to_receive := ps2_acks_to_receive s - 1\<rparr> in
      if ps2_acks_to_receive s1 = 0
      then (let s2 = s1\<lparr>ps2_cmds_to_send := ps2_cmds_to_send s1 - 1\<rparr> in
            if ps2_cmds_to_send s2 \<noteq> 0
            then (let s3 = s2\<lparr>ps2_send_idx := ps2_send_idx s2 + 1\<rparr> in ps2h_send_cmd (unat (ps2_send_idx s3)) s3)
            else Inr s2)
      else Inr s1)"

text \<open>\<open>resnum\<close> is the pin that raised the interrupt, \<open>pin\<close> the level of the data line.\<close>

definition ps2_hl_clk_int_handler :: "ctype_beyond \<Rightarrow> nat \<Rightarrow> bool \<Rightarrow> nat \<Rightarrow> bool \<Rightarrow> ps2 \<Rightarrow> ps2_stop + ps2" where
  "ps2_hl_clk_int_handler ct clock_pin prev_handler resnum pin s =
     (let chain = (\<lambda>t. if prev_handler then t\<lparr>ps2_chained := ps2_chained t @ [resnum]\<rparr> else t) in
      if resnum \<noteq> clock_pin then Inr (chain s)
      else let s1 = s\<lparr>ps2_bitcnt := ps2_bitcnt s + 1\<rparr> in
        if ps2_bitcnt s1 \<noteq> 1 \<and> ps2_bitcnt s1 < 10
        then Inr (chain (s1\<lparr>ps2_data := ps2_data s1 OR push_bit (unat (ps2_bitcnt s1) - 2) (of_bool pin)\<rparr>))
        else if ps2_bitcnt s1 = 11
        then (if ps2_acks_to_receive s1 > 0 then map_sum id chain (ps2_acked s1)
              else map_sum id (\<lambda>t. chain (t\<lparr>ps2_bitcnt := 0, ps2_data := 0\<rparr>)) (ps2_interpret ct s1))
        else Inr (chain s1))"

subsection \<open>Reading keys\<close>

definition ps2h_read_data :: "ps2 \<Rightarrow> u16 \<times> ps2" where
  "ps2h_read_data s = (ps2_queue s ! unat (ps2_r_idx s), s\<lparr>ps2_r_idx := (ps2_r_idx s + 1) AND 0xFF\<rparr>)"

text \<open>
  The edges still to come are consumed by a waiting reader. A wait with a time-out sees the first
  \<open>n\<close> of them before the timer has run out; the infinite wait is \<open>None\<close> when the keyboard never
  completes a key.
\<close>

fun ps2_wait :: "ctype_beyond \<Rightarrow> bool list \<Rightarrow> ps2 \<Rightarrow> (ps2_stop + bool list \<times> ps2) option" where
  "ps2_wait ct edges s =
     (if ps2_r_idx s \<noteq> ps2_w_idx s then Some (Inr (edges, s))
      else case edges of
        [] \<Rightarrow> None
      | e # es \<Rightarrow> (case ps2_hl_clk_int_handler ct 0 False 0 e s of
          Inl x \<Rightarrow> Some (Inl x)
        | Inr s' \<Rightarrow> ps2_wait ct es s'))"

declare ps2_wait.simps [simp del]

primrec ps2_poll :: "ctype_beyond \<Rightarrow> nat \<Rightarrow> bool list \<Rightarrow> ps2 \<Rightarrow> ps2_stop + bool list \<times> ps2" where
  "ps2_poll ct 0 edges s = Inr (edges, s)"
| "ps2_poll ct (Suc n) edges s =
     (if ps2_r_idx s \<noteq> ps2_w_idx s then Inr (edges, s)
      else case edges of
        [] \<Rightarrow> Inr ([], s)
      | e # es \<Rightarrow> (case ps2_hl_clk_int_handler ct 0 False 0 e s of
          Inl x \<Rightarrow> Inl x
        | Inr s' \<Rightarrow> ps2_poll ct n es s'))"

datatype ps2_timeout = Ps2NoWait | Ps2Infinite | Ps2Edges nat

definition ps2_get_rawkey :: "ctype_beyond \<Rightarrow> ps2_timeout \<Rightarrow> bool list \<Rightarrow> ps2 \<Rightarrow> (ps2_stop + int \<times> bool list \<times> ps2) option" where
  "ps2_get_rawkey ct timeout edges s =
     (let take_one = (\<lambda>(es, t). case ps2h_read_data t of (d, t') \<Rightarrow> (uint d, es, t')) in
      case timeout of
        Ps2NoWait \<Rightarrow> Some (Inr (if ps2_r_idx s = ps2_w_idx s then (-1, edges, s) else take_one (edges, s)))
      | Ps2Infinite \<Rightarrow> map_option (map_sum id take_one) (ps2_wait ct edges s)
      | Ps2Edges n \<Rightarrow> Some (case ps2_poll ct n edges s of
            Inl x \<Rightarrow> Inl x
          | Inr (es, t) \<Rightarrow> Inr (if ps2_r_idx t = ps2_w_idx t then (-1, es, t) else take_one (es, t))))"

definition PS2_RAW_TO_CODE :: "int \<Rightarrow> int" where
  "PS2_RAW_TO_CODE x = x AND NOT (push_bit 13 7)"

definition PS2_RAW_TO_MODS :: "int \<Rightarrow> int" where
  "PS2_RAW_TO_MODS x = drop_bit 13 x AND 7"

text \<open>\<^verbatim>\<open>ps2_std_get\<close> skips keys with CTRL or ALT and codes of 256 and above.\<close>

partial_function (option) ps2_std_get :: "ctype_beyond \<Rightarrow> ps2_timeout \<Rightarrow> bool list \<Rightarrow> ps2 \<Rightarrow> (ps2_stop + int \<times> bool list \<times> ps2) option" where
  "ps2_std_get ct timeout edges s =
     (case ps2_get_rawkey ct timeout edges s of
        None \<Rightarrow> None
      | Some (Inl x) \<Rightarrow> Some (Inl x)
      | Some (Inr (data, es, t)) \<Rightarrow>
          if data = -1 then Some (Inr (-1, es, t))
          else if PS2_RAW_TO_MODS data AND 6 \<noteq> 0 then ps2_std_get ct timeout es t
          else if PS2_RAW_TO_CODE data < 256 then Some (Inr (PS2_RAW_TO_CODE data, es, t))
          else ps2_std_get ct timeout es t)"

definition ps2_term_get :: "ctype_beyond \<Rightarrow> bool \<Rightarrow> bool list \<Rightarrow> ps2 \<Rightarrow> (ps2_stop + int \<times> bool list \<times> ps2) option" where
  "ps2_term_get ct wait_mode = ps2_get_rawkey ct (if wait_mode then Ps2Infinite else Ps2NoWait)"

definition ps2_term_mapping :: "(int \<times> int) list" where
  "ps2_term_mapping = [(0x7A, 268), (0x61, 269), (0x65, 270), (0x63, 271), (0x74, 272), (0x75, 273), (0x6B, 274),
     (0x79, 275), (0x62, 276), (0x78, 277), (0x76, 278), (280, 292), (281, 293), (283, 294)]"

definition ps2_term_translate :: "ctype_beyond \<Rightarrow> int \<Rightarrow> int" where
  "ps2_term_translate ct code =
     (let kcode = PS2_RAW_TO_CODE code; kmods = PS2_RAW_TO_MODS code; termcode = code AND NOT (push_bit 13 1) in
      if kmods AND 2 \<noteq> 0 \<and> (c_isalpha ct kcode \<or> (280 \<le> kcode \<and> kcode \<le> 291))
      then (case map_of ps2_term_mapping (c_int_tolower ct kcode) of None \<Rightarrow> -1 | Some c \<Rightarrow> c)
      else if kcode = 10 then 264
      else if kcode = 9 then 265
      else if kcode = 8 then 266
      else if kcode = 0x1B then 267
      else termcode)"

text \<open>\<^verbatim>\<open>term_getch\<close> of the terminal with the keyboard: keys that translate to -1 are skipped.\<close>

partial_function (option) ps2_term_getch :: "ctype_beyond \<Rightarrow> bool \<Rightarrow> bool list \<Rightarrow> ps2 \<Rightarrow> (ps2_stop + int \<times> bool list \<times> ps2) option" where
  "ps2_term_getch ct wait_mode edges s =
     (case ps2_term_get ct wait_mode edges s of
        None \<Rightarrow> None
      | Some (Inl x) \<Rightarrow> Some (Inl x)
      | Some (Inr (ch, es, t)) \<Rightarrow>
          if ch = -1 then Some (Inr (-1, es, t))
          else if ps2_term_translate ct ch \<noteq> -1 then Some (Inr (ps2_term_translate ct ch, es, t))
          else ps2_term_getch ct wait_mode es t)"

definition ps2_init :: "ps2 \<Rightarrow> ps2_stop + ps2" where
  "ps2_init s = ps2_send [PS2_CMD_RESET, 2, PS2_CMD_TYPE_RATE, 1, 0x00, 1] s"

subsection \<open>The ring of keys\<close>

type_synonym ps2_ring = "u16 list \<times> u8 \<times> u8"

definition ps2_ring :: "ps2 \<Rightarrow> ps2_ring" where
  "ps2_ring s = (ps2_queue s, ps2_r_idx s, ps2_w_idx s)"

fun ring_put :: "u16 \<Rightarrow> ps2_ring \<Rightarrow> ps2_ring" where
  "ring_put x (q, r, w) = (q[unat w := x], r, w + 1)"

fun ring_get :: "ps2_ring \<Rightarrow> (u16 \<times> ps2_ring) option" where
  "ring_get (q, r, w) = (if r = w then None else Some (q ! unat r, (q, r + 1, w)))"

fun ring_contents :: "ps2_ring \<Rightarrow> u16 list" where
  "ring_contents (q, r, w) = map (\<lambda>k. q ! unat (r + of_nat k)) [0..<unat (w - r)]"

fun ring_ok :: "ps2_ring \<Rightarrow> bool" where
  "ring_ok (q, r, w) = (length q = 256)"

lemma and_mask_u8 [simp]: "(x :: u8) AND 0xFF = x"
proof -
  have "(0xFF :: u8) = - 1" by code_simp
  show ?thesis unfolding \<open>(0xFF :: u8) = - 1\<close> by simp
qed

lemma ring_step_distinct:
  assumes "k < unat (w - r :: u8)"
  shows "unat (r + of_nat k) \<noteq> unat w"
proof
  assume "unat (r + of_nat k) = unat w"
  then have "of_nat k = w - r" by (metis add_diff_cancel_left' word_unat_eq_iff)
  moreover have "k < 256" using assms unat_lt_u8 [of "w - r"] by linarith
  ultimately show False using assms by (metis less_irrefl unat_of_nat_u8)
qed

interpretation ps2q: fifo ring_contents "\<lambda>_. 255" ring_ok "\<lambda>_ _. True" "\<lambda>x s. Some (ring_put x s)" ring_get
proof
  fix s :: ps2_ring and x :: u16
  obtain q r w where s: "s = (q, r, w)" by (cases s)
  assume "ring_ok s" "length (ring_contents s) < 255"
  then have q: "length q = 256" and n: "unat (w - r) < 255" by (simp_all add: s)
  have "unat (w - r + 1) = Suc (unat (w - r))" using n by (simp add: unat_word_ariths)
  then have n1: "unat (w + 1 - r) = Suc (unat (w - r))" by (simp add: algebra_simps)
  have old: "map (\<lambda>k. q[unat w := x] ! unat (r + of_nat k)) [0..<unat (w - r)] = map (\<lambda>k. q ! unat (r + of_nat k)) [0..<unat (w - r)]"
    by (rule map_cong [OF refl]) (simp add: ring_step_distinct [THEN not_sym])
  have "unat w < length q" using unat_lt_u8 [of w] q by simp
  then have new: "q[unat w := x] ! unat (r + of_nat (unat (w - r))) = x" by simp
  have "ring_contents (ring_put x s) = ring_contents s @ [x]"
    using n1 old new by (simp add: s)
  then show "\<exists>t. Some (ring_put x s) = Some t \<and> ring_ok t \<and> ring_contents t = ring_contents s @ [x] \<and> (255 :: nat) = 255 \<and>
      (\<lambda>_ :: u16. True) = (\<lambda>_. True)"
    using q by (simp add: s)
next
  fix s :: ps2_ring
  assume "ring_ok s" "ring_contents s = []"
  then show "ring_get s = None" by (cases s) (auto simp: unat_eq_zero)
next
  fix s :: ps2_ring and x xs
  obtain q r w where s: "s = (q, r, w)" by (cases s)
  assume ok: "ring_ok s" and c: "ring_contents s = x # xs"
  then have pos: "0 < unat (w - r)" by (cases "unat (w - r)") (auto simp: s)
  then have ne: "r \<noteq> w" by auto
  have "unat (w - r - 1) = unat (w - r) - 1" using ne by (simp add: unat_minus_one)
  then have n1: "Suc (unat (w - (r + 1))) = unat (w - r)" using pos by (simp add: diff_diff_eq)
  have "ring_contents s = q ! unat r # map (\<lambda>k. q ! unat (r + of_nat (Suc k))) [0..<unat (w - (r + 1))]"
    unfolding s ring_contents.simps n1 [symmetric] upt_conv_Cons [OF zero_less_Suc] map_Suc_upt [symmetric]
    by simp
  then have "x = q ! unat r" "xs = ring_contents (q, r + 1, w)" using c by (simp_all add: algebra_simps)
  then show "\<exists>t. ring_get s = Some (x, t) \<and> ring_ok t \<and> ring_contents t = xs \<and> (255 :: nat) = 255 \<and>
      (\<lambda>_ :: u16. True) = (\<lambda>_. True)"
    using ok ne by (simp add: s)
qed

subsection \<open>Frames\<close>

primrec ps2_run :: "ctype_beyond \<Rightarrow> bool list \<Rightarrow> ps2 \<Rightarrow> ps2_stop + ps2" where
  "ps2_run ct [] s = Inr s"
| "ps2_run ct (e # es) s =
     (case ps2_hl_clk_int_handler ct 0 False 0 e s of Inl x \<Rightarrow> Inl x | Inr t \<Rightarrow> ps2_run ct es t)"

lemma ps2_run_append:
  "ps2_run ct (xs @ ys) s = (case ps2_run ct xs s of Inl x \<Rightarrow> Inl x | Inr t \<Rightarrow> ps2_run ct ys t)"
  by (induction xs arbitrary: s) (auto split: sum.splits)

text \<open>The keyboard sends a low start bit, the data from the lowest bit on, odd parity and a high stop bit.\<close>

definition ps2_frame :: "u8 \<Rightarrow> bool list" where
  "ps2_frame b = False # ps2_out_bits 8 (unat b) 0 @ [True]"

lemma ps2_out_bits_data:
  "\<exists>p. ps2_out_bits n c k = map (\<lambda>i. odd (c div 2 ^ i)) [0..<n] @ [p]"
proof (induction n arbitrary: c k)
  case 0
  show ?case by simp
next
  case (Suc n)
  have "map (\<lambda>i. odd (c div 2 ^ i)) [0..<Suc n] = odd c # map (\<lambda>i. odd (c div 2 div 2 ^ i)) [0..<n]"
    by (simp add: upt_conv_Cons map_Suc_upt [symmetric] div_mult2_eq comp_def del: upt_Suc)
  with Suc [of "c div 2" "k + 1"] Suc [of "c div 2" k] show ?case by auto
qed

lemma odd_div_bit_u8: "odd (unat (b :: u8) div 2 ^ i) \<longleftrightarrow> bit b i"
  using bit_iff_odd [of "unat b" i] by (simp add: bit_unsigned_iff)

definition ps2_code :: "ctype_beyond \<Rightarrow> u8 \<Rightarrow> ps2 \<Rightarrow> ps2_stop + ps2" where
  "ps2_code ct b s =
     (let s1 = s\<lparr>ps2_data := b, ps2_bitcnt := 11\<rparr> in
      if ps2_acks_to_receive s > 0 then ps2_acked s1
      else map_sum id (\<lambda>t. t\<lparr>ps2_bitcnt := 0, ps2_data := 0\<rparr>) (ps2_interpret ct s1))"

lemma ps2_run_data:
  assumes "ps2_bitcnt s = 1" "ps2_data s = 0" "k \<le> 8"
  shows "ps2_run ct (map (bit b) [0..<k]) s = Inr (s\<lparr>ps2_bitcnt := of_nat (k + 1), ps2_data := take_bit k b\<rparr>)"
  using assms(3)
proof (induction k)
  case 0
  then show ?case using assms(1,2) by simp
next
  case (Suc k)
  let ?s = "s\<lparr>ps2_bitcnt := of_nat (k + 1), ps2_data := take_bit k b\<rparr>"
  have k: "k < 8" using Suc.prems by simp
  have cnt: "unat (of_nat (k + 1) + 1 :: u8) = k + 2"
  proof -
    have "of_nat (k + 1) + 1 = (of_nat (k + 2) :: u8)" by simp
    moreover have "unat (of_nat (k + 2) :: u8) = k + 2" using k by (intro unat_of_nat_u8) simp
    ultimately show ?thesis by metis
  qed
  have lt: "of_nat (k + 1) + 1 < (10 :: u8)" using cnt k by (simp only: word_less_nat_alt) simp
  have ne: "of_nat (k + 1) + 1 \<noteq> (1 :: u8)"
  proof
    assume "of_nat (k + 1) + 1 = (1 :: u8)"
    with cnt have "unat (1 :: u8) = k + 2" by metis
    then show False by simp
  qed
  have "take_bit k b OR push_bit k (of_bool (bit b k)) = take_bit (Suc k) (b :: u8)"
    using k by (intro bit_word_eqI) (auto simp: bit_simps less_Suc_eq)
  then have "ps2_hl_clk_int_handler ct 0 False 0 (bit b k) ?s =
      Inr (s\<lparr>ps2_bitcnt := of_nat (Suc k + 1), ps2_data := take_bit (Suc k) b\<rparr>)"
    using cnt lt ne by (simp add: ps2_hl_clk_int_handler_def Let_def)
  with Suc k show ?case by (simp add: ps2_run_append)
qed

lemma ps2_run_frame:
  assumes "ps2_bitcnt s = 0" "ps2_data s = 0"
  shows "ps2_run ct (ps2_frame b) s = ps2_code ct b s"
proof -
  have "map (\<lambda>i. odd (unat b div 2 ^ i)) [0..<8] = map (bit b) [0..<8]" by (simp only: odd_div_bit_u8)
  then obtain p where fr: "ps2_frame b = False # map (bit b) [0..<8] @ [p, True]"
    using ps2_out_bits_data [of 8 "unat b" 0] by (auto simp: ps2_frame_def)
  have start: "ps2_hl_clk_int_handler ct 0 False 0 False s = Inr (s\<lparr>ps2_bitcnt := 1\<rparr>)"
    using assms by (simp add: ps2_hl_clk_int_handler_def Let_def)
  let ?t = "s\<lparr>ps2_bitcnt := 9, ps2_data := b\<rparr>"
  have "take_bit 8 b = b" by (rule bit_word_eqI) (simp add: bit_simps)
  then have data: "ps2_run ct (map (bit b) [0..<8]) (s\<lparr>ps2_bitcnt := 1\<rparr>) = Inr ?t"
    using ps2_run_data [of "s\<lparr>ps2_bitcnt := 1\<rparr>" 8 ct b] assms(2) by simp
  have parity: "ps2_hl_clk_int_handler ct 0 False 0 p ?t = Inr (s\<lparr>ps2_bitcnt := 10, ps2_data := b\<rparr>)"
    by (simp add: ps2_hl_clk_int_handler_def Let_def)
  have stop: "ps2_hl_clk_int_handler ct 0 False 0 True (s\<lparr>ps2_bitcnt := 10, ps2_data := b\<rparr>) = ps2_code ct b s"
    by (simp add: ps2_hl_clk_int_handler_def ps2_code_def Let_def id_def sum.map_ident)
  show ?thesis
    unfolding fr using start data parity stop by (simp add: ps2_run_append split: sum.splits)
qed

end
