(* ===== verification/Ps2_Ideal.thy ===== *)
theory Ps2_Ideal
  imports Ps2
begin

text \<open>
  The decoder of \<^verbatim>\<open>Ps2\<close> against an ideal keyboard, whose state is the set of modifier keys that are
  down: each press and release, sent as the frames of its scan codes, changes the flags of the
  handler as it changes the ideal keyboard and puts the same keys into the ring. From this follow
  that typed text is read back and what happens when the ring is full.
\<close>

subsection \<open>An ideal keyboard\<close>

text \<open>Which modifier keys are down, and the caps lock.\<close>

record kbd =
  kb_lshift :: bool
  kb_rshift :: bool
  kb_lctrl :: bool
  kb_rctrl :: bool
  kb_lalt :: bool
  kb_ralt :: bool
  kb_caps :: bool

datatype ps2_key = PlainKey u8 | ExtKey u8

datatype ps2_event = Press ps2_key | Release ps2_key | PauseKey

definition kb_shift :: "kbd \<Rightarrow> bool" where "kb_shift k \<longleftrightarrow> kb_lshift k \<or> kb_rshift k"
definition kb_ctrl :: "kbd \<Rightarrow> bool" where "kb_ctrl k \<longleftrightarrow> kb_lctrl k \<or> kb_rctrl k"
definition kb_alt :: "kbd \<Rightarrow> bool" where "kb_alt k \<longleftrightarrow> kb_lalt k \<or> kb_ralt k"

definition kbd_word :: "kbd \<Rightarrow> u16 \<Rightarrow> u16" where
  "kbd_word k code = push_bit 13 (of_bool (kb_shift k) + 2 * of_bool (kb_ctrl k) + 4 * of_bool (kb_alt k)) OR code"

definition kbd_char :: "kbd \<Rightarrow> u8 \<Rightarrow> u16" where
  "kbd_char k c =
     (let m = (if c = PS2_F7_CODE then KC_F7_CODE else if c > 0x7F then 0
               else (if kb_shift k then ps2_shift_mapping else ps2_direct_mapping) ! unat c)
      in if kb_caps k \<and> 0x61 \<le> m \<and> m \<le> 0x7A then m - 0x20 else m)"

text \<open>One event: the new state, the keys typed and the bytes sent to the keyboard; \<open>None\<close> resets the machine.\<close>

fun kbd_event :: "ps2_event \<Rightarrow> kbd \<Rightarrow> (kbd \<times> u16 list \<times> u8 list) option" where
  "kbd_event (Press (PlainKey c)) k =
     (if c = PS2_CTRL_CODE then Some (k\<lparr>kb_lctrl := True\<rparr>, [], [])
      else if c = PS2_ALT_CODE then Some (k\<lparr>kb_lalt := True\<rparr>, [], [])
      else if c = PS2_LSHIFT_CODE then Some (k\<lparr>kb_lshift := True\<rparr>, [], [])
      else if c = PS2_RSHIFT_CODE then Some (k\<lparr>kb_rshift := True\<rparr>, [], [])
      else if kbd_char k c = 0 then Some (k, [], [])
      else Some (k, [kbd_word k (kbd_char k c)], []))"
| "kbd_event (Release (PlainKey c)) k =
     Some (if c = PS2_CTRL_CODE then (k\<lparr>kb_lctrl := False\<rparr>, [], [])
      else if c = PS2_ALT_CODE then (k\<lparr>kb_lalt := False\<rparr>, [], [])
      else if c = PS2_LSHIFT_CODE then (k\<lparr>kb_lshift := False\<rparr>, [], [])
      else if c = PS2_RSHIFT_CODE then (k\<lparr>kb_rshift := False\<rparr>, [], [])
      else if c = PS2_CAPS_CODE then (k\<lparr>kb_caps := \<not> kb_caps k\<rparr>, [], [PS2_CMD_LED_SET, if kb_caps k then 0 else 4])
      else (k, [], []))"
| "kbd_event (Press (ExtKey c)) k =
     (if c = PS2_CTRL_CODE then Some (k\<lparr>kb_rctrl := True\<rparr>, [], [])
      else if c = PS2_ALT_CODE then Some (k\<lparr>kb_ralt := True\<rparr>, [], [])
      else case map_of ps2_ext_mapping c of
        None \<Rightarrow> Some (k, [], [])
      | Some code \<Rightarrow> if code = KC_DEL_CODE \<and> kb_alt k \<and> kb_ctrl k then None else Some (k, [kbd_word k code], []))"
| "kbd_event (Release (ExtKey c)) k =
     Some (if c = PS2_CTRL_CODE then (k\<lparr>kb_rctrl := False\<rparr>, [], [])
      else if c = PS2_ALT_CODE then (k\<lparr>kb_ralt := False\<rparr>, [], [])
      else (k, [], []))"
| "kbd_event PauseKey k = Some (k, [], [])"

fun kbd_run :: "ps2_event list \<Rightarrow> kbd \<Rightarrow> (kbd \<times> u16 list \<times> u8 list) option" where
  "kbd_run [] k = Some (k, [], [])"
| "kbd_run (e # es) k =
     (case kbd_event e k of None \<Rightarrow> None
      | Some (k', out, cmds) \<Rightarrow> (case kbd_run es k' of None \<Rightarrow> None
         | Some (k'', out', cmds') \<Rightarrow> Some (k'', out @ out', cmds @ cmds')))"

text \<open>
  The scan codes of an event. After the caps lock the keyboard acknowledges the two bytes that set
  its lights.
\<close>

fun kbd_codes :: "ps2_event \<Rightarrow> u8 list" where
  "kbd_codes (Press (PlainKey c)) = [c]"
| "kbd_codes (Release (PlainKey c)) = [0xF0, c] @ (if c = PS2_CAPS_CODE then [0xFA, 0xFA] else [])"
| "kbd_codes (Press (ExtKey c)) = [0xE0, c]"
| "kbd_codes (Release (ExtKey c)) = [0xE0, 0xF0, c]"
| "kbd_codes PauseKey = [0xE1, 0x14, 0x77, 0xE1, 0xF0, 0x14, 0xF0, 0x77]"

fun kbd_valid :: "ps2_event \<Rightarrow> bool" where
  "kbd_valid (Press (PlainKey c)) \<longleftrightarrow> c \<notin> {0xE0, 0xE1, 0xF0}"
| "kbd_valid (Press (ExtKey c)) \<longleftrightarrow> c \<noteq> 0xF0"
| "kbd_valid _ \<longleftrightarrow> True"

subsection \<open>The flags of the handler and the modifiers\<close>

text \<open>A flag word from its twelve bits; the operations on flags work bit by bit.\<close>

definition flag_word :: "bool list \<Rightarrow> u16" where
  "flag_word bs = horner_sum of_bool 2 bs"

definition kbd_bits :: "kbd \<Rightarrow> bool \<Rightarrow> bool \<Rightarrow> bool list" where
  "kbd_bits k ext brk =
     [kb_shift k, kb_ctrl k, kb_alt k, ext, brk, kb_rctrl k, kb_ralt k, kb_lctrl k, kb_lalt k,
      kb_lshift k, kb_rshift k, kb_caps k]"

definition kbd_flags :: "kbd \<Rightarrow> bool \<Rightarrow> bool \<Rightarrow> u16" where
  "kbd_flags k ext brk = flag_word (kbd_bits k ext brk)"

definition one_flag :: "nat \<Rightarrow> bool list" where
  "one_flag m = map (\<lambda>i. i = m) [0..<12]"

lemma one_flag_list: "one_flag m =
    [0 = m, 1 = m, 2 = m, 3 = m, 4 = m, 5 = m, 6 = m, 7 = m, 8 = m, 9 = m, 10 = m, 11 = m]"
  by (auto simp: one_flag_def upt_rec)

lemma flag_word_or:
  "length xs = length ys \<Longrightarrow> flag_word xs OR flag_word ys = flag_word (map2 (\<or>) xs ys)"
  by (rule bit_word_eqI) (auto simp: flag_word_def bit_or_iff bit_horner_sum_bit_iff)

lemma flag_word_clear:
  "length xs = length ys \<Longrightarrow> flag_word xs AND NOT (flag_word ys) = flag_word (map2 (\<lambda>x y. x \<and> \<not> y) xs ys)"
  by (rule bit_word_eqI) (auto simp: flag_word_def bit_and_iff bit_not_iff bit_horner_sum_bit_iff)

lemma flag_word_test:
  assumes "length xs = 12" "m < 12"
  shows "flag_word xs AND flag_word (one_flag m) \<noteq> 0 \<longleftrightarrow> xs ! m"
proof -
  have "bit (flag_word xs AND flag_word (one_flag m)) n \<longleftrightarrow> n = m \<and> xs ! m" for n
    using assms by (auto simp: flag_word_def one_flag_def bit_and_iff bit_horner_sum_bit_iff possible_bit_word)
  note bits = this
  show ?thesis
  proof (cases "xs ! m")
    case True
    then have "bit (flag_word xs AND flag_word (one_flag m)) m" by (simp add: bits)
    with True show ?thesis by auto
  next
    case False
    then have "flag_word xs AND flag_word (one_flag m) = 0" by (intro bit_word_eqI) (simp add: bits)
    with False show ?thesis by simp
  qed
qed

lemma flag_consts:
  "0x0001 = flag_word (one_flag 0)" "0x0002 = flag_word (one_flag 1)" "0x0004 = flag_word (one_flag 2)"
  "0x0008 = flag_word (one_flag 3)" "0x0010 = flag_word (one_flag 4)" "0x0020 = flag_word (one_flag 5)"
  "0x0040 = flag_word (one_flag 6)" "0x0080 = flag_word (one_flag 7)" "0x0100 = flag_word (one_flag 8)"
  "0x0200 = flag_word (one_flag 9)" "0x0400 = flag_word (one_flag 10)" "0x0800 = flag_word (one_flag 11)"
  by (simp_all add: flag_word_def one_flag_list)

lemma length_flag_lists [simp]: "length (one_flag m) = 12" "length (kbd_bits k ext brk) = 12"
  by (simp_all add: one_flag_def kbd_bits_def)

lemma kbd_is_set:
  assumes "ps2_flags s = kbd_flags k ext brk"
  shows "ps2_is_set PS2_SHIFT s \<longleftrightarrow> kb_shift k" "ps2_is_set PS2_CTRL s \<longleftrightarrow> kb_ctrl k" "ps2_is_set PS2_ALT s \<longleftrightarrow> kb_alt k"
    "ps2_is_set PS2_IF_EXTENDED s \<longleftrightarrow> ext" "ps2_is_set PS2_IF_BREAK s \<longleftrightarrow> brk" "ps2_is_set PS2_IF_CAPS s \<longleftrightarrow> kb_caps k"
    "ps2_is_set PS2_IF_EXT_CTRL s \<longleftrightarrow> kb_rctrl k" "ps2_is_set PS2_IF_EXT_ALT s \<longleftrightarrow> kb_ralt k"
    "ps2_is_set PS2_IF_CTRL s \<longleftrightarrow> kb_lctrl k" "ps2_is_set PS2_IF_ALT s \<longleftrightarrow> kb_lalt k"
    "ps2_is_set PS2_IF_LSHIFT s \<longleftrightarrow> kb_lshift k" "ps2_is_set PS2_IF_RSHIFT s \<longleftrightarrow> kb_rshift k"
  unfolding ps2_is_set_def assms kbd_flags_def flag_consts
  by (simp_all add: flag_word_test, simp_all add: kbd_bits_def)

lemma kbd_flags_set:
  "kbd_flags k ext brk OR PS2_IF_EXTENDED = kbd_flags k True brk"
  "kbd_flags k ext brk OR PS2_IF_BREAK = kbd_flags k ext True"
  "kbd_flags k ext brk OR PS2_IF_EXT_CTRL OR PS2_CTRL = kbd_flags (k\<lparr>kb_rctrl := True\<rparr>) ext brk"
  "kbd_flags k ext brk OR PS2_IF_EXT_ALT OR PS2_ALT = kbd_flags (k\<lparr>kb_ralt := True\<rparr>) ext brk"
  "kbd_flags k ext brk OR PS2_IF_CTRL OR PS2_CTRL = kbd_flags (k\<lparr>kb_lctrl := True\<rparr>) ext brk"
  "kbd_flags k ext brk OR PS2_IF_ALT OR PS2_ALT = kbd_flags (k\<lparr>kb_lalt := True\<rparr>) ext brk"
  "kbd_flags k ext brk OR PS2_IF_LSHIFT OR PS2_SHIFT = kbd_flags (k\<lparr>kb_lshift := True\<rparr>) ext brk"
  "kbd_flags k ext brk OR PS2_IF_RSHIFT OR PS2_SHIFT = kbd_flags (k\<lparr>kb_rshift := True\<rparr>) ext brk"
  "kbd_flags k ext brk OR PS2_IF_CAPS = kbd_flags (k\<lparr>kb_caps := True\<rparr>) ext brk"
  unfolding kbd_flags_def flag_consts
  by (simp_all add: flag_word_or) (simp_all add: kbd_bits_def one_flag_list kb_shift_def kb_ctrl_def kb_alt_def)

lemma kbd_flags_clear:
  "kbd_flags k ext brk AND NOT PS2_IF_EXTENDED = kbd_flags k False brk"
  "kbd_flags k ext brk AND NOT PS2_IF_BREAK = kbd_flags k ext False"
  "kbd_flags k ext brk AND NOT PS2_IF_CAPS = kbd_flags (k\<lparr>kb_caps := False\<rparr>) ext brk"
  unfolding kbd_flags_def flag_consts
  by (simp_all add: flag_word_clear) (simp_all add: kbd_bits_def one_flag_list kb_shift_def kb_ctrl_def kb_alt_def)

lemma kbd_flags_release:
  "(kbd_flags k ext brk AND NOT PS2_IF_EXT_CTRL) AND NOT (if kb_lctrl k then 0 else PS2_CTRL) = kbd_flags (k\<lparr>kb_rctrl := False\<rparr>) ext brk"
  "(kbd_flags k ext brk AND NOT PS2_IF_EXT_ALT) AND NOT (if kb_lalt k then 0 else PS2_ALT) = kbd_flags (k\<lparr>kb_ralt := False\<rparr>) ext brk"
  "(kbd_flags k ext brk AND NOT PS2_IF_CTRL) AND NOT (if kb_rctrl k then 0 else PS2_CTRL) = kbd_flags (k\<lparr>kb_lctrl := False\<rparr>) ext brk"
  "(kbd_flags k ext brk AND NOT PS2_IF_ALT) AND NOT (if kb_ralt k then 0 else PS2_ALT) = kbd_flags (k\<lparr>kb_lalt := False\<rparr>) ext brk"
  "(kbd_flags k ext brk AND NOT PS2_IF_LSHIFT) AND NOT (if kb_rshift k then 0 else PS2_SHIFT) = kbd_flags (k\<lparr>kb_lshift := False\<rparr>) ext brk"
  "(kbd_flags k ext brk AND NOT PS2_IF_RSHIFT) AND NOT (if kb_lshift k then 0 else PS2_SHIFT) = kbd_flags (k\<lparr>kb_rshift := False\<rparr>) ext brk"
  unfolding kbd_flags_def flag_consts
  by (simp_all add: flag_word_clear) (simp_all add: kbd_bits_def one_flag_list kb_shift_def kb_ctrl_def kb_alt_def)

lemma kbd_mods: "kbd_flags k ext brk AND 7 = of_bool (kb_shift k) + 2 * of_bool (kb_ctrl k) + 4 * of_bool (kb_alt k)"
proof -
  let ?m = "[True, True, True, False, False, False, False, False, False, False, False, False]"
  have seven: "7 = flag_word ?m" by (simp add: flag_word_def)
  have "flag_word xs AND flag_word ys = flag_word (map2 (\<and>) xs ys)" if "length xs = length ys" for xs ys
    using that by (intro bit_word_eqI) (auto simp: flag_word_def bit_and_iff bit_horner_sum_bit_iff)
  then have "kbd_flags k ext brk AND 7 = flag_word (map2 (\<and>) (kbd_bits k ext brk) ?m)"
    unfolding kbd_flags_def seven by simp
  then show ?thesis by (simp add: kbd_bits_def flag_word_def)
qed

definition ps2_idle :: "kbd \<Rightarrow> ps2 \<Rightarrow> bool" where
  "ps2_idle k s \<longleftrightarrow> ps2_bitcnt s = 0 \<and> ps2_data s = 0 \<and> ps2_ignore_count s = 0 \<and> ps2_acks_to_receive s = 0 \<and>
     ps2_cmds_to_send s = 0 \<and> length (ps2_queue s) = 256 \<and> length (ps2_send_buffer s) = 16 \<and>
     ps2_flags s = kbd_flags k False False"

primrec ps2_codes :: "ctype_beyond \<Rightarrow> u8 list \<Rightarrow> ps2 \<Rightarrow> ps2_stop + ps2" where
  "ps2_codes ct [] s = Inr s"
| "ps2_codes ct (b # bs) s = (case ps2_code ct b s of Inl x \<Rightarrow> Inl x | Inr t \<Rightarrow> ps2_codes ct bs t)"

lemma ps2_codes_append:
  "ps2_codes ct (xs @ ys) s = (case ps2_codes ct xs s of Inl x \<Rightarrow> Inl x | Inr t \<Rightarrow> ps2_codes ct ys t)"
  by (induction xs arbitrary: s) (auto split: sum.splits)

lemma ps2_code_between:
  assumes "ps2_code ct b s = Inr t"
  shows "ps2_bitcnt t = 0" "ps2_data t = 0"
  using assms
  by (auto simp: ps2_code_def ps2_acked_def ps2h_send_cmd_def Let_def map_sum_def split: if_splits sum.splits)

lemma ps2_run_frames:
  assumes "ps2_bitcnt s = 0" "ps2_data s = 0"
  shows "ps2_run ct (concat (map ps2_frame bs)) s = ps2_codes ct bs s"
  using assms
proof (induction bs arbitrary: s)
  case Nil
  then show ?case by simp
next
  case (Cons b bs)
  then show ?case
    using ps2_code_between [of ct b s] by (auto simp: ps2_run_append ps2_run_frame split: sum.splits)
qed

lemma ps2_enqueue_char:
  assumes "ctype_plain ct" "ps2_flags s = kbd_flags k ext brk"
  shows "ps2_enqueue ct s = (if kbd_char k (ps2_data s) = 0 then s else ps2_put (kbd_char k (ps2_data s)) s)"
proof -
  define m where "m = ps2_map_code s"
  have char: "kbd_char k (ps2_data s) = (if kb_caps k \<and> 0x61 \<le> m \<and> m \<le> 0x7A then m - 0x20 else m)"
    using kbd_is_set [OF assms(2)] by (simp add: kbd_char_def m_def ps2_map_code_def Let_def)
  have u: "uint m = 0 \<longleftrightarrow> m = 0" by (simp add: uint_0_iff)
  have caps: "ps2_is_set PS2_IF_CAPS s \<longleftrightarrow> kb_caps k" using kbd_is_set [OF assms(2)] by simp
  have range: "0x61 \<le> m \<and> m \<le> 0x7A \<longleftrightarrow> 0x61 \<le> uint m \<and> uint m \<le> 0x7A" by (simp add: word_le_def)
  have "of_int (if kb_caps k \<and> c_isalpha ct (uint m) then c_toupper ct (uint m) else uint m) =
      (if kb_caps k \<and> 0x61 \<le> m \<and> m \<le> 0x7A then m - 0x20 else m)"
    using assms(1) unfolding range
    by (auto simp: ctype_plain_def c_isalpha_def c_toupper_def)
  moreover have "m = 0 \<longleftrightarrow> (if kb_caps k \<and> 0x61 \<le> m \<and> m \<le> 0x7A then m - 0x20 else m) = 0"
    using range by (auto simp: word_le_nat_alt)
  ultimately show ?thesis
    unfolding ps2_enqueue_def Let_def m_def [symmetric] char caps u by simp
qed

lemma ps2_put_word:
  assumes "ps2_flags s = kbd_flags k ext brk"
  shows "ps2_put code s = s\<lparr>ps2_queue := (ps2_queue s)[unat (ps2_w_idx s) := kbd_word k code], ps2_w_idx := ps2_w_idx s + 1\<rparr>"
  by (simp add: ps2_put_def assms kbd_mods kbd_word_def)

text \<open>Sending the two bytes of the caps lock light, and their acknowledgements.\<close>

definition led_buffer :: "u8 list \<Rightarrow> u8 \<Rightarrow> u8 list" where
  "led_buffer b led = overwrite b 0 [PS2_CMD_LED_SET, 1, led, 1]"

lemma led_buffer:
  assumes "length b = 16"
  shows "length (led_buffer b led) = 16" "led_buffer b led ! 0 = PS2_CMD_LED_SET" "led_buffer b led ! Suc 0 = 1"
    "led_buffer b led ! 2 = led" "led_buffer b led ! 3 = 1"
  using assms by (simp_all add: led_buffer_def nth_overwrite)

lemma ps2_led_sent:
  assumes "length (ps2_send_buffer s) = 16"
  shows "ps2_send [PS2_CMD_LED_SET, 1, led, 1] s = Inr (s\<lparr>ps2_send_buffer := led_buffer (ps2_send_buffer s) led,
    ps2_cmds_to_send := 2, ps2_send_idx := 0, ps2_acks_to_receive := 1, ps2_sent := ps2_sent s @ [ps2_out_bits 8 0xED 0]\<rparr>)"
  using assms led_buffer [OF assms, of led]
  by (simp add: ps2_send_def ps2h_send_cmd_def Let_def flip: led_buffer_def)

lemma ps2_led_acked:
  assumes "ps2_bitcnt s = 0" "ps2_data s = 0" "ps2_cmds_to_send s = 2" "ps2_send_idx s = 0" "ps2_acks_to_receive s = 1"
    and "length (ps2_send_buffer s) = 16" "ps2_send_buffer s ! 2 = led" "ps2_send_buffer s ! 3 = 1"
  shows "ps2_codes ct [a, b] s = Inr (s\<lparr>ps2_cmds_to_send := 0, ps2_send_idx := 1,
    ps2_acks_to_receive := 0, ps2_sent := ps2_sent s @ [ps2_out_bits 8 (unat led) 0]\<rparr>)"
  using assms by (simp add: ps2_code_def ps2_acked_def ps2h_send_cmd_def Let_def eval_nat_numeral)

definition ps2_out_frames :: "u8 list \<Rightarrow> bool list list" where
  "ps2_out_frames cmds = map (\<lambda>c. ps2_out_bits 8 (unat c) 0) cmds"

text \<open>Between two codes, also inside an event: the prefixes seen so far are two more flags.\<close>

definition ps2_at :: "kbd \<Rightarrow> bool \<Rightarrow> bool \<Rightarrow> ps2 \<Rightarrow> bool" where
  "ps2_at k ext brk s \<longleftrightarrow> ps2_bitcnt s = 0 \<and> ps2_data s = 0 \<and> ps2_ignore_count s = 0 \<and> ps2_acks_to_receive s = 0 \<and>
     ps2_cmds_to_send s = 0 \<and> length (ps2_queue s) = 256 \<and> length (ps2_send_buffer s) = 16 \<and>
     ps2_flags s = kbd_flags k ext brk"

lemma ps2_idle_at: "ps2_idle k s \<longleftrightarrow> ps2_at k False False s"
  by (simp add: ps2_idle_def ps2_at_def)

lemma ps2_at_flags [simp]: "ps2_at k ext brk s \<Longrightarrow> ps2_at k' ext' brk' (s\<lparr>ps2_flags := kbd_flags k' ext' brk'\<rparr>)"
  by (simp add: ps2_at_def)

lemma ps2_code_at:
  assumes "ps2_at k ext brk s"
  shows "ps2_code ct c s = map_sum id (\<lambda>t. t\<lparr>ps2_bitcnt := 0, ps2_data := 0\<rparr>) (ps2_interpret ct (s\<lparr>ps2_data := c, ps2_bitcnt := 11\<rparr>))"
    and "ps2_flags (s\<lparr>ps2_data := c, ps2_bitcnt := 11\<rparr>) = kbd_flags k ext brk"
    and "ps2_ignore_count s = 0"
    and "s\<lparr>ps2_data := 0, ps2_bitcnt := 0\<rparr> = s" and "s\<lparr>ps2_bitcnt := 0, ps2_data := 0\<rparr> = s"
  using assms by (simp_all add: ps2_code_def Let_def ps2_at_def)

lemma ps2_reset_flags:
  assumes "ps2_at k ext brk s"
  shows "s\<lparr>ps2_flags := f, ps2_bitcnt := 0, ps2_data := 0\<rparr> = s\<lparr>ps2_flags := f\<rparr>"
  using assms by (simp add: ps2_at_def)

lemma ps2_code_prefix:
  assumes "ps2_at k False False s"
  shows "ps2_code ct PS2_EXTENDED_CODE s = Inr (s\<lparr>ps2_flags := kbd_flags k True False\<rparr>)"
    "ps2_code ct PS2_BREAK_CODE s = Inr (s\<lparr>ps2_flags := kbd_flags k False True\<rparr>)"
  using ps2_code_at(3) [OF assms] kbd_is_set [OF ps2_code_at(2) [OF assms]] ps2_reset_flags [OF assms]
  by (simp_all add: ps2_code_at(1) [OF assms] ps2_interpret_def ps2_set_flag_def ps2_code_at(2) [OF assms, simplified] kbd_flags_set)

lemma ps2_code_ext_break:
  assumes "ps2_at k True False s"
  shows "ps2_code ct PS2_BREAK_CODE s = Inr (s\<lparr>ps2_flags := kbd_flags k True True\<rparr>)"
  using ps2_code_at(3) [OF assms] kbd_is_set [OF ps2_code_at(2) [OF assms]] ps2_reset_flags [OF assms]
  by (simp_all add: ps2_code_at(1) [OF assms] ps2_interpret_def ps2_set_flag_def ps2_code_at(2) [OF assms, simplified] kbd_flags_set)

lemma ps2_code_modifier:
  assumes "ps2_at k False False s"
  shows "ps2_code ct PS2_CTRL_CODE s = Inr (s\<lparr>ps2_flags := kbd_flags (k\<lparr>kb_lctrl := True\<rparr>) False False\<rparr>)"
    "ps2_code ct PS2_ALT_CODE s = Inr (s\<lparr>ps2_flags := kbd_flags (k\<lparr>kb_lalt := True\<rparr>) False False\<rparr>)"
    "ps2_code ct PS2_LSHIFT_CODE s = Inr (s\<lparr>ps2_flags := kbd_flags (k\<lparr>kb_lshift := True\<rparr>) False False\<rparr>)"
    "ps2_code ct PS2_RSHIFT_CODE s = Inr (s\<lparr>ps2_flags := kbd_flags (k\<lparr>kb_rshift := True\<rparr>) False False\<rparr>)"
  using ps2_code_at(3) [OF assms] kbd_is_set [OF ps2_code_at(2) [OF assms]] ps2_reset_flags [OF assms]
  by (simp_all add: ps2_code_at(1) [OF assms] ps2_interpret_def ps2_set_flag_def ps2_code_at(2) [OF assms, simplified]
      kbd_flags_set [simplified])

definition ps2_type :: "kbd \<Rightarrow> u16 \<Rightarrow> ps2 \<Rightarrow> ps2" where
  "ps2_type k code s = s\<lparr>ps2_queue := (ps2_queue s)[unat (ps2_w_idx s) := kbd_word k code], ps2_w_idx := ps2_w_idx s + 1\<rparr>"

lemma ps2_code_char:
  assumes "ps2_at k False False s" "ctype_plain ct" "c \<notin> {0xE0, 0xE1, 0xF0, 0x14, 0x11, 0x12, 0x59}"
  shows "ps2_code ct c s = Inr (if kbd_char k c = 0 then s else ps2_type k (kbd_char k c) s)"
proof -
  note f = ps2_code_at(2) [OF assms(1)]
  have "ps2_interpret ct (s\<lparr>ps2_data := c, ps2_bitcnt := 11\<rparr>) = Inr (ps2_enqueue ct (s\<lparr>ps2_data := c, ps2_bitcnt := 11\<rparr>))"
    using assms(3) ps2_code_at(3) [OF assms(1)] kbd_is_set [OF f] by (simp add: ps2_interpret_def)
  then show ?thesis
    using assms(1) ps2_enqueue_char [OF assms(2) f] ps2_put_word [OF f]
    by (simp add: ps2_code_at(1) [OF assms(1)] ps2_type_def ps2_at_def)
qed

lemma ps2_is_set_clear [simp]:
  assumes "x AND y = 0"
  shows "ps2_is_set y (ps2_clear_flag x s) = ps2_is_set y s"
proof -
  have "(f AND NOT x) AND y = f AND y" for f :: u16
  proof (rule bit_word_eqI)
    fix n
    assume "n < LENGTH(16)"
    then show "bit ((f AND NOT x) AND y) n = bit (f AND y) n"
      using arg_cong [OF assms, of "\<lambda>w. bit w n"] by (auto simp: bit_simps)
  qed
  then show ?thesis by (simp add: ps2_is_set_def ps2_clear_flag_def)
qed

lemma ps2_clear_either:
  "(if \<not> b then ps2_clear_flag y (ps2_clear_flag x s) else ps2_clear_flag x s) =
   s\<lparr>ps2_flags := (ps2_flags s AND NOT x) AND NOT (if b then 0 else y)\<rparr>"
  by (simp add: ps2_clear_flag_def)

text \<open>Releasing a modifier: its own flag, and the public one unless its twin is down.\<close>

lemma ps2_clear_modifier:
  assumes "ps2_flags s = kbd_flags k ext brk"
  shows "(if \<not> kb_lctrl k then ps2_clear_flag PS2_CTRL (ps2_clear_flag PS2_IF_EXT_CTRL s) else ps2_clear_flag PS2_IF_EXT_CTRL s)
      = s\<lparr>ps2_flags := kbd_flags (k\<lparr>kb_rctrl := False\<rparr>) ext brk\<rparr>"
    "(if \<not> kb_lalt k then ps2_clear_flag PS2_ALT (ps2_clear_flag PS2_IF_EXT_ALT s) else ps2_clear_flag PS2_IF_EXT_ALT s)
      = s\<lparr>ps2_flags := kbd_flags (k\<lparr>kb_ralt := False\<rparr>) ext brk\<rparr>"
    "(if \<not> kb_rctrl k then ps2_clear_flag PS2_CTRL (ps2_clear_flag PS2_IF_CTRL s) else ps2_clear_flag PS2_IF_CTRL s)
      = s\<lparr>ps2_flags := kbd_flags (k\<lparr>kb_lctrl := False\<rparr>) ext brk\<rparr>"
    "(if \<not> kb_ralt k then ps2_clear_flag PS2_ALT (ps2_clear_flag PS2_IF_ALT s) else ps2_clear_flag PS2_IF_ALT s)
      = s\<lparr>ps2_flags := kbd_flags (k\<lparr>kb_lalt := False\<rparr>) ext brk\<rparr>"
    "(if \<not> kb_rshift k then ps2_clear_flag PS2_SHIFT (ps2_clear_flag PS2_IF_LSHIFT s) else ps2_clear_flag PS2_IF_LSHIFT s)
      = s\<lparr>ps2_flags := kbd_flags (k\<lparr>kb_lshift := False\<rparr>) ext brk\<rparr>"
    "(if \<not> kb_lshift k then ps2_clear_flag PS2_SHIFT (ps2_clear_flag PS2_IF_RSHIFT s) else ps2_clear_flag PS2_IF_RSHIFT s)
      = s\<lparr>ps2_flags := kbd_flags (k\<lparr>kb_rshift := False\<rparr>) ext brk\<rparr>"
  unfolding ps2_clear_either assms kbd_flags_release by (rule refl)+

definition ps2_type1 :: "u16 \<Rightarrow> ps2 \<Rightarrow> ps2" where
  "ps2_type1 x t = t\<lparr>ps2_queue := (ps2_queue t)[unat (ps2_w_idx t) := x], ps2_w_idx := ps2_w_idx t + 1\<rparr>"

definition ps2_types :: "u16 list \<Rightarrow> ps2 \<Rightarrow> ps2" where
  "ps2_types out s = fold ps2_type1 out s"

lemma ps2_types_flags: "(ps2_types out (s\<lparr>ps2_flags := f\<rparr>))\<lparr>ps2_flags := g\<rparr> = (ps2_types out s)\<lparr>ps2_flags := g\<rparr>"
proof -
  have step: "ps2_type1 x (t\<lparr>ps2_flags := f\<rparr>) = (ps2_type1 x t)\<lparr>ps2_flags := f\<rparr>" for x t
    by (cases t) (simp add: ps2_type1_def)
  have "ps2_types out (s\<lparr>ps2_flags := f\<rparr>) = (ps2_types out s)\<lparr>ps2_flags := f\<rparr>"
    by (induction out arbitrary: s) (simp_all add: ps2_types_def step)
  then show ?thesis by simp
qed

lemma ps2_types_simps [simp]:
  "ps2_types [] s = s"
  "ps2_types [x] s = s\<lparr>ps2_queue := (ps2_queue s)[unat (ps2_w_idx s) := x], ps2_w_idx := ps2_w_idx s + 1\<rparr>"
  by (simp_all add: ps2_types_def ps2_type1_def)

lemma ps2_code_ext_press:
  assumes "ps2_at k True False s" "c \<noteq> 0xF0"
  shows "ps2_code ct c s =
    (case kbd_event (Press (ExtKey c)) k of
       None \<Rightarrow> Inl Ps2Reset
     | Some (k', out, _) \<Rightarrow> Inr ((ps2_types out s)\<lparr>ps2_flags := kbd_flags k' False False\<rparr>))"
proof -
  let ?s = "s\<lparr>ps2_data := c, ps2_bitcnt := 11\<rparr>"
  note f = ps2_code_at(2) [OF assms(1)]
  have int: "ps2_interpret ct ?s = ps2_ext_pressed ?s"
    using assms(2) ps2_code_at(3) [OF assms(1)] kbd_is_set [OF f] by (simp add: ps2_interpret_def)
  note simps = ps2_ext_pressed_def Let_def ps2_set_flag_def ps2_clear_flag_def
    kbd_flags_clear [simplified] kbd_flags_set [simplified] f [simplified]
  have code: "ps2_code ct c s = map_sum id (\<lambda>t. t\<lparr>ps2_bitcnt := 0, ps2_data := 0\<rparr>) (ps2_ext_pressed ?s)"
    using ps2_code_at(1) [OF assms(1)] int by simp
  consider "c = PS2_CTRL_CODE" | "c = PS2_ALT_CODE" | "c \<noteq> PS2_CTRL_CODE" "c \<noteq> PS2_ALT_CODE" by blast
  then show ?thesis
  proof cases
    case 1
    then show ?thesis
      using assms(1) code by (simp add: simps ps2_at_def ps2_ext_mapping_def)
  next
    case 2
    then show ?thesis
      using assms(1) code by (simp add: simps ps2_at_def)
  next
    case 3
    then show ?thesis
      using assms(1) code kbd_is_set [OF f] ps2_put_word [OF f]
      by (auto simp: simps ps2_at_def split: option.splits)
  qed
qed

lemma ps2_code_ext_release:
  assumes "ps2_at k True True s"
  shows "ps2_code ct c s = (case kbd_event (Release (ExtKey c)) k of
     Some (k', _, _) \<Rightarrow> Inr (s\<lparr>ps2_flags := kbd_flags k' False False\<rparr>) | None \<Rightarrow> Inl Ps2Reset)"
proof -
  let ?s = "s\<lparr>ps2_data := c, ps2_bitcnt := 11\<rparr>"
  note f = ps2_code_at(2) [OF assms(1)]
  have int: "ps2_interpret ct ?s = Inr (ps2_ext_released ?s)"
    using ps2_code_at(3) [OF assms(1)] kbd_is_set [OF f] by (simp add: ps2_interpret_def)
  have code: "ps2_code ct c s = Inr ((ps2_ext_released ?s)\<lparr>ps2_bitcnt := 0, ps2_data := 0\<rparr>)"
    using ps2_code_at(1) [OF assms(1)] int by simp
  have "ps2_ext_released ?s = ps2_clear_flag PS2_IF_EXTENDED (ps2_clear_flag PS2_IF_BREAK
      (if c = PS2_CTRL_CODE then ?s\<lparr>ps2_flags := kbd_flags (k\<lparr>kb_rctrl := False\<rparr>) True True\<rparr>
       else if c = PS2_ALT_CODE then ?s\<lparr>ps2_flags := kbd_flags (k\<lparr>kb_ralt := False\<rparr>) True True\<rparr> else ?s))"
    using ps2_clear_modifier(1,2) [OF f] kbd_is_set [OF f] by (simp add: ps2_ext_released_def Let_def)
  then show ?thesis
    using code assms by (simp add: ps2_clear_flag_def kbd_flags_clear [simplified] ps2_at_def)
qed

lemma ps2_code_release:
  assumes "ps2_at k False True s" "c \<noteq> PS2_CAPS_CODE"
  shows "ps2_code ct c s = (case kbd_event (Release (PlainKey c)) k of
     Some (k', _, _) \<Rightarrow> Inr (s\<lparr>ps2_flags := kbd_flags k' False False\<rparr>) | None \<Rightarrow> Inl Ps2Reset)"
proof -
  let ?s = "s\<lparr>ps2_data := c, ps2_bitcnt := 11\<rparr>"
  note f = ps2_code_at(2) [OF assms(1)]
  have int: "ps2_interpret ct ?s = ps2_released ?s"
    using ps2_code_at(3) [OF assms(1)] kbd_is_set [OF f] by (simp add: ps2_interpret_def)
  have "ps2_released ?s = Inr (ps2_clear_flag PS2_IF_BREAK
      (if c = PS2_CTRL_CODE then ?s\<lparr>ps2_flags := kbd_flags (k\<lparr>kb_lctrl := False\<rparr>) False True\<rparr>
       else if c = PS2_ALT_CODE then ?s\<lparr>ps2_flags := kbd_flags (k\<lparr>kb_lalt := False\<rparr>) False True\<rparr>
       else if c = PS2_LSHIFT_CODE then ?s\<lparr>ps2_flags := kbd_flags (k\<lparr>kb_lshift := False\<rparr>) False True\<rparr>
       else if c = PS2_RSHIFT_CODE then ?s\<lparr>ps2_flags := kbd_flags (k\<lparr>kb_rshift := False\<rparr>) False True\<rparr> else ?s))"
    using ps2_clear_modifier(3-6) [OF f] kbd_is_set [OF f] assms(2) by (simp add: ps2_released_def Let_def)
  then show ?thesis
    using ps2_code_at(1) [OF assms(1)] int assms
    by (simp add: ps2_clear_flag_def kbd_flags_clear [simplified] ps2_at_def)
qed

lemma ps2_code_caps:
  assumes "ps2_at k False True s"
  shows "\<exists>t. ps2_codes ct [PS2_CAPS_CODE, a, b] s = Inr t \<and>
    ps2_at (k\<lparr>kb_caps := \<not> kb_caps k\<rparr>) False False t \<and> ps2_ring t = ps2_ring s \<and>
    ps2_sent t = ps2_sent s @ ps2_out_frames [PS2_CMD_LED_SET, if kb_caps k then 0 else 4]"
proof -
  let ?s = "s\<lparr>ps2_data := PS2_CAPS_CODE, ps2_bitcnt := 11\<rparr>"
  let ?led = "if kb_caps k then 0 else 4 :: u8"
  let ?k = "k\<lparr>kb_caps := \<not> kb_caps k\<rparr>"
  note f = ps2_code_at(2) [OF assms]
  have len: "length (ps2_send_buffer s) = 16" using assms by (simp add: ps2_at_def)
  define u where "u = s\<lparr>ps2_flags := kbd_flags ?k False False, ps2_send_buffer := led_buffer (ps2_send_buffer s) ?led,
    ps2_cmds_to_send := 2, ps2_send_idx := 0, ps2_acks_to_receive := 1, ps2_sent := ps2_sent s @ [ps2_out_bits 8 0xED 0]\<rparr>"
  have int: "ps2_interpret ct ?s = ps2_released ?s"
    using ps2_code_at(3) [OF assms] kbd_is_set [OF f] by (simp add: ps2_interpret_def)
  have "ps2_code ct PS2_CAPS_CODE s = Inr u"
    using ps2_code_at(1) [OF assms] int kbd_is_set [OF f] assms f [simplified] len
    by (cases "kb_caps k") (simp_all add: ps2_released_def ps2_led_sent ps2_set_flag_def ps2_clear_flag_def
        kbd_flags_set [simplified] kbd_flags_clear [simplified] ps2_at_def u_def)
  moreover have "ps2_codes ct [a, b] u = Inr (u\<lparr>ps2_cmds_to_send := 0, ps2_send_idx := 1,
      ps2_acks_to_receive := 0, ps2_sent := ps2_sent u @ [ps2_out_bits 8 (unat ?led) 0]\<rparr>)"
    by (rule ps2_led_acked) (use assms led_buffer [OF len] in \<open>simp_all add: u_def ps2_at_def\<close>)
  ultimately show ?thesis
    using assms led_buffer(1) [OF len] by (simp add: u_def ps2_at_def ps2_ring_def ps2_out_frames_def)
qed

lemma ps2_codes_ignored:
  "ps2_at k False False (s\<lparr>ps2_ignore_count := 0\<rparr>) \<Longrightarrow> ps2_ignore_count s = of_nat (length bs) \<Longrightarrow> length bs < 256 \<Longrightarrow>
   ps2_codes ct bs s = Inr (s\<lparr>ps2_ignore_count := 0\<rparr>)"
proof (induction bs arbitrary: s)
  case Nil
  then show ?case by simp
next
  case (Cons c bs)
  have "unat (ps2_ignore_count s) = Suc (length bs)"
    using Cons.prems(2,3) unat_of_nat_u8 [of "Suc (length bs)"] by simp
  then have "ps2_ignore_count s > 0" by (simp add: word_gt_0_no unat_gt_0 word_less_nat_alt)
  then have "ps2_code ct c s = Inr (s\<lparr>ps2_ignore_count := ps2_ignore_count s - 1\<rparr>)"
    using Cons.prems(1) by (simp add: ps2_code_def ps2_interpret_def Let_def ps2_at_def)
  then show ?case using Cons.IH [of "s\<lparr>ps2_ignore_count := ps2_ignore_count s - 1\<rparr>"] Cons.prems by simp
qed

lemma ps2_code_pause:
  assumes "ps2_at k False False s"
  shows "ps2_codes ct (kbd_codes PauseKey) s = Inr s"
proof -
  note f = ps2_code_at(2) [OF assms]
  let ?t = "s\<lparr>ps2_ignore_count := 7\<rparr>"
  have "ps2_code ct PS2_PAUSE_1ST_CODE s = Inr ?t"
    using ps2_code_at(1,3) [OF assms] kbd_is_set [OF f] assms by (simp add: ps2_interpret_def ps2_at_def)
  moreover have "ps2_codes ct [0x14, 0x77, 0xE1, 0xF0, 0x14, 0xF0, 0x77] ?t = Inr (?t\<lparr>ps2_ignore_count := 0\<rparr>)"
    by (rule ps2_codes_ignored) (use assms in \<open>simp_all add: ps2_at_def\<close>)
  moreover have "s\<lparr>ps2_ignore_count := 0\<rparr> = s" using assms by (simp add: ps2_at_def)
  ultimately show ?thesis by simp
qed

text \<open>One event: the handler follows the keyboard.\<close>

definition ps2_follows :: "kbd \<times> u16 list \<times> u8 list \<Rightarrow> ps2 \<Rightarrow> ps2 \<Rightarrow> bool" where
  "ps2_follows r s t \<longleftrightarrow> (case r of (k, out, cmds) \<Rightarrow>
     ps2_idle k t \<and> ps2_ring t = fold ring_put out (ps2_ring s) \<and> ps2_sent t = ps2_sent s @ ps2_out_frames cmds)"

lemma ps2_event_follows:
  assumes "ps2_idle k s" "ctype_plain ct" "kbd_valid e"
  shows "case kbd_event e k of None \<Rightarrow> ps2_codes ct (kbd_codes e) s = Inl Ps2Reset
    | Some r \<Rightarrow> \<exists>t. ps2_codes ct (kbd_codes e) s = Inr t \<and> ps2_follows r s t"
proof -
  have at: "ps2_at k False False s" using assms(1) by (simp add: ps2_idle_at)
  then have lens: "ps2_at k' False False (s\<lparr>ps2_flags := kbd_flags k' False False\<rparr>)" for k' by simp
  note brk = ps2_code_prefix(2) [OF at] and ext = ps2_code_prefix(1) [OF at]
  note at_brk = ps2_at_flags [OF at, of k False True] and at_ext = ps2_at_flags [OF at, of k True False]
  note at_eb = ps2_at_flags [OF at, of k True True]
  have same: "s\<lparr>ps2_flags := kbd_flags k False False\<rparr> = s" using at by (simp add: ps2_at_def)
  show ?thesis
  proof (cases e)
    case (Press key)
    show ?thesis
    proof (cases key)
      case (PlainKey c)
      consider "c = PS2_CTRL_CODE" | "c = PS2_ALT_CODE" | "c = PS2_LSHIFT_CODE" | "c = PS2_RSHIFT_CODE"
        | "c \<notin> {0x14, 0x11, 0x12, 0x59}" by auto
      then show ?thesis
      proof cases
        case 5
        then have "ps2_code ct c s = Inr (if kbd_char k c = 0 then s else ps2_type k (kbd_char k c) s)"
          using assms(2,3) Press PlainKey by (intro ps2_code_char [OF at]) auto
        then show ?thesis
          using 5 at Press PlainKey
          by (auto simp: ps2_follows_def ps2_idle_at ps2_at_def ps2_type_def ps2_ring_def ps2_out_frames_def)
      qed (use ps2_code_modifier [OF at] lens Press PlainKey in
          \<open>simp_all add: ps2_follows_def ps2_idle_at ps2_ring_def ps2_out_frames_def\<close>)
    next
      case (ExtKey c)
      have "ps2_at k' False False ((ps2_types out s)\<lparr>ps2_flags := kbd_flags k' False False\<rparr>)
          \<and> ps2_ring ((ps2_types out s)\<lparr>ps2_flags := kbd_flags k' False False\<rparr>) = fold ring_put out (ps2_ring s)
          \<and> ps2_sent (ps2_types out s) = ps2_sent s" for out k'
        using at by (induction out arbitrary: s) (auto simp: ps2_types_def ps2_type1_def ps2_at_def ps2_ring_def)
      note typed = this
      have codes: "ps2_codes ct (kbd_codes e) s = ps2_code ct c (s\<lparr>ps2_flags := kbd_flags k True False\<rparr>)"
        using ext Press ExtKey by (simp split: sum.splits)
      have "c \<noteq> 0xF0" using assms(3) Press ExtKey by simp
      note press = ps2_code_ext_press [OF at_ext this, of ct]
      show ?thesis
      proof (cases "kbd_event e k")
        case None
        then show ?thesis using codes press Press ExtKey by simp
      next
        case (Some r)
        obtain k' out cmds where r: "r = (k', out, cmds)" by (cases r)
        with Some have "cmds = []" using Press ExtKey by (auto split: if_splits option.splits)
        moreover have "ps2_code ct c (s\<lparr>ps2_flags := kbd_flags k True False\<rparr>) =
            Inr ((ps2_types out s)\<lparr>ps2_flags := kbd_flags k' False False\<rparr>)"
          using press Some r Press ExtKey by (simp add: ps2_types_flags del: kbd_event.simps)
        ultimately show ?thesis
          using typed [of k' out] codes Some r by (simp add: ps2_follows_def ps2_idle_at ps2_out_frames_def)
      qed
    qed
  next
    case (Release key)
    show ?thesis
    proof (cases key)
      case (PlainKey c)
      show ?thesis
      proof (cases "c = PS2_CAPS_CODE")
        case True
        have "ps2_ring (s\<lparr>ps2_flags := kbd_flags k False True\<rparr>) = ps2_ring s" by (simp add: ps2_ring_def)
        then show ?thesis
          using ps2_code_caps [OF at_brk, of ct "0xFA" "0xFA"] brk Release PlainKey True
          by (auto simp: ps2_follows_def ps2_idle_at)
      next
        case False
        then show ?thesis
          using ps2_code_release [OF at_brk False, of ct] brk Release PlainKey lens
          by (auto simp: ps2_follows_def ps2_idle_at ps2_ring_def ps2_out_frames_def)
      qed
    next
      case (ExtKey c)
      then show ?thesis
        using ps2_code_ext_release [OF at_eb, of ct c] ext ps2_code_ext_break [OF at_ext, of ct] Release lens
        by (auto simp: ps2_follows_def ps2_idle_at ps2_ring_def ps2_out_frames_def)
    qed
  next
    case PauseKey
    then show ?thesis
      using ps2_code_pause [OF at, of ct] assms(1) by (simp add: ps2_follows_def ps2_out_frames_def)
  qed
qed

definition ps2_keys :: "ps2 \<Rightarrow> u16 list" where
  "ps2_keys s = ring_contents (ps2_ring s)"

lemma ring_puts:
  "ring_ok r \<Longrightarrow> length (ring_contents r) + length out \<le> 255 \<Longrightarrow>
   ring_ok (fold ring_put out r) \<and> ring_contents (fold ring_put out r) = ring_contents r @ out"
proof (induction out arbitrary: r)
  case Nil
  then show ?case by simp
next
  case (Cons x out)
  then have "ring_ok (ring_put x r) \<and> ring_contents (ring_put x r) = ring_contents r @ [x]"
    using ps2q.put_room [of r x] by auto
  then show ?case using Cons by simp
qed

lemma ring_puts_index:
  "fold ring_put out (q, r, w) = (q', r', w') \<Longrightarrow> r' = r \<and> w' = w + of_nat (length out)"
  by (induction out arbitrary: q w) (simp, force simp: algebra_simps)

lemma ps2_idle_ring: "ps2_idle k s \<Longrightarrow> ring_ok (ps2_ring s)"
  by (simp add: ps2_idle_def ps2_ring_def)

lemma ps2_run_follows:
  assumes "ctype_plain ct" "ps2_idle k s" "\<forall>e\<in>set es. kbd_valid e"
  shows "case kbd_run es k of
      None \<Rightarrow> ps2_run ct (concat (map ps2_frame (concat (map kbd_codes es)))) s = Inl Ps2Reset
    | Some r \<Rightarrow> \<exists>t. ps2_run ct (concat (map ps2_frame (concat (map kbd_codes es)))) s = Inr t \<and> ps2_follows r s t"
  using assms(2,3)
proof (induction es arbitrary: k s)
  case Nil
  then show ?case by (simp add: ps2_follows_def ps2_out_frames_def)
next
  case (Cons e es)
  let ?run = "\<lambda>bs. ps2_run ct (concat (map ps2_frame bs))"
  have codes: "?run (kbd_codes e) s = ps2_codes ct (kbd_codes e) s"
    using Cons.prems(1) by (intro ps2_run_frames) (simp_all add: ps2_idle_def)
  have split: "?run (concat (map kbd_codes (e # es))) s =
      (case ps2_codes ct (kbd_codes e) s of Inl x \<Rightarrow> Inl x | Inr t \<Rightarrow> ?run (concat (map kbd_codes es)) t)"
    using codes by (simp add: ps2_run_append)
  note event = ps2_event_follows [OF Cons.prems(1) assms(1), of e]
  show ?case
  proof (cases "kbd_event e k")
    case None
    then show ?thesis using event Cons.prems(2) split by simp
  next
    case (Some r)
    obtain k' out cmds where r: "r = (k', out, cmds)" by (cases r)
    obtain t where t: "ps2_codes ct (kbd_codes e) s = Inr t" "ps2_follows r s t"
      using event Some Cons.prems(2) by auto
    then have "ps2_idle k' t" by (simp add: ps2_follows_def r)
    from Cons.IH [OF this] Cons.prems(2) t split Some r show ?thesis
      by (auto simp: ps2_follows_def ps2_out_frames_def split: option.splits)
  qed
qed

text \<open>C28. The keyboard decoder against an ideal keyboard that only knows which modifiers are down: for any
  sequence of presses and releases (also of keys with prefix codes, the pause key and caps lock with
  its acknowledgements), sent as frames of 11 clock edges, the handler resets the machine exactly on
  Ctrl+Alt+Del; otherwise it ends idle with the modifiers of the ideal keyboard, has sent exactly the
  caps lock light commands, and while fewer than 256 keys are unread the ring holds the unread keys
  followed by the keys typed, each with the modifiers held at that moment.\<close>

theorem ps2_keyboard_refines:
  assumes "ctype_plain ct" "ps2_idle k s" "\<forall>e\<in>set es. kbd_valid e"
  shows "case kbd_run es k of
      None \<Rightarrow> ps2_run ct (concat (map ps2_frame (concat (map kbd_codes es)))) s = Inl Ps2Reset
    | Some (k', out, cmds) \<Rightarrow> \<exists>t. ps2_run ct (concat (map ps2_frame (concat (map kbd_codes es)))) s = Inr t \<and>
        ps2_idle k' t \<and> ps2_sent t = ps2_sent s @ ps2_out_frames cmds \<and>
        (length (ps2_keys s) + length out < 256 \<longrightarrow> ps2_keys t = ps2_keys s @ out)"
proof -
  have "ps2_keys t = ps2_keys s @ out"
    if "ps2_ring t = fold ring_put out (ps2_ring s)" "length (ps2_keys s) + length out < 256" for t out
    using that ring_puts [OF ps2_idle_ring [OF assms(2)], of out] by (simp add: ps2_keys_def)
  then show ?thesis
    using ps2_run_follows [OF assms] by (auto simp: ps2_follows_def split: option.splits)
qed

subsection \<open>Typing text\<close>




definition kbd_none :: kbd where
  "kbd_none = \<lparr>kb_lshift = False, kb_rshift = False, kb_lctrl = False, kb_rctrl = False, kb_lalt = False,
     kb_ralt = False, kb_caps = False\<rparr>"









lemma kbd_none_word: "kbd_word kbd_none c = c" "kbd_word (kbd_none\<lparr>kb_lshift := True\<rparr>) c = 0x2000 OR c"
  by (simp_all add: kbd_word_def kbd_none_def kb_shift_def kb_ctrl_def kb_alt_def)









lemma ps2_keys_index: "ps2_idle k s \<Longrightarrow> ps2_keys s = [] \<longleftrightarrow> ps2_r_idx s = ps2_w_idx s"
  by (auto simp: ps2_keys_def ps2_ring_def unat_eq_zero)

lemma ps2_nothing_typed:
  "ps2_idle k s \<Longrightarrow> ps2_keys s = [] \<Longrightarrow> ps2_get_rawkey ct Ps2NoWait es s = Some (Inr (-1, es, s))"
  by (simp add: ps2_keys_index ps2_get_rawkey_def)


text \<open>The ring of keys has no overflow check: of the keys unread and typed since, the reader finds
  their number modulo 256. When 256 keys are typed while nobody reads, all of them are gone and the
  reader is told that there is no key.\<close>

theorem ps2_ring_overflow:
  assumes "ctype_plain ct" "ps2_idle k s" "\<forall>e\<in>set es. kbd_valid e" "kbd_run es k = Some (k', out, cmds)"
  shows "\<exists>t. ps2_run ct (concat (map ps2_frame (concat (map kbd_codes es)))) s = Inr t \<and>
    length (ps2_keys t) = (length (ps2_keys s) + length out) mod 256 \<and>
    (length (ps2_keys s) + length out = 256 \<longrightarrow> ps2_get_rawkey ct Ps2NoWait [] t = Some (Inr (-1, [], t)))"
proof -
  obtain t where t: "ps2_run ct (concat (map ps2_frame (concat (map kbd_codes es)))) s = Inr t" "ps2_idle k' t"
    "ps2_ring t = fold ring_put out (ps2_ring s)"
    using ps2_run_follows [OF assms(1-3)] assms(4) by (auto simp: ps2_follows_def)
  from t(3) have "ps2_r_idx t = ps2_r_idx s" "ps2_w_idx t = ps2_w_idx s + of_nat (length out)"
    using ring_puts_index [of out "ps2_queue s" "ps2_r_idx s" "ps2_w_idx s" "ps2_queue t" "ps2_r_idx t" "ps2_w_idx t"] by (auto simp: ps2_ring_def)
  then have "ps2_w_idx t - ps2_r_idx t = (ps2_w_idx s - ps2_r_idx s) + of_nat (length out)" by simp
  then have "unat (ps2_w_idx t - ps2_r_idx t) = (unat (ps2_w_idx s - ps2_r_idx s) + length out) mod 256"
    by (simp add: unat_word_ariths(1) unat_of_nat mod_simps)
  then have len: "length (ps2_keys t) = (length (ps2_keys s) + length out) mod 256"
    by (simp add: ps2_keys_def ps2_ring_def)
  then have "ps2_keys t = []" if "length (ps2_keys s) + length out = 256" using that by simp
  with t len show ?thesis using ps2_nothing_typed by blast
qed


subsection \<open>Examples\<close>

text \<open>A decoder at rest and the usual C library.\<close>

definition ps2_demo :: ps2 where
  "ps2_demo = \<lparr>ps2_flags = 0, ps2_bitcnt = 0, ps2_data = 0, ps2_r_idx = 250, ps2_w_idx = 250,
     ps2_queue = replicate 256 0, ps2_ignore_count = 0, ps2_send_buffer = replicate 16 0, ps2_cmds_to_send = 0,
     ps2_send_idx = 0, ps2_acks_to_receive = 0, ps2_sent = [], ps2_chained = []\<rparr>"

definition ctype_demo :: ctype_beyond where
  "ctype_demo = \<lparr>beyond_isalpha = \<lambda>_. False, beyond_toupper = \<lambda>c. c, beyond_tolower = \<lambda>c. c\<rparr>"

lemma ps2_demo_ok:
  "ctype_plain ctype_demo" "ps2_idle kbd_none ps2_demo" "ps2_keys ps2_demo = []"
proof -
  show "ctype_plain ctype_demo" by (simp add: ctype_plain_def ctype_demo_def)
  have "kbd_flags kbd_none False False = 0"
    by (simp add: kbd_flags_def kbd_bits_def flag_word_def kbd_none_def kb_shift_def kb_ctrl_def kb_alt_def)
  then show "ps2_idle kbd_none ps2_demo" by (simp add: ps2_idle_def ps2_demo_def)
  show "ps2_keys ps2_demo = []" by (simp add: ps2_keys_def ps2_ring_def ps2_demo_def)
qed

text \<open>Shift and the key of the letter a, then caps lock: one key, an "A" with the shift flag, and two commands.\<close>

theorem ps2_keyboard_refines_witness:
  "\<exists>t. ps2_run ctype_demo (concat (map ps2_frame [0x12, 0x1C, 0xF0, 0x1C, 0xF0, 0x12, 0x58, 0xF0, 0x58, 0xFA, 0xFA])) ps2_demo = Inr t \<and>
     ps2_keys t = [0x2041] \<and> ps2_sent t = [ps2_out_bits 8 0xED 0, ps2_out_bits 8 4 0]"
  using ps2_keyboard_refines [OF ps2_demo_ok(1,2), of "[Press (PlainKey 0x12), Press (PlainKey 0x1C),
      Release (PlainKey 0x1C), Release (PlainKey 0x12), Press (PlainKey 0x58), Release (PlainKey 0x58)]"] ps2_demo_ok(3)
  by (auto simp: kbd_char_def kbd_none_def kb_shift_def kbd_word_def kb_ctrl_def kb_alt_def ps2_out_frames_def
      ps2_direct_mapping_def ps2_shift_mapping_def ps2_demo_def)


lemma kbd_run_replicate:
  "kbd_event e k = Some (k, [x], []) \<Longrightarrow> kbd_run (replicate n e) k = Some (k, replicate n x, [])"
  by (induction n) simp_all

theorem ps2_ring_overflow_witness:
  "\<exists>t. ps2_run ctype_demo (concat (map ps2_frame (concat (map kbd_codes (replicate 256 (Press (PlainKey 0x1C))))))) ps2_demo = Inr t \<and>
    ps2_get_rawkey ctype_demo Ps2NoWait [] t = Some (Inr (-1, [], t))"
proof -
  have "kbd_event (Press (PlainKey 0x1C)) kbd_none = Some (kbd_none, [0x61], [])"
    by (simp add: kbd_char_def kb_shift_def kbd_none_word ps2_direct_mapping_def kbd_none_def [symmetric])
       (simp add: kbd_none_def)
  from kbd_run_replicate [OF this, of 256] have
    "kbd_run (replicate 256 (Press (PlainKey 0x1C))) kbd_none = Some (kbd_none, replicate 256 0x61, [])" .
  moreover have "\<forall>e\<in>set (replicate 256 (Press (PlainKey 0x1C))). kbd_valid e" by simp
  ultimately show ?thesis
    using ps2_ring_overflow [OF ps2_demo_ok(1,2)] ps2_demo_ok(3) by (metis length_replicate add_0 list.size(3))
qed

end
