(* ===== verification/Vram.thy ===== *)
theory Vram
  imports Elua_Term
begin

text \<open>
  The text screen \<^verbatim>\<open>src/vram.c\<close> with its terminal functions \<^verbatim>\<open>src/term_vram.c\<close>: 30 lines of 80 cells in a
  memory shared with a video processor, a cell being a character with its colors, behind a header with
  the cursor. Characters are written one by one; an escape sequence is collected in a buffer and
  executed at its letter. The state holds the header, the cells and the static variables; a write
  outside the cells or the buffer is a fault. Characters are unsigned, as on the ARM targets.
\<close>

subsection \<open>State\<close>

abbreviation VRAM_LINES :: nat where "VRAM_LINES \<equiv> 30"
abbreviation VRAM_COLS :: nat where "VRAM_COLS \<equiv> 80"
abbreviation VRAM_CHARS :: nat where "VRAM_CHARS \<equiv> 2400"
abbreviation VRAM_TAB_SIZE :: nat where "VRAM_TAB_SIZE \<equiv> 4"
abbreviation VRAM_COL_DONT_CHANGE :: int where "VRAM_COL_DONT_CHANGE \<equiv> -1"
abbreviation VRAM_COL_DEFAULT :: int where "VRAM_COL_DEFAULT \<equiv> -2"
abbreviation VRAM_DEFAULT_FG_COL :: u8 where "VRAM_DEFAULT_FG_COL \<equiv> 7"
abbreviation VRAM_DEFAULT_BG_COL :: u8 where "VRAM_DEFAULT_BG_COL \<equiv> 0"
abbreviation VRAM_CURSOR_OFF :: u8 where "VRAM_CURSOR_OFF \<equiv> 0"
abbreviation VRAM_CURSOR_BLOCK_BLINK :: u8 where "VRAM_CURSOR_BLOCK_BLINK \<equiv> 2"
abbreviation VRAM_CURSOR_LINE_BLINK :: u8 where "VRAM_CURSOR_LINE_BLINK \<equiv> 6"
abbreviation TERM_MODE_ASCII :: u8 where "TERM_MODE_ASCII \<equiv> 0"
abbreviation TERM_MODE_COLS :: u8 where "TERM_MODE_COLS \<equiv> 1"
abbreviation VRAM_INBUF :: nat where "VRAM_INBUF \<equiv> 15"

record vram =
  v_cy :: u8
  v_cx :: u8
  v_type :: u8
  v_cells :: "u16 list"
  v_fg_col :: u8
  v_bg_col :: u8
  v_paging_enabled :: u8
  v_paging_lines :: u8
  v_last_line :: u8
  v_crt_attr :: u8
  v_mode :: u8
  v_reading_ansi :: bool
  v_ansi_count :: nat
  v_ansi_inbuf :: "u8 list"
  v_ansi_brightness :: u8
  v_keys_waited :: nat

text \<open>A cell has its character in the high and its colors in the low byte. The address is relative to the first cell.\<close>

definition VRAM_CHARADDR :: "int \<Rightarrow> int \<Rightarrow> int" where
  "VRAM_CHARADDR x y = y * int VRAM_COLS + x"

definition vram_cell :: "u8 \<Rightarrow> u8 \<Rightarrow> u16" where
  "vram_cell c attr = push_bit 8 (ucast c) OR ucast attr"

definition VRAM_MKCOL :: "int \<Rightarrow> int \<Rightarrow> int" where
  "VRAM_MKCOL fg bg = push_bit 4 bg + fg"

abbreviation vram_blank :: "vram \<Rightarrow> u16" where
  "vram_blank s \<equiv> vram_cell 0x20 (v_crt_attr s)"

definition vram_store :: "nat \<Rightarrow> u16 list \<Rightarrow> vram \<Rightarrow> c_fault + vram" where
  "vram_store a cs s =
     (if a + length cs \<le> length (v_cells s) then Inr (s\<lparr>v_cells := overwrite (v_cells s) a cs\<rparr>) else Inl OutOfBounds)"

definition vram_putchar_internal :: "int \<Rightarrow> int \<Rightarrow> u8 \<Rightarrow> vram \<Rightarrow> c_fault + vram" where
  "vram_putchar_internal x y c s =
     (if VRAM_CHARADDR x y < 0 then Inl OutOfBounds
      else vram_store (nat (VRAM_CHARADDR x y)) [vram_cell c (v_crt_attr s)] s)"

definition vram_clear_line :: "int \<Rightarrow> vram \<Rightarrow> c_fault + vram" where
  "vram_clear_line y s =
     (if VRAM_CHARADDR 0 y < 0 then Inl OutOfBounds
      else vram_store (nat (VRAM_CHARADDR 0 y)) (replicate VRAM_COLS (vram_blank s)) s)"

definition vram_set_color :: "int \<Rightarrow> int \<Rightarrow> vram \<Rightarrow> vram" where
  "vram_set_color fg bg s =
     (let f = (if fg = VRAM_COL_DEFAULT then VRAM_DEFAULT_FG_COL else if fg \<noteq> VRAM_COL_DONT_CHANGE then of_int fg else v_fg_col s);
          b = (if bg = VRAM_COL_DEFAULT then VRAM_DEFAULT_BG_COL else if bg \<noteq> VRAM_COL_DONT_CHANGE then of_int bg else v_bg_col s)
      in s\<lparr>v_fg_col := f, v_bg_col := b, v_crt_attr := of_int (VRAM_MKCOL (uint f) (uint b))\<rparr>)"

definition vram_clrscr :: "vram \<Rightarrow> vram" where
  "vram_clrscr s = s\<lparr>v_cells := replicate VRAM_CHARS (vram_blank s), v_cx := 0, v_cy := 0\<rparr>"

definition vram_gotoxy :: "u8 \<Rightarrow> u8 \<Rightarrow> vram \<Rightarrow> vram" where
  "vram_gotoxy x y s =
     (let s1 = (if x < of_nat VRAM_COLS then s\<lparr>v_cx := x\<rparr> else s)
      in if y < of_nat VRAM_LINES then s1\<lparr>v_cy := y\<rparr> else s1)"

definition vram_deltaxy :: "int \<Rightarrow> int \<Rightarrow> vram \<Rightarrow> vram" where
  "vram_deltaxy dx dy s =
     (let x = uint (v_cx s) + dx; y = uint (v_cy s) + dy
      in if x > 0 \<and> y > 0 then vram_gotoxy (of_int x) (of_int y) s else s)"

definition vram_get_cx :: "vram \<Rightarrow> u8" where "vram_get_cx s = v_cx s"

definition vram_get_cy :: "vram \<Rightarrow> u8" where "vram_get_cy s = v_cy s"

definition vram_clreol :: "vram \<Rightarrow> c_fault + vram" where
  "vram_clreol s =
     vram_store (unat (v_cy s) * VRAM_COLS + unat (v_cx s)) (replicate (VRAM_COLS - unat (v_cx s)) (vram_blank s)) s"

definition vram_set_cursor :: "int \<Rightarrow> vram \<Rightarrow> vram" where
  "vram_set_cursor t s =
     (if t = 0 then s\<lparr>v_type := VRAM_CURSOR_OFF\<rparr>
      else if t = 1 then s\<lparr>v_type := VRAM_CURSOR_BLOCK_BLINK\<rparr>
      else if t = 2 then s\<lparr>v_type := VRAM_CURSOR_LINE_BLINK\<rparr>
      else s)"

definition vram_get_cursor :: "vram \<Rightarrow> int" where
  "vram_get_cursor s =
     (if v_type s = VRAM_CURSOR_OFF then 0
      else if v_type s = VRAM_CURSOR_BLOCK_BLINK then 1
      else if v_type s = VRAM_CURSOR_LINE_BLINK then 2
      else 0)"

definition vram_enable_paging :: "int \<Rightarrow> vram \<Rightarrow> vram" where
  "vram_enable_paging enabled s = s\<lparr>v_paging_enabled := of_int enabled, v_paging_lines := 0\<rparr>"

definition vram_get_color :: "vram \<Rightarrow> int \<times> int" where
  "vram_get_color s = (uint (v_fg_col s), uint (v_bg_col s))"

definition vram_set_last_line :: "int \<Rightarrow> vram \<Rightarrow> vram" where
  "vram_set_last_line line s = s\<lparr>v_last_line := of_int line\<rparr>"

definition vram_set_mode :: "int \<Rightarrow> vram \<Rightarrow> vram" where
  "vram_set_mode mode s = s\<lparr>v_mode := of_int mode\<rparr>"

definition vram_init :: "vram \<Rightarrow> vram" where
  "vram_init s = vram_clrscr (vram_set_color (uint VRAM_DEFAULT_FG_COL) (uint VRAM_DEFAULT_BG_COL)
     (s\<lparr>v_type := VRAM_CURSOR_BLOCK_BLINK, v_last_line := of_nat (VRAM_LINES - 1), v_mode := TERM_MODE_ASCII\<rparr>))"

subsection \<open>Escape sequences\<close>

datatype vram_ansi_seq = ANSI_SEQ_CLRSCR | ANSI_SEQ_CLREOL | ANSI_SEQ_GOTOXY | ANSI_SEQ_UP | ANSI_SEQ_DOWN
  | ANSI_SEQ_RIGHT | ANSI_SEQ_LEFT | ANSI_SEQ_SETSGR | ANSI_SEQ_GOTOCOL

record vram_ansi_op =
  ao_op :: vram_ansi_seq
  ao_p1 :: int
  ao_p2 :: int

text \<open>
  The conversion \<^verbatim>\<open>%d\<close> of \<^verbatim>\<open>sscanf\<close>: blanks, a sign, digits. Like newlib's it saturates at the limits of
  32 bits; the sums and products with such numbers, which overflow in C, are outside the model.
\<close>

definition c_isdigit :: "u8 \<Rightarrow> bool" where
  "c_isdigit c \<longleftrightarrow> 0x30 \<le> c \<and> c \<le> 0x39"

definition c_isspace :: "u8 \<Rightarrow> bool" where
  "c_isspace c \<longleftrightarrow> c = 0x20 \<or> (9 \<le> c \<and> c \<le> 13)"

definition c_isletter :: "u8 \<Rightarrow> bool" where
  "c_isletter c \<longleftrightarrow> (0x41 \<le> c \<and> c \<le> 0x5A) \<or> (0x61 \<le> c \<and> c \<le> 0x7A)"

definition c_digits_value :: "u8 list \<Rightarrow> nat" where
  "c_digits_value = foldl (\<lambda>n c. 10 * n + (unat c - 48)) 0"

definition c_scan_d :: "u8 list \<Rightarrow> (int \<times> u8 list) option" where
  "c_scan_d s =
     (let s1 = dropWhile c_isspace s;
          neg = (s1 \<noteq> [] \<and> hd s1 = 0x2D);
          s2 = (if s1 \<noteq> [] \<and> (hd s1 = 0x2D \<or> hd s1 = 0x2B) then tl s1 else s1);
          n = int (c_digits_value (takeWhile c_isdigit s2))
      in if takeWhile c_isdigit s2 = [] then None
         else Some (max (- 2147483648) (min 2147483647 (if neg then - n else n)), dropWhile c_isdigit s2))"

definition c_scan_d1 :: "u8 list \<Rightarrow> int" where
  "c_scan_d1 p = (case c_scan_d p of None \<Rightarrow> -1 | Some (a, _) \<Rightarrow> a)"

definition c_scan_d2 :: "u8 list \<Rightarrow> int \<times> int" where
  "c_scan_d2 p =
     (case c_scan_d p of
        None \<Rightarrow> (-1, -1)
      | Some (a, []) \<Rightarrow> (a, -1)
      | Some (a, c # r) \<Rightarrow> if c = 0x3B then (a, c_scan_d1 r) else (a, -1))"

text \<open>\<open>inbuf\<close> up to its first zero; the result is 0 (\<open>None\<close>) or 1 with the operation.\<close>

definition vram_cvt_escape :: "u8 list \<Rightarrow> vram_ansi_op option" where
  "vram_cvt_escape inbuf =
     (let str = takeWhile (\<lambda>c. c \<noteq> 0) inbuf; c = last str; p = drop 2 (butlast str) in
      if length str < 2 \<or> str ! 0 \<noteq> 0x1B \<or> str ! 1 \<noteq> 0x5B then None
      else if c = 0x4A then
        (if p \<noteq> [] \<and> hd p = 0x32 then Some \<lparr>ao_op = ANSI_SEQ_CLRSCR, ao_p1 = -1, ao_p2 = -1\<rparr> else None)
      else if c = 0x4B then Some \<lparr>ao_op = ANSI_SEQ_CLREOL, ao_p1 = -1, ao_p2 = -1\<rparr>
      else if c = 0x48 then Some \<lparr>ao_op = ANSI_SEQ_GOTOXY, ao_p1 = 1, ao_p2 = 1\<rparr>
      else if c = 0x66 then Some \<lparr>ao_op = ANSI_SEQ_GOTOXY, ao_p1 = fst (c_scan_d2 p), ao_p2 = snd (c_scan_d2 p)\<rparr>
      else if c = 0x47 then Some \<lparr>ao_op = ANSI_SEQ_GOTOCOL, ao_p1 = c_scan_d1 p, ao_p2 = -1\<rparr>
      else if c = 0x6D then
        (if 0x3B \<in> set p then Some \<lparr>ao_op = ANSI_SEQ_SETSGR, ao_p1 = fst (c_scan_d2 p), ao_p2 = snd (c_scan_d2 p)\<rparr>
         else Some \<lparr>ao_op = ANSI_SEQ_SETSGR, ao_p1 = c_scan_d1 p, ao_p2 = -1\<rparr>)
      else if c = 0x41 then Some \<lparr>ao_op = ANSI_SEQ_UP, ao_p1 = c_scan_d1 p, ao_p2 = -1\<rparr>
      else if c = 0x42 then Some \<lparr>ao_op = ANSI_SEQ_DOWN, ao_p1 = c_scan_d1 p, ao_p2 = -1\<rparr>
      else if c = 0x43 then Some \<lparr>ao_op = ANSI_SEQ_RIGHT, ao_p1 = c_scan_d1 p, ao_p2 = -1\<rparr>
      else if c = 0x44 then Some \<lparr>ao_op = ANSI_SEQ_LEFT, ao_p1 = c_scan_d1 p, ao_p2 = -1\<rparr>
      else None)"

definition vram_ansi_col_lut :: "int list" where
  "vram_ansi_col_lut = [0, 4, 2, 6, 1, 5, 3, 8, 7, 12, 10, 14, 9, 13, 11, 15]"

abbreviation ANSI_COL_HALF_SIZE :: u8 where "ANSI_COL_HALF_SIZE \<equiv> 8"

text \<open>A color parameter: its value after the bright offset, and the offset in the table.\<close>

definition vram_sgr_param :: "int \<Rightarrow> int \<times> u8" where
  "vram_sgr_param p = (if p \<ge> 60 then (p - 30, ANSI_COL_HALF_SIZE) else (p, 0))"

definition vram_sgr_color :: "int \<Rightarrow> u8 \<Rightarrow> u8 \<Rightarrow> c_fault + int" where
  "vram_sgr_color idx bright f =
     (let i = nat idx + unat (bright OR f)
      in if i < length vram_ansi_col_lut then Inr (vram_ansi_col_lut ! i) else Inl OutOfBounds)"

definition vram_sgr_apply :: "int \<times> u8 \<Rightarrow> u8 \<Rightarrow> int \<times> int \<Rightarrow> c_fault + int \<times> int" where
  "vram_sgr_apply q bright cols =
     (case q of (p, f) \<Rightarrow>
        if 40 \<le> p \<and> p \<le> 47 then ebind (vram_sgr_color (p - 40) bright f) (\<lambda>c. Inr (fst cols, c))
        else if 30 \<le> p \<and> p \<le> 37 then ebind (vram_sgr_color (p - 30) bright f) (\<lambda>c. Inr (c, snd cols))
        else Inr cols)"

definition vram_ansi_sgr :: "int \<Rightarrow> int \<Rightarrow> vram \<Rightarrow> c_fault + vram" where
  "vram_ansi_sgr p1 p2 s =
     (if p1 = 0 then Inr (vram_set_color VRAM_COL_DEFAULT VRAM_COL_DEFAULT (s\<lparr>v_ansi_brightness := 0\<rparr>))
      else if p1 = 1 \<or> p1 = 2 then
        Inr (vram_set_color VRAM_COL_DONT_CHANGE VRAM_COL_DONT_CHANGE
          (s\<lparr>v_ansi_brightness := (if p1 = 2 then 0 else ANSI_COL_HALF_SIZE)\<rparr>))
      else
        (let q1 = vram_sgr_param p1; q2 = vram_sgr_param p2 in
         if \<not> (30 \<le> fst q1 \<and> fst q1 \<le> 37) \<and> \<not> (40 \<le> fst q1 \<and> fst q1 \<le> 47) then Inr s
         else ebind (vram_sgr_apply q1 (v_ansi_brightness s) (VRAM_COL_DONT_CHANGE, VRAM_COL_DONT_CHANGE)) (\<lambda>cols.
           ebind (vram_sgr_apply q2 (v_ansi_brightness s) cols) (\<lambda>cols'.
             Inr (vram_set_color (fst cols') (snd cols') s)))))"

definition vram_ansi_execute :: "vram \<Rightarrow> c_fault + vram" where
  "vram_ansi_execute s =
     (case vram_cvt_escape (v_ansi_inbuf s) of
        None \<Rightarrow> Inr s
      | Some ao \<Rightarrow> (case ao_op ao of
          ANSI_SEQ_CLRSCR \<Rightarrow> Inr (vram_clrscr s)
        | ANSI_SEQ_CLREOL \<Rightarrow> vram_clreol s
        | ANSI_SEQ_GOTOXY \<Rightarrow> Inr (s\<lparr>v_cx := of_int (ao_p1 ao) - 1, v_cy := of_int (ao_p2 ao) - 1\<rparr>)
        | ANSI_SEQ_GOTOCOL \<Rightarrow> Inr (s\<lparr>v_cx := of_int (ao_p1 ao)\<rparr>)
        | ANSI_SEQ_UP \<Rightarrow> Inr (vram_deltaxy 0 (- ao_p1 ao) s)
        | ANSI_SEQ_LEFT \<Rightarrow> Inr (vram_deltaxy (- ao_p1 ao) 0 s)
        | ANSI_SEQ_RIGHT \<Rightarrow> Inr (vram_deltaxy (ao_p1 ao) 0 s)
        | ANSI_SEQ_DOWN \<Rightarrow> Inr (vram_deltaxy 0 (ao_p1 ao) s)
        | ANSI_SEQ_SETSGR \<Rightarrow> vram_ansi_sgr (ao_p1 ao) (ao_p2 ao) s))"

subsection \<open>Characters\<close>

text \<open>The screen up to \<^verbatim>\<open>vram_last_line\<close> moves up by a line.\<close>

definition vram_scroll :: "vram \<Rightarrow> c_fault + vram" where
  "vram_scroll s =
     (let n = unat (v_last_line s) * VRAM_COLS in
      if VRAM_COLS + n \<le> length (v_cells s)
      then ebind (vram_store 0 (take n (drop VRAM_COLS (v_cells s))) s) (vram_clear_line (uint (v_last_line s)))
      else Inl OutOfBounds)"

definition vram_page :: "vram \<Rightarrow> vram" where
  "vram_page s =
     (if v_paging_enabled s \<noteq> 0
      then (let s1 = s\<lparr>v_paging_lines := v_paging_lines s + 1\<rparr>
            in if uint (v_paging_lines s1) = uint (v_last_line s1) - 1
               then s1\<lparr>v_keys_waited := v_keys_waited s1 + 1, v_paging_lines := 0\<rparr> else s1)
      else s)"

definition vram_newline :: "vram \<Rightarrow> c_fault + vram" where
  "vram_newline s =
     (let s1 = s\<lparr>v_cx := 0\<rparr>
      in ebind (if v_cy s1 = v_last_line s1 then vram_scroll s1 else Inr (s1\<lparr>v_cy := v_cy s1 + 1\<rparr>)) (\<lambda>s2. Inr (vram_page s2)))"

definition vram_backspace :: "vram \<Rightarrow> c_fault + vram" where
  "vram_backspace s =
     (let s1 = (if v_cx s = 0
                then (if v_cy s > 0 then s\<lparr>v_cy := v_cy s - 1, v_cx := of_nat (VRAM_COLS - 1)\<rparr> else s)
                else s\<lparr>v_cx := v_cx s - 1\<rparr>)
      in vram_putchar_internal (uint (v_cx s1)) (uint (v_cy s1)) 0x20 s1)"

definition vram_put_plain :: "u8 \<Rightarrow> vram \<Rightarrow> c_fault + vram" where
  "vram_put_plain c s =
     ebind (if v_cx s \<ge> of_nat VRAM_COLS then ebind (vram_newline s) (\<lambda>s1. Inr (s1\<lparr>v_cx := 0\<rparr>)) else Inr s) (\<lambda>s2.
     ebind (vram_putchar_internal (uint (v_cx s2)) (uint (v_cy s2)) c s2) (\<lambda>s3.
       Inr (s3\<lparr>v_cx := v_cx s3 + 1\<rparr>)))"

primrec vram_repeat :: "nat \<Rightarrow> (vram \<Rightarrow> c_fault + vram) \<Rightarrow> vram \<Rightarrow> c_fault + vram" where
  "vram_repeat 0 f s = Inr s"
| "vram_repeat (Suc n) f s = ebind (f s) (vram_repeat n f)"

definition vram_color_char :: "u8 \<Rightarrow> vram \<Rightarrow> vram" where
  "vram_color_char nc s =
     (if nc = 255 then vram_set_color VRAM_COL_DEFAULT VRAM_COL_DEFAULT s
      else if nc < 144 then vram_set_color (uint nc - 128) VRAM_COL_DONT_CHANGE s
      else vram_set_color VRAM_COL_DONT_CHANGE (uint nc - 144) s)"

definition vram_put_visible :: "u8 \<Rightarrow> vram \<Rightarrow> c_fault + vram" where
  "vram_put_visible c s =
     (if v_mode s = TERM_MODE_COLS \<and> ((128 \<le> c \<and> c \<le> 159) \<or> c = 255) then Inr (vram_color_char c s)
      else vram_put_plain c s)"

definition vram_read_ansi :: "u8 \<Rightarrow> vram \<Rightarrow> c_fault + vram" where
  "vram_read_ansi c s =
     (if v_ansi_count s < VRAM_INBUF
      then (let s1 = s\<lparr>v_ansi_count := v_ansi_count s + 1, v_ansi_inbuf := (v_ansi_inbuf s)[v_ansi_count s := c]\<rparr> in
        if c_isletter c
        then (if v_ansi_count s1 < VRAM_INBUF
              then ebind (vram_ansi_execute (s1\<lparr>v_ansi_inbuf := (v_ansi_inbuf s1)[v_ansi_count s1 := 0]\<rparr>))
                     (\<lambda>s2. Inr (s2\<lparr>v_reading_ansi := False\<rparr>))
              else Inl OutOfBounds)
        else Inr s1)
      else Inl OutOfBounds)"

definition vram_putchar :: "u8 \<Rightarrow> vram \<Rightarrow> c_fault + vram" where
  "vram_putchar c s =
     (if c = 0x1B
      then Inr (s\<lparr>v_reading_ansi := True, v_ansi_count := 1, v_ansi_inbuf := (v_ansi_inbuf s)[0 := c]\<rparr>)
      else if v_reading_ansi s then vram_read_ansi c s
      else if c = 0x0D then Inr (s\<lparr>v_cx := 0\<rparr>)
      else if c = 0x0A then vram_newline s
      else if c = 8 then vram_backspace s
      else if c = 9 then vram_repeat VRAM_TAB_SIZE (vram_put_visible 0x20) s
      else vram_put_visible c s)"

definition vram_send :: "int \<Rightarrow> u8 \<Rightarrow> vram \<Rightarrow> c_fault + vram" where
  "vram_send fd c s = vram_putchar c s"

subsection \<open>Boxes and attributes\<close>

record term_box =
  box_x :: u16
  box_y :: u16
  box_width :: u16
  box_height :: u16
  box_flags :: u16
  box_savedata :: "u16 list option"

abbreviation TERM_BOX_FLAG_BORDER :: u16 where "TERM_BOX_FLAG_BORDER \<equiv> 0x8000"
abbreviation TERM_BOX_FLAG_RESTORE :: u16 where "TERM_BOX_FLAG_RESTORE \<equiv> 0x4000"
abbreviation TERM_BOX_FLAG_CENTER :: u16 where "TERM_BOX_FLAG_CENTER \<equiv> 0x2000"
abbreviation VRAM_SBOX_UL :: u8 where "VRAM_SBOX_UL \<equiv> 0xDA"
abbreviation VRAM_SBOX_UR :: u8 where "VRAM_SBOX_UR \<equiv> 0xBF"
abbreviation VRAM_SBOX_BL :: u8 where "VRAM_SBOX_BL \<equiv> 0xC0"
abbreviation VRAM_SBOX_BR :: u8 where "VRAM_SBOX_BR \<equiv> 0xD9"
abbreviation VRAM_SBOX_HLINE :: u8 where "VRAM_SBOX_HLINE \<equiv> 0xC4"
abbreviation VRAM_SBOX_VLINE :: u8 where "VRAM_SBOX_VLINE \<equiv> 0xB3"

text \<open>The cell at the address \<^verbatim>\<open>VRAM_CHARADDR8( x, y )\<close>, computed in 32 bits.\<close>

definition VRAM_CHARADDR8 :: "u32 \<Rightarrow> u32 \<Rightarrow> nat" where
  "VRAM_CHARADDR8 x y = unat (push_bit 1 (y * of_nat VRAM_COLS + x)) div 2"

primrec vram_save_lines :: "u32 \<Rightarrow> nat \<Rightarrow> nat list \<Rightarrow> vram \<Rightarrow> c_fault + u16 list" where
  "vram_save_lines x w [] s = Inr []"
| "vram_save_lines x w (iy # iys) s =
     (let a = VRAM_CHARADDR8 x (of_nat iy) in
      if a + w \<le> length (v_cells s)
      then ebind (vram_save_lines x w iys s) (\<lambda>rest. Inr (take w (drop a (v_cells s)) @ rest))
      else Inl OutOfBounds)"

primrec vram_put_cells :: "(nat \<times> nat \<times> u8) list \<Rightarrow> vram \<Rightarrow> c_fault + vram" where
  "vram_put_cells [] s = Inr s"
| "vram_put_cells (p # ps) s =
     (case p of (x, y, c) \<Rightarrow>
        ebind (vram_putchar_internal (sint (of_nat x :: u32)) (sint (of_nat y :: u32)) c s) (vram_put_cells ps))"

text \<open>
  The characters of a box in the order they are written. The loops run over unsigned numbers, and
  the characters at the right and at the bottom go where the loops have ended.
\<close>

definition vram_box_title :: "u32 \<Rightarrow> u32 \<Rightarrow> u32 \<Rightarrow> u8 list \<Rightarrow> bool \<Rightarrow> (nat \<times> nat \<times> u8) list" where
  "vram_box_title x y width title border =
     (let h = (if border then VRAM_SBOX_HLINE else 0x20);
          a = unat (of_nat (length title) + x + 3); b = unat (x + width - 1)
      in [(unat x, unat y, if border then VRAM_SBOX_UL else 0x20), (unat (x + 1), unat y, h), (unat (x + 2), unat y, h)] @
         map (\<lambda>ix. (unat (x + 3 + of_nat ix), unat y, title ! ix)) [0..<length title] @
         map (\<lambda>ix. (ix, unat y, h)) [a..<b] @
         [(max a b, unat y, if border then VRAM_SBOX_UR else 0x20)])"

definition vram_box_row :: "u32 \<Rightarrow> u32 \<Rightarrow> nat \<Rightarrow> u8 \<Rightarrow> u8 \<Rightarrow> u8 \<Rightarrow> (nat \<times> nat \<times> u8) list" where
  "vram_box_row x width iy l m r =
     (let a = unat (x + 1); b = unat (x + width - 1)
      in [(unat x, iy, l)] @ map (\<lambda>ix. (ix, iy, m)) [a..<b] @ [(max a b, iy, r)])"

definition vram_box_cells :: "u32 \<Rightarrow> u32 \<Rightarrow> u32 \<Rightarrow> u32 \<Rightarrow> u8 list \<Rightarrow> bool \<Rightarrow> (nat \<times> nat \<times> u8) list" where
  "vram_box_cells x y width height title border =
     (let a = unat (y + 1); b = unat (y + height - 1);
          v = (if border then VRAM_SBOX_VLINE else 0x20); h = (if border then VRAM_SBOX_HLINE else 0x20)
      in vram_box_title x y width title border @
         concat (map (\<lambda>iy. vram_box_row x width iy v 0x20 v) [a..<b]) @
         vram_box_row x width (max a b) (if border then VRAM_SBOX_BL else 0x20) h (if border then VRAM_SBOX_BR else 0x20))"

text \<open>\<open>m1\<close> and \<open>m2\<close> say whether the two calls of \<^verbatim>\<open>malloc\<close> succeed; a missing title is an empty one.\<close>

definition vram_box :: "bool \<Rightarrow> bool \<Rightarrow> u32 \<Rightarrow> u32 \<Rightarrow> u32 \<Rightarrow> u32 \<Rightarrow> u8 list \<Rightarrow> u16 \<Rightarrow> vram \<Rightarrow> c_fault + term_box option \<times> vram" where
  "vram_box m1 m2 x0 y0 width height title flags s =
     (let centered = (flags AND TERM_BOX_FLAG_CENTER \<noteq> 0);
          restore = (flags AND TERM_BOX_FLAG_RESTORE \<noteq> 0);
          x = (if centered then (of_nat VRAM_COLS - width) div 2 else x0);
          y = (if centered then (of_nat VRAM_LINES - height) div 2 else y0)
      in if \<not> m1 \<or> (restore \<and> \<not> m2) then Inr (None, s)
         else ebind (if restore then ebind (vram_save_lines x (unat width) [unat y..<unat (y + height)] s) (\<lambda>d. Inr (Some d))
                     else Inr None) (\<lambda>saved.
           ebind (vram_put_cells (vram_box_cells x y width height title (flags AND TERM_BOX_FLAG_BORDER \<noteq> 0)) s) (\<lambda>s1.
             Inr (Some \<lparr>box_x = ucast x, box_y = ucast y, box_width = ucast width, box_height = ucast height,
                    box_flags = flags, box_savedata = saved\<rparr>, s1))))"

primrec vram_restore_lines :: "u16 \<Rightarrow> nat \<Rightarrow> nat list \<Rightarrow> u16 list \<Rightarrow> vram \<Rightarrow> c_fault + vram" where
  "vram_restore_lines x w [] crt s = Inr s"
| "vram_restore_lines x w (iy # iys) crt s =
     (if length crt < w then Inl OutOfBounds
      else ebind (vram_store (nat (VRAM_CHARADDR (uint x) (int iy))) (take w crt) s)
        (vram_restore_lines x w iys (drop w crt)))"

definition vram_close_box :: "term_box \<Rightarrow> vram \<Rightarrow> c_fault + vram" where
  "vram_close_box p s =
     (if box_flags p AND TERM_BOX_FLAG_RESTORE \<noteq> 0
      then (case box_savedata p of
          None \<Rightarrow> Inl NullDeref
        | Some d \<Rightarrow> vram_restore_lines (box_x p) (unat (box_width p))
            [unat (box_y p)..<unat (box_y p) + unat (box_height p)] d s)
      else Inr s)"

definition vram_new_attr :: "int \<Rightarrow> int \<Rightarrow> u8 \<Rightarrow> u8" where
  "vram_new_attr newfg newbg oldcol =
     (if newfg > 0 \<and> newbg > 0 then of_int (VRAM_MKCOL newfg newbg)
      else let c1 = (if newfg \<noteq> VRAM_COL_DONT_CHANGE then (oldcol AND 0xF0) OR of_int newfg else oldcol)
           in if newbg \<noteq> VRAM_COL_DONT_CHANGE then (c1 AND 0x0F) OR of_int (push_bit 4 newbg) else c1)"

primrec vram_change_cells :: "nat \<Rightarrow> nat \<Rightarrow> (u8 \<Rightarrow> u8) \<Rightarrow> vram \<Rightarrow> c_fault + vram" where
  "vram_change_cells a 0 f s = Inr s"
| "vram_change_cells a (Suc n) f s =
     (if a < length (v_cells s)
      then (let cell = v_cells s ! a
            in vram_change_cells (a + 1) n f
                 (s\<lparr>v_cells := (v_cells s)[a := (cell AND 0xFF00) OR ucast (f (ucast cell))]\<rparr>))
      else Inl OutOfBounds)"

definition vram_change_attr :: "u32 \<Rightarrow> u32 \<Rightarrow> u32 \<Rightarrow> int \<Rightarrow> int \<Rightarrow> vram \<Rightarrow> c_fault + vram" where
  "vram_change_attr x y len newfg newbg s =
     vram_change_cells (VRAM_CHARADDR8 x y) (unat len) (vram_new_attr newfg newbg) s"

definition vram_attr_at :: "u32 \<Rightarrow> u32 \<Rightarrow> vram \<Rightarrow> c_fault + u8" where
  "vram_attr_at x y s =
     (if VRAM_CHARADDR8 x y < length (v_cells s) then Inr (ucast (v_cells s ! VRAM_CHARADDR8 x y)) else Inl OutOfBounds)"

definition vram_get_fg :: "u32 \<Rightarrow> u32 \<Rightarrow> vram \<Rightarrow> c_fault + int" where
  "vram_get_fg x y s = ebind (vram_attr_at x y s) (\<lambda>attr. Inr (uint (attr AND 0x0F)))"

definition vram_get_bg :: "u32 \<Rightarrow> u32 \<Rightarrow> vram \<Rightarrow> c_fault + int" where
  "vram_get_bg x y s = ebind (vram_attr_at x y s) (\<lambda>attr. Inr (uint (drop_bit 4 attr AND 0x0F)))"

subsection \<open>The terminal functions\<close>

definition vterm_gotoxy :: "u32 \<Rightarrow> u32 \<Rightarrow> vram \<Rightarrow> vram" where
  "vterm_gotoxy x y = vram_gotoxy (ucast x) (ucast y)"

definition vterm_up :: "u32 \<Rightarrow> vram \<Rightarrow> vram" where
  "vterm_up delta = vram_deltaxy 0 (sint (- delta))"

definition vterm_down :: "u32 \<Rightarrow> vram \<Rightarrow> vram" where
  "vterm_down delta = vram_deltaxy 0 (sint (- delta))"

definition vterm_right :: "u32 \<Rightarrow> vram \<Rightarrow> vram" where
  "vterm_right delta = vram_deltaxy (sint delta) 0"

definition vterm_left :: "u32 \<Rightarrow> vram \<Rightarrow> vram" where
  "vterm_left delta = vram_deltaxy (sint (- delta)) 0"

primrec vterm_putstr :: "u8 list \<Rightarrow> vram \<Rightarrow> c_fault + vram" where
  "vterm_putstr [] s = Inr s"
| "vterm_putstr (c # cs) s = ebind (vram_putchar c s) (vterm_putstr cs)"

definition vterm_reset :: "vram \<Rightarrow> vram" where
  "vterm_reset s =
     vterm_gotoxy 0 0 (vram_clrscr (vram_set_last_line (int VRAM_LINES - 1) (vram_set_cursor 1
       (vram_set_color VRAM_COL_DEFAULT VRAM_COL_DEFAULT (vram_set_mode 0 s)))))"

end
