(* ===== verification/Vram_Screen.thy ===== *)
theory Vram_Screen
  imports Vram
begin

text \<open>
  What the screen of \<^verbatim>\<open>Vram\<close> shows. The invariant of the screen, which inputs keep inside the memory,
  the lines shown after a text has been written, the escape sequences of \<^verbatim>\<open>term.c\<close> on this screen, and
  boxes, which give the screen back when they are closed.
\<close>

subsection \<open>Rows\<close>

definition vram_row :: "vram \<Rightarrow> nat \<Rightarrow> u16 list" where
  "vram_row s r = take VRAM_COLS (drop (VRAM_COLS * r) (v_cells s))"

definition vram_ok :: "vram \<Rightarrow> bool" where
  "vram_ok s \<longleftrightarrow> length (v_cells s) = VRAM_CHARS \<and> length (v_ansi_inbuf s) = VRAM_INBUF \<and>
     unat (v_cx s) \<le> VRAM_COLS \<and> v_cy s \<le> v_last_line s \<and> unat (v_last_line s) < VRAM_LINES \<and>
     v_ansi_brightness s \<in> {0, 8}"

lemma length_vram_row [simp]: "length (v_cells s) = VRAM_CHARS \<Longrightarrow> r < VRAM_LINES \<Longrightarrow> length (vram_row s r) = VRAM_COLS"
  by (simp add: vram_row_def)

lemma nth_vram_row:
  "length (v_cells s) = VRAM_CHARS \<Longrightarrow> r < VRAM_LINES \<Longrightarrow> x < VRAM_COLS \<Longrightarrow> vram_row s r ! x = v_cells s ! (VRAM_COLS * r + x)"
  by (simp add: vram_row_def)

text \<open>A cell of the screen by its row and column.\<close>

lemma cell_index_eq: "x < VRAM_COLS \<Longrightarrow> x' < VRAM_COLS \<Longrightarrow> VRAM_COLS * r + x = VRAM_COLS * r' + x' \<longleftrightarrow> r = r' \<and> x = x'"
  by (auto simp: mult.commute dest: arg_cong [of _ _ "\<lambda>k. k div VRAM_COLS"] arg_cong [of _ _ "\<lambda>k. k mod VRAM_COLS"])

lemma putchar_internal_row:
  assumes "length (v_cells s) = VRAM_CHARS" "x < VRAM_COLS" "y < VRAM_LINES"
  shows "\<exists>cs. vram_putchar_internal (int x) (int y) c s = Inr (s\<lparr>v_cells := cs\<rparr>) \<and> length cs = VRAM_CHARS \<and>
    (\<forall>r<VRAM_LINES. vram_row (s\<lparr>v_cells := cs\<rparr>) r =
       (if r = y then (vram_row s r)[x := vram_cell c (v_crt_attr s)] else vram_row s r))"
proof -
  let ?a = "VRAM_COLS * y + x" and ?c = "vram_cell c (v_crt_attr s)"
  have a: "nat (VRAM_CHARADDR (int x) (int y)) = ?a" "\<not> VRAM_CHARADDR (int x) (int y) < 0" "?a < VRAM_CHARS"
    using assms(2,3) by (simp_all add: VRAM_CHARADDR_def nat_add_distrib nat_mult_distrib)
  define cs where "cs = overwrite (v_cells s) ?a [?c]"
  have cs: "cs = (v_cells s)[?a := ?c]"
    using assms(1) a(3) overwrite_snoc [of ?a "[]" "v_cells s" ?c] by (simp add: cs_def)
  have "vram_row (s\<lparr>v_cells := cs\<rparr>) r = (if r = y then (vram_row s r)[x := ?c] else vram_row s r)"
    if "r < VRAM_LINES" for r
    using that assms a(3)
    by (auto simp: list_eq_iff_nth_eq nth_vram_row cs nth_list_update cell_index_eq)
  then show ?thesis
    using a assms(1) by (intro exI [of _ cs]) (simp add: vram_putchar_internal_def vram_store_def cs cs_def [symmetric])
qed

lemma clear_line_row:
  assumes "length (v_cells s) = VRAM_CHARS" "y < VRAM_LINES"
  shows "\<exists>cs. vram_clear_line (int y) s = Inr (s\<lparr>v_cells := cs\<rparr>) \<and> length cs = VRAM_CHARS \<and>
    (\<forall>r<VRAM_LINES. vram_row (s\<lparr>v_cells := cs\<rparr>) r = (if r = y then replicate VRAM_COLS (vram_blank s) else vram_row s r))"
proof -
  have a: "nat (VRAM_CHARADDR 0 (int y)) = VRAM_COLS * y" "\<not> VRAM_CHARADDR 0 (int y) < 0"
    using assms(2) by (simp_all add: VRAM_CHARADDR_def nat_mult_distrib)
  define cs where "cs = overwrite (v_cells s) (VRAM_COLS * y) (replicate VRAM_COLS (vram_blank s))"
  have len: "VRAM_COLS * y + VRAM_COLS \<le> VRAM_CHARS" using assms(2) by simp
  have "vram_row (s\<lparr>v_cells := cs\<rparr>) r = (if r = y then replicate VRAM_COLS (vram_blank s) else vram_row s r)"
    if "r < VRAM_LINES" for r
  proof (cases "r = y")
    case True
    then show ?thesis using take_drop_overwrite_same [of "VRAM_COLS * y" "replicate VRAM_COLS (vram_blank s)" "v_cells s"]
      assms(1) len by (simp add: vram_row_def cs_def)
  next
    case False
    then have "VRAM_COLS * r + VRAM_COLS \<le> VRAM_COLS * y \<or> VRAM_COLS * y + VRAM_COLS \<le> VRAM_COLS * r" by auto
    then show ?thesis using take_drop_overwrite_other [of "VRAM_COLS * y" "replicate VRAM_COLS (vram_blank s)" "v_cells s"
      "VRAM_COLS * r" VRAM_COLS] assms(1) len that False by (simp add: vram_row_def cs_def)
  qed
  then show ?thesis
    using a assms(1) len by (intro exI [of _ cs]) (simp add: vram_clear_line_def vram_store_def cs_def [symmetric], simp add: cs_def)
qed

text \<open>Scrolling: the rows move up and the last one is cleared; the rows below are left.\<close>

lemma scroll_rows:
  assumes "length (v_cells s) = VRAM_CHARS" "unat (v_last_line s) < VRAM_LINES"
  shows "\<exists>cs. vram_scroll s = Inr (s\<lparr>v_cells := cs\<rparr>) \<and> length cs = VRAM_CHARS \<and>
    (\<forall>r<VRAM_LINES. vram_row (s\<lparr>v_cells := cs\<rparr>) r =
       (if r < unat (v_last_line s) then vram_row s (r + 1)
        else if r = unat (v_last_line s) then replicate VRAM_COLS (vram_blank s) else vram_row s r))"
proof -
  let ?l = "unat (v_last_line s)"
  let ?n = "?l * VRAM_COLS"
  define cs1 where "cs1 = overwrite (v_cells s) 0 (take ?n (drop VRAM_COLS (v_cells s)))"
  define s1 where "s1 = s\<lparr>v_cells := cs1\<rparr>"
  have n: "VRAM_COLS + ?n \<le> VRAM_CHARS" using assms(2) by simp
  then have len1: "length cs1 = VRAM_CHARS" using assms(1) by (simp add: cs1_def)
  have row1: "vram_row s1 r = (if r < ?l then vram_row s (r + 1) else vram_row s r)" if "r < VRAM_LINES" for r
  proof (rule nth_equalityI)
    show "length (vram_row s1 r) = length (if r < ?l then vram_row s (r + 1) else vram_row s r)"
      using that assms len1 by (simp add: s1_def)
    fix x assume "x < length (vram_row s1 r)"
    then have x: "x < VRAM_COLS" using that len1 by (simp add: s1_def)
    have "cs1 ! (VRAM_COLS * r + x) = (if VRAM_COLS * r + x < ?n then v_cells s ! (VRAM_COLS + (VRAM_COLS * r + x)) else v_cells s ! (VRAM_COLS * r + x))"
      using assms(1) n that x by (simp add: cs1_def nth_overwrite)
    moreover have "VRAM_COLS * r + x < ?n \<longleftrightarrow> r < ?l" using x by auto
    ultimately show "vram_row s1 r ! x = (if r < ?l then vram_row s (r + 1) else vram_row s r) ! x"
      using that x assms len1 by (simp add: nth_vram_row s1_def algebra_simps)
  qed
  have "vram_store 0 (take ?n (drop VRAM_COLS (v_cells s))) s = Inr s1"
    using n assms(1) by (simp add: vram_store_def s1_def cs1_def)
  then have "vram_scroll s = vram_clear_line (int ?l) s1" using n assms(1) by (simp add: vram_scroll_def)
  moreover obtain cs where "vram_clear_line (int ?l) s1 = Inr (s1\<lparr>v_cells := cs\<rparr>)" "length cs = VRAM_CHARS"
    "\<forall>r<VRAM_LINES. vram_row (s1\<lparr>v_cells := cs\<rparr>) r = (if r = ?l then replicate VRAM_COLS (vram_blank s1) else vram_row s1 r)"
    using clear_line_row [of s1 ?l] len1 assms(2) by (auto simp: s1_def)
  ultimately show ?thesis
    using row1 by (intro exI [of _ cs]) (auto simp: s1_def vram_row_def)
qed


subsection \<open>The invariant\<close>

text \<open>Paging only counts lines and waits for keys.\<close>

lemma vram_page_fields [simp]:
  "v_cells (vram_page s) = v_cells s" "v_cx (vram_page s) = v_cx s" "v_cy (vram_page s) = v_cy s"
  "v_last_line (vram_page s) = v_last_line s" "v_crt_attr (vram_page s) = v_crt_attr s" "v_mode (vram_page s) = v_mode s"
  "v_reading_ansi (vram_page s) = v_reading_ansi s" "v_ansi_inbuf (vram_page s) = v_ansi_inbuf s"
  "v_ansi_count (vram_page s) = v_ansi_count s" "v_ansi_brightness (vram_page s) = v_ansi_brightness s"
  by (simp_all add: vram_page_def Let_def)

text \<open>The fields that printing leaves alone.\<close>

definition vram_same :: "vram \<Rightarrow> vram \<Rightarrow> bool" where
  "vram_same s t \<longleftrightarrow> v_last_line t = v_last_line s \<and> v_crt_attr t = v_crt_attr s \<and> v_mode t = v_mode s \<and>
     v_reading_ansi t = v_reading_ansi s \<and> v_ansi_inbuf t = v_ansi_inbuf s \<and> v_ansi_count t = v_ansi_count s \<and>
     v_ansi_brightness t = v_ansi_brightness s"

lemma vram_same_refl [simp]: "vram_same s s"
  by (simp add: vram_same_def)

lemma vram_same_trans: "vram_same s t \<Longrightarrow> vram_same t u \<Longrightarrow> vram_same s u"
  by (simp add: vram_same_def)

lemma vram_newline_rows:
  assumes "vram_ok s"
  shows "\<exists>t. vram_newline s = Inr t \<and> vram_ok t \<and> vram_same s t \<and> v_cx t = 0 \<and>
    v_cy t = (if v_cy s = v_last_line s then v_cy s else v_cy s + 1) \<and>
    (\<forall>r\<le>unat (v_last_line s). vram_row t r =
       (if v_cy s = v_last_line s then (if r < unat (v_last_line s) then vram_row s (r + 1) else replicate VRAM_COLS (vram_blank s))
        else vram_row s r))"
proof (cases "v_cy s = v_last_line s")
  case True
  obtain cs where cs: "vram_scroll (s\<lparr>v_cx := 0\<rparr>) = Inr (s\<lparr>v_cx := 0, v_cells := cs\<rparr>)" "length cs = VRAM_CHARS"
    "\<And>r. r < VRAM_LINES \<Longrightarrow> vram_row (s\<lparr>v_cx := 0, v_cells := cs\<rparr>) r =
       (if r < unat (v_last_line s) then vram_row s (r + 1)
        else if r = unat (v_last_line s) then replicate VRAM_COLS (vram_blank s) else vram_row s r)"
    using scroll_rows [of "s\<lparr>v_cx := 0\<rparr>"] assms by (auto simp: vram_ok_def vram_row_def)
  define t where "t = vram_page (s\<lparr>v_cx := 0, v_cells := cs\<rparr>)"
  have "vram_newline s = Inr t" using True cs(1) by (simp add: vram_newline_def t_def)
  moreover have "vram_row t r = vram_row (s\<lparr>v_cx := 0, v_cells := cs\<rparr>) r" for r by (simp add: t_def vram_row_def)
  ultimately show ?thesis using True cs(2,3) assms
    by (intro exI [of _ t]) (auto simp: vram_ok_def vram_same_def t_def)
next
  case False
  define t where "t = vram_page (s\<lparr>v_cx := 0, v_cy := v_cy s + 1\<rparr>)"
  have "v_cy s < v_last_line s" using False assms by (auto simp: vram_ok_def order_less_le)
  then have "v_cy s + 1 \<le> v_last_line s" by (rule inc_le)
  then show ?thesis using False assms
    by (intro exI [of _ t]) (simp add: vram_newline_def t_def vram_ok_def vram_same_def vram_row_def)
qed

lemma vram_ok_bounds:
  "vram_ok s \<Longrightarrow> unat (v_cy s) < VRAM_LINES" "vram_ok s \<Longrightarrow> unat (v_cy s) \<le> unat (v_last_line s)"
  by (auto simp: vram_ok_def word_le_nat_alt)

text \<open>A visible character in a line that has room, and at the end of a line.\<close>

lemma vram_put_plain_room:
  assumes "vram_ok s" "unat (v_cx s) < VRAM_COLS"
  shows "\<exists>t. vram_put_plain c s = Inr t \<and> vram_ok t \<and> vram_same s t \<and> unat (v_cx t) = unat (v_cx s) + 1 \<and> v_cy t = v_cy s \<and>
    (\<forall>r<VRAM_LINES. vram_row t r =
       (if r = unat (v_cy s) then (vram_row s r)[unat (v_cx s) := vram_cell c (v_crt_attr s)] else vram_row s r))"
proof -
  obtain cs where cs: "vram_putchar_internal (int (unat (v_cx s))) (int (unat (v_cy s))) c s = Inr (s\<lparr>v_cells := cs\<rparr>)"
    "length cs = VRAM_CHARS"
    "\<And>r. r < VRAM_LINES \<Longrightarrow> vram_row (s\<lparr>v_cells := cs\<rparr>) r =
       (if r = unat (v_cy s) then (vram_row s r)[unat (v_cx s) := vram_cell c (v_crt_attr s)] else vram_row s r)"
    using putchar_internal_row [of s "unat (v_cx s)" "unat (v_cy s)" c] assms vram_ok_bounds [OF assms(1)]
    by (auto simp: vram_ok_def)
  define t where "t = s\<lparr>v_cells := cs, v_cx := v_cx s + 1\<rparr>"
  have "vram_put_plain c s = Inr t"
    using assms(2) cs(1) by (simp add: vram_put_plain_def t_def word_le_nat_alt)
  moreover have u: "unat (v_cx s + 1) = unat (v_cx s) + 1" using assms(2) by (simp add: unat_word_ariths)
  moreover have "vram_ok t" using assms cs(2) u by (simp add: vram_ok_def t_def)
  moreover have "vram_row t r = vram_row (s\<lparr>v_cells := cs\<rparr>) r" for r by (simp add: t_def vram_row_def)
  ultimately show ?thesis using cs(3) by (intro exI [of _ t]) (simp add: t_def vram_same_def)
qed

lemma vram_put_plain_wraps:
  assumes "vram_ok s" "unat (v_cx s) = VRAM_COLS" "vram_newline s = Inr s1"
  shows "vram_put_plain c s = vram_put_plain c s1"
proof -
  have cx: "v_cx s1 = 0" using vram_newline_rows [OF assms(1)] assms(3) by auto
  then have same: "s1\<lparr>v_cx := 0\<rparr> = s1" by simp
  show ?thesis using cx assms(2,3) by (simp add: vram_put_plain_def word_le_nat_alt) (simp only: same)
qed

subsection \<open>The lines of a text\<close>

text \<open>Tabs are four spaces; the lines are cut after 80 characters.\<close>

definition tty_expand :: "u8 list \<Rightarrow> u8 list" where
  "tty_expand tx = concat (map (\<lambda>c. if c = 9 then replicate VRAM_TAB_SIZE 0x20 else [c]) tx)"

fun tty_split :: "u8 list \<Rightarrow> u8 list list" where
  "tty_split [] = [[]]"
| "tty_split (c # cs) = (if c = 0x0A then [] # tty_split cs else (c # hd (tty_split cs)) # tl (tty_split cs))"

function tty_cut :: "u8 list \<Rightarrow> u8 list list" where
  "tty_cut xs = (if length xs \<le> VRAM_COLS then [xs] else take VRAM_COLS xs # tty_cut (drop VRAM_COLS xs))"
  by auto
termination by (relation "measure length") auto

declare tty_cut.simps [simp del]

definition tty_lines :: "u8 list \<Rightarrow> u8 list list" where
  "tty_lines tx = concat (map tty_cut (tty_split (tty_expand tx)))"

text \<open>The same lines character by character, from the line that is being written.\<close>

fun tty_wrap :: "u8 list \<Rightarrow> u8 list \<Rightarrow> u8 list list" where
  "tty_wrap cur [] = [cur]"
| "tty_wrap cur (c # cs) =
     (if c = 0x0A then cur # tty_wrap [] cs
      else if length cur \<ge> VRAM_COLS then cur # tty_wrap [c] cs
      else tty_wrap (cur @ [c]) cs)"

lemma tty_split_not_Nil [simp]: "tty_split cs \<noteq> []"
  by (cases cs) auto

lemma tty_wrap_cut:
  "length cur \<le> VRAM_COLS \<Longrightarrow>
   tty_wrap cur cs = tty_cut (cur @ hd (tty_split cs)) @ concat (map tty_cut (tl (tty_split cs)))"
proof (induction cs arbitrary: cur)
  case Nil
  then show ?case by (simp add: tty_cut.simps [of cur])
next
  case (Cons c cs)
  have all: "tty_cut (hd (tty_split cs)) @ concat (map tty_cut (tl (tty_split cs))) = concat (map tty_cut (tty_split cs))"
    by (cases "tty_split cs") auto
  show ?case
  proof (cases "c = 0x0A")
    case True
    then show ?thesis using Cons.IH [of "[]"] Cons.prems all by (simp add: tty_cut.simps [of cur])
  next
    case False
    show ?thesis
    proof (cases "length cur \<ge> VRAM_COLS")
      case True
      then have "tty_cut (cur @ c # hd (tty_split cs)) = cur # tty_cut (c # hd (tty_split cs))"
        using Cons.prems by (simp add: tty_cut.simps [of "cur @ c # hd (tty_split cs)"])
      then show ?thesis using False True Cons.IH [of "[c]"] by simp
    next
      case len: False
      then show ?thesis using False Cons.IH [of "cur @ [c]"] by simp
    qed
  qed
qed

lemma tty_lines_wrap: "tty_lines tx = tty_wrap [] (tty_expand tx)"
  by (cases "tty_split (tty_expand tx)") (auto simp: tty_lines_def tty_wrap_cut)


definition tty_char :: "u8 list list \<Rightarrow> u8 \<Rightarrow> u8 list list" where
  "tty_char ls c =
     (if c = 0x0A then ls @ [[]]
      else if length (last ls) \<ge> VRAM_COLS then ls @ [[c]]
      else butlast ls @ [last ls @ [c]])"

lemma tty_char_fold: "foldl tty_char (up @ [cur]) cs = up @ tty_wrap cur cs"
proof (induction cs arbitrary: up cur)
  case Nil
  then show ?case by simp
next
  case (Cons c cs)
  show ?case
    using Cons.IH [of "up @ [cur]" "[]"] Cons.IH [of "up @ [cur]" "[c]"] Cons.IH [of up "cur @ [c]"]
    by (simp add: tty_char_def)
qed

lemma tty_char_not_Nil [simp]: "tty_char ls c \<noteq> []"
  by (simp add: tty_char_def)

subsection \<open>The lines on the screen\<close>

definition tty_row :: "u8 \<Rightarrow> u8 list \<Rightarrow> u16 list" where
  "tty_row attr l = map (\<lambda>c. vram_cell c attr) l @ replicate (VRAM_COLS - length l) (vram_cell 0x20 attr)"

text \<open>The last \<open>n\<close> lines from the top of the screen, blank lines below.\<close>

definition tty_shown :: "nat \<Rightarrow> u8 \<Rightarrow> u8 list list \<Rightarrow> u16 list list" where
  "tty_shown n attr ls =
     (let v = drop (length ls - n) ls in map (tty_row attr) v @ replicate (n - length v) (tty_row attr []))"

lemma tty_shown_nth:
  "r < n \<Longrightarrow> tty_shown n attr ls ! r = (if length ls - n + r < length ls then tty_row attr (ls ! (length ls - n + r)) else tty_row attr [])"
  by (auto simp: tty_shown_def nth_append Let_def)

lemma length_tty_shown [simp]: "length (tty_shown n attr ls) = n"
  by (simp add: tty_shown_def Let_def)

lemma tty_row_Nil: "tty_row attr [] = replicate VRAM_COLS (vram_cell 0x20 attr)"
  by (simp add: tty_row_def)

lemma tty_row_snoc:
  "length l < VRAM_COLS \<Longrightarrow> tty_row attr (l @ [c]) = (tty_row attr l)[length l := vram_cell c attr]"
  by (rule nth_equalityI) (auto simp: tty_row_def nth_append nth_list_update)

definition vram_shows :: "u8 list list \<Rightarrow> vram \<Rightarrow> bool" where
  "vram_shows ls s \<longleftrightarrow> vram_ok s \<and> ls \<noteq> [] \<and> unat (v_cx s) = length (last ls) \<and>
     unat (v_cy s) = min (length ls - 1) (unat (v_last_line s)) \<and>
     (\<forall>r\<le>unat (v_last_line s). vram_row s r = tty_shown (unat (v_last_line s) + 1) (v_crt_attr s) ls ! r)"

lemma vram_shows_newline:
  assumes "vram_shows ls s"
  shows "\<exists>t. vram_newline s = Inr t \<and> vram_same s t \<and> vram_shows (ls @ [[]]) t"
proof -
  let ?l = "unat (v_last_line s)"
  have ok: "vram_ok s" and ne: "ls \<noteq> []" and cy: "unat (v_cy s) = min (length ls - 1) ?l"
    and rows: "\<And>r. r \<le> ?l \<Longrightarrow> vram_row s r = tty_shown (?l + 1) (v_crt_attr s) ls ! r"
    using assms by (auto simp: vram_shows_def)
  obtain t where t: "vram_newline s = Inr t" "vram_ok t" "vram_same s t" "v_cx t = 0"
    "v_cy t = (if v_cy s = v_last_line s then v_cy s else v_cy s + 1)"
    "\<And>r. r \<le> ?l \<Longrightarrow> vram_row t r =
       (if v_cy s = v_last_line s then (if r < ?l then vram_row s (r + 1) else replicate VRAM_COLS (vram_blank s))
        else vram_row s r)"
    using vram_newline_rows [OF ok] by blast
  have full: "v_cy s = v_last_line s \<longleftrightarrow> ?l < length ls"
    using cy ne by (cases ls) (auto simp: word_unat_eq_iff)
  have "vram_row t r = tty_shown (?l + 1) (v_crt_attr s) (ls @ [[]]) ! r" if r: "r \<le> ?l" for r
  proof (cases "v_cy s = v_last_line s")
    case True
    then have len: "?l < length ls" using full by simp
    show ?thesis
    proof (cases "r < ?l")
      case True
      then have "length ls - (?l + 1) + (r + 1) = Suc (length ls) - (?l + 1) + r" "length ls - (?l + 1) + (r + 1) < length ls"
        using len by simp_all
      then show ?thesis
        using t(6) [OF r] rows [of "r + 1"] True \<open>v_cy s = v_last_line s\<close> len
        by (simp add: tty_shown_nth nth_append)
    next
      case False
      then have "r = ?l" using r by simp
      then show ?thesis
        using t(6) [OF r] \<open>v_cy s = v_last_line s\<close> len by (simp add: tty_shown_nth nth_append tty_row_Nil)
    qed
  next
    case False
    then have "length ls \<le> ?l" using full by simp
    then show ?thesis
      using t(6) [OF r] rows [OF r] False r
      by (simp add: tty_shown_nth nth_append)
  qed
  moreover have "unat (v_cy t) = min (length (ls @ [[]]) - 1) ?l"
  proof (cases "v_cy s = v_last_line s")
    case False
    then have "v_cy s < v_last_line s" using ok by (auto simp: vram_ok_def order_less_le)
    then have "unat (v_cy s + 1) = unat (v_cy s) + 1"
      using unat_lt_u8 [of "v_last_line s"] by (simp add: unat_word_ariths word_less_nat_alt)
    with False full cy t(5) ne show ?thesis by (cases ls) auto
  qed (use full t(5) in simp)
  ultimately show ?thesis using t by (auto simp: vram_shows_def vram_same_def)
qed

lemma vram_shows_room:
  assumes "vram_shows ls s" "length (last ls) < VRAM_COLS"
  shows "\<exists>t. vram_put_plain c s = Inr t \<and> vram_same s t \<and> vram_shows (butlast ls @ [last ls @ [c]]) t"
proof -
  let ?l = "unat (v_last_line s)"
  define ls' where "ls' = butlast ls @ [last ls @ [c]]"
  have ok: "vram_ok s" and ne: "ls \<noteq> []" and cx: "unat (v_cx s) = length (last ls)"
    and cy: "unat (v_cy s) = min (length ls - 1) ?l"
    and rows: "\<And>r. r \<le> ?l \<Longrightarrow> vram_row s r = tty_shown (?l + 1) (v_crt_attr s) ls ! r"
    using assms by (auto simp: vram_shows_def)
  obtain t where t: "vram_put_plain c s = Inr t" "vram_ok t" "vram_same s t" "unat (v_cx t) = unat (v_cx s) + 1"
    "v_cy t = v_cy s"
    "\<And>r. r < VRAM_LINES \<Longrightarrow> vram_row t r =
       (if r = unat (v_cy s) then (vram_row s r)[unat (v_cx s) := vram_cell c (v_crt_attr s)] else vram_row s r)"
    using vram_put_plain_room [OF ok] assms(2) cx by fastforce
  have len: "length ls' = length ls" using ne by (cases ls rule: rev_cases) (auto simp: ls'_def)
  have nth: "ls' ! i = (if i = length ls - 1 then last ls @ [c] else ls ! i)" if "i < length ls" for i
    using that ne by (auto simp: ls'_def nth_append nth_butlast)
  have lst: "last ls = ls ! (length ls - 1)" using ne by (rule last_conv_nth)
  have "vram_row t r = tty_shown (?l + 1) (v_crt_attr s) ls' ! r" if r: "r \<le> ?l" for r
  proof -
    let ?i = "length ls - (?l + 1) + r"
    have "r < VRAM_LINES" using r ok by (simp add: vram_ok_def)
    note row = t(6) [OF this] rows [OF r]
    have at: "r = unat (v_cy s) \<longleftrightarrow> ?i = length ls - 1" using cy r ne by (cases ls) auto
    show ?thesis
    proof (cases "r = unat (v_cy s)")
      case True
      then have i: "?i = length ls - 1" "?i < length ls" using at ne by (cases ls; simp)+
      have "tty_shown (?l + 1) (v_crt_attr s) ls ! r = tty_row (v_crt_attr s) (last ls)"
        using i r lst by (simp add: tty_shown_nth)
      moreover have "tty_shown (?l + 1) (v_crt_attr s) ls' ! r = tty_row (v_crt_attr s) (last ls @ [c])"
        using i r nth [of ?i] by (simp add: tty_shown_nth len)
      ultimately show ?thesis using row True assms(2) cx by (simp add: tty_row_snoc)
    next
      case False
      then have "ls' ! ?i = ls ! ?i" if "?i < length ls" using at nth that by simp
      then show ?thesis using row r False by (cases "?i < length ls") (simp_all add: tty_shown_nth len)
    qed
  qed
  then show ?thesis using t cx cy len ne unfolding ls'_def [symmetric] by (auto simp: vram_shows_def vram_same_def ls'_def)
qed

lemma vram_shows_put:
  assumes "vram_shows ls s" "c \<noteq> 0x0A"
  shows "\<exists>t. vram_put_plain c s = Inr t \<and> vram_same s t \<and> vram_shows (tty_char ls c) t"
proof (cases "length (last ls) < VRAM_COLS")
  case True
  then show ?thesis using vram_shows_room [OF assms(1) True, of c] assms(2) by (simp add: tty_char_def)
next
  case False
  have "unat (v_cx s) = VRAM_COLS" "vram_ok s" using assms(1) False by (auto simp: vram_shows_def vram_ok_def)
  moreover obtain s1 where s1: "vram_newline s = Inr s1" "vram_same s s1" "vram_shows (ls @ [[]]) s1"
    using vram_shows_newline [OF assms(1)] by blast
  ultimately have "vram_put_plain c s = vram_put_plain c s1" using vram_put_plain_wraps by blast
  with vram_shows_room [OF s1(3), of c] False assms(2) vram_same_trans [OF s1(2)] show ?thesis
    by (fastforce simp: tty_char_def)
qed


text \<open>Outside escape sequences and in the plain mode every character but CR and BS adds to the lines.\<close>

abbreviation vram_plain :: "vram \<Rightarrow> bool" where
  "vram_plain s \<equiv> \<not> v_reading_ansi s \<and> v_mode s = TERM_MODE_ASCII"

lemma vram_same_plain: "vram_same s t \<Longrightarrow> vram_plain s \<Longrightarrow> vram_plain t"
  by (simp add: vram_same_def)

lemma vram_shows_char:
  assumes "vram_shows ls s" "vram_plain s" "c \<notin> {0x1B, 0x0D, 8, 9}"
  shows "\<exists>t. vram_putchar c s = Inr t \<and> vram_same s t \<and> vram_shows (tty_char ls c) t"
proof (cases "c = 0x0A")
  case True
  then show ?thesis using vram_shows_newline [OF assms(1)] assms(2) by (simp add: vram_putchar_def tty_char_def)
next
  case False
  then show ?thesis using vram_shows_put [OF assms(1) False] assms(2,3)
    by (simp add: vram_putchar_def vram_put_visible_def)
qed

lemma vterm_putstr_append: "vterm_putstr (xs @ ys) s = ebind (vterm_putstr xs s) (vterm_putstr ys)"
proof (induction xs arbitrary: s)
  case (Cons x xs)
  then show ?case by (cases "vram_putchar x s") simp_all
qed simp

lemma vram_shows_string:
  "vram_shows ls s \<Longrightarrow> vram_plain s \<Longrightarrow> set cs \<inter> {0x1B, 0x0D, 8, 9} = {} \<Longrightarrow>
   \<exists>t. vterm_putstr cs s = Inr t \<and> vram_same s t \<and> vram_shows (foldl tty_char ls cs) t"
proof (induction cs arbitrary: ls s)
  case (Cons c cs)
  then obtain t where t: "vram_putchar c s = Inr t" "vram_same s t" "vram_shows (tty_char ls c) t"
    using vram_shows_char [of ls s c] by auto
  then show ?case
    using Cons.IH [OF t(3) vram_same_plain [OF t(2) Cons.prems(2)]] Cons.prems(3) vram_same_trans [OF t(2)] by fastforce
qed simp

lemma vram_tab:
  assumes "vram_shows ls s" "vram_plain s"
  shows "vram_putchar 9 s = vterm_putstr (replicate VRAM_TAB_SIZE 0x20) s"
proof -
  have "vram_shows ls s \<Longrightarrow> vram_plain s \<Longrightarrow> vram_repeat n (vram_put_visible 0x20) s = vterm_putstr (replicate n 0x20) s" for n
  proof (induction n arbitrary: ls s)
    case (Suc n)
    have same: "vram_putchar 0x20 s = vram_put_visible 0x20 s" using Suc.prems(2) by (simp add: vram_putchar_def)
    obtain t where t: "vram_putchar 0x20 s = Inr t" "vram_same s t" "vram_shows (tty_char ls 0x20) t"
      using vram_shows_char [of ls s "0x20"] Suc.prems by auto
    then show ?case using Suc.IH [OF t(3) vram_same_plain [OF t(2) Suc.prems(2)]] same by simp
  qed simp
  then show ?thesis using assms by (simp add: vram_putchar_def)
qed

lemma vram_shows_text:
  "vram_shows ls s \<Longrightarrow> vram_plain s \<Longrightarrow> set tx \<inter> {0x1B, 0x0D, 8} = {} \<Longrightarrow>
   \<exists>t. vterm_putstr tx s = Inr t \<and> vram_same s t \<and> vram_shows (foldl tty_char ls (tty_expand tx)) t"
proof (induction tx arbitrary: ls s)
  case Nil
  then show ?case by (simp add: tty_expand_def)
next
  case (Cons c tx)
  let ?cs = "if c = 9 then replicate VRAM_TAB_SIZE 0x20 else [c]"
  have "vram_putchar c s = vterm_putstr ?cs s"
    using vram_tab [OF Cons.prems(1,2)] by (cases "vram_putchar c s") auto
  moreover have "set ?cs \<inter> {0x1B, 0x0D, 8, 9} = {}" using Cons.prems(3) by auto
  ultimately obtain t where t: "vram_putchar c s = Inr t" "vram_same s t" "vram_shows (foldl tty_char ls ?cs) t"
    using vram_shows_string [OF Cons.prems(1,2)] by metis
  have e: "tty_expand (c # tx) = ?cs @ tty_expand tx" by (simp add: tty_expand_def)
  have "set tx \<inter> {0x1B, 0x0D, 8} = {}" using Cons.prems(3) by auto
  from Cons.IH [OF t(3) vram_same_plain [OF t(2) Cons.prems(2)] this] obtain u where
    "vterm_putstr tx t = Inr u" "vram_same t u" "vram_shows (foldl tty_char (foldl tty_char ls ?cs) (tty_expand tx)) u" by blast
  then show ?case
    using t(1) vram_same_trans [OF t(2)] by (intro exI [of _ u]) (simp only: vterm_putstr.simps ebind_simps e foldl_append)
qed

lemma vram_shows_clear: "vram_ok s \<Longrightarrow> vram_shows [[]] (vram_clrscr s)"
  by (auto simp: vram_shows_def vram_clrscr_def vram_ok_def vram_row_def tty_shown_nth tty_row_Nil)

text \<open>C19. The screen shows the end of what has been written: after clearing, for any text without escape,
  carriage return and backspace characters (and with any state of the paging), writing it does not
  fault, the lines of the screen up to the last one are the last lines of the text (with tabs
  expanded, cut after 80 characters) in the current colors with blank lines below, and the cursor
  stands behind the last character.\<close>

theorem vram_shows_end_of_text:
  assumes "vram_ok s" "\<not> v_reading_ansi s" "v_mode s = TERM_MODE_ASCII" "set tx \<inter> {0x1B, 0x0D, 8} = {}"
  shows "\<exists>t. vterm_putstr tx (vram_clrscr s) = Inr t \<and> vram_ok t \<and>
    map (vram_row t) [0..<unat (v_last_line s) + 1] = tty_shown (unat (v_last_line s) + 1) (v_crt_attr s) (tty_lines tx) \<and>
    unat (vram_get_cx t) = length (last (tty_lines tx)) \<and>
    unat (vram_get_cy t) = min (length (tty_lines tx) - 1) (unat (v_last_line s))"
proof -
  have plain: "vram_plain (vram_clrscr s)" using assms(2,3) by (simp add: vram_clrscr_def)
  obtain t where t: "vterm_putstr tx (vram_clrscr s) = Inr t" "vram_same (vram_clrscr s) t"
    "vram_shows (foldl tty_char [[]] (tty_expand tx)) t"
    using vram_shows_text [OF vram_shows_clear [OF assms(1)] plain assms(4)] by blast
  have "foldl tty_char [[]] (tty_expand tx) = tty_lines tx"
    using tty_char_fold [of "[]" "[]" "tty_expand tx"] by (simp add: tty_lines_wrap)
  then have shows_t: "vram_shows (tty_lines tx) t" using t(3) by simp
  have same: "v_last_line t = v_last_line s" "v_crt_attr t = v_crt_attr s"
    using t(2) by (simp_all add: vram_same_def vram_clrscr_def)
  have "map (vram_row t) [0..<unat (v_last_line s) + 1] = tty_shown (unat (v_last_line s) + 1) (v_crt_attr s) (tty_lines tx)"
    using shows_t same by (intro nth_equalityI) (simp_all add: vram_shows_def del: upt_Suc)
  then show ?thesis
    using t(1) shows_t same by (simp add: vram_shows_def vram_get_cx_def vram_get_cy_def)
qed


subsection \<open>Any output\<close>

lemma vram_set_color_fields [simp]:
  "v_cells (vram_set_color f b s) = v_cells s" "v_cx (vram_set_color f b s) = v_cx s" "v_cy (vram_set_color f b s) = v_cy s"
  "v_last_line (vram_set_color f b s) = v_last_line s" "v_ansi_inbuf (vram_set_color f b s) = v_ansi_inbuf s"
  "v_ansi_brightness (vram_set_color f b s) = v_ansi_brightness s" "v_mode (vram_set_color f b s) = v_mode s"
  "v_reading_ansi (vram_set_color f b s) = v_reading_ansi s" "v_ansi_count (vram_set_color f b s) = v_ansi_count s"
  by (simp_all add: vram_set_color_def Let_def)

text \<open>With the whole screen in use, the invariant and the height are kept.\<close>

definition vram_full :: "vram \<Rightarrow> bool" where
  "vram_full s \<longleftrightarrow> length (v_cells s) = VRAM_CHARS \<and> length (v_ansi_inbuf s) = VRAM_INBUF \<and>
     unat (v_cx s) \<le> VRAM_COLS \<and> v_cy s \<le> 29 \<and> v_last_line s = 29 \<and> v_ansi_brightness s \<in> {0, 8}"

lemma vram_full_ok: "vram_full s \<longleftrightarrow> vram_ok s \<and> v_last_line s = 29"
  by (auto simp: vram_full_def vram_ok_def)

lemma vram_full_cells: "vram_full s \<Longrightarrow> unat (v_cy s) \<le> 29 \<and> unat (v_cx s) \<le> VRAM_COLS \<and> length (v_cells s) = VRAM_CHARS"
  by (auto simp: vram_full_def word_le_nat_alt)

lemma vram_gotoxy_full: "vram_full s \<Longrightarrow> vram_full (vram_gotoxy x y s)"
proof -
  have "y < 30 \<Longrightarrow> y \<le> 29" for y :: u8 by (simp add: word_less_nat_alt word_le_nat_alt)
  moreover have "x < 80 \<Longrightarrow> unat x \<le> 80" for x :: u8 by (simp add: word_less_nat_alt)
  ultimately have xy: "y < 30 \<Longrightarrow> y \<le> 29" "x < 80 \<Longrightarrow> unat x \<le> 80" by blast+
  assume full: "vram_full s"
  define s1 where "s1 = (if x < of_nat VRAM_COLS then s\<lparr>v_cx := x\<rparr> else s)"
  have "vram_full s1" using full xy(2) by (simp add: vram_full_def s1_def)
  then have "vram_full (if y < of_nat VRAM_LINES then s1\<lparr>v_cy := y\<rparr> else s1)" using xy(1) by (simp add: vram_full_def)
  then show "vram_full (vram_gotoxy x y s)" by (simp only: vram_gotoxy_def s1_def Let_def)
qed

lemma vram_deltaxy_full: "vram_full s \<Longrightarrow> vram_full (vram_deltaxy dx dy s)"
  by (simp add: vram_deltaxy_def Let_def vram_gotoxy_full)

lemma vram_clrscr_full: "vram_full s \<Longrightarrow> vram_full (vram_clrscr s)"
  by (simp add: vram_full_def vram_clrscr_def)

lemma vram_set_color_full: "vram_full s \<Longrightarrow> vram_full (vram_set_color f b s)"
  by (simp add: vram_full_def)

lemma vram_clreol_full: "vram_full s \<Longrightarrow> \<exists>t. vram_clreol s = Inr t \<and> vram_full t"
proof -
  let ?a = "unat (v_cy s) * VRAM_COLS + unat (v_cx s)" and ?n = "VRAM_COLS - unat (v_cx s)"
  assume full: "vram_full s"
  then have "?a + ?n \<le> length (v_cells s)" using vram_full_cells [OF full] by simp
  then have "vram_clreol s = Inr (s\<lparr>v_cells := overwrite (v_cells s) ?a (replicate ?n (vram_blank s))\<rparr>)"
    "length (overwrite (v_cells s) ?a (replicate ?n (vram_blank s))) = length (v_cells s)"
    by (simp_all add: vram_clreol_def vram_store_def)
  then show "\<exists>t. vram_clreol s = Inr t \<and> vram_full t" using full by (simp add: vram_full_def)
qed

lemma vram_sgr_color_ok:
  assumes "0 \<le> i" "i \<le> 7" "b \<in> {0, 8}" "f \<in> {0, 8}"
  shows "\<exists>c. vram_sgr_color i b f = Inr c"
proof -
  have "(b OR f) \<in> {0, 8}" using assms(3,4) by auto
  then have "nat i + unat (b OR f) < length vram_ansi_col_lut" using assms(1,2) by (auto simp: vram_ansi_col_lut_def)
  then show ?thesis by (simp add: vram_sgr_color_def)
qed

lemma vram_sgr_apply_ok: "b \<in> {0, 8} \<Longrightarrow> \<exists>c. vram_sgr_apply (vram_sgr_param p) b cols = Inr c"
  using vram_sgr_color_ok [of "fst (vram_sgr_param p) - 40" b "snd (vram_sgr_param p)"]
    vram_sgr_color_ok [of "fst (vram_sgr_param p) - 30" b "snd (vram_sgr_param p)"]
  by (fastforce simp: vram_sgr_apply_def vram_sgr_param_def split: prod.splits if_splits)

lemma vram_ansi_sgr_full:
  assumes "vram_full s"
  shows "\<exists>t. vram_ansi_sgr p1 p2 s = Inr t \<and> vram_full t"
proof -
  have b: "v_ansi_brightness s \<in> {0, 8}" using assms by (simp add: vram_full_def)
  have bright: "vram_full (s\<lparr>v_ansi_brightness := 0\<rparr>)" "vram_full (s\<lparr>v_ansi_brightness := ANSI_COL_HALF_SIZE\<rparr>)"
    using assms by (simp_all add: vram_full_def)
  obtain c1 where c1: "vram_sgr_apply (vram_sgr_param p1) (v_ansi_brightness s) (VRAM_COL_DONT_CHANGE, VRAM_COL_DONT_CHANGE) = Inr c1"
    using vram_sgr_apply_ok [OF b] by blast
  obtain c2 where c2: "vram_sgr_apply (vram_sgr_param p2) (v_ansi_brightness s) c1 = Inr c2"
    using vram_sgr_apply_ok [OF b] by blast
  show ?thesis
    using assms bright by (simp add: vram_ansi_sgr_def Let_def c1 c2 vram_set_color_full)
qed

text \<open>The sequence that \<^verbatim>\<open>f\<close> and \<^verbatim>\<open>G\<close> end can leave the screen, all others cannot.\<close>

lemma vram_ansi_execute_full:
  assumes "vram_full s" "set (takeWhile (\<lambda>c. c \<noteq> 0) (v_ansi_inbuf s)) \<inter> {0x66, 0x47} = {}"
  shows "\<exists>t. vram_ansi_execute s = Inr t \<and> vram_full t"
proof (cases "vram_cvt_escape (v_ansi_inbuf s)")
  case None
  then show ?thesis using assms(1) by (simp add: vram_ansi_execute_def)
next
  case (Some ao)
  have home: "vram_full (s\<lparr>v_cx := 0, v_cy := 0\<rparr>)" using assms(1) by (simp add: vram_full_def)
  let ?str = "takeWhile (\<lambda>c. c \<noteq> 0) (v_ansi_inbuf s)"
  have "\<not> length ?str < 2" using Some by (auto simp: vram_cvt_escape_def Let_def)
  then have "last ?str \<in> set ?str" by (intro last_in_set) auto
  then have "last ?str \<noteq> 0x66" "last ?str \<noteq> 0x47" using assms(2) by auto
  with Some have "ao_op ao \<noteq> ANSI_SEQ_GOTOCOL" "ao_op ao = ANSI_SEQ_GOTOXY \<longrightarrow> ao_p1 ao = 1 \<and> ao_p2 ao = 1"
    by (auto simp: vram_cvt_escape_def Let_def split: if_splits)
  then show ?thesis
    using Some assms(1) home vram_clrscr_full vram_deltaxy_full vram_ansi_sgr_full vram_clreol_full
    by (auto simp: vram_ansi_execute_def split: vram_ansi_seq.splits)
qed

lemma vram_put_plain_full:
  assumes "vram_full s"
  shows "\<exists>t. vram_put_plain c s = Inr t \<and> vram_full t \<and> vram_same s t"
proof (cases "unat (v_cx s) < VRAM_COLS")
  case True
  then show ?thesis using vram_put_plain_room [of s c] assms by (auto simp: vram_full_ok vram_same_def)
next
  case False
  then have cx: "unat (v_cx s) = VRAM_COLS" using vram_full_cells [OF assms] by simp
  have ok: "vram_ok s" using assms by (simp add: vram_full_ok)
  obtain s1 where s1: "vram_newline s = Inr s1" "vram_ok s1" "vram_same s s1" "v_cx s1 = 0"
    using vram_newline_rows [OF ok] by blast
  moreover from this vram_put_plain_room [OF s1(2), of c] obtain t where
    "vram_put_plain c s1 = Inr t" "vram_ok t" "vram_same s1 t" by auto
  moreover have "vram_put_plain c s = vram_put_plain c s1" by (rule vram_put_plain_wraps [OF ok cx s1(1)])
  ultimately show ?thesis using vram_same_trans [OF s1(3)] assms by (auto simp: vram_full_ok vram_same_def)
qed

lemma vram_put_visible_full:
  assumes "vram_full s"
  shows "\<exists>t. vram_put_visible c s = Inr t \<and> vram_full t \<and> v_reading_ansi t = v_reading_ansi s"
  using vram_put_plain_full [OF assms, of c] vram_set_color_full [OF assms]
  by (auto simp: vram_put_visible_def vram_color_char_def vram_same_def)

lemma vram_backspace_full:
  assumes "vram_full s"
  shows "\<exists>t. vram_backspace s = Inr t \<and> vram_full t \<and> v_reading_ansi t = v_reading_ansi s"
proof -
  define s1 where "s1 = (if v_cx s = 0 then (if v_cy s > 0 then s\<lparr>v_cy := v_cy s - 1, v_cx := of_nat (VRAM_COLS - 1)\<rparr> else s)
    else s\<lparr>v_cx := v_cx s - 1\<rparr>)"
  note cells = vram_full_cells [OF assms]
  have pos: "unat (c - 1) = unat c - 1" if "c \<noteq> 0" for c :: u8 using that by (simp add: unat_minus_one)
  have "vram_full s1"
    using assms cells pos [of "v_cy s"] pos [of "v_cx s"]
    by (auto simp: s1_def vram_full_def word_le_nat_alt)
  moreover have "unat (v_cx s1) < VRAM_COLS" using cells pos [of "v_cx s"] by (auto simp: s1_def unat_gt_0)
  moreover have "v_reading_ansi s1 = v_reading_ansi s" by (simp add: s1_def)
  moreover have "vram_backspace s = vram_putchar_internal (int (unat (v_cx s1))) (int (unat (v_cy s1))) 0x20 s1"
    by (simp add: vram_backspace_def s1_def Let_def)
  moreover from calculation(1,2) obtain cs where
    "vram_putchar_internal (int (unat (v_cx s1))) (int (unat (v_cy s1))) 0x20 s1 = Inr (s1\<lparr>v_cells := cs\<rparr>)" "length cs = VRAM_CHARS"
    using putchar_internal_row [of s1 "unat (v_cx s1)" "unat (v_cy s1)" "0x20"] vram_full_cells [of s1] by auto
  ultimately show ?thesis by (intro exI [of _ "s1\<lparr>v_cells := cs\<rparr>"]) (simp add: vram_full_def)
qed

lemma vram_repeat_full:
  "vram_full s \<Longrightarrow> \<exists>t. vram_repeat n (vram_put_visible c) s = Inr t \<and> vram_full t \<and> v_reading_ansi t = v_reading_ansi s"
proof (induction n arbitrary: s)
  case (Suc n)
  from vram_put_visible_full [OF Suc.prems, of c] obtain t where
    t: "vram_put_visible c s = Inr t" "vram_full t" "v_reading_ansi t = v_reading_ansi s" by blast
  then show ?case using Suc.IH [OF t(2)] by simp
qed simp


text \<open>
  Between characters: while a sequence is read, its characters so far are in the buffer and none of
  them is a letter. \<open>vram_safe n cs\<close>: with \<open>n\<close> characters of a sequence read (0 for none), no sequence
  in \<open>cs\<close> is longer than the buffer or ends in \<^verbatim>\<open>f\<close> or \<^verbatim>\<open>G\<close>.
\<close>

definition vram_inv :: "vram \<Rightarrow> bool" where
  "vram_inv s \<longleftrightarrow> vram_full s \<and> (v_reading_ansi s \<longrightarrow> 0 < v_ansi_count s \<and>
     (\<forall>i<v_ansi_count s. i < VRAM_INBUF \<longrightarrow> \<not> c_isletter (v_ansi_inbuf s ! i)))"

definition vram_collected :: "vram \<Rightarrow> nat" where
  "vram_collected s = (if v_reading_ansi s then v_ansi_count s else 0)"

fun vram_safe :: "nat \<Rightarrow> u8 list \<Rightarrow> bool" where
  "vram_safe n [] = True"
| "vram_safe n (c # cs) =
     (if c = 0x1B then vram_safe 1 cs
      else if n = 0 then vram_safe 0 cs
      else if c_isletter c then n + 1 < VRAM_INBUF \<and> c \<noteq> 0x66 \<and> c \<noteq> 0x47 \<and> vram_safe 0 cs
      else n < VRAM_INBUF \<and> vram_safe (n + 1) cs)"

lemma vram_read_ansi_inv:
  assumes "vram_inv s" "v_reading_ansi s" "v_ansi_count s < VRAM_INBUF"
    "c_isletter c \<longrightarrow> v_ansi_count s + 1 < VRAM_INBUF \<and> c \<noteq> 0x66 \<and> c \<noteq> 0x47"
  shows "\<exists>t. vram_read_ansi c s = Inr t \<and> vram_inv t \<and>
    vram_collected t = (if c_isletter c then 0 else v_ansi_count s + 1)"
proof (cases "c_isletter c")
  case False
  then show ?thesis
    using assms by (auto simp: vram_read_ansi_def vram_inv_def vram_full_def vram_collected_def nth_list_update less_Suc_eq)
next
  case True
  let ?n = "v_ansi_count s"
  define buf where "buf = (v_ansi_inbuf s)[?n := c, ?n + 1 := 0]"
  define s1 where "s1 = s\<lparr>v_ansi_count := ?n + 1, v_ansi_inbuf := buf\<rparr>"
  have len: "length (v_ansi_inbuf s) = VRAM_INBUF" and full: "vram_full s1"
    using assms(1) by (auto simp: vram_inv_def vram_full_def s1_def buf_def)
  have n: "?n + 1 < VRAM_INBUF" using assms(4) True by simp
  have "x \<noteq> 0x66 \<and> x \<noteq> 0x47" if x: "x \<in> set (takeWhile (\<lambda>c. c \<noteq> 0) buf)" for x
  proof -
    obtain k where k: "k < length (takeWhile (\<lambda>c. c \<noteq> 0) buf)" "x = takeWhile (\<lambda>c. c \<noteq> 0) buf ! k"
      using x by (metis in_set_conv_nth)
    have "\<not> ?n + 1 < length (takeWhile (\<lambda>c. c \<noteq> 0) buf)"
    proof
      assume l: "?n + 1 < length (takeWhile (\<lambda>c. c \<noteq> 0) buf)"
      from nth_mem [OF l] have "takeWhile (\<lambda>c. c \<noteq> 0) buf ! (?n + 1) \<noteq> 0" by (rule set_takeWhileD [THEN conjunct2])
      moreover have "buf ! (?n + 1) = 0" unfolding buf_def using n len by (intro nth_list_update_eq) simp
      ultimately show False unfolding takeWhile_nth [OF l] by simp
    qed
    then have "k \<le> ?n" using k(1) by simp
    moreover have "x = buf ! k" using k takeWhile_nth by metis
    ultimately have "x = c \<or> \<not> c_isletter x"
      using assms(1,2) n len by (cases "k = ?n") (auto simp: buf_def vram_inv_def)
    then show ?thesis using assms(4) True by (auto simp: c_isletter_def)
  qed
  then have "set (takeWhile (\<lambda>c. c \<noteq> 0) (v_ansi_inbuf s1)) \<inter> {0x66, 0x47} = {}" by (auto simp: s1_def)
  then obtain t where "vram_ansi_execute s1 = Inr t" "vram_full t" using vram_ansi_execute_full [OF full] by blast
  moreover have "vram_read_ansi c s = ebind (vram_ansi_execute s1) (\<lambda>s2. Inr (s2\<lparr>v_reading_ansi := False\<rparr>))"
    using n True by (simp add: vram_read_ansi_def s1_def buf_def)
  ultimately show ?thesis using True by (simp add: vram_inv_def vram_full_def vram_collected_def)
qed

lemma vram_putchar_inv:
  assumes "vram_inv s" "vram_safe (vram_collected s) (c # cs)"
  shows "\<exists>t. vram_putchar c s = Inr t \<and> vram_inv t \<and> vram_safe (vram_collected t) cs"
proof -
  have full: "vram_full s" using assms(1) by (simp add: vram_inv_def)
  consider (esc) "c = 0x1B" | (reading) "c \<noteq> 0x1B" "v_reading_ansi s" | (char) "c \<noteq> 0x1B" "\<not> v_reading_ansi s" by blast
  then show ?thesis
  proof cases
    case esc
    then show ?thesis
      using assms full by (simp add: vram_putchar_def vram_inv_def vram_full_def vram_collected_def c_isletter_def)
  next
    case reading
    then have "0 < v_ansi_count s" "vram_collected s = v_ansi_count s" using assms(1) by (simp_all add: vram_inv_def vram_collected_def)
    then show ?thesis
      using vram_read_ansi_inv [OF assms(1) reading(2), of c] assms(2) reading by (auto simp: vram_putchar_def split: if_splits)
  next
    case char
    have "\<exists>t. vram_newline s = Inr t \<and> vram_full t \<and> v_reading_ansi t = v_reading_ansi s"
      using vram_newline_rows [of s] full by (auto simp: vram_full_ok vram_same_def)
    moreover have "vram_full (s\<lparr>v_cx := 0\<rparr>)" using full by (simp add: vram_full_def)
    ultimately have "\<exists>t. vram_putchar c s = Inr t \<and> vram_full t \<and> \<not> v_reading_ansi t"
      using char vram_backspace_full [OF full] vram_repeat_full [OF full] vram_put_visible_full [OF full]
      by (simp add: vram_putchar_def)
    then show ?thesis using assms(2) char by (auto simp: vram_inv_def vram_collected_def)
  qed
qed

text \<open>C24. Writing to the screen stays inside its memory: from any state with the cursor on the screen and the
  whole screen in use, any sequence of bytes (text, control characters, color characters, escape
  sequences complete or not) in which no escape sequence is longer than its buffer or ends in \<^verbatim>\<open>f\<close>
  or \<^verbatim>\<open>G\<close> runs without a fault, and leaves such a state, from which the same holds again.\<close>

theorem vram_output_safe:
  assumes "vram_inv s" "vram_safe (vram_collected s) cs"
  shows "\<exists>t. vterm_putstr cs s = Inr t \<and> vram_inv t"
  using assms
proof (induction cs arbitrary: s)
  case (Cons c cs)
  from vram_putchar_inv [OF Cons.prems] obtain t where
    "vram_putchar c s = Inr t" "vram_inv t" "vram_safe (vram_collected t) cs" by blast
  then show ?case using Cons.IH by simp
qed simp


subsection \<open>Complete escape sequences\<close>

lemma c_dec_not_Nil [simp]: "c_dec n \<noteq> []"
  by (subst c_dec.simps) simp

lemma c_dec_digit: "c \<in> set (c_dec n) \<Longrightarrow> c_isdigit c"
proof (induction n rule: c_dec.induct)
  case (1 n)
  have digit: "c_isdigit (of_nat (48 + k))" if "k < 10" for k
    using that by (simp add: c_isdigit_def word_le_nat_alt unat_of_nat_u8 del: of_nat_add)
  show ?case
    using 1 digit [of "n mod 10"] digit [of n] by (subst (asm) (2) c_dec.simps) (auto split: if_splits)
qed

lemma c_digits_value_snoc: "c_digits_value (xs @ [c]) = 10 * c_digits_value xs + (unat c - 48)"
  by (simp add: c_digits_value_def)

lemma c_dec_value: "c_digits_value (c_dec n) = n"
proof (induction n rule: c_dec.induct)
  case (1 n)
  have u: "unat (of_nat (48 + k) :: u8) = 48 + k" if "k < 10" for k
    using that by (simp add: unat_of_nat_u8 del: of_nat_add)
  show ?case
  proof (cases "n < 10")
    case True
    then show ?thesis using u [of n] by (simp add: c_dec.simps [of n] c_digits_value_def del: of_nat_add)
  next
    case False
    then have "c_digits_value (c_dec n) = 10 * (n div 10) + n mod 10"
      using 1 u [of "n mod 10"] by (simp add: c_dec.simps [of n] c_digits_value_snoc del: of_nat_add)
    then show ?thesis by simp
  qed
qed

lemma c_scan_dec:
  assumes "n < 2147483648" "rest = [] \<or> \<not> c_isdigit (hd rest)"
  shows "c_scan_d (c_dec n @ rest) = Some (int n, rest)"
proof -
  obtain d ds where d: "c_dec n = d # ds" by (cases "c_dec n") auto
  have "c_isdigit d" using c_dec_digit [of d n] d by simp
  then have not: "\<not> c_isspace d" "d \<noteq> 0x2D" "d \<noteq> 0x2B"
    by (auto simp: c_isdigit_def c_isspace_def word_le_nat_alt)
  have tw: "takeWhile c_isdigit (c_dec n @ rest) = c_dec n" "dropWhile c_isdigit (c_dec n @ rest) = rest"
    using c_dec_digit assms(2) by (cases rest; auto simp: takeWhile_append2 dropWhile_append2)+
  have "dropWhile c_isspace (c_dec n @ rest) = c_dec n @ rest" "hd (c_dec n @ rest) = d" using d not by simp_all
  then show ?thesis using tw not assms(1) by (simp add: c_scan_d_def c_dec_value)
qed

text \<open>The characters of a sequence before its letter.\<close>

definition vram_params :: "u8 list \<Rightarrow> bool" where
  "vram_params cs \<longleftrightarrow> (\<forall>c\<in>set cs. \<not> c_isletter c \<and> c \<noteq> 0x1B \<and> c \<noteq> 0)"

definition vram_with_inbuf :: "nat \<Rightarrow> u8 list \<Rightarrow> vram \<Rightarrow> vram" where
  "vram_with_inbuf n str s =
     s\<lparr>v_reading_ansi := True, v_ansi_count := n, v_ansi_inbuf := overwrite (v_ansi_inbuf s) 0 str\<rparr>"

lemma vram_read_params:
  assumes "length (v_ansi_inbuf s) = VRAM_INBUF" "vram_params cs" "length cs < VRAM_INBUF"
  shows "vterm_putstr (0x1B # cs) s = Inr (vram_with_inbuf (length cs + 1) (0x1B # cs) s)"
  using assms(2,3)
proof (induction cs rule: rev_induct)
  case Nil
  then show ?case
    using overwrite_snoc [of 0 "[]" "v_ansi_inbuf s" "0x1B"] assms(1) list.size(3)
    by (simp add: vram_putchar_def vram_with_inbuf_def)
next
  case (snoc c cs)
  let ?t = "vram_with_inbuf (length cs + 1) (0x1B # cs) s"
  have "vram_params cs" and c: "\<not> c_isletter c" "c \<noteq> 0x1B" using snoc.prems(1) by (auto simp: vram_params_def)
  with snoc have t: "vterm_putstr (0x1B # cs) s = Inr ?t" by simp
  have "overwrite (v_ansi_inbuf s) 0 (0x1B # cs @ [c]) = (v_ansi_inbuf ?t)[length cs + 1 := c]"
    using overwrite_snoc [of 0 "0x1B # cs" "v_ansi_inbuf s" c] assms(1) snoc.prems(2) by (simp add: vram_with_inbuf_def)
  then have "vram_putchar c ?t = Inr (vram_with_inbuf (length cs + 2) (0x1B # cs @ [c]) s)"
    using c snoc.prems(2) by (simp add: vram_putchar_def vram_read_ansi_def vram_with_inbuf_def)
  then show ?case using t vterm_putstr_append [of "0x1B # cs" "[c]" s] by simp
qed

lemma vram_sequence:
  assumes "length (v_ansi_inbuf s) = VRAM_INBUF" "vram_params cs" "length cs \<le> 12" "c_isletter l"
  shows "vterm_putstr (0x1B # cs @ [l]) s =
    ebind (vram_ansi_execute (vram_with_inbuf (length cs + 2) (0x1B # cs @ [l, 0]) s))
      (\<lambda>t. Inr (t\<lparr>v_reading_ansi := False\<rparr>))"
proof -
  let ?t = "vram_with_inbuf (length cs + 1) (0x1B # cs) s" and ?b = "v_ansi_inbuf s"
  have "overwrite ?b 0 (0x1B # cs @ [l, 0]) = (overwrite ?b 0 (0x1B # cs))[length cs + 1 := l, length cs + 2 := 0]"
    using overwrite_snoc [of 0 "0x1B # cs" ?b l] overwrite_snoc [of 0 "0x1B # cs @ [l]" ?b 0] assms(1,3) by simp
  moreover have "l \<noteq> 0x1B" using assms(4) by (auto simp: c_isletter_def)
  ultimately have "vram_putchar l ?t =
    ebind (vram_ansi_execute (vram_with_inbuf (length cs + 2) (0x1B # cs @ [l, 0]) s))
      (\<lambda>t. Inr (t\<lparr>v_reading_ansi := False\<rparr>))"
    using assms(3,4) by (simp add: vram_putchar_def vram_read_ansi_def vram_with_inbuf_def)
  moreover have "vterm_putstr [] = Inr" by (rule ext) simp
  ultimately show ?thesis
    using vram_read_params [OF assms(1,2)] assms(3) vterm_putstr_append [of "0x1B # cs" "[l]" s] by simp
qed

text \<open>What the sequence is converted to.\<close>

lemma vram_cvt_sequence:
  assumes "vram_params cs" "c_isletter l"
  shows "vram_cvt_escape (overwrite buf 0 (0x1B # cs @ [l, 0])) = vram_cvt_escape (0x1B # cs @ [l, 0])"
proof -
  have "l \<noteq> 0" "\<forall>c\<in>set cs. c \<noteq> 0" using assms by (auto simp: vram_params_def c_isletter_def)
  then have "takeWhile (\<lambda>c. c \<noteq> 0) (overwrite buf 0 (0x1B # cs @ [l, 0])) = 0x1B # cs @ [l]"
    "takeWhile (\<lambda>c. c \<noteq> 0) (0x1B # cs @ [l, 0]) = 0x1B # cs @ [l]"
    by (simp_all add: overwrite_def takeWhile_append2)
  then show ?thesis by (simp add: vram_cvt_escape_def)
qed

lemma vram_cvt_bracket:
  assumes "vram_params p" "c_isletter l"
  shows "vram_cvt_escape (0x1B # (0x5B # p) @ [l, 0]) =
      (if l = 0x4A then if p \<noteq> [] \<and> hd p = 0x32 then Some \<lparr>ao_op = ANSI_SEQ_CLRSCR, ao_p1 = -1, ao_p2 = -1\<rparr> else None
      else if l = 0x4B then Some \<lparr>ao_op = ANSI_SEQ_CLREOL, ao_p1 = -1, ao_p2 = -1\<rparr>
      else if l = 0x48 then Some \<lparr>ao_op = ANSI_SEQ_GOTOXY, ao_p1 = 1, ao_p2 = 1\<rparr>
      else if l = 0x66 then Some \<lparr>ao_op = ANSI_SEQ_GOTOXY, ao_p1 = fst (c_scan_d2 p), ao_p2 = snd (c_scan_d2 p)\<rparr>
      else if l = 0x47 then Some \<lparr>ao_op = ANSI_SEQ_GOTOCOL, ao_p1 = c_scan_d1 p, ao_p2 = -1\<rparr>
      else if l = 0x6D then
        if 0x3B \<in> set p then Some \<lparr>ao_op = ANSI_SEQ_SETSGR, ao_p1 = fst (c_scan_d2 p), ao_p2 = snd (c_scan_d2 p)\<rparr>
        else Some \<lparr>ao_op = ANSI_SEQ_SETSGR, ao_p1 = c_scan_d1 p, ao_p2 = -1\<rparr>
      else if l = 0x41 then Some \<lparr>ao_op = ANSI_SEQ_UP, ao_p1 = c_scan_d1 p, ao_p2 = -1\<rparr>
      else if l = 0x42 then Some \<lparr>ao_op = ANSI_SEQ_DOWN, ao_p1 = c_scan_d1 p, ao_p2 = -1\<rparr>
      else if l = 0x43 then Some \<lparr>ao_op = ANSI_SEQ_RIGHT, ao_p1 = c_scan_d1 p, ao_p2 = -1\<rparr>
      else if l = 0x44 then Some \<lparr>ao_op = ANSI_SEQ_LEFT, ao_p1 = c_scan_d1 p, ao_p2 = -1\<rparr>
      else None)"
proof -
  have "l \<noteq> 0" "\<forall>c\<in>set p. c \<noteq> 0" using assms by (auto simp: vram_params_def c_isletter_def)
  then have "takeWhile (\<lambda>c. c \<noteq> 0) (0x1B # (0x5B # p) @ [l, 0]) = 0x1B # 0x5B # p @ [l]"
    by (simp add: takeWhile_append2)
  then show ?thesis by (simp add: vram_cvt_escape_def Let_def butlast_append)
qed



lemma vram_params_dec: "vram_params (c_dec n)"
proof -
  have "\<not> c_isletter c \<and> c \<noteq> 0x1B \<and> c \<noteq> 0" if "c_isdigit c" for c
    using that by (auto simp: c_isdigit_def c_isletter_def word_le_nat_alt)
  then show ?thesis using c_dec_digit by (auto simp: vram_params_def)
qed

lemma vram_params_append [simp]: "vram_params (xs @ ys) \<longleftrightarrow> vram_params xs \<and> vram_params ys"
  by (auto simp: vram_params_def)

lemma vram_params_bracket: "vram_params (0x5B # p) \<longleftrightarrow> vram_params p"
  by (simp add: vram_params_def c_isletter_def)

lemma length_c_dec: "n < 10 ^ k \<Longrightarrow> 0 < k \<Longrightarrow> length (c_dec n) \<le> k"
proof (induction k arbitrary: n)
  case (Suc k)
  show ?case
  proof (cases "n < 10")
    case False
    then have "0 < k" using Suc.prems by (cases k) auto
    moreover have "n div 10 < 10 ^ k" using Suc.prems(1) by (simp add: less_mult_imp_div_less mult.commute)
    ultimately show ?thesis using False Suc.IH [of "n div 10"] by (simp add: c_dec.simps [of n])
  qed (simp add: c_dec.simps [of n])
qed simp

lemma vram_execute_bracket:
  assumes "length (v_ansi_inbuf s) = VRAM_INBUF" "vram_params p" "length p \<le> 11" "c_isletter l"
  shows "vterm_putstr ([0x1B, 0x5B] @ p @ [l]) s =
    (let s1 = vram_with_inbuf (length p + 3) (0x1B # 0x5B # p @ [l, 0]) s in
     ebind (case vram_cvt_escape (0x1B # (0x5B # p) @ [l, 0]) of None \<Rightarrow> Inr s1
       | Some ao \<Rightarrow> (case ao_op ao of
          ANSI_SEQ_CLRSCR \<Rightarrow> Inr (vram_clrscr s1)
        | ANSI_SEQ_CLREOL \<Rightarrow> vram_clreol s1
        | ANSI_SEQ_GOTOXY \<Rightarrow> Inr (s1\<lparr>v_cx := of_int (ao_p1 ao) - 1, v_cy := of_int (ao_p2 ao) - 1\<rparr>)
        | ANSI_SEQ_GOTOCOL \<Rightarrow> Inr (s1\<lparr>v_cx := of_int (ao_p1 ao)\<rparr>)
        | ANSI_SEQ_UP \<Rightarrow> Inr (vram_deltaxy 0 (- ao_p1 ao) s1)
        | ANSI_SEQ_LEFT \<Rightarrow> Inr (vram_deltaxy (- ao_p1 ao) 0 s1)
        | ANSI_SEQ_RIGHT \<Rightarrow> Inr (vram_deltaxy (ao_p1 ao) 0 s1)
        | ANSI_SEQ_DOWN \<Rightarrow> Inr (vram_deltaxy 0 (ao_p1 ao) s1)
        | ANSI_SEQ_SETSGR \<Rightarrow> vram_ansi_sgr (ao_p1 ao) (ao_p2 ao) s1))
      (\<lambda>t. Inr (t\<lparr>v_reading_ansi := False\<rparr>)))"
proof -
  have p: "vram_params (0x5B # p)" using assms(2) vram_params_bracket by simp
  have "vram_cvt_escape (v_ansi_inbuf (vram_with_inbuf (length p + 3) (0x1B # 0x5B # p @ [l, 0]) s)) =
      vram_cvt_escape (0x1B # (0x5B # p) @ [l, 0])"
    using vram_cvt_sequence [OF p assms(4), of "v_ansi_inbuf s"] by (simp add: vram_with_inbuf_def)
  moreover have "length (0x5B # p) \<le> 12" using assms(3) by simp
  note vram_sequence [OF assms(1) p this assms(4)]
  ultimately show ?thesis by (simp add: vram_ansi_execute_def Let_def eval_nat_numeral)
qed





lemma c_scan_d1_dec: "n < 2147483648 \<Longrightarrow> c_scan_d1 (c_dec n) = int n"
  using c_scan_dec [of n "[]"] by (simp add: c_scan_d1_def)

lemma c_scan_d2_dec: "n < 2147483648 \<Longrightarrow> m < 2147483648 \<Longrightarrow> c_scan_d2 (c_dec n @ [0x3B] @ c_dec m) = (int n, int m)"
  using c_scan_dec [of n "0x3B # c_dec m"] by (simp add: c_scan_d2_def c_scan_d1_dec c_isdigit_def)





text \<open>C37. Two ways an escape sequence leaves its memory: a sequence of 16 characters without a letter
  overruns the buffer of sequences, and after moving to a line below the screen, which \<^verbatim>\<open>ESC [ x ; y f\<close>
  does without a check, the next printable character is written behind the cells.\<close>

theorem vram_escape_out_of_bounds:
  assumes "vram_full s" "vram_params cs" "length cs = VRAM_INBUF" "0 < x" "x \<le> VRAM_COLS" "VRAM_LINES < y" "y < 256"
    "0x20 \<le> c" "c < 0x7F"
  shows "vterm_putstr (0x1B # cs) s = Inl OutOfBounds \<and>
    vterm_putstr ([0x1B, 0x5B] @ c_dec x @ [0x3B] @ c_dec y @ [0x66, c]) s = Inl OutOfBounds"
proof
  have len: "length (v_ansi_inbuf s) = VRAM_INBUF" using assms(1) by (simp add: vram_full_def)
  obtain c' cs' where cs: "cs = cs' @ [c']" using assms(3) by (cases cs rule: rev_cases) auto
  then have p: "vram_params cs'" "vram_params [c']" "length cs' < VRAM_INBUF" "length cs' = 14" using assms(2,3) by simp_all
  have "vram_putchar c' (vram_with_inbuf (length cs' + 1) (0x1B # cs') s) = Inl OutOfBounds"
    using p by (simp add: vram_params_def vram_putchar_def vram_read_ansi_def vram_with_inbuf_def)
  then show "vterm_putstr (0x1B # cs) s = Inl OutOfBounds"
    using vram_read_params [OF len p(1,3)] vterm_putstr_append [of "0x1B # cs'" "[c']" s] cs by simp
  have semi: "vram_params (0x3B # c_dec n)" for n
    using vram_params_append [of "[0x3B]" "c_dec n"] vram_params_dec by (simp add: vram_params_def c_isletter_def)
  let ?p = "c_dec x @ [0x3B] @ c_dec y"
  have "length (c_dec x) \<le> 3" "length (c_dec y) \<le> 3" using assms(5,7) by (intro length_c_dec; simp)+
  then have p: "vram_params ?p" "length ?p \<le> 11" using semi vram_params_dec by simp_all
  have f: "c_isletter 0x66" by (simp add: c_isletter_def)
  have scan: "c_scan_d2 ?p = (int x, int y)" using assms(5,7) by (intro c_scan_d2_dec) simp_all
  define t where "t = (vram_with_inbuf (length ?p + 3) (0x1B # 0x5B # ?p @ [0x66, 0]) s)
    \<lparr>v_cx := of_nat x - 1, v_cy := of_nat y - 1, v_reading_ansi := False\<rparr>"
  have t: "vterm_putstr ([0x1B, 0x5B] @ ?p @ [0x66]) s = Inr t"
    using vram_execute_bracket [OF len p f] vram_cvt_bracket [OF p(1) f] scan by (simp add: t_def Let_def)
  have pred: "unat (of_nat n - 1 :: u8) = n - 1" if "0 < n" "n < 256" for n
  proof -
    have "of_nat n - 1 = (of_nat (n - 1) :: u8)" using that(1) by (simp add: of_nat_diff)
    moreover have "unat (of_nat (n - 1) :: u8) = n - 1" by (rule unat_of_nat_u8) (use that in simp)
    ultimately show ?thesis by (simp only:)
  qed
  have "unat (of_nat x - 1 :: u8) = x - 1" "unat (of_nat y - 1 :: u8) = y - 1"
    using pred [of x] pred [of y] assms(4-7) by simp_all
  then have cur: "uint (v_cx t) = int x - 1" "uint (v_cy t) = int y - 1" "length (v_cells t) = VRAM_CHARS"
    using assms(1,4,6) by (simp_all add: t_def vram_with_inbuf_def uint_nat vram_full_def)
  then have "\<not> v_cx t \<ge> of_nat VRAM_COLS" using assms(5) by (simp add: word_le_def not_le)
  moreover have "vram_putchar_internal (uint (v_cx t)) (uint (v_cy t)) c t = Inl OutOfBounds"
    using cur assms(4,6) by (simp add: vram_putchar_internal_def VRAM_CHARADDR_def vram_store_def)
  ultimately have "vram_put_plain c t = Inl OutOfBounds" by (simp add: vram_put_plain_def)
  moreover have "c \<notin> {0x1B, 0x0D, 0x0A, 8, 9, 255}" "\<not> 128 \<le> c" using assms(8,9) by (auto simp: word_le_nat_alt word_less_nat_alt)
  ultimately have "vram_putchar c t = Inl OutOfBounds"
    by (simp add: vram_putchar_def vram_put_visible_def) (simp add: t_def)
  then show "vterm_putstr ([0x1B, 0x5B] @ c_dec x @ [0x3B] @ c_dec y @ [0x66, c]) s = Inl OutOfBounds"
    using t vterm_putstr_append [of "[0x1B, 0x5B] @ ?p @ [0x66]" "[c]" s] by simp
qed

text \<open>What a move does: exactly the distance when the target is on the screen, not in its first column or line.\<close>

lemma vram_deltaxy_moves:
  assumes "0 < uint (v_cx s) + dx" "uint (v_cx s) + dx < int VRAM_COLS" "0 < uint (v_cy s) + dy" "uint (v_cy s) + dy < int VRAM_LINES"
  shows "uint (v_cx (vram_deltaxy dx dy s)) = uint (v_cx s) + dx" "uint (v_cy (vram_deltaxy dx dy s)) = uint (v_cy s) + dy"
proof -
  have u: "uint (of_int z :: u8) = z" if "0 < z" "z < 256" for z using that by (simp add: uint_word_of_int)
  show "uint (v_cx (vram_deltaxy dx dy s)) = uint (v_cx s) + dx" "uint (v_cy (vram_deltaxy dx dy s)) = uint (v_cy s) + dy"
    using assms u [of "uint (v_cx s) + dx"] u [of "uint (v_cy s) + dy"]
    by (simp_all add: vram_deltaxy_def vram_gotoxy_def Let_def word_less_def)
qed


subsection \<open>Examples\<close>

text \<open>The screen after \<^verbatim>\<open>vram_init\<close>, from zeroed variables.\<close>

definition vram_demo :: vram where
  "vram_demo = vram_init \<lparr>v_cy = 0, v_cx = 0, v_type = 0, v_cells = replicate VRAM_CHARS 0, v_fg_col = 7, v_bg_col = 0,
     v_paging_enabled = 0, v_paging_lines = 0, v_last_line = 0, v_crt_attr = 0, v_mode = 0, v_reading_ansi = False,
     v_ansi_count = 0, v_ansi_inbuf = replicate VRAM_INBUF 0, v_ansi_brightness = 0, v_keys_waited = 0\<rparr>"

lemma vram_demo_full: "vram_full vram_demo"
  by (simp add: vram_full_def vram_demo_def vram_init_def vram_clrscr_def)

lemma vram_demo_fields: "v_reading_ansi vram_demo = False" "v_mode vram_demo = 0" "v_last_line vram_demo = 29"
  "v_ansi_brightness vram_demo = 0"
  by (simp_all add: vram_demo_def vram_init_def vram_clrscr_def)

lemma replicate_tab: "replicate VRAM_TAB_SIZE x = [x, x, x, x]"
  by (simp add: eval_nat_numeral)

theorem vram_shows_end_of_text_witness:
  "\<exists>t. vterm_putstr [0x68, 0x69, 0x0A, 9, 0x21] (vram_clrscr vram_demo) = Inr t \<and>
     map (vram_row t) [0..<30] = tty_shown 30 (v_crt_attr vram_demo) [[0x68, 0x69], [0x20, 0x20, 0x20, 0x20, 0x21]] \<and>
     unat (vram_get_cx t) = 5 \<and> unat (vram_get_cy t) = 1"
proof -
  have "tty_lines [0x68, 0x69, 0x0A, 9, 0x21] = [[0x68, 0x69], [0x20, 0x20, 0x20, 0x20, 0x21]]"
    by (simp add: tty_lines_wrap tty_expand_def replicate_tab)
  moreover have "vram_ok vram_demo" using vram_demo_full by (simp add: vram_full_ok)
  moreover have "set [0x68, 0x69, 0x0A, 9, 0x21] \<inter> {0x1B, 0x0D, 8 :: u8} = {}" by simp
  ultimately show ?thesis
    using vram_shows_end_of_text [of vram_demo "[0x68, 0x69, 0x0A, 9, 0x21]"] vram_demo_fields
    by (auto simp del: upt_Suc vterm_putstr.simps)
qed

theorem vram_output_safe_witness:
  "\<exists>t. vterm_putstr [0x41, 0x1B, 0x5B, 0x32, 0x4A, 8, 0x0A] vram_demo = Inr t \<and> vram_inv t"
  using vram_output_safe [of vram_demo "[0x41, 0x1B, 0x5B, 0x32, 0x4A, 8, 0x0A]"] vram_demo_full vram_demo_fields
  by (simp add: vram_inv_def vram_collected_def c_isletter_def del: vterm_putstr.simps)



theorem vram_escape_out_of_bounds_witness:
  "vterm_putstr (0x1B # replicate 15 0x31) vram_demo = Inl OutOfBounds \<and>
    vterm_putstr ([0x1B, 0x5B] @ c_dec 1 @ [0x3B] @ c_dec 31 @ [0x66, 0x41]) vram_demo = Inl OutOfBounds"
proof (rule vram_escape_out_of_bounds [OF vram_demo_full])
  show "vram_params (replicate 15 0x31)" by (simp add: vram_params_def c_isletter_def)
qed simp_all

end
