(* ===== verification/Vram_Box.thy ===== *)
theory Vram_Box
  imports Vram_Screen
begin

text \<open>
  Boxes on the screen of \<^verbatim>\<open>Vram\<close>: what a box that lies inside the screen looks like, that it changes
  nothing else, and that closing it gives back what it covered.
\<close>

subsection \<open>Writing cells\<close>

lemma vram_cells_eqI:
  assumes "length (v_cells s) = VRAM_CHARS" "length (v_cells t) = VRAM_CHARS"
    "\<And>r x. r < VRAM_LINES \<Longrightarrow> x < VRAM_COLS \<Longrightarrow> vram_row s r ! x = vram_row t r ! x"
  shows "v_cells s = v_cells t"
proof (rule nth_equalityI)
  show "length (v_cells s) = length (v_cells t)" using assms(1,2) by simp
  fix k assume "k < length (v_cells s)"
  then have "k div VRAM_COLS < VRAM_LINES" "k mod VRAM_COLS < VRAM_COLS" "VRAM_COLS * (k div VRAM_COLS) + k mod VRAM_COLS = k"
    using assms(1) by auto
  then show "v_cells s ! k = v_cells t ! k"
    using assms(3) [of "k div VRAM_COLS" "k mod VRAM_COLS"] by (simp add: nth_vram_row assms(1,2))
qed

lemma sint_of_nat_u32: "n < 2147483648 \<Longrightarrow> sint (of_nat n :: u32) = int n"
  by (simp add: signed_of_nat signed_take_bit_int_eq_self)

text \<open>The last character written to a cell stays; other cells are left alone.\<close>

lemma vram_put_cells_rows:
  assumes "length (v_cells s) = VRAM_CHARS" "\<forall>(x, y, c)\<in>set ps. x < VRAM_COLS \<and> y < VRAM_LINES"
  shows "\<exists>cs. vram_put_cells ps s = Inr (s\<lparr>v_cells := cs\<rparr>) \<and> length cs = VRAM_CHARS \<and>
    (\<forall>r<VRAM_LINES. \<forall>x<VRAM_COLS. if \<exists>c. (x, r, c) \<in> set ps
       then \<exists>c. (x, r, c) \<in> set ps \<and> vram_row (s\<lparr>v_cells := cs\<rparr>) r ! x = vram_cell c (v_crt_attr s)
       else vram_row (s\<lparr>v_cells := cs\<rparr>) r ! x = vram_row s r ! x)"
  using assms
proof (induction ps arbitrary: s)
  case Nil
  then show ?case by (intro exI [of _ "v_cells s"]) simp
next
  case (Cons p ps)
  obtain x0 y0 c0 where p: "p = (x0, y0, c0)" by (cases p)
  have in0: "x0 < VRAM_COLS" "y0 < VRAM_LINES" using Cons.prems(2) p by auto
  obtain cs1 where cs1: "vram_putchar_internal (int x0) (int y0) c0 s = Inr (s\<lparr>v_cells := cs1\<rparr>)" "length cs1 = VRAM_CHARS"
    "\<And>r. r < VRAM_LINES \<Longrightarrow> vram_row (s\<lparr>v_cells := cs1\<rparr>) r =
       (if r = y0 then (vram_row s r)[x0 := vram_cell c0 (v_crt_attr s)] else vram_row s r)"
    using putchar_internal_row [OF Cons.prems(1) in0] by blast
  obtain cs where cs: "vram_put_cells ps (s\<lparr>v_cells := cs1\<rparr>) = Inr (s\<lparr>v_cells := cs\<rparr>)" "length cs = VRAM_CHARS"
    "\<And>r x. r < VRAM_LINES \<Longrightarrow> x < VRAM_COLS \<Longrightarrow> if \<exists>c. (x, r, c) \<in> set ps
       then \<exists>c. (x, r, c) \<in> set ps \<and> vram_row (s\<lparr>v_cells := cs\<rparr>) r ! x = vram_cell c (v_crt_attr s)
       else vram_row (s\<lparr>v_cells := cs\<rparr>) r ! x = vram_row (s\<lparr>v_cells := cs1\<rparr>) r ! x"
  proof -
    have "\<forall>(x, y, c)\<in>set ps. x < VRAM_COLS \<and> y < VRAM_LINES" using Cons.prems(2) by simp
    have eqs: "\<And>cs. s\<lparr>v_cells := cs1, v_cells := cs\<rparr> = s\<lparr>v_cells := cs\<rparr>" "v_crt_attr (s\<lparr>v_cells := cs1\<rparr>) = v_crt_attr s"
      "length (v_cells (s\<lparr>v_cells := cs1\<rparr>)) = VRAM_CHARS" using cs1(2) by simp_all
    note Cons.IH [OF eqs(3) \<open>\<forall>(x, y, c)\<in>set ps. x < VRAM_COLS \<and> y < VRAM_LINES\<close>]
    then have "\<exists>cs. vram_put_cells ps (s\<lparr>v_cells := cs1\<rparr>) = Inr (s\<lparr>v_cells := cs\<rparr>) \<and>
      length cs = VRAM_CHARS \<and> (\<forall>r<VRAM_LINES. \<forall>x<VRAM_COLS. if \<exists>c. (x, r, c) \<in> set ps
         then \<exists>c. (x, r, c) \<in> set ps \<and> vram_row (s\<lparr>v_cells := cs\<rparr>) r ! x = vram_cell c (v_crt_attr s)
         else vram_row (s\<lparr>v_cells := cs\<rparr>) r ! x = vram_row (s\<lparr>v_cells := cs1\<rparr>) r ! x)"
      unfolding eqs(1,2) .
    then show thesis using that by blast
  qed
  have "vram_put_cells (p # ps) s = Inr (s\<lparr>v_cells := cs\<rparr>)"
    using cs1(1) cs(1) in0 by (simp add: p sint_of_nat_u32)
  moreover have "if \<exists>c. (x, r, c) \<in> set (p # ps)
       then \<exists>c. (x, r, c) \<in> set (p # ps) \<and> vram_row (s\<lparr>v_cells := cs\<rparr>) r ! x = vram_cell c (v_crt_attr s)
       else vram_row (s\<lparr>v_cells := cs\<rparr>) r ! x = vram_row s r ! x" if "r < VRAM_LINES" "x < VRAM_COLS" for r x
  proof (cases "\<exists>c. (x, r, c) \<in> set ps")
    case True
    then show ?thesis using cs(3) [OF that] by auto
  next
    case False
    then have "vram_row (s\<lparr>v_cells := cs\<rparr>) r ! x = vram_row (s\<lparr>v_cells := cs1\<rparr>) r ! x" using cs(3) [OF that] by simp
    then show ?thesis using False cs1(3) [OF that(1)] that Cons.prems(1) by (auto simp: p nth_list_update)
  qed
  ultimately show ?case using cs(2) by blast
qed

lemma vram_store_row:
  assumes "length (v_cells s) = VRAM_CHARS" "y < VRAM_LINES" "x0 + length d \<le> VRAM_COLS"
  shows "\<exists>cs. vram_store (VRAM_COLS * y + x0) d s = Inr (s\<lparr>v_cells := cs\<rparr>) \<and> length cs = VRAM_CHARS \<and>
    (\<forall>r<VRAM_LINES. \<forall>x<VRAM_COLS. vram_row (s\<lparr>v_cells := cs\<rparr>) r ! x =
      (if r = y \<and> x0 \<le> x \<and> x < x0 + length d then d ! (x - x0) else vram_row s r ! x))"
proof -
  let ?a = "VRAM_COLS * y + x0"
  have a: "?a + length d \<le> VRAM_CHARS" using assms(2,3) by simp
  define cs where "cs = overwrite (v_cells s) ?a d"
  have len: "length cs = VRAM_CHARS" using a assms(1) by (simp add: cs_def)
  have "vram_row (s\<lparr>v_cells := cs\<rparr>) r ! x = (if r = y \<and> x0 \<le> x \<and> x < x0 + length d then d ! (x - x0) else vram_row s r ! x)"
    if "r < VRAM_LINES" "x < VRAM_COLS" for r x
  proof -
    have "?a \<le> VRAM_COLS * r + x \<and> VRAM_COLS * r + x < ?a + length d \<longleftrightarrow> r = y \<and> x0 \<le> x \<and> x < x0 + length d"
      using that assms(3) by (cases r y rule: linorder_cases) auto
    then show ?thesis
      using that a assms(1) len by (auto simp: nth_vram_row cs_def nth_overwrite)
  qed
  then show ?thesis using a assms(1) len by (intro exI [of _ cs]) (simp add: vram_store_def cs_def)
qed

subsection \<open>Saving and restoring\<close>

lemma VRAM_CHARADDR8_nat:
  assumes "unat x < VRAM_COLS" "y < VRAM_LINES"
  shows "VRAM_CHARADDR8 x (of_nat y) = VRAM_COLS * y + unat x"
proof -
  have "push_bit 1 (of_nat y * of_nat VRAM_COLS + x) = (of_nat (2 * (VRAM_COLS * y + unat x)) :: u32)"
    by (simp add: push_bit_eq_mult algebra_simps)
  moreover have "unat (of_nat (2 * (VRAM_COLS * y + unat x)) :: u32) = 2 * (VRAM_COLS * y + unat x)"
    using assms by (intro unat_of_nat_u32) simp
  ultimately have "unat (push_bit 1 (of_nat y * of_nat VRAM_COLS + x)) = 2 * (VRAM_COLS * y + unat x)" by (simp only:)
  then show ?thesis unfolding VRAM_CHARADDR8_def by (simp only: nonzero_mult_div_cancel_left)
qed

lemma vram_save_lines_rows:
  "length (v_cells s) = VRAM_CHARS \<Longrightarrow> unat x + w \<le> VRAM_COLS \<Longrightarrow> unat x < VRAM_COLS \<Longrightarrow> \<forall>y\<in>set ys. y < VRAM_LINES \<Longrightarrow>
   vram_save_lines x w ys s = Inr (concat (map (\<lambda>y. take w (drop (unat x) (vram_row s y))) ys))"
proof (induction ys)
  case (Cons y ys)
  then have y: "y < VRAM_LINES" by simp
  then have "VRAM_COLS * y + unat x + w \<le> VRAM_CHARS" using Cons.prems(2) by simp
  moreover have "take w (drop (VRAM_COLS * y + unat x) (v_cells s)) = take w (drop (unat x) (vram_row s y))"
    using Cons.prems(2) by (simp add: vram_row_def drop_take add.commute min_def)
  ultimately show ?case using Cons y by (simp add: VRAM_CHARADDR8_nat)
qed simp

lemma vram_restore_lines_rows:
  assumes "length (v_cells u) = VRAM_CHARS" "unat (x0 :: u16) + w \<le> VRAM_COLS" "\<forall>y\<in>set ys. y < VRAM_LINES \<and> length (f y) = w"
    "distinct ys"
  shows "\<exists>cs. vram_restore_lines x0 w ys (concat (map f ys)) u = Inr (u\<lparr>v_cells := cs\<rparr>) \<and> length cs = VRAM_CHARS \<and>
    (\<forall>r<VRAM_LINES. \<forall>x<VRAM_COLS. vram_row (u\<lparr>v_cells := cs\<rparr>) r ! x =
       (if r \<in> set ys \<and> unat x0 \<le> x \<and> x < unat x0 + w then f r ! (x - unat x0) else vram_row u r ! x))"
  using assms(1,3,4)
proof (induction ys arbitrary: u)
  case Nil
  then show ?case by (intro exI [of _ "v_cells u"]) simp
next
  case (Cons y ys)
  have y: "y < VRAM_LINES" "unat x0 + length (f y) \<le> VRAM_COLS" "length (f y) = w" using Cons.prems(2) assms(2) by auto
  obtain cs1 where cs1: "vram_store (VRAM_COLS * y + unat x0) (f y) u = Inr (u\<lparr>v_cells := cs1\<rparr>)" "length cs1 = VRAM_CHARS"
    "\<And>r x. r < VRAM_LINES \<Longrightarrow> x < VRAM_COLS \<Longrightarrow> vram_row (u\<lparr>v_cells := cs1\<rparr>) r ! x =
      (if r = y \<and> unat x0 \<le> x \<and> x < unat x0 + length (f y) then f y ! (x - unat x0) else vram_row u r ! x)"
    using vram_store_row [OF Cons.prems(1) y(1,2)] by blast
  obtain cs where cs: "vram_restore_lines x0 w ys (concat (map f ys)) (u\<lparr>v_cells := cs1\<rparr>) = Inr (u\<lparr>v_cells := cs\<rparr>)"
    "length cs = VRAM_CHARS"
    "\<And>r x. r < VRAM_LINES \<Longrightarrow> x < VRAM_COLS \<Longrightarrow> vram_row (u\<lparr>v_cells := cs\<rparr>) r ! x =
       (if r \<in> set ys \<and> unat x0 \<le> x \<and> x < unat x0 + w then f r ! (x - unat x0) else vram_row (u\<lparr>v_cells := cs1\<rparr>) r ! x)"
    using Cons.IH [of "u\<lparr>v_cells := cs1\<rparr>"] cs1(2) Cons.prems(2,3) by auto
  have "nat (VRAM_CHARADDR (uint x0) (int y)) = VRAM_COLS * y + unat x0"
    by (simp add: VRAM_CHARADDR_def nat_add_distrib nat_mult_distrib)
  then have "vram_restore_lines x0 w (y # ys) (concat (map f (y # ys))) u = Inr (u\<lparr>v_cells := cs\<rparr>)"
    using cs1(1) cs(1) y(3) by simp
  moreover have "y \<notin> set ys" using Cons.prems(3) by simp
  ultimately show ?case using cs(2,3) cs1(3) y(3) by (intro exI [of _ cs]) auto
qed


subsection \<open>The picture of a box\<close>

definition vram_in_box :: "nat \<Rightarrow> nat \<Rightarrow> nat \<Rightarrow> nat \<Rightarrow> nat \<Rightarrow> nat \<Rightarrow> bool" where
  "vram_in_box x y w h r c \<longleftrightarrow> y \<le> r \<and> r < y + h \<and> x \<le> c \<and> c < x + w"

text \<open>The character in row \<open>r\<close> and column \<open>c\<close>: the title behind two line characters, a frame or spaces around an empty middle.\<close>

definition vram_box_char :: "nat \<Rightarrow> nat \<Rightarrow> nat \<Rightarrow> nat \<Rightarrow> u8 list \<Rightarrow> bool \<Rightarrow> nat \<Rightarrow> nat \<Rightarrow> u8" where
  "vram_box_char x y w h title border r c =
     (if r = y \<and> x + 3 \<le> c \<and> c < x + 3 + length title then title ! (c - x - 3)
      else if \<not> border then 0x20
      else if r = y then (if c = x then VRAM_SBOX_UL else if c = x + w - 1 then VRAM_SBOX_UR else VRAM_SBOX_HLINE)
      else if r = y + h - 1 then (if c = x then VRAM_SBOX_BL else if c = x + w - 1 then VRAM_SBOX_BR else VRAM_SBOX_HLINE)
      else if c = x \<or> c = x + w - 1 then VRAM_SBOX_VLINE
      else 0x20)"

lemma unat_box_arith:
  assumes "unat (x :: u32) + unat w \<le> 80" "2 \<le> unat w"
  shows "unat (x + 1) = unat x + 1" "unat (x + 2) = unat x + 2" "unat (x + w - 1) = unat x + unat w - 1"
    "unat (x + w) = unat x + unat w" "n \<le> 80 \<Longrightarrow> unat (of_nat n + x + 3) = n + unat x + 3" "n \<le> 80 \<Longrightarrow> unat (x + 3 + of_nat n) = unat x + 3 + n"
proof -
  show xw: "unat (x + w) = unat x + unat w" using assms by (simp add: unat_word_ariths)
  then have "x + w \<noteq> 0" using assms by auto
  then show "unat (x + w - 1) = unat x + unat w - 1" using xw by (simp add: unat_minus_one)
  show "unat (x + 1) = unat x + 1" "unat (x + 2) = unat x + 2" using assms by (simp_all add: unat_word_ariths)
  show "unat (of_nat n + x + 3) = n + unat x + 3" "unat (x + 3 + of_nat n) = unat x + 3 + n" if "n \<le> 80"
    using assms that by (simp_all add: unat_word_ariths unat_of_nat)
qed

lemma set_vram_box_row:
  assumes "unat x + unat w \<le> 80" "2 \<le> unat w"
  shows "(c, r, ch) \<in> set (vram_box_row x w iy l m rt) \<longleftrightarrow> r = iy \<and> unat x \<le> c \<and> c < unat x + unat w \<and>
    ch = (if c = unat x then l else if c = unat x + unat w - 1 then rt else m)"
  using assms by (auto simp: vram_box_row_def Let_def unat_box_arith max_def)

lemma set_vram_box_title:
  assumes "unat x + unat w \<le> 80" "length title + 4 \<le> unat w"
  shows "(c, r, ch) \<in> set (vram_box_title x y w title border) \<longleftrightarrow> r = unat y \<and> unat x \<le> c \<and> c < unat x + unat w \<and>
    ch = (if unat x + 3 \<le> c \<and> c < unat x + 3 + length title then title ! (c - unat x - 3)
          else if \<not> border then 0x20 else if c = unat x then VRAM_SBOX_UL
          else if c = unat x + unat w - 1 then VRAM_SBOX_UR else VRAM_SBOX_HLINE)"
proof -
  let ?X = "unat x" and ?W = "unat w" and ?n = "length title"
  let ?h = "if border then VRAM_SBOX_HLINE else (0x20 :: u8)"
  have n: "?n \<le> 80" "2 \<le> ?W" using assms by simp_all
  have title: "map (\<lambda>ix. (unat (x + 3 + of_nat ix), unat y, title ! ix)) [0..<?n] = map (\<lambda>i. (?X + 3 + i, unat y, title ! i)) [0..<?n]"
    using n(1) by (intro map_cong) (simp_all add: unat_box_arith [OF assms(1) n(2)])
  have "max (?n + ?X + 3) (?X + ?W - 1) = ?X + ?W - 1" using assms(2) by simp
  then have cells: "vram_box_title x y w title border =
      [(?X, unat y, if border then VRAM_SBOX_UL else 0x20), (?X + 1, unat y, ?h), (?X + 2, unat y, ?h)] @
      map (\<lambda>i. (?X + 3 + i, unat y, title ! i)) [0..<?n] @ map (\<lambda>ix. (ix, unat y, ?h)) [?n + ?X + 3..<?X + ?W - 1] @
      [(?X + ?W - 1, unat y, if border then VRAM_SBOX_UR else 0x20)]"
    using n(1) by (simp only: vram_box_title_def Let_def title unat_box_arith [OF assms(1) n(2)])
  have "(c, r, ch) \<in> set (map (\<lambda>i. (?X + 3 + i, unat y, title ! i)) [0..<?n]) \<longleftrightarrow>
      r = unat y \<and> ?X + 3 \<le> c \<and> c < ?X + 3 + ?n \<and> ch = title ! (c - ?X - 3)"
    by (auto intro!: image_eqI [of _ _ "c - ?X - 3"])
  then show ?thesis
    using assms(2) unfolding cells set_append Un_iff by auto
qed

lemma set_vram_box_cells:
  assumes "unat x + unat w \<le> 80" "unat y + unat h \<le> 30" "length title + 4 \<le> unat w" "2 \<le> unat h"
  shows "(c, r, ch) \<in> set (vram_box_cells x y w h title border) \<longleftrightarrow>
    vram_in_box (unat x) (unat y) (unat w) (unat h) r c \<and>
    ch = vram_box_char (unat x) (unat y) (unat w) (unat h) title border r c"
proof -
  let ?Y = "unat y" and ?H = "unat h"
  have w: "2 \<le> unat w" using assms(3) by simp
  have y: "unat (y + 1) = ?Y + 1" "unat (y + h - 1) = ?Y + ?H - 1"
    using unat_box_arith(1,3) [of y h] assms(2,4) by simp_all
  have "max (?Y + 1) (?Y + ?H - 1) = ?Y + ?H - 1" using assms(4) by simp
  then have "vram_box_cells x y w h title border = vram_box_title x y w title border @
      concat (map (\<lambda>iy. vram_box_row x w iy (if border then VRAM_SBOX_VLINE else 0x20) 0x20 (if border then VRAM_SBOX_VLINE else 0x20)) [?Y + 1..<?Y + ?H - 1]) @
      vram_box_row x w (?Y + ?H - 1) (if border then VRAM_SBOX_BL else 0x20) (if border then VRAM_SBOX_HLINE else 0x20) (if border then VRAM_SBOX_BR else 0x20)"
    by (simp only: vram_box_cells_def Let_def y)
  then have split: "(c, r, ch) \<in> set (vram_box_cells x y w h title border) \<longleftrightarrow>
      (c, r, ch) \<in> set (vram_box_title x y w title border) \<or>
      (?Y + 1 \<le> r \<and> r < ?Y + ?H - 1 \<and> (c, r, ch) \<in> set (vram_box_row x w r (if border then VRAM_SBOX_VLINE else 0x20) 0x20 (if border then VRAM_SBOX_VLINE else 0x20))) \<or>
      (c, r, ch) \<in> set (vram_box_row x w (?Y + ?H - 1) (if border then VRAM_SBOX_BL else 0x20) (if border then VRAM_SBOX_HLINE else 0x20) (if border then VRAM_SBOX_BR else 0x20))"
    by (auto simp: set_vram_box_row [OF assms(1) w])
  consider "r < ?Y" | "r = ?Y" | "?Y < r" "r < ?Y + ?H - 1" | "r = ?Y + ?H - 1" "r \<noteq> ?Y" | "?Y + ?H - 1 < r" by linarith
  then show ?thesis
    unfolding split set_vram_box_title [OF assms(1,3)] set_vram_box_row [OF assms(1) w]
    using assms(4) by cases (auto simp: vram_in_box_def vram_box_char_def)
qed


text \<open>Where the box goes: its position, or the middle of the screen.\<close>

definition vram_box_pos :: "u16 \<Rightarrow> nat \<Rightarrow> u32 \<Rightarrow> u32 \<Rightarrow> nat" where
  "vram_box_pos flags n a w = (if flags AND TERM_BOX_FLAG_CENTER \<noteq> 0 then (n - unat w) div 2 else unat a)"

lemma vram_box_covers:
  assumes "length (v_cells s) = VRAM_CHARS" "flags AND TERM_BOX_FLAG_RESTORE \<noteq> 0"
    "vram_box_pos flags VRAM_COLS x w + unat w \<le> VRAM_COLS" "vram_box_pos flags VRAM_LINES y h + unat h \<le> VRAM_LINES"
    "length title + 4 \<le> unat w" "2 \<le> unat h"
  shows "\<exists>b cs. vram_box True True x y w h title flags s = Inr (Some b, s\<lparr>v_cells := cs\<rparr>) \<and> length cs = VRAM_CHARS \<and>
    (\<forall>r<VRAM_LINES. \<forall>c<VRAM_COLS. vram_row (s\<lparr>v_cells := cs\<rparr>) r ! c =
       (if vram_in_box (vram_box_pos flags VRAM_COLS x w) (vram_box_pos flags VRAM_LINES y h) (unat w) (unat h) r c
        then vram_cell (vram_box_char (vram_box_pos flags VRAM_COLS x w) (vram_box_pos flags VRAM_LINES y h) (unat w) (unat h)
               title (flags AND TERM_BOX_FLAG_BORDER \<noteq> 0) r c) (v_crt_attr s)
        else vram_row s r ! c)) \<and>
    (\<forall>u. length (v_cells u) = VRAM_CHARS \<and> (\<forall>r<VRAM_LINES. \<forall>c<VRAM_COLS.
         vram_in_box (vram_box_pos flags VRAM_COLS x w) (vram_box_pos flags VRAM_LINES y h) (unat w) (unat h) r c \<or>
         vram_row u r ! c = vram_row s r ! c) \<longrightarrow>
       vram_close_box b u = Inr (u\<lparr>v_cells := v_cells s\<rparr>))"
proof -
  let ?centered = "flags AND TERM_BOX_FLAG_CENTER \<noteq> 0"
  define x' where "x' = (if ?centered then (of_nat VRAM_COLS - w) div 2 else x)"
  define y' where "y' = (if ?centered then (of_nat VRAM_LINES - h) div 2 else y)"
  have half: "unat ((of_nat n - v) div 2 :: u32) = (n - unat v) div 2" if "unat v \<le> n" "n \<le> 80" for n and v :: u32
  proof -
    have n: "unat (of_nat n :: u32) = n" using that(2) by (simp add: unat_of_nat_u32)
    then have "unat (of_nat n - v :: u32) = n - unat v" using that(1) by (simp add: unat_sub word_le_nat_alt)
    then show ?thesis by (simp add: unat_div)
  qed
  have pos: "vram_box_pos flags VRAM_COLS x w = unat x'" "vram_box_pos flags VRAM_LINES y h = unat y'"
    using assms(3,4) half [of w VRAM_COLS] half [of h VRAM_LINES] by (simp_all add: vram_box_pos_def x'_def y'_def)
  note fit = assms(3,4) [unfolded pos]
  let ?X = "unat x'" and ?Y = "unat y'" and ?W = "unat w" and ?H = "unat h"
  let ?border = "flags AND TERM_BOX_FLAG_BORDER \<noteq> 0"
  have w: "?X < VRAM_COLS" "2 \<le> ?W" using assms(5) fit(1) by simp_all
  have yh: "unat (y' + h) = ?Y + ?H" using unat_box_arith(4) [of y' h] fit(2) assms(6) by simp
  define f where "f = (\<lambda>r. take ?W (drop ?X (vram_row s r)))"
  have save: "vram_save_lines x' ?W [?Y..<?Y + ?H] s = Inr (concat (map f [?Y..<?Y + ?H]))"
    unfolding f_def using assms(1) fit w by (intro vram_save_lines_rows) auto
  define ps where "ps = vram_box_cells x' y' w h title ?border"
  have mem: "(c, r, ch) \<in> set ps \<longleftrightarrow> vram_in_box ?X ?Y ?W ?H r c \<and> ch = vram_box_char ?X ?Y ?W ?H title ?border r c" for c r ch
    unfolding ps_def by (rule set_vram_box_cells [OF fit assms(5,6)])
  have "\<forall>(c, r, ch)\<in>set ps. c < VRAM_COLS \<and> r < VRAM_LINES" using fit by (auto simp: mem vram_in_box_def)
  from vram_put_cells_rows [OF assms(1) this] obtain cs where
    cs: "vram_put_cells ps s = Inr (s\<lparr>v_cells := cs\<rparr>)" "length cs = VRAM_CHARS"
    "\<forall>r<VRAM_LINES. \<forall>x<VRAM_COLS. if \<exists>c. (x, r, c) \<in> set ps
       then \<exists>c. (x, r, c) \<in> set ps \<and> vram_row (s\<lparr>v_cells := cs\<rparr>) r ! x = vram_cell c (v_crt_attr s)
       else vram_row (s\<lparr>v_cells := cs\<rparr>) r ! x = vram_row s r ! x" by blast
  have picture: "vram_row (s\<lparr>v_cells := cs\<rparr>) r ! c =
       (if vram_in_box ?X ?Y ?W ?H r c then vram_cell (vram_box_char ?X ?Y ?W ?H title ?border r c) (v_crt_attr s) else vram_row s r ! c)"
    if "r < VRAM_LINES" "c < VRAM_COLS" for r c
    using cs(3) [rule_format, OF that] by (simp add: mem split: if_splits)
  define b where "b = \<lparr>box_x = ucast x', box_y = ucast y', box_width = ucast w, box_height = ucast h, box_flags = flags,
    box_savedata = Some (concat (map f [?Y..<?Y + ?H]))\<rparr>"
  have box: "vram_box True True x y w h title flags s = Inr (Some b, s\<lparr>v_cells := cs\<rparr>)"
    using assms(2) save cs(1) by (simp add: vram_box_def x'_def [symmetric] y'_def [symmetric] yh ps_def b_def)
  have u16: "unat (ucast v :: u16) = unat v" if "unat v \<le> 80" for v :: u32
    using that by (simp add: unsigned_ucast_eq take_bit_nat_eq_self)
  have b: "unat (box_x b) = ?X" "unat (box_y b) = ?Y" "unat (box_width b) = ?W" "unat (box_height b) = ?H"
    using fit by (simp_all add: b_def u16)
  have len: "length (f r) = ?W" if "r < VRAM_LINES" for r using that assms(1) fit(1) by (simp add: f_def)
  have "vram_close_box b u = Inr (u\<lparr>v_cells := v_cells s\<rparr>)"
    if u: "length (v_cells u) = VRAM_CHARS" and same: "\<And>r c. r < VRAM_LINES \<Longrightarrow> c < VRAM_COLS \<Longrightarrow>
       vram_in_box ?X ?Y ?W ?H r c \<or> vram_row u r ! c = vram_row s r ! c" for u
  proof -
    have "unat (box_x b) + ?W \<le> VRAM_COLS" "\<forall>r\<in>set [?Y..<?Y + ?H]. r < VRAM_LINES \<and> length (f r) = ?W"
      using fit b(1) len by auto
    from vram_restore_lines_rows [OF u this distinct_upt] obtain cs' where
      r: "vram_restore_lines (box_x b) ?W [?Y..<?Y + ?H] (concat (map f [?Y..<?Y + ?H])) u = Inr (u\<lparr>v_cells := cs'\<rparr>)"
      "length cs' = VRAM_CHARS"
      "\<And>r c. r < VRAM_LINES \<Longrightarrow> c < VRAM_COLS \<Longrightarrow> vram_row (u\<lparr>v_cells := cs'\<rparr>) r ! c =
         (if r \<in> set [?Y..<?Y + ?H] \<and> ?X \<le> c \<and> c < ?X + ?W then f r ! (c - ?X) else vram_row u r ! c)"
      unfolding b(1) by blast
    have "v_cells (u\<lparr>v_cells := cs'\<rparr>) = v_cells s"
    proof (rule vram_cells_eqI)
      fix r c assume rc: "r < VRAM_LINES" "c < VRAM_COLS"
      show "vram_row (u\<lparr>v_cells := cs'\<rparr>) r ! c = vram_row s r ! c"
        using r(3) [OF rc] same [OF rc] rc assms(1) by (auto simp: f_def vram_in_box_def)
    qed (use r(2) assms(1) in simp_all)
    then have "cs' = v_cells s" by simp
    then show ?thesis using r(1) assms(2) b by (simp add: vram_close_box_def) (simp add: b_def)
  qed
  then show ?thesis unfolding pos using box cs(2) picture by (intro exI [of _ b] exI [of _ cs]) blast
qed

text \<open>C29. Opening and closing a box: a box with room for its title that lies on the screen (or is to be
  centered on it) and saves what it covers is drawn without a fault; its cells show exactly its
  frame, its title and an empty middle in the current colors, all other cells and the cursor are
  unchanged. Whatever is written inside it afterwards, closing it gives every cell the content it
  had before the box was opened.\<close>

theorem vram_box_restores:
  assumes "length (v_cells s) = VRAM_CHARS" "flags AND TERM_BOX_FLAG_RESTORE \<noteq> 0"
    "vram_box_pos flags VRAM_COLS x w + unat w \<le> VRAM_COLS" "vram_box_pos flags VRAM_LINES y h + unat h \<le> VRAM_LINES"
    "length title + 4 \<le> unat w" "2 \<le> unat h"
  shows "\<exists>b cs. vram_box True True x y w h title flags s = Inr (Some b, s\<lparr>v_cells := cs\<rparr>) \<and> length cs = VRAM_CHARS \<and>
    (\<forall>r<VRAM_LINES. \<forall>c<VRAM_COLS. vram_row (s\<lparr>v_cells := cs\<rparr>) r ! c =
       (if vram_in_box (vram_box_pos flags VRAM_COLS x w) (vram_box_pos flags VRAM_LINES y h) (unat w) (unat h) r c
        then vram_cell (vram_box_char (vram_box_pos flags VRAM_COLS x w) (vram_box_pos flags VRAM_LINES y h) (unat w) (unat h)
               title (flags AND TERM_BOX_FLAG_BORDER \<noteq> 0) r c) (v_crt_attr s)
        else vram_row s r ! c)) \<and>
    (\<forall>u. length (v_cells u) = VRAM_CHARS \<and> (\<forall>r<VRAM_LINES. \<forall>c<VRAM_COLS.
         vram_in_box (vram_box_pos flags VRAM_COLS x w) (vram_box_pos flags VRAM_LINES y h) (unat w) (unat h) r c \<or>
         vram_row u r ! c = vram_row s r ! c) \<longrightarrow>
       vram_close_box b u = Inr (u\<lparr>v_cells := v_cells s\<rparr>))"
  by (rule vram_box_covers [OF assms])

theorem vram_box_restores_witness:
  "\<exists>b cs. vram_box True True 2 2 10 3 [0x41] (TERM_BOX_FLAG_BORDER OR TERM_BOX_FLAG_RESTORE) vram_demo = Inr (Some b, vram_demo\<lparr>v_cells := cs\<rparr>) \<and>
    vram_row (vram_demo\<lparr>v_cells := cs\<rparr>) 2 ! 5 = vram_cell 0x41 (v_crt_attr vram_demo) \<and>
    vram_close_box b (vram_demo\<lparr>v_cells := cs\<rparr>) = Inr vram_demo"
proof -
  have len: "length (v_cells vram_demo) = VRAM_CHARS" using vram_demo_full by (simp add: vram_full_def)
  let ?flags = "TERM_BOX_FLAG_BORDER OR TERM_BOX_FLAG_RESTORE"
  have f: "?flags AND TERM_BOX_FLAG_RESTORE \<noteq> 0" "?flags AND TERM_BOX_FLAG_CENTER = 0" by simp_all
  have pos: "vram_box_pos ?flags VRAM_COLS 2 10 = 2" "vram_box_pos ?flags VRAM_LINES 2 3 = 2" using f(2) by (simp_all add: vram_box_pos_def)
  obtain b cs where b: "vram_box True True 2 2 10 3 [0x41] ?flags vram_demo = Inr (Some b, vram_demo\<lparr>v_cells := cs\<rparr>)"
    "length cs = VRAM_CHARS"
    "\<And>r c. r < VRAM_LINES \<Longrightarrow> c < VRAM_COLS \<Longrightarrow> vram_row (vram_demo\<lparr>v_cells := cs\<rparr>) r ! c =
       (if vram_in_box 2 2 10 3 r c
        then vram_cell (vram_box_char 2 2 10 3 [0x41] (?flags AND TERM_BOX_FLAG_BORDER \<noteq> 0) r c) (v_crt_attr vram_demo)
        else vram_row vram_demo r ! c)"
    "\<And>u. length (v_cells u) = VRAM_CHARS \<and> (\<forall>r<VRAM_LINES. \<forall>c<VRAM_COLS.
         vram_in_box 2 2 10 3 r c \<or> vram_row u r ! c = vram_row vram_demo r ! c) \<Longrightarrow>
       vram_close_box b u = Inr (u\<lparr>v_cells := v_cells vram_demo\<rparr>)"
    using vram_box_restores [OF len f(1), of 2 10 2 3 "[0x41]", unfolded pos] by auto
  have "vram_close_box b (vram_demo\<lparr>v_cells := cs\<rparr>) = Inr (vram_demo\<lparr>v_cells := cs, v_cells := v_cells vram_demo\<rparr>)"
    using b(2,3) by (intro b(4)) simp
  moreover have "vram_row (vram_demo\<lparr>v_cells := cs\<rparr>) 2 ! 5 = vram_cell 0x41 (v_crt_attr vram_demo)"
    using b(3) [of 2 5] by (simp add: vram_in_box_def vram_box_char_def)
  ultimately show ?thesis using b(1) by auto
qed

end
