(* ===== verification/Edbuf.thy ===== *)
theory Edbuf
  imports Elua_Term
begin

text \<open>
  The buffer of the full-screen editor: \<^verbatim>\<open>src/editor/edalloc.c\<close>, which holds the lines of a file in heap
  blocks, and the utilities of \<^verbatim>\<open>src/editor/edutils.c\<close>, which display them. A line is its whole block of
  bytes, so that strings that lost their end are seen; blocks are sized in multiples of 24 bytes. The
  array of lines has more entries than the file has lines; those hold nothing or a stale pointer, and
  reading one is a fault of the model. What is sent
  to the screen is a list of calls of \<^verbatim>\<open>edhw.c\<close>. The 16 bit counters of columns and lines are integers;
  the files and lines of the targets are shorter than \<open>2 ^ 15\<close>.
\<close>

subsection \<open>State\<close>

abbreviation TERM_LINES :: int where "TERM_LINES \<equiv> 30"
abbreviation TERM_COLS :: int where "TERM_COLS \<equiv> 80"
abbreviation EDITOR_LINES :: int where "EDITOR_LINES \<equiv> 29"
abbreviation BUFFER_ALLOCATOR_EXTRA_LINES :: int where "BUFFER_ALLOCATOR_EXTRA_LINES \<equiv> 10"
abbreviation LINE_ALLOCATOR_ZONE_SIZE :: nat where "LINE_ALLOCATOR_ZONE_SIZE \<equiv> 24"
abbreviation FILE_ESTIMATED_LINE_SIZE :: int where "FILE_ESTIMATED_LINE_SIZE \<equiv> 40"
abbreviation LINE_BUFFER_SIZE :: nat where "LINE_BUFFER_SIZE \<equiv> 500"
abbreviation EDFLAG_DIRTY :: u8 where "EDFLAG_DIRTY \<equiv> 1"
abbreviation EDFLAG_WAS_EMPTY :: u8 where "EDFLAG_WAS_EMPTY \<equiv> 2"
abbreviation EDFLAG_SELECT :: u8 where "EDFLAG_SELECT \<equiv> 4"
abbreviation EDFLAG_DEL_LAST_LINE :: u8 where "EDFLAG_DEL_LAST_LINE \<equiv> 8"

datatype edhw_call = EdGoto int int | EdWrite u8 | EdInvert bool | EdLong bool | EdMark bool
  | EdSelected int bool | EdClearLine int

text \<open>
  \<open>eb_oom\<close> says which of the coming allocations fail (none when it is empty), \<open>eb_junk\<close> what fresh memory
  holds, \<open>eb_out\<close> the calls sent to the screen.
\<close>

record edbuf =
  eb_flags :: u8
  eb_fpath :: "u8 list option"
  eb_file_lines :: int
  eb_allocated :: int
  eb_lines :: "u8 list option list option"
  ed_startx :: int
  ed_startline :: int
  ed_cursorx :: int
  ed_cursory :: int
  ed_nlines :: int
  ed_userstartx :: int
  ed_userx :: int
  ed_firstsel :: int
  ed_lastsel :: int
  ed_sellines :: "u8 list option list option"
  eb_oom :: "bool list"
  eb_junk :: "nat \<Rightarrow> u8"
  eb_out :: "edhw_call list"

text \<open>Operations change the buffer, return a value or fault.\<close>

type_synonym 'a edm = "edbuf \<Rightarrow> c_fault + 'a \<times> edbuf"

definition ed_ret :: "'a \<Rightarrow> 'a edm" where
  "ed_ret x b = Inr (x, b)"

definition ed_bind :: "'a edm \<Rightarrow> ('a \<Rightarrow> 'b edm) \<Rightarrow> 'b edm" where
  "ed_bind m f b = (case m b of Inl e \<Rightarrow> Inl e | Inr (x, b') \<Rightarrow> f x b')"

definition ed_seq :: "unit edm \<Rightarrow> 'b edm \<Rightarrow> 'b edm" where
  "ed_seq m k = ed_bind m (\<lambda>_. k)"

definition ed_get :: "(edbuf \<Rightarrow> 'a) \<Rightarrow> ('a \<Rightarrow> 'b edm) \<Rightarrow> 'b edm" where
  "ed_get f k b = k (f b) b"

definition ed_set :: "(edbuf \<Rightarrow> edbuf) \<Rightarrow> unit edm" where
  "ed_set f b = Inr ((), f b)"

definition ed_fail :: "c_fault \<Rightarrow> 'a edm" where
  "ed_fail e b = Inl e"

definition ed_check :: "bool \<Rightarrow> unit edm" where
  "ed_check ok = (if ok then ed_ret () else ed_fail OutOfBounds)"

definition ed_when :: "bool \<Rightarrow> unit edm \<Rightarrow> unit edm" where
  "ed_when c m = (if c then m else ed_ret ())"

primrec ed_for :: "'x list \<Rightarrow> ('x \<Rightarrow> unit edm) \<Rightarrow> unit edm" where
  "ed_for [] f = ed_ret ()"
| "ed_for (x # xs) f = ed_seq (f x) (ed_for xs f)"

definition ed_call :: "edhw_call \<Rightarrow> unit edm" where
  "ed_call c = ed_set (\<lambda>b. b\<lparr>eb_out := eb_out b @ [c]\<rparr>)"

text \<open>A string in a block, up to its zero; a block without one is read past its end.\<close>

definition ed_str :: "u8 list \<Rightarrow> u8 list edm" where
  "ed_str p = (if 0 \<in> set p then ed_ret (takeWhile (\<lambda>c. c \<noteq> 0) p) else ed_fail OutOfBounds)"

definition ed_store :: "nat \<Rightarrow> u8 list \<Rightarrow> u8 list \<Rightarrow> u8 list edm" where
  "ed_store i bs p = (if i + length bs \<le> length p then ed_ret (overwrite p i bs) else ed_fail OutOfBounds)"

definition ed_malloc :: "bool edm" where
  "ed_malloc b = (case eb_oom b of [] \<Rightarrow> Inr (True, b) | x # xs \<Rightarrow> Inr (\<not> x, b\<lparr>eb_oom := xs\<rparr>))"

subsection \<open>Lines\<close>

definition edutils_line_get :: "int \<Rightarrow> u8 list edm" where
  "edutils_line_get i = ed_get eb_lines (\<lambda>ls. case ls of
     None \<Rightarrow> ed_fail NullDeref
   | Some ps \<Rightarrow> ed_get eb_file_lines (\<lambda>n.
       if i < 0 \<or> n \<le> i \<or> int (length ps) \<le> i then ed_fail OutOfBounds
       else (case ps ! nat i of None \<Rightarrow> ed_fail NullDeref | Some p \<Rightarrow> ed_ret p)))"

definition edutils_line_set :: "int \<Rightarrow> u8 list \<Rightarrow> unit edm" where
  "edutils_line_set i p = ed_get eb_lines (\<lambda>ls. case ls of
     None \<Rightarrow> ed_fail NullDeref
   | Some ps \<Rightarrow> if i < 0 \<or> int (length ps) \<le> i then ed_fail OutOfBounds
       else ed_set (\<lambda>b. b\<lparr>eb_lines := Some (ps[nat i := Some p])\<rparr>))"

definition edalloc_round_size :: "nat \<Rightarrow> nat" where
  "edalloc_round_size sz = ((sz + LINE_ALLOCATOR_ZONE_SIZE - 1) div LINE_ALLOCATOR_ZONE_SIZE) * LINE_ALLOCATOR_ZONE_SIZE"

definition edalloc_line_malloc :: "nat \<Rightarrow> u8 list option edm" where
  "edalloc_line_malloc sz =
     (if edalloc_round_size sz = 0 then ed_ret None
      else ed_bind ed_malloc (\<lambda>ok. ed_get eb_junk (\<lambda>junk.
        ed_ret (if ok then Some (map junk [0..<edalloc_round_size sz]) else None))))"

definition edalloc_line_realloc :: "u8 list \<Rightarrow> nat \<Rightarrow> u8 list option edm" where
  "edalloc_line_realloc p sz = ed_bind (ed_str p) (\<lambda>s.
     if edalloc_round_size sz = edalloc_round_size (length s + 1) then ed_ret (Some p)
     else ed_bind ed_malloc (\<lambda>ok. ed_get eb_junk (\<lambda>junk.
       ed_ret (if ok then Some (take (edalloc_round_size sz) p @ map junk [length p..<edalloc_round_size sz]) else None))))"

text \<open>The array of lines is reallocated when it is full or has many unused entries; new entries are not initialized.\<close>

definition ed_resize :: "nat \<Rightarrow> u8 list option list \<Rightarrow> u8 list option list" where
  "ed_resize n ps = take n ps @ replicate (n - length ps) None"

definition edalloc_buffer_change_lines :: "int \<Rightarrow> int edm" where
  "edalloc_buffer_change_lines delta =
     ed_seq (ed_set (\<lambda>b. b\<lparr>eb_file_lines := eb_file_lines b + delta\<rparr>))
     (ed_get eb_file_lines (\<lambda>n. ed_get eb_allocated (\<lambda>a.
       if (if delta > 0 then n \<ge> a else n + 2 * BUFFER_ALLOCATOR_EXTRA_LINES < a)
       then ed_seq (ed_set (\<lambda>b. b\<lparr>eb_allocated := n + BUFFER_ALLOCATOR_EXTRA_LINES\<rparr>))
         (ed_bind ed_malloc (\<lambda>ok.
           if ok then ed_seq (ed_set (\<lambda>b. b\<lparr>eb_lines :=
               Some (ed_resize (nat (n + BUFFER_ALLOCATOR_EXTRA_LINES)) (case eb_lines b of None \<Rightarrow> [] | Some ps \<Rightarrow> ps))\<rparr>)) (ed_ret 1)
           else ed_seq (ed_set (\<lambda>b. b\<lparr>eb_lines := None\<rparr>)) (ed_ret 0)))
       else ed_ret 1)))"

text \<open>\<^verbatim>\<open>memmove\<close> of \<open>n\<close> pointers in the array of lines.\<close>

definition ed_move_lines :: "int \<Rightarrow> int \<Rightarrow> int \<Rightarrow> unit edm" where
  "ed_move_lines d s n = ed_get eb_lines (\<lambda>ls. case ls of
     None \<Rightarrow> ed_fail NullDeref
   | Some ps \<Rightarrow> if d < 0 \<or> s < 0 \<or> n < 0 \<or> d + n > int (length ps) \<or> s + n > int (length ps) then ed_fail OutOfBounds
       else ed_set (\<lambda>b. b\<lparr>eb_lines := Some (overwrite ps (nat d) (take (nat n) (drop (nat s) ps)))\<rparr>))"

definition edalloc_buffer_remove_line :: "int \<Rightarrow> unit edm" where
  "edalloc_buffer_remove_line line = ed_get eb_file_lines (\<lambda>total.
     ed_bind (edutils_line_get line) (\<lambda>_.
     ed_seq (ed_when (line < total - 1) (ed_move_lines line (line + 1) (total - line - 1)))
     (ed_bind (edalloc_buffer_change_lines (-1)) (\<lambda>_. ed_ret ()))))"

definition edalloc_buffer_add_line :: "int \<Rightarrow> u8 list \<Rightarrow> int edm" where
  "edalloc_buffer_add_line line p = ed_bind (edalloc_buffer_change_lines 1) (\<lambda>r.
     if r = 0 then ed_ret 0
     else ed_get eb_file_lines (\<lambda>total.
       ed_seq (ed_when (line < total - 1) (ed_move_lines (line + 1) line (total - line - 1)))
       (ed_seq (edutils_line_set line p) (ed_ret 1))))"

subsection \<open>The selection buffer\<close>

definition edalloc_clear_selection :: "unit edm" where
  "edalloc_clear_selection = ed_get ed_sellines (\<lambda>ls.
     if ls = None then ed_ret ()
     else ed_set (\<lambda>b. b\<lparr>ed_sellines := None, ed_firstsel := -1, ed_lastsel := -1\<rparr>))"

definition edalloc_reset_used_selection :: "unit edm" where
  "edalloc_reset_used_selection = ed_get ed_sellines (\<lambda>ls.
     if ls = None then ed_ret ()
     else ed_set (\<lambda>b. b\<lparr>ed_sellines := None, ed_firstsel := -1, ed_lastsel := -1\<rparr>))"

text \<open>The copies of the lines \<open>i\<close>, \<open>i + 1\<close>, \<dots>; \<open>None\<close> when memory runs out.\<close>

primrec ed_copy_lines :: "nat \<Rightarrow> int \<Rightarrow> u8 list option list option edm" where
  "ed_copy_lines 0 i = ed_ret (Some [])"
| "ed_copy_lines (Suc n) i =
     ed_bind (edutils_line_get i) (\<lambda>p. ed_bind (ed_str p) (\<lambda>s.
     ed_bind (edalloc_line_malloc (length s + 1)) (\<lambda>q. case q of
       None \<Rightarrow> ed_ret None
     | Some m \<Rightarrow> ed_bind (ed_store 0 (s @ [0]) m) (\<lambda>m'.
         ed_bind (ed_copy_lines n (i + 1)) (\<lambda>rest.
           ed_ret (case rest of None \<Rightarrow> None | Some ms \<Rightarrow> Some (Some m' # ms)))))))"

definition edalloc_fill_selection :: "int edm" where
  "edalloc_fill_selection = ed_get ed_firstsel (\<lambda>first. ed_get ed_lastsel (\<lambda>last_line.
     ed_bind ed_malloc (\<lambda>ok.
       if \<not> ok then ed_seq (ed_set (\<lambda>b. b\<lparr>ed_sellines := None\<rparr>)) (ed_ret 0)
       else ed_bind (ed_copy_lines (nat (last_line - first + 1)) first) (\<lambda>r. case r of
         None \<Rightarrow> ed_seq (ed_set (\<lambda>b. b\<lparr>ed_sellines := None, ed_firstsel := -1, ed_lastsel := -1\<rparr>)) (ed_ret 0)
       | Some ms \<Rightarrow> ed_seq (ed_set (\<lambda>b. b\<lparr>ed_sellines := Some ms\<rparr>)) (ed_ret 1)))))"

subsection \<open>Utilities\<close>

definition edutils_get_actsize :: "u8 list \<Rightarrow> int" where
  "edutils_get_actsize s = int (length (dropWhile (\<lambda>c. c = 13 \<or> c = 10) (rev s)))"

definition edutils_is_flag_set :: "u8 \<Rightarrow> edbuf \<Rightarrow> bool" where
  "edutils_is_flag_set flag b \<longleftrightarrow> eb_flags b AND flag \<noteq> 0"

definition edutils_set_flag :: "u8 \<Rightarrow> bool \<Rightarrow> unit edm" where
  "edutils_set_flag flag v = ed_set (\<lambda>b. b\<lparr>eb_flags := (if v then eb_flags b OR flag else eb_flags b AND NOT flag)\<rparr>)"

definition edutilsh_is_selected :: "int \<Rightarrow> edbuf \<Rightarrow> bool" where
  "edutilsh_is_selected i b \<longleftrightarrow> edutils_is_flag_set EDFLAG_SELECT b \<and>
     min (ed_firstsel b) (ed_lastsel b) \<le> i \<and> i \<le> max (ed_firstsel b) (ed_lastsel b)"

definition ed_write_all :: "u8 list \<Rightarrow> unit edm" where
  "ed_write_all cs = ed_for cs (\<lambda>c. ed_call (EdWrite c))"

definition c_decimal :: "int \<Rightarrow> u8 list" where
  "c_decimal i = (if i < 0 then 0x2D # c_dec (nat (- i)) else c_dec (nat i))"

text \<open>The texts of the format string of the status line.\<close>

definition ed_txt_none :: "u8 list" where "ed_txt_none = [0x28, 0x6E, 0x6F, 0x6E, 0x65, 0x29]"
definition ed_txt_col :: "u8 list" where "ed_txt_col = [0x20, 0x20, 0x20, 0x43, 0x6F, 0x6C, 0x3A, 0x20]"
definition ed_txt_line :: "u8 list" where "ed_txt_line = [0x20, 0x20, 0x20, 0x4C, 0x69, 0x6E, 0x65, 0x3A, 0x20]"
definition ed_txt_buffer :: "u8 list" where
  "ed_txt_buffer = [0x20, 0x20, 0x20, 0x42, 0x75, 0x66, 0x66, 0x65, 0x72, 0x3A, 0x20]"
definition ed_txt_help :: "u8 list" where
  "ed_txt_help = [0x20, 0x6C, 0x69, 0x6E, 0x65, 0x28, 0x73, 0x29, 0x20, 0x20, 0x20, 0x46, 0x31, 0x20, 0x2D, 0x20, 0x68, 0x65, 0x6C, 0x70]"

definition edutils_status_text :: "edbuf \<Rightarrow> u8 list" where
  "edutils_status_text b = take (nat TERM_COLS - 1)
     ([0x20, if edutils_is_flag_set EDFLAG_DIRTY b then 0x2A else 0x20, 0x20] @
      (case eb_fpath b of None \<Rightarrow> ed_txt_none | Some f \<Rightarrow> f) @
      ed_txt_col @ c_decimal (ed_cursorx b + ed_startx b + 1) @
      ed_txt_line @ c_decimal (ed_cursory b + ed_startline b + 1) @ [0x2F] @ c_decimal (eb_file_lines b) @
      ed_txt_buffer @ c_decimal (if ed_sellines b = None then 0 else ed_lastsel b - ed_firstsel b + 1) @ ed_txt_help)"

definition edutils_display_status :: "unit edm" where
  "edutils_display_status =
     ed_seq (ed_call (EdInvert True)) (ed_get edutils_status_text (\<lambda>temp.
     ed_seq (ed_call (EdGoto 0 (TERM_LINES - 1)))
     (ed_seq (ed_write_all temp)
     (ed_seq (ed_write_all (replicate (nat TERM_COLS - length temp) 0x20))
     (ed_seq (ed_call (EdInvert False))
     (ed_get ed_cursorx (\<lambda>x. ed_get ed_cursory (\<lambda>y. ed_call (EdGoto x y)))))))))"

text \<open>The part of a line from column \<open>x\<close> on that fits on the screen.\<close>

definition edutils_window :: "int \<Rightarrow> u8 list \<Rightarrow> u8 list" where
  "edutils_window x s = (if 0 \<le> x \<and> x < int (length s) then take (nat TERM_COLS) (drop (nat x) s) else [])"

definition edutils_line_display :: "int \<Rightarrow> int \<Rightarrow> unit edm" where
  "edutils_line_display scrline i =
     ed_bind (edutils_line_get i) (\<lambda>p. ed_bind (ed_str p) (\<lambda>s.
     ed_get ed_startx (\<lambda>x. ed_get (edutilsh_is_selected i) (\<lambda>sel.
     ed_seq (ed_call (EdGoto 0 scrline))
     (ed_seq (ed_when (edutils_get_actsize s > TERM_COLS) (ed_call (EdLong True)))
     (ed_seq (ed_when sel (ed_call (EdMark True)))
     (ed_seq (ed_write_all (edutils_window x s))
     (ed_seq (ed_write_all (replicate (nat TERM_COLS - length (edutils_window x s)) 0x20))
     (ed_seq (ed_when (edutils_get_actsize s > TERM_COLS) (ed_call (EdLong False)))
     (ed_when sel (ed_call (EdMark False)))))))))))) "

definition edutils_show_screen :: "unit edm" where
  "edutils_show_screen =
     ed_seq (ed_set (\<lambda>b. b\<lparr>ed_nlines := (if ed_startline b + EDITOR_LINES > eb_file_lines b
                                         then eb_file_lines b - ed_startline b else EDITOR_LINES)\<rparr>))
     (ed_get ed_startline (\<lambda>st. ed_get ed_nlines (\<lambda>n.
     ed_seq (ed_for [st..st + n - 1] (\<lambda>i. edutils_line_display (i - st) i))
     (ed_get (edutils_is_flag_set EDFLAG_DEL_LAST_LINE) (\<lambda>del.
     ed_seq (ed_when del
       (ed_seq (ed_call (EdGoto 0 n)) (ed_seq (ed_write_all (replicate (nat TERM_COLS) 0x20))
         (edutils_set_flag EDFLAG_DEL_LAST_LINE False))))
     edutils_display_status)))))"

definition edutils_update_selection :: "unit edm" where
  "edutils_update_selection = ed_get ed_startline (\<lambda>st. ed_get ed_nlines (\<lambda>n.
     ed_for [st..st + n - 1] (\<lambda>i. ed_get (edutilsh_is_selected i) (\<lambda>sel. ed_call (EdSelected (i - st) sel)))))"

definition edutils_number_validator :: "u8 list \<Rightarrow> u8 \<Rightarrow> bool" where
  "edutils_number_validator input c \<longleftrightarrow> (0x30 \<le> c \<and> c \<le> 0x39) \<or> (input = [] \<and> c = 0x2D)"

definition edutils_fname_validator :: "u8 list \<Rightarrow> u8 \<Rightarrow> bool" where
  "edutils_fname_validator input c \<longleftrightarrow> 0x21 \<le> c \<and> c \<le> 0x7E"

subsection \<open>Files\<close>

text \<open>
  One \<^verbatim>\<open>fgets\<close> of at most 499 characters and the rest of the file; the line without its end, as a
  string.
\<close>

fun ed_fgets :: "nat \<Rightarrow> u8 list \<Rightarrow> u8 list \<times> u8 list" where
  "ed_fgets 0 cs = ([], cs)"
| "ed_fgets n [] = ([], [])"
| "ed_fgets (Suc n) (c # cs) = (if c = 10 then ([c], cs) else (case ed_fgets n cs of (l, r) \<Rightarrow> (c # l, r)))"

definition ed_strip :: "u8 list \<Rightarrow> u8 list" where
  "ed_strip buf = rev (dropWhile (\<lambda>c. c = 13 \<or> c = 10) (rev (takeWhile (\<lambda>c. c \<noteq> 0) buf)))"

lemma ed_fgets_length: "length (snd (ed_fgets n cs)) \<le> length cs"
  by (induction n cs rule: ed_fgets.induct) (auto split: prod.splits)

lemma ed_fgets_shorter: "cs \<noteq> [] \<Longrightarrow> length (snd (ed_fgets (Suc n) cs)) < length cs"
  using ed_fgets_length [of n "tl cs"] by (cases cs) (auto split: prod.splits)

definition ed_new_line :: "u8 list \<Rightarrow> int edm" where
  "ed_new_line s = ed_bind (edalloc_line_malloc (length s + 1)) (\<lambda>q. case q of
     None \<Rightarrow> ed_ret 0
   | Some m \<Rightarrow> ed_get eb_file_lines (\<lambda>i.
       ed_bind (ed_store 0 (s @ [0]) m) (\<lambda>m'. ed_seq (edutils_line_set i m') (edalloc_buffer_change_lines 1))))"

function ed_read_lines :: "u8 list \<Rightarrow> int edm" where
  "ed_read_lines cs =
     (if cs = [] then ed_ret 1
      else case ed_fgets (LINE_BUFFER_SIZE - 1) cs of (l, rest) \<Rightarrow>
        if length rest < length cs
        then ed_bind (ed_new_line (ed_strip l)) (\<lambda>r. if r = 0 then ed_ret 0 else ed_read_lines rest)
        else ed_ret 0)"
  by auto
termination by (relation "measure length") auto

declare ed_read_lines.simps [simp del]

text \<open>
  \<^verbatim>\<open>edalloc_buffer_new\<close>: \<open>file\<close> is the content of the file, \<open>None\<close> when there is none. The result is \<open>None\<close>
  when memory runs out.
\<close>

definition ed_empty :: "u8 list option \<Rightarrow> int \<Rightarrow> bool list \<Rightarrow> (nat \<Rightarrow> u8) \<Rightarrow> edbuf" where
  "ed_empty fname fsize oom junk =
     (let a = fsize div FILE_ESTIMATED_LINE_SIZE + BUFFER_ALLOCATOR_EXTRA_LINES in
     \<lparr>eb_flags = 0, eb_fpath = fname, eb_file_lines = 0, eb_allocated = a, eb_lines = Some (replicate (nat a) None),
      ed_startx = 0, ed_startline = 0, ed_cursorx = 0, ed_cursory = 0, ed_nlines = 0, ed_userstartx = 0, ed_userx = 0,
      ed_firstsel = 0, ed_lastsel = 0, ed_sellines = None, eb_oom = oom, eb_junk = junk, eb_out = []\<rparr>)"

definition edalloc_buffer_new :: "u8 list option \<Rightarrow> u8 list option \<Rightarrow> bool list \<Rightarrow> (nat \<Rightarrow> u8) \<Rightarrow> c_fault + edbuf option" where
  "edalloc_buffer_new fname0 file0 oom junk =
     (let fname = (if fname0 = Some [] then None else fname0);
          file = (if fname = None then None else file0);
          needed = (if fname = None then 3 else 4)
      in if True \<in> set (take needed oom) then Inr None
         else let fsize = (case file of None \<Rightarrow> 0 | Some cs \<Rightarrow> int (length cs));
                  b0 = ed_empty fname fsize (drop needed oom) junk
              in case (if fsize > 0 then ed_read_lines (the file) b0
                       else ed_bind (ed_new_line []) (\<lambda>r. if r = 0 then ed_ret 0
                              else ed_seq (edutils_set_flag EDFLAG_WAS_EMPTY True) (ed_ret 1)) b0) of
                   Inl e \<Rightarrow> Inl e
                 | Inr (r, b) \<Rightarrow> Inr (if r = 0 then None else Some b))"

definition edalloc_set_fname :: "u8 list \<Rightarrow> int edm" where
  "edalloc_set_fname name =
     (if name \<noteq> []
      then ed_bind ed_malloc (\<lambda>ok. ed_seq (ed_set (\<lambda>b. b\<lparr>eb_fpath := (if ok then Some name else None)\<rparr>)) (ed_ret (if ok then 1 else 0)))
      else ed_ret 1)"

end
