(* ===== verification/Edit.thy ===== *)
theory Edit
  imports Edbuf
begin

text \<open>
  The keys of the full-screen editor: cursor movement and selection \<^verbatim>\<open>src/editor/edmove.c\<close>, text editing
  \<^verbatim>\<open>src/editor/ededit.c\<close>, and from \<^verbatim>\<open>src/editor/editor.c\<close> the start, saving, the go to line command and
  the dispatch of keys. The cursor is kept as its place on the screen and the line and column where
  the screen starts.
\<close>

subsection \<open>Cursor movement\<close>

definition edmove_save_cursorx :: "unit edm" where
  "edmove_save_cursorx = ed_set (\<lambda>b. b\<lparr>ed_userx := ed_cursorx b, ed_userstartx := ed_startx b\<rparr>)"

definition ed_goto_cursor :: "unit edm" where
  "ed_goto_cursor = ed_get ed_cursorx (\<lambda>x. ed_get ed_cursory (\<lambda>y. ed_call (EdGoto x y)))"

definition edmove_set_cursorx :: "int \<Rightarrow> unit edm" where
  "edmove_set_cursorx x =
     (let cx = (if x \<ge> TERM_COLS then TERM_COLS - 1 else x); newstart = (if x \<ge> TERM_COLS then x - cx else 0) in
     ed_seq (ed_set (\<lambda>b. b\<lparr>ed_cursorx := cx\<rparr>))
     (ed_get ed_startx (\<lambda>st.
     ed_seq (ed_when (newstart \<noteq> st) (ed_seq (ed_set (\<lambda>b. b\<lparr>ed_startx := newstart\<rparr>)) edutils_show_screen))
     ed_goto_cursor)))"

definition ed_lineid :: "edbuf \<Rightarrow> int" where
  "ed_lineid b = ed_startline b + ed_cursory b"

definition ed_linepos :: "edbuf \<Rightarrow> int" where
  "ed_linepos b = ed_startx b + ed_cursorx b"

text \<open>The string of the line with the cursor.\<close>

definition ed_crt_string :: "u8 list edm" where
  "ed_crt_string = ed_get ed_lineid (\<lambda>i. ed_bind (edutils_line_get i) ed_str)"

definition edmove_cursor_check :: "unit edm" where
  "edmove_cursor_check = ed_bind ed_crt_string (\<lambda>s.
     ed_get ed_userstartx (\<lambda>ux0. ed_get ed_userx (\<lambda>ux. ed_get ed_startx (\<lambda>st.
       if ux0 + ux > edutils_get_actsize s then edmove_set_cursorx 0
       else ed_seq (ed_when (st \<noteq> ux0) (ed_seq (ed_set (\<lambda>b. b\<lparr>ed_startx := ux0\<rparr>)) edutils_show_screen))
         (ed_seq (ed_set (\<lambda>b. b\<lparr>ed_cursorx := ux\<rparr>)) ed_goto_cursor)))))"

definition edmove_goto_line :: "int \<Rightarrow> unit edm" where
  "edmove_goto_line y0 = ed_get eb_file_lines (\<lambda>n.
     let y = y0 - 1; sy = max 0 (y - EDITOR_LINES div 2);
         newstart = (if sy + EDITOR_LINES > n then max (n - EDITOR_LINES) 0 else sy)
     in if y \<ge> n then ed_ret ()
        else ed_seq (ed_set (\<lambda>b. b\<lparr>ed_cursory := y - newstart\<rparr>))
          (ed_get ed_startline (\<lambda>st.
          ed_seq (ed_when (newstart \<noteq> st) (ed_seq (ed_set (\<lambda>b. b\<lparr>ed_startline := newstart\<rparr>)) edutils_show_screen))
          (ed_seq edutils_display_status edmove_cursor_check))))"

text \<open>While lines are selected the selection ends at the cursor.\<close>

definition ed_sel_follows :: "unit edm" where
  "ed_sel_follows = ed_get (edutils_is_flag_set EDFLAG_SELECT) (\<lambda>sel.
     ed_when sel (ed_set (\<lambda>b. b\<lparr>ed_lastsel := ed_cursory b + ed_startline b\<rparr>)))"

definition ed_after_move :: "unit edm" where
  "ed_after_move = ed_seq ed_sel_follows (ed_seq edutils_update_selection (ed_seq edutils_display_status edmove_cursor_check))"

definition ed_scroll_to :: "int \<Rightarrow> unit edm" where
  "ed_scroll_to st = ed_seq (ed_set (\<lambda>b. b\<lparr>ed_startline := st\<rparr>)) (ed_seq ed_sel_follows edutils_show_screen)"

definition ed_set_cursory :: "int \<Rightarrow> unit edm" where
  "ed_set_cursory y = ed_set (\<lambda>b. b\<lparr>ed_cursory := y\<rparr>)"

definition edmove_key_up :: "unit edm" where
  "edmove_key_up = ed_get eb_file_lines (\<lambda>n. if n = 0 then ed_ret ()
     else ed_get ed_cursory (\<lambda>y. ed_get ed_startline (\<lambda>st.
       ed_seq (if y = 0 then ed_when (st > 0) (ed_scroll_to (st - 1)) else ed_set_cursory (y - 1)) ed_after_move)))"

definition edmove_key_down :: "unit edm" where
  "edmove_key_down = ed_get eb_file_lines (\<lambda>n. if n = 0 then ed_ret ()
     else ed_get ed_cursory (\<lambda>y. ed_get ed_startline (\<lambda>st. ed_get ed_nlines (\<lambda>nl.
       ed_seq (if y = 0 then ed_when (n > 1) (ed_set_cursory (y + 1))
               else if y = nl - 1 then ed_when (nl = EDITOR_LINES \<and> st + EDITOR_LINES < n) (ed_scroll_to (st + 1))
               else ed_set_cursory (y + 1)) ed_after_move))))"

definition edmove_key_pageup :: "unit edm" where
  "edmove_key_pageup = ed_get eb_file_lines (\<lambda>n. if n = 0 then ed_ret ()
     else ed_get ed_startline (\<lambda>st.
       ed_seq (if st = 0 then ed_set_cursory 0 else ed_scroll_to (max 0 (st - EDITOR_LINES))) ed_after_move))"

definition edmove_key_pagedown :: "unit edm" where
  "edmove_key_pagedown = ed_get eb_file_lines (\<lambda>n. if n = 0 then ed_ret ()
     else ed_get ed_startline (\<lambda>st. ed_get ed_nlines (\<lambda>nl.
       ed_seq (if st + nl = n then ed_set_cursory (nl - 1)
               else ed_scroll_to (min (st + EDITOR_LINES) (n - EDITOR_LINES))) ed_after_move)))"

definition edmove_key_left :: "unit edm" where
  "edmove_key_left = ed_get eb_file_lines (\<lambda>n. if n = 0 then ed_ret ()
     else ed_get ed_cursorx (\<lambda>x. ed_get ed_startx (\<lambda>st.
       ed_seq (if x = 0 then ed_when (st > 0) (ed_seq (ed_set (\<lambda>b. b\<lparr>ed_startx := st - 1\<rparr>)) edutils_show_screen)
               else ed_set (\<lambda>b. b\<lparr>ed_cursorx := x - 1\<rparr>)) edutils_display_status)))"

definition edmove_key_right :: "unit edm" where
  "edmove_key_right = ed_get eb_file_lines (\<lambda>n. if n = 0 then ed_ret ()
     else ed_bind ed_crt_string (\<lambda>s. ed_get ed_cursorx (\<lambda>x. ed_get ed_startx (\<lambda>st.
       if st + x = edutils_get_actsize s then ed_ret ()
       else ed_seq (if x = TERM_COLS - 1 then ed_seq (ed_set (\<lambda>b. b\<lparr>ed_startx := st + 1\<rparr>)) edutils_show_screen
                    else ed_set (\<lambda>b. b\<lparr>ed_cursorx := x + 1\<rparr>)) edutils_display_status))))"

definition c_isspace8 :: "u8 \<Rightarrow> bool" where
  "c_isspace8 c \<longleftrightarrow> c = 0x20 \<or> (9 \<le> c \<and> c \<le> 13)"

definition edmove_key_home :: "unit edm" where
  "edmove_key_home = ed_get eb_file_lines (\<lambda>n. ed_get ed_linepos (\<lambda>pos. if n = 0 \<or> pos = 0 then ed_ret ()
     else ed_bind ed_crt_string (\<lambda>s.
       let firstc = int (length (takeWhile c_isspace8 s)) in edmove_set_cursorx (if firstc = pos then 0 else firstc))))"

definition edmove_key_end :: "unit edm" where
  "edmove_key_end = ed_get eb_file_lines (\<lambda>n. if n = 0 then ed_ret ()
     else ed_bind ed_crt_string (\<lambda>s. ed_get ed_startx (\<lambda>st.
       let k = edutils_get_actsize s in
       ed_seq (ed_set (\<lambda>b. b\<lparr>ed_cursorx := k\<rparr>))
       (ed_seq (if k > TERM_COLS - 1
                then ed_seq (ed_set (\<lambda>b. b\<lparr>ed_cursorx := TERM_COLS - 1, ed_startx := k - (TERM_COLS - 1)\<rparr>)) edutils_show_screen
                else ed_when (st > 0) (ed_seq (ed_set (\<lambda>b. b\<lparr>ed_startx := 0\<rparr>)) edutils_show_screen))
       edutils_display_status))))"

definition edmove_toggle_select :: "unit edm" where
  "edmove_toggle_select = ed_get (edutils_is_flag_set EDFLAG_SELECT) (\<lambda>sel. ed_get eb_file_lines (\<lambda>n.
     if sel then
       ed_seq (edutils_set_flag EDFLAG_SELECT False)
       (ed_seq (ed_set (\<lambda>b. b\<lparr>ed_firstsel := min (ed_firstsel b) (ed_lastsel b), ed_lastsel := max (ed_firstsel b) (ed_lastsel b)\<rparr>))
       (ed_bind edalloc_fill_selection (\<lambda>_. ed_seq edutils_display_status edutils_update_selection)))
     else if n > 0 then
       ed_seq (edutils_set_flag EDFLAG_SELECT True)
       (ed_seq edalloc_clear_selection
       (ed_seq (ed_set (\<lambda>b. b\<lparr>ed_firstsel := ed_lineid b, ed_lastsel := ed_lineid b\<rparr>))
       (ed_get ed_cursory (\<lambda>y. ed_get ed_lineid (\<lambda>i. edutils_line_display y i)))))
     else ed_ret ()))"

definition edmove_clear_selection :: "unit edm" where
  "edmove_clear_selection = ed_seq edalloc_clear_selection edutils_display_status"

definition edmove_handle_key :: "term_key \<Rightarrow> int edm" where
  "edmove_handle_key c = (case c of
       KC_UP \<Rightarrow> ed_seq edmove_key_up (ed_ret 1)
     | KC_DOWN \<Rightarrow> ed_seq edmove_key_down (ed_ret 1)
     | KC_PAGEUP \<Rightarrow> ed_seq edmove_key_pageup (ed_ret 1)
     | KC_PAGEDOWN \<Rightarrow> ed_seq edmove_key_pagedown (ed_ret 1)
     | KC_LEFT \<Rightarrow> ed_seq edmove_key_left (ed_seq edmove_save_cursorx (ed_ret 1))
     | KC_RIGHT \<Rightarrow> ed_seq edmove_key_right (ed_seq edmove_save_cursorx (ed_ret 1))
     | KC_HOME \<Rightarrow> ed_seq edmove_key_home (ed_seq edmove_save_cursorx (ed_ret 1))
     | KC_END \<Rightarrow> ed_seq edmove_key_end (ed_seq edmove_save_cursorx (ed_ret 1))
     | KC_F4 \<Rightarrow> ed_seq edmove_toggle_select (ed_ret 1)
     | KC_CTRL_F4 \<Rightarrow> ed_seq edmove_clear_selection (ed_ret 1)
     | _ \<Rightarrow> ed_ret 0)"

subsection \<open>Text editing\<close>

text \<open>\<^verbatim>\<open>memmove\<close> inside a block.\<close>

definition ed_memmove :: "int \<Rightarrow> int \<Rightarrow> int \<Rightarrow> u8 list \<Rightarrow> u8 list edm" where
  "ed_memmove d s n p =
     (if d < 0 \<or> s < 0 \<or> n < 0 \<or> s + n > int (length p) then ed_fail OutOfBounds
      else ed_store (nat d) (take (nat n) (drop (nat s) p)) p)"

definition ed_put_zero :: "int \<Rightarrow> u8 list \<Rightarrow> u8 list edm" where
  "ed_put_zero i p = (if i < 0 then ed_fail OutOfBounds else ed_store (nat i) [0] p)"

definition ed_dirty :: "unit edm" where
  "ed_dirty = edutils_set_flag EDFLAG_DIRTY True"

definition ededit_addstring :: "int \<Rightarrow> int \<Rightarrow> u8 list \<Rightarrow> int edm" where
  "ededit_addstring lineid linepos str =
     ed_bind (edutils_line_get lineid) (\<lambda>p. ed_bind (ed_str p) (\<lambda>s.
     ed_bind (edalloc_line_realloc p (length s + length str + 1)) (\<lambda>q. case q of
       None \<Rightarrow> ed_ret (-1)
     | Some m \<Rightarrow> ed_bind (ed_str m) (\<lambda>s'.
         ed_bind (if int (length s') = linepos then ed_store (length s') (str @ [0]) m
                  else ed_bind (ed_memmove (linepos + int (length str)) linepos (int (length s') - linepos + 1) m)
                         (ed_store (nat linepos) str)) (\<lambda>m'.
         ed_seq (edutils_line_set lineid m') (ed_ret 1))))))"

definition ededit_key_char :: "u8 \<Rightarrow> int edm" where
  "ededit_key_char c = ed_get ed_lineid (\<lambda>lineid. ed_get ed_linepos (\<lambda>linepos.
     ed_bind (ededit_addstring lineid linepos [c]) (\<lambda>r.
       if r = -1 then ed_ret (-1)
       else ed_seq (edmove_set_cursorx (linepos + 1))
         (ed_get ed_cursory (\<lambda>y. ed_seq (edutils_line_display y lineid)
         (ed_seq ed_dirty (ed_seq edutils_display_status (ed_ret 1))))))))"

text \<open>The character at a position is removed; the block is not made smaller, as its string is already shorter.\<close>

definition ed_remove_char :: "int \<Rightarrow> int \<Rightarrow> unit edm" where
  "ed_remove_char lineid linepos =
     ed_bind (edutils_line_get lineid) (\<lambda>p. ed_bind (ed_str p) (\<lambda>s.
     ed_bind (ed_memmove linepos (linepos + 1) (int (length s) - linepos) p) (\<lambda>p1.
     ed_bind (ed_str p1) (\<lambda>s1.
     ed_bind (edalloc_line_realloc p1 (length s1 + 1)) (\<lambda>q. case q of
       None \<Rightarrow> ed_fail NullDeref
     | Some m \<Rightarrow> edutils_line_set lineid m)))))"

definition ed_set_startline :: "int \<Rightarrow> unit edm" where
  "ed_set_startline st = ed_set (\<lambda>b. b\<lparr>ed_startline := st\<rparr>)"

definition ededit_key_backspace :: "int edm" where
  "ededit_key_backspace = ed_get ed_lineid (\<lambda>lineid. ed_get ed_linepos (\<lambda>linepos.
     ed_bind (edutils_line_get lineid) (\<lambda>p.
     if linepos = 0 then
       (if lineid = 0 then ed_ret 1
        else ed_bind (edutils_line_get (lineid - 1)) (\<lambda>q. ed_bind (ed_str q) (\<lambda>above. ed_bind (ed_str p) (\<lambda>s.
          ed_bind (ededit_addstring (lineid - 1) (int (length above)) s) (\<lambda>r.
          if r = -1 then ed_ret (-1)
          else ed_seq (edalloc_buffer_remove_line lineid)
            (ed_get ed_cursory (\<lambda>y. ed_get ed_startline (\<lambda>st. ed_get eb_file_lines (\<lambda>n.
            ed_seq (if y = 0 \<or> (st > 0 \<and> st + EDITOR_LINES > n) then ed_set_startline (st - 1) else ed_set_cursory (y - 1))
            (ed_seq (edmove_set_cursorx (int (length above)))
            (ed_seq ed_dirty
            (ed_get ed_nlines (\<lambda>nl. ed_get ed_startline (\<lambda>st'.
            ed_seq (ed_when (nl < EDITOR_LINES \<and> st' = 0) (edutils_set_flag EDFLAG_DEL_LAST_LINE True))
            (ed_seq edutils_show_screen (ed_ret 1))))))))))))))))
     else
       ed_seq (ed_remove_char lineid (linepos - 1))
       (ed_seq (edmove_set_cursorx (linepos - 1))
       (ed_get ed_cursory (\<lambda>y. ed_seq (edutils_line_display y lineid)
       (ed_seq ed_dirty (ed_seq edutils_display_status (ed_ret 1)))))))))"

definition ededit_key_del :: "int edm" where
  "ededit_key_del = ed_get ed_lineid (\<lambda>lineid. ed_get ed_linepos (\<lambda>linepos.
     ed_bind (edutils_line_get lineid) (\<lambda>p. ed_bind (ed_str p) (\<lambda>s. ed_get eb_file_lines (\<lambda>n0.
     if linepos = int (length s) then
       (if lineid = n0 - 1 then ed_ret 1
        else ed_bind (edutils_line_get (lineid + 1)) (\<lambda>q. ed_bind (ed_str q) (\<lambda>below.
          ed_bind (ededit_addstring lineid linepos below) (\<lambda>r.
          if r = -1 then ed_ret (-1)
          else ed_seq (edalloc_buffer_remove_line (lineid + 1))
            (ed_get ed_cursory (\<lambda>y. ed_get ed_startline (\<lambda>st. ed_get eb_file_lines (\<lambda>n.
            ed_seq (ed_when (st > 0 \<and> st + EDITOR_LINES > n) (ed_seq (ed_set_startline (st - 1)) (ed_set_cursory (y + 1))))
            (ed_seq (edmove_set_cursorx linepos)
            (ed_seq ed_dirty (ed_seq edutils_show_screen (ed_ret 1))))))))))))
     else if s \<noteq> [] then
       ed_seq (ed_remove_char lineid linepos)
       (ed_get ed_cursory (\<lambda>y. ed_seq (edutils_line_display y lineid)
       (ed_seq ed_dirty (ed_seq edutils_display_status (ed_ret 1)))))
     else ed_ret 1)))))"

definition ededit_key_enter :: "int edm" where
  "ededit_key_enter = ed_get ed_lineid (\<lambda>lineid. ed_get ed_linepos (\<lambda>linepos.
     ed_bind (edutils_line_get lineid) (\<lambda>p. ed_bind (ed_str p) (\<lambda>s.
     let indentation = length (takeWhile (\<lambda>c. c = 0x20) s) in
     if linepos < 0 \<or> linepos > int (length s) then ed_fail OutOfBounds
     else let tail = drop (nat linepos) s in
     ed_bind (edalloc_line_malloc (length tail + indentation + 1)) (\<lambda>q. case q of
       None \<Rightarrow> ed_ret (-1)
     | Some m \<Rightarrow>
       ed_bind (ed_store 0 (replicate indentation 0x20 @ tail @ [0]) m) (\<lambda>newline.
       ed_bind (edalloc_line_realloc p (nat linepos + 1)) (\<lambda>q1. case q1 of
         None \<Rightarrow> ed_ret (-1)
       | Some m1 \<Rightarrow>
         ed_bind (ed_put_zero linepos m1) (\<lambda>oldline.
         ed_bind (edalloc_buffer_add_line lineid oldline) (\<lambda>r.
         if r = 0 then ed_ret (-1)
         else ed_seq (edutils_line_set (lineid + 1) newline)
           (ed_seq (edmove_set_cursorx (int indentation))
           (ed_seq edmove_save_cursorx
           (ed_get ed_cursory (\<lambda>y. ed_get ed_startline (\<lambda>st.
           ed_seq (if y = EDITOR_LINES - 1 then ed_set_startline (st + 1) else ed_set_cursory (y + 1))
           (ed_seq ed_dirty (ed_seq edutils_show_screen (ed_ret 1)))))))))))))))))"

definition ed_delline_end :: "int \<Rightarrow> int edm" where
  "ed_delline_end lineid = ed_get eb_file_lines (\<lambda>n. ed_get ed_startline (\<lambda>st. ed_get ed_cursory (\<lambda>y.
     ed_seq (ed_when (n = lineid) (if st > 0 then ed_set_startline (st - 1) else ed_set_cursory (y - 1)))
     (ed_seq (edmove_set_cursorx 0)
     (ed_seq edmove_save_cursorx
     (ed_seq ed_dirty (ed_seq edutils_show_screen (ed_ret 1))))))))"

definition ededit_delline :: "int edm" where
  "ededit_delline = ed_get ed_lineid (\<lambda>lineid. ed_get eb_file_lines (\<lambda>n0.
     ed_bind (edutils_line_get lineid) (\<lambda>p.
     if n0 = 1 then
       ed_bind (ed_str p) (\<lambda>s.
         if s \<noteq> [] then ed_bind (edalloc_line_realloc p 1) (\<lambda>q. case q of
             None \<Rightarrow> ed_ret (-1)
           | Some m \<Rightarrow> ed_bind (ed_put_zero 0 m) (\<lambda>m'. ed_seq (edutils_line_set 0 m') (ed_delline_end lineid)))
         else ed_ret 1)
     else ed_seq (ed_call (EdClearLine (min (EDITOR_LINES - 1) (n0 - 1))))
       (ed_seq (edalloc_buffer_remove_line lineid) (ed_delline_end lineid)))))"

definition ededit_deltoeol :: "int edm" where
  "ededit_deltoeol = ed_get ed_lineid (\<lambda>lineid. ed_get ed_linepos (\<lambda>linepos.
     ed_bind (edutils_line_get lineid) (\<lambda>p. ed_bind (ed_str p) (\<lambda>s.
     if s \<noteq> [] \<and> linepos \<noteq> int (length s) then
       ed_bind (edalloc_line_realloc p (nat (linepos + 1))) (\<lambda>q. case q of
         None \<Rightarrow> ed_ret (-1)
       | Some m \<Rightarrow> ed_bind (ed_put_zero linepos m) (\<lambda>m'.
           ed_seq (edutils_line_set lineid m')
           (ed_get ed_cursory (\<lambda>y. ed_seq (edutils_line_display y lineid)
           (ed_seq ed_dirty (ed_seq (edmove_set_cursorx linepos) (ed_ret 1))))))) 
     else ed_ret 1))))"

definition ededit_deltobol :: "int edm" where
  "ededit_deltobol = ed_get ed_lineid (\<lambda>lineid. ed_get ed_linepos (\<lambda>linepos.
     ed_bind (edutils_line_get lineid) (\<lambda>p. ed_bind (ed_str p) (\<lambda>s.
     if s \<noteq> [] \<and> linepos \<noteq> 0 then
       ed_bind (ed_str (drop (nat linepos) p)) (\<lambda>tail.
       ed_bind (ed_memmove 0 linepos (int (length tail) + 1) p) (\<lambda>p1.
       ed_bind (ed_str (drop (nat linepos) p1)) (\<lambda>rest.
       ed_bind (edalloc_line_realloc p1 (length rest + 1)) (\<lambda>q. case q of
         None \<Rightarrow> ed_ret (-2)
       | Some m \<Rightarrow>
           ed_seq (edutils_line_set lineid m)
           (ed_get ed_cursory (\<lambda>y. ed_seq (edutils_line_display y lineid)
           (ed_seq ed_dirty (ed_seq (edmove_set_cursorx 0) (ed_ret 1)))))))))
     else ed_ret 1))))"

text \<open>The lines of the selection from the last to the first, each put before the line with the cursor.\<close>

primrec ed_paste_lines :: "int \<Rightarrow> u8 list option list \<Rightarrow> int edm" where
  "ed_paste_lines lineid [] = ed_ret 1"
| "ed_paste_lines lineid (q # qs) = (case q of
       None \<Rightarrow> ed_fail NullDeref
     | Some m \<Rightarrow> ed_bind (edalloc_buffer_add_line lineid m) (\<lambda>r. if r = 0 then ed_ret 0 else ed_paste_lines lineid qs))"

definition ededit_pasteblock :: "int edm" where
  "ededit_pasteblock = ed_get ed_sellines (\<lambda>ls. ed_get ed_lineid (\<lambda>lineid. case ls of
       None \<Rightarrow> ed_ret 1
     | Some qs \<Rightarrow> ed_bind (ed_paste_lines lineid (rev qs)) (\<lambda>r.
         if r = 0 then ed_seq edalloc_clear_selection (ed_ret (-1))
         else ed_seq edalloc_reset_used_selection
           (ed_seq ed_dirty (ed_seq (edmove_set_cursorx 0) (ed_seq edutils_show_screen (ed_ret 1)))))))"

definition ededit_handle_key :: "term_key \<Rightarrow> int edm" where
  "ededit_handle_key c = (case c of
       KC_CHAR ch \<Rightarrow> if c_isprint ch then ededit_key_char (of_int ch) else ed_ret 0
     | KC_BACKSPACE \<Rightarrow> ededit_key_backspace
     | KC_DEL \<Rightarrow> ededit_key_del
     | KC_TAB \<Rightarrow> ed_bind (ededit_key_char 0x20) (\<lambda>r. if r \<noteq> 0 then ededit_key_char 0x20 else ed_ret r)
     | KC_ENTER \<Rightarrow> ededit_key_enter
     | KC_CTRL_Y \<Rightarrow> ededit_delline
     | KC_CTRL_E \<Rightarrow> ededit_deltoeol
     | KC_CTRL_B \<Rightarrow> ededit_deltobol
     | KC_CTRL_V \<Rightarrow> ededit_pasteblock
     | _ \<Rightarrow> ed_ret 0)"

subsection \<open>The editor\<close>

definition editor_init :: "u8 list option \<Rightarrow> u8 list option \<Rightarrow> bool list \<Rightarrow> (nat \<Rightarrow> u8) \<Rightarrow> c_fault + edbuf option" where
  "editor_init fname file oom junk = (case edalloc_buffer_new fname file oom junk of
       Inl e \<Rightarrow> Inl e
     | Inr None \<Rightarrow> Inr None
     | Inr (Some b) \<Rightarrow> Inr (Some (b\<lparr>ed_cursorx := 0, ed_cursory := 0, ed_startx := 0, ed_startline := 0, ed_userx := 0,
         ed_userstartx := 0, ed_firstsel := -1, ed_lastsel := -1, eb_out := eb_out b @ [EdInvert False]\<rparr>)))"

text \<open>The bytes written to a file: every line with a new line character.\<close>

definition ed_file_bytes :: "u8 list edm" where
  "ed_file_bytes = ed_get eb_lines (\<lambda>ls. ed_get eb_file_lines (\<lambda>n. case ls of
       None \<Rightarrow> ed_fail NullDeref
     | Some ps \<Rightarrow> if n > int (length ps) \<or> None \<in> set (take (nat n) ps) \<or> (\<exists>p\<in>set (take (nat n) ps). 0 \<notin> set (the p))
         then ed_fail OutOfBounds
         else ed_ret (concat (map (\<lambda>p. takeWhile (\<lambda>c. c \<noteq> 0) (the p) @ [10]) (take (nat n) ps)))))"

text \<open>\<open>None\<close> when the file cannot be opened or written, which leaves the buffer as it is.\<close>

definition editorh_save_file :: "bool \<Rightarrow> u8 list option \<Rightarrow> (u8 list \<times> u8 list) option edm" where
  "editorh_save_file io_ok fname = (case fname of
       None \<Rightarrow> ed_ret None
     | Some f \<Rightarrow> if f = [] \<or> \<not> io_ok then ed_ret None
         else ed_bind ed_file_bytes (\<lambda>cs.
           ed_seq (edutils_set_flag EDFLAG_DIRTY False) (ed_seq edutils_display_status (ed_ret (Some (f, cs))))))"

text \<open>The answer to "Go to line" as \<^verbatim>\<open>atoi\<close> reads it; the validator admits digits and a leading minus.\<close>

definition ed_atoi :: "u8 list \<Rightarrow> int" where
  "ed_atoi s =
     (let neg = (s \<noteq> [] \<and> hd s = 0x2D); ds = takeWhile (\<lambda>c. 0x30 \<le> c \<and> c \<le> 0x39) (if neg then tl s else s);
          n = int (foldl (\<lambda>n c. 10 * n + (unat c - 48)) 0 ds)
      in if neg then - n else n)"

text \<open>The keys that move or edit in a round of \<^verbatim>\<open>editor_mainloop\<close>; the result is 1 when it was one.\<close>

definition editor_key :: "term_key \<Rightarrow> int edm" where
  "editor_key c = ed_bind (edmove_handle_key c) (\<lambda>r. if r \<noteq> 0 then ed_ret 1 else ededit_handle_key c)"

primrec editor_keys :: "term_key list \<Rightarrow> unit edm" where
  "editor_keys [] = ed_ret ()"
| "editor_keys (c # cs) = ed_bind (editor_key c) (\<lambda>_. editor_keys cs)"

end
