(* ===== verification/Editor.thy ===== *)
theory Editor
  imports Edit
begin

text \<open>
  The main loop of the full-screen editor, \<^verbatim>\<open>src/editor/editor.c\<close>, and the dialogs of \<^verbatim>\<open>src/editor/edhw.c\<close> as
  consumers of keys: the keys of the user are a list, a loop that needs one more waits. What a dialog
  draws over the text is taken back when it is closed, see \<open>Vram_Box\<close>. The Lua program that F5 runs and
  the help on the API are not part of the model: they read keys and leave the buffer as it is.
\<close>

subsection \<open>Sessions\<close>

datatype ed_stop = EdFault c_fault | EdWaits

text \<open>
  \<open>es_io\<close>: whether the next files can be written (they can when it is empty); \<open>es_files\<close>: the names and
  contents of the files written so far. A file that cannot be written completely is not listed.
\<close>

record ed_session =
  es_buf :: edbuf
  es_keys :: "term_key list"
  es_io :: "bool list"
  es_files :: "(u8 list \<times> u8 list) list"

type_synonym 'a esm = "ed_session \<Rightarrow> ed_stop + 'a \<times> ed_session"

definition es_run :: "'a edm \<Rightarrow> 'a esm" where
  "es_run m s = (case m (es_buf s) of Inl e \<Rightarrow> Inl (EdFault e) | Inr (x, b) \<Rightarrow> Inr (x, s\<lparr>es_buf := b\<rparr>))"

definition edhw_getkey :: "term_key esm" where
  "edhw_getkey s = (case es_keys s of [] \<Rightarrow> Inl EdWaits | k # ks \<Rightarrow> Inr (k, s\<lparr>es_keys := ks\<rparr>))"

subsection \<open>Dialogs\<close>

text \<open>A message waits for a key.\<close>

definition edhw_msg :: "unit esm" where
  "edhw_msg s = ebind (edhw_getkey s) (\<lambda>(_, s'). Inr ((), s'))"

fun edhw_read_loop :: "nat \<Rightarrow> (u8 list \<Rightarrow> u8 \<Rightarrow> bool) \<Rightarrow> u8 list \<Rightarrow> term_key list \<Rightarrow> (u8 list option \<times> term_key list) option" where
  "edhw_read_loop maxlen validator input [] = None"
| "edhw_read_loop maxlen validator input (c # ks) = (case c of
       KC_BACKSPACE \<Rightarrow> edhw_read_loop maxlen validator (butlast input) ks
     | KC_ENTER \<Rightarrow> Some (Some input, ks)
     | KC_ESC \<Rightarrow> Some (None, ks)
     | KC_CHAR ch \<Rightarrow> if length input < maxlen \<and> validator input (of_int ch)
         then edhw_read_loop maxlen validator (input @ [of_int ch]) ks
         else edhw_read_loop maxlen validator input ks
     | _ \<Rightarrow> edhw_read_loop maxlen validator input ks)"

definition edhw_read :: "nat \<Rightarrow> (u8 list \<Rightarrow> u8 \<Rightarrow> bool) \<Rightarrow> u8 list option esm" where
  "edhw_read maxlen validator s = ebind (es_run ed_malloc s) (\<lambda>(ok, s1).
     if \<not> ok then Inr (None, s1)
     else case edhw_read_loop maxlen validator [] (es_keys s1) of
       None \<Rightarrow> Inl EdWaits
     | Some (r, ks) \<Rightarrow> Inr (r, s1\<lparr>es_keys := ks\<rparr>))"

abbreviation EDHW_DLG_YES :: int where "EDHW_DLG_YES \<equiv> 1"
abbreviation EDHW_DLG_NO :: int where "EDHW_DLG_NO \<equiv> 2"
abbreviation EDHW_DLG_TOTAL :: nat where "EDHW_DLG_TOTAL \<equiv> 4"
abbreviation EDITOR_EXIT_CODE :: int where "EDITOR_EXIT_CODE \<equiv> 255"
abbreviation EDITOR_FATAL_CODE :: int where "EDITOR_FATAL_CODE \<equiv> -1"

definition edhw_dlg_chars :: "int list" where "edhw_dlg_chars = [0x79, 0x6E, 0x63, 0x6F]"

definition ed_toupper :: "int \<Rightarrow> int" where
  "ed_toupper c = (if 97 \<le> c \<and> c \<le> 122 then c - 32 else c)"

text \<open>The button of a key, \<open>None\<close> when the dialog does not have it.\<close>

definition edhw_dlg_choice :: "int \<Rightarrow> int \<Rightarrow> nat option" where
  "edhw_dlg_choice buttons c = find (\<lambda>i. let a = (if bit buttons i then edhw_dlg_chars ! i else 0) in a = c \<or> ed_toupper a = c)
     [0..<EDHW_DLG_TOTAL]"

fun edhw_dlg_loop :: "int \<Rightarrow> term_key list \<Rightarrow> (int \<times> term_key list) option" where
  "edhw_dlg_loop buttons [] = None"
| "edhw_dlg_loop buttons (k # ks) = (case (case k of KC_CHAR c \<Rightarrow> edhw_dlg_choice buttons c | _ \<Rightarrow> None) of
       Some i \<Rightarrow> Some (2 ^ i, ks)
     | None \<Rightarrow> edhw_dlg_loop buttons ks)"

definition edhw_dlg :: "int \<Rightarrow> int esm" where
  "edhw_dlg buttons s = (case edhw_dlg_loop buttons (es_keys s) of
       None \<Rightarrow> Inl EdWaits
     | Some (r, ks) \<Rightarrow> Inr (r, s\<lparr>es_keys := ks\<rparr>))"

subsection \<open>Commands\<close>

text \<open>Every outcome of saving with confirmation is a message.\<close>

definition editor_save_to :: "u8 list option \<Rightarrow> int esm" where
  "editor_save_to fname s =
     (if fname = None \<or> fname = Some [] then ebind (edhw_msg s) (\<lambda>(_, s1). Inr (0, s1))
      else ebind (es_run (editorh_save_file (es_io s = [] \<or> hd (es_io s)) fname) (s\<lparr>es_io := tl (es_io s)\<rparr>)) (\<lambda>(r, s1).
        case r of
          None \<Rightarrow> ebind (edhw_msg s1) (\<lambda>(_, s2). Inr (0, s2))
        | Some f \<Rightarrow> ebind (edhw_msg (s1\<lparr>es_files := es_files s1 @ [f]\<rparr>)) (\<lambda>(_, s2). Inr (1, s2))))"

definition editor_save_file :: "int esm" where
  "editor_save_file s = ebind (editor_save_to (eb_fpath (es_buf s)) s) (\<lambda>(_, s1). Inr (0, s1))"

definition editor_saveas_file :: "int esm" where
  "editor_saveas_file s = ebind (edhw_read 32 edutils_fname_validator s) (\<lambda>(line, s1). case line of
       None \<Rightarrow> Inr (1, s1)
     | Some l \<Rightarrow> ebind (es_run (edalloc_set_fname l) s1) (\<lambda>(res, s2).
         if res = 0 then Inr (EDITOR_FATAL_CODE, s2)
         else ebind (editor_save_to (eb_fpath (es_buf s2)) s2) (\<lambda>(_, s3). Inr (1, s3))))"

definition editor_goto_line :: "int esm" where
  "editor_goto_line s =
     (if edutils_is_flag_set EDFLAG_SELECT (es_buf s) then Inr (0, s)
      else ebind (edhw_read 6 edutils_number_validator s) (\<lambda>(line, s1). case line of
          None \<Rightarrow> Inr (0, s1)
        | Some l \<Rightarrow> if ed_atoi l < 0 \<or> ed_atoi l > eb_file_lines (es_buf s1)
            then ebind (edhw_msg s1) (\<lambda>(_, s2). Inr (0, s2))
            else ebind (es_run (edmove_goto_line (ed_atoi l)) s1) (\<lambda>(_, s2). Inr (0, s2))))"

definition editor_help :: "int esm" where
  "editor_help s = ebind (edhw_getkey s) (\<lambda>(_, s1). ebind (es_run edutils_show_screen s1) (\<lambda>(_, s2). Inr (0, s2)))"

text \<open>The answer to the second question is compared with the first one, which was yes.\<close>

definition editor_exit :: "int esm" where
  "editor_exit s = ebind (edhw_dlg (EDHW_DLG_YES OR EDHW_DLG_NO) s) (\<lambda>(res, s1).
     if res = EDHW_DLG_NO then Inr (0, s1)
     else if edutils_is_flag_set EDFLAG_DIRTY (es_buf s1)
     then ebind (edhw_dlg (EDHW_DLG_YES OR EDHW_DLG_NO) s1) (\<lambda>(res2, s2).
       if (if res = res2 then 1 else 0) = EDHW_DLG_YES
       then ebind (if eb_fpath (es_buf s2) \<noteq> None then editor_save_file s2 else editor_saveas_file s2) (\<lambda>(_, s3). Inr (EDITOR_EXIT_CODE, s3))
       else Inr (EDITOR_EXIT_CODE, s2))
     else Inr (EDITOR_EXIT_CODE, s1))"

text \<open>\<open>other k ks\<close> of the next keys \<open>ks\<close> are read by the Lua program or the help on the API.\<close>

definition ed_other :: "(term_key \<Rightarrow> term_key list \<Rightarrow> nat) \<Rightarrow> term_key \<Rightarrow> int esm" where
  "ed_other other k s = ebind (es_run edutils_show_screen (s\<lparr>es_keys := drop (other k (es_keys s)) (es_keys s)\<rparr>)) (\<lambda>(_, s1). Inr (0, s1))"

definition editor_command :: "(term_key \<Rightarrow> term_key list \<Rightarrow> nat) \<Rightarrow> term_key \<Rightarrow> int esm" where
  "editor_command other k s = (case k of
       KC_F1 \<Rightarrow> editor_help s
     | KC_CTRL_F1 \<Rightarrow> ed_other other k s
     | KC_F5 \<Rightarrow> ed_other other k s
     | KC_F2 \<Rightarrow> if eb_fpath (es_buf s) \<noteq> None then editor_save_file s else editor_saveas_file s
     | KC_CTRL_F2 \<Rightarrow> editor_saveas_file s
     | KC_F7 \<Rightarrow> editor_goto_line s
     | KC_F10 \<Rightarrow> editor_exit s
     | _ \<Rightarrow> Inr (0, s))"

definition editor_round :: "(term_key \<Rightarrow> term_key list \<Rightarrow> nat) \<Rightarrow> int esm" where
  "editor_round other s = ebind (edhw_getkey s) (\<lambda>(c, s1). ebind (es_run (editor_key c) s1) (\<lambda>(r, s2).
     if r = 1 then Inr (0, s2) else editor_command other c s2))"

subsection \<open>The main loop\<close>

text \<open>Keys are only read, and every round reads at least one.\<close>

definition es_reads :: "'a esm \<Rightarrow> bool" where
  "es_reads m \<longleftrightarrow> (\<forall>s x s'. m s = Inr (x, s') \<longrightarrow> length (es_keys s') \<le> length (es_keys s))"

lemma es_readsD: "es_reads m \<Longrightarrow> m s = Inr (x, s') \<Longrightarrow> length (es_keys s') \<le> length (es_keys s)"
  by (auto simp: es_reads_def)

lemma es_reads_run: "es_reads (es_run m)"
  by (auto simp: es_reads_def es_run_def split: sum.splits prod.splits)

lemma es_reads_getkey: "edhw_getkey s = Inr (x, s') \<Longrightarrow> length (es_keys s') < length (es_keys s)"
  by (auto simp: edhw_getkey_def split: list.splits)

lemma es_reads_msg: "es_reads edhw_msg"
  by (auto simp: es_reads_def edhw_msg_def ebind_eq_Inr dest: es_reads_getkey)

lemma edhw_read_loop_reads: "edhw_read_loop n v input ks = Some (r, ks') \<Longrightarrow> length ks' \<le> length ks"
proof (induction ks arbitrary: input)
  case (Cons c ks)
  then show ?case by (cases c) (auto split: if_splits dest!: Cons.IH)
qed simp

lemma edhw_dlg_loop_reads: "edhw_dlg_loop buttons ks = Some (r, ks') \<Longrightarrow> length ks' \<le> length ks"
  by (induction buttons ks rule: edhw_dlg_loop.induct) (fastforce split: option.splits)+

lemma es_reads_dlg: "es_reads (edhw_dlg buttons)"
  by (auto simp: es_reads_def edhw_dlg_def split: option.splits dest!: edhw_dlg_loop_reads)

lemma es_reads_bind: "es_reads m \<Longrightarrow> (\<And>x. es_reads (f x)) \<Longrightarrow> es_reads (\<lambda>s. ebind (m s) (\<lambda>(x, s1). f x s1))"
  by (force simp: es_reads_def ebind_eq_Inr)

lemma es_reads_ret: "es_reads (\<lambda>s. Inr (x, s))"
  by (simp add: es_reads_def)

lemma es_reads_if: "es_reads m \<Longrightarrow> es_reads k \<Longrightarrow> es_reads (\<lambda>s. if c s then m s else k s)"
  by (auto simp: es_reads_def)

lemma es_reads_option: "es_reads m \<Longrightarrow> (\<And>x. es_reads (f x)) \<Longrightarrow> es_reads (\<lambda>s. case r of None \<Rightarrow> m s | Some x \<Rightarrow> f x s)"
  by (cases r) (auto simp: es_reads_def)

lemma es_reads_frame: "es_reads m \<Longrightarrow> (\<And>s. es_keys (g s) = es_keys s) \<Longrightarrow> es_reads (\<lambda>s. m (g s))"
  by (simp add: es_reads_def) metis

lemma es_reads_state: "(\<And>y. es_reads (m y)) \<Longrightarrow> es_reads (\<lambda>s. m (f s) s)"
  by (auto simp: es_reads_def)

lemma es_reads_read: "es_reads (edhw_read n v)"
proof -
  have "es_reads (\<lambda>s1. case edhw_read_loop n v [] (es_keys s1) of None \<Rightarrow> Inl EdWaits | Some (r, ks) \<Rightarrow> Inr (r, s1\<lparr>es_keys := ks\<rparr>))"
    by (auto simp: es_reads_def split: option.splits dest!: edhw_read_loop_reads)
  then show ?thesis unfolding edhw_read_def [abs_def] by (intro es_reads_bind es_reads_run es_reads_if es_reads_ret)
qed

lemmas es_reads_rules = es_reads_bind es_reads_ret es_reads_if es_reads_option es_reads_run es_reads_msg es_reads_read es_reads_dlg

lemma es_reads_save_to: "es_reads (editor_save_to fname)"
proof -
  have "es_reads (\<lambda>s. ebind (es_run (editorh_save_file ok fname) (s\<lparr>es_io := tl (es_io s)\<rparr>)) (\<lambda>(r, s1).
        case r of
          None \<Rightarrow> ebind (edhw_msg s1) (\<lambda>(_, s2). Inr (0 :: int, s2))
        | Some f \<Rightarrow> ebind (edhw_msg (s1\<lparr>es_files := es_files s1 @ [f]\<rparr>)) (\<lambda>(_, s2). Inr (1, s2))))" for ok
    by (intro es_reads_rules es_reads_frame [OF es_reads_run] es_reads_frame [OF es_reads_msg]) simp_all
  note run = es_reads_state [where f = "\<lambda>s. es_io s = [] \<or> hd (es_io s)", OF this]
  show ?thesis
    unfolding editor_save_to_def [abs_def]
    by (intro es_reads_if es_reads_bind es_reads_msg es_reads_ret run)
qed

lemma es_reads_save_file: "es_reads editor_save_file"
  unfolding editor_save_file_def [abs_def]
  by (rule es_reads_state [where m = "\<lambda>y s. ebind (editor_save_to y s) (\<lambda>(_, s1). Inr (0, s1))"]) (intro es_reads_rules es_reads_save_to)

lemma es_reads_saveas_file: "es_reads editor_saveas_file"
proof -
  have "es_reads (\<lambda>s. editor_save_to (eb_fpath (es_buf s)) s)"
    by (rule es_reads_state [where m = editor_save_to]) (rule es_reads_save_to)
  then show ?thesis unfolding editor_saveas_file_def [abs_def] by (intro es_reads_rules)
qed

lemma es_reads_goto_line: "es_reads editor_goto_line"
  unfolding editor_goto_line_def [abs_def] by (intro es_reads_rules)

lemma es_reads_help: "es_reads editor_help"
proof -
  have "es_reads edhw_getkey" by (auto simp: es_reads_def dest: es_reads_getkey)
  then show ?thesis unfolding editor_help_def [abs_def] by (intro es_reads_rules)
qed

lemma es_reads_exit: "es_reads editor_exit"
  unfolding editor_exit_def [abs_def] by (intro es_reads_rules es_reads_save_file es_reads_saveas_file)

lemma es_reads_other: "es_reads (ed_other other k)"
  by (auto simp: es_reads_def ed_other_def ebind_eq_Inr dest!: es_readsD [OF es_reads_run])

lemma es_reads_command: "es_reads (editor_command other k)"
proof -
  have F2: "es_reads (\<lambda>s. if eb_fpath (es_buf s) \<noteq> None then editor_save_file s else editor_saveas_file s)"
    by (intro es_reads_if es_reads_save_file es_reads_saveas_file)
  show ?thesis
    by (cases k) (simp_all add: editor_command_def [abs_def] F2 [simplified] es_reads_help es_reads_other es_reads_saveas_file es_reads_goto_line
      es_reads_exit es_reads_ret)
qed

lemma editor_round_reads: "editor_round other s = Inr (r, s') \<Longrightarrow> length (es_keys s') < length (es_keys s)"
  by (fastforce simp: editor_round_def ebind_eq_Inr split: if_splits
      dest: es_reads_getkey es_readsD [OF es_reads_run] es_readsD [OF es_reads_command])

function editor_loop :: "(term_key \<Rightarrow> term_key list \<Rightarrow> nat) \<Rightarrow> ed_session \<Rightarrow> ed_stop + ed_session" where
  "editor_loop other s = (case editor_round other s of
       Inl e \<Rightarrow> Inl e
     | Inr (r, s') \<Rightarrow> if r = EDITOR_EXIT_CODE then Inr s' else editor_loop other s')"
  by auto
termination by (relation "measure (\<lambda>(other, s). length (es_keys s))") (auto dest: editor_round_reads)

declare editor_loop.simps [simp del]

definition editor_mainloop :: "(term_key \<Rightarrow> term_key list \<Rightarrow> nat) \<Rightarrow> ed_session \<Rightarrow> ed_stop + ed_session" where
  "editor_mainloop other s = ebind (es_run edutils_show_screen s) (\<lambda>(_, s1). editor_loop other s1)"

end
