(* ===== verification/Edbuf_Rules.thy ===== *)
theory Edbuf_Rules
  imports Edit
begin

text \<open>
  Rules for the editor's operations: weakest preconditions of its sequences of steps, the relation of
  the array of blocks to the lines of text it holds, and one rule for each operation on lines. All of
  them assume that no allocation fails.
\<close>

subsection \<open>Weakest preconditions\<close>

text \<open>The operation does not fault and its result satisfies \<open>P\<close>.\<close>

definition ed_ok :: "'a edm \<Rightarrow> edbuf \<Rightarrow> ('a \<Rightarrow> edbuf \<Rightarrow> bool) \<Rightarrow> bool" where
  "ed_ok m b P \<longleftrightarrow> (case m b of Inl e \<Rightarrow> False | Inr (x, b') \<Rightarrow> P x b')"

named_theorems ed_wp

lemma ed_ok_ret [ed_wp]: "ed_ok (ed_ret x) b P \<longleftrightarrow> P x b"
  by (simp add: ed_ok_def ed_ret_def)

lemma ed_ok_bind [ed_wp]: "ed_ok (ed_bind m f) b P \<longleftrightarrow> ed_ok m b (\<lambda>x b'. ed_ok (f x) b' P)"
  by (auto simp: ed_ok_def ed_bind_def split: sum.splits prod.splits)

lemma ed_ok_seq [ed_wp]: "ed_ok (ed_seq m k) b P \<longleftrightarrow> ed_ok m b (\<lambda>x b'. ed_ok k b' P)"
  by (simp add: ed_seq_def ed_ok_bind)

lemma ed_ok_get [ed_wp]: "ed_ok (ed_get f k) b P \<longleftrightarrow> ed_ok (k (f b)) b P"
  by (simp add: ed_ok_def ed_get_def)

lemma ed_ok_set [ed_wp]: "ed_ok (ed_set f) b P \<longleftrightarrow> P () (f b)"
  by (simp add: ed_ok_def ed_set_def)

lemma ed_ok_if [ed_wp]: "ed_ok (if c then m else k) b P \<longleftrightarrow> (if c then ed_ok m b P else ed_ok k b P)"
  by simp

lemma ed_ok_when [ed_wp]: "ed_ok (ed_when c m) b P \<longleftrightarrow> (if c then ed_ok m b P else P () b)"
  by (simp add: ed_when_def ed_ok_ret)

lemma ed_ok_call [ed_wp]: "ed_ok (ed_call c) b P \<longleftrightarrow> P () (b\<lparr>eb_out := eb_out b @ [c]\<rparr>)"
  by (simp add: ed_call_def ed_ok_set)

lemma ed_ok_malloc [ed_wp]: "eb_oom b = [] \<Longrightarrow> ed_ok ed_malloc b P \<longleftrightarrow> P True b"
  by (simp add: ed_ok_def ed_malloc_def)

lemma ed_ok_mono: "ed_ok m b P \<Longrightarrow> (\<And>x b'. P x b' \<Longrightarrow> Q x b') \<Longrightarrow> ed_ok m b Q"
  by (auto simp: ed_ok_def split: sum.splits prod.splits)

lemma ed_okD: "ed_ok m b P \<Longrightarrow> \<exists>x b'. m b = Inr (x, b') \<and> P x b'"
  by (auto simp: ed_ok_def split: sum.splits prod.splits)

subsection \<open>What is sent to the screen\<close>

text \<open>Displaying changes only the list of calls.\<close>

definition ed_silent :: "unit edm \<Rightarrow> edbuf \<Rightarrow> bool" where
  "ed_silent m b \<longleftrightarrow> (\<exists>cs. m b = Inr ((), b\<lparr>eb_out := eb_out b @ cs\<rparr>))"

lemma ed_silentI: "m b = Inr ((), b\<lparr>eb_out := eb_out b @ cs\<rparr>) \<Longrightarrow> ed_silent m b"
  by (auto simp: ed_silent_def)

lemma ed_ok_silent: "ed_silent m b \<Longrightarrow> (\<And>out. P () (b\<lparr>eb_out := out\<rparr>)) \<Longrightarrow> ed_ok m b P"
  by (auto simp: ed_silent_def ed_ok_def)

lemma ed_for_silent:
  assumes "\<And>x out. x \<in> set xs \<Longrightarrow> ed_silent (f x) (b\<lparr>eb_out := out\<rparr>)"
  shows "ed_silent (ed_for xs f) b"
proof -
  have "\<exists>cs. ed_for xs f (b\<lparr>eb_out := out\<rparr>) = Inr ((), b\<lparr>eb_out := out @ cs\<rparr>)" for out
    using assms
  proof (induction xs arbitrary: out)
    case Nil
    have "ed_for [] f (b\<lparr>eb_out := out\<rparr>) = Inr ((), b\<lparr>eb_out := out @ []\<rparr>)" by (simp add: ed_ret_def)
    then show ?case by blast
  next
    case (Cons x xs)
    obtain cs where x: "f x (b\<lparr>eb_out := out\<rparr>) = Inr ((), b\<lparr>eb_out := out @ cs\<rparr>)"
      using Cons.prems [of x out] by (auto simp: ed_silent_def)
    have "\<exists>ds. ed_for xs f (b\<lparr>eb_out := out @ cs\<rparr>) = Inr ((), b\<lparr>eb_out := (out @ cs) @ ds\<rparr>)"
      by (rule Cons.IH) (simp add: Cons.prems)
    then obtain ds where "ed_for xs f (b\<lparr>eb_out := out @ cs\<rparr>) = Inr ((), b\<lparr>eb_out := (out @ cs) @ ds\<rparr>)" by blast
    then have "ed_for (x # xs) f (b\<lparr>eb_out := out\<rparr>) = Inr ((), b\<lparr>eb_out := out @ (cs @ ds)\<rparr>)"
      by (simp add: ed_seq_def ed_bind_def x)
    then show ?case by blast
  qed
  from this [of "eb_out b"] show ?thesis by (auto simp: ed_silent_def)
qed

lemma ed_call_silent: "ed_silent (ed_call c) b"
  by (rule ed_silentI [where cs = "[c]"]) (simp add: ed_call_def ed_set_def)

lemma ed_write_all_silent: "ed_silent (ed_write_all cs) b"
  unfolding ed_write_all_def by (rule ed_for_silent) (rule ed_call_silent)

lemma ed_silent_seq: "ed_silent m b \<Longrightarrow> (\<And>out. ed_silent k (b\<lparr>eb_out := out\<rparr>)) \<Longrightarrow> ed_silent (ed_seq m k) b"
proof -
  assume m: "ed_silent m b" and k: "\<And>out. ed_silent k (b\<lparr>eb_out := out\<rparr>)"
  from m obtain cs where 1: "m b = Inr ((), b\<lparr>eb_out := eb_out b @ cs\<rparr>)" by (auto simp: ed_silent_def)
  obtain ds where "k (b\<lparr>eb_out := eb_out b @ cs\<rparr>) = Inr ((), b\<lparr>eb_out := (eb_out b @ cs) @ ds\<rparr>)"
    using k [of "eb_out b @ cs"] by (auto simp: ed_silent_def)
  with 1 show ?thesis by (intro ed_silentI [where cs = "cs @ ds"]) (simp add: ed_seq_def ed_bind_def)
qed

lemma ed_silent_get: "ed_silent (k (f b)) b \<Longrightarrow> ed_silent (ed_get f k) b"
  by (simp add: ed_silent_def ed_get_def)

lemma ed_silent_when: "ed_silent m b \<Longrightarrow> ed_silent (ed_when c m) b"
  by (auto simp: ed_silent_def ed_when_def ed_ret_def intro: exI [of _ "[]"])

lemmas ed_silent_rules = ed_silent_seq ed_silent_get ed_silent_when ed_call_silent ed_write_all_silent

lemma edutils_display_status_silent: "ed_silent edutils_display_status b"
  unfolding edutils_display_status_def by (intro ed_silent_rules)

lemmas ed_ok_status = ed_ok_silent [OF edutils_display_status_silent]

lemma ed_goto_cursor_silent: "ed_silent ed_goto_cursor b"
  unfolding ed_goto_cursor_def by (intro ed_silent_rules)

lemma edutils_update_selection_silent: "ed_silent edutils_update_selection b"
  unfolding edutils_update_selection_def by (intro ed_silent_rules ed_for_silent)

subsection \<open>Blocks\<close>

lemma edalloc_round_size_ge: "n \<le> edalloc_round_size n"
  unfolding edalloc_round_size_def by presburger

lemma edalloc_round_size_mono: "m \<le> n \<Longrightarrow> edalloc_round_size m \<le> edalloc_round_size n"
  unfolding edalloc_round_size_def by (intro mult_le_mono1 div_le_mono) simp

lemma edalloc_round_size_pos: "0 < n \<Longrightarrow> 0 < edalloc_round_size n"
  using edalloc_round_size_ge [of n] by simp

text \<open>A block that holds a line: the text without line ends, a zero and room for the whole rounded size.\<close>

definition ed_plain :: "u8 list \<Rightarrow> bool" where
  "ed_plain l \<longleftrightarrow> 0 \<notin> set l \<and> 10 \<notin> set l \<and> 13 \<notin> set l"

definition ed_block :: "u8 list \<Rightarrow> u8 list \<Rightarrow> bool" where
  "ed_block q l \<longleftrightarrow> ed_plain l \<and> (\<exists>r. q = l @ 0 # r) \<and> edalloc_round_size (length l + 1) \<le> length q"

lemma ed_plain_simps [simp]:
  "ed_plain []" "ed_plain (x @ y) \<longleftrightarrow> ed_plain x \<and> ed_plain y"
  "ed_plain (c # x) \<longleftrightarrow> c \<noteq> 0 \<and> c \<noteq> 10 \<and> c \<noteq> 13 \<and> ed_plain x"
  by (auto simp: ed_plain_def)

lemma ed_plain_take [simp]: "ed_plain l \<Longrightarrow> ed_plain (take k l)"
  and ed_plain_drop [simp]: "ed_plain l \<Longrightarrow> ed_plain (drop k l)"
  and ed_plain_replicate: "c \<noteq> 0 \<Longrightarrow> c \<noteq> 10 \<Longrightarrow> c \<noteq> 13 \<Longrightarrow> ed_plain (replicate n c)"
  by (auto simp: ed_plain_def dest: in_set_takeD in_set_dropD)

lemma ed_blockI:
  "ed_plain l \<Longrightarrow> q = l @ 0 # r \<Longrightarrow> edalloc_round_size (length l + 1) \<le> length q \<Longrightarrow> ed_block q l"
  by (auto simp: ed_block_def)

lemma ed_block_plain: "ed_block q l \<Longrightarrow> ed_plain l"
  by (simp add: ed_block_def)

lemma ed_str_zero: "0 \<notin> set l \<Longrightarrow> ed_str (l @ 0 # r) = ed_ret l"
  by (simp add: ed_str_def takeWhile_append)

lemma ed_str_block: "ed_block q l \<Longrightarrow> ed_str q = ed_ret l"
  by (auto simp: ed_block_def ed_plain_def ed_str_zero)

lemma edutils_get_actsize_plain: "ed_plain l \<Longrightarrow> edutils_get_actsize l = int (length l)"
proof -
  assume "ed_plain l"
  then have "\<not> (last l = 13 \<or> last l = 10)" if "l \<noteq> []"
    using last_in_set [OF that] by (auto simp: ed_plain_def)
  then have "dropWhile (\<lambda>c. c = 13 \<or> c = 10) (rev l) = rev l"
    by (cases l rule: rev_cases) auto
  then show ?thesis by (simp add: edutils_get_actsize_def)
qed

text \<open>Allocation and reallocation.\<close>

lemma ed_ok_line_malloc:
  assumes "0 < sz" "eb_oom b = []" "\<And>m. length m = edalloc_round_size sz \<Longrightarrow> P (Some m) b"
  shows "ed_ok (edalloc_line_malloc sz) b P"
  using assms edalloc_round_size_pos [of sz]
  by (simp add: edalloc_line_malloc_def ed_wp)

lemma ed_ok_line_realloc:
  assumes q: "ed_block q l" and "eb_oom b = []"
    and P: "\<And>r. edalloc_round_size sz \<le> min sz (length l + 1) + length r \<Longrightarrow> P (Some (take sz (l @ [0]) @ r)) b"
  shows "ed_ok (edalloc_line_realloc q sz) b P"
proof -
  from q obtain r where r: "q = l @ 0 # r" and cap: "edalloc_round_size (length l + 1) \<le> length q"
    by (auto simp: ed_block_def)
  have sz: "sz \<le> edalloc_round_size sz" by (rule edalloc_round_size_ge)
  have same: "P (Some q) b" if e: "edalloc_round_size sz = edalloc_round_size (length l + 1)"
  proof -
    have "q = (take sz (l @ [0]) @ drop sz (l @ [0])) @ r" unfolding append_take_drop_id using r by simp
    then have "q = take sz (l @ [0]) @ drop sz (l @ [0]) @ r" by (simp only: append_assoc)
    moreover have "edalloc_round_size sz \<le> min sz (length l + 1) + length (drop sz (l @ [0]) @ r)"
      using cap e r by auto
    ultimately show ?thesis using P by metis
  qed
  have grow: "P (Some (take (edalloc_round_size sz) q @ map f [length q..<edalloc_round_size sz])) b" for f
  proof -
    let ?n = "edalloc_round_size sz"
    let ?rest = "drop sz (take ?n (l @ [0])) @ take (?n - (length l + 1)) r @ map f [length q..<?n]"
    have "take ?n q = take ?n (l @ [0]) @ take (?n - (length l + 1)) r" by (simp add: r take_Cons')
    then have "take ?n q @ map f [length q..<?n] = take ?n (l @ [0]) @ take (?n - (length l + 1)) r @ map f [length q..<?n]"
      by (simp only: append_assoc)
    also have "take ?n (l @ [0]) = take sz (l @ [0]) @ drop sz (take ?n (l @ [0]))"
      by (metis append_take_drop_id min_absorb1 sz take_take)
    finally have "take ?n q @ map f [length q..<?n] = take sz (l @ [0]) @ ?rest" by (simp only: append_assoc)
    moreover have "?n \<le> min sz (length l + 1) + length ?rest"
      using sz r by (auto simp: min_def)
    ultimately show ?thesis using P by metis
  qed
  show ?thesis
    unfolding edalloc_line_realloc_def ed_str_block [OF q]
    using same grow assms(2) by (auto simp: ed_wp)
qed

text \<open>Growing keeps the text; the block can be filled up to the size asked for.\<close>

lemma ed_ok_line_grow:
  assumes "ed_block q l" "eb_oom b = []" "length l + 1 \<le> sz"
    and P: "\<And>r. edalloc_round_size sz \<le> length l + 1 + length r \<Longrightarrow> P (Some (l @ 0 # r)) b"
  shows "ed_ok (edalloc_line_realloc q sz) b P"
  by (rule ed_ok_line_realloc [OF assms(1,2)]) (use assms(3) P in \<open>auto simp: min_def take_Cons' split: if_splits\<close>)

text \<open>Cutting keeps the first \<open>k\<close> characters and leaves at least one place behind them.\<close>

lemma ed_ok_line_cut:
  assumes "ed_block q l" "eb_oom b = []" "k \<le> length l"
    and P: "\<And>c r. edalloc_round_size (k + 1) \<le> k + 1 + length r \<Longrightarrow> P (Some (take k l @ c # r)) b"
  shows "ed_ok (edalloc_line_realloc q (k + 1)) b P"
proof (rule ed_ok_line_realloc [OF assms(1,2)])
  fix r :: "u8 list" assume r: "edalloc_round_size (k + 1) \<le> min (k + 1) (length l + 1) + length r"
  have "take (k + 1) (l @ [0]) = take k l @ [(l @ [0]) ! k]"
    using assms(3) take_Suc_conv_app_nth [of k "l @ [0]"] by simp
  then show "P (Some (take (k + 1) (l @ [0]) @ r)) b" using P [of r] r assms(3) by simp
qed

text \<open>Stores inside a block.\<close>

lemma ed_put_zero_at: "k = int (length x) \<Longrightarrow> ed_put_zero k (x @ c # r) = ed_ret (x @ 0 # r)"
  by (simp add: ed_put_zero_def ed_store_def overwrite_def)

lemma ed_append_string:
  assumes "length s + 1 \<le> 1 + length r"
  shows "ed_store (length l) (s @ [0]) (l @ c # r) = ed_ret (l @ s @ 0 # drop (length s) r)"
  using assms by (simp add: ed_store_def overwrite_def)

lemma ed_insert_string:
  assumes k: "k \<le> length l" and room: "length s \<le> length r"
  shows "ed_bind (ed_memmove (int k + int (length s)) (int k) (int (length l) - int k + 1) (l @ 0 # r)) (ed_store (nat (int k)) s) =
    ed_ret (take k l @ s @ drop k l @ 0 # drop (length s) r)"
proof (rule ext)
  fix b
  let ?n = "length l - k"
  have n: "nat (int (length l) - int k + 1) = ?n + 1" using k by simp
  have ks: "nat (int k + int (length s)) = k + length s" by simp
  have src: "take (?n + 1) (drop k (l @ 0 # r)) = drop k l @ [0]" using k by simp
  have mv: "ed_memmove (int k + int (length s)) (int k) (int (length l) - int k + 1) (l @ 0 # r) =
      ed_ret (take (k + length s) (l @ 0 # r) @ drop k l @ 0 # drop (length s) r)"
    using k room unfolding ed_memmove_def n ks src nat_int
    by (simp add: ed_store_def overwrite_def)
  have "ed_store k s (take (k + length s) (l @ 0 # r) @ drop k l @ 0 # drop (length s) r) =
      ed_ret (take k l @ s @ drop k l @ 0 # drop (length s) r)"
    using k room by (simp add: ed_store_def overwrite_def min_def) arith
  then show "ed_bind (ed_memmove (int k + int (length s)) (int k) (int (length l) - int k + 1) (l @ 0 # r)) (ed_store (nat (int k)) s) b =
      ed_ret (take k l @ s @ drop k l @ 0 # drop (length s) r) b"
    unfolding mv by (simp add: ed_bind_def ed_ret_def)
qed

lemma ed_remove_byte:
  assumes "k < length l"
  shows "ed_memmove (int k) (int k + 1) (int (length l) - int k) (l @ 0 # r) =
    ed_ret (take k l @ drop (k + 1) l @ 0 # 0 # r)"
proof -
  have n: "nat (int (length l) - int k) = length l - k" using assms by simp
  have k1: "nat (int k + 1) = Suc k" by simp
  have src: "take (length l - k) (drop (Suc k) (l @ 0 # r)) = drop (Suc k) l @ [0]"
    using assms by (simp add: Suc_diff_Suc take_Cons')
  show ?thesis unfolding ed_memmove_def n k1 src using assms
    by (simp add: ed_store_def overwrite_def) arith
qed

subsection \<open>The lines of the file\<close>

definition ed_holds :: "edbuf \<Rightarrow> u8 list list \<Rightarrow> bool" where
  "ed_holds b ls \<longleftrightarrow> (\<exists>ps. eb_lines b = Some ps \<and> eb_allocated b = int (length ps) \<and> eb_file_lines b = int (length ls) \<and>
     length ls < length ps \<and> (\<forall>i < length ls. \<exists>q. ps ! i = Some q \<and> ed_block q (ls ! i)) \<and> eb_oom b = [])"

lemma ed_holds_frame [simp]:
  "ed_holds (b\<lparr>eb_out := x1\<rparr>) ls = ed_holds b ls" "ed_holds (b\<lparr>eb_flags := x2\<rparr>) ls = ed_holds b ls"
  "ed_holds (b\<lparr>ed_startx := i\<rparr>) ls = ed_holds b ls" "ed_holds (b\<lparr>ed_startline := i\<rparr>) ls = ed_holds b ls"
  "ed_holds (b\<lparr>ed_cursorx := i\<rparr>) ls = ed_holds b ls" "ed_holds (b\<lparr>ed_cursory := i\<rparr>) ls = ed_holds b ls"
  "ed_holds (b\<lparr>ed_nlines := i\<rparr>) ls = ed_holds b ls" "ed_holds (b\<lparr>ed_userstartx := i\<rparr>) ls = ed_holds b ls"
  "ed_holds (b\<lparr>ed_userx := i\<rparr>) ls = ed_holds b ls" "ed_holds (b\<lparr>ed_firstsel := i\<rparr>) ls = ed_holds b ls"
  "ed_holds (b\<lparr>ed_lastsel := i\<rparr>) ls = ed_holds b ls" "ed_holds (b\<lparr>ed_sellines := x3\<rparr>) ls = ed_holds b ls"
  "ed_holds (b\<lparr>eb_fpath := x4\<rparr>) ls = ed_holds b ls"
  by (simp_all add: ed_holds_def)

lemma ed_holds_file_lines: "ed_holds b ls \<Longrightarrow> eb_file_lines b = int (length ls)"
  and ed_holds_oom: "ed_holds b ls \<Longrightarrow> eb_oom b = []"
  by (auto simp: ed_holds_def)

lemma ed_holds_plain: "ed_holds b ls \<Longrightarrow> i < length ls \<Longrightarrow> ed_plain (ls ! i)"
  by (auto simp: ed_holds_def ed_block_def)

lemma edutils_line_get_holds:
  assumes "ed_holds b ls" "i < length ls"
  shows "\<exists>q. edutils_line_get (int i) b = Inr (q, b) \<and> ed_block q (ls ! i)"
  using assms by (auto simp: ed_holds_def edutils_line_get_def ed_get_def ed_ret_def)

lemma ed_ok_line_get:
  assumes "ed_holds b ls" "i = int k" "k < length ls" "\<And>q. ed_block q (ls ! k) \<Longrightarrow> P q b"
  shows "ed_ok (edutils_line_get i) b P"
  using edutils_line_get_holds [OF assms(1,3)] assms(2,4) by (auto simp: ed_ok_def)

lemma ed_holds_update:
  assumes "ed_holds b ls" "ed_block q l"
    and "eb_lines b = Some ps" "i < length ls"
  shows "ed_holds (b\<lparr>eb_lines := Some (ps[i := Some q])\<rparr>) (ls[i := l])"
proof -
  have "\<exists>q'. ps[i := Some q] ! j = Some q' \<and> ed_block q' (ls[i := l] ! j)" if "j < length ls" for j
    using assms that by (cases "j = i") (auto simp: ed_holds_def)
  then show ?thesis using assms by (auto simp: ed_holds_def)
qed

lemma ed_ok_line_set:
  assumes "ed_holds b ls" "i = int k" "k < length ls" "ed_block q l"
    and P: "\<And>x. ed_holds (b\<lparr>eb_lines := x\<rparr>) (ls[k := l]) \<Longrightarrow> P () (b\<lparr>eb_lines := x\<rparr>)"
  shows "ed_ok (edutils_line_set i q) b P"
proof -
  obtain ps where ps: "eb_lines b = Some ps" "length ls < length ps" using assms(1) by (auto simp: ed_holds_def)
  show ?thesis unfolding edutils_line_set_def
    using P [OF ed_holds_update [OF assms(1,4) ps(1) assms(3)]] ps assms(2,3) by (simp add: ed_wp)
qed

text \<open>The array always has an entry behind the lines; when that one is used up it grows and keeps its entries.\<close>

lemma ed_ok_change_lines_up:
  assumes b: "eb_file_lines b = int n" "eb_allocated b = int (length ps)" "eb_lines b = Some ps" "n < length ps" "eb_oom b = []"
    and P: "\<And>ps' a. \<lbrakk>int n + 1 < a; a = int (length ps'); \<And>i. i \<le> n \<Longrightarrow> ps' ! i = ps ! i\<rbrakk>
      \<Longrightarrow> P 1 (b\<lparr>eb_file_lines := int n + 1, eb_allocated := a, eb_lines := Some ps'\<rparr>)"
  shows "ed_ok (edalloc_buffer_change_lines 1) b P"
proof -
  have same: "P 1 (b\<lparr>eb_file_lines := int n + 1\<rparr>)" if "int n + 1 < int (length ps)"
  proof -
    have "b\<lparr>eb_file_lines := int n + 1\<rparr> = b\<lparr>eb_file_lines := int n + 1, eb_allocated := int (length ps), eb_lines := Some ps\<rparr>"
      using b(2,3) by (cases b) simp
    then show ?thesis using P [of "int (length ps)" ps] that by simp
  qed
  let ?n = "nat (11 + int n)"
  have grown: "ed_resize ?n ps ! i = ps ! i" if "i \<le> n" for i
    using b(4) that by (auto simp: ed_resize_def nth_append)
  have "P 1 (b\<lparr>eb_file_lines := int n + 1, eb_allocated := 11 + int n, eb_lines := Some (ed_resize ?n ps)\<rparr>)"
    using P [of "11 + int n" "ed_resize ?n ps"] grown by (simp add: ed_resize_def)
  then show ?thesis unfolding edalloc_buffer_change_lines_def using b same
    by (simp add: ed_wp)
qed

lemma ed_ok_remove_line:
  assumes h: "ed_holds b ls" and i: "i = int k" "k < length ls"
    and P: "\<And>a x. ed_holds (b\<lparr>eb_file_lines := int (length ls) - 1, eb_allocated := a, eb_lines := x\<rparr>) (take k ls @ drop (Suc k) ls)
      \<Longrightarrow> P () (b\<lparr>eb_file_lines := int (length ls) - 1, eb_allocated := a, eb_lines := x\<rparr>)"
  shows "ed_ok (edalloc_buffer_remove_line i) b P"
proof -
  obtain ps where ps: "eb_lines b = Some ps" "eb_allocated b = int (length ps)" "eb_file_lines b = int (length ls)"
    "length ls < length ps" "\<And>i. i < length ls \<Longrightarrow> \<exists>q. ps ! i = Some q \<and> ed_block q (ls ! i)" "eb_oom b = []"
    using h by (auto simp: ed_holds_def)
  let ?n = "length ls" and ?ls = "take k ls @ drop (Suc k) ls"
  define qs where "qs = (if k < ?n - 1 then overwrite ps k (take (?n - k - 1) (drop (Suc k) ps)) else ps)"
  have len: "length qs = length ps" using ps(4) i by (auto simp: qs_def)
  have nth: "qs ! j = (if j < k then ps ! j else ps ! Suc j)" if "j < ?n - 1" for j
    using that ps(4) i by (auto simp: qs_def nth_overwrite)
  have blk: "\<exists>q. qs ! j = Some q \<and> ed_block q (?ls ! j)" if "j < ?n - 1" for j
    using that ps(5) [of j] ps(5) [of "Suc j"] i by (auto simp: nth nth_append)
  have move: "ed_when (int k < int ?n - 1) (ed_move_lines (int k) (int k + 1) (int ?n - int k - 1)) b =
      Inr ((), b\<lparr>eb_lines := Some qs\<rparr>)"
  proof (cases "k < ?n - 1")
    case True
    have *: "nat (int ?n - int k - 1) = ?n - k - 1" "nat (int k + 1) = Suc k" by simp_all
    have "int k < int ?n - 1" using True by linarith
    then show ?thesis using True ps(1,4) i unfolding ed_when_def ed_move_lines_def qs_def *
      by (simp add: ed_get_def ed_set_def)
  next
    case False
    then have "\<not> int k < int ?n - 1" by linarith
    moreover have "b\<lparr>eb_lines := Some ps\<rparr> = b" using ps(1) by (cases b) simp
    ultimately show ?thesis using False by (simp add: ed_when_def ed_ret_def qs_def)
  qed
  let ?m = "nat (int ?n + 9)"
  have le: "int (length ?ls) = int ?n - 1" using i by simp
  have keep: "ed_holds (b\<lparr>eb_file_lines := int ?n - 1, eb_allocated := int (length ps), eb_lines := Some qs\<rparr>) ?ls"
    using blk ps(4,6) le len by (auto simp: ed_holds_def)
  have P_keep: "P () (b\<lparr>eb_file_lines := int ?n - 1, eb_lines := Some qs\<rparr>)"
  proof -
    have "b\<lparr>eb_file_lines := int ?n - 1, eb_lines := Some qs\<rparr> =
        b\<lparr>eb_file_lines := int ?n - 1, eb_allocated := int (length ps), eb_lines := Some qs\<rparr>"
      using ps(2) by (cases b) simp
    then show ?thesis using P [OF keep] by simp
  qed
  have blk': "\<exists>q. ed_resize ?m qs ! j = Some q \<and> ed_block q (?ls ! j)" if "j < ?n - 1" for j
    using blk [OF that] that ps(4) len by (auto simp: ed_resize_def nth_append)
  have shrink: "ed_holds (b\<lparr>eb_file_lines := int ?n - 1, eb_allocated := int ?n + 9, eb_lines := Some (ed_resize ?m qs)\<rparr>) ?ls"
    using blk' ps(6) le by (auto simp: ed_holds_def ed_resize_def)
  have P_shrink: "P () (b\<lparr>eb_file_lines := int ?n - 1, eb_allocated := int ?n + 9, eb_lines := Some (ed_resize ?m qs)\<rparr>)"
    by (rule P [OF shrink])
  obtain q where q: "edutils_line_get (int k) b = Inr (q, b)" using edutils_line_get_holds [OF h i(2)] by blast
  have sw: "b\<lparr>eb_lines := x, eb_file_lines := y\<rparr> = b\<lparr>eb_file_lines := y, eb_lines := x\<rparr>"
    "b\<lparr>eb_lines := x, eb_file_lines := y, eb_allocated := z\<rparr> = b\<lparr>eb_file_lines := y, eb_allocated := z, eb_lines := x\<rparr>" for x y z
    by (cases b, simp)+
  have eq: "edalloc_buffer_remove_line i b =
      ed_bind (edalloc_buffer_change_lines (-1)) (\<lambda>_. ed_ret ()) (b\<lparr>eb_lines := Some qs\<rparr>)"
    unfolding edalloc_buffer_remove_line_def i(1) ed_get_def ed_bind_def [of "edutils_line_get _"] q ed_seq_def
      ed_bind_def [of "ed_when _ _"] ps(3) move
    by (simp only: sum.case prod.case ps(3) move)
  have "ed_ok (ed_bind (edalloc_buffer_change_lines (-1)) (\<lambda>_. ed_ret ())) (b\<lparr>eb_lines := Some qs\<rparr>) P"
    unfolding edalloc_buffer_change_lines_def using P_keep P_shrink ps(2,3,6)
    by (simp add: ed_wp add.commute sw)
  then show ?thesis by (simp add: ed_ok_def eq)
qed

lemma ed_ok_add_line:
  assumes h: "ed_holds b ls" and i: "i = int k" "k \<le> length ls" and q: "ed_block q l"
    and P: "\<And>a x. ed_holds (b\<lparr>eb_file_lines := int (length ls) + 1, eb_allocated := a, eb_lines := x\<rparr>) (take k ls @ l # drop k ls)
      \<Longrightarrow> P 1 (b\<lparr>eb_file_lines := int (length ls) + 1, eb_allocated := a, eb_lines := x\<rparr>)"
  shows "ed_ok (edalloc_buffer_add_line i q) b P"
proof -
  let ?n = "length ls" and ?ls = "take k ls @ l # drop k ls"
  have nk: "nat (int ?n - int k) = ?n - k" by simp
  obtain ps0 where ps0: "eb_file_lines b = int ?n" "eb_allocated b = int (length ps0)" "eb_lines b = Some ps0"
    "?n < length ps0" "\<And>i. i < ?n \<Longrightarrow> \<exists>q. ps0 ! i = Some q \<and> ed_block q (ls ! i)"
    using h by (auto simp: ed_holds_def)
  have main: "ed_ok (ed_get eb_file_lines (\<lambda>total.
       ed_seq (ed_when (i < total - 1) (ed_move_lines (i + 1) i (total - i - 1)))
       (ed_seq (edutils_line_set i q) (ed_ret 1)))) (b\<lparr>eb_file_lines := int ?n + 1, eb_allocated := a, eb_lines := Some ps\<rparr>) P"
    if a: "int ?n + 1 < a" "a = int (length ps)"
      and keep: "\<And>i. i \<le> ?n \<Longrightarrow> ps ! i = ps0 ! i" for a ps
  proof -
    have ps: "\<exists>q. ps ! i = Some q \<and> ed_block q (ls ! i)" if "i < ?n" for i
      using ps0(5) [OF that] keep [of i] that by simp
    define qs where "qs = (if k < ?n then overwrite ps (Suc k) (take (?n - k) (drop k ps)) else ps)"
    have len: "length qs = length ps" using a i by (auto simp: qs_def)
    have nth: "qs ! j = (if j < k then ps ! j else ps ! (j - 1))" if "j < ?n + 1" "j \<noteq> k" for j
      using that a i by (auto simp: qs_def nth_overwrite)
    have "\<exists>q'. qs[k := Some q] ! j = Some q' \<and> ed_block q' (?ls ! j)" if "j < ?n + 1" for j
    proof (cases "j = k")
      case True
      then show ?thesis using q len a i by (auto simp: nth_append)
    next
      case False
      then show ?thesis using that ps [of j] ps [of "j - 1"] i by (auto simp: nth nth_append nth_Cons')
    qed
    then have "ed_holds (b\<lparr>eb_file_lines := int ?n + 1, eb_allocated := a, eb_lines := Some (qs[k := Some q])\<rparr>) ?ls"
      using a len i ed_holds_oom [OF h] by (auto simp: ed_holds_def)
    from P [OF this] show ?thesis
      using a len i nk by (auto simp: ed_wp ed_move_lines_def edutils_line_set_def qs_def nat_add_distrib algebra_simps)
  qed
  show ?thesis unfolding edalloc_buffer_add_line_def
    by (simp only: ed_ok_bind)
      (rule ed_ok_change_lines_up [OF ps0(1-4) ed_holds_oom [OF h]], use main in \<open>simp add: ed_ok_if\<close>)
qed

subsection \<open>Displaying the lines of the file\<close>

lemma ed_silent_line:
  assumes "ed_holds b ls" "i = int k" "k < length ls" "\<And>l. ed_silent (f l) b"
  shows "ed_silent (ed_bind (edutils_line_get i) (\<lambda>p. ed_bind (ed_str p) f)) b"
proof -
  obtain q where q: "edutils_line_get i b = Inr (q, b)" "ed_block q (ls ! k)"
    using edutils_line_get_holds [OF assms(1,3)] assms(2) by blast
  have "ed_bind (edutils_line_get i) (\<lambda>p. ed_bind (ed_str p) f) b = f (ls ! k) b"
    by (simp add: ed_bind_def q(1) ed_str_block [OF q(2)] ed_ret_def)
  then show ?thesis using assms(4) [of "ls ! k"] by (simp add: ed_silent_def)
qed

lemma edutils_line_display_silent:
  assumes "ed_holds b ls" "i = int k" "k < length ls"
  shows "ed_silent (edutils_line_display y i) b"
  unfolding edutils_line_display_def
  by (rule ed_silent_line [OF assms]) (intro ed_silent_rules)

lemma ed_ok_line_display:
  "ed_holds b ls \<Longrightarrow> i = int k \<Longrightarrow> k < length ls \<Longrightarrow> (\<And>out. P () (b\<lparr>eb_out := out\<rparr>)) \<Longrightarrow>
   ed_ok (edutils_line_display y i) b P"
  by (rule ed_ok_silent [OF edutils_line_display_silent])

lemma bit_8_u8: "bit (8 :: u8) k \<longleftrightarrow> k = 3"
  using bit_exp_iff [where 'a = u8, of 3 k] by auto

definition ed_same_flags :: "u8 \<Rightarrow> u8 \<Rightarrow> bool" where
  "ed_same_flags f g \<longleftrightarrow> (\<forall>k. k \<noteq> 3 \<longrightarrow> bit f k = bit g k)"

lemma ed_same_flags_refl [simp]: "ed_same_flags f f"
  by (simp add: ed_same_flags_def)

lemma ed_same_flags_del: "ed_same_flags (f AND NOT EDFLAG_DEL_LAST_LINE) f" "ed_same_flags (f OR EDFLAG_DEL_LAST_LINE) f"
  unfolding ed_same_flags_def bit_and_iff bit_or_iff bit_not_iff bit_8_u8 by (auto dest: bit_imp_le_length)

text \<open>The number of lines that are on the screen.\<close>

definition ed_shown :: "edbuf \<Rightarrow> int" where
  "ed_shown b = min EDITOR_LINES (eb_file_lines b - ed_startline b)"

lemma ed_ok_show_screen:
  assumes h: "ed_holds b ls" and st: "0 \<le> ed_startline b"
    and P: "\<And>fl out. ed_same_flags fl (eb_flags b) \<Longrightarrow> P () (b\<lparr>ed_nlines := ed_shown b, eb_flags := fl, eb_out := out\<rparr>)"
  shows "ed_ok edutils_show_screen b P"
proof -
  have n: "(if ed_startline b + EDITOR_LINES > eb_file_lines b then eb_file_lines b - ed_startline b else EDITOR_LINES) = ed_shown b"
    by (simp add: ed_shown_def)
  have disp: "ed_silent (ed_for [ed_startline b..ed_startline b + ed_shown b - 1] (\<lambda>i. edutils_line_display (i - ed_startline b) i)) b'"
    if "ed_holds b' ls" for b'
  proof (rule ed_for_silent)
    fix i out assume "i \<in> set [ed_startline b..ed_startline b + ed_shown b - 1]"
    then have "0 \<le> i" "i < int (length ls)" using st ed_holds_file_lines [OF h] by (auto simp: ed_shown_def)
    then show "ed_silent (edutils_line_display (i - ed_startline b) i) (b'\<lparr>eb_out := out\<rparr>)"
      using that by (intro edutils_line_display_silent [where k = "nat i" and ls = ls]) auto
  qed
  have keep: "P () (b\<lparr>ed_nlines := ed_shown b, eb_out := out\<rparr>)" for out
  proof -
    have "b\<lparr>ed_nlines := ed_shown b, eb_out := out\<rparr> = b\<lparr>ed_nlines := ed_shown b, eb_flags := eb_flags b, eb_out := out\<rparr>"
      by (cases b) simp
    then show ?thesis using P [of "eb_flags b" out] by simp
  qed
  have del: "P () (b\<lparr>ed_nlines := ed_shown b, eb_flags := eb_flags b AND NOT EDFLAG_DEL_LAST_LINE, eb_out := out\<rparr>)" for out
    by (rule P [OF ed_same_flags_del(1)])
  obtain b1 where b1: "b1 = b\<lparr>ed_nlines := ed_shown b\<rparr>" by blast
  then have f: "ed_startline b1 = ed_startline b" "ed_nlines b1 = ed_shown b" "ed_holds b1 ls" using h by simp_all
  show ?thesis
    unfolding edutils_show_screen_def ed_ok_seq ed_ok_set ed_ok_get ed_ok_when ed_ok_if n b1 [symmetric] f(1,2)
    by (rule ed_ok_silent [OF disp [OF f(3)]]) (auto simp: edutils_set_flag_def ed_wp b1
        intro!: ed_ok_silent [OF edutils_display_status_silent] ed_ok_silent [OF ed_write_all_silent] keep del [simplified])
qed

text \<open>The cursor goes to a column of the text; the screen scrolls sideways when it has to.\<close>

lemma ed_ok_set_cursorx:
  assumes h: "ed_holds b ls" and st: "0 \<le> ed_startline b"
    and P: "\<And>nl fl out. \<lbrakk>nl = ed_nlines b \<or> nl = ed_shown b; ed_same_flags fl (eb_flags b)\<rbrakk> \<Longrightarrow>
      P () (b\<lparr>ed_startx := max 0 (x - 79), ed_cursorx := min x 79, ed_nlines := nl, eb_flags := fl, eb_out := out\<rparr>)"
  shows "ed_ok (edmove_set_cursorx x) b P"
proof -
  let ?s = "max 0 (x - 79)" and ?c = "min x 79"
  have c: "(if x \<ge> TERM_COLS then TERM_COLS - 1 else x) = ?c" and s: "(if x \<ge> TERM_COLS then x - ?c else 0) = ?s"
    by auto
  have keep: "P () (b\<lparr>ed_cursorx := ?c, eb_out := out\<rparr>)" if "?s = ed_startx b" for out
  proof -
    have "b\<lparr>ed_cursorx := ?c, eb_out := out\<rparr> =
        b\<lparr>ed_startx := ?s, ed_cursorx := ?c, ed_nlines := ed_nlines b, eb_flags := eb_flags b, eb_out := out\<rparr>"
      unfolding that by (cases b) simp
    then show ?thesis using P [of "ed_nlines b" "eb_flags b" out] by simp
  qed
  obtain b1 where b1: "b1 = b\<lparr>ed_cursorx := ?c, ed_startx := ?s\<rparr>" by blast
  then have f: "ed_holds b1 ls" "0 \<le> ed_startline b1" "ed_shown b1 = ed_shown b" "eb_flags b1 = eb_flags b"
    using h st by (simp_all add: ed_shown_def)
  have scrolled: "P () (b1\<lparr>ed_nlines := ed_shown b1, eb_flags := fl, eb_out := out\<rparr>)" if "ed_same_flags fl (eb_flags b1)" for fl out
  proof -
    have "b1\<lparr>ed_nlines := ed_shown b1, eb_flags := fl, eb_out := out\<rparr> =
        b\<lparr>ed_startx := ?s, ed_cursorx := ?c, ed_nlines := ed_shown b, eb_flags := fl, eb_out := out\<rparr>"
      unfolding f(3) b1 by (cases b) (simp add: ed_shown_def)
    then show ?thesis using P [of "ed_shown b" fl out] that f by simp
  qed
  have "ed_ok edutils_show_screen b1 (\<lambda>x b'. ed_ok ed_goto_cursor b' P)"
    by (rule ed_ok_show_screen [OF f(1,2)]) (auto intro!: ed_ok_silent [OF ed_goto_cursor_silent] scrolled)
  then show ?thesis
    unfolding edmove_set_cursorx_def Let_def c s
    by (auto simp: ed_wp b1 intro!: ed_ok_silent [OF ed_goto_cursor_silent] keep)
qed

subsection \<open>Changing a line\<close>

lemma ed_ok_addstring:
  assumes h: "ed_holds b ls" and i: "i = int k" "k < length ls" and pos: "pos = int p" "p \<le> length (ls ! k)"
    and str: "ed_plain str"
    and P: "\<And>x. ed_holds (b\<lparr>eb_lines := x\<rparr>) (ls[k := take p (ls ! k) @ str @ drop p (ls ! k)]) \<Longrightarrow> P 1 (b\<lparr>eb_lines := x\<rparr>)"
  shows "ed_ok (ededit_addstring i pos str) b P"
proof -
  let ?l = "ls ! k" and ?l' = "take p (ls ! k) @ str @ drop p (ls ! k)"
  have len: "length ?l' = length ?l + length str" using pos(2) by simp
  have body: "ed_ok (ed_bind (ed_str (?l @ 0 # r)) (\<lambda>s'.
         ed_bind (if int (length s') = pos then ed_store (length s') (str @ [0]) (?l @ 0 # r)
                  else ed_bind (ed_memmove (pos + int (length str)) pos (int (length s') - pos + 1) (?l @ 0 # r)) (ed_store (nat pos) str))
          (\<lambda>m'. ed_seq (edutils_line_set i m') (ed_ret 1)))) b P"
    if q: "ed_block q ?l" and r: "edalloc_round_size (length ?l + length str + 1) \<le> length ?l + 1 + length r" for q r
  proof -
    have plain: "ed_plain ?l" "0 \<notin> set ?l" using ed_block_plain [OF q] by (auto simp: ed_plain_def)
    have room: "length str \<le> length r" using r edalloc_round_size_ge [of "length ?l + length str + 1"] by simp
    have new: "ed_bind (if int (length ?l) = int p then ed_store (length ?l) (str @ [0]) (?l @ 0 # r)
                  else ed_bind (ed_memmove (int p + int (length str)) (int p) (int (length ?l) - int p + 1) (?l @ 0 # r)) (ed_store (nat (int p)) str)) f =
        ed_bind (ed_ret (?l' @ 0 # drop (length str) r)) f" for f :: "u8 list \<Rightarrow> int edm"
    proof (cases "length ?l = p")
      case True
      then show ?thesis using ed_append_string [of str r ?l 0] room by simp
    next
      case False
      then show ?thesis using ed_insert_string [OF pos(2) room] by simp
    qed
    have len_q: "length (?l' @ 0 # drop (length str) r) = length ?l + 1 + length r" using pos(2) room by simp
    have blk: "ed_block (?l' @ 0 # drop (length str) r) ?l'"
      by (rule ed_blockI [OF _ refl]) (use plain str in simp, use r in \<open>simp only: len_q len\<close>)
    show ?thesis unfolding ed_str_zero [OF plain(2)] ed_ok_bind ed_ok_ret pos(1)
      unfolding ed_ok_bind [symmetric] new unfolding ed_ok_bind ed_ok_ret ed_ok_seq
      by (rule ed_ok_line_set [OF h i blk]) (rule P)
  qed
  show ?thesis unfolding ededit_addstring_def ed_ok_bind
  proof (rule ed_ok_line_get [OF h i])
    fix q assume q: "ed_block q ?l"
    have "ed_ok (edalloc_line_realloc q (length ?l + length str + 1)) b (\<lambda>x b'. ed_ok (case x of
       None \<Rightarrow> ed_ret (-1)
     | Some m \<Rightarrow> ed_bind (ed_str m) (\<lambda>s'.
         ed_bind (if int (length s') = pos then ed_store (length s') (str @ [0]) m
                  else ed_bind (ed_memmove (pos + int (length str)) pos (int (length s') - pos + 1) m) (ed_store (nat pos) str))
          (\<lambda>m'. ed_seq (edutils_line_set i m') (ed_ret 1)))) b' P)"
      by (rule ed_ok_line_grow [OF q ed_holds_oom [OF h]]) (simp, simp only: option.case, rule body [OF q])
    then show "ed_ok (ed_str q) b (\<lambda>x b'. ed_ok (edalloc_line_realloc q (length x + length str + 1)) b' (\<lambda>x b'. ed_ok (case x of
       None \<Rightarrow> ed_ret (-1)
     | Some m \<Rightarrow> ed_bind (ed_str m) (\<lambda>s'.
         ed_bind (if int (length s') = pos then ed_store (length s') (str @ [0]) m
                  else ed_bind (ed_memmove (pos + int (length str)) pos (int (length s') - pos + 1) m) (ed_store (nat pos) str))
          (\<lambda>m'. ed_seq (edutils_line_set i m') (ed_ret 1)))) b' P))"
      unfolding ed_str_block [OF q] ed_ok_ret .
  qed
qed

lemma edalloc_line_realloc_same: "ed_block q l \<Longrightarrow> edalloc_line_realloc q (length l + 1) = ed_ret (Some q)"
  by (rule ext) (simp add: edalloc_line_realloc_def ed_str_block ed_bind_def ed_ret_def)

lemma ed_ok_remove_char:
  assumes h: "ed_holds b ls" and i: "i = int k" "k < length ls" and pos: "pos = int p" "p < length (ls ! k)"
    and P: "\<And>x. ed_holds (b\<lparr>eb_lines := x\<rparr>) (ls[k := take p (ls ! k) @ drop (Suc p) (ls ! k)]) \<Longrightarrow> P () (b\<lparr>eb_lines := x\<rparr>)"
  shows "ed_ok (ed_remove_char i pos) b P"
  unfolding ed_remove_char_def ed_ok_bind
proof (rule ed_ok_line_get [OF h i])
  let ?l = "ls ! k" and ?l' = "take p (ls ! k) @ drop (p + 1) (ls ! k)"
  fix q assume q: "ed_block q ?l"
  then obtain r where r: "q = ?l @ 0 # r" and cap: "edalloc_round_size (length ?l + 1) \<le> length q"
    by (auto simp: ed_block_def)
  let ?q = "take p ?l @ drop (p + 1) ?l @ 0 # 0 # r"
  have mv: "ed_memmove pos (pos + 1) (int (length ?l) - pos) q = ed_ret ?q"
    unfolding r pos(1) by (rule ed_remove_byte [OF pos(2)])
  have "length ?q = length q" "length ?l' + 1 \<le> length ?l + 1" using pos(2) by (simp_all add: r)
  then have "edalloc_round_size (length ?l' + 1) \<le> length ?q"
    using cap edalloc_round_size_mono [of "length ?l' + 1" "length ?l + 1"] by linarith
  then have blk: "ed_block ?q ?l'"
    by (intro ed_blockI [where r = "0 # r"]) (use ed_block_plain [OF q] in simp_all)
  show "ed_ok (ed_str q) b (\<lambda>x b'. ed_ok (ed_memmove pos (pos + 1) (int (length x) - pos) q) b' (\<lambda>x b'. ed_ok (ed_str x) b'
      (\<lambda>xa b'. ed_ok (edalloc_line_realloc x (length xa + 1)) b'
        (\<lambda>x b'. ed_ok (case x of None \<Rightarrow> ed_fail NullDeref | Some m \<Rightarrow> edutils_line_set i m) b' P))))"
    unfolding ed_str_block [OF q] ed_ok_ret mv ed_str_block [OF blk] edalloc_line_realloc_same [OF blk] option.case
    by (rule ed_ok_line_set [OF h i blk]) (use P in simp)
qed

end
