(* ===== verification/Editor_Ideal.thy ===== *)
theory Editor_Ideal
  imports Edbuf_Rules
begin

text \<open>
  The editor for a reader of its manual: a text, a row, a column. The keys of the ideal editor are total
  functions on lists of lines; the editor of \<^verbatim>\<open>edmove.c\<close> and \<^verbatim>\<open>ededit.c\<close> with its blocks, its window and its
  saved columns is shown to implement them as long as memory lasts.
\<close>

subsection \<open>The ideal editor\<close>

text \<open>\<open>et_want\<close> is the column of the last horizontal movement, to which the cursor returns on longer lines.\<close>

record ed_text =
  et_lines :: "u8 list list"
  et_row :: nat
  et_col :: nat
  et_want :: nat
  et_dirty :: bool
  et_name :: "u8 list option"

definition et_line :: "ed_text \<Rightarrow> u8 list" where
  "et_line e = et_lines e ! et_row e"

definition et_goto_row :: "nat \<Rightarrow> ed_text \<Rightarrow> ed_text" where
  "et_goto_row r e = e\<lparr>et_row := r, et_col := (if et_want e \<le> length (et_lines e ! r) then et_want e else 0)\<rparr>"

definition et_goto_col :: "nat \<Rightarrow> ed_text \<Rightarrow> ed_text" where
  "et_goto_col c e = e\<lparr>et_col := c, et_want := c\<rparr>"

definition et_insert :: "u8 list \<Rightarrow> ed_text \<Rightarrow> ed_text" where
  "et_insert s e = e\<lparr>et_lines := (et_lines e)[et_row e := take (et_col e) (et_line e) @ s @ drop (et_col e) (et_line e)],
     et_col := et_col e + length s, et_dirty := True\<rparr>"

definition et_home :: "ed_text \<Rightarrow> ed_text" where
  "et_home e = (let first = length (takeWhile c_isspace8 (et_line e)) in
     et_goto_col (if et_col e = 0 \<or> first = et_col e then 0 else first) e)"

definition et_remove_at :: "nat \<Rightarrow> ed_text \<Rightarrow> ed_text" where
  "et_remove_at c e = e\<lparr>et_lines := (et_lines e)[et_row e := take c (et_line e) @ drop (Suc c) (et_line e)],
     et_col := c, et_dirty := True\<rparr>"

text \<open>Row \<open>r\<close> and the one below it become one line.\<close>

definition et_join_at :: "nat \<Rightarrow> ed_text \<Rightarrow> ed_text" where
  "et_join_at r e = e\<lparr>et_lines := take r (et_lines e) @ (et_lines e ! r @ et_lines e ! Suc r) # drop (r + 2) (et_lines e),
     et_row := r, et_col := length (et_lines e ! r), et_dirty := True\<rparr>"

definition et_backspace :: "ed_text \<Rightarrow> ed_text" where
  "et_backspace e = (if et_col e > 0 then et_remove_at (et_col e - 1) e
     else if et_row e > 0 then et_join_at (et_row e - 1) e else e)"

definition et_del :: "ed_text \<Rightarrow> ed_text" where
  "et_del e = (if et_col e < length (et_line e) then et_remove_at (et_col e) e
     else if Suc (et_row e) < length (et_lines e) then et_join_at (et_row e) e else e)"

text \<open>The new line starts with the spaces that the old one starts with.\<close>

definition et_enter :: "ed_text \<Rightarrow> ed_text" where
  "et_enter e = (let n = length (takeWhile (\<lambda>c. c = 0x20) (et_line e)) in
     e\<lparr>et_lines := take (et_row e) (et_lines e) @ take (et_col e) (et_line e) #
         (replicate n 0x20 @ drop (et_col e) (et_line e)) # drop (Suc (et_row e)) (et_lines e),
       et_row := Suc (et_row e), et_col := n, et_want := n, et_dirty := True\<rparr>)"

definition et_delete_line :: "ed_text \<Rightarrow> ed_text" where
  "et_delete_line e = (if et_lines e = [[]] then e
     else if length (et_lines e) = 1 then e\<lparr>et_lines := [[]], et_col := 0, et_want := 0, et_dirty := True\<rparr>
     else e\<lparr>et_lines := take (et_row e) (et_lines e) @ drop (Suc (et_row e)) (et_lines e),
       et_row := (if Suc (et_row e) = length (et_lines e) then et_row e - 1 else et_row e),
       et_col := 0, et_want := 0, et_dirty := True\<rparr>)"

definition et_delete_to_end :: "ed_text \<Rightarrow> ed_text" where
  "et_delete_to_end e = (if et_col e < length (et_line e)
     then e\<lparr>et_lines := (et_lines e)[et_row e := take (et_col e) (et_line e)], et_dirty := True\<rparr> else e)"

definition et_key :: "term_key \<Rightarrow> ed_text \<Rightarrow> ed_text" where
  "et_key k e = (case k of
       KC_UP \<Rightarrow> et_goto_row (et_row e - 1) e
     | KC_DOWN \<Rightarrow> et_goto_row (min (Suc (et_row e)) (length (et_lines e) - 1)) e
     | KC_LEFT \<Rightarrow> et_goto_col (et_col e - 1) e
     | KC_RIGHT \<Rightarrow> et_goto_col (min (Suc (et_col e)) (length (et_line e))) e
     | KC_HOME \<Rightarrow> et_home e
     | KC_END \<Rightarrow> et_goto_col (length (et_line e)) e
     | KC_CHAR c \<Rightarrow> et_insert [of_int c] e
     | KC_TAB \<Rightarrow> et_insert [0x20, 0x20] e
     | KC_BACKSPACE \<Rightarrow> et_backspace e
     | KC_DEL \<Rightarrow> et_del e
     | KC_ENTER \<Rightarrow> et_enter e
     | KC_CTRL_Y \<Rightarrow> et_delete_line e
     | KC_CTRL_E \<Rightarrow> et_delete_to_end e
     | _ \<Rightarrow> e)"

subsection \<open>The relation\<close>

definition ed_sim :: "edbuf \<Rightarrow> ed_text \<Rightarrow> bool" where
  "ed_sim b e \<longleftrightarrow> ed_holds b (et_lines e) \<and> et_row e < length (et_lines e) \<and> et_col e \<le> length (et_line e) \<and>
     ed_startline b + ed_cursory b = int (et_row e) \<and> 0 \<le> ed_startline b \<and> 0 \<le> ed_cursory b \<and> ed_cursory b \<le> 28 \<and>
     ed_startx b + ed_cursorx b = int (et_col e) \<and> 0 \<le> ed_startx b \<and> 0 \<le> ed_cursorx b \<and> ed_cursorx b \<le> 79 \<and>
     ed_userstartx b + ed_userx b = int (et_want e) \<and> 0 \<le> ed_userstartx b \<and> 0 \<le> ed_userx b \<and> ed_userx b \<le> 79 \<and>
     ed_nlines b = ed_shown b \<and> bit (eb_flags b) 0 = et_dirty e \<and> \<not> bit (eb_flags b) 2 \<and> eb_fpath b = et_name e"

text \<open>The window does not reach beyond the end of a long file.\<close>

definition ed_scrolled :: "edbuf \<Rightarrow> bool" where
  "ed_scrolled b \<longleftrightarrow> ed_startline b = 0 \<or> ed_startline b + EDITOR_LINES \<le> eb_file_lines b"

definition ed_step_ok :: "int edm \<Rightarrow> edbuf \<Rightarrow> ed_text \<Rightarrow> bool" where
  "ed_step_ok m b e \<longleftrightarrow> ed_ok m b (\<lambda>r b'. r = 1 \<and> ed_sim b' e \<and> (ed_scrolled b \<longrightarrow> ed_scrolled b'))"

lemma edflag_select: "edutils_is_flag_set EDFLAG_SELECT b \<longleftrightarrow> bit (eb_flags b) 2"
  using bit_iff_and_push_bit_not_eq_0 [of "eb_flags b" 2] by (simp add: edutils_is_flag_set_def)

lemma ed_ok_dirty [ed_wp]: "ed_ok ed_dirty b P \<longleftrightarrow> P () (b\<lparr>eb_flags := eb_flags b OR EDFLAG_DIRTY\<rparr>)"
  by (simp add: ed_dirty_def edutils_set_flag_def ed_ok_set)

lemma bit_dirty [simp]: "bit (f OR EDFLAG_DIRTY) 0" "bit (f OR EDFLAG_DIRTY) 2 = bit f 2"
  by (simp_all add: bit_or_iff bit_1_iff)

lemma ed_same_flagsD: "ed_same_flags f g \<Longrightarrow> bit f 0 = bit g 0" "ed_same_flags f g \<Longrightarrow> bit f 2 = bit g 2"
  by (auto simp: ed_same_flags_def)

lemma ed_sim_holds: "ed_sim b e \<Longrightarrow> ed_holds b (et_lines e)"
  by (simp add: ed_sim_def)

lemma ed_sim_cursor:
  assumes "ed_sim b e"
  shows "ed_lineid b = int (et_row e)" "et_row e < length (et_lines e)" "ed_linepos b = int (et_col e)"
    "et_col e \<le> length (et_lines e ! et_row e)" "0 \<le> ed_startline b"
  using assms by (auto simp: ed_sim_def ed_lineid_def ed_linepos_def et_line_def)

lemma ed_sim_char:
  assumes sim: "ed_sim b e" and c: "ed_plain [c]"
  shows "ed_step_ok (ededit_key_char c) b (et_insert [c] e)"
proof -
  note cur = ed_sim_cursor [OF sim]
  let ?ls = "et_lines (et_insert [c] e)"
  show ?thesis
    unfolding ed_step_ok_def ededit_key_char_def ed_ok_get ed_ok_bind
  proof (rule ed_ok_addstring [OF ed_sim_holds [OF sim] cur(1,2,3,4) c], unfold if_not_P [OF one_neq_neg_one] ed_ok_seq)
    fix x assume "ed_holds (b\<lparr>eb_lines := x\<rparr>) ((et_lines e)[et_row e := take (et_col e) (et_lines e ! et_row e) @ [c] @ drop (et_col e) (et_lines e ! et_row e)])"
    then have h: "ed_holds (b\<lparr>eb_lines := x\<rparr>) ?ls" by (simp add: et_insert_def et_line_def)
    show "ed_ok (edmove_set_cursorx (ed_linepos b + 1)) (b\<lparr>eb_lines := x\<rparr>) (\<lambda>_ b'. ed_ok (ed_get ed_cursory (\<lambda>y.
        ed_seq (edutils_line_display y (ed_lineid b)) (ed_seq ed_dirty (ed_seq edutils_display_status (ed_ret 1))))) b'
        (\<lambda>r b'. r = 1 \<and> ed_sim b' (et_insert [c] e) \<and> (ed_scrolled b \<longrightarrow> ed_scrolled b')))"
      using cur h
      by (intro ed_ok_set_cursorx [OF h], simp, unfold ed_ok_get ed_ok_seq)
        (rule ed_ok_line_display [where ls = ?ls and k = "et_row e"], simp, simp, simp add: et_insert_def,
         simp only: ed_ok_dirty, rule ed_ok_status,
         use sim in \<open>auto simp: ed_ok_ret ed_sim_def et_insert_def et_line_def ed_shown_def ed_scrolled_def ed_linepos_def ed_same_flagsD\<close>)
  qed
qed

subsection \<open>Movement\<close>

lemma ed_ok_crt_string:
  assumes "ed_holds b ls" "ed_lineid b = int k" "k < length ls"
  shows "ed_ok ed_crt_string b P \<longleftrightarrow> P (ls ! k) b"
proof -
  obtain q where q: "edutils_line_get (int k) b = Inr (q, b)" "ed_block q (ls ! k)"
    using edutils_line_get_holds [OF assms(1,3)] by blast
  show ?thesis unfolding ed_crt_string_def ed_ok_get ed_ok_bind assms(2)
    by (simp add: ed_ok_def [of "edutils_line_get _"] q(1) ed_str_block [OF q(2)] ed_ok_ret)
qed

lemma ed_ok_cursor_check:
  assumes h: "ed_holds b ls" and i: "ed_lineid b = int k" "k < length ls" and st: "0 \<le> ed_startline b"
    and P: "\<And>nl fl out. \<lbrakk>nl = ed_nlines b \<or> nl = ed_shown b; ed_same_flags fl (eb_flags b)\<rbrakk> \<Longrightarrow>
      P () (b\<lparr>ed_startx := (if ed_userstartx b + ed_userx b > int (length (ls ! k)) then 0 else ed_userstartx b),
        ed_cursorx := (if ed_userstartx b + ed_userx b > int (length (ls ! k)) then 0 else ed_userx b),
        ed_nlines := nl, eb_flags := fl, eb_out := out\<rparr>)"
  shows "ed_ok edmove_cursor_check b P"
proof -
  have size: "edutils_get_actsize (ls ! k) = int (length (ls ! k))"
    by (rule edutils_get_actsize_plain [OF ed_holds_plain [OF h i(2)]])
  show ?thesis
  proof (cases "ed_userstartx b + ed_userx b > int (length (ls ! k))")
    case True
    have "ed_ok (edmove_set_cursorx 0) b P"
      by (rule ed_ok_set_cursorx [OF h st]) (use P True in simp)
    then show ?thesis unfolding edmove_cursor_check_def ed_ok_bind ed_ok_crt_string [OF h i] ed_ok_get size
      using True by simp
  next
    case False
    let ?s = "ed_userstartx b" and ?c = "ed_userx b"
    have keep: "P () (b\<lparr>ed_cursorx := ?c, eb_out := out\<rparr>)" if "ed_startx b = ?s" for out
    proof -
      have "b\<lparr>ed_cursorx := ?c, eb_out := out\<rparr> =
          b\<lparr>ed_startx := ?s, ed_cursorx := ?c, ed_nlines := ed_nlines b, eb_flags := eb_flags b, eb_out := out\<rparr>"
        unfolding that [symmetric] by (cases b) simp
      then show ?thesis using P [of "ed_nlines b" "eb_flags b" out] False by simp
    qed
    obtain b1 where b1: "b1 = b\<lparr>ed_startx := ?s\<rparr>" by blast
    then have f: "ed_holds b1 ls" "0 \<le> ed_startline b1" "ed_shown b1 = ed_shown b" "eb_flags b1 = eb_flags b"
      using h st by (simp_all add: ed_shown_def)
    have scrolled: "P () (b1\<lparr>ed_nlines := ed_shown b1, eb_flags := fl, eb_out := out1, ed_cursorx := ?c, eb_out := out\<rparr>)"
      if "ed_same_flags fl (eb_flags b1)" for fl out1 out
    proof -
      have "b1\<lparr>ed_nlines := ed_shown b1, eb_flags := fl, eb_out := out1, ed_cursorx := ?c, eb_out := out\<rparr> =
          b\<lparr>ed_startx := ?s, ed_cursorx := ?c, ed_nlines := ed_shown b, eb_flags := fl, eb_out := out\<rparr>"
        unfolding f(3) b1 by (cases b) (simp add: ed_shown_def)
      then show ?thesis using P [of "ed_shown b" fl out] that f False by simp
    qed
    have "ed_ok edutils_show_screen b1 (\<lambda>x b'. ed_ok ed_goto_cursor (b'\<lparr>ed_cursorx := ?c\<rparr>) P)"
      by (rule ed_ok_show_screen [OF f(1,2)], rule ed_ok_silent [OF ed_goto_cursor_silent], rule scrolled)
    then show ?thesis
      unfolding edmove_cursor_check_def ed_ok_bind ed_ok_crt_string [OF h i] ed_ok_get size
      using False by (auto simp: ed_wp b1 intro!: ed_ok_silent [OF ed_goto_cursor_silent] keep)
  qed
qed

lemma ed_ok_after_move:
  assumes "ed_holds b ls" "ed_lineid b = int k" "k < length ls" "0 \<le> ed_startline b" "\<not> bit (eb_flags b) 2"
    and "\<And>nl fl out. \<lbrakk>nl = ed_nlines b \<or> nl = ed_shown b; ed_same_flags fl (eb_flags b)\<rbrakk> \<Longrightarrow>
      P () (b\<lparr>ed_startx := (if ed_userstartx b + ed_userx b > int (length (ls ! k)) then 0 else ed_userstartx b),
        ed_cursorx := (if ed_userstartx b + ed_userx b > int (length (ls ! k)) then 0 else ed_userx b),
        ed_nlines := nl, eb_flags := fl, eb_out := out\<rparr>)"
  shows "ed_ok ed_after_move b P"
  unfolding ed_after_move_def ed_ok_seq ed_sel_follows_def ed_ok_get
  apply (simp add: edflag_select assms(5) ed_wp)
  apply (rule ed_ok_silent [OF edutils_update_selection_silent], rule ed_ok_status)
  apply (rule ed_ok_cursor_check [where k = k and ls = ls])
  subgoal using assms(1) by simp
  subgoal using assms(2) by (simp add: ed_lineid_def)
  subgoal by (rule assms(3))
  subgoal using assms(4) by simp
  subgoal for out1 out2 nl fl out using assms(6) [of nl fl out] by (simp add: ed_shown_def cong: if_cong split: if_splits)
  done

lemma ed_ok_scroll_to:
  assumes "ed_holds b ls" "0 \<le> st" "\<not> bit (eb_flags b) 2"
    and "\<And>fl out. ed_same_flags fl (eb_flags b) \<Longrightarrow>
      P () (b\<lparr>ed_startline := st, ed_nlines := min EDITOR_LINES (eb_file_lines b - st), eb_flags := fl, eb_out := out\<rparr>)"
  shows "ed_ok (ed_scroll_to st) b P"
  unfolding ed_scroll_to_def ed_ok_seq ed_sel_follows_def ed_ok_get ed_ok_set
  by (simp add: edflag_select assms(3) ed_wp, rule ed_ok_show_screen [where ls = ls])
    (use assms in \<open>auto simp: ed_shown_def\<close>)

lemma ed_sim_lines: "ed_sim b e \<Longrightarrow> eb_file_lines b = int (length (et_lines e))"
  by (rule ed_holds_file_lines [OF ed_sim_holds])

text \<open>The vertical half of the relation, with the cursor in row \<open>r\<close> and its column still to be checked.\<close>

definition ed_sim_row :: "edbuf \<Rightarrow> ed_text \<Rightarrow> nat \<Rightarrow> bool" where
  "ed_sim_row b e r \<longleftrightarrow> ed_holds b (et_lines e) \<and> r < length (et_lines e) \<and>
     ed_startline b + ed_cursory b = int r \<and> 0 \<le> ed_startline b \<and> 0 \<le> ed_cursory b \<and> ed_cursory b \<le> 28 \<and>
     ed_userstartx b + ed_userx b = int (et_want e) \<and> 0 \<le> ed_userstartx b \<and> 0 \<le> ed_userx b \<and> ed_userx b \<le> 79 \<and>
     ed_nlines b = ed_shown b \<and> bit (eb_flags b) 0 = et_dirty e \<and> \<not> bit (eb_flags b) 2 \<and> eb_fpath b = et_name e"

lemma ed_sim_after_move:
  assumes "ed_sim_row b e r"
  shows "ed_ok ed_after_move b (\<lambda>_ b'. ed_sim b' (et_goto_row r e) \<and> ed_startline b' = ed_startline b)"
  apply (rule ed_ok_after_move [where ls = "et_lines e" and k = r])
  subgoal using assms by (simp add: ed_sim_row_def)
  subgoal using assms by (simp add: ed_sim_row_def ed_lineid_def)
  subgoal using assms by (simp add: ed_sim_row_def)
  subgoal using assms by (simp add: ed_sim_row_def)
  subgoal using assms by (simp add: ed_sim_row_def)
  subgoal for nl fl out
    using assms ed_same_flagsD [of fl "eb_flags b"]
    by (auto simp: ed_sim_def ed_sim_row_def et_goto_row_def et_line_def ed_shown_def)
  done

lemma ed_step_move:
  assumes "ed_sim_row b' e r" "ed_scrolled b \<Longrightarrow> ed_startline b' = 0 \<or> ed_startline b' + EDITOR_LINES \<le> int (length (et_lines e))"
  shows "ed_ok ed_after_move b' (\<lambda>_ b'. ed_sim b' (et_goto_row r e) \<and> (ed_scrolled b \<longrightarrow> ed_scrolled b'))"
proof (rule ed_ok_mono [OF ed_sim_after_move [OF assms(1)]])
  fix b'' assume *: "ed_sim b'' (et_goto_row r e) \<and> ed_startline b'' = ed_startline b'"
  then have "eb_file_lines b'' = int (length (et_lines e))" using ed_sim_lines [of b'' "et_goto_row r e"] by (simp add: et_goto_row_def)
  then show "ed_sim b'' (et_goto_row r e) \<and> (ed_scrolled b \<longrightarrow> ed_scrolled b'')" using * assms(2) by (simp add: ed_scrolled_def)
qed

lemma ed_sim_up:
  assumes sim: "ed_sim b e"
  shows "ed_ok edmove_key_up b (\<lambda>_ b'. ed_sim b' (et_goto_row (et_row e - 1) e) \<and> (ed_scrolled b \<longrightarrow> ed_scrolled b'))"
proof -
  note n = ed_sim_lines [OF sim]
  have ne: "eb_file_lines b \<noteq> 0" using sim n by (auto simp: ed_sim_def)
  let ?Q = "\<lambda>_ b'. ed_sim b' (et_goto_row (et_row e - 1) e) \<and> (ed_scrolled b \<longrightarrow> ed_scrolled b')"
  have scroll: "ed_ok (ed_scroll_to (ed_startline b - 1)) b (\<lambda>_ b'. ed_ok ed_after_move b' ?Q)"
    if "ed_cursory b = 0" "0 < ed_startline b"
    by (rule ed_ok_scroll_to [OF ed_sim_holds [OF sim]], use that in simp, use sim in \<open>simp add: ed_sim_def\<close>, rule ed_step_move)
      (use sim that n in \<open>auto simp: ed_sim_def ed_sim_row_def ed_shown_def ed_scrolled_def dest: ed_same_flagsD\<close>)
  have top: "ed_ok ed_after_move b ?Q" if "ed_cursory b = 0" "\<not> 0 < ed_startline b"
    by (intro ed_step_move) (use sim n that in \<open>auto simp: ed_sim_def ed_sim_row_def ed_shown_def ed_scrolled_def\<close>)
  have up: "ed_ok ed_after_move (b\<lparr>ed_cursory := ed_cursory b - 1\<rparr>) ?Q" if "ed_cursory b \<noteq> 0"
    by (intro ed_step_move) (use sim n that in \<open>auto simp: ed_sim_def ed_sim_row_def ed_shown_def ed_scrolled_def\<close>)
  show ?thesis
    unfolding edmove_key_up_def ed_ok_get if_not_P [OF ne] ed_ok_seq ed_ok_if ed_ok_when ed_set_cursory_def ed_ok_set
    using scroll top up by (cases "ed_cursory b = 0"; cases "0 < ed_startline b"; simp only: if_True if_False simp_thms)
qed

text \<open>
  The key for down trusts that a second line is on the screen when the file has one. After lines were
  deleted above the last line of a long file it is not, see \<open>editor_down_leaves_file\<close>.
\<close>

definition ed_stranded :: "edbuf \<Rightarrow> bool" where
  "ed_stranded b \<longleftrightarrow> ed_cursory b = 0 \<and> 0 < ed_startline b \<and> ed_startline b = eb_file_lines b - 1"

lemma ed_scrolled_not_stranded: "ed_scrolled b \<Longrightarrow> \<not> ed_stranded b"
  by (auto simp: ed_scrolled_def ed_stranded_def)

lemma ed_sim_down:
  assumes sim: "ed_sim b e" and ok: "\<not> ed_stranded b"
  shows "ed_ok edmove_key_down b (\<lambda>_ b'. ed_sim b' (et_goto_row (min (Suc (et_row e)) (length (et_lines e) - 1)) e) \<and> (ed_scrolled b \<longrightarrow> ed_scrolled b'))"
proof -
  note n = ed_sim_lines [OF sim]
  have ne: "eb_file_lines b \<noteq> 0" using sim n by (auto simp: ed_sim_def)
  let ?r = "min (Suc (et_row e)) (length (et_lines e) - 1)"
  let ?Q = "\<lambda>_ b'. ed_sim b' (et_goto_row ?r e) \<and> (ed_scrolled b \<longrightarrow> ed_scrolled b')"
  note defs = ed_sim_def ed_sim_row_def ed_shown_def ed_scrolled_def ed_stranded_def
  have stay: "ed_ok ed_after_move b ?Q" if "et_row e = length (et_lines e) - 1"
    by (intro ed_step_move) (use sim n that in \<open>auto simp: defs\<close>)
  have down: "ed_ok ed_after_move (b\<lparr>ed_cursory := ed_cursory b + 1\<rparr>) ?Q" if "Suc (et_row e) < length (et_lines e)" "ed_cursory b < 28"
    by (intro ed_step_move) (use sim n that in \<open>auto simp: defs\<close>)
  have scroll: "ed_ok (ed_scroll_to (ed_startline b + 1)) b (\<lambda>_ b'. ed_ok ed_after_move b' ?Q)"
    if "Suc (et_row e) < length (et_lines e)" "ed_cursory b = 28"
    by (rule ed_ok_scroll_to [OF ed_sim_holds [OF sim]], use sim in \<open>simp add: ed_sim_def\<close>, use sim in \<open>simp add: ed_sim_def\<close>, rule ed_step_move)
      (use sim that n in \<open>auto simp: defs dest: ed_same_flagsD\<close>)
  show ?thesis
  proof (cases "et_row e = length (et_lines e) - 1")
    case True
    then have "ed_cursory b = 0 \<Longrightarrow> \<not> 1 < eb_file_lines b" "ed_cursory b \<noteq> 0 \<Longrightarrow> ed_cursory b = ed_nlines b - 1"
      "\<not> (ed_nlines b = EDITOR_LINES \<and> ed_startline b + EDITOR_LINES < eb_file_lines b)"
      using sim n ok by (auto simp: defs)
    then show ?thesis
      unfolding edmove_key_down_def ed_ok_get if_not_P [OF ne] ed_ok_seq ed_ok_if ed_ok_when ed_set_cursory_def ed_ok_set
      using stay True by (cases "ed_cursory b = 0"; auto)
  next
    case False
    then have s: "Suc (et_row e) < length (et_lines e)" using sim by (auto simp: ed_sim_def)
    then have "1 < eb_file_lines b" "ed_cursory b = 28 \<Longrightarrow> ed_cursory b = ed_nlines b - 1" "ed_cursory b < 28 \<Longrightarrow> ed_cursory b \<noteq> ed_nlines b - 1"
      "ed_cursory b = 28 \<Longrightarrow> ed_nlines b = EDITOR_LINES \<and> ed_startline b + EDITOR_LINES < eb_file_lines b" "ed_cursory b = 28 \<or> ed_cursory b < 28"
      using sim n ok by (auto simp: defs)
    then show ?thesis
      unfolding edmove_key_down_def ed_ok_get if_not_P [OF ne] ed_ok_seq ed_ok_if ed_ok_when ed_set_cursory_def ed_ok_set
      using down [OF s] scroll [OF s] by (cases "ed_cursory b = 0"; cases "ed_cursory b = 28"; simp)
  qed
qed

subsection \<open>Columns\<close>

lemma ed_sim_size:
  assumes "ed_sim b e"
  shows "edutils_get_actsize (et_line e) = int (length (et_line e))"
  using assms ed_holds_plain [of b "et_lines e" "et_row e"]
  by (intro edutils_get_actsize_plain) (auto simp: ed_sim_def et_line_def)

lemma ed_ok_crt_sim:
  assumes "ed_sim b e"
  shows "ed_ok ed_crt_string b P \<longleftrightarrow> P (et_line e) b"
  using ed_ok_crt_string [OF ed_sim_holds [OF assms] ed_sim_cursor(1,2) [OF assms]] by (simp add: et_line_def)

text \<open>After a horizontal movement the column is saved: what remains to show.\<close>

definition ed_sim_col :: "edbuf \<Rightarrow> ed_text \<Rightarrow> nat \<Rightarrow> bool" where
  "ed_sim_col b e c \<longleftrightarrow> ed_sim (b\<lparr>ed_userx := ed_cursorx b, ed_userstartx := ed_startx b\<rparr>) (et_goto_col c e)"

lemma ed_ok_save_cursorx [ed_wp]:
  "ed_ok edmove_save_cursorx b P \<longleftrightarrow> P () (b\<lparr>ed_userx := ed_cursorx b, ed_userstartx := ed_startx b\<rparr>)"
  by (simp add: edmove_save_cursorx_def ed_ok_set)

lemma ed_sim_set_cursorx:
  assumes sim: "ed_sim b e" and c: "c \<le> length (et_line e)"
  shows "ed_ok (edmove_set_cursorx (int c)) b (\<lambda>_ b'. ed_sim_col b' e c \<and> (ed_scrolled b \<longrightarrow> ed_scrolled b'))"
  by (rule ed_ok_set_cursorx [OF ed_sim_holds [OF sim] ed_sim_cursor(5) [OF sim]])
    (use sim c in \<open>auto simp: ed_sim_col_def ed_sim_def et_goto_col_def et_line_def ed_shown_def ed_scrolled_def dest: ed_same_flagsD\<close>)

lemma ed_sim_left:
  assumes sim: "ed_sim b e"
  shows "ed_ok edmove_key_left b (\<lambda>_ b'. ed_sim_col b' e (et_col e - 1) \<and> (ed_scrolled b \<longrightarrow> ed_scrolled b'))"
proof -
  have ne: "eb_file_lines b \<noteq> 0" using sim ed_sim_lines [OF sim] by (auto simp: ed_sim_def)
  let ?Q = "\<lambda>_ b'. ed_sim_col b' e (et_col e - 1) \<and> (ed_scrolled b \<longrightarrow> ed_scrolled b')"
  note defs = ed_sim_col_def ed_sim_def et_goto_col_def et_line_def ed_shown_def ed_scrolled_def
  have scroll: "ed_ok edutils_show_screen (b\<lparr>ed_startx := ed_startx b - 1\<rparr>) (\<lambda>_ b'. ed_ok edutils_display_status b' ?Q)"
    if "ed_cursorx b = 0" "0 < ed_startx b"
    by (rule ed_ok_show_screen [where ls = "et_lines e"], use sim in \<open>simp add: ed_sim_def\<close>, use sim in \<open>simp add: ed_sim_def\<close>, rule ed_ok_status)
      (use sim that in \<open>auto simp: defs dest: ed_same_flagsD\<close>)
  have left: "ed_ok edutils_display_status (b\<lparr>ed_cursorx := ed_cursorx b - 1\<rparr>) ?Q" if "ed_cursorx b \<noteq> 0"
    by (rule ed_ok_status) (use sim that in \<open>auto simp: defs\<close>)
  have stay: "ed_ok edutils_display_status b ?Q" if "ed_cursorx b = 0" "\<not> 0 < ed_startx b"
    by (rule ed_ok_status) (use sim that in \<open>auto simp: defs\<close>)
  show ?thesis
    unfolding edmove_key_left_def ed_ok_get if_not_P [OF ne] ed_ok_seq ed_ok_if ed_ok_when ed_ok_set
    using scroll left stay by (cases "ed_cursorx b = 0"; cases "0 < ed_startx b"; simp only: if_True if_False simp_thms)
qed

lemma ed_sim_right:
  assumes sim: "ed_sim b e"
  shows "ed_ok edmove_key_right b (\<lambda>_ b'. ed_sim_col b' e (min (Suc (et_col e)) (length (et_line e))) \<and> (ed_scrolled b \<longrightarrow> ed_scrolled b'))"
proof -
  have ne: "eb_file_lines b \<noteq> 0" using sim ed_sim_lines [OF sim] by (auto simp: ed_sim_def)
  let ?Q = "\<lambda>_ b'. ed_sim_col b' e (min (Suc (et_col e)) (length (et_line e))) \<and> (ed_scrolled b \<longrightarrow> ed_scrolled b')"
  note defs = ed_sim_col_def ed_sim_def et_goto_col_def et_line_def ed_shown_def ed_scrolled_def
  have scroll: "ed_ok edutils_show_screen (b\<lparr>ed_startx := ed_startx b + 1\<rparr>) (\<lambda>_ b'. ed_ok edutils_display_status b' ?Q)"
    if "ed_cursorx b = 79" "et_col e < length (et_line e)"
    by (rule ed_ok_show_screen [where ls = "et_lines e"], use sim in \<open>simp add: ed_sim_def\<close>, use sim in \<open>simp add: ed_sim_def\<close>, rule ed_ok_status)
      (use sim that in \<open>auto simp: defs dest: ed_same_flagsD\<close>)
  have right: "ed_ok edutils_display_status (b\<lparr>ed_cursorx := ed_cursorx b + 1\<rparr>) ?Q" if "ed_cursorx b \<noteq> 79" "et_col e < length (et_line e)"
    by (rule ed_ok_status) (use sim that in \<open>auto simp: defs\<close>)
  have stay: "?Q () b" if "et_col e = length (et_line e)"
    using sim that by (auto simp: defs)
  have col: "ed_startx b + ed_cursorx b = int (et_col e)" "et_col e = length (et_line e) \<or> et_col e < length (et_line e)"
    using sim by (auto simp: ed_sim_def)
  show ?thesis
    unfolding edmove_key_right_def ed_ok_get if_not_P [OF ne] ed_ok_bind ed_ok_crt_sim [OF sim] ed_sim_size [OF sim] col(1)
      ed_ok_seq ed_ok_if ed_ok_ret ed_ok_set
    using scroll right stay col(2) by (cases "et_col e = length (et_line e)"; cases "ed_cursorx b = 79"; simp)
qed

lemma ed_sim_home:
  assumes sim: "ed_sim b e"
  shows "ed_ok edmove_key_home b (\<lambda>_ b'. ed_sim_col b' e (et_col (et_home e)) \<and> (ed_scrolled b \<longrightarrow> ed_scrolled b'))"
proof -
  have ne: "eb_file_lines b \<noteq> 0" using sim ed_sim_lines [OF sim] by (auto simp: ed_sim_def)
  note cur = ed_sim_cursor [OF sim]
  let ?k = "length (takeWhile c_isspace8 (et_line e))"
  let ?c = "if ?k = et_col e then 0 else ?k"
  have go: "ed_ok (edmove_set_cursorx (int ?c)) b (\<lambda>_ b'. ed_sim_col b' e ?c \<and> (ed_scrolled b \<longrightarrow> ed_scrolled b'))"
    by (rule ed_sim_set_cursorx [OF sim]) (simp add: length_takeWhile_le)
  have c: "(if int ?k = int (et_col e) then 0 else int ?k) = int ?c" by simp
  show ?thesis
  proof (cases "et_col e = 0")
    case True
    then have "ed_sim_col b e (et_col (et_home e))"
      using sim by (auto simp: ed_sim_col_def ed_sim_def et_home_def et_goto_col_def et_line_def ed_shown_def Let_def)
    then show ?thesis using True cur(3) by (simp add: edmove_key_home_def ed_ok_get ed_ok_ret)
  next
    case False
    then have "et_col (et_home e) = ?c" by (simp add: et_home_def et_goto_col_def Let_def)
    then show ?thesis
      unfolding edmove_key_home_def ed_ok_get cur(3) using False ne go
      by (simp add: ed_ok_bind ed_ok_crt_sim [OF sim] Let_def c del: of_nat_eq_iff)
  qed
qed

lemma ed_sim_end:
  assumes sim: "ed_sim b e"
  shows "ed_ok edmove_key_end b (\<lambda>_ b'. ed_sim_col b' e (length (et_line e)) \<and> (ed_scrolled b \<longrightarrow> ed_scrolled b'))"
proof -
  have ne: "eb_file_lines b \<noteq> 0" using sim ed_sim_lines [OF sim] by (auto simp: ed_sim_def)
  let ?Q = "\<lambda>_ b'. ed_sim_col b' e (length (et_line e)) \<and> (ed_scrolled b \<longrightarrow> ed_scrolled b')"
  let ?k = "int (length (et_line e))"
  note defs = ed_sim_col_def ed_sim_def et_goto_col_def et_line_def ed_shown_def ed_scrolled_def
  have long: "ed_ok edutils_show_screen (b\<lparr>ed_cursorx := ?k, ed_cursorx := 79, ed_startx := ?k - 79\<rparr>) (\<lambda>_ b'. ed_ok edutils_display_status b' ?Q)"
    if "79 < ?k"
    by (rule ed_ok_show_screen [where ls = "et_lines e"], use sim in \<open>simp add: ed_sim_def\<close>, use sim in \<open>simp add: ed_sim_def\<close>, rule ed_ok_status)
      (use sim that in \<open>auto simp: defs dest: ed_same_flagsD\<close>)
  have unscroll: "ed_ok edutils_show_screen (b\<lparr>ed_cursorx := ?k, ed_startx := 0\<rparr>) (\<lambda>_ b'. ed_ok edutils_display_status b' ?Q)"
    if "\<not> 79 < ?k"
    by (rule ed_ok_show_screen [where ls = "et_lines e"], use sim in \<open>simp add: ed_sim_def\<close>, use sim in \<open>simp add: ed_sim_def\<close>, rule ed_ok_status)
      (use sim that in \<open>auto simp: defs dest: ed_same_flagsD\<close>)
  have short: "ed_ok edutils_display_status (b\<lparr>ed_cursorx := ?k\<rparr>) ?Q" if "\<not> 79 < ?k" "\<not> 0 < ed_startx b"
    by (rule ed_ok_status) (use sim that in \<open>auto simp: defs\<close>)
  show ?thesis
    unfolding edmove_key_end_def ed_ok_get if_not_P [OF ne] ed_ok_bind ed_ok_crt_sim [OF sim] ed_sim_size [OF sim] Let_def
      ed_ok_seq ed_ok_if ed_ok_when ed_ok_set
    using long unscroll short by (cases "79 < ?k"; cases "0 < ed_startx b"; simp)
qed

subsection \<open>Editing inside a line\<close>

lemma ed_window_col [simp]: "max 0 (x - 79) + min x 79 = x" "max 0 (x - 80) + min (x - 1) 79 = x - 1" for x :: int
  by (simp_all add: max_def min_def)

text \<open>The end of most editing keys: the line is displayed, the buffer marked as changed.\<close>

lemma ed_ok_redisplay:
  assumes "ed_holds b ls" "i = int k" "k < length ls"
    and P: "\<And>out. P 1 (b\<lparr>eb_flags := eb_flags b OR EDFLAG_DIRTY, eb_out := out\<rparr>)"
  shows "ed_ok (edutils_line_display y i) b (\<lambda>_ b'. ed_ok ed_dirty b' (\<lambda>_ b'. ed_ok edutils_display_status b' (\<lambda>_ b'. ed_ok (ed_ret 1) b' P)))"
  by (rule ed_ok_line_display [OF assms(1-3)], simp only: ed_ok_dirty, rule ed_ok_status) (use P in \<open>simp add: ed_ok_ret\<close>)

lemma ed_sim_remove_left:
  assumes sim: "ed_sim b e" and c: "0 < et_col e"
  shows "ed_step_ok ededit_key_backspace b (et_backspace e)"
proof -
  note cur = ed_sim_cursor [OF sim] and h = ed_sim_holds [OF sim]
  let ?ls = "et_lines (et_backspace e)"
  have pos: "int (et_col e) - 1 = int (et_col e - 1)" "et_col e - 1 < length (et_lines e ! et_row e)" "Suc (et_col e - 1) = et_col e"
    using c cur(4) by simp_all
  have ne: "int (et_col e) \<noteq> 0" using c by simp
  have ls: "?ls = (et_lines e)[et_row e := take (et_col e - 1) (et_lines e ! et_row e) @ drop (Suc (et_col e - 1)) (et_lines e ! et_row e)]"
    using c by (simp add: et_backspace_def et_remove_at_def et_line_def)
  show ?thesis
    unfolding ed_step_ok_def ededit_key_backspace_def ed_ok_get ed_ok_bind if_not_P [OF ne] ed_ok_seq cur(1,3) pos(1)
    apply (rule ed_ok_line_get [OF h refl cur(2)])
    apply (rule ed_ok_remove_char [OF h refl cur(2) refl pos(2)])
    apply (rule ed_ok_set_cursorx, assumption)
    subgoal using cur(5) by simp
    subgoal for q x nl fl out
      unfolding ls [symmetric]
      by (rule ed_ok_redisplay [where ls = ?ls and k = "et_row e"], simp, simp, simp add: ls cur(2))
        (use sim c in \<open>auto simp: ed_sim_def et_backspace_def et_remove_at_def et_line_def ed_shown_def ed_scrolled_def ed_same_flagsD\<close>)
    done
qed

lemma ed_sim_remove_right:
  assumes sim: "ed_sim b e" and c: "et_col e < length (et_line e)"
  shows "ed_step_ok ededit_key_del b (et_del e)"
proof -
  note cur = ed_sim_cursor [OF sim] and h = ed_sim_holds [OF sim]
  let ?ls = "et_lines (et_del e)"
  have c': "et_col e < length (et_lines e ! et_row e)" using c by (simp add: et_line_def)
  have ls: "?ls = (et_lines e)[et_row e := take (et_col e) (et_lines e ! et_row e) @ drop (Suc (et_col e)) (et_lines e ! et_row e)]"
    using c by (simp add: et_del_def et_remove_at_def et_line_def)
  have ne: "int (et_col e) \<noteq> int (length (et_lines e ! et_row e))" "et_lines e ! et_row e \<noteq> []" using c' by auto
  show ?thesis
    unfolding ed_step_ok_def ededit_key_del_def ed_ok_get ed_ok_bind cur(1,3)
    apply (rule ed_ok_line_get [OF h refl cur(2)])
    unfolding ed_str_block ed_ok_ret if_not_P [OF ne(1)] if_P [OF ne(2)] ed_ok_seq
    apply (rule ed_ok_remove_char [OF h refl cur(2) refl c'])
    subgoal for q x
      unfolding ls [symmetric] ed_ok_get ed_ok_seq
      by (rule ed_ok_redisplay [where ls = ?ls and k = "et_row e"], simp, simp, simp add: ls cur(2))
        (use sim c in \<open>auto simp: ed_sim_def et_del_def et_remove_at_def et_line_def ed_shown_def ed_scrolled_def\<close>)
    done
qed

text \<open>Cutting the line at the cursor, up to the point where the text has changed, and the rest of it.\<close>

definition ed_cut_end :: "int \<Rightarrow> int \<Rightarrow> int edm" where
  "ed_cut_end lineid linepos = ed_get ed_cursory (\<lambda>y. ed_seq (edutils_line_display y lineid)
     (ed_seq ed_dirty (ed_seq (edmove_set_cursorx linepos) (ed_ret 1))))"

lemma ed_ok_delete_to_end:
  assumes sim: "ed_sim b e" and same: "et_delete_to_end e = e \<Longrightarrow> Q 1 b"
    and P: "\<And>x. et_col e < length (et_line e) \<Longrightarrow> ed_holds (b\<lparr>eb_lines := x\<rparr>) (et_lines (et_delete_to_end e)) \<Longrightarrow>
      ed_ok (ed_cut_end (int (et_row e)) (int (et_col e))) (b\<lparr>eb_lines := x\<rparr>) Q"
  shows "ed_ok ededit_deltoeol b Q"
proof -
  note cur = ed_sim_cursor [OF sim] and h = ed_sim_holds [OF sim]
  let ?l = "et_lines e ! et_row e" and ?ls = "et_lines (et_delete_to_end e)"
  show ?thesis
  proof (cases "et_col e < length (et_line e)")
    case False
    then have "et_col e = length (et_lines e ! et_row e)" "et_delete_to_end e = e"
      using sim by (auto simp: ed_sim_def et_line_def et_delete_to_end_def)
    then show ?thesis
      unfolding ededit_deltoeol_def ed_ok_get ed_ok_bind cur(1,3)
      by (intro ed_ok_line_get [OF h refl cur(2)]) (simp add: ed_str_block ed_ok_ret same)
  next
    case True
    have c: "et_col e < length ?l" using True by (simp add: et_line_def)
    have ls: "?ls = (et_lines e)[et_row e := take (et_col e) ?l]"
      using True by (simp add: et_delete_to_end_def et_line_def)
    have go: "?l \<noteq> [] \<and> int (et_col e) \<noteq> int (length ?l)" using c by auto
    have n: "nat (int (et_col e) + 1) = et_col e + 1" by simp
    have zero: "ed_put_zero (int (et_col e)) (take (et_col e) ?l @ y # r) = ed_ret (take (et_col e) ?l @ 0 # r)" for y r
      using c by (intro ed_put_zero_at) simp
    have blk: "ed_block (take (et_col e) ?l @ 0 # r) (take (et_col e) ?l)"
      if "edalloc_round_size (et_col e + 1) \<le> et_col e + 1 + length r" for r
      by (rule ed_blockI [OF _ refl]) (use ed_holds_plain [OF h cur(2)] that c in simp_all)
    show ?thesis
      unfolding ededit_deltoeol_def ed_ok_get ed_ok_bind cur(1,3)
      apply (rule ed_ok_line_get [OF h refl cur(2)])
      unfolding ed_str_block ed_ok_ret if_P [OF go] n ed_ok_bind
      apply (rule ed_ok_line_cut [OF _ ed_holds_oom [OF h]], assumption)
      subgoal using c by simp
      unfolding option.case ed_ok_bind zero ed_ok_ret ed_ok_seq
      apply (rule ed_ok_line_set [OF h refl cur(2) blk], assumption)
      unfolding ls [symmetric]
      subgoal for q y r x using P [OF True, of x] by (simp add: ed_cut_end_def ed_ok_seq ed_ok_ret)
      done
  qed
qed

lemma ed_sim_delete_to_end:
  assumes sim: "ed_sim b e"
  shows "ed_step_ok ededit_deltoeol b (et_delete_to_end e)"
  unfolding ed_step_ok_def
proof (rule ed_ok_delete_to_end [OF sim])
  note cur = ed_sim_cursor [OF sim] and n = ed_sim_lines [OF sim]
  fix x assume c: "et_col e < length (et_line e)" and h: "ed_holds (b\<lparr>eb_lines := x\<rparr>) (et_lines (et_delete_to_end e))"
  have k: "et_row e < length (et_lines (et_delete_to_end e))" using cur(2) by (simp add: et_delete_to_end_def)
  show "ed_ok (ed_cut_end (int (et_row e)) (int (et_col e))) (b\<lparr>eb_lines := x\<rparr>)
      (\<lambda>r b'. r = 1 \<and> ed_sim b' (et_delete_to_end e) \<and> (ed_scrolled b \<longrightarrow> ed_scrolled b'))"
    unfolding ed_cut_end_def ed_ok_get ed_ok_seq
    apply (rule ed_ok_line_display [OF h refl k])
    unfolding ed_ok_dirty
    apply (rule ed_ok_set_cursorx [where ls = "et_lines (et_delete_to_end e)"])
    subgoal using h by simp
    subgoal using cur(5) by simp
    subgoal
      using sim c n h k
      by (auto simp: ed_ok_ret ed_sim_def et_delete_to_end_def et_line_def ed_shown_def ed_scrolled_def ed_same_flagsD)
    done
qed (use sim in simp)

subsection \<open>Joining and splitting lines\<close>

lemma ed_ifI: "(c \<Longrightarrow> P) \<Longrightarrow> (\<not> c \<Longrightarrow> Q) \<Longrightarrow> if c then P else Q"
  by simp

lemma take_Suc_update: "r < length ls \<Longrightarrow> take (Suc r) (ls[r := x]) = take r ls @ [x]"
  by (simp add: take_Suc_conv_app_nth)

text \<open>The line below row \<open>r\<close> is appended to it and removed.\<close>

lemma ed_ok_join:
  assumes h: "ed_holds b ls" and r: "i = int r" "j = int (Suc r)" "Suc r < length ls" and pos: "pos = int (length (ls ! r))"
    and str: "str = ls ! Suc r"
    and P: "\<And>a x. ed_holds (b\<lparr>eb_file_lines := int (length ls) - 1, eb_allocated := a, eb_lines := x\<rparr>)
        (take r ls @ (ls ! r @ ls ! Suc r) # drop (Suc (Suc r)) ls)
      \<Longrightarrow> ed_ok m (b\<lparr>eb_file_lines := int (length ls) - 1, eb_allocated := a, eb_lines := x\<rparr>) Q"
  shows "ed_ok (ededit_addstring i pos str) b (\<lambda>k b'. ed_ok (if k = -1 then m' else ed_seq (edalloc_buffer_remove_line j) m) b' Q)"
  unfolding str
proof (rule ed_ok_addstring [OF h r(1) _ pos order_refl ed_holds_plain [OF h r(3)]])
  show "r < length ls" using r(3) by simp
  fix x
  assume "ed_holds (b\<lparr>eb_lines := x\<rparr>) (ls[r := take (length (ls ! r)) (ls ! r) @ ls ! Suc r @ drop (length (ls ! r)) (ls ! r)])"
  then have h1: "ed_holds (b\<lparr>eb_lines := x\<rparr>) (ls[r := ls ! r @ ls ! Suc r])" by simp
  have "ed_ok (edalloc_buffer_remove_line j) (b\<lparr>eb_lines := x\<rparr>) (\<lambda>_ b'. ed_ok m b' Q)"
    by (rule ed_ok_remove_line [OF h1 r(2)]) (use r(3) P in \<open>simp_all add: take_Suc_update\<close>)
  then show "ed_ok (if (1 :: int) = -1 then m' else ed_seq (edalloc_buffer_remove_line j) m) (b\<lparr>eb_lines := x\<rparr>) Q"
    by (simp add: ed_ok_seq)
qed

text \<open>What joining lines leaves: the screen still shows the old lines.\<close>

definition ed_sim_lines_only :: "edbuf \<Rightarrow> ed_text \<Rightarrow> bool" where
  "ed_sim_lines_only b e \<longleftrightarrow> ed_holds b (et_lines e) \<and> et_row e < length (et_lines e) \<and> et_col e \<le> length (et_line e) \<and>
     ed_startline b + ed_cursory b = int (et_row e) \<and> 0 \<le> ed_startline b \<and> 0 \<le> ed_cursory b \<and> ed_cursory b \<le> 28 \<and>
     ed_userstartx b + ed_userx b = int (et_want e) \<and> 0 \<le> ed_userstartx b \<and> 0 \<le> ed_userx b \<and> ed_userx b \<le> 79 \<and>
     et_dirty e \<and> \<not> bit (eb_flags b) 2 \<and> eb_fpath b = et_name e"

lemma ed_sim_redraw:
  assumes b: "ed_sim_lines_only b e" and sc: "sc \<Longrightarrow> ed_scrolled b" and col: "x = int (et_col e)"
  shows "ed_ok (edmove_set_cursorx x) b (\<lambda>_ b'. ed_ok ed_dirty b' (\<lambda>_ b'. ed_ok edutils_show_screen b' (\<lambda>_ b'. ed_ok (ed_ret 1) b'
    (\<lambda>r b'. r = 1 \<and> ed_sim b' e \<and> (sc \<longrightarrow> ed_scrolled b')))))"
proof -
  have h: "ed_holds b (et_lines e)" "0 \<le> ed_startline b" using b by (auto simp: ed_sim_lines_only_def)
  show ?thesis unfolding col ed_ok_dirty
    apply (rule ed_ok_set_cursorx [OF h])
    apply (rule ed_ok_show_screen [where ls = "et_lines e"])
    subgoal using h by simp
    subgoal using h by simp
    subgoal for nl fl out fl' out' using b sc ed_same_flagsD [of fl "eb_flags b"] ed_same_flagsD [of fl' "fl OR EDFLAG_DIRTY"]
      by (auto simp: ed_ok_ret ed_sim_def ed_sim_lines_only_def ed_shown_def ed_scrolled_def)
    done
qed

lemma ed_sim_redraw_flag:
  assumes b: "ed_sim_lines_only b e" and sc: "sc \<Longrightarrow> ed_scrolled b" and col: "x = int (et_col e)"
  shows "ed_ok (edmove_set_cursorx x) b (\<lambda>_ b'. ed_ok ed_dirty b' (\<lambda>_ b'.
    ed_ok (ed_when (ed_nlines b' < EDITOR_LINES \<and> ed_startline b' = 0) (edutils_set_flag EDFLAG_DEL_LAST_LINE True)) b'
    (\<lambda>_ b'. ed_ok edutils_show_screen b' (\<lambda>_ b'. ed_ok (ed_ret 1) b' (\<lambda>r b'. r = 1 \<and> ed_sim b' e \<and> (sc \<longrightarrow> ed_scrolled b'))))))"
proof -
  have h: "ed_holds b (et_lines e)" "0 \<le> ed_startline b" using b by (auto simp: ed_sim_lines_only_def)
  have show_screen: "ed_ok edutils_show_screen b' (\<lambda>_ b'. ed_ok (ed_ret 1) b' (\<lambda>r b'. r = 1 \<and> ed_sim b' e \<and> (sc \<longrightarrow> ed_scrolled b')))"
    if "ed_holds b' (et_lines e)" "ed_startline b' = ed_startline b" "ed_cursory b' = ed_cursory b" "ed_userx b' = ed_userx b"
      "ed_userstartx b' = ed_userstartx b" "ed_startx b' = max 0 (int (et_col e) - 79)" "ed_cursorx b' = min (int (et_col e)) 79"
      "bit (eb_flags b') 0" "\<not> bit (eb_flags b') 2" "eb_fpath b' = eb_fpath b" for b'
    apply (rule ed_ok_show_screen [OF that(1)])
    subgoal using that(2) h by simp
    subgoal for fl out using that b sc ed_same_flagsD [of fl "eb_flags b'"] ed_holds_file_lines [OF h(1)] ed_holds_file_lines [OF that(1)]
      by (auto simp: ed_ok_ret ed_sim_def ed_sim_lines_only_def ed_shown_def ed_scrolled_def)
    done
  show ?thesis unfolding col ed_ok_dirty ed_ok_when edutils_set_flag_def if_True ed_ok_set
    apply (rule ed_ok_set_cursorx [OF h])
    subgoal for nl fl out using h b ed_same_flagsD [of fl "eb_flags b"] ed_same_flagsD [OF ed_same_flags_del(2), of "fl OR EDFLAG_DIRTY"]
      by (intro ed_ifI show_screen) (auto simp: ed_sim_lines_only_def)
    done
qed

lemma ed_sim_join_left:
  assumes sim: "ed_sim b e" and c: "et_col e = 0" and r: "0 < et_row e"
  shows "ed_step_ok ededit_key_backspace b (et_backspace e)"
proof -
  note cur = ed_sim_cursor [OF sim] and h = ed_sim_holds [OF sim]
  let ?r = "et_row e - 1" and ?e = "et_backspace e"
  have row: "int (et_row e) - 1 = int ?r" "?r < length (et_lines e)" "Suc ?r < length (et_lines e)" "Suc ?r = et_row e"
    using r cur(2) by auto
  have e: "?e = e\<lparr>et_lines := take ?r (et_lines e) @ (et_lines e ! ?r @ et_lines e ! Suc ?r) # drop (Suc (Suc ?r)) (et_lines e),
     et_row := ?r, et_col := length (et_lines e ! ?r), et_dirty := True\<rparr>"
    using c r by (simp add: et_backspace_def et_join_at_def)
  have pos: "int (et_col e) = 0" "int (et_row e) \<noteq> 0" using c r by simp_all
  have n: "eb_file_lines b = int (length (et_lines e))" by (rule ed_holds_file_lines [OF h])
  show ?thesis
    unfolding ed_step_ok_def ededit_key_backspace_def ed_ok_get ed_ok_bind cur(1,3) row(1) if_P [OF pos(1)] if_not_P [OF pos(2)]
    apply (rule ed_ok_line_get [OF h refl cur(2)])
    apply (rule ed_ok_line_get [OF h refl row(2)])
    apply (simp only: ed_str_block ed_ok_ret)
    apply (rule ed_ok_join [OF h refl _ row(3) refl])
    subgoal using row(4) by simp
    subgoal using row(4) by simp
    apply (simp only: ed_ok_get ed_ok_seq ed_set_startline_def ed_set_cursory_def ed_ok_if ed_ok_set)
    apply (intro ed_ifI ed_sim_redraw_flag)
    apply (use sim n r in \<open>auto simp: e ed_sim_lines_only_def ed_sim_def et_line_def nth_append ed_scrolled_def\<close>)
    done
qed

lemma ed_sim_join_right:
  assumes sim: "ed_sim b e" and c: "et_col e = length (et_line e)" and r: "Suc (et_row e) < length (et_lines e)"
  shows "ed_step_ok ededit_key_del b (et_del e)"
proof -
  note cur = ed_sim_cursor [OF sim] and h = ed_sim_holds [OF sim]
  let ?r = "et_row e" and ?e = "et_del e"
  have row: "int (et_row e) + 1 = int (Suc ?r)" "int ?r \<noteq> int (length (et_lines e)) - 1"
    using r by auto
  have e: "?e = e\<lparr>et_lines := take ?r (et_lines e) @ (et_lines e ! ?r @ et_lines e ! Suc ?r) # drop (Suc (Suc ?r)) (et_lines e),
     et_row := ?r, et_col := length (et_lines e ! ?r), et_dirty := True\<rparr>"
    using c r by (simp add: et_del_def et_join_at_def)
  have pos: "int (et_col e) = int (length (et_lines e ! ?r))" using c by (simp add: et_line_def)
  have n: "eb_file_lines b = int (length (et_lines e))" by (rule ed_holds_file_lines [OF h])
  show ?thesis
    unfolding ed_step_ok_def ededit_key_del_def ed_ok_get ed_ok_bind cur(1,3) row(1)
    apply (rule ed_ok_line_get [OF h refl cur(2)])
    apply (simp only: ed_str_block ed_ok_ret n if_P [OF pos] if_not_P [OF row(2)])
    apply (simp only: ed_ok_bind)
    apply (rule ed_ok_line_get [OF h refl r])
    apply (simp only: ed_str_block ed_ok_ret)
    apply (rule ed_ok_join [OF h refl refl r pos refl])
    apply (simp only: ed_ok_get ed_ok_seq ed_set_startline_def ed_set_cursory_def ed_ok_when ed_ok_set)
    apply (intro ed_ifI ed_sim_redraw)
    apply (use sim n r pos in \<open>auto simp: e ed_sim_lines_only_def ed_sim_def et_line_def nth_append ed_scrolled_def\<close>)
    done
qed

lemma ed_split_lines:
  "r < length ls \<Longrightarrow> (take r ls @ x # drop r ls)[Suc r := y] = take r ls @ x # y # drop (Suc r) ls"
  by (simp add: list_update_append Cons_nth_drop_Suc [symmetric])

text \<open>The key for a new line up to the point where both lines are in the text, and the rest of it.\<close>

definition ed_enter_end :: "int \<Rightarrow> int edm" where
  "ed_enter_end n = ed_seq (edmove_set_cursorx n) (ed_seq edmove_save_cursorx
     (ed_get ed_cursory (\<lambda>y. ed_get ed_startline (\<lambda>st.
       ed_seq (if y = EDITOR_LINES - 1 then ed_set_startline (st + 1) else ed_set_cursory (y + 1))
       (ed_seq ed_dirty (ed_seq edutils_show_screen (ed_ret 1)))))))"

lemma ed_ok_enter:
  assumes sim: "ed_sim b e"
    and P: "\<And>a x. ed_holds (b\<lparr>eb_file_lines := int (length (et_lines e)) + 1, eb_allocated := a, eb_lines := x\<rparr>) (et_lines (et_enter e)) \<Longrightarrow>
      ed_ok (ed_enter_end (int (length (takeWhile (\<lambda>c. c = 0x20) (et_line e)))))
        (b\<lparr>eb_file_lines := int (length (et_lines e)) + 1, eb_allocated := a, eb_lines := x\<rparr>) Q"
  shows "ed_ok ededit_key_enter b Q"
proof -
  note cur = ed_sim_cursor [OF sim] and h = ed_sim_holds [OF sim]
  let ?l = "et_lines e ! et_row e" and ?c = "et_col e" and ?r = "et_row e"
  let ?n = "length (takeWhile (\<lambda>c. c = 0x20) (et_lines e ! et_row e))"
  let ?new = "replicate ?n 0x20 @ drop ?c ?l"
  have ls: "et_lines (et_enter e) = take ?r (et_lines e) @ take ?c ?l # ?new # drop (Suc ?r) (et_lines e)"
    by (simp add: et_enter_def et_line_def Let_def)
  have c: "\<not> (int ?c < 0 \<or> int (length ?l) < int ?c)" "nat (int ?c) = ?c" using cur(4) by auto
  have plain: "ed_plain ?l" by (rule ed_holds_plain [OF h cur(2)])
  have new_plain: "ed_plain ?new" using plain by (simp add: ed_plain_replicate)
  have size: "length (drop ?c ?l) + ?n + 1 = length ?new + 1" by simp
  have store: "ed_store 0 (replicate ?n 0x20 @ drop ?c ?l @ [0]) m = ed_ret (?new @ 0 # drop (length ?new + 1) m)"
    and new_blk: "ed_block (?new @ 0 # drop (length ?new + 1) m) ?new"
    if m: "length m = edalloc_round_size (length ?new + 1)" for m
  proof -
    have le: "length ?new + 1 \<le> length m" unfolding m by (rule edalloc_round_size_ge)
    then show "ed_store 0 (replicate ?n 0x20 @ drop ?c ?l @ [0]) m = ed_ret (?new @ 0 # drop (length ?new + 1) m)"
      by (simp add: ed_store_def overwrite_def)
    have "length (?new @ 0 # drop (length ?new + 1) m) = length m" using le by simp
    then show "ed_block (?new @ 0 # drop (length ?new + 1) m) ?new"
      using m by (intro ed_blockI [OF new_plain refl]) (simp only:)
  qed
  have zero: "ed_put_zero (int ?c) (take ?c ?l @ y # r) = ed_ret (take ?c ?l @ 0 # r)" for y r
    using cur(4) by (intro ed_put_zero_at) simp
  have old_blk: "ed_block (take ?c ?l @ 0 # r) (take ?c ?l)" if "edalloc_round_size (?c + 1) \<le> ?c + 1 + length r" for r
    by (rule ed_blockI [OF _ refl]) (use plain that cur(4) in simp_all)
  show ?thesis
    unfolding ededit_key_enter_def ed_ok_get ed_ok_bind cur(1,3)
    apply (rule ed_ok_line_get [OF h refl cur(2)])
    apply (simp only: ed_str_block ed_ok_ret Let_def if_not_P [OF c(1)] c(2) ed_ok_bind size)
    apply (rule ed_ok_line_malloc [OF _ ed_holds_oom [OF h]], simp)
    apply (simp only: option.case store ed_ok_bind ed_ok_ret)
    apply (rule ed_ok_line_cut [OF _ ed_holds_oom [OF h] cur(4)], assumption)
    apply (simp only: option.case zero ed_ok_bind ed_ok_ret)
    apply (rule ed_ok_add_line [OF h refl less_imp_le [OF cur(2)] old_blk], assumption)
    apply (simp only: ed_ok_if ed_ok_seq one_neq_zero if_False)
    apply (rule ed_ok_line_set [where k = "Suc ?r", OF _ _ _ new_blk], assumption, simp)
    subgoal using cur(2) by simp
     apply assumption
    unfolding ed_split_lines [OF cur(2)] ls [symmetric]
    subgoal for q m c' r a x x'
      using P [of x' a] by (simp add: ed_enter_end_def ed_ok_seq et_line_def)
    done
qed

lemma ed_sim_enter:
  assumes sim: "ed_sim b e"
  shows "ed_step_ok ededit_key_enter b (et_enter e)"
  unfolding ed_step_ok_def
proof (rule ed_ok_enter [OF sim])
  note cur = ed_sim_cursor [OF sim] and n = ed_sim_lines [OF sim]
  let ?n = "length (takeWhile (\<lambda>c. c = 0x20) (et_line e))" and ?ls = "et_lines (et_enter e)"
  fix a x assume h: "ed_holds (b\<lparr>eb_file_lines := int (length (et_lines e)) + 1, eb_allocated := a, eb_lines := x\<rparr>) ?ls"
  have final: "ed_ok edutils_show_screen b' (\<lambda>_ b'. ed_ok (ed_ret 1) b' (\<lambda>r b'. r = 1 \<and> ed_sim b' (et_enter e) \<and> (ed_scrolled b \<longrightarrow> ed_scrolled b')))"
    if "ed_holds b' ?ls" "ed_startline b' + ed_cursory b' = int (Suc (et_row e))" "0 \<le> ed_startline b'" "0 \<le> ed_cursory b'" "ed_cursory b' \<le> 28"
      "ed_startx b' = max 0 (int ?n - 79)" "ed_cursorx b' = min (int ?n) 79" "ed_userstartx b' = max 0 (int ?n - 79)" "ed_userx b' = min (int ?n) 79"
      "bit (eb_flags b') 0" "\<not> bit (eb_flags b') 2" "eb_fpath b' = et_name e" "ed_scrolled b \<Longrightarrow> ed_scrolled b'" for b'
    apply (rule ed_ok_show_screen [OF that(1,3)])
    subgoal for fl out using that cur(2) ed_same_flagsD [of fl "eb_flags b'"]
      by (auto simp: ed_ok_ret ed_sim_def et_enter_def et_line_def nth_append ed_shown_def ed_scrolled_def Let_def)
    done
  have cursor: "ed_startline b + ed_cursory b = int (et_row e)" "0 \<le> ed_startline b" "0 \<le> ed_cursory b" "ed_cursory b \<le> 28" "\<not> bit (eb_flags b) 2"
    "eb_fpath b = et_name e"
    using sim by (auto simp: ed_sim_def)
  show "ed_ok (ed_enter_end (int ?n)) (b\<lparr>eb_file_lines := int (length (et_lines e)) + 1, eb_allocated := a, eb_lines := x\<rparr>)
      (\<lambda>r b'. r = 1 \<and> ed_sim b' (et_enter e) \<and> (ed_scrolled b \<longrightarrow> ed_scrolled b'))"
    unfolding ed_enter_end_def ed_ok_seq
    apply (rule ed_ok_set_cursorx [OF h])
    subgoal using cur(5) by simp
    apply (simp only: ed_ok_save_cursorx ed_ok_get ed_set_startline_def ed_set_cursory_def ed_ok_if ed_ok_set ed_ok_seq ed_ok_dirty)
    apply (intro ed_ifI final)
    apply (use h in \<open>simp_all add: cursor ed_same_flagsD\<close>)
    apply (use cursor n cur(2) in \<open>auto simp: ed_scrolled_def\<close>)
    done
qed

lemma ed_sim_delline_end:
  assumes h: "ed_holds b (et_lines e)" and col: "et_col e = 0" "et_want e = 0" "et_dirty e" "et_row e < length (et_lines e)"
    and row: "ed_startline b + ed_cursory b = int r" "0 \<le> ed_startline b" "0 \<le> ed_cursory b" "ed_cursory b \<le> 28" "\<not> bit (eb_flags b) 2" "eb_fpath b = et_name e"
      "et_row e = (if length (et_lines e) = r then r - 1 else r)"
  shows "ed_ok (ed_delline_end (int r)) b (\<lambda>k b'. k = 1 \<and> ed_sim b' e \<and> (length (et_lines e) \<noteq> r \<longrightarrow> ed_startline b' = ed_startline b))"
proof -
  have n: "eb_file_lines b = int (length (et_lines e))" by (rule ed_holds_file_lines [OF h])
  have main: "ed_ok (edmove_set_cursorx 0) b' (\<lambda>_ b'. ed_ok edmove_save_cursorx b' (\<lambda>_ b'. ed_ok ed_dirty b' (\<lambda>_ b'.
      ed_ok edutils_show_screen b' (\<lambda>_ b'. ed_ok (ed_ret 1) b' (\<lambda>k b'. k = 1 \<and> ed_sim b' e \<and>
        (length (et_lines e) \<noteq> r \<longrightarrow> ed_startline b' = ed_startline b))))))"
    if b': "ed_holds b' (et_lines e)" "ed_startline b' + ed_cursory b' = int (et_row e)" "0 \<le> ed_startline b'" "0 \<le> ed_cursory b'"
      "ed_cursory b' \<le> 28" "\<not> bit (eb_flags b') 2" "eb_fpath b' = et_name e"
      "length (et_lines e) \<noteq> r \<Longrightarrow> ed_startline b' = ed_startline b" for b'
    apply (rule ed_ok_set_cursorx [OF b'(1,3)])
    apply (simp only: ed_ok_save_cursorx ed_ok_dirty)
    apply (rule ed_ok_show_screen [where ls = "et_lines e"])
    subgoal using b' by simp
    subgoal using b' by simp
    subgoal for nl fl out fl' out' using b' col ed_same_flagsD [of fl "eb_flags b'"] ed_same_flagsD [of fl' "fl OR EDFLAG_DIRTY"]
      by (auto simp: ed_ok_ret ed_sim_def ed_shown_def)
    done
  show ?thesis
    unfolding ed_delline_end_def ed_ok_get ed_ok_seq ed_ok_when ed_ok_if ed_set_startline_def ed_set_cursory_def ed_ok_set
    apply (intro ed_ifI main)
    apply (simp_all add: h)
    apply (use row n col(4) in auto)
    done
qed

lemma ed_sim_delete_line:
  assumes sim: "ed_sim b e"
  shows "ed_ok ededit_delline b (\<lambda>k b'. k = 1 \<and> ed_sim b' (et_delete_line e) \<and>
    (Suc (et_row e) < length (et_lines e) \<longrightarrow> ed_startline b' = ed_startline b))"
proof -
  note cur = ed_sim_cursor [OF sim] and h = ed_sim_holds [OF sim]
  let ?l = "et_lines e ! et_row e" and ?r = "et_row e" and ?n = "length (et_lines e)" 
  have n: "eb_file_lines b = int ?n" by (rule ed_holds_file_lines [OF h])
  have cursor: "ed_startline b + ed_cursory b = int ?r" "0 \<le> ed_startline b" "0 \<le> ed_cursory b" "ed_cursory b \<le> 28" "\<not> bit (eb_flags b) 2"
    "eb_fpath b = et_name e"
    using sim by (auto simp: ed_sim_def)
  consider (one) "int ?n = 1" "?l = []" | (clear) "int ?n = 1" "?l \<noteq> []" | (more) "int ?n \<noteq> 1" by blast
  then show ?thesis
  proof cases
    case one
    then have "?r = 0" "et_lines e = [[]]" using cur(2) by (auto simp: length_Suc_conv)
    then have "et_delete_line e = e" by (simp add: et_delete_line_def)
    then show ?thesis
      unfolding ededit_delline_def ed_ok_get ed_ok_bind cur(1) n if_P [OF one(1)]
      by (intro ed_ok_line_get [OF h refl cur(2)]) (use one sim in \<open>simp add: ed_str_block ed_ok_bind ed_ok_ret\<close>)
  next
    case clear
    then have r: "?r = 0" "et_lines e \<noteq> [[]]" using cur(2) by (auto simp: length_Suc_conv)
    have e: "et_delete_line e = e\<lparr>et_lines := [[]], et_col := 0, et_want := 0, et_dirty := True\<rparr>"
      using r clear by (simp add: et_delete_line_def)
    have one: "(1 :: nat) = 0 + 1" by simp
    have zero: "ed_put_zero 0 (take 0 ?l @ y # r) = ed_ret (0 # r)" for y r using ed_put_zero_at [of 0 "[]" y r] by simp
    have blk: "ed_block (0 # r) []" if "edalloc_round_size (0 + 1) \<le> 0 + 1 + length r" for r
      by (rule ed_blockI) (use that in simp_all)
    have ls: "(et_lines e)[0 := []] = [[]]" using clear(1) by (auto simp: length_Suc_conv)
    show ?thesis
      unfolding ededit_delline_def ed_ok_get ed_ok_bind cur(1) n if_P [OF clear(1)]
      apply (rule ed_ok_line_get [OF h refl cur(2)])
      apply (simp only: ed_str_block ed_ok_bind ed_ok_ret if_P [OF clear(2)])
      apply (subst one, rule ed_ok_line_cut [OF _ ed_holds_oom [OF h] le0], assumption)
      apply (simp only: option.case zero ed_ok_bind ed_ok_ret ed_ok_seq)
      apply (rule ed_ok_line_set [where k = 0, OF h _ _ blk], simp)
      subgoal using cur(2) r by simp
       apply assumption
      unfolding ls
      apply (rule ed_ok_mono, rule ed_sim_delline_end [where e = "et_delete_line e"])
      apply (use cursor r in \<open>simp_all add: e\<close>)
      done
  next
    case more
    then have n1: "?n \<noteq> 1" "et_lines e \<noteq> [[]]" by auto
    have e: "et_delete_line e = e\<lparr>et_lines := take ?r (et_lines e) @ drop (Suc ?r) (et_lines e),
       et_row := (if Suc ?r = ?n then ?r - 1 else ?r), et_col := 0, et_want := 0, et_dirty := True\<rparr>"
      using n1 by (simp add: et_delete_line_def)
    have len: "length (et_lines (et_delete_line e)) = ?n - 1" using cur(2) by (simp add: e)
    show ?thesis
      unfolding ededit_delline_def ed_ok_get ed_ok_bind cur(1) n if_not_P [OF more]
      apply (rule ed_ok_line_get [OF h refl cur(2)])
      apply (simp only: ed_ok_seq ed_ok_call)
      apply (rule ed_ok_remove_line [where ls = "et_lines e" and k = ?r])
      subgoal using h by simp
      subgoal by simp
      subgoal by (rule cur(2))
      apply (rule ed_ok_mono, rule ed_sim_delline_end [where e = "et_delete_line e"])
      apply (use cursor n1 cur(2) len in \<open>simp_all add: e\<close>)
      apply auto
      done
  qed
qed

subsection \<open>The keys\<close>

text \<open>The keys that edit or move by lines and characters.\<close>

definition et_is_key :: "term_key \<Rightarrow> bool" where
  "et_is_key k \<longleftrightarrow> (case k of KC_CHAR c \<Rightarrow> c_isprint c | _ \<Rightarrow>
     k \<in> {KC_UP, KC_DOWN, KC_LEFT, KC_RIGHT, KC_HOME, KC_END, KC_TAB, KC_BACKSPACE, KC_DEL, KC_ENTER, KC_CTRL_Y, KC_CTRL_E})"

lemma ed_plain_isprint: 
  assumes "c_isprint c"
  shows "ed_plain [of_int c]"
proof -
  have "uint (of_int c :: u8) = c" using assms by (simp add: c_isprint_def uint_word_of_int)
  then have "(of_int c :: u8) \<noteq> 0" "(of_int c :: u8) \<noteq> 10" "(of_int c :: u8) \<noteq> 13" using assms by (auto simp: c_isprint_def)
  then show ?thesis by simp
qed

lemma et_insert_insert: "et_row e < length (et_lines e) \<Longrightarrow> et_col e \<le> length (et_line e) \<Longrightarrow>
    et_insert t (et_insert s e) = et_insert (s @ t) e"
  by (simp add: et_insert_def et_line_def)

lemma ed_ok_move_key:
  "ed_ok m b (\<lambda>_ b'. P b') \<Longrightarrow> ed_ok (ed_bind (ed_seq m (ed_ret (1 :: int))) (\<lambda>r. if r \<noteq> 0 then ed_ret 1 else x)) b (\<lambda>r b'. r = (1 :: int) \<and> P b')"
  for m :: "unit edm"
  by (simp add: ed_ok_bind ed_ok_seq ed_ok_ret)

lemma ed_ok_col_key:
  assumes "ed_ok m b (\<lambda>_ b'. ed_sim_col b' e c \<and> (ed_scrolled b \<longrightarrow> ed_scrolled b'))"
  shows "ed_ok (ed_bind (ed_seq m (ed_seq edmove_save_cursorx (ed_ret (1 :: int)))) (\<lambda>r. if r \<noteq> 0 then ed_ret 1 else x)) b
    (\<lambda>r b'. r = (1 :: int) \<and> ed_sim b' (et_goto_col c e) \<and> (ed_scrolled b \<longrightarrow> ed_scrolled b'))"
  by (simp add: ed_ok_bind ed_ok_seq ed_ok_ret ed_ok_save_cursorx)
    (rule ed_ok_mono [OF assms], simp add: ed_sim_col_def ed_scrolled_def)

lemma ed_sim_backspace:
  assumes sim: "ed_sim b e"
  shows "ed_step_ok ededit_key_backspace b (et_backspace e)"
proof (cases "et_col e = 0 \<and> et_row e = 0")
  case True
  note cur = ed_sim_cursor [OF sim] and h = ed_sim_holds [OF sim]
  have z: "int (et_col e) = 0" "int (et_row e) = 0" using True by simp_all
  show ?thesis
    unfolding ed_step_ok_def ededit_key_backspace_def ed_ok_get ed_ok_bind cur(1,3) if_P [OF z(1)] if_P [OF z(2)]
    by (rule ed_ok_line_get [OF h refl cur(2)]) (use True sim in \<open>simp add: ed_ok_ret et_backspace_def\<close>)
next
  case False
  then show ?thesis using ed_sim_join_left [OF sim] ed_sim_remove_left [OF sim] by auto
qed

lemma ed_sim_del:
  assumes sim: "ed_sim b e"
  shows "ed_step_ok ededit_key_del b (et_del e)"
proof (cases "et_col e = length (et_line e) \<and> Suc (et_row e) = length (et_lines e)")
  case True
  note cur = ed_sim_cursor [OF sim] and h = ed_sim_holds [OF sim]
  have z: "int (et_col e) = int (length (et_lines e ! et_row e))" "int (et_row e) = int (length (et_lines e)) - 1"
    using True by (simp_all add: et_line_def)
  show ?thesis
    unfolding ed_step_ok_def ededit_key_del_def ed_ok_get ed_ok_bind cur(1,3) ed_sim_lines [OF sim]
    apply (rule ed_ok_line_get [OF h refl cur(2)])
    apply (simp only: ed_str_block ed_ok_ret if_P [OF z(1)] if_P [OF z(2)])
    apply (use True sim in \<open>simp add: ed_ok_ret et_del_def ed_sim_lines [OF sim]\<close>)
    done
next
  case False
  then show ?thesis using ed_sim_join_right [OF sim] ed_sim_remove_right [OF sim] sim by (fastforce simp: ed_sim_def)
qed

lemma ed_sim_tab:
  assumes sim: "ed_sim b e"
  shows "ed_step_ok (ed_bind (ededit_key_char 0x20) (\<lambda>r. if r \<noteq> 0 then ededit_key_char 0x20 else ed_ret r)) b (et_insert [0x20, 0x20] e)"
proof -
  have p: "ed_plain [0x20]" by simp
  have ee: "et_insert [0x20] (et_insert [0x20] e) = et_insert [0x20, 0x20] e"
    using sim et_insert_insert [of e "[0x20]" "[0x20]"] by (simp add: ed_sim_def)
  show ?thesis unfolding ed_step_ok_def ed_ok_bind
  proof (rule ed_ok_mono [OF ed_sim_char [OF sim p, unfolded ed_step_ok_def]])
    fix r :: int and b' assume 1: "r = 1 \<and> ed_sim b' (et_insert [0x20] e) \<and> (ed_scrolled b \<longrightarrow> ed_scrolled b')"
    then have "ed_step_ok (ededit_key_char 0x20) b' (et_insert [0x20, 0x20] e)" 
      using ed_sim_char [OF _ p, of b' "et_insert [0x20] e"] unfolding ee by blast
    then show "ed_ok (if r \<noteq> 0 then ededit_key_char 0x20 else ed_ret r) b'
        (\<lambda>r b'. r = 1 \<and> ed_sim b' (et_insert [0x20, 0x20] e) \<and> (ed_scrolled b \<longrightarrow> ed_scrolled b'))"
      using 1 by (auto simp: ed_step_ok_def elim!: ed_ok_mono)
  qed
qed

lemma ed_sim_key:
  assumes sim: "ed_sim b e" and k: "et_is_key k" and ok: "k = KC_DOWN \<Longrightarrow> \<not> ed_stranded b"
  shows "ed_ok (editor_key k) b (\<lambda>r b'. r = 1 \<and> ed_sim b' (et_key k e) \<and> (k \<noteq> KC_CTRL_Y \<longrightarrow> ed_scrolled b \<longrightarrow> ed_scrolled b'))"
proof -
  note defs = editor_key_def edmove_handle_key_def et_key_def
  have edit: "ed_ok (editor_key k) b (\<lambda>r b'. r = 1 \<and> ed_sim b' (et_key k e) \<and> (k \<noteq> KC_CTRL_Y \<longrightarrow> ed_scrolled b \<longrightarrow> ed_scrolled b'))"
    if "ed_step_ok m b e'" "et_key k e = e'" "edmove_handle_key k = ed_ret 0" "ededit_handle_key k = m" for m e'
    using that(1) unfolding editor_key_def that(2-4) ed_step_ok_def
    by (auto simp: ed_ok_bind ed_ok_ret elim!: ed_ok_mono)
  note edit_defs = edmove_handle_key_def et_key_def ededit_handle_key_def
  show ?thesis
  proof (cases k)
    case (KC_CHAR c)
    then have c: "c_isprint c" using k by (simp add: et_is_key_def)
    show ?thesis by (rule edit [OF ed_sim_char [OF sim ed_plain_isprint [OF c]]]) (use c in \<open>simp_all add: KC_CHAR edit_defs\<close>)
  next
    case KC_TAB
    show ?thesis by (rule edit [OF ed_sim_tab [OF sim]]) (simp_all add: KC_TAB edit_defs)
  next
    case KC_BACKSPACE
    show ?thesis by (rule edit [OF ed_sim_backspace [OF sim]]) (simp_all add: KC_BACKSPACE edit_defs)
  next
    case KC_DEL
    show ?thesis by (rule edit [OF ed_sim_del [OF sim]]) (simp_all add: KC_DEL edit_defs)
  next
    case KC_ENTER
    show ?thesis by (rule edit [OF ed_sim_enter [OF sim]]) (simp_all add: KC_ENTER edit_defs)
  next
    case KC_CTRL_E
    show ?thesis by (rule edit [OF ed_sim_delete_to_end [OF sim]]) (simp_all add: KC_CTRL_E edit_defs)
  next
    case KC_CTRL_Y
    then show ?thesis
      by (simp add: defs ededit_handle_key_def ed_ok_bind ed_ok_ret) (rule ed_ok_mono [OF ed_sim_delete_line [OF sim]], simp)
  next
    case KC_UP
    then show ?thesis using ed_ok_move_key [OF ed_sim_up [OF sim]] by (simp add: defs)
  next
    case KC_DOWN
    then show ?thesis using ed_ok_move_key [OF ed_sim_down [OF sim ok]] by (simp add: defs)
  next
    case KC_LEFT
    then show ?thesis using ed_ok_col_key [OF ed_sim_left [OF sim]] by (simp add: defs)
  next
    case KC_RIGHT
    then show ?thesis using ed_ok_col_key [OF ed_sim_right [OF sim]] by (simp add: defs)
  next
    case KC_HOME
    have "et_goto_col (et_col (et_home e)) e = et_home e" by (simp add: et_home_def et_goto_col_def Let_def)
    with KC_HOME show ?thesis using ed_ok_col_key [OF ed_sim_home [OF sim]] by (simp add: defs)
  next
    case KC_END
    then show ?thesis using ed_ok_col_key [OF ed_sim_end [OF sim]] by (simp add: defs)
  qed (use k in \<open>simp_all add: et_is_key_def\<close>)
qed

lemma ed_sim_keys:
  assumes "ed_sim b e" "ed_scrolled b" "\<forall>k \<in> set ks. et_is_key k \<and> k \<noteq> KC_CTRL_Y"
  shows "ed_ok (editor_keys ks) b (\<lambda>_ b'. ed_sim b' (fold et_key ks e) \<and> ed_scrolled b')"
  using assms
proof (induction ks arbitrary: b e)
  case (Cons k ks)
  have "ed_ok (editor_key k) b (\<lambda>r b'. r = 1 \<and> ed_sim b' (et_key k e) \<and> (k \<noteq> KC_CTRL_Y \<longrightarrow> ed_scrolled b \<longrightarrow> ed_scrolled b'))"
    using Cons.prems ed_scrolled_not_stranded by (intro ed_sim_key) auto
  then show ?case using Cons.prems by (auto simp: ed_ok_bind elim!: ed_ok_mono intro!: Cons.IH)
qed (simp add: ed_ok_ret)

lemma et_name_key: "et_name (et_key k e) = et_name e"
  by (cases k) (simp_all add: et_key_def et_goto_row_def et_goto_col_def et_home_def et_insert_def et_backspace_def et_del_def
    et_remove_at_def et_join_at_def et_enter_def et_delete_line_def et_delete_to_end_def Let_def)

lemma et_name_keys: "et_name e = x \<Longrightarrow> et_name (fold et_key ks e) = x"
  by (induction ks arbitrary: e) (simp_all add: et_name_key)

end
