(* ===== verification/Editor_File.thy ===== *)
theory Editor_File
  imports Editor_Ideal
begin

text \<open>
  Files in the editor: reading a file gives its lines, saving them gives it back with plain line ends,
  and a whole session from opening to saving writes what the ideal editor has.
\<close>

subsection \<open>Reading a file\<close>

lemma ed_fgets_line:
  "10 \<notin> set l \<Longrightarrow> length l < n \<Longrightarrow> ed_fgets n (l @ 10 # rest) = (l @ [10], rest)"
proof (induction l arbitrary: n)
  case Nil
  then show ?case by (cases n) simp_all
next
  case (Cons c l)
  then show ?case by (cases n) simp_all
qed

lemma ed_fgets_last: "10 \<notin> set l \<Longrightarrow> length l \<le> n \<Longrightarrow> ed_fgets n l = (l, [])"
proof (induction l arbitrary: n)
  case Nil
  then show ?case by (cases n) simp_all
next
  case (Cons c l)
  then show ?case by (cases n) simp_all
qed

lemma ed_strip_line:
  assumes "ed_plain l" "set eol \<subseteq> {10, 13}"
  shows "ed_strip (l @ eol) = l"
proof -
  have z: "takeWhile (\<lambda>c. c \<noteq> 0) (l @ eol) = l @ eol"
    using assms by (intro takeWhile_eq_all_conv [THEN iffD2]) (auto simp: ed_plain_def)
  have e: "dropWhile (\<lambda>c. c = 13 \<or> c = 10) (rev eol @ rev l) = dropWhile (\<lambda>c. c = 13 \<or> c = 10) (rev l)"
    using assms(2) by (intro dropWhile_append2) auto
  have l: "dropWhile (\<lambda>c. c = 13 \<or> c = 10) (rev l) = rev l"
    using assms(1) by (cases l rule: rev_cases) auto
  show ?thesis unfolding ed_strip_def z by (simp only: rev_append e l rev_rev_ident)
qed

text \<open>A line is read into a new block.\<close>

lemma ed_ok_new_line:
  assumes h: "ed_holds b ls" and l: "ed_plain l"
    and P: "\<And>a x. ed_holds (b\<lparr>eb_file_lines := int (length ls) + 1, eb_allocated := a, eb_lines := x\<rparr>) (ls @ [l])
      \<Longrightarrow> P 1 (b\<lparr>eb_file_lines := int (length ls) + 1, eb_allocated := a, eb_lines := x\<rparr>)"
  shows "ed_ok (ed_new_line l) b P"
proof -
  obtain ps where ps: "eb_file_lines b = int (length ls)" "eb_allocated b = int (length ps)" "eb_lines b = Some ps"
    "length ls < length ps" "\<And>i. i < length ls \<Longrightarrow> \<exists>q. ps ! i = Some q \<and> ed_block q (ls ! i)" "eb_oom b = []"
    using h by (auto simp: ed_holds_def)
  have store: "ed_store 0 (l @ [0]) m = ed_ret (l @ 0 # drop (length l + 1) m)"
    and blk: "ed_block (l @ 0 # drop (length l + 1) m) l" if m: "length m = edalloc_round_size (length l + 1)" for m
  proof -
    have le: "length l + 1 \<le> length m" unfolding m by (rule edalloc_round_size_ge)
    then show "ed_store 0 (l @ [0]) m = ed_ret (l @ 0 # drop (length l + 1) m)" by (simp add: ed_store_def overwrite_def)
    have "length (l @ 0 # drop (length l + 1) m) = length m" using le by simp
    then show "ed_block (l @ 0 # drop (length l + 1) m) l" using m by (intro ed_blockI [OF l refl]) (simp only:)
  qed
  have up: "ed_ok (edalloc_buffer_change_lines 1) (b\<lparr>eb_lines := Some (ps[length ls := Some q])\<rparr>) P" if q: "ed_block q l" for q
  proof (rule ed_ok_change_lines_up [where n = "length ls" and ps = "ps[length ls := Some q]"])
    fix ps' a
    assume a: "int (length ls) + 1 < a" "a = int (length ps')" and keep: "\<And>i. i \<le> length ls \<Longrightarrow> ps' ! i = ps[length ls := Some q] ! i"
    have "\<exists>q'. ps' ! i = Some q' \<and> ed_block q' ((ls @ [l]) ! i)" if "i < length (ls @ [l])" for i
      using that keep [of i] ps(4,5) q by (cases "i = length ls") (auto simp: nth_append)
    then have "ed_holds (b\<lparr>eb_file_lines := int (length ls) + 1, eb_allocated := a, eb_lines := Some ps'\<rparr>) (ls @ [l])"
      using a ps(6) by (auto simp: ed_holds_def)
    from P [OF this] show "P 1 (b\<lparr>eb_lines := Some (ps[length ls := Some q]), eb_file_lines := int (length ls) + 1, eb_allocated := a, eb_lines := Some ps'\<rparr>)"
      by simp
  qed (use ps in simp_all)
  show ?thesis unfolding ed_new_line_def ed_ok_bind
    apply (rule ed_ok_line_malloc [OF _ ps(6)], simp)
    apply (simp only: option.case ed_ok_get ed_ok_bind store ed_ok_ret ed_ok_seq edutils_line_set_def)
    using ps up blk by (simp add: ed_wp)
qed
text \<open>What a file holds: its lines, without the ends \<^verbatim>\<open>\n\<close> and \<^verbatim>\<open>\r\n\<close>; the last one may have no end.\<close>

function ed_raw_lines :: "u8 list \<Rightarrow> u8 list list" where
  "ed_raw_lines cs = (if cs = [] then [] else takeWhile (\<lambda>c. c \<noteq> 10) cs # ed_raw_lines (drop (Suc (length (takeWhile (\<lambda>c. c \<noteq> 10) cs))) cs))"
  by auto
termination by (relation "measure length") auto

declare ed_raw_lines.simps [simp del]

definition ed_lines_of :: "u8 list \<Rightarrow> u8 list list" where
  "ed_lines_of cs = map ed_strip (ed_raw_lines cs)"

text \<open>A file of text: no line is longer than the buffer of \<^verbatim>\<open>fgets\<close>, carriage returns are only at the ends of lines.\<close>

definition ed_readable :: "u8 list \<Rightarrow> bool" where
  "ed_readable cs \<longleftrightarrow> list_all (\<lambda>l. length l \<le> 498 \<and> ed_plain (ed_strip l)) (ed_raw_lines cs)"

lemma ed_raw_lines_Nil [simp]: "ed_raw_lines [] = []"
  by (simp add: ed_raw_lines.simps)

lemma ed_raw_lines_Cons: "10 \<notin> set l \<Longrightarrow> ed_raw_lines (l @ 10 # rest) = l # ed_raw_lines rest"
  by (subst ed_raw_lines.simps) (simp add: takeWhile_append)

lemma ed_raw_lines_last: "10 \<notin> set l \<Longrightarrow> l \<noteq> [] \<Longrightarrow> ed_raw_lines l = [l]"
proof -
  assume "10 \<notin> set l" "l \<noteq> []"
  then have tw: "takeWhile (\<lambda>c. c \<noteq> 10) l = l" by (auto simp: takeWhile_eq_all_conv)
  have "ed_raw_lines l = takeWhile (\<lambda>c. c \<noteq> 10) l # ed_raw_lines (drop (Suc (length (takeWhile (\<lambda>c. c \<noteq> 10) l))) l)"
    using \<open>l \<noteq> []\<close> by (subst ed_raw_lines.simps) simp
  then show ?thesis unfolding tw by simp
qed

lemma ed_strip_lf: "ed_strip (l @ [10]) = ed_strip l"
  by (cases "0 \<in> set l") (auto simp: ed_strip_def takeWhile_append takeWhile_eq_all_conv [THEN iffD2])

lemma ed_first_line:
  obtains (more) l rest where "cs = l @ 10 # rest" "10 \<notin> set l" | (last_line) "10 \<notin> set cs"
  by (meson split_list_first)

definition ed_loaded :: "edbuf \<Rightarrow> edbuf \<Rightarrow> bool" where
  "ed_loaded b b' \<longleftrightarrow> (\<exists>n a x. b' = b\<lparr>eb_file_lines := n, eb_allocated := a, eb_lines := x\<rparr>)"

lemma ed_loaded_refl: "ed_loaded b b"
  unfolding ed_loaded_def by (rule exI [of _ "eb_file_lines b"], rule exI [of _ "eb_allocated b"], rule exI [of _ "eb_lines b"]) simp

lemma ed_loaded_step: "ed_loaded (b\<lparr>eb_file_lines := n, eb_allocated := a, eb_lines := x\<rparr>) b' \<Longrightarrow> ed_loaded b b'"
  by (auto simp: ed_loaded_def)

lemma ed_ok_read_lines:
  "\<lbrakk>ed_holds b ls; ed_readable cs\<rbrakk> \<Longrightarrow>
   ed_ok (ed_read_lines cs) b (\<lambda>r b'. r = 1 \<and> ed_holds b' (ls @ ed_lines_of cs) \<and> ed_loaded b b')"
proof (induction "length cs" arbitrary: cs b ls rule: less_induct)
  case less
  show ?case
  proof (cases "cs = []")
    case True
    then show ?thesis using less.prems
      by (subst ed_read_lines.simps) (simp add: ed_ok_ret ed_lines_of_def ed_loaded_refl)
  next
    case False
    obtain l rest buf where f: "ed_fgets 499 cs = (buf, rest)" "ed_strip buf = ed_strip l" "ed_raw_lines cs = l # ed_raw_lines rest"
      "length rest < length cs"
    proof (cases cs rule: ed_first_line)
      case (more l rest)
      then have "length l \<le> 498" using less.prems(2) by (simp add: ed_readable_def ed_raw_lines_Cons)
      then show ?thesis using that [of "l @ [10]" rest l] more ed_fgets_line [of l 499 rest] by (simp add: ed_raw_lines_Cons ed_strip_lf)
    next
      case last_line
      then have "length cs \<le> 498" using less.prems(2) False by (simp add: ed_readable_def ed_raw_lines_last)
      then show ?thesis using that [of cs "[]" cs] last_line ed_fgets_last [of cs 499] False by (simp add: ed_raw_lines_last)
    qed
    have l: "ed_plain (ed_strip l)" and rest: "ed_readable rest" using less.prems(2) f(3) by (auto simp: ed_readable_def)
    have n: "LINE_BUFFER_SIZE - 1 = 499" by simp
    have "ed_ok (ed_bind (ed_new_line (ed_strip buf)) (\<lambda>r. if r = 0 then ed_ret 0 else ed_read_lines rest)) b
        (\<lambda>r b'. r = 1 \<and> ed_holds b' (ls @ ed_lines_of cs) \<and> ed_loaded b b')"
      unfolding f(2) ed_ok_bind
    proof (rule ed_ok_new_line [OF less.prems(1) l])
      fix a x
      let ?b = "b\<lparr>eb_file_lines := int (length ls) + 1, eb_allocated := a, eb_lines := x\<rparr>"
      assume "ed_holds ?b (ls @ [ed_strip l])"
      from less.hyps [OF f(4) this rest] show "ed_ok (if (1 :: int) = 0 then ed_ret 0 else ed_read_lines rest) ?b
          (\<lambda>r b'. r = 1 \<and> ed_holds b' (ls @ ed_lines_of cs) \<and> ed_loaded b b')"
        by (auto simp: ed_lines_of_def f(3) elim!: ed_ok_mono ed_loaded_step)
    qed
    then show ?thesis by (subst ed_read_lines.simps) (simp add: False f(1,4) n)
  qed
qed

subsection \<open>Opening and saving\<close>

definition ed_text_of :: "u8 list option \<Rightarrow> u8 list list" where
  "ed_text_of content = (case content of None \<Rightarrow> [[]] | Some cs \<Rightarrow> if cs = [] then [[]] else ed_lines_of cs)"

definition et_open :: "u8 list \<Rightarrow> u8 list option \<Rightarrow> ed_text" where
  "et_open f content = \<lparr>et_lines = ed_text_of content, et_row = 0, et_col = 0, et_want = 0, et_dirty = False, et_name = Some f\<rparr>"

lemma ed_holds_empty: "0 \<le> fsize \<Longrightarrow> ed_holds (ed_empty fname fsize [] junk) []"
  by (simp add: ed_holds_def ed_empty_def Let_def)

lemma ed_text_of_not_Nil: "ed_text_of content \<noteq> []"
  by (auto simp: ed_text_of_def ed_lines_of_def split: option.splits) (subst (asm) ed_raw_lines.simps, simp)

lemma editor_init_opens:
  assumes f: "f \<noteq> []" and text_file: "\<And>cs. content = Some cs \<Longrightarrow> ed_readable cs"
  shows "\<exists>b. editor_init (Some f) content [] junk = Inr (Some b) \<and> eb_fpath b = Some f \<and> ed_sellines b = None \<and>
    ed_holds b (ed_text_of content) \<and> bit (eb_flags b) 0 = False \<and> bit (eb_flags b) 2 = False \<and>
    ed_startx b = 0 \<and> ed_startline b = 0 \<and> ed_cursorx b = 0 \<and> ed_cursory b = 0 \<and> ed_userx b = 0 \<and> ed_userstartx b = 0 \<and>
    eb_out b = [EdInvert False]"
proof -
  let ?size = "case content of None \<Rightarrow> 0 | Some cs \<Rightarrow> int (length cs)"
  let ?b0 = "ed_empty (Some f) ?size [] junk"
  have h0: "ed_holds ?b0 []" by (intro ed_holds_empty) (simp split: option.split)
  define m where "m = (if ?size > 0 then ed_read_lines (the content) ?b0
            else ed_bind (ed_new_line []) (\<lambda>r. if r = 0 then ed_ret 0
                              else ed_seq (edutils_set_flag EDFLAG_WAS_EMPTY True) (ed_ret 1)) ?b0)"
  have "\<exists>b. m = Inr (1, b) \<and> ed_holds b (ed_text_of content) \<and> (\<exists>n a x fl. b = ?b0\<lparr>eb_file_lines := n, eb_allocated := a, eb_lines := x, eb_flags := fl\<rparr> \<and> fl \<in> {0, 2})"
  proof (cases "?size > 0")
    case True
    then obtain cs where cs: "content = Some cs" "cs \<noteq> []" by (cases content) auto
    obtain r b where b: "ed_read_lines cs ?b0 = Inr (r, b)" "r = 1" "ed_holds b (ed_lines_of cs)" "ed_loaded ?b0 b"
      using ed_okD [OF ed_ok_read_lines [OF h0 text_file [OF cs(1)]]] cs by auto
    then obtain n a x where x: "b = ?b0\<lparr>eb_file_lines := n, eb_allocated := a, eb_lines := x\<rparr>" by (auto simp: ed_loaded_def)
    have "b = ?b0\<lparr>eb_file_lines := n, eb_allocated := a, eb_lines := x, eb_flags := 0\<rparr>"
      unfolding x by (simp add: ed_empty_def Let_def)
    then show ?thesis using b True cs by (auto simp: ed_text_of_def m_def)
  next
    case False
    then have t: "ed_text_of content = [[]]" by (auto simp: ed_text_of_def split: option.split)
    have "ed_ok (ed_bind (ed_new_line []) (\<lambda>r. if r = 0 then ed_ret 0
        else ed_seq (edutils_set_flag EDFLAG_WAS_EMPTY True) (ed_ret 1))) ?b0
      (\<lambda>r b. r = (1 :: int) \<and> ed_holds b [[]] \<and> (\<exists>n a x fl. b = ?b0\<lparr>eb_file_lines := n, eb_allocated := a, eb_lines := x, eb_flags := fl\<rparr> \<and> fl \<in> {0, 2}))"
      unfolding ed_ok_bind
      by (rule ed_ok_new_line [OF h0]) (auto simp: ed_ok_seq ed_ok_ret edutils_set_flag_def ed_ok_set ed_empty_def Let_def ed_holds_def)
    from ed_okD [OF this] False t show ?thesis by (auto simp: m_def)
  qed
  then obtain b n a x fl where m: "m = Inr (1, b)" and h: "ed_holds b (ed_text_of content)"
    and b: "b = ?b0\<lparr>eb_file_lines := n, eb_allocated := a, eb_lines := x, eb_flags := fl\<rparr>" "fl \<in> {0, 2}" by blast
  have "\<not> bit (2 :: u8) 0" "\<not> bit (2 :: u8) 2" by (simp_all add: bit_0 bit_numeral_rec)
  then have bits: "bit fl 0 = False" "bit fl 2 = False" using b(2) by auto
  let ?b = "b\<lparr>ed_cursorx := 0, ed_cursory := 0, ed_startx := 0, ed_startline := 0, ed_userx := 0,
         ed_userstartx := 0, ed_firstsel := -1, ed_lastsel := -1, eb_out := eb_out b @ [EdInvert False]\<rparr>"
  have "edalloc_buffer_new (Some f) content [] junk = (case m of Inl e \<Rightarrow> Inl e | Inr (r, b) \<Rightarrow> Inr (if r = 0 then None else Some b))"
    unfolding edalloc_buffer_new_def Let_def m_def using f by simp
  then have "edalloc_buffer_new (Some f) content [] junk = Inr (Some b)" by (simp add: m)
  then have init: "editor_init (Some f) content [] junk = Inr (Some ?b)" by (simp add: editor_init_def)
  show ?thesis
    by (rule exI [of _ ?b], intro conjI init) (use h b bits in \<open>simp_all add: ed_empty_def Let_def ed_holds_def\<close>)
qed

lemma ed_file_bytes_holds:
  assumes h: "ed_holds b ls"
  shows "ed_file_bytes b = Inr (concat (map (\<lambda>l. l @ [10]) ls), b)"
proof -
  obtain ps where ps: "eb_file_lines b = int (length ls)" "eb_lines b = Some ps" "length ls < length ps"
    "\<And>i. i < length ls \<Longrightarrow> \<exists>q. ps ! i = Some q \<and> ed_block q (ls ! i)"
    using h by (auto simp: ed_holds_def)
  have blk: "\<exists>q. p = Some q \<and> 0 \<in> set q" if p: "p \<in> set (take (length ls) ps)" for p
    
  proof -
    obtain i where "i < length (take (length ls) ps)" "take (length ls) ps ! i = p" using p unfolding in_set_conv_nth by blast
    then have "i < length ls" "ps ! i = p" by simp_all
    then show ?thesis using ps(4) [of i] by (auto simp: ed_block_def)
  qed
  have "map (\<lambda>p. takeWhile (\<lambda>c. c \<noteq> 0) (the p) @ [10]) (take (length ls) ps) = map (\<lambda>l. l @ [10]) ls"
  proof (rule nth_equalityI)
    fix i assume "i < length (map (\<lambda>p. takeWhile (\<lambda>c. c \<noteq> 0) (the p) @ [10]) (take (length ls) ps))"
    then have i: "i < length ls" using ps(3) by simp
    then obtain q where q: "ps ! i = Some q" "ed_block q (ls ! i)" using ps(4) by blast
    then have "takeWhile (\<lambda>c. c \<noteq> 0) q = ls ! i" by (auto simp: ed_block_def ed_plain_def takeWhile_append)
    then show "map (\<lambda>p. takeWhile (\<lambda>c. c \<noteq> 0) (the p) @ [10]) (take (length ls) ps) ! i = map (\<lambda>l. l @ [10]) ls ! i"
      using q i ps(3) by simp
  qed (use ps(3) in simp)
  moreover have "None \<notin> set (take (length ls) ps)" "\<not> (\<exists>p\<in>set (take (length ls) ps). 0 \<notin> set (the p))"
    using blk by (blast, fastforce)
  ultimately show ?thesis using ps(1-3) by (simp add: ed_file_bytes_def ed_get_def ed_ret_def)
qed

lemma ed_ok_save_file:
  assumes sim: "ed_sim b e" and f: "f \<noteq> []"
  shows "ed_ok (editorh_save_file True (Some f)) b (\<lambda>r b'. r = Some (f, concat (map (\<lambda>l. l @ [10]) (et_lines e))) \<and>
    ed_sim b' (e\<lparr>et_dirty := False\<rparr>) \<and> ed_scrolled b' = ed_scrolled b)"
proof -
  have bits: "bit (eb_flags b AND NOT EDFLAG_DIRTY) 0 = False" "bit (eb_flags b AND NOT EDFLAG_DIRTY) 2 = bit (eb_flags b) 2"
    unfolding bit_and_iff bit_not_iff bit_1_iff by (auto dest: bit_imp_le_length)
  have bytes: "ed_ok ed_file_bytes b P \<longleftrightarrow> P (concat (map (\<lambda>l. l @ [10]) (et_lines e))) b" for P
    by (simp add: ed_ok_def ed_file_bytes_holds [OF ed_sim_holds [OF sim]])
  have z: "\<not> (f = [] \<or> \<not> True)" using f by simp
  show ?thesis
    unfolding editorh_save_file_def option.case if_not_P [OF z] ed_ok_bind bytes ed_ok_seq edutils_set_flag_def if_False ed_ok_set
    by (rule ed_ok_status) (use sim bits in \<open>auto simp: ed_ok_ret ed_sim_def et_line_def ed_shown_def ed_scrolled_def\<close>)
qed

lemma editor_starts:
  assumes f: "f \<noteq> []" and text_file: "\<And>cs. content = Some cs \<Longrightarrow> ed_readable cs"
  shows "\<exists>b. editor_init (Some f) content [] junk = Inr (Some b) \<and>
    ed_ok edutils_show_screen b (\<lambda>_ b'. ed_sim b' (et_open f content) \<and> ed_scrolled b')"
proof -
  from editor_init_opens [OF assms, of content junk]
  obtain b where b: "editor_init (Some f) content [] junk = Inr (Some b)" "eb_fpath b = Some f" "ed_holds b (ed_text_of content)"
    "\<not> bit (eb_flags b) 0" "\<not> bit (eb_flags b) 2" "ed_startx b = 0" "ed_startline b = 0" "ed_cursorx b = 0" "ed_cursory b = 0"
    "ed_userx b = 0" "ed_userstartx b = 0" by auto
  have "ed_ok edutils_show_screen b (\<lambda>_ b'. ed_sim b' (et_open f content) \<and> ed_scrolled b')"
    apply (rule ed_ok_show_screen [OF b(3)])
    subgoal using b by simp
    subgoal for fl out using b ed_text_of_not_Nil [of content]
      by (auto simp: ed_sim_def et_open_def ed_shown_def ed_scrolled_def ed_same_flagsD)
    done
  then show ?thesis using b(1) by blast
qed

end
