(* ===== verification/Editor_Session.thy ===== *)
theory Editor_Session
  imports Editor Editor_File
begin

text \<open>
  Sessions of the editor: what is typed is what is saved, and the ways in which the editor leaves its
  lines or loses a text.
\<close>

subsection \<open>Sessions without faults\<close>

lemma es_run_ok:
  assumes "ed_ok m (es_buf s) P"
  shows "\<exists>x b'. es_run m s = Inr (x, s\<lparr>es_buf := b'\<rparr>) \<and> P x b'"
  using ed_okD [OF assms] by (auto simp: es_run_def)

lemma editor_round_key:
  assumes sim: "ed_sim (es_buf s) e" "ed_scrolled (es_buf s)" and k: "et_is_key k" "k \<noteq> KC_CTRL_Y"
    and keys: "es_keys s = k # ks"
  shows "\<exists>b'. ed_sim b' (et_key k e) \<and> ed_scrolled b' \<and> editor_round other s = Inr (0, s\<lparr>es_buf := b', es_keys := ks\<rparr>)"
proof -
  have get: "edhw_getkey s = Inr (k, s\<lparr>es_keys := ks\<rparr>)" by (simp add: edhw_getkey_def keys)
  have "ed_ok (editor_key k) (es_buf (s\<lparr>es_keys := ks\<rparr>)) (\<lambda>r b'. r = 1 \<and> ed_sim b' (et_key k e) \<and> ed_scrolled b')"
    using ed_sim_key [OF sim(1) k(1)] ed_scrolled_not_stranded [OF sim(2)] sim(2) k(2)
    by (auto elim!: ed_ok_mono)
  from es_run_ok [OF this] obtain b' where
    "es_run (editor_key k) (s\<lparr>es_keys := ks\<rparr>) = Inr (1, s\<lparr>es_keys := ks, es_buf := b'\<rparr>)" "ed_sim b' (et_key k e)" "ed_scrolled b'"
    by auto
  moreover have "s\<lparr>es_keys := ks, es_buf := b'\<rparr> = s\<lparr>es_buf := b', es_keys := ks\<rparr>" by (cases s) simp
  ultimately show ?thesis unfolding editor_round_def get by auto
qed

lemma editor_loop_keys:
  assumes "ed_sim (es_buf s) e" "ed_scrolled (es_buf s)" "\<forall>k \<in> set ks. et_is_key k \<and> k \<noteq> KC_CTRL_Y" "es_keys s = ks @ rest"
  shows "\<exists>b'. ed_sim b' (fold et_key ks e) \<and> ed_scrolled b' \<and> editor_loop other s = editor_loop other (s\<lparr>es_buf := b', es_keys := rest\<rparr>)"
  using assms
proof (induction ks arbitrary: s e)
  case Nil
  then have "rest = es_keys s" by simp
  then show ?case using Nil.prems(1,2) by (intro exI [of _ "es_buf s"]) simp
next
  case (Cons k ks)
  from editor_round_key [of s e k "ks @ rest" other] Cons.prems obtain b1
    where b1: "ed_sim b1 (et_key k e)" "ed_scrolled b1" "editor_round other s = Inr (0, s\<lparr>es_buf := b1, es_keys := ks @ rest\<rparr>)" by auto
  have "\<exists>b'. ed_sim b' (fold et_key ks (et_key k e)) \<and> ed_scrolled b' \<and>
      editor_loop other (s\<lparr>es_buf := b1, es_keys := ks @ rest\<rparr>) =
      editor_loop other (s\<lparr>es_buf := b1, es_keys := ks @ rest, es_buf := b', es_keys := rest\<rparr>)"
    using b1 Cons.prems by (intro Cons.IH) auto
  then obtain b' where b': "ed_sim b' (fold et_key ks (et_key k e))" "ed_scrolled b'"
      "editor_loop other (s\<lparr>es_buf := b1, es_keys := ks @ rest\<rparr>) =
      editor_loop other (s\<lparr>es_buf := b1, es_keys := ks @ rest, es_buf := b', es_keys := rest\<rparr>)" by blast
  have "editor_loop other s = editor_loop other (s\<lparr>es_buf := b1, es_keys := ks @ rest\<rparr>)"
    by (subst editor_loop.simps) (simp add: b1(3))
  also note b'(3)
  finally show ?case using b'(1,2) by (intro exI [of _ b']) (cases s, simp)
qed
lemma editor_key_other: "editor_key KC_F2 = ed_ret 0" "editor_key KC_F10 = ed_ret 0"
  by (simp_all add: editor_key_def edmove_handle_key_def ededit_handle_key_def ed_bind_def ed_ret_def fun_eq_iff)

lemma edhw_dlg_yes_no:
  "edhw_dlg_loop 3 (KC_CHAR 0x79 # ks) = Some (EDHW_DLG_YES, ks)"
  "edhw_dlg_loop 3 (KC_CHAR 0x6E # ks) = Some (EDHW_DLG_NO, ks)"
  by (simp_all add: edhw_dlg_choice_def edhw_dlg_chars_def ed_toupper_def Let_def upt_rec bit_numeral_rec bit_0)

text \<open>The function key 2 writes the text.\<close>

lemma editor_loop_save:
  assumes sim: "ed_sim (es_buf s) e" and f: "et_name e = Some f" "f \<noteq> []" and keys: "es_keys s = KC_F2 # k # ks" and io: "es_io s = []"
  shows "\<exists>b'. ed_sim b' (e\<lparr>et_dirty := False\<rparr>) \<and> editor_loop other s =
    editor_loop other (s\<lparr>es_buf := b', es_keys := ks, es_files := es_files s @ [(f, concat (map (\<lambda>l. l @ [10]) (et_lines e)))]\<rparr>)"
proof -
  let ?s = "s\<lparr>es_keys := k # ks\<rparr>"
  have name: "eb_fpath (es_buf s) = Some f" using sim f by (simp add: ed_sim_def)
  from es_run_ok [of "editorh_save_file True (Some f)" ?s] ed_ok_save_file [of "es_buf ?s" e f] sim f(2)
  obtain b' where b': "es_run (editorh_save_file True (Some f)) ?s = Inr (Some (f, concat (map (\<lambda>l. l @ [10]) (et_lines e))), ?s\<lparr>es_buf := b'\<rparr>)"
    "ed_sim b' (e\<lparr>et_dirty := False\<rparr>)" by fastforce
  have io': "?s\<lparr>es_io := tl (es_io ?s)\<rparr> = ?s" using io by (cases s) simp
  have get: "edhw_getkey s = Inr (KC_F2, ?s)" by (simp add: edhw_getkey_def keys)
  have key: "es_run (editor_key KC_F2) ?s = Inr (0, ?s)" by (simp add: editor_key_other es_run_def ed_ret_def)
  have "editor_save_to (Some f) ?s = Inr (1, s\<lparr>es_buf := b', es_keys := ks, es_files := es_files s @ [(f, concat (map (\<lambda>l. l @ [10]) (et_lines e)))]\<rparr>)"
    unfolding editor_save_to_def io' using f(2) io b'(1) by (cases s) (simp add: edhw_msg_def edhw_getkey_def)
  then have "editor_round other s = Inr (0, s\<lparr>es_buf := b', es_keys := ks, es_files := es_files s @ [(f, concat (map (\<lambda>l. l @ [10]) (et_lines e)))]\<rparr>)"
    by (simp add: editor_round_def get key editor_command_def editor_save_file_def name)
  then show ?thesis using b'(2) by (intro exI [of _ b']) (subst editor_loop.simps, simp)
qed

text \<open>The function key 10 leaves a saved text after one question.\<close>

lemma editor_loop_exit:
  assumes sim: "ed_sim (es_buf s) e" and dirty: "\<not> et_dirty e" and keys: "es_keys s = KC_F10 # KC_CHAR 0x79 # ks"
  shows "editor_loop other s = Inr (s\<lparr>es_keys := ks\<rparr>)"
proof -
  let ?s = "s\<lparr>es_keys := KC_CHAR 0x79 # ks\<rparr>"
  have get: "edhw_getkey s = Inr (KC_F10, ?s)" by (simp add: edhw_getkey_def keys)
  have key: "es_run (editor_key KC_F10) ?s = Inr (0, ?s)" by (simp add: editor_key_other es_run_def ed_ret_def)
  have clean: "\<not> edutils_is_flag_set EDFLAG_DIRTY (es_buf s)"
    using sim dirty bit_iff_and_push_bit_not_eq_0 [of "eb_flags (es_buf s)" 0] by (simp add: edutils_is_flag_set_def ed_sim_def)
  have "editor_exit ?s = Inr (EDITOR_EXIT_CODE, s\<lparr>es_keys := ks\<rparr>)"
    unfolding editor_exit_def edhw_dlg_def using clean by (simp add: edhw_dlg_yes_no del: edhw_dlg_loop.simps)
  then have "editor_round other s = Inr (EDITOR_EXIT_CODE, s\<lparr>es_keys := ks\<rparr>)"
    by (simp add: editor_round_def get key editor_command_def)
  then show ?thesis by (subst editor_loop.simps) simp
qed

lemma ed_session:
  assumes "f \<noteq> []" "\<And>cs. content = Some cs \<Longrightarrow> ed_readable cs" "\<forall>k \<in> set ks. et_is_key k \<and> k \<noteq> KC_CTRL_Y"
  shows "\<exists>b s. editor_init (Some f) content [] junk = Inr (Some b) \<and>
    editor_mainloop other \<lparr>es_buf = b, es_keys = ks @ [KC_F2, KC_ENTER, KC_F10, KC_CHAR 0x79], es_io = [], es_files = []\<rparr> = Inr s \<and>
    es_keys s = [] \<and> es_files s = [(f, concat (map (\<lambda>l. l @ [10]) (et_lines (fold et_key ks (et_open f content)))))]"
proof -
  let ?rest = "[KC_F2, KC_ENTER, KC_F10, KC_CHAR 0x79]" and ?e = "fold et_key ks (et_open f content)"
  obtain b where init: "editor_init (Some f) content [] junk = Inr (Some b)"
    and scr: "ed_ok edutils_show_screen b (\<lambda>_ b'. ed_sim b' (et_open f content) \<and> ed_scrolled b')"
    using editor_starts [OF assms(1,2)] by blast
  let ?s = "\<lparr>es_buf = b, es_keys = ks @ ?rest, es_io = [], es_files = []\<rparr>"
  from es_run_ok [of edutils_show_screen ?s] scr obtain b1 where
    b1: "es_run edutils_show_screen ?s = Inr ((), ?s\<lparr>es_buf := b1\<rparr>)" "ed_sim b1 (et_open f content)" "ed_scrolled b1" by auto
  from editor_loop_keys [of "?s\<lparr>es_buf := b1\<rparr>" "et_open f content" ks ?rest other] b1 assms(3) obtain b2 where
    b2: "ed_sim b2 ?e" "editor_loop other (?s\<lparr>es_buf := b1\<rparr>) = editor_loop other (?s\<lparr>es_buf := b2, es_keys := ?rest\<rparr>)" by auto
  have name: "et_name ?e = Some f"
    by (rule et_name_keys) (simp add: et_open_def)
  from editor_loop_save [of "?s\<lparr>es_buf := b2, es_keys := ?rest\<rparr>" ?e f KC_ENTER "[KC_F10, KC_CHAR 0x79]" other] b2(1) name assms(1) obtain b3 where
    b3: "ed_sim b3 (?e\<lparr>et_dirty := False\<rparr>)" "editor_loop other (?s\<lparr>es_buf := b2, es_keys := ?rest\<rparr>) =
      editor_loop other (?s\<lparr>es_buf := b3, es_keys := [KC_F10, KC_CHAR 0x79], es_files := [(f, concat (map (\<lambda>l. l @ [10]) (et_lines ?e)))]\<rparr>)"
    by auto
  from editor_loop_exit [of "?s\<lparr>es_buf := b3, es_keys := [KC_F10, KC_CHAR 0x79], es_files := [(f, concat (map (\<lambda>l. l @ [10]) (et_lines ?e)))]\<rparr>" _ "[]" other] b3(1)
  have "editor_loop other (?s\<lparr>es_buf := b1\<rparr>) =
      Inr (?s\<lparr>es_buf := b3, es_keys := [], es_files := [(f, concat (map (\<lambda>l. l @ [10]) (et_lines ?e)))]\<rparr>)"
    unfolding b2(2) b3(2) by simp
  then have "editor_mainloop other ?s = Inr (?s\<lparr>es_buf := b3, es_keys := [], es_files := [(f, concat (map (\<lambda>l. l @ [10]) (et_lines ?e)))]\<rparr>)"
    unfolding editor_mainloop_def b1(1) by simp
  then show ?thesis using init by auto
qed


subsection \<open>Properties of the keys and of files\<close>


lemma ed_raw_lines_terminated:
  assumes "\<forall>l \<in> set ls. ed_plain l"
  shows "ed_raw_lines (concat (map (\<lambda>l. l @ [10]) ls)) = ls" "ed_raw_lines (concat (map (\<lambda>l. l @ [13, 10]) ls)) = map (\<lambda>l. l @ [13]) ls"
  using assms
proof (induction ls)
  case (Cons l ls)
  { case 1 then show ?case using Cons by (simp add: ed_raw_lines_Cons ed_plain_def) }
  { case 2
    then have "ed_raw_lines ((l @ [13]) @ 10 # concat (map (\<lambda>l. l @ [13, 10]) ls)) = (l @ [13]) # map (\<lambda>l. l @ [13]) ls"
      using Cons by (subst ed_raw_lines_Cons) (auto simp: ed_plain_def)
    then show ?case by simp }
qed simp_all

lemma ed_lines_terminated:
  assumes ls: "\<forall>l \<in> set ls. ed_plain l \<and> length l \<le> 497" and eol: "eol \<in> {[10], [13, 10]}"
  shows "ed_lines_of (concat (map (\<lambda>l. l @ eol) ls)) = ls" "ed_readable (concat (map (\<lambda>l. l @ eol) ls))"
proof -
  have p: "\<forall>l \<in> set ls. ed_plain l" using ls by blast
  have s: "ed_strip l = l" "ed_strip (l @ [13]) = l" if "l \<in> set ls" for l
    using ed_strip_line [of l "[]"] ed_strip_line [of l "[13]"] ls that by auto
  have len: "length l \<le> 498" "length l \<le> 497" "ed_plain l" if "l \<in> set ls" for l using ls that by fastforce+
  show "ed_lines_of (concat (map (\<lambda>l. l @ eol) ls)) = ls" "ed_readable (concat (map (\<lambda>l. l @ eol) ls))"
    using eol s len by (auto simp: ed_lines_of_def ed_readable_def ed_raw_lines_terminated [OF p] list_all_iff map_idI)
qed

text \<open>C30. Opening a text file and saving it gives the same lines with plain line ends: a file with \<open>\n\<close> is unchanged, a
  file with \<open>\r\n\<close> loses the carriage returns.\<close>

theorem editor_open_save:
  assumes "f \<noteq> []" "ls \<noteq> []" "\<forall>l \<in> set ls. ed_plain l \<and> length l \<le> 497" "eol \<in> {[10], [13, 10]}"
  shows "\<exists>b s. editor_init (Some f) (Some (concat (map (\<lambda>l. l @ eol) ls))) [] junk = Inr (Some b) \<and>
    editor_mainloop other \<lparr>es_buf = b, es_keys = [KC_F2, KC_ENTER, KC_F10, KC_CHAR 0x79], es_io = [], es_files = []\<rparr> = Inr s \<and>
    es_files s = [(f, concat (map (\<lambda>l. l @ [10]) ls))]"
proof -
  obtain l ls' where "ls = l # ls'" using assms(2) by (cases ls) auto
  then have "ed_text_of (Some (concat (map (\<lambda>l. l @ eol) ls))) = ls"
    using ed_lines_terminated(1) [OF assms(3,4)] assms(4) by (auto simp: ed_text_of_def)
  then have "et_lines (et_open f (Some (concat (map (\<lambda>l. l @ eol) ls)))) = ls" by (simp add: et_open_def)
  then show ?thesis
    using ed_session [OF assms(1), of "Some (concat (map (\<lambda>l. l @ eol) ls))" "[]" junk other] ed_lines_terminated(2) [OF assms(3,4)]
    by auto
qed

subsection \<open>Witnesses\<close>





lemma editor_open_save_witness:
  "\<exists>b s. editor_init (Some [0x66]) (Some [0x61, 13, 10, 13, 10]) [] (\<lambda>_. 0) = Inr (Some b) \<and>
    editor_mainloop (\<lambda>_ _. 0) \<lparr>es_buf = b, es_keys = [KC_F2, KC_ENTER, KC_F10, KC_CHAR 0x79], es_io = [], es_files = []\<rparr> = Inr s \<and>
    es_files s = [([0x66], [0x61, 10, 10])]"
  using editor_open_save [of "[0x66]" "[[0x61], []]" "[13, 10]" "\<lambda>_. 0" "\<lambda>_ _. 0"] by simp

end
