(* ===== verification/Editor_Limits.thy ===== *)
theory Editor_Limits
  imports Editor_Session
begin

text \<open>
  Where the editor stops being an ideal editor: the line it goes to, the cursor below the last line, the
  key that deletes to the beginning of a line, and texts that are lost on leaving.
\<close>

subsection \<open>Reading entries that hold no line\<close>

lemma ed_seq_silent: "ed_silent m b \<Longrightarrow> (\<And>out. k (b\<lparr>eb_out := out\<rparr>) = Inl x) \<Longrightarrow> ed_seq m k b = Inl x"
  by (auto simp: ed_silent_def ed_seq_def ed_bind_def)

lemma ed_seq_set: "ed_seq (ed_set f) k b = k (f b)"
  by (simp add: ed_seq_def ed_bind_def ed_set_def)

lemma ed_cursor_check_outside:
  assumes "eb_lines b = Some ps" "ed_lineid b < 0 \<or> eb_file_lines b \<le> ed_lineid b"
  shows "edmove_cursor_check b = Inl OutOfBounds"
  using assms by (auto simp: edmove_cursor_check_def ed_crt_string_def ed_get_def ed_bind_def edutils_line_get_def ed_fail_def)

lemma ed_stranded_down:
  assumes sim: "ed_sim b e" and s: "ed_stranded b"
  shows "editor_key KC_DOWN b = Inl OutOfBounds"
proof -
  obtain ps where ps: "eb_lines b = Some ps" using ed_sim_holds [OF sim] by (auto simp: ed_holds_def)
  have n: "eb_file_lines b \<noteq> 0" "1 < eb_file_lines b" and y: "ed_cursory b = 0" "ed_startline b = eb_file_lines b - 1"
    using s by (auto simp: ed_stranded_def)
  have sel: "\<not> edutils_is_flag_set EDFLAG_SELECT b" using sim by (simp add: edflag_select ed_sim_def)
  let ?b = "b\<lparr>ed_cursory := ed_cursory b + 1\<rparr>"
  have sel': "\<not> edutils_is_flag_set EDFLAG_SELECT ?b" using sel by (simp add: edutils_is_flag_set_def)
  have "ed_after_move ?b = (ed_seq edutils_update_selection (ed_seq edutils_display_status edmove_cursor_check)) ?b"
    using sel' by (simp add: ed_after_move_def ed_sel_follows_def ed_seq_def ed_bind_def ed_get_def ed_when_def ed_ret_def)
  also have "\<dots> = Inl OutOfBounds"
    by (rule ed_seq_silent [OF edutils_update_selection_silent], rule ed_seq_silent [OF edutils_display_status_silent],
      rule ed_cursor_check_outside) (use ps y in \<open>simp_all add: ed_lineid_def\<close>)
  finally have "ed_after_move ?b = Inl OutOfBounds" .
  then have "edmove_key_down b = Inl OutOfBounds"
    using n y by (simp add: edmove_key_down_def ed_get_def ed_seq_def ed_bind_def ed_when_def ed_set_cursory_def ed_set_def)
  then show ?thesis by (simp add: editor_key_def edmove_handle_key_def ed_bind_def ed_seq_def)
qed

lemma ed_sim_pagedown:
  assumes sim: "ed_sim b e" and more: "ed_startline b = 0" "29 < length (et_lines e)"
  shows "ed_ok (editor_key KC_PAGEDOWN) b (\<lambda>r b'. r = 1 \<and> (let st = min 29 (length (et_lines e) - 29) in
    ed_sim b' (et_goto_row (et_row e + st) e) \<and> ed_startline b' = int st))"
proof -
  note n = ed_sim_lines [OF sim]
  let ?st = "min 29 (length (et_lines e) - 29)"
  have ne: "eb_file_lines b \<noteq> 0" "\<not> ed_startline b + ed_nlines b = eb_file_lines b"
    using sim n more by (auto simp: ed_sim_def ed_shown_def)
  have st: "min (ed_startline b + EDITOR_LINES) (eb_file_lines b - EDITOR_LINES) = int ?st" using n more by auto
  have scroll: "ed_ok (ed_scroll_to (int ?st)) b (\<lambda>_ b'. ed_ok ed_after_move b' (\<lambda>_ b'. ed_sim b' (et_goto_row (et_row e + ?st) e) \<and> ed_startline b' = int ?st))"
    apply (rule ed_ok_scroll_to [OF ed_sim_holds [OF sim]])
    subgoal by simp
    subgoal using sim by (simp add: ed_sim_def)
    subgoal for fl out
      by (rule ed_ok_mono [OF ed_sim_after_move [where e = e and r = "et_row e + ?st"]])
        (use sim more n ed_same_flagsD [of fl "eb_flags b"] in \<open>auto simp: ed_sim_def ed_sim_row_def ed_shown_def\<close>)
    done
  have "ed_ok edmove_key_pagedown b (\<lambda>_ b'. ed_sim b' (et_goto_row (et_row e + ?st) e) \<and> ed_startline b' = int ?st)"
    unfolding edmove_key_pagedown_def ed_ok_get if_not_P [OF ne(1)] if_not_P [OF ne(2)] ed_ok_seq st by (rule scroll)
  then show ?thesis by (simp add: editor_key_def edmove_handle_key_def ed_ok_bind ed_ok_seq ed_ok_ret Let_def)
qed

lemma editor_key_delline: "ed_ok (editor_key KC_CTRL_Y) b P \<longleftrightarrow> ed_ok ededit_delline b P"
  by (simp add: editor_key_def edmove_handle_key_def ededit_handle_key_def ed_ok_bind ed_ok_ret)

text \<open>The lines from the one with the cursor to the one before the last are deleted.\<close>

lemma editor_loop_delete_rest:
  assumes "ed_sim (es_buf s) e" "ed_startline (es_buf s) = int (et_row e)" "es_keys s = replicate (length (et_lines e) - Suc (et_row e)) KC_CTRL_Y @ rest"
  shows "\<exists>b' e'. ed_sim b' e' \<and> length (et_lines e') = Suc (et_row e) \<and> et_row e' = et_row e \<and> ed_startline b' = int (et_row e) \<and>
    editor_loop other s = editor_loop other (s\<lparr>es_buf := b', es_keys := rest\<rparr>)"
  using assms
proof (induction "length (et_lines e) - Suc (et_row e)" arbitrary: s e)
  case 0
  then have "length (et_lines e) = Suc (et_row e)" "rest = es_keys s" by (auto simp: ed_sim_def)
  then show ?case using "0.prems"(1,2) by (intro exI [of _ "es_buf s"] exI [of _ e]) simp
next
  case (Suc k)
  let ?ks = "replicate k KC_CTRL_Y @ rest"
  have keys: "es_keys s = KC_CTRL_Y # ?ks" using Suc.hyps(2) Suc.prems(3) by (metis append_Cons replicate_Suc)
  have more: "Suc (et_row e) < length (et_lines e)" using Suc.hyps(2) by linarith
  have get: "edhw_getkey s = Inr (KC_CTRL_Y, s\<lparr>es_keys := ?ks\<rparr>)" by (simp add: edhw_getkey_def keys)
  have "ed_ok (editor_key KC_CTRL_Y) (es_buf (s\<lparr>es_keys := ?ks\<rparr>)) (\<lambda>r b'. r = 1 \<and> ed_sim b' (et_delete_line e) \<and> ed_startline b' = int (et_row e))"
    unfolding editor_key_delline using ed_sim_delete_line [OF Suc.prems(1)] more Suc.prems(2) by (auto elim!: ed_ok_mono)
  from es_run_ok [OF this] obtain b1 where
    b1: "es_run (editor_key KC_CTRL_Y) (s\<lparr>es_keys := ?ks\<rparr>) = Inr (1, s\<lparr>es_keys := ?ks, es_buf := b1\<rparr>)"
      "ed_sim b1 (et_delete_line e)" "ed_startline b1 = int (et_row e)" by auto
  let ?s = "s\<lparr>es_keys := ?ks, es_buf := b1\<rparr>" and ?e = "et_delete_line e"
  have e: "length (et_lines ?e) = length (et_lines e) - 1" "et_row ?e = et_row e"
    using more by (auto simp: et_delete_line_def)
  have round: "editor_round other s = Inr (0, ?s)" unfolding editor_round_def get using b1(1) by simp
  have "\<exists>b' e'. ed_sim b' e' \<and> length (et_lines e') = Suc (et_row ?e) \<and> et_row e' = et_row ?e \<and> ed_startline b' = int (et_row ?e) \<and>
    editor_loop other ?s = editor_loop other (?s\<lparr>es_buf := b', es_keys := rest\<rparr>)"
    by (rule Suc.hyps(1)) (use Suc.hyps(2) b1 e in simp_all)
  then obtain b' e' where "ed_sim b' e'" "length (et_lines e') = Suc (et_row e)" "et_row e' = et_row e" "ed_startline b' = int (et_row e)"
    "editor_loop other ?s = editor_loop other (?s\<lparr>es_buf := b', es_keys := rest\<rparr>)" unfolding e by blast
  moreover have "editor_loop other s = editor_loop other ?s" by (subst editor_loop.simps) (simp add: round)
  moreover have "?s\<lparr>es_buf := b', es_keys := rest\<rparr> = s\<lparr>es_buf := b', es_keys := rest\<rparr>" by (cases s) simp
  ultimately show ?case by (intro exI [of _ b'] exI [of _ e']) simp
qed

text \<open>C39. The cursor can leave the file: in any text file of more than 29 lines, Page Down, deleting all lines but the
  last from there on, and Down make the editor read an entry behind the lines of the file.\<close>

theorem editor_down_leaves_file:
  assumes "f \<noteq> []" "\<And>cs. content = Some cs \<Longrightarrow> ed_readable cs" "29 < length (ed_text_of content)"
  shows "\<exists>b. editor_init (Some f) content [] junk = Inr (Some b) \<and>
    editor_mainloop other \<lparr>es_buf = b, es_keys = KC_PAGEDOWN #
      replicate (length (ed_text_of content) - Suc (min 29 (length (ed_text_of content) - 29))) KC_CTRL_Y @ KC_DOWN # ks,
      es_io = io, es_files = files\<rparr> = Inl (EdFault OutOfBounds)"
proof -
  let ?n = "length (ed_text_of content)" and ?e = "et_open f content"
  let ?st = "min 29 (?n - 29)"
  let ?rest = "replicate (?n - Suc ?st) KC_CTRL_Y @ KC_DOWN # ks"
  obtain b where init: "editor_init (Some f) content [] junk = Inr (Some b)"
    and scr: "ed_ok edutils_show_screen b (\<lambda>_ b'. ed_sim b' ?e \<and> ed_scrolled b')"
    using editor_starts [OF assms(1,2)] by blast
  let ?s = "\<lparr>es_buf = b, es_keys = KC_PAGEDOWN # ?rest, es_io = io, es_files = files\<rparr>"
  from es_run_ok [of edutils_show_screen ?s] scr obtain b1 where
    b1: "es_run edutils_show_screen ?s = Inr ((), ?s\<lparr>es_buf := b1\<rparr>)" "ed_sim b1 ?e" "ed_scrolled b1" by auto
  have st0: "ed_startline b1 = 0" using b1(2) by (auto simp: ed_sim_def et_open_def)
  let ?s1 = "?s\<lparr>es_buf := b1, es_keys := ?rest\<rparr>" and ?e1 = "et_goto_row ?st ?e"
  have "ed_ok (editor_key KC_PAGEDOWN) (es_buf ?s1) (\<lambda>r b'. r = 1 \<and> ed_sim b' ?e1 \<and> ed_startline b' = int ?st)"
    using ed_sim_pagedown [OF b1(2) st0] assms(3) by (auto simp: et_open_def Let_def elim!: ed_ok_mono)
  from es_run_ok [OF this] obtain b2 where
    b2: "es_run (editor_key KC_PAGEDOWN) ?s1 = Inr (1, ?s1\<lparr>es_buf := b2\<rparr>)" "ed_sim b2 ?e1" "ed_startline b2 = int ?st" by auto
  have "editor_round other (?s\<lparr>es_buf := b1\<rparr>) = Inr (0, ?s1\<lparr>es_buf := b2\<rparr>)"
    using b2(1) by (simp add: editor_round_def edhw_getkey_def)
  then have 1: "editor_loop other (?s\<lparr>es_buf := b1\<rparr>) = editor_loop other (?s1\<lparr>es_buf := b2\<rparr>)"
    by (subst editor_loop.simps) simp
  from editor_loop_delete_rest [of "?s1\<lparr>es_buf := b2\<rparr>" ?e1 "KC_DOWN # ks" other] b2
  obtain b3 e3 where b3: "ed_sim b3 e3" "length (et_lines e3) = Suc ?st" "ed_startline b3 = int ?st" "et_row e3 = ?st"
    and 2: "editor_loop other (?s1\<lparr>es_buf := b2\<rparr>) = editor_loop other (?s1\<lparr>es_buf := b3, es_keys := KC_DOWN # ks\<rparr>)"
    by (auto simp: et_goto_row_def et_open_def)
  have "ed_stranded b3" using b3 ed_sim_lines [OF b3(1)] assms(3) by (auto simp: ed_stranded_def ed_sim_def)
  then have "editor_round other (?s1\<lparr>es_buf := b3, es_keys := KC_DOWN # ks\<rparr>) = Inl (EdFault OutOfBounds)"
    using ed_stranded_down [OF b3(1)] by (simp add: editor_round_def edhw_getkey_def es_run_def)
  then have "editor_loop other (?s\<lparr>es_buf := b1\<rparr>) = Inl (EdFault OutOfBounds)"
    unfolding 1 2 by (subst editor_loop.simps) simp
  then show ?thesis using init b1(1) by (auto simp: editor_mainloop_def)
qed
subsection \<open>Going to a line\<close>




subsection \<open>Deleting to the beginning of a line\<close>

definition et_delete_to_start :: "ed_text \<Rightarrow> ed_text" where
  "et_delete_to_start e = (if et_col e = 0 then e
     else e\<lparr>et_lines := (et_lines e)[et_row e := drop (et_col e) (et_line e)], et_col := 0, et_dirty := True\<rparr>)"

text \<open>
  The size of the new block is computed from the text at the old column, after the text has moved to the
  beginning. It is too small when at least as many characters are kept as are deleted and the block shrinks.
\<close>

definition ed_cuts_line :: "ed_text \<Rightarrow> bool" where
  "ed_cuts_line e \<longleftrightarrow> (let t = length (et_line e) - et_col e in 0 < et_col e \<and> et_col e \<le> t \<and>
     edalloc_round_size (t - et_col e + 1) \<noteq> edalloc_round_size (t + 1))"

lemma ed_moved_string:
  assumes q: "ed_block q l" and c: "0 < c" "c \<le> length l"
  shows "ed_str (drop c q) = ed_ret (drop c l)"
    and "ed_memmove 0 (int c) (int (length (drop c l)) + 1) q = ed_ret (drop c l @ 0 # drop (Suc (length l - c)) q)"
    and "ed_str (drop c (drop c l @ 0 # drop (Suc (length l - c)) q)) = ed_ret (if c \<le> length l - c then drop c (drop c l) else drop c l)"
proof -
  obtain r where r: "q = l @ 0 # r" using q by (auto simp: ed_block_def)
  have z: "0 \<notin> set l" "0 \<notin> set (drop k l)" for k using ed_block_plain [OF q] by (auto simp: ed_plain_def dest: in_set_dropD)
  have dq: "drop c q = drop c l @ 0 # r" using c by (simp add: r)
  show "ed_str (drop c q) = ed_ret (drop c l)" unfolding dq by (rule ed_str_zero [OF z(2)])
  have n: "nat (int (length (drop c l)) + 1) = Suc (length l - c)" by simp
  have src: "take (Suc (length l - c)) (drop c q) = drop c l @ [0]" unfolding dq by simp
  have ok: "\<not> (0 < (0 :: int) \<or> int c < 0 \<or> int (length (drop c l)) + 1 < 0 \<or> int c + (int (length (drop c l)) + 1) > int (length q))"
    using c by (simp add: r)
  show "ed_memmove 0 (int c) (int (length (drop c l)) + 1) q = ed_ret (drop c l @ 0 # drop (Suc (length l - c)) q)"
    using ok c unfolding ed_memmove_def n nat_int src by (simp add: ed_store_def overwrite_def r) arith
  show "ed_str (drop c (drop c l @ 0 # drop (Suc (length l - c)) q)) = ed_ret (if c \<le> length l - c then drop c (drop c l) else drop c l)"
  proof (cases "c \<le> length l - c")
    case True
    then have "drop c (drop c l @ 0 # drop (Suc (length l - c)) q) = drop c (drop c l) @ 0 # drop (Suc (length l - c)) q" by simp
    then show ?thesis using True ed_str_zero [of "drop c (drop c l)"] z(2) [of "c + c"] by simp
  next
    case False
    then obtain k where k: "c = Suc (length l - c) + k" by (metis Suc_leI add.commute le_Suc_ex not_le)
    have "c - (length l - c) = Suc k" "length l - c \<le> c" using k by linarith+
    then have "drop c (drop c l @ 0 # drop (Suc (length l - c)) q) = drop k (drop (Suc (length l - c)) q)"
      by (simp only: drop_append length_drop drop_Suc_Cons) simp
    also have "\<dots> = drop c q" using k by (metis add.commute drop_drop)
    finally show ?thesis using False ed_str_zero [OF z(2)] by (simp add: dq)
  qed
qed

lemma edalloc_round_size_below: "edalloc_round_size m < edalloc_round_size (n + 1) \<Longrightarrow> edalloc_round_size m \<le> n"
proof -
  assume "edalloc_round_size m < edalloc_round_size (n + 1)"
  then have "(m + LINE_ALLOCATOR_ZONE_SIZE - 1) div LINE_ALLOCATOR_ZONE_SIZE + 1 \<le> (n + 1 + LINE_ALLOCATOR_ZONE_SIZE - 1) div LINE_ALLOCATOR_ZONE_SIZE"
    by (simp add: edalloc_round_size_def)
  moreover have "((n + 1 + LINE_ALLOCATOR_ZONE_SIZE - 1) div LINE_ALLOCATOR_ZONE_SIZE) * LINE_ALLOCATOR_ZONE_SIZE \<le> n + 1 + LINE_ALLOCATOR_ZONE_SIZE - 1"
    by (rule div_times_less_eq_dividend)
  ultimately show ?thesis unfolding edalloc_round_size_def by linarith
qed

lemma ed_deltobol_fails:
  assumes sim: "ed_sim b e" and cut: "ed_cuts_line e"
  shows "ededit_deltobol b = Inl OutOfBounds"
proof -
  note cur = ed_sim_cursor [OF sim] and h = ed_sim_holds [OF sim]
  let ?l = "et_lines e ! et_row e" and ?c = "et_col e"
  let ?t = "length ?l - ?c"
  from cut have c: "0 < ?c" "?c \<le> length ?l" "?c \<le> ?t" and rs: "edalloc_round_size (?t - ?c + 1) \<noteq> edalloc_round_size (?t + 1)"
    by (auto simp: ed_cuts_line_def et_line_def Let_def)
  let ?k = "edalloc_round_size (?t - ?c + 1)"
  have "?k < edalloc_round_size (?t + 1)" using rs edalloc_round_size_mono [of "?t - ?c + 1" "?t + 1"] by linarith
  then have k: "?k \<le> ?t" by (rule edalloc_round_size_below)
  obtain q where q: "edutils_line_get (int (et_row e)) b = Inr (q, b)" "ed_block q ?l"
    using edutils_line_get_holds [OF h cur(2)] by blast
  let ?p = "drop ?c ?l @ 0 # drop (Suc ?t) q"
  have ne: "?l \<noteq> [] \<and> int ?c \<noteq> 0" using c by auto
  have zl: "0 \<notin> set ?l" using ed_block_plain [OF q(2)] by (auto simp: ed_plain_def)
  have realloc: "edalloc_line_realloc ?p (length (drop ?c (drop ?c ?l)) + 1) b = Inr (Some (take ?k (drop ?c ?l)), b)"
  proof -
    have sp: "ed_str ?p = ed_ret (drop ?c ?l)" by (rule ed_str_zero) (use zl in \<open>auto dest: in_set_dropD\<close>)
    have n: "length (drop ?c (drop ?c ?l)) + 1 = ?t - ?c + 1" by simp
    have "[length ?p..<?k] = []" using k by simp
    moreover have "take ?k ?p = take ?k (drop ?c ?l)" using k by simp
    moreover have "eb_oom b = []" by (rule ed_holds_oom [OF h])
    ultimately show ?thesis unfolding edalloc_line_realloc_def sp n using rs
      by (simp add: ed_bind_def ed_ret_def ed_malloc_def ed_get_def)
  qed
  obtain ps where ps: "eb_lines b = Some ps" "eb_file_lines b = int (length (et_lines e))" "et_row e < length ps"
    using h cur(2) by (auto simp: ed_holds_def)
  let ?b = "b\<lparr>eb_lines := Some (ps[et_row e := Some (take ?k (drop ?c ?l))])\<rparr>"
  have set: "edutils_line_set (int (et_row e)) (take ?k (drop ?c ?l)) b = Inr ((), ?b)"
    using ps by (simp add: edutils_line_set_def ed_get_def ed_set_def)
  have "0 \<notin> set (take ?k (drop ?c ?l))" using zl by (auto dest: in_set_takeD in_set_dropD)
  then have disp: "edutils_line_display y (int (et_row e)) ?b = Inl OutOfBounds" for y
    using ps cur(2) by (simp add: edutils_line_display_def edutils_line_get_def ed_bind_def ed_get_def ed_ret_def ed_str_def ed_fail_def)
  have mid: "(if ?c \<le> ?t then drop ?c (drop ?c ?l) else drop ?c ?l) = drop ?c (drop ?c ?l)" using c(3) by simp
  note steps = ed_moved_string [OF q(2) c(1,2), unfolded mid] ed_str_block [OF q(2)]
  have "ededit_deltobol b = ed_seq (edutils_line_set (int (et_row e)) (take ?k (drop ?c ?l)))
           (ed_get ed_cursory (\<lambda>y. ed_seq (edutils_line_display y (int (et_row e)))
           (ed_seq ed_dirty (ed_seq (edmove_set_cursorx 0) (ed_ret 1))))) b"
    unfolding ededit_deltobol_def ed_get_def [of ed_lineid] ed_get_def [of ed_linepos] cur(1,3) ed_bind_def [of "edutils_line_get _"] q(1)
    by (simp only: sum.case prod.case steps ed_bind_def ed_ret_def if_P [OF ne] nat_int realloc option.case)
  also have "\<dots> = Inl OutOfBounds" by (simp only: ed_seq_def ed_bind_def set sum.case prod.case ed_get_def disp)
  finally show ?thesis .
qed

lemma ed_deltobol_works:
  assumes sim: "ed_sim b e" and cut: "\<not> ed_cuts_line e"
  shows "ed_step_ok ededit_deltobol b (et_delete_to_start e)"
proof (cases "et_col e = 0")
  case True
  note cur = ed_sim_cursor [OF sim] and h = ed_sim_holds [OF sim]
  show ?thesis
    unfolding ed_step_ok_def ededit_deltobol_def ed_ok_get ed_ok_bind cur(1,3)
    by (rule ed_ok_line_get [OF h refl cur(2)]) (use True sim in \<open>simp add: ed_str_block ed_ok_ret et_delete_to_start_def\<close>)
next
  case False
  note cur = ed_sim_cursor [OF sim] and h = ed_sim_holds [OF sim]
  let ?l = "et_lines e ! et_row e" and ?c = "et_col e" and ?ls = "et_lines (et_delete_to_start e)"
  let ?t = "length ?l - ?c"
  have c: "0 < ?c" "?c \<le> length ?l" and go: "?l \<noteq> [] \<and> int ?c \<noteq> 0" using False cur(4) by auto
  have rs: "edalloc_round_size (?t - ?c + 1) = edalloc_round_size (?t + 1)" if "?c \<le> ?t"
    using that cut c by (simp add: ed_cuts_line_def et_line_def Let_def)
  have ls: "?ls = (et_lines e)[et_row e := drop ?c ?l]" using False by (simp add: et_delete_to_start_def et_line_def)
  show ?thesis
    unfolding ed_step_ok_def ededit_deltobol_def ed_ok_get ed_ok_bind cur(1,3)
  proof (rule ed_ok_line_get [OF h refl cur(2)])
    fix q assume q: "ed_block q ?l"
    let ?p = "drop ?c ?l @ 0 # drop (Suc ?t) q"
    have "length ?p = length q" using q c by (auto simp: ed_block_def)
    moreover have "edalloc_round_size (length (drop ?c ?l) + 1) \<le> edalloc_round_size (length ?l + 1)"
      by (rule edalloc_round_size_mono) simp
    ultimately have blk: "ed_block ?p (drop ?c ?l)"
      using q by (intro ed_blockI [OF _ refl]) (auto simp: ed_block_def)
    have realloc: "edalloc_line_realloc ?p (length (if ?c \<le> ?t then drop ?c (drop ?c ?l) else drop ?c ?l) + 1) = ed_ret (Some ?p)"
    proof (cases "?c \<le> ?t")
      case True
      then have "edalloc_round_size (length (drop ?c (drop ?c ?l)) + 1) = edalloc_round_size (length (drop ?c ?l) + 1)"
        using rs by simp
      then show ?thesis using True by (simp add: fun_eq_iff edalloc_line_realloc_def ed_str_block [OF blk] ed_bind_def ed_ret_def)
    qed (use edalloc_line_realloc_same [OF blk] in simp)
    note steps = ed_moved_string [OF q c] ed_str_block [OF q] realloc
    show "ed_ok (ed_str q) b (\<lambda>s b'. ed_ok (if s \<noteq> [] \<and> int ?c \<noteq> 0 then
       ed_bind (ed_str (drop (nat (int ?c)) q)) (\<lambda>tail.
       ed_bind (ed_memmove 0 (int ?c) (int (length tail) + 1) q) (\<lambda>p1.
       ed_bind (ed_str (drop (nat (int ?c)) p1)) (\<lambda>rest.
       ed_bind (edalloc_line_realloc p1 (length rest + 1)) (\<lambda>q. case q of
         None \<Rightarrow> ed_ret (-2)
       | Some m \<Rightarrow>
           ed_seq (edutils_line_set (int (et_row e)) m)
           (ed_get ed_cursory (\<lambda>y. ed_seq (edutils_line_display y (int (et_row e)))
           (ed_seq ed_dirty (ed_seq (edmove_set_cursorx 0) (ed_ret 1)))))))))
     else ed_ret 1) b' (\<lambda>r b'. r = 1 \<and> ed_sim b' (et_delete_to_start e) \<and> (ed_scrolled b \<longrightarrow> ed_scrolled b')))"
      unfolding steps(4) ed_ok_ret if_P [OF go] nat_int ed_ok_bind
      unfolding steps(1) ed_ok_ret unfolding steps(2) ed_ok_ret unfolding steps(3) ed_ok_ret unfolding steps(5) ed_ok_ret option.case ed_ok_seq
      apply (rule ed_ok_line_set [OF h refl cur(2) blk])
      unfolding ls [symmetric] ed_ok_get ed_ok_seq
      apply (rule ed_ok_line_display [where k = "et_row e"], assumption, simp)
      subgoal using cur(2) by (simp add: ls)
      unfolding ed_ok_dirty
      apply (rule ed_ok_set_cursorx, simp only: ed_holds_frame)
      subgoal using cur(5) by simp
      subgoal using sim False
        by (auto simp: ed_ok_ret ed_sim_def et_delete_to_start_def et_line_def ed_shown_def ed_scrolled_def ed_same_flagsD)
      done
  qed
qed

text \<open>C38. The key Ctrl-B, which deletes from the beginning of the line to the cursor: the text is right when the block of
  the line keeps its size or more characters are deleted than kept. Otherwise the block is cut in the middle
  of the text that is kept, its string has no end, and displaying the line reads behind the block.\<close>

theorem editor_deltobol_cuts_line:
  assumes "ed_sim b e"
  shows "if ed_cuts_line e then editor_key KC_CTRL_B b = Inl OutOfBounds
    else \<exists>b'. editor_key KC_CTRL_B b = Inr (1, b') \<and> ed_sim b' (et_delete_to_start e)"
proof -
  have key: "editor_key KC_CTRL_B b = ededit_deltobol b"
    by (simp add: editor_key_def edmove_handle_key_def ededit_handle_key_def ed_bind_def ed_ret_def)
  show ?thesis unfolding key
    using ed_deltobol_fails [OF assms] ed_okD [OF ed_deltobol_works [OF assms, unfolded ed_step_ok_def]] by auto
qed

subsection \<open>Leaving the editor\<close>

lemma edflag_dirty: "edutils_is_flag_set EDFLAG_DIRTY b \<longleftrightarrow> bit (eb_flags b) 0"
  using bit_iff_and_push_bit_not_eq_0 [of "eb_flags b" 0] by (simp add: edutils_is_flag_set_def)

lemma editor_exit_asks:
  assumes "edutils_is_flag_set EDFLAG_DIRTY (es_buf s)" "es_keys s = KC_CHAR 0x79 # KC_CHAR 0x79 # ks"
  shows "editor_exit s = ebind (if eb_fpath (es_buf s) \<noteq> None then editor_save_file (s\<lparr>es_keys := ks\<rparr>) else editor_saveas_file (s\<lparr>es_keys := ks\<rparr>))
    (\<lambda>(_, s3). Inr (EDITOR_EXIT_CODE, s3))"
  using assms by (simp add: editor_exit_def edhw_dlg_def edhw_dlg_yes_no del: edhw_dlg_loop.simps)

lemma ed_save_file_fails: "f \<noteq> [] \<Longrightarrow> es_run (editorh_save_file False (Some f)) s = Inr (None, s)"
  by (simp add: es_run_def editorh_save_file_def ed_ret_def)

text \<open>C40. A text that was changed is left with F10 by answering yes to both questions, whether to exit and whether to save:
  the text is written when it has a name and the file can be written. When the file cannot be written, or
  the text has no name and the question for one is left with Esc, the editor ends all the same and the text is
  lost.\<close>

theorem editor_exit_loses_text:
  assumes sim: "ed_sim (es_buf s) e" and dirty: "et_dirty e" and keys: "es_keys s = KC_CHAR 0x79 # KC_CHAR 0x79 # k # ks"
  shows "(et_name e = Some f \<and> f \<noteq> [] \<and> es_io s = [] \<longrightarrow> (\<exists>s'. editor_exit s = Inr (EDITOR_EXIT_CODE, s') \<and>
      es_files s' = es_files s @ [(f, concat (map (\<lambda>l. l @ [10]) (et_lines e)))])) \<and>
    (et_name e = Some f \<and> f \<noteq> [] \<and> es_io s = [False] \<longrightarrow> (\<exists>s'. editor_exit s = Inr (EDITOR_EXIT_CODE, s') \<and> es_files s' = es_files s)) \<and>
    (et_name e = None \<and> k = KC_ESC \<longrightarrow> (\<exists>s'. editor_exit s = Inr (EDITOR_EXIT_CODE, s') \<and> es_files s' = es_files s))"
proof -
  let ?s = "s\<lparr>es_keys := k # ks\<rparr>"
  have d: "edutils_is_flag_set EDFLAG_DIRTY (es_buf s)" and name: "eb_fpath (es_buf s) = et_name e"
    using sim dirty by (simp_all add: edflag_dirty ed_sim_def)
  note ask = editor_exit_asks [OF d keys, unfolded name]
  have m: "es_run ed_malloc ?s = Inr (True, ?s)"
    using ed_holds_oom [OF ed_sim_holds [OF sim]] by (simp add: es_run_def ed_malloc_def)
  show ?thesis
  proof (intro conjI impI)
    assume f: "et_name e = Some f \<and> f \<noteq> [] \<and> es_io s = []"
    from es_run_ok [of "editorh_save_file True (Some f)" "?s\<lparr>es_io := tl (es_io ?s)\<rparr>"] ed_ok_save_file [of "es_buf s" e f] sim f
    obtain b' where "es_run (editorh_save_file True (Some f)) (?s\<lparr>es_io := tl (es_io ?s)\<rparr>) =
        Inr (Some (f, concat (map (\<lambda>l. l @ [10]) (et_lines e))), ?s\<lparr>es_io := tl (es_io ?s), es_buf := b'\<rparr>)" by fastforce
    then show "\<exists>s'. editor_exit s = Inr (EDITOR_EXIT_CODE, s') \<and> es_files s' = es_files s @ [(f, concat (map (\<lambda>l. l @ [10]) (et_lines e)))]"
      using f name by (simp add: ask editor_save_file_def editor_save_to_def edhw_msg_def edhw_getkey_def)
  next
    assume f: "et_name e = Some f \<and> f \<noteq> [] \<and> es_io s = [False]"
    then show "\<exists>s'. editor_exit s = Inr (EDITOR_EXIT_CODE, s') \<and> es_files s' = es_files s"
      using name by (simp add: ask editor_save_file_def editor_save_to_def ed_save_file_fails edhw_msg_def edhw_getkey_def)
  next
    assume "et_name e = None \<and> k = KC_ESC"
    then show "\<exists>s'. editor_exit s = Inr (EDITOR_EXIT_CODE, s') \<and> es_files s' = es_files s"
      using m by (simp add: ask editor_saveas_file_def edhw_read_def)
  qed
qed

subsection \<open>Witnesses\<close>

text \<open>States of the editor after opening a file.\<close>

lemma ed_demo_open:
  assumes "\<forall>l \<in> set ls. ed_plain l \<and> length l \<le> 497" "ls \<noteq> []"
  obtains b where "ed_sim b \<lparr>et_lines = ls, et_row = 0, et_col = 0, et_want = 0, et_dirty = False, et_name = Some [0x66]\<rparr>" "ed_scrolled b"
proof -
  let ?cs = "concat (map (\<lambda>l. l @ [10]) ls)"
  have t: "ed_text_of (Some ?cs) = ls"
    using ed_lines_terminated(1) [OF assms(1), of "[10]"] assms(2) by (cases ls) (auto simp: ed_text_of_def)
  obtain b where "ed_ok edutils_show_screen b (\<lambda>_ b'. ed_sim b' (et_open [0x66] (Some ?cs)) \<and> ed_scrolled b')"
    using editor_starts [of "[0x66]" "Some ?cs" "\<lambda>_. 0"] ed_lines_terminated(2) [OF assms(1), of "[10]"] by auto
  from ed_okD [OF this] show ?thesis using that unfolding et_open_def t by blast
qed

lemma editor_down_leaves_file_witness:
  "\<exists>b. editor_init (Some [0x66]) (Some (concat (replicate 30 [0x61, 10]))) [] (\<lambda>_. 0) = Inr (Some b) \<and>
    editor_mainloop (\<lambda>_ _. 0) \<lparr>es_buf = b, es_keys = KC_PAGEDOWN # replicate 28 KC_CTRL_Y @ [KC_DOWN], es_io = [], es_files = []\<rparr> = Inl (EdFault OutOfBounds)"
proof -
  let ?ls = "replicate 30 [0x61 :: u8]"
  have cs: "concat (replicate 30 [0x61, 10]) = concat (map (\<lambda>l. l @ [10]) ?ls)" by (simp add: map_replicate)
  have ls: "\<forall>l \<in> set ?ls. ed_plain l \<and> length l \<le> 497" by simp
  have ne: "concat (replicate 30 [0x61, 10 :: u8]) \<noteq> []" by simp
  have t: "ed_text_of (Some (concat (replicate 30 [0x61, 10]))) = ?ls" "ed_readable (concat (replicate 30 [0x61, 10]))"
    using ed_lines_terminated [OF ls, of "[10]"] ne unfolding cs by (auto simp: ed_text_of_def)
  show ?thesis
    using editor_down_leaves_file [of "[0x66]" "Some (concat (replicate 30 [0x61, 10]))" "\<lambda>_. 0" "\<lambda>_ _. 0" "[]" "[]" "[]"] t by simp
qed


lemma editor_deltobol_cuts_line_witness:
  "\<exists>b e. ed_sim b e \<and> et_lines e = [replicate 25 0x61] \<and> et_col e = 1 \<and> editor_key KC_CTRL_B b = Inl OutOfBounds"
proof -
  let ?e = "\<lparr>et_lines = [replicate 25 0x61], et_row = 0, et_col = 0, et_want = 0, et_dirty = False, et_name = Some [0x66]\<rparr>"
  obtain b where b: "ed_sim b ?e" by (rule ed_demo_open [of "[replicate 25 0x61]"]) (simp_all add: ed_plain_replicate)
  let ?e1 = "et_key KC_RIGHT ?e"
  have e1: "et_lines ?e1 = [replicate 25 0x61]" "et_col ?e1 = 1" "et_row ?e1 = 0"
    by (simp_all add: et_key_def et_goto_col_def et_line_def)
  obtain b1 where b1: "ed_sim b1 ?e1" using ed_okD [OF ed_sim_key [OF b, of KC_RIGHT]] by (auto simp: et_is_key_def)
  have "ed_cuts_line ?e1" by (simp add: ed_cuts_line_def et_line_def e1 edalloc_round_size_def)
  then show ?thesis using editor_deltobol_cuts_line [OF b1] b1 e1 by auto
qed

lemma editor_exit_loses_text_witness:
  "\<exists>s s' e. ed_sim (es_buf s) e \<and> et_dirty e \<and> es_io s = [False] \<and> editor_exit s = Inr (EDITOR_EXIT_CODE, s') \<and> es_files s' = []"
proof -
  let ?e = "\<lparr>et_lines = [[0x61]], et_row = 0, et_col = 0, et_want = 0, et_dirty = False, et_name = Some [0x66]\<rparr>"
  obtain b where b: "ed_sim b ?e" by (rule ed_demo_open [of "[[0x61]]"]) simp_all
  let ?e1 = "et_key KC_ENTER ?e"
  have e1: "et_dirty ?e1" "et_name ?e1 = Some [0x66]" by (simp_all add: et_key_def et_enter_def Let_def)
  obtain b1 where b1: "ed_sim b1 ?e1" using ed_okD [OF ed_sim_key [OF b, of KC_ENTER]] by (auto simp: et_is_key_def)
  let ?s = "\<lparr>es_buf = b1, es_keys = [KC_CHAR 0x79, KC_CHAR 0x79, KC_ENTER], es_io = [False], es_files = []\<rparr>"
  have s: "ed_sim (es_buf ?s) ?e1" "es_keys ?s = KC_CHAR 0x79 # KC_CHAR 0x79 # KC_ENTER # []" using b1 by simp_all
  obtain s' where "editor_exit ?s = Inr (EDITOR_EXIT_CODE, s')" "es_files s' = []"
    using editor_exit_loses_text [OF s(1) e1(1) s(2), of "[0x66]"] e1 by auto
  then show ?thesis using s(1) e1(1) by (intro exI [of _ ?s] exI [of _ s'] exI [of _ ?e1]) simp
qed

end
