(* ===== verification/Spec2Isabelle.thy ===== *)
theory Spec2Isabelle
  imports Buf Rfs_System Elua_Int Romfs Sermux Xmodem Vtmr Devman_System Genstd Salloc_Client
    Linenoise_Ideal Bitarray Ps2_Ideal Vram_Box Editor_Limits
begin

text \<open>
  A verification development for eLua (Embedded Lua), the firmware that runs Lua on
  microcontrollers without an operating system. Lua itself, the network stack, FatFs and the
  drivers of the targets are third-party or hardware code; what is modelled here is eLua's own C
  code between them: buffers, interrupts, files, serial links, memory, timers and the console.

  \<^bold>\<open>The parts and how they interact.\<close>
  Interrupt handlers on the target feed two kinds of bounded queues: the rings of received bytes
  of \<^verbatim>\<open>src/buf.c\<close>, one per UART, and the queue of interrupts for the Lua machine of
  \<^verbatim>\<open>src/elua_int.c\<close>. With the serial multiplexer the rings belong to virtual UARTs whose bytes share
  one physical line (\<^verbatim>\<open>src/common_uart.c\<close> on the target, \<^verbatim>\<open>mux_src/main.c\<close> on the PC). Over such a line
  run the remote file system (client in \<^verbatim>\<open>src/remotefs\<close>, server in \<^verbatim>\<open>rfs_server_src\<close>), whose
  messages are written and read with the serialization layer \<^verbatim>\<open>src/eluarpc.c\<close>, and the XMODEM
  receiver \<^verbatim>\<open>src/xmodem.c\<close>. The remote and the ROM file system (\<^verbatim>\<open>src/romfs.c\<close>) and the console
  (\<^verbatim>\<open>src/newlib/genstd.c\<close>) are devices of the device manager \<^verbatim>\<open>src/newlib/devman.c\<close>, reached by the
  system calls of \<^verbatim>\<open>src/newlib/stubs.c\<close>. The same file takes heap memory from the regions of
  \<^verbatim>\<open>src/common.c\<close>, which the allocator \<^verbatim>\<open>src/salloc.c\<close> manages. The periodic timer interrupt drives the
  virtual timers of \<^verbatim>\<open>src/common_tmr.c\<close>, whose match interrupts go to the interrupt queue. The
  terminal \<^verbatim>\<open>src/term.c\<close> and the line editor \<^verbatim>\<open>src/linenoise.c\<close> serve the interactive shell; on a board
  with a PS/2 keyboard and a screen the keys come from \<^verbatim>\<open>src/ps2.c\<close> and the output goes to the text memory
  of \<^verbatim>\<open>src/vram.c\<close>. The full-screen editor \<^verbatim>\<open>src/editor\<close> reads keys, holds a file in memory, draws it and writes
  it back.

  \<^bold>\<open>The theories.\<close>
  \<^item> \<^verbatim>\<open>Elua_Prelude\<close>: integer types, C helpers (Duff's device, a byte memory, null-terminated
    strings), shared lemmas. \<^verbatim>\<open>Fifo_Interface\<close>: the locale of a bounded queue and its client lemma.
  \<^item> \<^verbatim>\<open>Buf\<close>: the ring descriptors and memory blocks of \<^verbatim>\<open>buf.c\<close> as a record, each function with its
    faults. A run of writes and reads within capacity is a list queue; no sequence of operations
    faults; what happens at a full ring and after shrinking.
  \<^item> \<^verbatim>\<open>Elua_Int\<close>: the interrupt ring, the enable masks and the Lua hook of \<^verbatim>\<open>elua_int.c\<close>, with an
    inductive step relation for the interleavings of interrupt and machine. Both queues interpret
    the locale of \<^verbatim>\<open>Fifo_Interface\<close>.
  \<^item> \<^verbatim>\<open>Rpc\<close>: the printf-like writer and the scanf-like reader of \<^verbatim>\<open>eluarpc.c\<close>; round trip, frame of
    the writer, the reader accepts encodings only. \<^verbatim>\<open>Remotefs\<close>: one pair of writer and reader per
    request and response. \<^verbatim>\<open>Rfs_Server\<close>, \<^verbatim>\<open>Rfs_Client\<close>: the handlers and the operations.
    \<^verbatim>\<open>Rfs_System\<close>: both joined through the byte-fed transport (locales \<^verbatim>\<open>chunk_sink\<close>,
    \<^verbatim>\<open>chunk_source\<close> for the chunked transfers).
  \<^item> \<^verbatim>\<open>Romfs\<close>: the image walker, descriptor table, reads, seeks and directory reads, against an image
    built from a list of files.
  \<^item> \<^verbatim>\<open>Sermux\<close>: both ends of the multiplexed line, over the rings of \<^verbatim>\<open>Buf\<close> (locale \<^verbatim>\<open>mux_channel\<close>,
    interpreted for both directions).
  \<^item> \<^verbatim>\<open>Xmodem\<close>: the receiver, over the list of what the line delivers or times out.
  \<^item> \<^verbatim>\<open>Vtmr\<close>: the virtual timers of \<^verbatim>\<open>common_tmr.c\<close> with their bit masks, against one small
    automaton per timer.
  \<^item> \<^verbatim>\<open>Devman\<close>: device table, path resolution and system calls. \<^verbatim>\<open>Devman_System\<close>: the table invariant
    and the ROM file system as a device. \<^verbatim>\<open>Genstd\<close>: the console device and its line input.
  \<^item> \<^verbatim>\<open>Elua_Memory\<close>: the heap regions and \<^verbatim>\<open>_sbrk_r\<close>. \<^verbatim>\<open>Salloc\<close>: the allocator on a byte memory with
    its block headers. \<^verbatim>\<open>Salloc_Heap\<close>, \<^verbatim>\<open>Salloc_Region\<close>, \<^verbatim>\<open>Salloc_Alloc\<close>: refinement to lists of
    blocks. \<^verbatim>\<open>Salloc_Client\<close>: arbitrary client programs against a map from owned pointers to contents.
  \<^item> \<^verbatim>\<open>Elua_Term\<close>: the terminal output with its tracked cursor and the decoding of keys. \<^verbatim>\<open>Linenoise\<close>:
    the line editor on its byte array and history. \<^verbatim>\<open>Linenoise_Ideal\<close>: its equivalence with an editor
    on the text before and after the cursor.
  \<^item> \<^verbatim>\<open>Bitarray\<close>: the packed arrays of the Lua module \<^verbatim>\<open>src/modules/bitarray.c\<close> as lists of elements.
  \<^item> \<^verbatim>\<open>Ps2\<close>: the keyboard decoder of \<^verbatim>\<open>src/ps2.c\<close>, fed by the edges of the clock line; its ring interprets
    the queue locale. \<^verbatim>\<open>Ps2_Ideal\<close>: its refinement of a keyboard that only knows the modifiers held.
  \<^item> \<^verbatim>\<open>Vram\<close>: the text screen of \<^verbatim>\<open>src/vram.c\<close> with its escape interpreter. \<^verbatim>\<open>Vram_Screen\<close>: the lines that it
    shows, its invariant, the sequences of \<^verbatim>\<open>term.c\<close> on it. \<^verbatim>\<open>Vram_Box\<close>: boxes and what they cover.
  \<^item> \<^verbatim>\<open>Edbuf\<close>: the buffer of the editor (\<^verbatim>\<open>edalloc.c\<close>, \<^verbatim>\<open>edutils.c\<close>), a line being its heap block. \<^verbatim>\<open>Edit\<close>: its keys
    (\<^verbatim>\<open>edmove.c\<close>, \<^verbatim>\<open>ededit.c\<close>). \<^verbatim>\<open>Editor\<close>: the dialogs and the main loop (\<^verbatim>\<open>edhw.c\<close>, \<^verbatim>\<open>editor.c\<close>) over a list of keys.
    \<^verbatim>\<open>Edbuf_Rules\<close>: rules for programs that do not fail, and for what they leave alone. \<^verbatim>\<open>Editor_Ideal\<close>: an editor
    on a list of lines, a row and a column, and the simulation of every key. \<^verbatim>\<open>Editor_File\<close>: files read and
    written. \<^verbatim>\<open>Editor_Session\<close>: whole sessions. \<^verbatim>\<open>Editor_Limits\<close>: where the editor fails.

  \<^bold>\<open>How state and operations correspond.\<close>
  Every C function is one definition of the same name (a few are suffixed where the name is taken)
  that passes its state explicitly, usually a record with the fields of the C structure and of the
  file's static variables. Machine integers are words of their width, with casts written out.
  Faults (a NULL dereference, an access outside a block, a write past an array) are values, so that
  safety theorems say they do not occur. Bodies of loops are definitions of their own.

  \<^bold>\<open>Parameters.\<close>
  What is not in the repository or is hardware is an argument of the definitions: the physical UART
  and the timers of a target, the POSIX calls behind the server (\<^verbatim>\<open>os_\<close> functions), the newlib hooks
  and \<^verbatim>\<open>malloc\<close> where a component only calls it, device functions in the device manager. Hypotheses
  on them are documented behaviour and each theorem with such a hypothesis has a witness that
  instantiates the parameter.

  \<^bold>\<open>Bounds and fuel.\<close>
  Loops that consume input recurse on the input; the main loop of the editor reads a key in every round,
  and stops as waiting when the list of keys is empty. The walk through a ROM image and the traversals
  of the allocator run on fuel given by the size of the image or region; theorems show that the
  result is there with that fuel (\<^verbatim>\<open>romfs_open_serves_file\<close>, \<^verbatim>\<open>salloc_client_data_safe\<close>), and
  \<^verbatim>\<open>smalloc_size_wrap_hangs\<close> that no fuel is enough in the one case where the code does not return.
  The retry loops of XMODEM count down the code's own limits. Waits of the virtual timers run the
  modelled interrupt and are shown to end.

  \<^bold>\<open>Not modelled.\<close>
  The vendored parts (Lua, uIP, FatFs, dlmalloc, vendor firmware libraries), hardware drivers and
  register definitions, bindings of Lua modules, the shell's command handlers (calls of printf and
  of the Lua state), sockets and serial ports of the PC processes, the editor's zone allocator
  (compiled out). Inside modelled components: flow control and the time-out loop of the physical
  UART, the Windows adapter of the server, what the editor's dialogs draw, the Lua program that F5 runs
  and the help on the API. The editor's keys for pages and for selecting, copying and pasting lines are
  modelled, but not part of the ideal editor; its theorems are about runs in which memory lasts, and its
  columns and lines are integers where the code has 16 bits.
\<close>

end
